(* ===== verification/Prelude.thy ===== *)
theory Prelude
  imports Complex_Main "HOL-Library.Multiset"
begin

text \<open>
  Shared vocabulary of the development.

  \<^item> The effect type \<open>('s, 'e, 'a) act\<close>: an asynchronous JavaScript function run to its end, as a
    function of the state it finds. It either rejects (\<open>Inl\<close>) or resolves (\<open>Inr\<close>), and what it
    wrote before it rejected stays written.
  \<^item> \<open>runs_in Q m\<close>: every run of \<open>m\<close> relates its first and its last state by \<open>Q\<close>. The rules that
    push this through sequencing, \<open>try/catch\<close>, \<open>finally\<close> and \<open>for\<close> loops are proved once, in the
    locale \<open>evolution\<close>, for any reflexive and transitive \<open>Q\<close>.
  \<^item> Tables as lists of rows in insertion order, with the SQL statements the repositories send.
  \<^item> JSON values and the string functions that more than one component uses.
\<close>

named_theorems effect_simps \<open>unfolding of the effect combinators\<close>
named_theorems sql_simps \<open>unfolding of the table operations\<close>

section \<open>Effects\<close>

type_synonym ('s, 'e, 'a) act = "'s \<Rightarrow> ('e + 'a) \<times> 's"

definition ret :: "'a \<Rightarrow> ('s, 'e, 'a) act" where
  "ret a = (\<lambda>s. (Inr a, s))"

definition throw :: "'e \<Rightarrow> ('s, 'e, 'a) act" where
  "throw e = (\<lambda>s. (Inl e, s))"

definition bnd :: "('s, 'e, 'a) act \<Rightarrow> ('a \<Rightarrow> ('s, 'e, 'b) act) \<Rightarrow> ('s, 'e, 'b) act" where
  "bnd m f = (\<lambda>s. case m s of (Inl e, s') \<Rightarrow> (Inl e, s') | (Inr a, s') \<Rightarrow> f a s')"

definition andthen :: "('s, 'e, 'a) act \<Rightarrow> ('s, 'e, 'b) act \<Rightarrow> ('s, 'e, 'b) act" where
  "andthen m k = bnd m (\<lambda>_. k)"

definition gets :: "('s \<Rightarrow> 'a) \<Rightarrow> ('s, 'e, 'a) act" where
  "gets f = (\<lambda>s. (Inr (f s), s))"

definition modify :: "('s \<Rightarrow> 's) \<Rightarrow> ('s, 'e, unit) act" where
  "modify f = (\<lambda>s. (Inr (), f s))"

definition state_act :: "('s \<Rightarrow> 'a \<times> 's) \<Rightarrow> ('s, 'e, 'a) act" where
  "state_act f = (\<lambda>s. case f s of (a, s') \<Rightarrow> (Inr a, s'))"

definition catching :: "('s, 'e, 'a) act \<Rightarrow> ('e \<Rightarrow> ('s, 'e, 'a) act) \<Rightarrow> ('s, 'e, 'a) act" where
  "catching m h = (\<lambda>s. case m s of (Inl e, s') \<Rightarrow> h e s' | (Inr a, s') \<Rightarrow> (Inr a, s'))"

text \<open>\<open>try m finally f\<close>: \<open>f\<close> always runs; its own rejection replaces the outcome of \<open>m\<close>.\<close>

definition finally_do :: "('s, 'e, 'a) act \<Rightarrow> ('s, 'e, unit) act \<Rightarrow> ('s, 'e, 'a) act" where
  "finally_do m f = (\<lambda>s. case m s of (r, s') \<Rightarrow>
     (case f s' of (Inl e, s'') \<Rightarrow> (Inl e, s'') | (Inr _, s'') \<Rightarrow> (r, s'')))"

fun for_each :: "'a list \<Rightarrow> ('a \<Rightarrow> ('s, 'e, unit) act) \<Rightarrow> ('s, 'e, unit) act" where
  "for_each [] f = ret ()"
| "for_each (x # xs) f = andthen (f x) (for_each xs f)"

lemma ret_run [effect_simps, simp]: "ret a s = (Inr a, s)"
  by (simp add: ret_def)

lemma throw_run [effect_simps, simp]: "throw e s = (Inl e, s)"
  by (simp add: throw_def)

lemma gets_run [effect_simps, simp]: "gets f s = (Inr (f s), s)"
  by (simp add: gets_def)

lemma modify_run [effect_simps, simp]: "modify f s = (Inr (), f s)"
  by (simp add: modify_def)

lemma state_act_run [effect_simps]:
  "state_act f s = (Inr (fst (f s)), snd (f s))"
  by (simp add: state_act_def split: prod.splits)

lemma bnd_run [effect_simps]:
  "bnd m f s = (case m s of (Inl e, s') \<Rightarrow> (Inl e, s') | (Inr a, s') \<Rightarrow> f a s')"
  by (simp add: bnd_def)

lemma andthen_run [effect_simps]:
  "andthen m k s = (case m s of (Inl e, s') \<Rightarrow> (Inl e, s') | (Inr _, s') \<Rightarrow> k s')"
  by (simp add: andthen_def bnd_def)

lemma catching_run [effect_simps]:
  "catching m h s = (case m s of (Inl e, s') \<Rightarrow> h e s' | (Inr a, s') \<Rightarrow> (Inr a, s'))"
  by (simp add: catching_def)

lemma finally_do_run [effect_simps]:
  "finally_do m f s = (case m s of (r, s') \<Rightarrow>
     (case f s' of (Inl e, s'') \<Rightarrow> (Inl e, s'') | (Inr _, s'') \<Rightarrow> (r, s'')))"
  by (simp add: finally_do_def)

text \<open>\<open>bnd\<close> makes a monad with unit \<open>ret\<close>; a rejection is a left zero.\<close>

lemma bnd_ret_left [simp]: "bnd (ret a) f = f a"
  by (simp add: bnd_def ret_def)

lemma bnd_ret_right [simp]: "bnd m ret = m"
  by (auto simp: bnd_def ret_def fun_eq_iff split: prod.splits sum.splits)

lemma bnd_assoc: "bnd (bnd m f) g = bnd m (\<lambda>a. bnd (f a) g)"
  by (auto simp: bnd_def fun_eq_iff split: prod.splits sum.splits)

lemma bnd_throw [simp]: "bnd (throw e) f = throw e"
  by (simp add: bnd_def throw_def)

subsection \<open>What every run of an action does to the state\<close>

definition runs_in :: "('s \<Rightarrow> 's \<Rightarrow> bool) \<Rightarrow> ('s, 'e, 'a) act \<Rightarrow> bool" where
  "runs_in Q m \<longleftrightarrow> (\<forall>s. Q s (snd (m s)))"

lemma runs_inD: "runs_in Q m \<Longrightarrow> Q s (snd (m s))"
  by (simp add: runs_in_def)

lemma runs_inD_run: "runs_in Q m \<Longrightarrow> m s = (r, s') \<Longrightarrow> Q s s'"
  by (metis runs_in_def snd_conv)

locale evolution =
  fixes Q :: "'s \<Rightarrow> 's \<Rightarrow> bool"
  assumes evolves_refl: "Q s s"
    and evolves_trans: "Q s t \<Longrightarrow> Q t u \<Longrightarrow> Q s u"
begin

lemma runs_in_ret [intro!]: "runs_in Q (ret a)"
  by (simp add: runs_in_def evolves_refl)

lemma runs_in_throw [intro!]: "runs_in Q (throw e)"
  by (simp add: runs_in_def evolves_refl)

lemma runs_in_gets [intro!]: "runs_in Q (gets f)"
  by (simp add: runs_in_def evolves_refl)

lemma runs_in_modify: "(\<And>s. Q s (f s)) \<Longrightarrow> runs_in Q (modify f)"
  by (simp add: runs_in_def)

lemma runs_in_state_act: "(\<And>s. Q s (snd (f s))) \<Longrightarrow> runs_in Q (state_act f)"
  by (simp add: runs_in_def state_act_run)

lemma runs_in_bnd [intro]:
  assumes "runs_in Q m" and "\<And>a. runs_in Q (f a)"
  shows "runs_in Q (bnd m f)"
  unfolding runs_in_def
proof
  fix s
  show "Q s (snd (bnd m f s))"
  proof (cases "m s")
    case (Pair r t)
    with assms(1) have "Q s t" by (rule runs_inD_run)
    show ?thesis
    proof (cases r)
      case (Inl e)
      with Pair \<open>Q s t\<close> show ?thesis by (simp add: bnd_run)
    next
      case (Inr a)
      from assms(2) have "Q t (snd (f a t))" by (rule runs_inD)
      with Pair Inr \<open>Q s t\<close> show ?thesis
        by (auto simp: bnd_run intro: evolves_trans)
    qed
  qed
qed

lemma runs_in_andthen [intro]:
  "runs_in Q m \<Longrightarrow> runs_in Q k \<Longrightarrow> runs_in Q (andthen m k)"
  by (auto simp: andthen_def)

lemma runs_in_catching [intro]:
  assumes "runs_in Q m" and "\<And>e. runs_in Q (h e)"
  shows "runs_in Q (catching m h)"
  unfolding runs_in_def
proof
  fix s
  obtain r t where m: "m s = (r, t)" by fastforce
  with assms(1) have "Q s t" by (rule runs_inD_run)
  then show "Q s (snd (catching m h s))"
    using m assms(2) [THEN runs_inD]
    by (auto simp: catching_run split: sum.splits intro: evolves_trans)
qed

lemma runs_in_finally [intro]:
  assumes "runs_in Q m" and "runs_in Q f"
  shows "runs_in Q (finally_do m f)"
  unfolding runs_in_def
proof
  fix s
  obtain r t where m: "m s = (r, t)" by fastforce
  obtain r' u where f: "f t = (r', u)" by fastforce
  from assms m f have "Q s t" "Q t u" by (auto dest: runs_inD_run)
  then have "Q s u" by (rule evolves_trans)
  with m f show "Q s (snd (finally_do m f s))"
    by (auto simp: finally_do_run split: sum.splits)
qed

lemma runs_in_for_each [intro]:
  "(\<And>x. x \<in> set xs \<Longrightarrow> runs_in Q (f x)) \<Longrightarrow> runs_in Q (for_each xs f)"
  by (induction xs) auto

lemma runs_in_if [intro]:
  "runs_in Q m \<Longrightarrow> runs_in Q k \<Longrightarrow> runs_in Q (if c then m else k)"
  by simp

end

text \<open>A loop that runs to its end established what one of its rounds established.\<close>

lemma for_each_establishes:
  assumes "for_each xs f s = (Inr u, s')" and "x \<in> set xs" and "I s"
    and keep: "\<And>y t a t'. f y t = (Inr a, t') \<Longrightarrow> I t \<Longrightarrow> I t'"
    and make: "\<And>t a t'. f x t = (Inr a, t') \<Longrightarrow> I t \<Longrightarrow> G t'"
    and stay: "\<And>y t a t'. f y t = (Inr a, t') \<Longrightarrow> G t \<Longrightarrow> G t'"
  shows "G s'"
proof -
  have rest: "for_each ys f t = (Inr u, t') \<Longrightarrow> G t \<Longrightarrow> G t'" for ys t t'
    using stay by (induction ys arbitrary: t) (auto simp: andthen_run split: prod.splits sum.splits)
  from assms(1-3) show ?thesis
  proof (induction xs arbitrary: s)
    case Nil
    then show ?case by simp
  next
    case (Cons y ys)
    from Cons.prems(1) obtain a t where y: "f y s = (Inr a, t)" and ys: "for_each ys f t = (Inr u, s')"
      by (auto simp: andthen_run split: prod.splits sum.splits)
    show ?case
    proof (cases "x = y")
      case True
      with y make Cons.prems(3) have "G t" by blast
      with rest ys show ?thesis by blast
    next
      case False
      with Cons.prems have "x \<in> set ys" "I t" using keep [OF y] by auto
      with Cons.IH ys show ?thesis by blast
    qed
  qed
qed

lemma finally_doE:
  assumes "finally_do m f s = (Inr b, s')"
  obtains s1 u where "m s = (Inr b, s1)" and "f s1 = (Inr u, s')"
  using assms by (auto simp: finally_do_run split: prod.splits sum.splits)

lemma andthenE:
  assumes "andthen m k s = (Inr b, s')"
  obtains a s1 where "m s = (Inr a, s1)" and "k s1 = (Inr b, s')"
  using assms by (auto simp: andthen_run split: prod.splits sum.splits)

lemma bndE:
  assumes "bnd m k s = (Inr b, s')"
  obtains a s1 where "m s = (Inr a, s1)" and "k a s1 = (Inr b, s')"
  using assms by (auto simp: bnd_run split: prod.splits sum.splits)

text \<open>The most used instance: an invariant kept by every run.\<close>

definition keeps :: "('s \<Rightarrow> bool) \<Rightarrow> 's \<Rightarrow> 's \<Rightarrow> bool" where
  "keeps I s t \<longleftrightarrow> (I s \<longrightarrow> I t)"

interpretation keeping: evolution "keeps I" for I
  by unfold_locales (auto simp: keeps_def)

lemma keeping_run: "runs_in (keeps I) m \<Longrightarrow> I s \<Longrightarrow> m s = (r, t) \<Longrightarrow> I t"
  by (auto simp: keeps_def dest: runs_inD_run)

section \<open>Tables\<close>

text \<open>
  A table is the list of its rows in insertion order. \<open>UPDATE \<dots> SET f WHERE P\<close> rewrites the
  matching rows in place; the drivers' \<open>affectedRows\<close> is the number of rows the condition matched.
\<close>

definition sql_update :: "('r \<Rightarrow> bool) \<Rightarrow> ('r \<Rightarrow> 'r) \<Rightarrow> 'r list \<Rightarrow> 'r list" where
  "sql_update P f rs = map (\<lambda>r. if P r then f r else r) rs"

definition sql_matched :: "('r \<Rightarrow> bool) \<Rightarrow> 'r list \<Rightarrow> nat" where
  "sql_matched P rs = length (filter P rs)"

definition sql_delete :: "('r \<Rightarrow> bool) \<Rightarrow> 'r list \<Rightarrow> 'r list" where
  "sql_delete P rs = filter (\<lambda>r. \<not> P r) rs"

lemma sql_update_Nil [simp]: "sql_update P f [] = []"
  by (simp add: sql_update_def)

lemma sql_update_Cons [simp]:
  "sql_update P f (r # rs) = (if P r then f r else r) # sql_update P f rs"
  by (simp add: sql_update_def)

lemma sql_update_append [simp]:
  "sql_update P f (rs @ qs) = sql_update P f rs @ sql_update P f qs"
  by (simp add: sql_update_def)

lemma length_sql_update [simp]: "length (sql_update P f rs) = length rs"
  by (simp add: sql_update_def)

lemma set_sql_update:
  "set (sql_update P f rs) = (\<lambda>r. if P r then f r else r) ` set rs"
  by (simp add: sql_update_def)

lemma sql_update_none [simp]:
  "(\<And>r. r \<in> set rs \<Longrightarrow> \<not> P r) \<Longrightarrow> sql_update P f rs = rs"
  by (induction rs) auto

lemma map_sql_update_same:
  "(\<And>r. k (f r) = k r) \<Longrightarrow> map k (sql_update P f rs) = map k rs"
  by (induction rs) auto

lemma sql_matched_0 [simp]: "sql_matched P rs = 0 \<longleftrightarrow> (\<forall>r \<in> set rs. \<not> P r)"
  by (auto simp: sql_matched_def filter_empty_conv)

lemma sql_matched_pos: "0 < sql_matched P rs \<longleftrightarrow> (\<exists>r \<in> set rs. P r)"
  by (auto simp: sql_matched_def filter_empty_conv)

lemma in_sql_updateE:
  assumes "r \<in> set (sql_update P f rs)"
  obtains q where "q \<in> set rs" and "r = (if P q then f q else q)"
  using assms by (auto simp: set_sql_update)

lemma filter_sql_update_same:
  "(\<And>r. R (f r) = R r) \<Longrightarrow> length (filter R (sql_update P f rs)) = length (filter R rs)"
  by (induction rs) auto

lemma filter_sql_update_le:
  "(\<And>r. P r \<Longrightarrow> R (f r) \<Longrightarrow> R r) \<Longrightarrow>
   length (filter R (sql_update P f rs)) \<le> length (filter R rs)"
  by (induction rs) auto

lemma filter_sql_update_key:
  assumes "distinct (map k rs)" and "\<And>r. P r \<Longrightarrow> k r = i"
  shows "length (filter R (sql_update P f rs)) \<le> Suc (length (filter R rs))"
  using assms
proof (induction rs)
  case Nil
  then show ?case by simp
next
  case (Cons r rs)
  show ?case
  proof (cases "P r")
    case True
    with Cons.prems have "k r = i" by simp
    with Cons.prems have "\<And>q. q \<in> set rs \<Longrightarrow> \<not> P q"
      by (metis distinct.simps(2) image_eqI list.set_map list.simps(9))
    then have "sql_update P f rs = rs" by simp
    then show ?thesis by simp
  next
    case False
    with Cons show ?thesis by simp
  qed
qed

lemma map_of_key_unique:
  "distinct (map k rs) \<Longrightarrow> r \<in> set rs \<Longrightarrow> q \<in> set rs \<Longrightarrow> k r = k q \<Longrightarrow> r = q"
  by (metis distinct_map inj_onD)

lemma find_key:
  "distinct (map k rs) \<Longrightarrow> r \<in> set rs \<Longrightarrow> find (\<lambda>q. k q = k r) rs = Some r"
  by (induction rs) (auto simp: rev_image_eqI)

lemma filter_key_unique:
  "distinct (map k rs) \<Longrightarrow> r \<in> set rs \<Longrightarrow> filter (\<lambda>q. k q = k r) rs = [r]"
proof (induction rs)
  case Nil
  then show ?case by simp
next
  case (Cons q qs)
  show ?case
  proof (cases "k q = k r")
    case True
    with Cons.prems have "q = r" by (metis distinct.simps(2) image_eqI list.set_map list.simps(9) set_ConsD)
    moreover have "filter (\<lambda>p. k p = k r) qs = []"
      using Cons.prems(1) True by (auto simp: filter_empty_conv) (metis image_eqI)
    ultimately show ?thesis by simp
  next
    case False
    with Cons show ?thesis by auto
  qed
qed

lemma find_append: "find P (xs @ ys) = (case find P xs of None \<Rightarrow> find P ys | Some x \<Rightarrow> Some x)"
  by (induction xs) auto

lemma find_Some_key: "find P rs = Some r \<Longrightarrow> r \<in> set rs \<and> P r"
  by (induction rs) (auto split: if_splits)

lemma find_None_key: "find P rs = None \<longleftrightarrow> (\<forall>r \<in> set rs. \<not> P r)"
  by (induction rs) auto

text \<open>\<open>grows R N rs qs\<close>: the rows of \<open>rs\<close> became the first rows of \<open>qs\<close> by \<open>R\<close>, and every row added satisfies \<open>N\<close>.\<close>

definition grows :: "('r \<Rightarrow> 'r \<Rightarrow> bool) \<Rightarrow> ('r \<Rightarrow> bool) \<Rightarrow> 'r list \<Rightarrow> 'r list \<Rightarrow> bool" where
  "grows R N rs qs \<longleftrightarrow> (\<exists>ps as. qs = ps @ as \<and> list_all2 R rs ps \<and> list_all N as)"

lemma grows_update:
  "(\<And>r. R r r) \<Longrightarrow> (\<And>r. P r \<Longrightarrow> R r (f r)) \<Longrightarrow> grows R N rs (sql_update P f rs)"
  unfolding grows_def sql_update_def
  by (intro exI [of _ "map (\<lambda>r. if P r then f r else r) rs"] exI [of _ "[]"])
     (auto simp: list_all2_map2 intro!: list_all2_refl)

lemma grows_append: "(\<And>r. R r r) \<Longrightarrow> N q \<Longrightarrow> grows R N rs (rs @ [q])"
  unfolding grows_def by (intro exI [of _ rs] exI [of _ "[q]"]) (auto intro: list_all2_refl)

lemma list_all2_in2: "list_all2 R rs qs \<Longrightarrow> q \<in> set qs \<Longrightarrow> \<exists>r \<in> set rs. R r q"
  by (induction rule: list_all2_induct) auto

lemma list_all2_in1: "list_all2 R rs qs \<Longrightarrow> r \<in> set rs \<Longrightarrow> \<exists>q \<in> set qs. R r q"
  by (induction rule: list_all2_induct) auto

lemma grows_in: "grows R N rs qs \<Longrightarrow> q \<in> set qs \<Longrightarrow> (\<exists>r \<in> set rs. R r q) \<or> N q"
  by (auto simp: grows_def list_all_iff dest: list_all2_in2)

lemma grows_row: "grows R N rs qs \<Longrightarrow> r \<in> set rs \<Longrightarrow> \<exists>q \<in> set qs. R r q"
  unfolding grows_def by (metis Un_iff list_all2_in1 set_append)

text \<open>A property of rows that \<open>R\<close> carries and new rows have holds of all rows.\<close>

lemma grows_all:
  assumes "grows R N rs qs" and "\<And>r q. R r q \<Longrightarrow> P r \<Longrightarrow> P q" and "\<And>q. N q \<Longrightarrow> P q"
    and "\<forall>r \<in> set rs. P r"
  shows "\<forall>q \<in> set qs. P q"
  using grows_in [OF assms(1)] assms(2-4) by blast

section \<open>The first elements of a sorted list\<close>

lemma length_filter_sort_key [simp]:
  "length (filter P (sort_key k xs)) = length (filter P xs)"
proof -
  have "mset (filter P (sort_key k xs)) = mset (filter P xs)" by simp
  then show ?thesis by (rule mset_eq_length)
qed

lemma length_filter_split:
  "length (filter P xs) = length (filter P (take n xs)) + length (filter P (drop n xs))"
proof -
  have "filter P xs = filter P (take n xs) @ filter P (drop n xs)"
    by (simp flip: filter_append)
  then show ?thesis by simp
qed

lemma take_sort_key_few:
  assumes "x \<in> set (take n (sort_key k xs))"
  shows "length (filter (\<lambda>y. k y < k x) xs) < n"
proof -
  let ?ys = "sort_key k xs" and ?P = "\<lambda>y. k y < k x"
  from assms obtain j where j: "j < n" "j < length ?ys" "x = ?ys ! j"
    by (auto simp: in_set_conv_nth)
  have "\<not> ?P y" if "y \<in> set (drop j ?ys)" for y
  proof -
    from that obtain m where m: "m < length (drop j ?ys)" and y: "y = drop j ?ys ! m"
      by (auto simp: in_set_conv_nth)
    have "sorted (map k ?ys)" by simp
    then have "map k ?ys ! j \<le> map k ?ys ! (j + m)"
      by (rule sorted_nth_mono) (use m in auto)
    with y m j show ?thesis by simp
  qed
  then have "length (filter ?P (drop j ?ys)) = 0"
    by (simp add: filter_empty_conv)
  then have "length (filter ?P ?ys) = length (filter ?P (take j ?ys))"
    using length_filter_split [of ?P ?ys j] by simp
  also have "\<dots> \<le> length (take j ?ys)" by (rule length_filter_le)
  finally show ?thesis using j(1) by simp
qed

lemma not_take_sort_key_many:
  assumes "x \<in> set xs" and "x \<notin> set (take n (sort_key k xs))"
  shows "n \<le> length (filter (\<lambda>y. k y \<le> k x \<and> y \<noteq> x) xs)"
proof -
  let ?ys = "sort_key k xs" and ?P = "\<lambda>y. k y \<le> k x \<and> y \<noteq> x"
  have "x \<in> set ?ys" using assms(1) by simp
  then obtain j where j: "j < length ?ys" "x = ?ys ! j"
    unfolding in_set_conv_nth by blast
  have "n \<le> j"
  proof (rule ccontr)
    assume "\<not> n \<le> j"
    then have "take n ?ys ! j = x" "j < length (take n ?ys)" using j by auto
    with assms(2) show False by (metis nth_mem)
  qed
  have "?P y" if "y \<in> set (take n ?ys)" for y
  proof -
    from that obtain m where m: "m < n" "m < length ?ys" "y = ?ys ! m"
      by (auto simp: in_set_conv_nth)
    have "sorted (map k ?ys)" by simp
    then have "map k ?ys ! m \<le> map k ?ys ! j"
      by (rule sorted_nth_mono) (use m j \<open>n \<le> j\<close> in auto)
    with m j that assms(2) show ?thesis by auto
  qed
  then have "filter ?P (take n ?ys) = take n ?ys" by simp
  then have "n = length (filter ?P (take n ?ys))"
    using \<open>n \<le> j\<close> j(1) by simp
  then have "n \<le> length (filter ?P ?ys)"
    using length_filter_split [of ?P ?ys n] by simp
  then show ?thesis by simp
qed

section \<open>JSON values\<close>

text \<open>
  The JavaScript values that travel as JSON. A column that stores \<open>JSON.stringify v\<close> is modelled
  by \<open>v\<close> itself.
\<close>

datatype json =
    JNull
  | JBool bool
  | JNum int
  | JStr string
  | JArr "json list"
  | JObj "(string \<times> json) list"

text \<open>\<open>v?.key\<close>: \<open>None\<close> stands for \<open>undefined\<close>.\<close>

fun json_get :: "json \<Rightarrow> string \<Rightarrow> json option" where
  "json_get (JObj fields) k = map_of fields k"
| "json_get _ k = None"

text \<open>\<open>a ?? b\<close> takes \<open>b\<close> when \<open>a\<close> is \<open>undefined\<close> or \<open>null\<close>.\<close>

fun nullish :: "json option \<Rightarrow> json \<Rightarrow> json" where
  "nullish None d = d"
| "nullish (Some JNull) d = d"
| "nullish (Some v) d = v"

text \<open>A JSON value in a condition.\<close>

fun truthy :: "json option \<Rightarrow> bool" where
  "truthy None = False"
| "truthy (Some JNull) = False"
| "truthy (Some (JBool b)) = b"
| "truthy (Some (JNum n)) = (n \<noteq> 0)"
| "truthy (Some (JStr s)) = (s \<noteq> [])"
| "truthy (Some _) = True"

section \<open>Strings\<close>

definition lower_char :: "char \<Rightarrow> char" where
  "lower_char c = (let n = of_char c :: nat in if 65 \<le> n \<and> n \<le> 90 then char_of (n + 32) else c)"

definition is_digit :: "char \<Rightarrow> bool" where
  "is_digit c \<longleftrightarrow> 48 \<le> (of_char c :: nat) \<and> (of_char c :: nat) \<le> 57"

fun digits_value :: "nat \<Rightarrow> string \<Rightarrow> nat" where
  "digits_value n [] = n"
| "digits_value n (c # cs) = digits_value (10 * n + (of_char c - 48)) cs"

text \<open>The white space of a regular expression and of \<open>trim\<close> among the first 256 characters.\<close>

definition is_space :: "char \<Rightarrow> bool" where
  "is_space c \<longleftrightarrow> (of_char c :: nat) \<in> {9, 10, 11, 12, 13, 32, 160}"

text \<open>\<open>split_on\<close> is \<open>String.split\<close> with a separator of one character.\<close>

fun split_on :: "char \<Rightarrow> string \<Rightarrow> string list" where
  "split_on c [] = [[]]"
| "split_on c (x # xs) = (if x = c then [] # split_on c xs
     else case split_on c xs of [] \<Rightarrow> [[x]] | p # ps \<Rightarrow> (x # p) # ps)"

definition trim :: "string \<Rightarrow> string" where
  "trim s = rev (dropWhile is_space (rev (dropWhile is_space s)))"

text \<open>\<open>Array.join\<close>.\<close>

fun join :: "string \<Rightarrow> string list \<Rightarrow> string" where
  "join d [] = []"
| "join d [x] = x"
| "join d (x # xs) = x @ d @ join d xs"

definition storedUsername :: "string \<Rightarrow> string" where
  "storedUsername u = map lower_char u"

definition isStoredUsername :: "string \<Rightarrow> bool" where
  "isStoredUsername u \<longleftrightarrow> u = storedUsername u"

text \<open>Equality of a column of collation \<open>ascii_general_ci\<close>.\<close>

definition ci_eq :: "string \<Rightarrow> string \<Rightarrow> bool" where
  "ci_eq a b \<longleftrightarrow> storedUsername a = storedUsername b"

lemma lower_char_idem [simp]: "lower_char (lower_char c) = lower_char c"
proof -
  have "of_char c < (256 :: nat)" by simp
  show ?thesis
    by (auto simp: lower_char_def Let_def of_char_of)
qed

lemma storedUsername_idem [simp]: "storedUsername (storedUsername u) = storedUsername u"
  by (simp add: storedUsername_def)

lemma isStoredUsername_stored [simp]: "isStoredUsername (storedUsername u)"
  by (simp add: isStoredUsername_def)

lemma ci_eq_stored: "isStoredUsername a \<Longrightarrow> isStoredUsername b \<Longrightarrow> ci_eq a b \<longleftrightarrow> a = b"
  by (auto simp: ci_eq_def isStoredUsername_def)

lemma ci_eq_refl [simp]: "ci_eq a a"
  by (simp add: ci_eq_def)

definition is_lower_hex :: "char \<Rightarrow> bool" where
  "is_lower_hex c = (let n = of_char c :: nat in (48 \<le> n \<and> n \<le> 57) \<or> (97 \<le> n \<and> n \<le> 102))"

text \<open>The test both modules apply to an identifier a client names.\<close>

definition UUID_test :: "string \<Rightarrow> bool" where
  "UUID_test s \<longleftrightarrow> length s = 36 \<and>
     list_all (\<lambda>(i, c). if i \<in> {8, 13, 18, 23} then c = CHR ''-'' else is_lower_hex c)
       (zip [0..<36] s)"

text \<open>A number inside a template literal.\<close>

fun string_of_nat :: "nat \<Rightarrow> string" where
  "string_of_nat n = (if n < 10 then [char_of (48 + n)]
     else string_of_nat (n div 10) @ [char_of (48 + n mod 10)])"

declare string_of_nat.simps [simp del]

definition string_of_int :: "int \<Rightarrow> string" where
  "string_of_int i = (if i < 0 then CHR ''-'' # string_of_nat (nat (- i)) else string_of_nat (nat i))"

text \<open>\<open>Math.round\<close>: halves round up.\<close>

definition Math_round :: "rat \<Rightarrow> int" where
  "Math_round x = \<lfloor>x + 1 / 2\<rfloor>"

lemma Math_round_of_int [simp]: "Math_round (of_int i) = i"
proof -
  have "\<lfloor>of_int i + 1 / 2 :: rat\<rfloor> = i" by (rule floor_unique) auto
  then show ?thesis by (simp add: Math_round_def)
qed

lemma Math_round_mono: "x \<le> y \<Longrightarrow> Math_round x \<le> Math_round y"
  by (auto simp: Math_round_def intro: floor_mono)

end
