(* ===== verification/SessionRepository.thy ===== *)
theory SessionRepository
  imports Prelude "HOL-Library.Product_Lexorder" "HOL-Library.List_Lexorder" "HOL-Library.Char_ord"
begin

text \<open>
  Worker sessions: the domain object (\<^verbatim>\<open>modules/worker/src/workerSession/workerSession.js\<close>), the
  \<^verbatim>\<open>worker_session\<close> table and the statements \<^verbatim>\<open>workerSessionRepository.js\<close> sends to it, and the
  \<^verbatim>\<open>session_app\<close> table of \<^verbatim>\<open>sessionAppRepository.js\<close>. Times are milliseconds. A statement that reads
  \<open>NOW()\<close> takes the database's time as its argument \<open>n\<close>; \<open>session_stmt n\<close> is the relation "one
  statement of the repository at database time \<open>n\<close>".
\<close>

datatype session_state = Pending | Active | Closed

datatype notification_state = NONE | NOTIFIED | DISMISSED | EMAILED

record session_row =
  ws_id :: string
  ws_state :: session_state
  ws_username :: string
  ws_workerType :: string
  ws_instanceType :: string
  ws_instance :: "string option"
  ws_host :: "string option"
  ws_created :: int
  ws_updated :: int
  ws_apiKey :: "string option"
  ws_timeout :: "int option"
  ws_interaction :: "int option"
  ws_active :: "int option"
  ws_notification :: notification_state
  ws_notified :: "int option"

record app_row =
  sa_username :: string
  sa_path :: string
  sa_session :: string
  sa_label :: "string option"
  sa_client :: "string option"
  sa_created :: int

definition MINUTE_MS :: int where
  "MINUTE_MS = 60000"

definition TEN_MINUTES_MS :: int where
  "TEN_MINUTES_MS = 10 * 60 * 1000"

definition lastValidUpdate :: "int \<Rightarrow> int" where
  "lastValidUpdate date = date - TEN_MINUTES_MS"

definition isPending :: "session_row \<Rightarrow> bool" where
  "isPending s \<longleftrightarrow> ws_state s = Pending"

definition isActive :: "session_row \<Rightarrow> bool" where
  "isActive s \<longleftrightarrow> ws_state s = Active"

definition is_open :: "session_row \<Rightarrow> bool" where
  "is_open s \<longleftrightarrow> isPending s \<or> isActive s"

definition close_session :: "session_row \<Rightarrow> session_row" where
  "close_session s = s\<lparr>ws_state := Closed\<rparr>"

definition withInstance :: "session_row \<Rightarrow> string option \<Rightarrow> string option \<Rightarrow> session_row" where
  "withInstance s i h = s\<lparr>ws_instance := i, ws_host := h\<rparr>"

definition withApiKey :: "session_row \<Rightarrow> string option \<Rightarrow> session_row" where
  "withApiKey s k = s\<lparr>ws_apiKey := k\<rparr>"

lemma is_open_iff: "is_open s \<longleftrightarrow> ws_state s \<noteq> Closed"
  by (cases "ws_state s") (auto simp: is_open_def isPending_def isActive_def)

section \<open>Statements\<close>

definition coalesce :: "int option \<Rightarrow> int \<Rightarrow> int" where
  "coalesce a d = (case a of None \<Rightarrow> d | Some x \<Rightarrow> x)"

definition UNATTENDED_ANCHOR :: "session_row \<Rightarrow> int" where
  "UNATTENDED_ANCHOR r = coalesce (ws_interaction r) (coalesce (ws_active r) (ws_created r))"

text \<open>
  The ratchet. Its \<open>SET\<close> clauses are evaluated from left to right, so the candidate of the last one
  reads the interaction time the third one wrote. \<open>cap\<close> is \<open>None\<close> for a null \<open>capHours\<close>.
\<close>

definition candidate :: "int \<Rightarrow> int \<Rightarrow> rat option \<Rightarrow> session_row \<Rightarrow> int" where
  "candidate n minutes cap r = (case cap of
     None \<Rightarrow> n + minutes * MINUTE_MS
   | Some hours \<Rightarrow> min (n + minutes * MINUTE_MS) (UNATTENDED_ANCHOR r + Math_round (hours * 60) * MINUTE_MS))"

definition extendsDeadline :: "int \<Rightarrow> int \<Rightarrow> rat option \<Rightarrow> session_row \<Rightarrow> bool" where
  "extendsDeadline n minutes cap r \<longleftrightarrow> candidate n minutes cap r > coalesce (ws_timeout r) n"

definition extend_row :: "int \<Rightarrow> int \<Rightarrow> bool \<Rightarrow> rat option \<Rightarrow> session_row \<Rightarrow> session_row" where
  "extend_row n minutes interaction cap r0 =
     (let r1 = (if extendsDeadline n minutes cap r0 then r0\<lparr>ws_notification := NONE\<rparr> else r0);
          r2 = (if extendsDeadline n minutes cap r1 then r1\<lparr>ws_notified := None\<rparr> else r1);
          r3 = (if interaction then r2\<lparr>ws_interaction := Some n\<rparr> else r2)
      in r3\<lparr>ws_timeout := Some (max (coalesce (ws_timeout r3) n) (candidate n minutes cap r3))\<rparr>)"

definition stmt_extend ::
  "int \<Rightarrow> string \<Rightarrow> int \<Rightarrow> bool \<Rightarrow> rat option \<Rightarrow> session_row list \<Rightarrow> session_row list" where
  "stmt_extend n i minutes interaction cap =
     sql_update (\<lambda>r. ws_id r = i \<and> ws_state r = Active) (extend_row n minutes interaction cap)"

definition stmt_touch :: "int \<Rightarrow> session_state \<Rightarrow> string \<Rightarrow> session_row list \<Rightarrow> session_row list" where
  "stmt_touch t st i = sql_update (\<lambda>r. ws_id r = i \<and> ws_state r \<in> {Pending, Active})
     (\<lambda>r. r\<lparr>ws_state := st, ws_updated := t\<rparr>)"

definition stmt_close :: "int \<Rightarrow> string \<Rightarrow> session_row list \<Rightarrow> session_row list" where
  "stmt_close t i = sql_update (\<lambda>r. ws_id r = i \<and> ws_state r \<noteq> Closed)
     (\<lambda>r. r\<lparr>ws_state := Closed, ws_updated := t, ws_apiKey := None\<rparr>)"

definition stmt_activateSession :: "int \<Rightarrow> string \<Rightarrow> int \<Rightarrow> session_row list \<Rightarrow> session_row list" where
  "stmt_activateSession n i leaseMinutes = sql_update (\<lambda>r. ws_id r = i \<and> ws_state r = Pending)
     (\<lambda>r. r\<lparr>ws_state := Active, ws_updated := n, ws_active := Some n,
            ws_timeout := Some (max (coalesce (ws_timeout r) n) (n + leaseMinutes * MINUTE_MS))\<rparr>)"

definition stmt_setTimeout :: "int \<Rightarrow> string \<Rightarrow> int \<Rightarrow> session_row list \<Rightarrow> session_row list" where
  "stmt_setTimeout n i minutes = sql_update (\<lambda>r. ws_id r = i \<and> ws_state r = Active)
     (\<lambda>r. r\<lparr>ws_notification := NONE, ws_notified := None, ws_interaction := Some n,
            ws_timeout := Some (n + minutes * MINUTE_MS)\<rparr>)"

definition names_notification :: "string \<Rightarrow> int \<Rightarrow> session_row \<Rightarrow> bool" where
  "names_notification i nt r \<longleftrightarrow> ws_id r = i \<and> ws_state r = Active \<and> ws_notified r = Some nt"

definition stmt_redeemExtension :: "int \<Rightarrow> string \<Rightarrow> int \<Rightarrow> int \<Rightarrow> session_row list \<Rightarrow> session_row list" where
  "stmt_redeemExtension n i notifiedTime minutes =
     sql_update (names_notification i notifiedTime)
     (\<lambda>r. r\<lparr>ws_timeout := Some (max (coalesce (ws_timeout r) n) (n + minutes * MINUTE_MS)),
            ws_interaction := Some n, ws_notification := NONE, ws_notified := None\<rparr>)"

definition stmt_redeemTermination :: "int \<Rightarrow> string \<Rightarrow> int \<Rightarrow> session_row list \<Rightarrow> session_row list" where
  "stmt_redeemTermination n i notifiedTime =
     sql_update (names_notification i notifiedTime)
     (\<lambda>r. r\<lparr>ws_state := Closed, ws_updated := n, ws_apiKey := None\<rparr>)"

text \<open>Past its deadline, as the sweep's statements test it.\<close>

definition past_deadline :: "int \<Rightarrow> session_row \<Rightarrow> bool" where
  "past_deadline n r \<longleftrightarrow> (case ws_timeout r of None \<Rightarrow> False | Some t \<Rightarrow> t < n)"

definition stmt_notifyExpiry :: "int \<Rightarrow> string \<Rightarrow> session_row list \<Rightarrow> session_row list" where
  "stmt_notifyExpiry n i =
     sql_update (\<lambda>r. ws_id r = i \<and> ws_state r = Active \<and> ws_notification r = NONE \<and> past_deadline n r)
     (\<lambda>r. r\<lparr>ws_notification := NOTIFIED, ws_notified := Some n\<rparr>)"

definition stmt_markEmailed :: "string \<Rightarrow> int \<Rightarrow> session_row list \<Rightarrow> session_row list" where
  "stmt_markEmailed i notifiedTime =
     sql_update (\<lambda>r. ws_id r = i \<and> ws_notification r = NOTIFIED \<and> ws_notified r = Some notifiedTime)
     (\<lambda>r. r\<lparr>ws_notification := EMAILED\<rparr>)"

definition dismissable :: "string \<Rightarrow> string option \<Rightarrow> session_row \<Rightarrow> bool" where
  "dismissable i username r \<longleftrightarrow> ws_id r = i \<and> ws_notification r \<in> {NOTIFIED, EMAILED} \<and>
     (case username of None \<Rightarrow> True | Some u \<Rightarrow> u = [] \<or> ci_eq (ws_username r) u)"

definition stmt_dismiss :: "string \<Rightarrow> string option \<Rightarrow> session_row list \<Rightarrow> session_row list" where
  "stmt_dismiss i username = sql_update (dismissable i username) (\<lambda>r. r\<lparr>ws_notification := DISMISSED\<rparr>)"

definition stmt_restartExpiryCycle :: "int \<Rightarrow> string \<Rightarrow> int \<Rightarrow> int \<Rightarrow> session_row list \<Rightarrow> session_row list" where
  "stmt_restartExpiryCycle n i notifiedTime minutes =
     sql_update (names_notification i notifiedTime)
     (\<lambda>r. r\<lparr>ws_notification := NONE, ws_notified := None,
            ws_timeout := Some (max (coalesce (ws_timeout r) n) (n + minutes * MINUTE_MS))\<rparr>)"

definition expired_close :: "int \<Rightarrow> string \<Rightarrow> notification_state \<Rightarrow> int \<Rightarrow> int \<Rightarrow> session_row \<Rightarrow> bool" where
  "expired_close n i ns notifiedTime graceMinutes r \<longleftrightarrow> ws_id r = i \<and> ws_state r = Active \<and>
     past_deadline n r \<and> ws_notification r = ns \<and> ws_notified r = Some notifiedTime \<and>
     notifiedTime < n - graceMinutes * MINUTE_MS"

definition stmt_closeExpired ::
  "int \<Rightarrow> string \<Rightarrow> notification_state \<Rightarrow> int \<Rightarrow> int \<Rightarrow> session_row list \<Rightarrow> session_row list" where
  "stmt_closeExpired n i ns notifiedTime graceMinutes =
     sql_update (expired_close n i ns notifiedTime graceMinutes)
     (\<lambda>r. r\<lparr>ws_state := Closed, ws_updated := n, ws_apiKey := None\<rparr>)"

definition new_session :: "session_row \<Rightarrow> bool" where
  "new_session r \<longleftrightarrow> ws_state r = Pending \<and> isStoredUsername (ws_username r) \<and>
     ws_interaction r = None \<and> ws_active r = None \<and> ws_notification r = NONE \<and> ws_notified r = None"

inductive session_stmt :: "int \<Rightarrow> session_row list \<Rightarrow> session_row list \<Rightarrow> bool" for n :: int where
  Insert: "new_session r \<Longrightarrow> ws_id r \<notin> ws_id ` set rs \<Longrightarrow> session_stmt n rs (rs @ [r])"
| Touch: "session_stmt n rs (stmt_touch t Active i rs)"
| Close: "session_stmt n rs (stmt_close t i rs)"
| Activate: "session_stmt n rs (stmt_activateSession n i leaseMinutes rs)"
| Extend: "session_stmt n rs (stmt_extend n i minutes interaction cap rs)"
| SetTimeout: "session_stmt n rs (stmt_setTimeout n i minutes rs)"
| RedeemExtension: "session_stmt n rs (stmt_redeemExtension n i nt minutes rs)"
| RedeemTermination: "session_stmt n rs (stmt_redeemTermination n i nt rs)"
| NotifyExpiry: "session_stmt n rs (stmt_notifyExpiry n i rs)"
| MarkEmailed: "session_stmt n rs (stmt_markEmailed i nt rs)"
| Dismiss: "session_stmt n rs (stmt_dismiss i u rs)"
| Restart: "session_stmt n rs (stmt_restartExpiryCycle n i nt minutes rs)"
| CloseExpired: "session_stmt n rs (stmt_closeExpired n i ns nt grace rs)"

lemmas session_stmt_defs =
  stmt_touch_def stmt_close_def stmt_activateSession_def stmt_extend_def stmt_setTimeout_def
  stmt_redeemExtension_def stmt_redeemTermination_def stmt_notifyExpiry_def stmt_markEmailed_def
  stmt_dismiss_def stmt_restartExpiryCycle_def stmt_closeExpired_def names_notification_def

section \<open>The ratchet\<close>

lemma extend_row_fields [simp]:
  "ws_id (extend_row n m b c r) = ws_id r" "ws_state (extend_row n m b c r) = ws_state r"
  "ws_username (extend_row n m b c r) = ws_username r" "ws_apiKey (extend_row n m b c r) = ws_apiKey r"
  "ws_created (extend_row n m b c r) = ws_created r" "ws_active (extend_row n m b c r) = ws_active r"
  "ws_instance (extend_row n m b c r) = ws_instance r" "ws_updated (extend_row n m b c r) = ws_updated r"
  "ws_interaction (extend_row n m b c r) = (if b then Some n else ws_interaction r)"
  by (simp_all add: extend_row_def Let_def)

lemma candidate_notification [simp]:
  "candidate n m c (r\<lparr>ws_notification := x\<rparr>) = candidate n m c r"
  "candidate n m c (r\<lparr>ws_notified := y\<rparr>) = candidate n m c r"
  by (simp_all add: candidate_def UNATTENDED_ANCHOR_def split: option.splits)

lemma extend_row_notification:
  "ws_notification (extend_row n m b c r) =
     (if extendsDeadline n m c r then NONE else ws_notification r)"
  "ws_notified (extend_row n m b c r) = (if extendsDeadline n m c r then None else ws_notified r)"
  by (simp_all add: extend_row_def Let_def extendsDeadline_def)

lemma extend_row_timeout:
  "ws_timeout (extend_row n m b c r) = Some (max (coalesce (ws_timeout r) n)
     (candidate n m c (if b then r\<lparr>ws_interaction := Some n\<rparr> else r)))"
  by (cases b) (simp_all add: extend_row_def Let_def candidate_def UNATTENDED_ANCHOR_def split: option.splits)

section \<open>What a statement does to a row\<close>

definition ws_step :: "int \<Rightarrow> session_row \<Rightarrow> session_row \<Rightarrow> bool" where
  "ws_step n r q \<longleftrightarrow> ws_id q = ws_id r \<and> ws_username q = ws_username r \<and>
     ws_workerType q = ws_workerType r \<and> ws_instanceType q = ws_instanceType r \<and>
     ws_instance q = ws_instance r \<and> ws_created q = ws_created r \<and>
     (ws_state r = Closed \<longrightarrow> ws_state q = Closed \<and> ws_apiKey q = ws_apiKey r) \<and>
     (ws_state r \<noteq> Closed \<and> ws_state q = Closed \<longrightarrow> ws_apiKey q = None) \<and>
     (ws_state r = Active \<longrightarrow> ws_state q \<noteq> Pending) \<and>
     ws_notified q \<in> {ws_notified r, None, Some n}"

lemma ws_step_refl [simp, intro]: "ws_step n r r"
  by (simp add: ws_step_def)

lemma extend_row_step: "ws_state r = Active \<Longrightarrow> ws_step n r (extend_row n m b c r)"
  by (simp add: ws_step_def extend_row_notification) (simp add: extend_row_def Let_def)

lemma session_stmt_grows: "session_stmt n rs qs \<Longrightarrow> grows (ws_step n) new_session rs qs"
proof (induction rule: session_stmt.induct)
  case (Insert r rs)
  then show ?case by (intro grows_append) auto
next
  case (Extend rs i minutes interaction cap)
  show ?case unfolding stmt_extend_def by (rule grows_update) (auto intro: extend_row_step)
qed (auto simp: session_stmt_defs ws_step_def expired_close_def dismissable_def intro!: grows_update)

text \<open>Statements in the order the database executes them; its clock does not run backwards.\<close>

inductive session_run :: "int \<Rightarrow> session_row list \<Rightarrow> int \<Rightarrow> session_row list \<Rightarrow> bool" where
  Here: "session_run n rs n rs"
| After: "session_run n rs m qs \<Longrightarrow> m \<le> k \<Longrightarrow> session_stmt k qs ps \<Longrightarrow> session_run n rs k ps"

lemma session_run_time: "session_run n rs m qs \<Longrightarrow> n \<le> m"
  by (induction rule: session_run.induct) auto

text \<open>The invariant of the table at database time \<open>n\<close>.\<close>

definition session_ok :: "int \<Rightarrow> session_row \<Rightarrow> bool" where
  "session_ok n r \<longleftrightarrow> isStoredUsername (ws_username r) \<and>
     (ws_state r = Closed \<longrightarrow> ws_apiKey r = None) \<and>
     (case ws_notified r of None \<Rightarrow> True | Some t \<Rightarrow> t \<le> n)"

definition sessions_ok :: "int \<Rightarrow> session_row list \<Rightarrow> bool" where
  "sessions_ok n rs \<longleftrightarrow> distinct (map ws_id rs) \<and> (\<forall>r \<in> set rs. session_ok n r)"

lemma ws_step_ok: "ws_step n r q \<Longrightarrow> session_ok m r \<Longrightarrow> m \<le> n \<Longrightarrow> session_ok n q"
  unfolding ws_step_def session_ok_def
  by (cases "ws_state r = Closed") (auto split: option.splits)

lemma session_stmt_ids:
  assumes "session_stmt n rs qs" and "distinct (map ws_id rs)"
  shows "distinct (map ws_id qs)"
  using assms
proof (induction rule: session_stmt.induct)
  case (Insert r rs)
  then show ?case by simp
next
  case (Extend rs i minutes interaction cap)
  have "map ws_id (stmt_extend n i minutes interaction cap rs) = map ws_id rs"
    unfolding stmt_extend_def by (rule map_sql_update_same) simp
  with Extend show ?case by simp
qed (auto simp: session_stmt_defs map_sql_update_same)

lemma session_stmt_ok:
  assumes "session_stmt n rs qs" and "sessions_ok m rs" and "m \<le> n"
  shows "sessions_ok n qs"
proof -
  have "\<forall>r \<in> set rs. session_ok n r"
    using assms(2,3) by (auto simp: sessions_ok_def session_ok_def split: option.splits)
  moreover have "\<And>r q. ws_step n r q \<Longrightarrow> session_ok n r \<Longrightarrow> session_ok n q"
    by (rule ws_step_ok) auto
  moreover have "\<And>q. new_session q \<Longrightarrow> session_ok n q"
    by (simp add: new_session_def session_ok_def)
  ultimately have "\<forall>q \<in> set qs. session_ok n q"
    using grows_all [OF session_stmt_grows [OF assms(1)], of "session_ok n"] by blast
  then show ?thesis
    using session_stmt_ids [OF assms(1)] assms(2) by (simp add: sessions_ok_def)
qed

lemma session_run_ok: "session_run n rs m qs \<Longrightarrow> sessions_ok n rs \<Longrightarrow> sessions_ok m qs"
  by (induction rule: session_run.induct) (auto intro: session_stmt_ok)

text \<open>A closed session stays closed.\<close>

definition closed_in :: "string \<Rightarrow> session_row list \<Rightarrow> bool" where
  "closed_in i rs \<longleftrightarrow> (\<exists>r \<in> set rs. ws_id r = i \<and> ws_state r = Closed \<and> ws_apiKey r = None)"

lemma stmt_closed_in: "session_stmt n rs qs \<Longrightarrow> closed_in i rs \<Longrightarrow> closed_in i qs"
  unfolding closed_in_def
  by (drule session_stmt_grows, elim bexE, drule (1) grows_row) (auto simp: ws_step_def)

lemma run_closed_in: "session_run n rs m qs \<Longrightarrow> closed_in i rs \<Longrightarrow> closed_in i qs"
  by (induction rule: session_run.induct) (auto intro: stmt_closed_in)

section \<open>A rescue voids what was decided before it\<close>

text \<open>No statement that names the notification of time \<open>nt\<close> matches session \<open>i\<close>.\<close>

definition void :: "string \<Rightarrow> int \<Rightarrow> session_row list \<Rightarrow> bool" where
  "void i nt rs \<longleftrightarrow> (\<forall>r \<in> set rs. ws_id r = i \<longrightarrow> ws_notified r \<noteq> Some nt)"

lemma stmt_void:
  assumes "session_stmt n rs qs" and "void i nt rs" and "nt < n"
  shows "void i nt qs"
proof -
  have "\<forall>q \<in> set qs. ws_id q = i \<longrightarrow> ws_notified q \<noteq> Some nt"
    by (rule grows_all [OF session_stmt_grows [OF assms(1)]])
       (use assms(2,3) in \<open>auto simp: ws_step_def void_def new_session_def\<close>)
  then show ?thesis by (simp add: void_def)
qed

lemma run_void: "session_run n rs m qs \<Longrightarrow> nt < n \<Longrightarrow> void i nt rs \<Longrightarrow> void i nt qs"
proof (induction rule: session_run.induct)
  case (After n rs m qs k ps)
  from session_run_time [OF After.hyps(1)] After.hyps(2) After.prems(1) have "nt < k" by simp
  with After.IH [OF After.prems] stmt_void [OF After.hyps(3)] show ?case by blast
qed

lemma void_unmatched:
  assumes "void i nt rs"
  shows "stmt_closeExpired n i ns nt grace rs = rs" "stmt_redeemTermination n i nt rs = rs"
    "stmt_redeemExtension n i nt minutes rs = rs" "stmt_markEmailed i nt rs = rs"
    "stmt_restartExpiryCycle n i nt minutes rs = rs"
  using assms
  by (auto simp: void_def session_stmt_defs expired_close_def intro!: sql_update_none)

lemma extend_void:
  assumes "\<And>r. r \<in> set rs \<Longrightarrow> ws_id r = i \<Longrightarrow> ws_state r = Active \<and> extendsDeadline n m c r"
  shows "void i nt (stmt_extend n i m b c rs)"
  unfolding void_def stmt_extend_def
proof (intro ballI impI)
  fix q
  assume q: "q \<in> set (sql_update (\<lambda>r. ws_id r = i \<and> ws_state r = Active) (extend_row n m b c) rs)"
    and i: "ws_id q = i"
  from q obtain r where r: "r \<in> set rs"
    "q = (if ws_id r = i \<and> ws_state r = Active then extend_row n m b c r else r)" by (rule in_sql_updateE)
  then have "ws_id r = i" using i by (cases "ws_id r = i \<and> ws_state r = Active") auto
  with assms [OF r(1)] r(2) show "ws_notified q \<noteq> Some nt" by (simp add: extend_row_notification)
qed

lemma notified_extends:
  "past_deadline n r \<Longrightarrow> 0 < minutes \<Longrightarrow> extendsDeadline n minutes None r"
  by (auto simp: past_deadline_def extendsDeadline_def candidate_def coalesce_def MINUTE_MS_def split: option.splits)

section \<open>Methods of the repositories\<close>

datatype session_event =
    WorkerSessionRequested string session_row
  | WorkerSessionActivated string session_row
  | WorkerSessionClosed string string
  | SessionAppAssociated string string string "string option"
  | SessionAppDissociated string string string "string option" "string option"
  | SessionChanged "string option"
  | SessionExpiryNotified string session_row "(string \<times> string option) list" int
  | SessionExpiryClosed string string "(string \<times> string option) list"
  | ExpiryEmail string string
  | ClosedEmail string string

record 'w session_server =
  sessions :: "session_row list"
  session_apps :: "app_row list"
  emitted :: "session_event list"  \<comment> \<open>what was published or mailed, in order\<close>
  outer :: 'w

record 'w session_services =
  dbNow :: "'w \<Rightarrow> int \<times> 'w"
  processClock :: "'w \<Rightarrow> int \<times> 'w"

datatype session_error =
    NotFoundException string
  | ClientException string
  | Forbidden string
  | NotOwner string
  | BudgetExceeded string string  \<comment> \<open>the error's name and the user\<close>
  | OtherError string

type_synonym ('w, 'a) ses = "('w session_server, session_error, 'a) act"

definition outer_call :: "('w \<Rightarrow> 'a \<times> 'w) \<Rightarrow> ('w, 'a) ses" where
  "outer_call f = state_act (\<lambda>s. case f (outer s) of (a, w) \<Rightarrow> (a, s\<lparr>outer := w\<rparr>))"

definition emit :: "session_event \<Rightarrow> ('w, unit) ses" where
  "emit e = modify (\<lambda>s. s\<lparr>emitted := emitted s @ [e]\<rparr>)"

definition select_sessions :: "(session_row list \<Rightarrow> 'a) \<Rightarrow> ('w, 'a) ses" where
  "select_sessions f = gets (\<lambda>s. f (sessions s))"

text \<open>An \<open>UPDATE\<close> of the session table and whether it matched.\<close>

definition update_sessions ::
  "(session_row list \<Rightarrow> bool) \<Rightarrow> (session_row list \<Rightarrow> session_row list) \<Rightarrow> ('w, bool) ses" where
  "update_sessions P f = bnd (select_sessions P) (\<lambda>matched.
     andthen (modify (\<lambda>s. s\<lparr>sessions := f (sessions s)\<rparr>)) (ret matched))"

subsection \<open>Apps\<close>

definition deleteForSession :: "string \<Rightarrow> ('w, unit) ses" where
  "deleteForSession i = modify (\<lambda>s. s\<lparr>session_apps := sql_delete (\<lambda>a. sa_session a = i) (session_apps s)\<rparr>)"

definition app_key :: "string \<Rightarrow> string \<Rightarrow> app_row \<Rightarrow> bool" where
  "app_key u p a \<longleftrightarrow> ci_eq (sa_username a) u \<and> sa_path a = p"

definition associate ::
  "('w, 'z) session_services_scheme \<Rightarrow> string \<Rightarrow> string \<Rightarrow> string \<Rightarrow> string option \<Rightarrow> string option \<Rightarrow> ('w, unit) ses" where
  "associate E u p i label client = bnd (outer_call (processClock E)) (\<lambda>n.
     modify (\<lambda>s. s\<lparr>session_apps :=
       (if list_ex (app_key (storedUsername u) p) (session_apps s)
        then sql_update (app_key (storedUsername u) p)
          (\<lambda>a. a\<lparr>sa_session := i, sa_label := label, sa_client := client, sa_created := n\<rparr>) (session_apps s)
        else session_apps s @ [\<lparr>sa_username = storedUsername u, sa_path = p, sa_session = i,
          sa_label = label, sa_client = client, sa_created = n\<rparr>])\<rparr>))"

definition setClient :: "string \<Rightarrow> string \<Rightarrow> string option \<Rightarrow> ('w, unit) ses" where
  "setClient u p client = modify (\<lambda>s. s\<lparr>session_apps :=
     sql_update (app_key u p) (\<lambda>a. a\<lparr>sa_client := client\<rparr>) (session_apps s)\<rparr>)"

text \<open>The join keeps the associations whose session is open.\<close>

definition joined :: "session_row list \<Rightarrow> app_row \<Rightarrow> session_row option" where
  "joined rs a = find (\<lambda>r. ws_id r = sa_session a \<and> ws_state r \<in> {Pending, Active}) rs"

definition userAppSessions :: "string \<Rightarrow> ('w, (app_row \<times> session_row) list) ses" where
  "userAppSessions u = gets (\<lambda>s. List.map_filter
     (\<lambda>a. map_option (\<lambda>r. (a, r)) (joined (sessions s) a))
     (filter (\<lambda>a. ci_eq (sa_username a) u) (session_apps s)))"

definition appsForSession :: "string \<Rightarrow> ('w, (string \<times> string option) list) ses" where
  "appsForSession i = gets (\<lambda>s. map (\<lambda>a. (sa_path a, sa_label a))
     (sort_key sa_created (filter (\<lambda>a. sa_session a = i) (session_apps s))))"

definition dissociate :: "string \<Rightarrow> string \<Rightarrow> ('w, (string \<times> string option) option) ses" where
  "dissociate u p = bnd (gets (\<lambda>s. find (app_key u p) (session_apps s))) (\<lambda>row. case row of
     None \<Rightarrow> ret None
   | Some a \<Rightarrow> andthen (modify (\<lambda>s. s\<lparr>session_apps := sql_delete (app_key u p) (session_apps s)\<rparr>))
       (ret (Some (sa_session a, sa_client a))))"

definition owned_by_client :: "string \<Rightarrow> string \<Rightarrow> app_row \<Rightarrow> bool" where
  "owned_by_client u client a \<longleftrightarrow> ci_eq (sa_username a) u \<and> sa_client a = Some client"

definition dissociateForClient :: "string \<Rightarrow> string \<Rightarrow> ('w, (string \<times> string) list) ses" where
  "dissociateForClient u client = bnd (gets (\<lambda>s. filter (owned_by_client u client) (session_apps s))) (\<lambda>as.
     if as = [] then ret []
     else andthen (modify (\<lambda>s. s\<lparr>session_apps := sql_delete (owned_by_client u client) (session_apps s)\<rparr>))
       (ret (map (\<lambda>a. (sa_path a, sa_session a)) as)))"

subsection \<open>Sessions\<close>

definition insert_session :: "session_row \<Rightarrow> ('w, unit) ses" where
  "insert_session r = bnd (select_sessions (\<lambda>rs. ws_id r \<in> ws_id ` set rs)) (\<lambda>duplicate.
     if duplicate then throw (OtherError ''ER_DUP_ENTRY'')
     else modify (\<lambda>s. s\<lparr>sessions := sessions s @ [r\<lparr>ws_username := storedUsername (ws_username r)\<rparr>]\<rparr>))"

definition update_session :: "('w, 'z) session_services_scheme \<Rightarrow> session_row \<Rightarrow> ('w, bool) ses" where
  "update_session E x = bnd (outer_call (processClock E)) (\<lambda>n.
     bnd (if ws_state x = Pending \<or> ws_state x = Active
       then update_sessions (list_ex (\<lambda>r. ws_id r = ws_id x \<and> ws_state r \<in> {Pending, Active}))
         (stmt_touch n (ws_state x) (ws_id x))
       else update_sessions (list_ex (\<lambda>r. ws_id r = ws_id x \<and> ws_state r \<noteq> Closed))
         (stmt_close n (ws_id x)))
     (\<lambda>changed. if \<not> changed then ret False
       else andthen (if ws_state x = Closed then deleteForSession (ws_id x) else ret ()) (ret True)))"

definition findSession :: "string \<Rightarrow> ('w, session_row option) ses" where
  "findSession i = select_sessions (find (\<lambda>r. ws_id r = i))"

definition getSession :: "string \<Rightarrow> ('w, session_row) ses" where
  "getSession i = bnd (findSession i) (\<lambda>r. case r of
     None \<Rightarrow> throw (OtherError (''Non-existing worker session: '' @ i)) | Some r \<Rightarrow> ret r)"

definition activateSession ::
  "('w, 'z) session_services_scheme \<Rightarrow> string \<Rightarrow> int \<Rightarrow> ('w, session_row option) ses" where
  "activateSession E i leaseMinutes = bnd (outer_call (dbNow E)) (\<lambda>n.
     bnd (update_sessions (list_ex (\<lambda>r. ws_id r = i \<and> ws_state r = Pending))
       (stmt_activateSession n i leaseMinutes)) (\<lambda>activated.
     if \<not> activated then ret None else bnd (getSession i) (\<lambda>r. ret (Some r))))"

definition userSessions ::
  "string \<Rightarrow> session_state list \<Rightarrow> string option \<Rightarrow> string option \<Rightarrow> ('w, session_row list) ses" where
  "userSessions u states workerType instanceType = select_sessions (\<lambda>rs. sort_key ws_created
     (filter (\<lambda>r. ci_eq (ws_username r) u \<and>
        (case workerType of None \<Rightarrow> True | Some t \<Rightarrow> ws_workerType r = t) \<and>
        (states \<noteq> [] \<longrightarrow> ws_state r \<in> set states) \<and>
        (case instanceType of None \<Rightarrow> True | Some t \<Rightarrow> ws_instanceType r = t)) rs))"

definition allOpenSessions :: "('w, (string \<times> string \<times> string \<times> int) list) ses" where
  "allOpenSessions = select_sessions (\<lambda>rs. map
     (\<lambda>r. (ws_username r, ws_id r, ws_instanceType r, ws_created r))
     (filter (\<lambda>r. ws_state r \<in> {Pending, Active}) rs))"

definition sessions_in :: "session_state list \<Rightarrow> string option \<Rightarrow> ('w, session_row list) ses" where
  "sessions_in states workerType = select_sessions (\<lambda>rs. sort_key (\<lambda>r. (ws_username r, ws_created r))
     (filter (\<lambda>r. ws_state r \<in> set states \<and>
        (case workerType of None \<Rightarrow> True | Some t \<Rightarrow> ws_workerType r = t)) rs))"

definition timedOutSessions :: "('w, 'z) session_services_scheme \<Rightarrow> ('w, session_row list) ses" where
  "timedOutSessions E = bnd (outer_call (processClock E)) (\<lambda>n. select_sessions
     (filter (\<lambda>r. ws_state r = Pending \<and> ws_updated r < lastValidUpdate n)))"

definition sessionOnInstance :: "string \<Rightarrow> session_state list \<Rightarrow> ('w, session_row option) ses" where
  "sessionOnInstance instance_id states =
     select_sessions (find (\<lambda>r. ws_instance r = Some instance_id \<and> ws_state r \<in> set states))"

definition findSessionByApiKey :: "string option \<Rightarrow> ('w, (string \<times> string \<times> string) option) ses" where
  "findSessionByApiKey apiKey = (if apiKey = None \<or> apiKey = Some [] then ret None
     else select_sessions (\<lambda>rs. map_option (\<lambda>r. (ws_id r, ws_username r, ws_workerType r))
       (find (\<lambda>r. ws_apiKey r = apiKey \<and> ws_state r \<in> {Pending, Active}) rs)))"

definition mostRecentlyClosedSession :: "string \<Rightarrow> ('w, int option) ses" where
  "mostRecentlyClosedSession u = select_sessions (\<lambda>rs.
     case filter (\<lambda>r. ws_state r = Closed \<and> ci_eq (ws_username r) u) rs of
       [] \<Rightarrow> None | qs \<Rightarrow> Some (Max (ws_updated ` set qs)))"

definition mostRecentlyClosedSessionByUser :: "('w, (string \<times> int) list) ses" where
  "mostRecentlyClosedSessionByUser = select_sessions (\<lambda>rs.
     let closed = filter (\<lambda>r. ws_state r = Closed) rs
     in map (\<lambda>u. (u, Max (ws_updated ` set (filter (\<lambda>r. ws_username r = u) closed))))
          (remdups (map ws_username closed)))"

definition extendSession_repo ::
  "('w, 'z) session_services_scheme \<Rightarrow> string \<Rightarrow> int \<Rightarrow> bool \<Rightarrow> rat option \<Rightarrow> ('w, bool) ses" where
  "extendSession_repo E i minutes interaction capHours = bnd (outer_call (dbNow E)) (\<lambda>n.
     update_sessions (list_ex (\<lambda>r. ws_id r = i \<and> ws_state r = Active))
       (stmt_extend n i minutes interaction capHours))"

definition setSessionTimeout_repo :: "('w, 'z) session_services_scheme \<Rightarrow> string \<Rightarrow> int \<Rightarrow> ('w, bool) ses" where
  "setSessionTimeout_repo E i minutes = bnd (outer_call (dbNow E)) (\<lambda>n.
     update_sessions (list_ex (\<lambda>r. ws_id r = i \<and> ws_state r = Active)) (stmt_setTimeout n i minutes))"

definition redeemExtension_repo :: "('w, 'z) session_services_scheme \<Rightarrow> string \<Rightarrow> int \<Rightarrow> int \<Rightarrow> ('w, bool) ses" where
  "redeemExtension_repo E i nt minutes = bnd (outer_call (dbNow E)) (\<lambda>n.
     update_sessions (list_ex (names_notification i nt)) (stmt_redeemExtension n i nt minutes))"

definition redeemTermination_repo :: "('w, 'z) session_services_scheme \<Rightarrow> string \<Rightarrow> int \<Rightarrow> ('w, bool) ses" where
  "redeemTermination_repo E i nt = bnd (outer_call (dbNow E)) (\<lambda>n.
     bnd (update_sessions (list_ex (names_notification i nt)) (stmt_redeemTermination n i nt)) (\<lambda>terminated.
     if \<not> terminated then ret False else andthen (deleteForSession i) (ret True)))"

definition expiredSessions :: "('w, 'z) session_services_scheme \<Rightarrow> ('w, session_row list) ses" where
  "expiredSessions E = bnd (outer_call (dbNow E)) (\<lambda>n.
     select_sessions (filter (\<lambda>r. ws_state r = Active \<and> past_deadline n r)))"

definition notifyExpiry :: "('w, 'z) session_services_scheme \<Rightarrow> string \<Rightarrow> ('w, bool) ses" where
  "notifyExpiry E i = bnd (outer_call (dbNow E)) (\<lambda>n.
     update_sessions (list_ex (\<lambda>r. ws_id r = i \<and> ws_state r = Active \<and> ws_notification r = NONE \<and> past_deadline n r))
       (stmt_notifyExpiry n i))"

definition markEmailed :: "string \<Rightarrow> int \<Rightarrow> ('w, bool) ses" where
  "markEmailed i nt = update_sessions
     (list_ex (\<lambda>r. ws_id r = i \<and> ws_notification r = NOTIFIED \<and> ws_notified r = Some nt)) (stmt_markEmailed i nt)"

definition dismissNotification :: "string \<Rightarrow> string option \<Rightarrow> ('w, bool) ses" where
  "dismissNotification i u = update_sessions (list_ex (dismissable i u)) (stmt_dismiss i u)"

definition restartExpiryCycle :: "('w, 'z) session_services_scheme \<Rightarrow> string \<Rightarrow> int \<Rightarrow> int \<Rightarrow> ('w, bool) ses" where
  "restartExpiryCycle E i nt minutes = bnd (outer_call (dbNow E)) (\<lambda>n.
     update_sessions (list_ex (names_notification i nt)) (stmt_restartExpiryCycle n i nt minutes))"

definition closeExpiredSession ::
  "('w, 'z) session_services_scheme \<Rightarrow> string \<Rightarrow> notification_state \<Rightarrow> int \<Rightarrow> int \<Rightarrow> ('w, bool) ses" where
  "closeExpiredSession E i ns nt graceMinutes = bnd (outer_call (dbNow E)) (\<lambda>n.
     bnd (update_sessions (list_ex (expired_close n i ns nt graceMinutes))
       (stmt_closeExpired n i ns nt graceMinutes)) (\<lambda>closed.
     if \<not> closed then ret False else andthen (deleteForSession i) (ret True)))"

end
