(* ===== verification/SessionCommands.thy ===== *)
theory SessionCommands
  imports SessionRepository
begin

text \<open>
  The commands of the worker's session component (\<^verbatim>\<open>modules/worker/src/workerSession/command/*.js\<close>,
  \<^verbatim>\<open>sessionManager.js\<close>), with the memory of missing instances (\<^verbatim>\<open>missingInstanceTracker.js\<close>), the
  budget refusals (\<^verbatim>\<open>budgetErrors.js\<close>) and the budget module's verdict (\<^verbatim>\<open>budgetClient.js\<close>). The
  instance manager is a parameter here.
\<close>

datatype instance_status = PROVISIONED | MISSING | UNKNOWN

section \<open>The memory of missing instances\<close>

record tracked =
  misses :: nat
  unknownSince :: "int option"

type_synonym tracker = "string \<Rightarrow> tracked option"

definition fresh_entry :: tracked where
  "fresh_entry = \<lparr>misses = 0, unknownSince = None\<rparr>"

definition entryFor :: "tracker \<Rightarrow> string \<Rightarrow> tracked" where
  "entryFor m i = (case m i of None \<Rightarrow> fresh_entry | Some e \<Rightarrow> e)"

fun record_probe ::
  "nat \<Rightarrow> int \<Rightarrow> int \<Rightarrow> string \<Rightarrow> instance_status \<Rightarrow> tracker \<Rightarrow> bool \<times> tracker" where
  "record_probe missesBeforeClose unknownBackstopMs n i PROVISIONED m = (False, m(i := None))"
| "record_probe missesBeforeClose unknownBackstopMs n i MISSING m =
     (let e = entryFor m i; e' = e\<lparr>misses := Suc (misses e)\<rparr>
      in (misses e' \<ge> missesBeforeClose, m(i \<mapsto> e')))"
| "record_probe missesBeforeClose unknownBackstopMs n i UNKNOWN m =
     (let e = entryFor m i; since = (case unknownSince e of None \<Rightarrow> n | Some t \<Rightarrow> t)
      in (n - since \<ge> unknownBackstopMs, m(i \<mapsto> e\<lparr>unknownSince := Some since\<rparr>)))"

definition retain :: "string list \<Rightarrow> tracker \<Rightarrow> tracker" where
  "retain live m = (\<lambda>i. if i \<in> set live then m i else None)"

section \<open>What the commands use\<close>

record expiry_policy =
  mode :: string
  startupLeaseMinutes :: int
  interactionExtensionMinutes :: int
  openExtensionMinutes :: int
  manualExtensionMinutes :: int
  emailExtensionMinutes :: int
  notificationVisibleMinutes :: int
  graceMinutes :: int

record 'w manager_services = "'w session_services" +
  instanceTypeIds :: "string list"
  randomUUID :: "'w \<Rightarrow> string \<times> 'w"
  generateSessionKey :: "'w \<Rightarrow> string \<times> 'w"
  requestInstance :: "session_row \<Rightarrow> 'w \<Rightarrow> (string \<times> string option) option \<times> 'w"
  releaseInstance :: "string option \<Rightarrow> string \<Rightarrow> 'w \<Rightarrow> bool \<times> 'w"
  probeInstances :: "session_row list \<Rightarrow> 'w \<Rightarrow> (string \<times> instance_status) list option \<times> 'w"
  isProvisioning :: "string \<Rightarrow> 'w \<Rightarrow> bool"
  reprovision :: "session_row \<Rightarrow> 'w \<Rightarrow> 'w"  \<comment> \<open>started, not awaited\<close>
  budgetResponse :: "string \<Rightarrow> (string \<times> string \<times> int) list \<Rightarrow> 'w \<Rightarrow> json option \<times> 'w"
    \<comment> \<open>the parsed body of a successful answer; \<open>None\<close> when the call throws\<close>
  isLocked :: "string \<Rightarrow> 'w \<Rightarrow> bool"

definition call :: "string \<Rightarrow> ('w \<Rightarrow> bool \<times> 'w) \<Rightarrow> ('w, unit) ses" where
  "call what f = bnd (outer_call f) (\<lambda>ok. if ok then ret () else throw (OtherError what))"

definition release :: "'w manager_services \<Rightarrow> session_row \<Rightarrow> ('w, unit) ses" where
  "release E s = call ''release'' (releaseInstance E (ws_instance s) (ws_id s))"

text \<open>A command inside the \<open>try/catch\<close> of a sweep's loop: a failure is logged.\<close>

definition isolated :: "('w, unit) ses \<Rightarrow> ('w, unit) ses" where
  "isolated m = catching m (\<lambda>_. ret ())"

section \<open>Closing\<close>

definition owner_check :: "string option \<Rightarrow> session_row \<Rightarrow> ('w, unit) ses" where
  "owner_check username s = (case username of
     None \<Rightarrow> ret ()
   | Some u \<Rightarrow> if u \<noteq> [] \<and> u \<noteq> ws_username s
       then throw (NotOwner (''Session not owned by user: '' @ ws_id s)) else ret ())"

definition close_release_emit :: "'w manager_services \<Rightarrow> session_row \<Rightarrow> ('w, unit) ses" where
  "close_release_emit E s = bnd (update_session E (close_session s)) (\<lambda>closed.
     if \<not> closed then ret ()
     else andthen (release E s) (emit (WorkerSessionClosed (ws_username s) (ws_id s))))"

definition closeSession :: "'w manager_services \<Rightarrow> string \<Rightarrow> string option \<Rightarrow> ('w, unit) ses" where
  "closeSession E i username = bnd (getSession i) (\<lambda>s. andthen (owner_check username s)
     (if \<not> isActive s \<and> \<not> isPending s then ret () else close_release_emit E s))"

definition closeSessionOnInstance :: "'w manager_services \<Rightarrow> string \<Rightarrow> ('w, unit) ses" where
  "closeSessionOnInstance E instance_id = bnd (sessionOnInstance instance_id [Pending, Active]) (\<lambda>s.
     case s of None \<Rightarrow> ret () | Some s \<Rightarrow> closeSession E (ws_id s) None)"

definition closeTimedOutSessions :: "'w manager_services \<Rightarrow> ('w, unit) ses" where
  "closeTimedOutSessions E = bnd (timedOutSessions E) (\<lambda>ss.
     for_each ss (\<lambda>s. isolated (closeSession E (ws_id s) None)))"

definition closeUserSessions :: "'w manager_services \<Rightarrow> string \<Rightarrow> ('w, unit) ses" where
  "closeUserSessions E u = bnd (userSessions u [Pending, Active] None None) (\<lambda>ss.
     for_each ss (\<lambda>s. isolated (close_release_emit E s)))"

definition status_in :: "(string \<times> instance_status) list \<Rightarrow> session_row \<Rightarrow> instance_status" where
  "status_in statuses s = (case map_of (rev statuses) (ws_id s) of None \<Rightarrow> PROVISIONED | Some st \<Rightarrow> st)"

definition probe :: "'w manager_services \<Rightarrow> session_row list \<Rightarrow> ('w, (string \<times> instance_status) list) ses" where
  "probe E ss = bnd (outer_call (probeInstances E ss)) (\<lambda>a. case a of
     None \<Rightarrow> throw (OtherError ''probe'') | Some sts \<Rightarrow> ret sts)"

text \<open>The tracker is the sweep's own memory; it is threaded through the loop.\<close>

fun close_missing ::
  "'w manager_services \<Rightarrow> (string \<times> instance_status) list \<Rightarrow> session_row list \<Rightarrow> tracker \<Rightarrow> ('w, tracker) ses" where
  "close_missing E statuses [] m = ret m"
| "close_missing E statuses (s # ss) m = bnd (outer_call (processClock E)) (\<lambda>n.
     let (close, m') = record_probe 2 (30 * 60000) n (ws_id s) (status_in statuses s) m
     in if \<not> close then close_missing E statuses ss m'
        else andthen (isolated (bnd (update_session E (close_session s)) (\<lambda>closed.
            if \<not> closed then ret () else emit (WorkerSessionClosed (ws_username s) (ws_id s)))))
          (close_missing E statuses ss m'))"

definition closeSessionsWithoutInstance :: "'w manager_services \<Rightarrow> tracker \<Rightarrow> ('w, tracker) ses" where
  "closeSessionsWithoutInstance E m = bnd (sessions_in [Active] None) (\<lambda>ss.
     bnd (probe E ss) (\<lambda>statuses.
     bnd (close_missing E statuses ss m) (\<lambda>m'. ret (retain (map ws_id ss) m'))))"

section \<open>Activating\<close>

definition activatePendingSessionOnInstance :: "'w manager_services \<Rightarrow> expiry_policy \<Rightarrow> string \<Rightarrow> ('w, unit) ses" where
  "activatePendingSessionOnInstance E P instance_id = bnd (sessionOnInstance instance_id [Pending]) (\<lambda>s.
     case s of None \<Rightarrow> ret () | Some s \<Rightarrow>
       bnd (activateSession E (ws_id s) (startupLeaseMinutes P)) (\<lambda>a.
         case a of None \<Rightarrow> ret ()
         | Some a \<Rightarrow> emit (WorkerSessionActivated (ws_username a) (withApiKey a None))))"

definition reconcile_pending ::
  "'w manager_services \<Rightarrow> expiry_policy \<Rightarrow> (string \<times> instance_status) list \<Rightarrow> session_row \<Rightarrow> ('w, unit) ses" where
  "reconcile_pending E P statuses s = bnd (gets (\<lambda>st. isProvisioning E (the (ws_instance s)) (outer st))) (\<lambda>busy.
     if busy then ret ()
     else case status_in statuses s of
       PROVISIONED \<Rightarrow> isolated (activatePendingSessionOnInstance E P (the (ws_instance s)))
     | MISSING \<Rightarrow> bnd (sessionOnInstance (the (ws_instance s)) [Pending]) (\<lambda>current.
         if map_option ws_id current \<noteq> Some (ws_id s) then ret ()
         else outer_call (\<lambda>w. ((), reprovision E s w)))
     | UNKNOWN \<Rightarrow> ret ())"

definition reconcilePendingSessions :: "'w manager_services \<Rightarrow> expiry_policy \<Rightarrow> ('w, unit) ses" where
  "reconcilePendingSessions E P = bnd (sessions_in [Pending] None) (\<lambda>all.
     let ss = filter (\<lambda>s. ws_instance s \<noteq> None \<and> ws_instance s \<noteq> Some []) all
     in if ss = [] then ret ()
        else bnd (probe E ss) (\<lambda>statuses. for_each ss (reconcile_pending E P statuses)))"

section \<open>Requesting\<close>

definition ERROR_BY_REASON :: "string \<Rightarrow> string option" where
  "ERROR_BY_REASON reason =
     (if reason = ''INSTANCE_BUDGET'' then Some ''InstanceBudgetExceeded''
      else if reason = ''STORAGE_BUDGET'' then Some ''StorageBudgetExceeded''
      else if reason = ''STORAGE_QUOTA'' then Some ''StorageQuotaExceeded'' else None)"

definition budgetErrorFor :: "string option \<Rightarrow> string \<Rightarrow> session_error" where
  "budgetErrorFor reason u = BudgetExceeded
     (case Option.bind reason ERROR_BY_REASON of None \<Rightarrow> ''InstanceBudgetExceeded'' | Some e \<Rightarrow> e) u"

text \<open>\<open>check\<close>: only an explicit \<open>true\<close> refuses.\<close>

definition check_verdict :: "json \<Rightarrow> bool \<times> string option" where
  "check_verdict verdict = (let exceeded = (json_get verdict ''exceeded'' = Some (JBool True)) in
     (exceeded, if exceeded then (case json_get verdict ''reason'' of Some (JStr r) \<Rightarrow> Some r | _ \<Rightarrow> None)
        else None))"

definition openSessions :: "string \<Rightarrow> ('w, (string \<times> string \<times> int) list) ses" where
  "openSessions u = bnd (userSessions (storedUsername u) [Pending, Active] None None) (\<lambda>ss.
     ret (map (\<lambda>s. (ws_id s, ws_instanceType s, ws_created s)) ss))"

definition budgetVerdict :: "'w manager_services \<Rightarrow> string \<Rightarrow> ('w, bool \<times> string option) ses" where
  "budgetVerdict E u = bnd (openSessions u) (\<lambda>os. bnd (outer_call (budgetResponse E u os)) (\<lambda>a. case a of
     Some verdict \<Rightarrow> ret (check_verdict verdict)
   | None \<Rightarrow> bnd (gets (\<lambda>s. isLocked E u (outer s))) (\<lambda>locked. ret (locked, Some ''INSTANCE_BUDGET''))))"

definition repeatedRequest :: "string \<Rightarrow> string option \<Rightarrow> ('w, session_row option) ses" where
  "repeatedRequest u i = (if i = None \<or> i = Some [] then ret None
     else bnd (findSession (the i)) (\<lambda>s. case s of
         None \<Rightarrow> ret None
       | Some s \<Rightarrow> if ws_username s \<noteq> storedUsername u
           then throw (ClientException (''Session '' @ the i @ '' belongs to another user'')) else ret (Some s)))"

definition requestSession_command ::
  "'w manager_services \<Rightarrow> expiry_policy \<Rightarrow> string \<Rightarrow> string \<Rightarrow> string \<Rightarrow> string option \<Rightarrow> ('w, session_row) ses" where
  "requestSession_command E P u workerType instanceType i =
     (if instanceType \<notin> set (instanceTypeIds E)
      then throw (ClientException (''Unknown instance type: '' @ instanceType))
      else if i \<noteq> None \<and> i \<noteq> Some [] \<and> \<not> UUID_test (the i)
      then throw (ClientException (''Not a session id: '' @ the i))
      else bnd (budgetVerdict E u) (\<lambda>(exceeded, reason).
        if exceeded then throw (budgetErrorFor reason u)
        else bnd (outer_call (processClock E)) (\<lambda>n.
          bnd (outer_call (generateSessionKey E)) (\<lambda>apiKey.
          bnd (case i of Some v \<Rightarrow> ret v | None \<Rightarrow> outer_call (randomUUID E)) (\<lambda>v.
          let session = \<lparr>ws_id = v, ws_state = Pending, ws_username = storedUsername u,
            ws_workerType = workerType, ws_instanceType = instanceType, ws_instance = None, ws_host = None,
            ws_created = n, ws_updated = n, ws_apiKey = Some apiKey,
            ws_timeout = Some (n + startupLeaseMinutes P * 60000), ws_interaction = None, ws_active = None,
            ws_notification = NONE, ws_notified = None\<rparr> in
          bnd (outer_call (requestInstance E session)) (\<lambda>a. case a of
            None \<Rightarrow> throw (OtherError ''requestInstance'')
          | Some (instance_id, host) \<Rightarrow>
              let requested = withInstance session (Some instance_id) host in
              andthen (insert_session requested) (ret requested)))))))"

text \<open>One request per user at a time; a repeated request announces nothing.\<close>

definition requestSession ::
  "'w manager_services \<Rightarrow> expiry_policy \<Rightarrow> string \<Rightarrow> string \<Rightarrow> string \<Rightarrow> string option \<Rightarrow> ('w, session_row) ses" where
  "requestSession E P u workerType instanceType i = bnd (repeatedRequest u i) (\<lambda>repeated. case repeated of
     Some s \<Rightarrow> ret s
   | None \<Rightarrow> bnd (requestSession_command E P u workerType instanceType i) (\<lambda>s.
       andthen (emit (WorkerSessionRequested (ws_username s) (withApiKey s None)))
         (andthen (emit (SessionChanged (Some (ws_username s)))) (ret s))))"

section \<open>Extending\<close>

definition known_session :: "string \<Rightarrow> ('w, session_row) ses" where
  "known_session i = catching (getSession i)
     (\<lambda>_. throw (NotFoundException (''Non-existing session: '' @ i)))"

definition heartbeat ::
  "'w manager_services \<Rightarrow> expiry_policy \<Rightarrow> string \<Rightarrow> string option \<Rightarrow> bool \<Rightarrow> ('w, session_row) ses" where
  "heartbeat E P i username interaction = bnd (known_session i) (\<lambda>s.
     andthen (owner_check username s)
     (if \<not> isActive s \<and> \<not> isPending s then throw (NotFoundException (''Session not open: '' @ i))
      else if isActive s
      then bnd (update_session E s) (\<lambda>updated.
        if \<not> updated then throw (NotFoundException (''Session not open: '' @ i))
        else if interaction
        then bnd (extendSession_repo E i (interactionExtensionMinutes P) True None) (\<lambda>_. ret s)
        else ret s)
      else ret s))"

definition extendSession_command ::
  "'w manager_services \<Rightarrow> string \<Rightarrow> string option \<Rightarrow> int \<Rightarrow> bool \<Rightarrow> rat option \<Rightarrow> ('w, string \<times> bool) ses" where
  "extendSession_command E i username minutes interaction capHours = bnd (known_session i) (\<lambda>s.
     andthen (owner_check username s)
     (bnd (extendSession_repo E i minutes interaction capHours) (\<lambda>extended. ret (ws_username s, extended))))"

definition extendSession ::
  "'w manager_services \<Rightarrow> string \<Rightarrow> string option \<Rightarrow> int \<Rightarrow> bool \<Rightarrow> rat option \<Rightarrow> ('w, bool) ses" where
  "extendSession E i username minutes interaction capHours =
     bnd (extendSession_command E i username minutes interaction capHours) (\<lambda>(owner, extended).
       andthen (if extended then emit (SessionChanged (Some owner)) else ret ()) (ret extended))"

definition setSessionTimeout_command ::
  "'w manager_services \<Rightarrow> string \<Rightarrow> string option \<Rightarrow> int \<Rightarrow> ('w, string \<times> bool) ses" where
  "setSessionTimeout_command E i username minutes = bnd (known_session i) (\<lambda>s.
     andthen (owner_check username s)
     (bnd (setSessionTimeout_repo E i minutes) (\<lambda>applied. ret (ws_username s, applied))))"

definition setSessionTimeoutHours ::
  "'w manager_services \<Rightarrow> string \<Rightarrow> rat \<Rightarrow> string option \<Rightarrow> ('w, bool) ses" where
  "setSessionTimeoutHours E i hours username =
     bnd (setSessionTimeout_command E i username (Math_round (max 0 hours * 60))) (\<lambda>(owner, applied).
       andthen (if applied then emit (SessionChanged (Some owner)) else ret ()) (ret applied))"

definition openExtension :: "'w manager_services \<Rightarrow> expiry_policy \<Rightarrow> string \<Rightarrow> string option \<Rightarrow> ('w, bool) ses" where
  "openExtension E P i username = extendSession E i username (openExtensionMinutes P) True None"

definition manualExtension :: "'w manager_services \<Rightarrow> expiry_policy \<Rightarrow> string \<Rightarrow> string option \<Rightarrow> ('w, bool) ses" where
  "manualExtension E P i username = extendSession E i username (manualExtensionMinutes P) True None"

definition dismissExpiryNotification :: "string \<Rightarrow> string option \<Rightarrow> ('w, bool) ses" where
  "dismissExpiryNotification i username = bnd (dismissNotification i username) (\<lambda>dismissed.
     andthen (if dismissed then emit (SessionChanged username) else ret ()) (ret dismissed))"

definition redeemExtension :: "'w manager_services \<Rightarrow> expiry_policy \<Rightarrow> string \<Rightarrow> int \<Rightarrow> ('w, bool) ses" where
  "redeemExtension E P i nt = bnd (findSession i) (\<lambda>s.
     bnd (redeemExtension_repo E i nt (emailExtensionMinutes P)) (\<lambda>redeemed.
       andthen (if redeemed then emit (SessionChanged (map_option ws_username s)) else ret ()) (ret redeemed)))"

definition redeemTermination :: "'w manager_services \<Rightarrow> string \<Rightarrow> int \<Rightarrow> ('w, bool) ses" where
  "redeemTermination E i nt = bnd (findSession i) (\<lambda>s.
     bnd (redeemTermination_repo E i nt) (\<lambda>terminated.
       if \<not> terminated then ret False
       else andthen (call ''release'' (releaseInstance E (Option.bind s ws_instance) i))
         (andthen (emit (WorkerSessionClosed (case s of None \<Rightarrow> [] | Some r \<Rightarrow> ws_username r) i))
           (andthen (emit (SessionChanged (map_option ws_username s))) (ret True)))))"

section \<open>The expiry sweep\<close>

definition close_expired ::
  "'w manager_services \<Rightarrow> expiry_policy \<Rightarrow> (string \<times> string option) list \<Rightarrow> session_row \<Rightarrow> int \<Rightarrow> ('w, bool) ses" where
  "close_expired E P running s nt =
     bnd (closeExpiredSession E (ws_id s) (ws_notification s) nt (graceMinutes P)) (\<lambda>closed.
       if \<not> closed then ret False
       else andthen (release E s)
         (andthen (emit (WorkerSessionClosed (ws_username s) (ws_id s)))
         (andthen (emit (SessionExpiryClosed (ws_username s) (ws_id s) running))
         (andthen (emit (ClosedEmail (ws_username s) (ws_id s))) (ret True)))))"

definition expire_one ::
  "'w manager_services \<Rightarrow> expiry_policy \<Rightarrow> int \<Rightarrow> session_row \<times> (string \<times> string option) list \<Rightarrow> ('w, unit) ses" where
  "expire_one E P n = (\<lambda>(s, running).
     if ws_notification s = NONE
     then bnd (notifyExpiry E (ws_id s)) (\<lambda>notified. if notified
         then emit (SessionExpiryNotified (ws_username s) (withApiKey s None) running (manualExtensionMinutes P))
         else ret ())
     else (case ws_notified s of None \<Rightarrow> ret ()
       | Some nt \<Rightarrow>
           if n - nt \<ge> graceMinutes P * MINUTE_MS
           then (if mode P = ''enforce''
             then bnd (close_expired E P running s nt) (\<lambda>_. ret ())
             else bnd (restartExpiryCycle E (ws_id s) nt (graceMinutes P)) (\<lambda>restarted.
               if restarted then emit (SessionChanged (Some (ws_username s))) else ret ()))
           else if ws_notification s = NOTIFIED \<and> n - nt \<ge> notificationVisibleMinutes P * MINUTE_MS
           then bnd (markEmailed (ws_id s) nt) (\<lambda>marked.
             if marked then emit (ExpiryEmail (ws_username s) (ws_id s)) else ret ())
           else ret ()))"

fun describeSessions :: "session_row list \<Rightarrow> ('w, (session_row \<times> (string \<times> string option) list) list) ses" where
  "describeSessions [] = ret []"
| "describeSessions (s # ss) = bnd (appsForSession (ws_id s)) (\<lambda>as.
     bnd (describeSessions ss) (\<lambda>ds. ret ((s, as) # ds)))"

definition expireSessions :: "'w manager_services \<Rightarrow> expiry_policy \<Rightarrow> ('w, unit) ses" where
  "expireSessions E P = (if mode P = ''off'' then ret ()
     else bnd (expiredSessions E) (\<lambda>ss. if ss = [] then ret ()
       else bnd (describeSessions ss) (\<lambda>ds. bnd (outer_call (processClock E)) (\<lambda>n.
         for_each ds (\<lambda>d. isolated (expire_one E P n d))))))"

text \<open>\<open>runningText\<close>: the labels of the running apps, or \<open>None\<close> when there is none.\<close>

definition app_name :: "string \<times> string option \<Rightarrow> string" where
  "app_name a = (case snd a of None \<Rightarrow> fst a | Some [] \<Rightarrow> fst a | Some l \<Rightarrow> l)"

definition runningText :: "(string \<times> string option) list \<Rightarrow> string option" where
  "runningText apps = (let parts = map app_name apps in case parts of
     [] \<Rightarrow> None
   | [p] \<Rightarrow> Some p
   | _ \<Rightarrow> Some (join '', '' (butlast parts) @ '' and '' @ last parts))"

section \<open>Apps on sessions\<close>

definition associateApp ::
  "'w manager_services \<Rightarrow> expiry_policy \<Rightarrow> string option \<Rightarrow> string \<Rightarrow> string \<Rightarrow> string option \<Rightarrow> string option
    \<Rightarrow> bool \<Rightarrow> ('w, string \<times> string \<times> string option) ses" where
  "associateApp E P username i path label client reassert = bnd (known_session i) (\<lambda>s.
     if ws_state s \<noteq> Pending \<and> ws_state s \<noteq> Active
     then throw (NotFoundException (''Session not open: '' @ i))
     else if username \<noteq> None \<and> username \<noteq> Some [] \<and> username \<noteq> Some (ws_username s)
     then throw (Forbidden (''Session not owned by user: '' @ i))
     else bnd (userAppSessions (ws_username s)) (\<lambda>as.
       case find (\<lambda>(a, r). sa_path a = path) as of
         Some (a, r) \<Rightarrow>
           andthen (if client \<noteq> None \<and> client \<noteq> Some [] then setClient (ws_username s) path client else ret ())
           (andthen (if \<not> reassert
              then bnd (openExtension E P (sa_session a) (Some (ws_username s))) (\<lambda>_. ret ()) else ret ())
             (ret (sa_session a, sa_path a, sa_label a)))
       | None \<Rightarrow>
           andthen (associate E (ws_username s) path i label client)
           (andthen (if \<not> reassert
              then bnd (openExtension E P i (Some (ws_username s))) (\<lambda>_. ret ()) else ret ())
           (andthen (emit (SessionAppAssociated (ws_username s) i path label)) (ret (i, path, label))))))"

definition dissociateApp :: "string \<Rightarrow> string \<Rightarrow> string option \<Rightarrow> ('w, bool) ses" where
  "dissociateApp u path requester = bnd (dissociate u path) (\<lambda>deleted. case deleted of
     None \<Rightarrow> ret False
   | Some (i, client) \<Rightarrow> andthen (emit (SessionAppDissociated u i path client requester)) (ret True))"

definition dissociateAppsForClient :: "string \<Rightarrow> string \<Rightarrow> ('w, (string \<times> string) list) ses" where
  "dissociateAppsForClient u client = (if u = [] \<or> client = [] then ret []
     else bnd (dissociateForClient u client) (\<lambda>deleted.
       andthen (for_each deleted (\<lambda>(p, i). emit (SessionAppDissociated u i p (Some client) (Some client))))
         (ret deleted)))"

section \<open>Every command is a sequence of statements\<close>

definition any_stmt :: "session_row list \<Rightarrow> session_row list \<Rightarrow> bool" where
  "any_stmt rs qs \<longleftrightarrow> (\<exists>n. session_stmt n rs qs)"

fun closes :: "session_event \<Rightarrow> bool" where
  "closes (WorkerSessionClosed u i) = True"
| "closes _ = False"

definition ses_evolves :: "'w session_server \<Rightarrow> 'w session_server \<Rightarrow> bool" where
  "ses_evolves s t \<longleftrightarrow> any_stmt\<^sup>*\<^sup>* (sessions s) (sessions t) \<and>
     filter closes (emitted t) = filter closes (emitted s)"

interpretation sev: evolution "ses_evolves :: 'w session_server \<Rightarrow> _"
  by unfold_locales (auto simp: ses_evolves_def)

lemma ses_same [simp]:
  "sessions t = sessions s \<Longrightarrow> filter closes (emitted t) = filter closes (emitted s) \<Longrightarrow> ses_evolves s t"
  by (simp add: ses_evolves_def)

lemma runs_in_emit [intro]: "\<not> closes e \<Longrightarrow> runs_in ses_evolves (emit e)"
  by (auto simp: emit_def intro!: sev.runs_in_modify)

lemma runs_in_outer [intro!]:
  "runs_in ses_evolves (outer_call f)"
  "runs_in ses_evolves (select_sessions g)" "runs_in ses_evolves (deleteForSession i)"
  "runs_in ses_evolves (setClient u p c)" "runs_in ses_evolves (userAppSessions u)"
  "runs_in ses_evolves (appsForSession i)"
  by (auto simp: outer_call_def select_sessions_def deleteForSession_def setClient_def
      userAppSessions_def appsForSession_def split: prod.splits
      intro!: sev.runs_in_state_act sev.runs_in_modify)

lemma runs_in_app_rows [intro!]:
  "runs_in ses_evolves (associate E u p i l c)" "runs_in ses_evolves (dissociate u p)"
  "runs_in ses_evolves (dissociateForClient u d)"
  unfolding associate_def dissociate_def dissociateForClient_def
  by (auto split: option.splits intro!: sev.runs_in_modify sev.runs_in_bnd sev.runs_in_andthen)

lemma any_stmts:
  "any_stmt rs (stmt_touch t Active i rs)" "any_stmt rs (stmt_close t i rs)"
  "any_stmt rs (stmt_activateSession n i m rs)" "any_stmt rs (stmt_extend n i m b c rs)"
  "any_stmt rs (stmt_setTimeout n i m rs)" "any_stmt rs (stmt_redeemExtension n i nt m rs)"
  "any_stmt rs (stmt_redeemTermination n i nt rs)" "any_stmt rs (stmt_notifyExpiry n i rs)"
  "any_stmt rs (stmt_markEmailed i nt rs)" "any_stmt rs (stmt_dismiss i u rs)"
  "any_stmt rs (stmt_restartExpiryCycle n i nt m rs)" "any_stmt rs (stmt_closeExpired n i ns nt g rs)"
  unfolding any_stmt_def by (rule exI, rule session_stmt.intros)+

lemma runs_in_update_sessions:
  assumes "\<And>rs. any_stmt rs (f rs)"
  shows "runs_in ses_evolves (update_sessions P f)"
  unfolding update_sessions_def
proof (intro sev.runs_in_bnd runs_in_outer sev.runs_in_andthen sev.runs_in_modify sev.runs_in_ret)
  show "ses_evolves s (s\<lparr>sessions := f (sessions s)\<rparr>)" for s
    unfolding ses_evolves_def by (intro conjI r_into_rtranclp) (simp_all add: assms)
qed

lemma runs_in_update_session [intro]:
  assumes "ws_state x \<noteq> Pending"
  shows "runs_in ses_evolves (update_session E x)"
proof -
  have "runs_in ses_evolves (if ws_state x = Pending \<or> ws_state x = Active
       then update_sessions (list_ex (\<lambda>r. ws_id r = ws_id x \<and> ws_state r \<in> {Pending, Active}))
         (stmt_touch n (ws_state x) (ws_id x))
       else update_sessions (list_ex (\<lambda>r. ws_id r = ws_id x \<and> ws_state r \<noteq> Closed))
         (stmt_close n (ws_id x)))" for n
    using assms
    by (cases "ws_state x")
       (auto intro!: runs_in_update_sessions any_stmts)
  then show ?thesis
    unfolding update_session_def by (auto intro!: sev.runs_in_bnd)
qed

lemma runs_in_session_reads [intro!]:
  "runs_in ses_evolves (findSession i)" "runs_in ses_evolves (getSession i)"
  "runs_in ses_evolves (userSessions u sts wt it)" "runs_in ses_evolves (sessions_in sts wt)"
  "runs_in ses_evolves (timedOutSessions E)" "runs_in ses_evolves (sessionOnInstance j sts)"
  "runs_in ses_evolves (expiredSessions E)" "runs_in ses_evolves (known_session i)"
proof -
  show find: "runs_in ses_evolves (findSession i)" for i by (auto simp: findSession_def)
  show get: "runs_in ses_evolves (getSession i)" for i
    unfolding getSession_def by (intro sev.runs_in_bnd find) (auto split: option.splits)
  show "runs_in ses_evolves (known_session i)"
    unfolding known_session_def by (intro sev.runs_in_catching get sev.runs_in_throw)
qed (auto simp: userSessions_def sessions_in_def timedOutSessions_def sessionOnInstance_def expiredSessions_def)

lemma runs_in_session_methods [intro!]:
  "runs_in ses_evolves (activateSession E i m)" "runs_in ses_evolves (extendSession_repo E i m b c)"
  "runs_in ses_evolves (setSessionTimeout_repo E i m)" "runs_in ses_evolves (redeemExtension_repo E i nt m)"
  "runs_in ses_evolves (redeemTermination_repo E i nt)" "runs_in ses_evolves (notifyExpiry E i)"
  "runs_in ses_evolves (markEmailed i nt)" "runs_in ses_evolves (dismissNotification i u)"
  "runs_in ses_evolves (restartExpiryCycle E i nt m)" "runs_in ses_evolves (closeExpiredSession E i ns nt m)"
  unfolding activateSession_def extendSession_repo_def setSessionTimeout_repo_def redeemExtension_repo_def
    redeemTermination_repo_def notifyExpiry_def markEmailed_def dismissNotification_def
    restartExpiryCycle_def closeExpiredSession_def
  by (intro sev.runs_in_bnd sev.runs_in_if sev.runs_in_andthen sev.runs_in_ret runs_in_outer
      runs_in_session_reads runs_in_update_sessions any_stmts)+

section \<open>A session is announced closed at most once\<close>

definition closed_id :: "string \<Rightarrow> session_row list \<Rightarrow> bool" where
  "closed_id i rs \<longleftrightarrow> (\<exists>r \<in> set rs. ws_id r = i \<and> ws_state r = Closed)"

definition closings :: "string \<Rightarrow> session_event list \<Rightarrow> nat" where
  "closings i es = length (filter (\<lambda>e. \<exists>u. e = WorkerSessionClosed u i) es)"

definition closing_ok :: "'w session_server \<Rightarrow> bool" where
  "closing_ok s \<longleftrightarrow> distinct (map ws_id (sessions s)) \<and>
     (\<forall>i. closings i (emitted s) \<le> (if closed_id i (sessions s) then 1 else 0))"

lemma closings_append:
  "closings j (es @ [WorkerSessionClosed u i]) = closings j es + (if j = i then 1 else 0)"
  by (simp add: closings_def)

lemma closings_plain: "filter closes fs = filter closes es \<Longrightarrow> closings i fs = closings i es"
proof -
  assume same: "filter closes fs = filter closes es"
  have f: "filter (\<lambda>e. \<exists>u. e = WorkerSessionClosed u i) xs =
      filter (\<lambda>e. \<exists>u. e = WorkerSessionClosed u i) (filter closes xs)" for xs
    by (induction xs) auto
  show ?thesis unfolding closings_def by (subst (1 2) f) (simp add: same)
qed

lemma any_stmts_closed_id: "any_stmt\<^sup>*\<^sup>* rs qs \<Longrightarrow> closed_id i rs \<Longrightarrow> closed_id i qs"
proof (induction rule: rtranclp_induct)
  case (step qs ps)
  then obtain n q where "session_stmt n qs ps" "q \<in> set qs" "ws_id q = i" "ws_state q = Closed"
    by (auto simp: any_stmt_def closed_id_def)
  with grows_row [OF session_stmt_grows] show ?case by (fastforce simp: closed_id_def ws_step_def)
qed simp

lemma any_stmts_ids: "any_stmt\<^sup>*\<^sup>* rs qs \<Longrightarrow> distinct (map ws_id rs) \<Longrightarrow> distinct (map ws_id qs)"
  by (induction rule: rtranclp_induct) (auto simp: any_stmt_def intro: session_stmt_ids)

definition story :: "'w session_server \<Rightarrow> 'w session_server \<Rightarrow> bool" where
  "story s t \<longleftrightarrow> any_stmt\<^sup>*\<^sup>* (sessions s) (sessions t) \<and> (closing_ok s \<longrightarrow> closing_ok t)"

interpretation sty: evolution "story :: 'w session_server \<Rightarrow> _"
  by unfold_locales (auto simp: story_def)

lemma evolves_story: "ses_evolves s t \<Longrightarrow> story s t"
proof -
  assume e: "ses_evolves s t"
  have "closing_ok t" if ok: "closing_ok s"
  proof -
    have "closings i (emitted t) \<le> (if closed_id i (sessions t) then 1 else 0)" for i
    proof -
      have "closings i (emitted t) = closings i (emitted s)"
        using e by (auto simp: ses_evolves_def intro: closings_plain)
      moreover have "closed_id i (sessions s) \<longrightarrow> closed_id i (sessions t)"
        using e by (auto simp: ses_evolves_def intro: any_stmts_closed_id)
      moreover have "closings i (emitted s) \<le> (if closed_id i (sessions s) then 1 else 0)"
        using ok by (simp add: closing_ok_def)
      ultimately show ?thesis by (auto split: if_splits)
    qed
    then show ?thesis
      using ok e any_stmts_ids by (auto simp: closing_ok_def ses_evolves_def)
  qed
  with e show ?thesis by (simp add: story_def ses_evolves_def)
qed

lemma runs_in_story [intro]: "runs_in ses_evolves m \<Longrightarrow> runs_in story m"
  by (auto simp: runs_in_def intro: evolves_story)

text \<open>
  A guarded close: it emits nothing, and when it answers true the session was open before and is
  closed after it.
\<close>

definition guarded_close :: "string \<Rightarrow> ('w, bool) ses \<Rightarrow> bool" where
  "guarded_close i m \<longleftrightarrow> runs_in ses_evolves m \<and> (\<forall>s s'. m s = (Inr True, s') \<longrightarrow>
     distinct (map ws_id (sessions s)) \<longrightarrow> \<not> closed_id i (sessions s) \<and> closed_id i (sessions s'))"

lemma outer_emitted: "call what f s = (a, s') \<Longrightarrow> emitted s' = emitted s \<and> sessions s' = sessions s"
  by (auto simp: call_def outer_call_def effect_simps split: prod.splits if_splits)

lemma announced_close:
  assumes "guarded_close i m" and "\<And>s a s'. k s = (a, s') \<Longrightarrow> emitted s' = emitted s \<and> sessions s' = sessions s"
    and "runs_in story rest"
  shows "runs_in story (bnd m (\<lambda>closed. if \<not> closed then ret d
    else andthen k (andthen (emit (WorkerSessionClosed u i)) rest)))"
  unfolding runs_in_def
proof
  fix s
  obtain a s1 where m: "m s = (a, s1)" by fastforce
  have run: "runs_in ses_evolves m" using assms(1) by (simp add: guarded_close_def)
  then have e1: "ses_evolves s s1" using m by (rule runs_inD_run)
  let ?all = "bnd m (\<lambda>closed. if \<not> closed then ret d
    else andthen k (andthen (emit (WorkerSessionClosed u i)) rest))"
  show "story s (snd (?all s))"
  proof (cases "a = Inr True")
    case False
    with m have "snd (?all s) = s1" by (auto simp: bnd_run split: sum.splits)
    with evolves_story [OF e1] show ?thesis by simp
  next
    case True
    obtain b s2 where k: "k s1 = (b, s2)" by fastforce
    with assms(2) have s2: "emitted s2 = emitted s1" "sessions s2 = sessions s1" by blast+
    then have "ses_evolves s1 s2" by simp
    show ?thesis
    proof (cases b)
      case (Inl e)
      with True m k have "snd (?all s) = s2" by (simp add: bnd_run andthen_run)
      with e1 \<open>ses_evolves s1 s2\<close> show ?thesis
        by (auto intro: evolves_story sev.evolves_trans)
    next
      case (Inr c)
      let ?s3 = "s2\<lparr>emitted := emitted s2 @ [WorkerSessionClosed u i]\<rparr>"
      have "snd (?all s) = snd (rest ?s3)"
        using True m k Inr by (simp add: bnd_run andthen_run emit_def)
      moreover have "story s ?s3"
      proof -
        have "closing_ok ?s3" if ok: "closing_ok s"
        proof -
          have "distinct (map ws_id (sessions s))" using ok by (simp add: closing_ok_def)
          with assms(1) m True have open_before: "\<not> closed_id i (sessions s)" and after: "closed_id i (sessions s1)"
            unfolding guarded_close_def by blast+
          have ok1: "closing_ok s1" using evolves_story [OF e1] ok by (simp add: story_def)
          have "closings i (emitted s1) = closings i (emitted s)"
            using e1 by (auto simp: ses_evolves_def intro: closings_plain)
          with ok open_before have "closings i (emitted s1) = 0"
            unfolding closing_ok_def by (metis le_zero_eq)
          then have "closings j (emitted ?s3) \<le> (if closed_id j (sessions ?s3) then 1 else 0)" for j
            using ok1 after s2 by (cases "j = i") (auto simp: closing_ok_def closings_append)
          with ok1 s2 show ?thesis by (simp add: closing_ok_def)
        qed
        with e1 s2 show ?thesis by (simp add: story_def ses_evolves_def)
      qed
      ultimately show ?thesis
        using assms(3) by (auto intro: sty.evolves_trans runs_inD)
    qed
  qed
qed

lemma outer_call_rows: "outer_call f s = (a, s') \<Longrightarrow> sessions s' = sessions s"
  by (auto simp: outer_call_def state_act_run split: prod.splits)

lemma update_sessions_run:
  "update_sessions P f s = (Inr (P (sessions s)), s\<lparr>sessions := f (sessions s)\<rparr>)"
  by (simp add: update_sessions_def select_sessions_def effect_simps)

text \<open>A conditional \<open>UPDATE\<close> that closes row \<open>i\<close> is a guarded close, with or without the cascade.\<close>

lemma guarded_update:
  assumes "\<And>r. P r \<Longrightarrow> ws_id r = i \<and> ws_state r \<noteq> Closed" and "\<And>r. ws_id (f r) = ws_id r \<and> ws_state (f r) = Closed"
    and "list_ex P rs" and "distinct (map ws_id rs)"
  shows "\<not> closed_id i rs \<and> closed_id i (sql_update P f rs)"
proof -
  from assms(3) obtain r where r: "r \<in> set rs" "P r" by (auto simp: list_ex_iff)
  with assms(1) have i: "ws_id r = i" "ws_state r \<noteq> Closed" by auto
  have "q = r" if "q \<in> set rs" "ws_id q = i" for q
    using that r(1) i(1) assms(4) by (metis map_of_key_unique)
  with i(2) have "\<not> closed_id i rs" by (auto simp: closed_id_def)
  moreover have "f r \<in> set (sql_update P f rs)" using r by (auto simp: set_sql_update)
  with assms(2) i(1) have "closed_id i (sql_update P f rs)" unfolding closed_id_def by metis
  ultimately show ?thesis ..
qed

lemma guarded_close_update: "ws_id x = i \<Longrightarrow> guarded_close i (update_session E (close_session x))"
  unfolding guarded_close_def
proof (intro conjI allI impI)
  show "runs_in ses_evolves (update_session E (close_session x))"
    by (rule runs_in_update_session) (simp add: close_session_def)
next
  fix s s' :: "'a session_server"
  assume i: "ws_id x = i" and run: "update_session E (close_session x) s = (Inr True, s')"
    and d: "distinct (map ws_id (sessions s))"
  let ?P = "\<lambda>r. ws_id r = i \<and> ws_state r \<noteq> Closed"
  obtain n s1 where n: "outer_call (processClock E) s = (Inr n, s1)"
    by (auto simp: outer_call_def state_act_run split: prod.splits)
  have "list_ex ?P (sessions s1)" and s': "sessions s' = stmt_close n i (sessions s1)"
    using run n i by (auto simp: update_session_def close_session_def bnd_run andthen_run update_sessions_run
        deleteForSession_def split: if_splits)
  then show "\<not> closed_id i (sessions s)" and "closed_id i (sessions s')"
    using guarded_update [of ?P i "\<lambda>r. r\<lparr>ws_state := Closed, ws_updated := n, ws_apiKey := None\<rparr>" "sessions s1"]
      d outer_call_rows [OF n] by (auto simp: stmt_close_def)
qed

lemma guarded_close_statement:
  assumes "\<And>n r. P n r \<Longrightarrow> ws_id r = i \<and> ws_state r = Active"
    and "\<And>n rs. stmt n rs = sql_update (P n) (\<lambda>r. r\<lparr>ws_state := Closed, ws_updated := n, ws_apiKey := None\<rparr>) rs"
    and "\<And>n rs. any_stmt rs (stmt n rs)"
  shows "guarded_close i (bnd (outer_call (dbNow E)) (\<lambda>n. bnd (update_sessions (list_ex (P n)) (stmt n)) (\<lambda>closed.
     if \<not> closed then ret False else andthen (deleteForSession i) (ret True))))"
  unfolding guarded_close_def
proof (intro conjI allI impI)
  show "runs_in ses_evolves (bnd (outer_call (dbNow E)) (\<lambda>n. bnd (update_sessions (list_ex (P n)) (stmt n)) (\<lambda>closed.
     if \<not> closed then ret False else andthen (deleteForSession i) (ret True))))"
    by (intro sev.runs_in_bnd sev.runs_in_if sev.runs_in_andthen sev.runs_in_ret runs_in_outer
        runs_in_update_sessions assms(3))
next
  fix s s' :: "'a session_server"
  assume run: "bnd (outer_call (dbNow E)) (\<lambda>n. bnd (update_sessions (list_ex (P n)) (stmt n)) (\<lambda>closed.
     if \<not> closed then ret False else andthen (deleteForSession i) (ret True))) s = (Inr True, s')"
    and d: "distinct (map ws_id (sessions s))"
  obtain n s1 where n: "outer_call (dbNow E) s = (Inr n, s1)"
    by (auto simp: outer_call_def state_act_run split: prod.splits)
  have "list_ex (P n) (sessions s1)" and s': "sessions s' = stmt n (sessions s1)"
    using run n by (auto simp: bnd_run andthen_run update_sessions_run deleteForSession_def split: if_splits)
  then show "\<not> closed_id i (sessions s)" and "closed_id i (sessions s')"
    using guarded_update [of "P n" i "\<lambda>r. r\<lparr>ws_state := Closed, ws_updated := n, ws_apiKey := None\<rparr>" "sessions s1"]
      assms(1) [of n] d outer_call_rows [OF n] by (auto simp: assms(2))
qed

lemma guarded_redeemTermination [intro!]: "guarded_close i (redeemTermination_repo E i nt)"
  unfolding redeemTermination_repo_def
  by (rule guarded_close_statement)
     (simp_all add: names_notification_def any_stmts, simp add: stmt_redeemTermination_def names_notification_def)

lemma guarded_closeExpired [intro!]: "guarded_close i (closeExpiredSession E i ns nt g)"
  unfolding closeExpiredSession_def
  by (rule guarded_close_statement)
     (simp_all add: expired_close_def any_stmts, simp add: stmt_closeExpired_def expired_close_def)


lemma andthen_ret_unit [simp]: "andthen m (ret ()) = m" "andthen (ret a) k = k"
  by (auto simp: andthen_run fun_eq_iff split: prod.splits sum.splits)

lemma announced_close_last:
  assumes "guarded_close i m" and "\<And>s a s'. k s = (a, s') \<Longrightarrow> emitted s' = emitted s \<and> sessions s' = sessions s"
  shows "runs_in story (bnd m (\<lambda>closed. if \<not> closed then ret () else andthen k (emit (WorkerSessionClosed u i))))"
  using announced_close [OF assms sty.runs_in_ret, where d = "()" and u = u] by (simp cong: if_cong)

lemma announced_close_only:
  assumes "guarded_close i m"
  shows "runs_in story (bnd m (\<lambda>closed. if \<not> closed then ret () else emit (WorkerSessionClosed u i)))"
  using announced_close_last [OF assms, where k = "ret ()" and u = u] by (simp cong: if_cong)

lemma release_quiet: "release E s t = (a, t') \<Longrightarrow> emitted t' = emitted t \<and> sessions t' = sessions t"
  unfolding release_def by (rule outer_emitted)

lemma story_outer [intro!]: "runs_in story (outer_call f)" "runs_in story (gets g)" "runs_in story (call what h)"
  unfolding call_def by (auto intro!: runs_in_story sev.runs_in_bnd)

lemma story_owner_check [intro!]: "runs_in story (owner_check u s)"
  by (auto simp: owner_check_def split: option.splits)

lemma story_emit [intro]: "\<not> closes e \<Longrightarrow> runs_in story (emit e)"
  by (auto intro: runs_in_story)

lemma story_isolated [intro]: "runs_in story m \<Longrightarrow> runs_in story (isolated m)"
  by (auto simp: isolated_def)

lemma story_close_release_emit [intro!]: "runs_in story (close_release_emit E s)"
  unfolding close_release_emit_def
  by (rule announced_close_last) (auto intro: guarded_close_update dest: release_quiet)

lemma story_closeSession [intro!]: "runs_in story (closeSession E i u)"
  unfolding closeSession_def
  by (intro sty.runs_in_bnd sty.runs_in_andthen sty.runs_in_if sty.runs_in_ret
      story_owner_check story_close_release_emit runs_in_story runs_in_session_reads)

lemma story_closeSessionOnInstance [intro!]: "runs_in story (closeSessionOnInstance E j)"
  unfolding closeSessionOnInstance_def
  by (intro sty.runs_in_bnd runs_in_story [OF runs_in_session_reads(6)]) (auto split: option.splits)

lemma story_closeTimedOutSessions [intro!]: "runs_in story (closeTimedOutSessions E)"
  unfolding closeTimedOutSessions_def
  by (intro sty.runs_in_bnd sty.runs_in_for_each story_isolated story_closeSession
      runs_in_story [OF runs_in_session_reads(5)])

lemma story_closeUserSessions [intro!]: "runs_in story (closeUserSessions E u)"
  unfolding closeUserSessions_def
  by (intro sty.runs_in_bnd sty.runs_in_for_each story_isolated story_close_release_emit
      runs_in_story [OF runs_in_session_reads(3)])

lemma story_probe [intro!]: "runs_in story (probe E ss)"
  unfolding probe_def by (auto split: option.splits)

lemma story_close_missing [intro!]: "runs_in story (close_missing E statuses ss m)"
proof (induction ss arbitrary: m)
  case (Cons s ss)
  have "runs_in story (bnd (update_session E (close_session s)) (\<lambda>closed.
            if \<not> closed then ret () else emit (WorkerSessionClosed (ws_username s) (ws_id s))))"
    by (rule announced_close_only) (rule guarded_close_update, simp)
  with Cons show ?case
    by (auto simp: Let_def split: prod.splits intro!: sty.runs_in_bnd sty.runs_in_andthen)
qed auto

lemma story_closeSessionsWithoutInstance [intro!]: "runs_in story (closeSessionsWithoutInstance E m)"
  unfolding closeSessionsWithoutInstance_def
  by (intro sty.runs_in_bnd sty.runs_in_ret story_probe story_close_missing
      runs_in_story [OF runs_in_session_reads(4)])

lemma story_activatePending [intro!]: "runs_in story (activatePendingSessionOnInstance E P j)"
  unfolding activatePendingSessionOnInstance_def
  by (intro sty.runs_in_bnd runs_in_story [OF runs_in_session_reads(6)])
     (auto split: option.splits intro!: sty.runs_in_bnd story_emit runs_in_story [OF runs_in_session_methods(1)])

lemma story_reconcilePendingSessions [intro!]: "runs_in story (reconcilePendingSessions E P)"
proof -
  have "runs_in story (reconcile_pending E P statuses s)" for statuses s
    unfolding reconcile_pending_def
    by (auto split: instance_status.splits intro!: sty.runs_in_bnd runs_in_story [OF runs_in_session_reads(6)])
  then show ?thesis
    unfolding reconcilePendingSessions_def
    by (auto simp: Let_def intro!: sty.runs_in_bnd runs_in_story [OF runs_in_session_reads(4)])
qed


lemma runs_in_insert_session:
  assumes "new_session (r\<lparr>ws_username := storedUsername (ws_username r)\<rparr>)"
  shows "runs_in ses_evolves (insert_session r)"
  unfolding runs_in_def
proof
  fix s :: "'a session_server"
  let ?r = "r\<lparr>ws_username := storedUsername (ws_username r)\<rparr>"
  have "any_stmt (sessions s) (sessions s @ [?r])" if "ws_id r \<notin> ws_id ` set (sessions s)"
    unfolding any_stmt_def using assms that by (intro exI [of _ 0] session_stmt.Insert) auto
  then show "ses_evolves s (snd (insert_session r s))"
    by (auto simp: insert_session_def effect_simps select_sessions_def ses_evolves_def)
qed

lemma story_openSessions [intro!]: "runs_in story (openSessions u)"
  unfolding openSessions_def by (intro sty.runs_in_bnd sty.runs_in_ret runs_in_story [OF runs_in_session_reads(3)])

lemma story_budgetVerdict [intro!]: "runs_in story (budgetVerdict E u)"
  unfolding budgetVerdict_def by (auto split: option.splits intro!: sty.runs_in_bnd)

lemma story_repeatedRequest [intro!]: "runs_in story (repeatedRequest u i)"
  unfolding repeatedRequest_def
  by (auto split: option.splits intro!: sty.runs_in_bnd runs_in_story [OF runs_in_session_reads(1)])

lemma story_requestSession_command [intro!]: "runs_in story (requestSession_command E P u wt it i)"
proof -
  have new: "runs_in story (insert_session (withInstance \<lparr>ws_id = v, ws_state = Pending, ws_username = storedUsername u,
      ws_workerType = wt, ws_instanceType = it, ws_instance = None, ws_host = None,
      ws_created = n, ws_updated = n, ws_apiKey = k, ws_timeout = t, ws_interaction = None, ws_active = None,
      ws_notification = NONE, ws_notified = None\<rparr> a h))" for v n k t a h
    by (intro runs_in_story runs_in_insert_session) (simp add: new_session_def withInstance_def)
  show ?thesis
    unfolding requestSession_command_def
    by (auto simp: Let_def split: option.splits intro!: sty.runs_in_bnd sty.runs_in_andthen new)
qed

lemma story_requestSession [intro!]: "runs_in story (requestSession E P u wt it i)"
  unfolding requestSession_def
  by (auto split: option.splits intro!: sty.runs_in_bnd sty.runs_in_andthen story_emit)

lemma story_known [intro!]: "runs_in story (known_session i)"
  by (intro runs_in_story runs_in_session_reads)

lemma story_heartbeat [intro!]: "runs_in story (heartbeat E P i u b)"
proof -
  have "runs_in story (bnd (update_session E s) (\<lambda>updated.
        if \<not> updated then throw e
        else if b then bnd (extendSession_repo E i m True None) (\<lambda>_. ret s) else ret s))"
    if "isActive s" for s e m
    using that runs_in_story [OF runs_in_update_session [of s E]]
    by (auto simp: isActive_def intro!: sty.runs_in_bnd runs_in_story [OF runs_in_session_methods(2)])
  then show ?thesis
    unfolding heartbeat_def by (auto intro!: sty.runs_in_bnd sty.runs_in_andthen)
qed

lemma story_extendSession [intro!]: "runs_in story (extendSession E i u m b c)"
  unfolding extendSession_def extendSession_command_def
  by (auto intro!: sty.runs_in_bnd sty.runs_in_andthen story_emit runs_in_story [OF runs_in_session_methods(2)])

lemma story_setSessionTimeoutHours [intro!]: "runs_in story (setSessionTimeoutHours E i h u)"
  unfolding setSessionTimeoutHours_def setSessionTimeout_command_def
  by (auto intro!: sty.runs_in_bnd sty.runs_in_andthen story_emit runs_in_story [OF runs_in_session_methods(3)])

lemma story_dismiss [intro!]: "runs_in story (dismissExpiryNotification i u)"
  unfolding dismissExpiryNotification_def
  by (auto intro!: sty.runs_in_bnd sty.runs_in_andthen story_emit runs_in_story [OF runs_in_session_methods(8)])

lemma story_redeemExtension [intro!]: "runs_in story (redeemExtension E P i nt)"
  unfolding redeemExtension_def
  by (auto intro!: sty.runs_in_bnd sty.runs_in_andthen story_emit runs_in_story [OF runs_in_session_methods(4)]
      runs_in_story [OF runs_in_session_reads(1)])

lemma story_redeemTermination [intro!]: "runs_in story (redeemTermination E i nt)"
  unfolding redeemTermination_def
  by (intro sty.runs_in_bnd announced_close sty.runs_in_andthen sty.runs_in_ret story_emit
      runs_in_story [OF runs_in_session_reads(1)])
     (auto dest: outer_emitted)

lemma story_close_expired [intro!]: "runs_in story (close_expired E P ras s nt)"
  unfolding close_expired_def
  by (rule announced_close) (auto dest: release_quiet intro!: sty.runs_in_andthen story_emit)

lemma story_expire_one [intro!]: "runs_in story (expire_one E P n d)"
  unfolding expire_one_def
  by (auto split: option.splits prod.splits
      intro!: sty.runs_in_bnd story_emit runs_in_story [OF runs_in_session_methods(6)]
        runs_in_story [OF runs_in_session_methods(7)] runs_in_story [OF runs_in_session_methods(9)])

lemma story_describe [intro!]: "runs_in story (describeSessions ss)"
proof (induction ss)
  case Nil
  show ?case unfolding describeSessions.simps by (rule sty.runs_in_ret)
next
  case (Cons s ss)
  then show ?case by (auto intro!: sty.runs_in_bnd)
qed

lemma story_expireSessions [intro!]: "runs_in story (expireSessions E P)"
  unfolding expireSessions_def
  by (auto intro!: sty.runs_in_bnd sty.runs_in_for_each runs_in_story [OF runs_in_session_reads(7)])

lemma story_associateApp [intro!]: "runs_in story (associateApp E P u i p l c b)"
proof -
  have client: "runs_in story (if c \<noteq> None \<and> c \<noteq> Some [] then setClient v p c else ret ())" for v
    by (intro sty.runs_in_if sty.runs_in_ret runs_in_story [OF runs_in_outer(4)])
  have opened: "runs_in story (if \<not> b then bnd (openExtension E P j v) (\<lambda>_. ret ()) else ret ())" for j v
    unfolding openExtension_def by (intro sty.runs_in_if sty.runs_in_bnd sty.runs_in_ret story_extendSession)
  note reads = runs_in_story [OF runs_in_outer(5)] runs_in_story [OF runs_in_app_rows(1)]
  show ?thesis
    unfolding associateApp_def
    apply (intro sty.runs_in_bnd sty.runs_in_if story_known sty.runs_in_throw reads)
    subgoal for a aa
      by (cases "find (\<lambda>(a, r). sa_path a = p) aa")
         (auto simp only: option.case prod.case split: prod.splits
            intro!: sty.runs_in_andthen sty.runs_in_ret reads client opened story_emit closes.simps, auto)
    done
qed

lemma story_dissociate [intro!]:
  "runs_in story (dissociateApp u p q)" "runs_in story (dissociateAppsForClient u c)"
  unfolding dissociateApp_def dissociateAppsForClient_def
  by (auto split: option.splits prod.splits
      intro!: sty.runs_in_bnd sty.runs_in_andthen sty.runs_in_for_each story_emit
        runs_in_story [OF runs_in_app_rows(2)] runs_in_story [OF runs_in_app_rows(3)])

end
