(* ===== verification/Sessions.thy ===== *)
theory Sessions
  imports SessionCommands
begin

text \<open>
  The session manager as one system: the sequences of its commands (\<open>session_command\<close>), and what they
  guarantee to users, to the budget module and to the instances behind the sessions.
\<close>

section \<open>Command sequences\<close>

inductive session_command :: "'w manager_services \<Rightarrow> expiry_policy \<Rightarrow> 'w session_server \<Rightarrow> 'w session_server \<Rightarrow> bool"
  for E P where
  Outside: "session_command E P s (s\<lparr>outer := w\<rparr>)"
| Request: "requestSession E P u wt it i s = (r, t) \<Longrightarrow> session_command E P s t"
| CloseOne: "closeSession E i v s = (r, t) \<Longrightarrow> session_command E P s t"
| CloseOn: "closeSessionOnInstance E j s = (r, t) \<Longrightarrow> session_command E P s t"
| CloseTimedOut: "closeTimedOutSessions E s = (r, t) \<Longrightarrow> session_command E P s t"
| CloseUser: "closeUserSessions E u s = (r, t) \<Longrightarrow> session_command E P s t"
| CloseMissing: "closeSessionsWithoutInstance E m s = (q, t) \<Longrightarrow> session_command E P s t"
| ActivateOn: "activatePendingSessionOnInstance E P j s = (r, t) \<Longrightarrow> session_command E P s t"
| ReconcilePending: "reconcilePendingSessions E P s = (r, t) \<Longrightarrow> session_command E P s t"
| Beat: "heartbeat E P i v b s = (r', t) \<Longrightarrow> session_command E P s t"
| ExtendOne: "extendSession E i v m b c s = (r'', t) \<Longrightarrow> session_command E P s t"
| KeepAlive: "setSessionTimeoutHours E i h v s = (r'', t) \<Longrightarrow> session_command E P s t"
| DismissOne: "dismissExpiryNotification i v s = (r'', t) \<Longrightarrow> session_command E P s t"
| RedeemExtend: "redeemExtension E P i nt s = (r'', t) \<Longrightarrow> session_command E P s t"
| RedeemTerminate: "redeemTermination E i nt s = (r'', t) \<Longrightarrow> session_command E P s t"
| Sweep: "expireSessions E P s = (r, t) \<Longrightarrow> session_command E P s t"
| Associate: "associateApp E P v i p l c b s = (a, t) \<Longrightarrow> session_command E P s t"
| Dissociate: "dissociateApp u p c s = (r'', t) \<Longrightarrow> session_command E P s t"
| ClientDown: "dissociateAppsForClient u d s = (ds, t) \<Longrightarrow> session_command E P s t"

definition new_server :: "'w \<Rightarrow> 'w session_server" where
  "new_server w = \<lparr>sessions = [], session_apps = [], emitted = [], outer = w\<rparr>"

definition session_server_reachable ::
  "'w manager_services \<Rightarrow> expiry_policy \<Rightarrow> 'w session_server \<Rightarrow> bool" where
  "session_server_reachable E P s \<longleftrightarrow> (\<exists>w. (session_command E P)\<^sup>*\<^sup>* (new_server w) s)"

lemma session_command_story: "session_command E P s t \<Longrightarrow> story s t"
proof (induction rule: session_command.induct)
  case (Outside s w)
  show ?case by (intro evolves_story ses_same) auto
qed (auto intro: runs_inD_run [where Q = story])

lemma session_commands_story: "(session_command E P)\<^sup>*\<^sup>* s t \<Longrightarrow> story s t"
  by (induction rule: rtranclp_induct) (auto intro: sty.evolves_refl sty.evolves_trans session_command_story)

lemma reachable_closing_ok:
  assumes "session_server_reachable E P s"
  shows "closing_ok s"
proof -
  from assms obtain w where "story (new_server w) s"
    unfolding session_server_reachable_def by (auto dest: session_commands_story)
  moreover have "closing_ok (new_server w)"
    by (simp add: closing_ok_def new_server_def closings_def)
  ultimately show ?thesis by (simp add: story_def)
qed


section \<open>Which sessions a command may close\<close>

definition closes_in :: "string set \<Rightarrow> session_row \<Rightarrow> session_row \<Rightarrow> bool" where
  "closes_in I r q \<longleftrightarrow> ws_id q = ws_id r \<and> ws_username q = ws_username r \<and>
     (ws_state q = ws_state r \<or> (ws_state q = Closed \<and> ws_id r \<in> I))"

definition only_closes :: "string set \<Rightarrow> 'w session_server \<Rightarrow> 'w session_server \<Rightarrow> bool" where
  "only_closes I s t \<longleftrightarrow> list_all2 (closes_in I) (sessions s) (sessions t)"

lemma closes_in_refl [simp]: "closes_in I r r"
  by (simp add: closes_in_def)

interpretation occ: evolution "only_closes I :: 'w session_server \<Rightarrow> _" for I
proof
  show "only_closes I s s" for s :: "'w session_server"
    by (simp add: only_closes_def list_all2_refl)
  show "only_closes I s t \<Longrightarrow> only_closes I t u \<Longrightarrow> only_closes I s u" for s t u :: "'w session_server"
    unfolding only_closes_def
    by (rule list_all2_trans [where ?P1.0 = "closes_in I" and ?P2.0 = "closes_in I"]) (auto simp: closes_in_def)
qed

lemma only_closes_same: "sessions t = sessions s \<Longrightarrow> only_closes I s t"
  by (simp add: only_closes_def list_all2_refl)

lemma only_closes_outer [intro!]:
  "runs_in (only_closes I) (outer_call f)" "runs_in (only_closes I) (select_sessions g)"
  "runs_in (only_closes I) (deleteForSession i)" "runs_in (only_closes I) (appsForSession i)"
  "runs_in (only_closes I) (emit e)"
  by (auto simp: outer_call_def select_sessions_def deleteForSession_def appsForSession_def emit_def
      split: prod.splits intro!: occ.runs_in_state_act occ.runs_in_modify only_closes_same)

lemma only_closes_update:
  assumes "\<And>r. C r \<Longrightarrow> closes_in I r (g r)"
  shows "runs_in (only_closes I) (update_sessions P (sql_update C g))"
  unfolding update_sessions_def
proof (intro occ.runs_in_bnd only_closes_outer occ.runs_in_andthen occ.runs_in_modify occ.runs_in_ret)
  show "only_closes I s (s\<lparr>sessions := sql_update C g (sessions s)\<rparr>)" for s
    using assms by (auto simp: only_closes_def sql_update_def list_all2_map2 intro!: list_all2_refl)
qed

lemma only_closes_update_session:
  assumes "ws_state x = Closed" and "ws_id x \<in> I"
  shows "runs_in (only_closes I) (update_session E x)"
  using assms unfolding update_session_def stmt_close_def
  by (auto intro!: occ.runs_in_bnd occ.runs_in_andthen only_closes_update simp: closes_in_def)

lemma only_closes_call [intro!]: "runs_in (only_closes I) (call what f)"
  unfolding call_def by (auto intro!: occ.runs_in_bnd)

lemma only_closes_release [intro]:
  "ws_id s \<in> I \<Longrightarrow> runs_in (only_closes I) (close_release_emit E s)"
  unfolding close_release_emit_def release_def
  by (intro occ.runs_in_bnd occ.runs_in_if occ.runs_in_andthen occ.runs_in_ret only_closes_outer
      only_closes_call only_closes_update_session) (auto simp: close_session_def)

lemma only_closes_methods:
  "runs_in (only_closes I) (notifyExpiry E i)" "runs_in (only_closes I) (markEmailed i nt)"
  "runs_in (only_closes I) (restartExpiryCycle E i nt m)"
  unfolding notifyExpiry_def markEmailed_def restartExpiryCycle_def
    stmt_notifyExpiry_def stmt_markEmailed_def stmt_restartExpiryCycle_def
  by (auto intro!: occ.runs_in_bnd only_closes_update simp: closes_in_def names_notification_def)

lemma only_closes_closeExpired:
  "i \<in> I \<Longrightarrow> runs_in (only_closes I) (closeExpiredSession E i ns nt g)"
  unfolding closeExpiredSession_def stmt_closeExpired_def
  by (auto intro!: occ.runs_in_bnd occ.runs_in_andthen only_closes_update simp: closes_in_def expired_close_def)

definition due :: "expiry_policy \<Rightarrow> int \<Rightarrow> session_row \<Rightarrow> bool" where
  "due P n s \<longleftrightarrow> mode P = ''enforce'' \<and> ws_notification s \<noteq> NONE \<and>
     (\<exists>nt. ws_notified s = Some nt \<and> graceMinutes P * MINUTE_MS \<le> n - nt)"

lemma only_closes_expire_one:
  assumes "due P n (fst d) \<Longrightarrow> ws_id (fst d) \<in> I"
  shows "runs_in (only_closes I) (expire_one E P n d)"
proof -
  obtain s ras where d: "d = (s, ras)" by fastforce
  have "runs_in (only_closes I) (close_expired E P ras s nt)"
    if "ws_notified s = Some nt" "ws_notification s \<noteq> NONE" "graceMinutes P * MINUTE_MS \<le> n - nt" "mode P = ''enforce''" for nt
    using assms that d unfolding close_expired_def release_def due_def
    by (intro occ.runs_in_bnd occ.runs_in_if occ.runs_in_andthen occ.runs_in_ret only_closes_outer
      only_closes_call only_closes_closeExpired) auto
  then show ?thesis
    unfolding expire_one_def d
    by (auto split: option.splits intro!: occ.runs_in_bnd only_closes_methods)
qed

lemma describe_rows: "describeSessions ss s = (Inr ds, t) \<Longrightarrow> map fst ds = ss \<and> t = s"
proof (induction ss arbitrary: ds)
  case (Cons x ss)
  then show ?case
    by (auto simp: bnd_run appsForSession_def split: prod.splits sum.splits)
qed simp

lemma describe_total: "\<exists>ds. describeSessions ss s = (Inr ds, s)"
proof (induction ss)
  case (Cons x ss)
  then obtain ds where "describeSessions ss s = (Inr ds, s)" ..
  then show ?case by (simp add: bnd_run appsForSession_def)
qed simp


section \<open>Properties\<close>

definition lab_services :: "int manager_services" where
  "lab_services = \<lparr>dbNow = (\<lambda>w. (w, w + 1)), processClock = (\<lambda>w. (w, w + 1)),
     instanceTypeIds = [''T3aSmall''], randomUUID = (\<lambda>w. (''u1'', w)), generateSessionKey = (\<lambda>w. (''key'', w)),
     requestInstance = (\<lambda>s w. (Some (''i-1'', Some ''10.0.0.1''), w)), releaseInstance = (\<lambda>j i w. (True, w)),
     probeInstances = (\<lambda>ss w. (Some [], w)), isProvisioning = (\<lambda>j w. False), reprovision = (\<lambda>s w. w),
     budgetResponse = (\<lambda>u os w. (Some (JObj [(''exceeded'', JBool (u = ''carl'')), (''reason'', JStr ''STORAGE_QUOTA'')]), w)),
     isLocked = (\<lambda>u w. False)\<rparr>"

definition lab_policy :: expiry_policy where
  "lab_policy = \<lparr>mode = ''enforce'', startupLeaseMinutes = 0, interactionExtensionMinutes = 60,
     openExtensionMinutes = 60, manualExtensionMinutes = 60, emailExtensionMinutes = 60,
     notificationVisibleMinutes = 5, graceMinutes = 60\<rparr>"

lemmas lab_simps = lab_services_def lab_policy_def new_server_def effect_simps outer_call_def call_def
  select_sessions_def update_sessions_def emit_def

definition lab_row :: session_row where
  "lab_row = \<lparr>ws_id = ''u1'', ws_state = Active, ws_username = ''bob'', ws_workerType = ''sandbox'',
     ws_instanceType = ''T3aSmall'', ws_instance = Some ''i-1'', ws_host = None, ws_created = 0, ws_updated = 0,
     ws_apiKey = Some ''key'', ws_timeout = Some 1000, ws_interaction = None, ws_active = Some 0,
     ws_notification = NOTIFIED, ws_notified = Some 2000\<rparr>"

definition lab_server :: "int \<Rightarrow> int session_server" where
  "lab_server w = \<lparr>sessions = [lab_row], session_apps = [], emitted = [], outer = w\<rparr>"

text \<open>C7: However the commands of the session component follow one another, a session is announced as
  closed at most once - so its instance is released and its cost settled once - and only when its row is
  closed; and ids stay unique.\<close>

theorem session_closed_once:
  assumes "session_server_reachable E P s"
  shows "length (filter (\<lambda>e. \<exists>u. e = WorkerSessionClosed u i) (emitted s))
      \<le> (if \<exists>r \<in> set (sessions s). ws_id r = i \<and> ws_state r = Closed then 1 else 0) \<and>
    distinct (map ws_id (sessions s))"
proof -
  have "closings i (emitted s) \<le> (if closed_id i (sessions s) then 1 else 0)" "distinct (map ws_id (sessions s))"
    using reachable_closing_ok [OF assms] by (simp_all add: closing_ok_def)
  then show ?thesis unfolding closings_def closed_id_def by blast
qed

definition lab_closed :: "int session_server" where
  "lab_closed = snd (closeSession lab_services ''u1'' (Some ''bob'')
     (snd (requestSession lab_services lab_policy ''Bob'' ''sandbox'' ''T3aSmall'' None (new_server 0))))"

lemma lab_closed_reachable: "session_server_reachable lab_services lab_policy lab_closed"
proof -
  obtain a s where a: "requestSession lab_services lab_policy ''Bob'' ''sandbox'' ''T3aSmall'' None (new_server 0) = (a, s)"
    by fastforce
  obtain b t where b: "closeSession lab_services ''u1'' (Some ''bob'') s = (b, t)" by fastforce
  from a b have "lab_closed = t" by (simp add: lab_closed_def)
  with session_command.Request [OF a] session_command.CloseOne [OF b] show ?thesis
    unfolding session_server_reachable_def by (blast intro: rtranclp.rtrancl_into_rtrancl rtranclp.rtrancl_refl)
qed

theorem session_closed_once_witness:
  "length (filter (\<lambda>e. \<exists>u. e = WorkerSessionClosed u ''u1'') (emitted lab_closed))
      \<le> (if \<exists>r \<in> set (sessions lab_closed). ws_id r = ''u1'' \<and> ws_state r = Closed then 1 else 0) \<and>
    distinct (map ws_id (sessions lab_closed))"
  by (rule session_closed_once [OF lab_closed_reachable])

lemma any_stmts_step:
  assumes "any_stmt\<^sup>*\<^sup>* rs qs" and "r \<in> set rs" and "ws_state r = Closed" and "ws_apiKey r = None"
  shows "\<exists>q \<in> set qs. ws_id q = ws_id r \<and> ws_state q = Closed \<and> ws_apiKey q = None"
  using assms
proof (induction rule: rtranclp_induct)
  case base
  then show ?case by blast
next
  case (step qs ps)
  then have "closed_in (ws_id r) qs" by (auto simp: closed_in_def)
  with step have "closed_in (ws_id r) ps" unfolding any_stmt_def by (blast intro: stmt_closed_in)
  then show ?case by (auto simp: closed_in_def)
qed

definition keys_revoked :: "session_row list \<Rightarrow> bool" where
  "keys_revoked rs \<longleftrightarrow> (\<forall>r \<in> set rs. ws_state r = Closed \<longrightarrow> ws_apiKey r = None)"

lemma any_stmts_keys: "any_stmt\<^sup>*\<^sup>* rs qs \<Longrightarrow> keys_revoked rs \<Longrightarrow> keys_revoked qs"
proof (induction rule: rtranclp_induct)
  case (step qs ps)
  then obtain n where n: "session_stmt n qs ps" by (auto simp: any_stmt_def)
  from step have ok: "\<forall>r \<in> set qs. ws_state r = Closed \<longrightarrow> ws_apiKey r = None" by (simp add: keys_revoked_def)
  have "\<forall>r \<in> set ps. ws_state r = Closed \<longrightarrow> ws_apiKey r = None"
    by (rule grows_all [OF session_stmt_grows [OF n] _ _ ok]) (auto simp: ws_step_def new_session_def)
  then show ?case by (simp add: keys_revoked_def)
qed simp

lemma reachable_keys: "session_server_reachable E P s \<Longrightarrow> keys_revoked (sessions s)"
  unfolding session_server_reachable_def
  by (elim exE) (drule session_commands_story, auto simp: story_def new_server_def keys_revoked_def dest!: any_stmts_keys)

lemma findSessionByApiKey_open:
  assumes "fst (findSessionByApiKey k s) = Inr (Some (i, u, w))"
  shows "\<exists>r \<in> set (sessions s). ws_id r = i \<and> ws_state r \<noteq> Closed \<and> ws_apiKey r = k"
  using assms
  by (auto simp: findSessionByApiKey_def select_sessions_def split: if_splits dest!: find_Some_key)

text \<open>C8: A closed session is closed for good: whatever commands follow, its row stays closed, its API key
  stays revoked, and no API key authenticates as it.\<close>

theorem closed_session_stays_closed:
  assumes "session_server_reachable E P s" and "(session_command E P)\<^sup>*\<^sup>* s t"
    and "r \<in> set (sessions s)" and "ws_state r = Closed"
  shows "(\<exists>q \<in> set (sessions t). ws_id q = ws_id r \<and> ws_state q = Closed \<and> ws_apiKey q = None) \<and>
    fst (findSessionByApiKey k t) \<noteq> Inr (Some (ws_id r, u, w))"
proof -
  have "any_stmt\<^sup>*\<^sup>* (sessions s) (sessions t)"
    using session_commands_story [OF assms(2)] by (simp add: story_def)
  moreover have "ws_apiKey r = None"
    using reachable_keys [OF assms(1)] assms(3,4) by (simp add: keys_revoked_def)
  ultimately have closed: "\<exists>q \<in> set (sessions t). ws_id q = ws_id r \<and> ws_state q = Closed \<and> ws_apiKey q = None"
    using assms(3,4) by (intro any_stmts_step)
  have "session_server_reachable E P t"
    using assms(1,2) unfolding session_server_reachable_def by (meson rtranclp_trans)
  then have "distinct (map ws_id (sessions t))"
    using reachable_closing_ok by (auto simp: closing_ok_def)
  with closed have "fst (findSessionByApiKey k t) \<noteq> Inr (Some (ws_id r, u, w))"
    by (metis findSessionByApiKey_open map_of_key_unique)
  with closed show ?thesis by blast
qed

lemma lab_closed_eval: "sessions lab_closed = [hd (sessions lab_closed)]" "ws_id (hd (sessions lab_closed)) = ''u1''"
  "ws_state (hd (sessions lab_closed)) = Closed"
  by code_simp+

theorem closed_session_stays_closed_witness:
  "fst (findSessionByApiKey (Some ''key'') lab_closed) \<noteq> Inr (Some (ws_id (hd (sessions lab_closed)), ''bob'', ''sandbox''))"
proof -
  have "hd (sessions lab_closed) \<in> set (sessions lab_closed)"
    using lab_closed_eval(1) by (metis list.set_intros(1))
  from closed_session_stays_closed [OF lab_closed_reachable rtranclp.rtrancl_refl this lab_closed_eval(3)]
  show ?thesis by blast
qed


text \<open>C10: The ratchet: an extension moves the deadline of the one active session of that id, never to an earlier
  time, to the extension asked for or, when capped, no further than the later of the old deadline and the cap;
  it withdraws a pending expiry notification exactly when it moves the deadline; every other row is untouched.\<close>

theorem extendSession_ratchets:
  assumes "extendSession_repo E i m b cap s = (Inr ok, t)" and "\<not> b \<or> cap = None"
    and "k < length (sessions s)" and "r = sessions s ! k" and "q = sessions t ! k" and "n = fst (dbNow E (outer s))"
  shows "if ws_id r = i \<and> ws_state r = Active
    then ws_state q = Active \<and> ws_id q = i \<and>
      (\<exists>d. ws_timeout q = Some d \<and> d \<ge> coalesce (ws_timeout r) n \<and>
        (case cap of None \<Rightarrow> d = max (coalesce (ws_timeout r) n) (n + m * 60000)
         | Some h \<Rightarrow> d \<le> max (coalesce (ws_timeout r) n) (UNATTENDED_ANCHOR r + Math_round (h * 60) * 60000)) \<and>
        (if d = coalesce (ws_timeout r) n
         then ws_notification q = ws_notification r \<and> ws_notified q = ws_notified r
         else ws_notification q = NONE \<and> ws_notified q = None))
    else q = r"
proof -
  have t: "sessions t = stmt_extend n i m b cap (sessions s)"
    using assms(1,6) by (auto simp: extendSession_repo_def bnd_run update_sessions_run outer_call_def state_act_run
        split: prod.splits)
  have q: "q = (if ws_id r = i \<and> ws_state r = Active then extend_row n m b cap r else r)"
    using assms(3-5) t by (simp add: stmt_extend_def sql_update_def)
  have same: "candidate n m cap (if b then r\<lparr>ws_interaction := Some n\<rparr> else r) = candidate n m cap r"
    using assms(2) by (auto simp: candidate_def)
  show ?thesis
  proof (cases "ws_id r = i \<and> ws_state r = Active")
    case True
    have d: "ws_timeout q = Some (max (coalesce (ws_timeout r) n) (candidate n m cap r))"
      using True q same by (simp add: extend_row_timeout)
    have note': "ws_notification q = (if extendsDeadline n m cap r then NONE else ws_notification r)"
      "ws_notified q = (if extendsDeadline n m cap r then None else ws_notified r)"
      using True q by (simp_all add: extend_row_notification)
    have "case cap of None \<Rightarrow> candidate n m cap r = n + m * 60000
      | Some h \<Rightarrow> candidate n m cap r \<le> UNATTENDED_ANCHOR r + Math_round (h * 60) * 60000"
      by (auto simp: candidate_def MINUTE_MS_def split: option.splits)
    with True q d note' show ?thesis
      by (auto simp: extendsDeadline_def max_def split: option.splits if_splits)
  next
    case False
    with q have "q = r" by auto
    then show ?thesis using False by (simp only: if_False simp_thms)
  qed
qed

theorem extendSession_ratchets_witness:
  "ws_timeout (hd (sessions (snd (extendSession_repo lab_services ''u1'' 60 False (Some (1 / 60)) (lab_server 5000))))) = Some 60000 \<and>
   ws_notified (hd (sessions (snd (extendSession_repo lab_services ''u1'' 60 False (Some (1 / 60)) (lab_server 5000))))) = None"
proof -
  let ?run = "extendSession_repo lab_services ''u1'' 60 False (Some (1 / 60)) (lab_server 5000)"
  have ok: "?run = (Inr True, snd ?run)"
    by (simp add: extendSession_repo_def lab_simps lab_server_def lab_row_def)
  have q: "hd (sessions (snd ?run)) = sessions (snd ?run) ! 0"
    by (simp add: extendSession_repo_def lab_simps lab_server_def stmt_extend_def)
  have "Math_round (1 / 60 * 60) = 1" using Math_round_of_int [of 1] by simp
  then have c: "ws_timeout (hd (sessions (snd ?run))) = Some 60000"
    by (simp add: extendSession_repo_def lab_simps lab_server_def lab_row_def stmt_extend_def extend_row_timeout
        candidate_def UNATTENDED_ANCHOR_def coalesce_def MINUTE_MS_def)
  from extendSession_ratchets [OF ok _ _ refl q, of 5000] c show ?thesis
    by (auto simp: lab_server_def lab_row_def lab_services_def coalesce_def)
qed

text \<open>C11: A rescue voids every decision taken before it: once an extension, a new keep-alive or the email link's
  extension has moved a session's deadline, the close, the reminder email, the restart of the cycle and both
  email links that rest on the earlier notification change nothing, whatever statements run in between.\<close>

theorem rescue_voids_notification:
  assumes "distinct (map ws_id rs)" and "r \<in> set rs" and "ws_id r = i" and "ws_state r = Active"
    and "extendsDeadline n m cap r" and "nt < n"
    and "rescued = stmt_extend n i m b cap rs \<or> rescued = stmt_setTimeout n i m rs \<or>
      rescued = stmt_redeemExtension n i nt m rs"
    and "session_run n rescued k qs"
  shows "stmt_closeExpired k i ns nt grace qs = qs \<and> stmt_redeemTermination k i nt qs = qs \<and>
    stmt_redeemExtension k i nt minutes qs = qs \<and> stmt_markEmailed i nt qs = qs \<and>
    stmt_restartExpiryCycle k i nt minutes qs = qs"
proof -
  have only: "q = r" if "q \<in> set rs" "ws_id q = i" for q
    using that assms(1-3) by (metis map_of_key_unique)
  have "void i nt (stmt_extend n i m b cap rs)"
    using only assms(4,5) by (intro extend_void) auto
  moreover have "void i nt (stmt_setTimeout n i m rs)" "void i nt (stmt_redeemExtension n i nt m rs)"
    unfolding void_def stmt_setTimeout_def stmt_redeemExtension_def names_notification_def
    using only assms(4) by (auto elim!: in_sql_updateE split: if_splits)
  ultimately have "void i nt rescued" using assms(7) by blast
  with run_void [OF assms(8,6)] have "void i nt qs" by blast
  then show ?thesis by (simp add: void_unmatched)
qed

theorem rescue_voids_notification_witness:
  "stmt_closeExpired 9000000 ''u1'' NOTIFIED 2000 60 (stmt_notifyExpiry 9000000 ''u1'' (stmt_extend 3000 ''u1'' 60 True None [lab_row]))
    = stmt_notifyExpiry 9000000 ''u1'' (stmt_extend 3000 ''u1'' 60 True None [lab_row])"
proof -
  have run: "session_run 3000 (stmt_extend 3000 ''u1'' 60 True None [lab_row]) 9000000
      (stmt_notifyExpiry 9000000 ''u1'' (stmt_extend 3000 ''u1'' 60 True None [lab_row]))"
    by (rule session_run.After [OF session_run.Here _ session_stmt.NotifyExpiry]) simp
  show ?thesis
    by (rule conjunct1 [OF rescue_voids_notification [OF _ _ _ _ _ _ disjI1 [OF refl] run, of lab_row 2000]])
       (auto simp: lab_row_def extendsDeadline_def candidate_def coalesce_def MINUTE_MS_def)
qed


text \<open>C12: The sweep closes only sessions it has warned: outside enforcement it closes nothing, and under
  enforcement a session whose state it changed was active, past its deadline, and its owner had been notified
  at least the grace period before the sweep; the sweep changed it to closed.\<close>

theorem expireSessions_closes_only_warned:
  assumes "expireSessions E P s = (a, t)" and "distinct (map ws_id (sessions s))"
    and "dbNow E (outer s) = (d, w)" and "n = fst (processClock E w)"
    and "k < length (sessions s)" and "r = sessions s ! k" and "q = sessions t ! k" and "ws_state q \<noteq> ws_state r"
  shows "mode P = ''enforce'' \<and> ws_state r = Active \<and> ws_state q = Closed \<and> past_deadline d r \<and>
    ws_notification r \<noteq> NONE \<and> (\<exists>nt. ws_notified r = Some nt \<and> nt + graceMinutes P * 60000 \<le> n)"
proof -
  let ?L = "filter (\<lambda>r. ws_state r = Active \<and> past_deadline d r) (sessions s)"
  let ?I = "ws_id ` {x \<in> set ?L. due P n x}"
  let ?s1 = "s\<lparr>outer := w\<rparr>"
  have expired: "expiredSessions E s = (Inr ?L, ?s1)"
    using assms(3) by (simp add: expiredSessions_def bnd_run outer_call_def state_act_run select_sessions_def)
  obtain ds where ds: "describeSessions ?L ?s1 = (Inr ds, ?s1)" using describe_total by blast
  then have L: "map fst ds = ?L" by (rule describe_rows [THEN conjunct1])
  have each: "runs_in (only_closes ?I) (for_each ds (\<lambda>d. isolated (expire_one E P n d)))"
  proof (intro occ.runs_in_for_each)
    fix x
    assume "x \<in> set ds"
    then have "fst x \<in> set ?L" by (metis L image_eqI list.set_map)
    then show "runs_in (only_closes ?I) (isolated (expire_one E P n x))"
      unfolding isolated_def
      by (intro occ.runs_in_catching occ.runs_in_ret only_closes_expire_one) auto
  qed
  obtain w' where clock: "outer_call (processClock E) ?s1 = (Inr n, ?s1\<lparr>outer := w'\<rparr>)"
    using assms(4) by (cases "processClock E w") (simp add: outer_call_def state_act_run)
  have "only_closes ?I s t"
  proof (cases "mode P = ''off'' \<or> ?L = []")
    case True
    with assms(1) expired have "sessions t = sessions s"
      by (auto simp: expireSessions_def bnd_run split: if_splits)
    then show ?thesis by (rule only_closes_same)
  next
    case False
    with assms(1) expired ds clock
    have "t = snd (for_each ds (\<lambda>d. isolated (expire_one E P n d)) (?s1\<lparr>outer := w'\<rparr>))"
      by (simp add: expireSessions_def bnd_run)
    with runs_inD [OF each, of "?s1\<lparr>outer := w'\<rparr>"] show ?thesis by (simp add: only_closes_def)
  qed
  then have "closes_in ?I r q"
    using assms(5-7) by (auto simp: only_closes_def dest: list_all2_nthD)
  with assms(8) obtain x where x: "x \<in> set ?L" "due P n x" "ws_id x = ws_id r" and q: "ws_state q = Closed"
    by (auto simp: closes_in_def)
  have "x = r" using x(1,3) assms(2,5,6) by (intro map_of_key_unique [of ws_id "sessions s"]) auto
  with x q show ?thesis by (auto simp: due_def MINUTE_MS_def)
qed

definition lab_overdue :: "int session_server" where
  "lab_overdue = lab_server 4000000"

theorem expireSessions_closes_only_warned_witness:
  "ws_state (sessions (snd (expireSessions lab_services lab_policy lab_overdue)) ! 0) = Closed \<and>
   past_deadline 4000000 (sessions lab_overdue ! 0) \<and> ws_notification (sessions lab_overdue ! 0) \<noteq> NONE"
proof -
  let ?t = "snd (expireSessions lab_services lab_policy lab_overdue)"
  have closed: "ws_state (sessions ?t ! 0) = Closed" by code_simp
  have rest: "distinct (map ws_id (sessions lab_overdue))"
    "dbNow lab_services (outer lab_overdue) = (4000000, 4000001)" "0 < length (sessions lab_overdue)"
    "ws_state (sessions ?t ! 0) \<noteq> ws_state (sessions lab_overdue ! 0)"
    using closed by (simp_all add: lab_overdue_def lab_server_def lab_services_def lab_row_def)
  from expireSessions_closes_only_warned [OF prod.collapse [symmetric] rest(1,2) refl rest(3) refl refl rest(4)]
  show ?thesis by blast
qed


text \<open>An email link is spent once: after the statement that redeemed it - to extend or to terminate - no later
  statement of the repository can match that notification of that session again.\<close>

theorem expiry_link_spent_once:
  assumes "distinct (map ws_id rs)" and "list_ex (names_notification i nt) rs" and "nt < n"
    and "spent = stmt_redeemExtension n i nt m rs \<or> spent = stmt_redeemTermination n i nt rs"
    and "session_run n spent k qs"
  shows "\<not> list_ex (names_notification i nt) qs"
proof -
  obtain r where r: "r \<in> set rs" "ws_id r = i" "ws_state r = Active"
    using assms(2) by (auto simp: list_ex_iff names_notification_def)
  have only: "q = r" if "q \<in> set rs" "ws_id q = i" for q
    using that assms(1) r(1,2) by (metis map_of_key_unique)
  from assms(4) show ?thesis
  proof
    assume "spent = stmt_redeemExtension n i nt m rs"
    moreover have "void i nt (stmt_redeemExtension n i nt m rs)"
      unfolding void_def stmt_redeemExtension_def names_notification_def
      using only r(3) by (auto elim!: in_sql_updateE split: if_splits)
    ultimately have "void i nt qs" using run_void assms(3,5) by blast
    then show ?thesis by (auto simp: void_def names_notification_def list_ex_iff)
  next
    assume spent: "spent = stmt_redeemTermination n i nt rs"
    obtain r' where r': "r' \<in> set rs" "names_notification i nt r'" using assms(2) by (auto simp: list_ex_iff)
    then have "r'\<lparr>ws_state := Closed, ws_updated := n, ws_apiKey := None\<rparr> \<in> set spent"
      using spent by (auto simp: stmt_redeemTermination_def set_sql_update)
    then have "closed_in i spent" using r'(2) by (auto simp: closed_in_def names_notification_def intro: rev_bexI)
    with run_closed_in assms(5) have "closed_in i qs" by blast
    moreover have "distinct (map ws_id qs)"
    proof -
      have "map ws_id spent = map ws_id rs"
        using spent by (simp add: stmt_redeemTermination_def map_sql_update_same)
      then have "distinct (map ws_id spent)" using assms(1) by simp
      with assms(5) show ?thesis by (induction rule: session_run.induct) (auto intro: session_stmt_ids)
    qed
    moreover have "q = p" if "q \<in> set qs" "p \<in> set qs" "ws_id q = i" "ws_id p = i" for p q
      using that \<open>distinct (map ws_id qs)\<close> by (metis map_of_key_unique)
    ultimately show ?thesis
      unfolding closed_in_def names_notification_def list_ex_iff by (metis session_state.distinct(5))
  qed
qed

theorem expiry_link_spent_once_witness:
  "\<not> list_ex (names_notification ''u1'' 2000) (stmt_touch 9 Active ''u1'' (stmt_redeemTermination 3000 ''u1'' 2000 [lab_row]))"
proof -
  have "session_run 3000 (stmt_redeemTermination 3000 ''u1'' 2000 [lab_row]) 3000
      (stmt_touch 9 Active ''u1'' (stmt_redeemTermination 3000 ''u1'' 2000 [lab_row]))"
    by (rule session_run.After [OF session_run.Here _ session_stmt.Touch]) simp
  from expiry_link_spent_once [OF _ _ _ disjI2 [OF refl] this] show ?thesis
    by (simp add: lab_row_def names_notification_def)
qed

text \<open>A user cannot act on another user's session: closing it, beating for it, extending it or setting its
  keep-alive is refused with the ownership error and changes nothing.\<close>

theorem foreign_session_refused:
  assumes "find (\<lambda>r. ws_id r = i) (sessions s) = Some r" and "u \<noteq> []" and "u \<noteq> ws_username r"
  shows "closeSession E i (Some u) s = (Inl (NotOwner (''Session not owned by user: '' @ i)), s) \<and>
    heartbeat E P i (Some u) b s = (Inl (NotOwner (''Session not owned by user: '' @ i)), s) \<and>
    extendSession E i (Some u) m b cap s = (Inl (NotOwner (''Session not owned by user: '' @ i)), s) \<and>
    setSessionTimeoutHours E i h (Some u) s = (Inl (NotOwner (''Session not owned by user: '' @ i)), s) \<and>
    manualExtension E P i (Some u) s = (Inl (NotOwner (''Session not owned by user: '' @ i)), s)"
proof -
  have i: "ws_id r = i" using find_Some_key [OF assms(1)] by simp
  have get: "getSession i s = (Inr r, s)"
    using assms(1) by (simp add: getSession_def findSession_def select_sessions_def bnd_run)
  then have known: "known_session i s = (Inr r, s)" by (simp add: known_session_def catching_run)
  have owner: "owner_check (Some u) r s = (Inl (NotOwner (''Session not owned by user: '' @ i)), s)"
    using assms(2,3) i by (simp add: owner_check_def)
  show ?thesis
    by (simp add: closeSession_def heartbeat_def extendSession_def setSessionTimeoutHours_def manualExtension_def
        extendSession_command_def setSessionTimeout_command_def
        bnd_run andthen_run get known owner)
qed

theorem foreign_session_refused_witness:
  "closeSession lab_services ''u1'' (Some ''eve'') (lab_server 0)
    = (Inl (NotOwner ''Session not owned by user: u1''), lab_server 0)"
  using foreign_session_refused [of "''u1''" "lab_server 0" lab_row "''eve''"]
  by (simp add: lab_server_def lab_row_def)

definition open_of :: "string \<Rightarrow> session_row list \<Rightarrow> (string \<times> string \<times> int) list" where
  "open_of u rs = map (\<lambda>s. (ws_id s, ws_instanceType s, ws_created s))
     (sort_key ws_created (filter (\<lambda>r. ci_eq (ws_username r) u \<and> is_open r) rs))"

lemma openSessions_run: "openSessions u s = (Inr (open_of (storedUsername u) (sessions s)), s)"
  by (simp add: openSessions_def userSessions_def select_sessions_def bnd_run open_of_def is_open_iff)
     (metis (mono_tags, opaque_lifting) session_state.distinct(3,5) session_state.exhaust)

text \<open>A user over budget gets no session: when the budget module's verdict is that the budget is exceeded, or
  when it cannot be reached and the user is locked, a first request is refused with the error of the reason it
  gave, before an instance, a row or an announcement exists.\<close>

theorem request_over_budget_refused:
  assumes "i = None \<or> find (\<lambda>r. ws_id r = the i) (sessions s) = None" and "it \<in> set (instanceTypeIds E)"
    and "i = None \<or> i = Some [] \<or> UUID_test (the i)"
    and "budgetResponse E u (open_of (storedUsername u) (sessions s)) (outer s) = (answer, w)"
    and "case answer of Some v \<Rightarrow> json_get v ''exceeded'' = Some (JBool True) | None \<Rightarrow> isLocked E u w"
  shows "requestSession E P u wt it i s = (Inl (BudgetExceeded
     (case answer of None \<Rightarrow> ''InstanceBudgetExceeded''
      | Some v \<Rightarrow> (if json_get v ''reason'' = Some (JStr ''STORAGE_BUDGET'') then ''StorageBudgetExceeded''
         else if json_get v ''reason'' = Some (JStr ''STORAGE_QUOTA'') then ''StorageQuotaExceeded''
         else ''InstanceBudgetExceeded'')) u), s\<lparr>outer := w\<rparr>)"
proof -
  have first: "repeatedRequest u i s = (Inr None, s)"
    using assms(1) by (cases i) (auto simp: repeatedRequest_def bnd_run findSession_def select_sessions_def)
  have verdict: "budgetVerdict E u s = (Inr (True, case answer of None \<Rightarrow> Some ''INSTANCE_BUDGET''
      | Some v \<Rightarrow> (case json_get v ''reason'' of Some (JStr r) \<Rightarrow> Some r | _ \<Rightarrow> None)), s\<lparr>outer := w\<rparr>)"
    using assms(4,5)
    by (cases answer) (simp_all add: budgetVerdict_def bnd_run openSessions_run outer_call_def state_act_run check_verdict_def)
  show ?thesis
    using assms(2,3)
    by (cases answer)
       (auto simp: requestSession_def requestSession_command_def bnd_run first verdict budgetErrorFor_def
          ERROR_BY_REASON_def split: option.splits json.splits)
qed

theorem request_over_budget_refused_witness:
  "requestSession lab_services lab_policy ''carl'' ''sandbox'' ''T3aSmall'' None (lab_server 5)
    = (Inl (BudgetExceeded ''StorageQuotaExceeded'' ''carl''), lab_server 5)"
  using request_over_budget_refused [of None "lab_server 5" "''T3aSmall''" lab_services "''carl''"
      "Some (JObj [(''exceeded'', JBool True), (''reason'', JStr ''STORAGE_QUOTA'')])" 5]
  by (simp add: lab_services_def lab_server_def)


text \<open>A client that repeats a request gets the session it already asked for: the request answers the row of
  that id and changes nothing, whatever the instance type or the user's budget; the id of another user's session is
  refused.\<close>

theorem repeated_request_answers_existing:
  assumes "i \<noteq> []" and "find (\<lambda>r. ws_id r = i) (sessions s) = Some r"
  shows "requestSession E P u wt it (Some i) s =
    (if ws_username r = storedUsername u then (Inr r, s)
     else (Inl (ClientException (''Session '' @ i @ '' belongs to another user'')), s))"
  using assms by (simp add: requestSession_def repeatedRequest_def bnd_run findSession_def select_sessions_def)

theorem repeated_request_answers_existing_witness:
  "requestSession lab_services lab_policy ''BOB'' ''sandbox'' ''none'' (Some ''u1'') (lab_server 0) = (Inr lab_row, lab_server 0)"
proof -
  have "storedUsername ''BOB'' = ''bob''" by code_simp
  with repeated_request_answers_existing [of "''u1''" "lab_server 0" lab_row lab_services lab_policy "''BOB''"]
  show ?thesis by (simp add: lab_server_def lab_row_def)
qed

section \<open>Losing an instance\<close>

text \<open>What the probes of one session said, oldest first; the answers since the last one that found it.\<close>

definition since_alive :: "(int \<times> instance_status) list \<Rightarrow> (int \<times> instance_status) list" where
  "since_alive ps = rev (takeWhile (\<lambda>p. snd p \<noteq> PROVISIONED) (rev ps))"

fun tracked_by :: "(int \<times> instance_status) list \<Rightarrow> tracker \<Rightarrow> string \<Rightarrow> tracker" where
  "tracked_by [] m i = m"
| "tracked_by ((n, st) # ps) m i = tracked_by ps (snd (record_probe 2 (30 * 60000) n i st m)) i"

lemma tracked_by_append: "tracked_by (ps @ qs) m i = tracked_by qs (tracked_by ps m i) i"
  by (induction ps arbitrary: m) auto

lemma since_alive_snoc:
  "since_alive (ps @ [(n, st)]) = (if st = PROVISIONED then [] else since_alive ps @ [(n, st)])"
  by (simp add: since_alive_def)

definition first_unknown :: "(int \<times> instance_status) list \<Rightarrow> int option" where
  "first_unknown ps = map_option fst (find (\<lambda>p. snd p = UNKNOWN) ps)"

lemma tracked_by_history:
  "entryFor (tracked_by ps Map.empty i) i =
     \<lparr>misses = length (filter (\<lambda>p. snd p = MISSING) (since_alive ps)), unknownSince = first_unknown (since_alive ps)\<rparr>"
proof (induction ps rule: rev_induct)
  case Nil
  show ?case by (simp add: entryFor_def fresh_entry_def since_alive_def first_unknown_def)
next
  case (snoc p ps)
  obtain n st where p: "p = (n, st)" by fastforce
  show ?case
  proof (cases st)
    case PROVISIONED
    then show ?thesis
      by (simp add: p tracked_by_append since_alive_snoc entryFor_def fresh_entry_def first_unknown_def)
  next
    case MISSING
    with snoc show ?thesis
      by (simp add: p tracked_by_append since_alive_snoc Let_def entryFor_def first_unknown_def find_append
          split: option.splits)
  next
    case UNKNOWN
    with snoc show ?thesis
      by (simp add: p tracked_by_append since_alive_snoc Let_def entryFor_def first_unknown_def find_append
          split: option.splits)
  qed
qed

text \<open>A session is given up for lost exactly when its instance was denied twice since it last answered, or
  when a probe is inconclusive half an hour or more after the first inconclusive one since it last answered.\<close>

theorem instance_lost_iff:
  "fst (record_probe 2 (30 * 60000) n i st (tracked_by ps Map.empty i)) \<longleftrightarrow>
    st = MISSING \<and> length (filter (\<lambda>p. snd p = MISSING) (since_alive ps)) \<ge> 1 \<or>
    st = UNKNOWN \<and> (\<exists>t. first_unknown (since_alive ps) = Some t \<and> n - t \<ge> 30 * 60 * 1000)"
  by (cases st) (auto simp: Let_def tracked_by_history split: option.splits)

section \<open>Locking out a user over budget\<close>

lemma update_session_closed:
  "\<exists>n w. update_session E (close_session x) s =
     (Inr (list_ex (\<lambda>r. ws_id r = ws_id x \<and> ws_state r \<noteq> Closed) (sessions s)),
      s\<lparr>outer := w, sessions := stmt_close n (ws_id x) (sessions s),
        session_apps := (if list_ex (\<lambda>r. ws_id r = ws_id x \<and> ws_state r \<noteq> Closed) (sessions s)
          then sql_delete (\<lambda>a. sa_session a = ws_id x) (session_apps s) else session_apps s)\<rparr>)"
  by (cases "processClock E (outer s)")
     (auto simp: update_session_def close_session_def bnd_run andthen_run outer_call_def state_act_run
       update_sessions_run deleteForSession_def)

lemma close_release_emit_rows:
  "\<exists>n. sessions (snd (close_release_emit E x s)) = stmt_close n (ws_id x) (sessions s)"
proof -
  obtain n w where u: "update_session E (close_session x) s =
     (Inr (list_ex (\<lambda>r. ws_id r = ws_id x \<and> ws_state r \<noteq> Closed) (sessions s)),
      s\<lparr>outer := w, sessions := stmt_close n (ws_id x) (sessions s),
        session_apps := (if list_ex (\<lambda>r. ws_id r = ws_id x \<and> ws_state r \<noteq> Closed) (sessions s)
          then sql_delete (\<lambda>a. sa_session a = ws_id x) (session_apps s) else session_apps s)\<rparr>)"
    using update_session_closed [of E x s] by blast
  show ?thesis
    by (auto simp: close_release_emit_def bnd_run andthen_run u emit_def release_def call_def outer_call_def
        state_act_run split: sum.splits prod.splits if_splits)
qed

lemma closed_rows_stay:
  "(\<And>r. r \<in> set rs \<Longrightarrow> ci_eq (ws_username r) u \<Longrightarrow> ws_id r \<in> J \<or> ws_state r = Closed) \<Longrightarrow>
   q \<in> set (stmt_close n j rs) \<Longrightarrow> ci_eq (ws_username q) u \<Longrightarrow> ws_id q \<in> J - {j} \<or> ws_state q = Closed"
  unfolding stmt_close_def by (elim in_sql_updateE) (auto split: if_splits)

lemma close_all_rows:
  assumes "\<And>r. r \<in> set (sessions s) \<Longrightarrow> ci_eq (ws_username r) u \<Longrightarrow> ws_id r \<in> ws_id ` set xs \<or> ws_state r = Closed"
    and "q \<in> set (sessions (snd (for_each xs (\<lambda>x. isolated (close_release_emit E x)) s)))" and "ci_eq (ws_username q) u"
  shows "ws_state q = Closed"
  using assms
proof (induction xs arbitrary: s)
  case Nil
  then show ?case by auto
next
  case (Cons x xs)
  let ?s' = "snd (close_release_emit E x s)"
  have run: "for_each (x # xs) (\<lambda>x. isolated (close_release_emit E x)) s
      = for_each xs (\<lambda>x. isolated (close_release_emit E x)) ?s'"
    by (simp add: andthen_run isolated_def catching_run split: prod.splits sum.splits)
  obtain n where n: "sessions ?s' = stmt_close n (ws_id x) (sessions s)" using close_release_emit_rows by blast
  show ?case
  proof (rule Cons.IH [of ?s'])
    show "ws_id r \<in> ws_id ` set xs \<or> ws_state r = Closed"
      if "r \<in> set (sessions ?s')" "ci_eq (ws_username r) u" for r
      using closed_rows_stay [of "sessions s" u "ws_id ` set (x # xs)" r n "ws_id x"] Cons.prems(1) that n by auto
  qed (use Cons.prems run in simp_all)
qed

text \<open>Locking out a user leaves nothing running: once the user's sessions have been closed, no session of that
  user is open - also when releasing an instance failed - and nobody else's session has been closed.\<close>

theorem closeUserSessions_closes_all:
  assumes "closeUserSessions E u s = (a, t)"
    and "distinct (map ws_id (sessions s))" and "k < length (sessions s)"
  shows "ws_state (sessions t ! k) =
    (if ci_eq (ws_username (sessions s ! k)) u then Closed else ws_state (sessions s ! k))"
proof -
  let ?xs = "sort_key ws_created (filter (\<lambda>r. ci_eq (ws_username r) u \<and> ws_state r \<in> {Pending, Active}) (sessions s))"
  let ?I = "ws_id ` set ?xs"
  have t: "t = snd (for_each ?xs (\<lambda>x. isolated (close_release_emit E x)) s)"
    using assms(1) by (simp add: closeUserSessions_def userSessions_def select_sessions_def bnd_run)
  have "runs_in (only_closes ?I) (for_each ?xs (\<lambda>x. isolated (close_release_emit E x)))"
    unfolding isolated_def by (intro occ.runs_in_for_each occ.runs_in_catching occ.runs_in_ret only_closes_release) auto
  then have "only_closes ?I s t" unfolding t by (rule runs_inD)
  then have step: "closes_in ?I (sessions s ! k) (sessions t ! k)" "length (sessions t) = length (sessions s)"
    using assms(3) by (auto simp: only_closes_def dest: list_all2_nthD list_all2_lengthD)
  let ?r = "sessions s ! k" and ?q = "sessions t ! k"
  show ?thesis
  proof (cases "ci_eq (ws_username ?r) u")
    case True
    have q: "?q \<in> set (sessions t)" using step(2) assms(3) by simp
    have "ws_state ?q = Closed"
    proof (rule close_all_rows [of s u ?xs])
      show "ws_id r \<in> ?I \<or> ws_state r = Closed" if "r \<in> set (sessions s)" "ci_eq (ws_username r) u" for r
        using that by (cases "ws_state r") auto
    qed (use q t True step(1) in \<open>auto simp: closes_in_def\<close>)
    with True show ?thesis by simp
  next
    case False
    have "ws_id ?r \<notin> ?I"
    proof
      assume "ws_id ?r \<in> ?I"
      then obtain x where x: "x \<in> set (sessions s)" "ci_eq (ws_username x) u" "ws_id x = ws_id ?r" by auto
      have "x = ?r" using x(1,3) assms(2,3) by (intro map_of_key_unique [of ws_id "sessions s"]) auto
      with x(2) False show False by simp
    qed
    with step(1) False show ?thesis by (auto simp: closes_in_def)
  qed
qed

theorem closeUserSessions_closes_all_witness:
  "ws_state (sessions (snd (closeUserSessions lab_services ''BOB'' (lab_server 0))) ! 0) = Closed"
proof -
  have "ci_eq ''bob'' ''BOB''" by code_simp
  with closeUserSessions_closes_all [of lab_services "''BOB''" "lab_server 0" _ _ 0, OF prod.collapse [symmetric]]
  show ?thesis by (simp add: lab_server_def lab_row_def)
qed

end
