(* ===== verification/DateTime.thy ===== *)
theory DateTime
  imports Prelude
begin

text \<open>
  The calendar of the budget module (\<^verbatim>\<open>modules/budget/src/dateTime.js\<close>): UTC dates as milliseconds
  since 1970, with the ECMAScript functions they rest on - the day number of a year, the year, month
  and date of a time, and \<open>Date.UTC\<close>. What the rest of the module relies on is the locale
  \<open>month_calendar\<close>.
\<close>

section \<open>ECMAScript dates\<close>

definition msPerDay :: int where
  "msPerDay = 86400000"

definition DayFromYear :: "int \<Rightarrow> int" where
  "DayFromYear y = 365 * (y - 1970) + (y - 1969) div 4 - (y - 1901) div 100 + (y - 1601) div 400"

definition TimeFromYear :: "int \<Rightarrow> int" where
  "TimeFromYear y = msPerDay * DayFromYear y"

definition leap :: "int \<Rightarrow> bool" where
  "leap y \<longleftrightarrow> y mod 4 = 0 \<and> (y mod 100 \<noteq> 0 \<or> y mod 400 = 0)"

lemma div_plus1:
  fixes a n :: int
  assumes "0 < n"
  shows "(a + 1) div n = a div n + (if n dvd a + 1 then 1 else 0)"
proof (cases "n dvd a + 1")
  case True
  then obtain k where k: "a + 1 = n * k" by (elim dvdE)
  have "a div n = k - 1"
    by (rule int_div_pos_eq [where r = "n - 1"]) (use k assms in \<open>auto simp: algebra_simps\<close>)
  with True k assms show ?thesis by simp
next
  case False
  have a: "a = n * (a div n) + a mod n" by simp
  have "a mod n + 1 \<noteq> n"
  proof
    assume "a mod n + 1 = n"
    then have "a + 1 = n * (a div n) + n" using a by linarith
    also have "\<dots> = n * (a div n + 1)" by (simp add: algebra_simps)
    finally show False using False by simp
  qed
  then have r: "a mod n + 1 < n" using pos_mod_bound [OF assms, of a] by linarith
  have "(a + 1) div n = a div n"
    by (rule int_div_pos_eq [where r = "a mod n + 1"]) (use r assms in auto)
  with False show ?thesis by simp
qed

lemma leap_days:
  fixes x :: int
  shows "(q \<longrightarrow> p) \<Longrightarrow> (r \<longrightarrow> q) \<Longrightarrow> l = (p \<and> (\<not> q \<or> r)) \<Longrightarrow>
    x + 365 + (if p then 1 else 0) - (if q then 1 else 0) + (if r then 1 else 0) = x + (if l then 366 else 365)"
  by (cases p; cases q; cases r; simp)

lemma DayFromYear_Suc: "DayFromYear (y + 1) = DayFromYear y + (if leap y then 366 else 365)"
proof -
  have d4: "(y - 1968) div 4 = (y - 1969) div 4 + (if 4 dvd y then 1 else 0)"
    using div_plus1 [of 4 "y - 1969"] dvd_diff_left_iff [of 4 1968 y] by simp
  have d100: "(y - 1900) div 100 = (y - 1901) div 100 + (if 100 dvd y then 1 else 0)"
    using div_plus1 [of 100 "y - 1901"] dvd_diff_left_iff [of 100 1900 y] by simp
  have d400: "(y - 1600) div 400 = (y - 1601) div 400 + (if 400 dvd y then 1 else 0)"
    using div_plus1 [of 400 "y - 1601"] dvd_diff_left_iff [of 400 1600 y] by simp
  have nest: "4 dvd y" if "100 dvd y" using that by (rule dvd_trans [rotated]) simp
  have nest2: "100 dvd y" if "400 dvd y" using that by (rule dvd_trans [rotated]) simp
  have "DayFromYear (y + 1) = 365 * (y - 1970) + 365 + (y - 1968) div 4 - (y - 1900) div 100 + (y - 1600) div 400"
    by (simp add: DayFromYear_def algebra_simps)
  also have "\<dots> = DayFromYear y + 365 + (if 4 dvd y then 1 else 0) - (if 100 dvd y then 1 else 0)
      + (if 400 dvd y then 1 else 0)"
    unfolding d4 d100 d400 DayFromYear_def by simp
  also have "\<dots> = DayFromYear y + (if leap y then 366 else 365)"
  proof (rule leap_days)
    show "100 dvd y \<longrightarrow> 4 dvd y" "400 dvd y \<longrightarrow> 100 dvd y" using nest nest2 by blast+
    show "leap y = (4 dvd y \<and> (\<not> 100 dvd y \<or> 400 dvd y))" by (simp only: leap_def dvd_eq_mod_eq_0)
  qed
  finally show ?thesis .
qed

lemma TimeFromYear_less: "TimeFromYear y < TimeFromYear (y + 1)"
  by (simp add: TimeFromYear_def DayFromYear_Suc msPerDay_def)

text \<open>The largest year that starts no later than \<open>t\<close>, searched upwards from a year that does.\<close>

function year_from :: "int \<Rightarrow> int \<Rightarrow> int" where
  "year_from y t = (if TimeFromYear (y + 1) \<le> t then year_from (y + 1) t else y)"
  by pat_completeness auto

termination
proof (relation "measure (\<lambda>(y, t). nat (t - TimeFromYear y))")
  show "wf (measure (\<lambda>(y, t). nat (t - TimeFromYear y)))" by simp
next
  fix y t
  assume "TimeFromYear (y + 1) \<le> t"
  with TimeFromYear_less [of y] show "((y + 1, t), y, t) \<in> measure (\<lambda>(y, t). nat (t - TimeFromYear y))"
    by simp
qed

declare year_from.simps [simp del]

definition first_guess :: "int \<Rightarrow> int" where
  "first_guess t = 1970 + t div (msPerDay * (if 0 \<le> t then 366 else 365))"

definition getUTCFullYear :: "int \<Rightarrow> int" where
  "getUTCFullYear t = year_from (first_guess t) t"

lemma year_from_spec: "TimeFromYear y \<le> t \<Longrightarrow> TimeFromYear (year_from y t) \<le> t \<and> t < TimeFromYear (year_from y t + 1)"
proof (induction y t rule: year_from.induct)
  case (1 y t)
  then show ?case by (subst (1 2) year_from.simps) auto
qed

lemma DayFromYear_bounds:
  "0 \<le> k \<Longrightarrow> DayFromYear (1970 + k) \<le> 366 * k" "k \<le> 0 \<Longrightarrow> DayFromYear (1970 + k) \<le> 365 * k"
proof -
  have up: "DayFromYear (1970 + int n) \<le> 366 * int n" for n
  proof (induction n)
    case 0
    show ?case by (simp add: DayFromYear_def)
  next
    case (Suc n)
    have "1970 + int (Suc n) = (1970 + int n) + 1" by simp
    with Suc show ?case using DayFromYear_Suc [of "1970 + int n"] by (auto split: if_splits)
  qed
  have down: "DayFromYear (1970 - int n) \<le> - 365 * int n" for n
  proof (induction n)
    case 0
    show ?case by (simp add: DayFromYear_def)
  next
    case (Suc n)
    have "1970 - int n = (1970 - int (Suc n)) + 1" by simp
    then have "DayFromYear (1970 - int n) \<ge> DayFromYear (1970 - int (Suc n)) + 365"
      using DayFromYear_Suc [of "1970 - int (Suc n)"] by (auto split: if_splits)
    with Suc show ?case by simp
  qed
  show "0 \<le> k \<Longrightarrow> DayFromYear (1970 + k) \<le> 366 * k" using up [of "nat k"] by simp
  show "k \<le> 0 \<Longrightarrow> DayFromYear (1970 + k) \<le> 365 * k" using down [of "nat (- k)"] by simp
qed

lemma first_guess_le: "TimeFromYear (first_guess t) \<le> t"
proof (cases "0 \<le> t")
  case True
  let ?k = "t div (msPerDay * 366)"
  have "0 \<le> ?k" using True by (simp add: msPerDay_def pos_imp_zdiv_nonneg_iff)
  then have "TimeFromYear (first_guess t) \<le> msPerDay * (366 * ?k)"
    using True DayFromYear_bounds(1) by (simp add: TimeFromYear_def first_guess_def msPerDay_def)
  also have "\<dots> \<le> t" by (simp add: msPerDay_def)
  finally show ?thesis .
next
  case False
  let ?k = "t div (msPerDay * 365)"
  have "?k \<le> 0" using False by (simp add: msPerDay_def)
  then have "TimeFromYear (first_guess t) \<le> msPerDay * (365 * ?k)"
    using False DayFromYear_bounds(2) [of ?k] by (simp add: TimeFromYear_def first_guess_def msPerDay_def)
  also have "\<dots> \<le> t" by (simp add: msPerDay_def)
  finally show ?thesis .
qed

lemma getUTCFullYear_spec:
  "TimeFromYear (getUTCFullYear t) \<le> t \<and> t < TimeFromYear (getUTCFullYear t + 1)"
  unfolding getUTCFullYear_def by (rule year_from_spec [OF first_guess_le])

lemma TimeFromYear_mono: "y \<le> z \<Longrightarrow> TimeFromYear y \<le> TimeFromYear z"
proof (induction "nat (z - y)" arbitrary: z)
  case 0
  then show ?case by simp
next
  case (Suc n)
  then have "TimeFromYear y \<le> TimeFromYear (z - 1)" by (intro Suc.hyps(1)) auto
  with TimeFromYear_less [of "z - 1"] show ?case by simp
qed

lemma getUTCFullYear_unique: "TimeFromYear y \<le> t \<Longrightarrow> t < TimeFromYear (y + 1) \<Longrightarrow> getUTCFullYear t = y"
  using getUTCFullYear_spec [of t] TimeFromYear_mono [of "y + 1" "getUTCFullYear t"]
    TimeFromYear_mono [of "getUTCFullYear t + 1" y] by linarith

text \<open>The days of a year before its month \<open>m\<close>, counted from 0.\<close>

definition days_before :: "bool \<Rightarrow> int \<Rightarrow> int" where
  "days_before l m = (if m \<le> 0 then 0 else if m = 1 then 31 else (if l then 1 else 0) +
     (if m = 2 then 59 else if m = 3 then 90 else if m = 4 then 120 else if m = 5 then 151 else if m = 6 then 181
      else if m = 7 then 212 else if m = 8 then 243 else if m = 9 then 273 else if m = 10 then 304
      else if m = 11 then 334 else 365))"

definition DayWithinYear :: "int \<Rightarrow> int" where
  "DayWithinYear t = t div msPerDay - DayFromYear (getUTCFullYear t)"

definition month_of_day :: "bool \<Rightarrow> int \<Rightarrow> int" where
  "month_of_day l d = (if d < days_before l 1 then 0 else if d < days_before l 2 then 1 else if d < days_before l 3 then 2
     else if d < days_before l 4 then 3 else if d < days_before l 5 then 4 else if d < days_before l 6 then 5
     else if d < days_before l 7 then 6 else if d < days_before l 8 then 7 else if d < days_before l 9 then 8
     else if d < days_before l 10 then 9 else if d < days_before l 11 then 10 else 11)"

definition getUTCMonth :: "int \<Rightarrow> int" where
  "getUTCMonth t = month_of_day (leap (getUTCFullYear t)) (DayWithinYear t)"

definition getUTCDate :: "int \<Rightarrow> int" where
  "getUTCDate t = DayWithinYear t - days_before (leap (getUTCFullYear t)) (getUTCMonth t) + 1"

definition Date_UTC :: "int \<Rightarrow> int \<Rightarrow> int \<Rightarrow> int \<Rightarrow> int" where
  "Date_UTC y m d time_of_day = (let ym = y + m div 12
     in msPerDay * (DayFromYear ym + days_before (leap ym) (m mod 12) + d - 1) + time_of_day)"

section \<open>The module's functions\<close>

definition hoursBetween :: "int \<Rightarrow> int \<Rightarrow> rat" where
  "hoursBetween f t = of_int (t - f) / 1000 / 60 / 60"

definition firstOfMonth :: "int \<Rightarrow> int" where
  "firstOfMonth t = Date_UTC (getUTCFullYear t) (getUTCMonth t) 1 0"

definition firstOfYearMonth :: "int \<Rightarrow> int \<Rightarrow> int" where
  "firstOfYearMonth y m = Date_UTC y (m - 1) 1 0"

definition plusOneMonth :: "int \<Rightarrow> int" where
  "plusOneMonth t = Date_UTC (getUTCFullYear t) (getUTCMonth t + 1) (getUTCDate t) (t mod msPerDay)"

definition year :: "int \<Rightarrow> int" where
  "year t = getUTCFullYear t"

definition monthOfYear :: "int \<Rightarrow> int" where
  "monthOfYear t = getUTCMonth t + 1"

definition daysInMonth :: "int \<Rightarrow> int \<Rightarrow> int" where
  "daysInMonth y m = getUTCDate (Date_UTC y m 0 0)"

definition sameYearAndMonth :: "int \<Rightarrow> int \<Rightarrow> bool" where
  "sameYearAndMonth a b \<longleftrightarrow> year a = year b \<and> monthOfYear a = monthOfYear b"


section \<open>Months\<close>

lemma days_before_months [simp]:
  "days_before l 0 = 0" "days_before l 1 = 31"
  "days_before l 2 = (if l then 60 else 59)" "days_before l 3 = (if l then 91 else 90)"
  "days_before l 4 = (if l then 121 else 120)" "days_before l 5 = (if l then 152 else 151)"
  "days_before l 6 = (if l then 182 else 181)" "days_before l 7 = (if l then 213 else 212)"
  "days_before l 8 = (if l then 244 else 243)" "days_before l 9 = (if l then 274 else 273)"
  "days_before l 10 = (if l then 305 else 304)" "days_before l 11 = (if l then 335 else 334)"
  "days_before l 12 = (if l then 366 else 365)"
  by (simp_all add: days_before_def)

lemma month_cases:
  assumes "0 \<le> m" and "m \<le> (11 :: int)"
  obtains "m = 0" | "m = 1" | "m = 2" | "m = 3" | "m = 4" | "m = 5" | "m = 6" | "m = 7" | "m = 8" | "m = 9"
    | "m = 10" | "m = 11"
proof -
  have "m = 0 \<or> m = 1 \<or> m = 2 \<or> m = 3 \<or> m = 4 \<or> m = 5 \<or> m = 6 \<or> m = 7 \<or> m = 8 \<or> m = 9 \<or> m = 10 \<or> m = 11"
    using assms by arith
  then show ?thesis using that by blast
qed

lemma month_of_day_spec:
  assumes "0 \<le> d" and "d < days_before l 12"
  shows "0 \<le> month_of_day l d \<and> month_of_day l d \<le> 11 \<and>
    days_before l (month_of_day l d) \<le> d \<and> d < days_before l (month_of_day l d + 1)"
  using assms by (cases l) (simp_all add: month_of_day_def)

lemma month_of_day_unique:
  assumes "0 \<le> m" and "m \<le> 11" and "days_before l m \<le> d" and "d < days_before l (m + 1)"
  shows "month_of_day l d = m"
  using assms(1,2)
  by (rule month_cases) (use assms(3,4) in \<open>cases l; simp add: month_of_day_def\<close>)+

lemma DayWithinYear_bounds: "0 \<le> DayWithinYear t \<and> DayWithinYear t < days_before (leap (getUTCFullYear t)) 12"
proof -
  let ?y = "getUTCFullYear t"
  have s: "msPerDay * DayFromYear ?y \<le> t" "t < msPerDay * (DayFromYear ?y + (if leap ?y then 366 else 365))"
    using getUTCFullYear_spec [of t] by (simp_all add: TimeFromYear_def DayFromYear_Suc)
  have "DayFromYear ?y \<le> t div msPerDay"
    using s(1) zdiv_mono1 [of "msPerDay * DayFromYear ?y" t msPerDay] by (simp add: msPerDay_def)
  moreover have "t div msPerDay < DayFromYear ?y + (if leap ?y then 366 else 365)"
  proof -
    have "msPerDay * (t div msPerDay) \<le> t" by (simp add: msPerDay_def)
    with s(2) have "msPerDay * (t div msPerDay) < msPerDay * (DayFromYear ?y + (if leap ?y then 366 else 365))"
      by (rule order.strict_trans1 [rotated])
    then show ?thesis by (simp add: msPerDay_def)
  qed
  ultimately show ?thesis by (auto simp: DayWithinYear_def split: if_splits)
qed

lemma getUTCMonth_spec:
  "0 \<le> getUTCMonth t \<and> getUTCMonth t \<le> 11 \<and>
   days_before (leap (getUTCFullYear t)) (getUTCMonth t) \<le> DayWithinYear t \<and>
   DayWithinYear t < days_before (leap (getUTCFullYear t)) (getUTCMonth t + 1)"
  unfolding getUTCMonth_def using DayWithinYear_bounds [of t] by (intro month_of_day_spec) auto

definition monthStart :: "int \<Rightarrow> int \<Rightarrow> int" where
  "monthStart y m = msPerDay * (DayFromYear y + days_before (leap y) m)"


lemma leap_days_12: "DayFromYear (y + 1) = DayFromYear y + days_before (leap y) 12"
  by (simp add: DayFromYear_Suc)

lemma Date_UTC_month:
  assumes "0 \<le> m" and "m \<le> 12"
  shows "Date_UTC y m d s = monthStart y m + msPerDay * (d - 1) + s"
proof (cases "m = 12")
  case True
  have "Date_UTC y 12 d s = msPerDay * (DayFromYear (y + 1) + d - 1) + s"
    by (simp add: Date_UTC_def)
  also have "\<dots> = monthStart y 12 + msPerDay * (d - 1) + s"
    unfolding leap_days_12 monthStart_def by (simp only: algebra_simps)
  finally show ?thesis using True by simp
next
  case False
  with assms have "m div 12 = 0" "m mod 12 = m" by simp_all
  then show ?thesis by (simp add: Date_UTC_def monthStart_def algebra_simps)
qed

lemma in_month:
  "monthStart (getUTCFullYear t) (getUTCMonth t) \<le> t \<and> t < monthStart (getUTCFullYear t) (getUTCMonth t + 1)"
proof -
  let ?y = "getUTCFullYear t" and ?m = "getUTCMonth t"
  have d: "days_before (leap ?y) ?m \<le> t div msPerDay - DayFromYear ?y"
    "t div msPerDay - DayFromYear ?y < days_before (leap ?y) (?m + 1)"
    using getUTCMonth_spec [of t] by (simp_all add: DayWithinYear_def)
  have t: "t = msPerDay * (t div msPerDay) + t mod msPerDay" "0 \<le> t mod msPerDay" "t mod msPerDay < msPerDay"
    by (simp_all add: msPerDay_def)
  have "monthStart ?y ?m \<le> msPerDay * (t div msPerDay)"
    unfolding monthStart_def by (rule mult_left_mono) (use d(1) in \<open>simp_all add: msPerDay_def\<close>)
  moreover have "msPerDay * (t div msPerDay + 1) \<le> monthStart ?y (?m + 1)"
    unfolding monthStart_def by (rule mult_left_mono) (use d(2) in \<open>simp_all add: msPerDay_def\<close>)
  then have "msPerDay * (t div msPerDay) + msPerDay \<le> monthStart ?y (?m + 1)" by (simp add: distrib_left)
  ultimately show ?thesis using t by linarith
qed

lemma monthStart_in_year:
  assumes "0 \<le> m" and "m \<le> 11"
  shows "TimeFromYear y \<le> monthStart y m \<and> monthStart y (m + 1) \<le> TimeFromYear (y + 1) \<and> monthStart y m < monthStart y (m + 1)"
  using assms
  by (rule month_cases) (cases "leap y"; simp add: monthStart_def TimeFromYear_def leap_days_12 msPerDay_def)+

text \<open>A time inside the month \<open>m\<close> of the year \<open>y\<close> reads back as that month.\<close>

lemma month_readback:
  assumes "0 \<le> m" and "m \<le> 11" and "monthStart y m \<le> t" and "t < monthStart y (m + 1)"
  shows "getUTCFullYear t = y \<and> getUTCMonth t = m"
proof -
  have y: "getUTCFullYear t = y"
    using monthStart_in_year [OF assms(1,2), of y] assms(3,4) by (intro getUTCFullYear_unique) linarith+
  have "msPerDay * (DayFromYear y + days_before (leap y) m) \<le> t"
    "t < msPerDay * (DayFromYear y + days_before (leap y) (m + 1))"
    using assms(3,4) by (simp_all add: monthStart_def)
  moreover have t: "t = msPerDay * (t div msPerDay) + t mod msPerDay" "0 \<le> t mod msPerDay" "t mod msPerDay < msPerDay"
    by (simp_all add: msPerDay_def)
  ultimately have "msPerDay * (DayFromYear y + days_before (leap y) m) < msPerDay * (t div msPerDay + 1)"
    "msPerDay * (t div msPerDay) < msPerDay * (DayFromYear y + days_before (leap y) (m + 1))"
    unfolding distrib_left by linarith+
  then have "days_before (leap y) m \<le> DayWithinYear t" "DayWithinYear t < days_before (leap y) (m + 1)"
    by (simp_all add: msPerDay_def DayWithinYear_def y)
  with y assms(1,2) show ?thesis by (simp add: getUTCMonth_def month_of_day_unique)
qed


lemma firstOfMonth_start: "firstOfMonth t = monthStart (getUTCFullYear t) (getUTCMonth t)"
  using getUTCMonth_spec [of t] by (simp add: firstOfMonth_def Date_UTC_month)

lemma firstOfYearMonth_first: "firstOfYearMonth (year t) (monthOfYear t) = firstOfMonth t"
  by (simp add: firstOfYearMonth_def firstOfMonth_def year_def monthOfYear_def)

lemma getUTCDate_first:
  assumes "0 \<le> m" and "m \<le> 11"
  shows "getUTCFullYear (monthStart y m) = y \<and> getUTCMonth (monthStart y m) = m \<and> getUTCDate (monthStart y m) = 1 \<and>
    monthStart y m mod msPerDay = 0"
proof -
  have ym: "getUTCFullYear (monthStart y m) = y" "getUTCMonth (monthStart y m) = m"
    using month_readback [OF assms, of y "monthStart y m"] monthStart_in_year [OF assms, of y] by auto
  have "monthStart y m div msPerDay = DayFromYear y + days_before (leap y) m" "monthStart y m mod msPerDay = 0"
    by (simp_all add: monthStart_def msPerDay_def)
  with ym show ?thesis by (simp add: getUTCDate_def DayWithinYear_def)
qed

lemma plusOneMonth_start:
  "plusOneMonth (firstOfMonth t) = monthStart (getUTCFullYear t) (getUTCMonth t + 1)"
proof -
  have m: "0 \<le> getUTCMonth t" "getUTCMonth t \<le> 11" using getUTCMonth_spec [of t] by auto
  then show ?thesis
    using getUTCDate_first [OF m, of "getUTCFullYear t"]
    by (simp add: plusOneMonth_def firstOfMonth_start Date_UTC_month)
qed

text \<open>What the spending calculations rely on: the months partition the times.\<close>

locale month_calendar =
  fixes first :: "int \<Rightarrow> int" and after :: "int \<Rightarrow> int"
  assumes first_le: "first t \<le> t"
    and before_after: "t < after (first t)"
    and first_same: "first t \<le> u \<Longrightarrow> u < after (first t) \<Longrightarrow> first u = first t"
begin

lemma first_idem [simp]: "first (first t) = first t"
  using first_le [of t] before_after [of t] by (intro first_same) auto

lemma first_mono:
  assumes "t \<le> u"
  shows "first t \<le> first u"
proof (rule ccontr)
  assume "\<not> first t \<le> first u"
  then have "first u \<le> t" "t < after (first u)"
    using assms first_le [of t] before_after [of u] by auto
  then have "first t = first u" by (rule first_same)
  with \<open>\<not> first t \<le> first u\<close> show False by simp
qed

lemma same_month_iff:
  assumes "t \<le> u"
  shows "first t = first u \<longleftrightarrow> first u \<le> t"
proof
  assume "first t = first u"
  with first_le [of t] show "first u \<le> t" by simp
next
  assume "first u \<le> t"
  with assms before_after [of u] show "first t = first u" by (intro first_same) auto
qed

lemma after_first_le: "first t < first u \<Longrightarrow> after (first t) \<le> first u"
  using first_same [of t "first u"] by (metis first_idem less_imp_le not_less order_less_irrefl)

end

interpretation cal: month_calendar firstOfMonth plusOneMonth
proof
  show "firstOfMonth t \<le> t" for t
    unfolding firstOfMonth_start by (rule in_month [THEN conjunct1])
  show "t < plusOneMonth (firstOfMonth t)" for t
    unfolding plusOneMonth_start by (rule in_month [THEN conjunct2])
  show "firstOfMonth u = firstOfMonth t" if "firstOfMonth t \<le> u" "u < plusOneMonth (firstOfMonth t)" for t u
  proof -
    have "monthStart (getUTCFullYear t) (getUTCMonth t) \<le> u" "u < monthStart (getUTCFullYear t) (getUTCMonth t + 1)"
      using that unfolding plusOneMonth_start by (simp_all add: firstOfMonth_start)
    with getUTCMonth_spec [of t] have "getUTCFullYear u = getUTCFullYear t \<and> getUTCMonth u = getUTCMonth t"
      by (intro month_readback) auto
    then show ?thesis by (simp add: firstOfMonth_def)
  qed
qed

lemma monthStart_inj:
  assumes "0 \<le> m" "m \<le> 11" "0 \<le> n" "n \<le> 11" and "monthStart y m = monthStart z n"
  shows "y = z \<and> m = n"
  using getUTCDate_first [OF assms(1,2), of y] getUTCDate_first [OF assms(3,4), of z] assms(5) by metis

lemma sameYearAndMonth_iff: "sameYearAndMonth a b \<longleftrightarrow> firstOfMonth a = firstOfMonth b"
proof
  assume "firstOfMonth a = firstOfMonth b"
  then have "monthStart (getUTCFullYear a) (getUTCMonth a) = monthStart (getUTCFullYear b) (getUTCMonth b)"
    by (simp add: firstOfMonth_start)
  then have "getUTCFullYear a = getUTCFullYear b \<and> getUTCMonth a = getUTCMonth b"
    using getUTCMonth_spec [of a] getUTCMonth_spec [of b] by (intro monthStart_inj) auto
  then show "sameYearAndMonth a b" by (simp add: sameYearAndMonth_def year_def monthOfYear_def)
qed (simp add: sameYearAndMonth_def year_def monthOfYear_def firstOfMonth_def)

text \<open>Day 0 of the next month is the last day of the month.\<close>

lemma daysInMonth_length:
  assumes "1 \<le> m" and "m \<le> 12"
  shows "msPerDay * daysInMonth y m = plusOneMonth (firstOfYearMonth y m) - firstOfYearMonth y m"
proof -
  let ?t = "monthStart y m - msPerDay"
  have m: "0 \<le> m - 1" "m - 1 \<le> 11" "m - 1 + 1 = m" using assms by auto
  have first: "firstOfYearMonth y m = monthStart y (m - 1)"
    using assms by (simp add: firstOfYearMonth_def Date_UTC_month)
  then have after': "plusOneMonth (firstOfYearMonth y m) = monthStart y m"
    using getUTCDate_first [OF m(1,2), of y] assms by (simp add: plusOneMonth_def Date_UTC_month)
  have zero: "Date_UTC y m 0 0 = ?t" using assms by (simp add: Date_UTC_month)
  have day: "days_before (leap y) (m - 1) < days_before (leap y) m"
    using m(1,2) by (rule month_cases) (cases "leap y"; simp add: eq_diff_eq)+
  have t_div: "?t div msPerDay = DayFromYear y + days_before (leap y) m - 1"
    by (simp add: monthStart_def msPerDay_def)
  have "msPerDay * (DayFromYear y + days_before (leap y) (m - 1)) \<le> msPerDay * (DayFromYear y + days_before (leap y) m - 1)"
    using day by (intro mult_left_mono) (simp_all add: msPerDay_def)
  then have "monthStart y (m - 1) \<le> ?t" by (simp add: monthStart_def algebra_simps)
  then have ym: "getUTCFullYear ?t = y \<and> getUTCMonth ?t = m - 1"
    by (intro month_readback) (use assms in \<open>simp_all add: msPerDay_def\<close>)
  have "daysInMonth y m = days_before (leap y) m - days_before (leap y) (m - 1)"
    unfolding daysInMonth_def zero using ym t_div by (simp add: getUTCDate_def DayWithinYear_def)
  then show ?thesis unfolding after' unfolding first monthStart_def by (simp add: right_diff_distrib distrib_left)
qed

end
