(* ===== verification/BudgetModel.thy ===== *)
theory BudgetModel
  imports DateTime
begin

text \<open>
  The data of the budget module (\<^verbatim>\<open>modules/budget\<close>): the objects of \<^verbatim>\<open>dto.js\<close>, the six tables
  of its schema, the statements of \<^verbatim>\<open>openSessionUse.js\<close> and \<^verbatim>\<open>budgetRepository.js\<close> and the price
  list of \<^verbatim>\<open>pricing.js\<close>. Amounts are exact rationals. A \<open>timestamp\<close> column keeps whole seconds and
  an \<open>int\<close> column whole numbers, both rounded as the database rounds what it stores. \<open>row_upsert\<close> is
  the "update, or insert when nothing matched" of the repositories; what it promises is the locale
  \<open>upsert_table\<close>.
\<close>

section \<open>Upserts\<close>

definition row_upsert :: "('k \<Rightarrow> 'r \<Rightarrow> bool) \<Rightarrow> ('v \<Rightarrow> 'r \<Rightarrow> 'r) \<Rightarrow> ('k \<Rightarrow> 'v \<Rightarrow> 'r) \<Rightarrow> 'k \<Rightarrow> 'v \<Rightarrow> 'r list \<Rightarrow> 'r list" where
  "row_upsert has put fresh k v rs =
     (if list_ex (has k) rs then sql_update (has k) (put v) rs else rs @ [fresh k v])"

definition at_most_one :: "('r \<Rightarrow> bool) \<Rightarrow> 'r list \<Rightarrow> bool" where
  "at_most_one P rs \<longleftrightarrow> length (filter P rs) \<le> 1"

locale upsert_table =
  fixes has :: "'k \<Rightarrow> 'r \<Rightarrow> bool" and put :: "'v \<Rightarrow> 'r \<Rightarrow> 'r" and fresh :: "'k \<Rightarrow> 'v \<Rightarrow> 'r"
  assumes has_put: "has j (put v r) = has j r"
    and has_fresh: "has k (fresh k v)"
    and put_fresh: "put v (fresh k v) = fresh k v"
    and put_put: "put v (put v r) = put v r"
    and has_alike: "has j r \<Longrightarrow> has k r \<Longrightarrow> has j = has k"
begin

lemma find_sql_update: "find (has k) (sql_update (has k) (put v) rs) = map_option (put v) (find (has k) rs)"
  by (induction rs) (auto simp: has_put)

lemma find_upsert:
  "find (has k) (row_upsert has put fresh k v rs) =
     Some (case find (has k) rs of None \<Rightarrow> fresh k v | Some r \<Rightarrow> put v r)"
proof (cases "find (has k) rs")
  case None
  then have "\<not> list_ex (has k) rs" by (simp add: find_None_key list_ex_iff)
  with None show ?thesis by (simp add: row_upsert_def find_append has_fresh)
next
  case (Some r)
  then have "list_ex (has k) rs" using find_Some_key [OF Some] by (auto simp: list_ex_iff)
  with Some show ?thesis by (simp add: row_upsert_def find_sql_update)
qed

lemma find_upsert_other:
  assumes "\<not> has j (fresh k v)"
  shows "find (has j) (row_upsert has put fresh k v rs) = find (has j) rs"
proof -
  have "\<not> has j r" if "has k r" for r
    using that assms has_alike [of j r k] has_fresh by auto
  then have "find (has j) (sql_update (has k) (put v) rs) = find (has j) rs"
    by (induction rs) (auto simp: has_put)
  with assms show ?thesis by (simp add: row_upsert_def find_append split: option.splits)
qed

lemma keyed_upsert:
  assumes "at_most_one (has j) rs"
  shows "at_most_one (has j) (row_upsert has put fresh k v rs)"
proof (cases "list_ex (has k) rs")
  case True
  have "length (filter (has j) (sql_update (has k) (put v) rs)) = length (filter (has j) rs)"
    by (rule filter_sql_update_same) (simp add: has_put)
  with True assms show ?thesis by (simp add: row_upsert_def at_most_one_def)
next
  case False
  show ?thesis
  proof (cases "has j (fresh k v)")
    case True
    then have "has j = has k" using has_fresh by (rule has_alike)
    with False have "filter (has j) rs = []" by (auto simp: filter_empty_conv list_ex_iff)
    with False show ?thesis by (simp add: row_upsert_def at_most_one_def)
  next
    case no: False
    with assms False show ?thesis by (simp add: row_upsert_def at_most_one_def)
  qed
qed

lemma upsert_idem:
  "row_upsert has put fresh k v (row_upsert has put fresh k v rs) = row_upsert has put fresh k v rs"
proof -
  let ?rs = "row_upsert has put fresh k v rs"
  have "list_ex (has k) ?rs"
    using find_upsert [of k v rs] find_Some_key [of "has k" ?rs] by (auto simp: list_ex_iff)
  moreover have "sql_update (has k) (put v) ?rs = ?rs"
    by (auto simp: row_upsert_def sql_update_def has_put put_put put_fresh has_fresh list_ex_iff intro!: map_idI)
  ultimately show ?thesis by (simp add: row_upsert_def)
qed

end

section \<open>Columns\<close>

definition timestamp_column :: "int \<Rightarrow> int" where
  "timestamp_column t = (t + 500) div 1000 * 1000"

lemma timestamp_column_idem [simp]: "timestamp_column (timestamp_column t) = timestamp_column t"
proof -
  have "(k * 1000 + 500) div 1000 = k" for k :: int by simp
  then show ?thesis by (simp add: timestamp_column_def)
qed

lemma timestamp_column_mono: "t \<le> u \<Longrightarrow> timestamp_column t \<le> timestamp_column u"
  unfolding timestamp_column_def by (intro mult_right_mono zdiv_mono1) auto

text \<open>Halves are rounded away from zero; a value out of range is refused.\<close>

definition int_column :: "rat \<Rightarrow> int option" where
  "int_column x = (let i = (if 0 \<le> x then \<lfloor>x + 1 / 2\<rfloor> else \<lceil>x - 1 / 2\<rceil>)
     in if - 2147483648 \<le> i \<and> i \<le> 2147483647 then Some i else None)"

section \<open>Objects and rows\<close>

record budget =
  instanceSpending :: rat
  storageSpending :: rat
  storageQuota :: rat

record instanceUse =
  iu_type :: string
  iu_from :: int
  iu_to :: int

record storageUse =
  su_gbHours :: rat
  su_gb :: rat
  su_updateTime :: int

record budgetUpdateRequest =
  br_message :: string
  br_requested :: budget
  br_created :: int
  br_updated :: int

record userInstanceSpending =
  uis_username :: string
  uis_spending :: rat
  uis_budget :: rat
  uis_isBudgetExceeded :: bool

record userStorageUse =
  usu_username :: string
  usu_spending :: rat
  usu_use :: rat
  usu_budget :: rat
  usu_quota :: rat
  usu_isBudgetExceeded :: bool
  usu_isQuotaExceeded :: bool

record userSpendingReport =
  sr_username :: string
  sr_instanceSpending :: rat
  sr_storageSpending :: rat
  sr_storageUsage :: rat
  sr_instanceBudget :: rat
  sr_storageBudget :: rat
  sr_storageQuota :: rat
  sr_costPerGbMonth :: rat
  sr_request :: "budgetUpdateRequest option"

definition userInstanceSpending_of :: "string \<Rightarrow> rat \<Rightarrow> rat \<Rightarrow> userInstanceSpending" where
  "userInstanceSpending_of u spending budget = \<lparr>uis_username = u, uis_spending = spending, uis_budget = budget,
     uis_isBudgetExceeded = (spending \<ge> budget)\<rparr>"

definition userStorageUse_of :: "string \<Rightarrow> rat \<Rightarrow> rat \<Rightarrow> rat \<Rightarrow> rat \<Rightarrow> userStorageUse" where
  "userStorageUse_of u spending use budget quota = \<lparr>usu_username = u, usu_spending = spending, usu_use = use,
     usu_budget = budget, usu_quota = quota, usu_isBudgetExceeded = (spending \<ge> budget),
     usu_isQuotaExceeded = (use > quota)\<rparr>"

record use_row =
  us_session :: string
  us_username :: string
  us_type :: string
  us_from :: int
  us_to :: "int option"

record storage_row =
  st_username :: string
  st_year :: int
  st_month :: int
  st_gbHours :: rat
  st_gb :: rat
  st_updated :: int

record budget_row =
  bu_username :: string
  bu_budget :: budget

record spending_row =
  sp_username :: string
  sp_instance :: rat
  sp_storage :: rat
  sp_usage :: rat

record request_row =
  rq_id :: string
  rq_username :: string
  rq_pending :: bool
  rq_message :: string
  rq_initial :: budget
  rq_requested :: budget
  rq_final :: "budget option"
  rq_created :: int
  rq_updated :: int

record 'w budget_server =
  uses :: "use_row list"
  storages :: "storage_row list"
  budgets :: "budget_row list"
  defaults :: "budget list"
  spendings :: "spending_row list"
  requests :: "request_row list"
  published :: "(string \<times> bool) list"  \<comment> \<open>per user, whether \<open>UserBudgetExceeded\<close> or \<open>UserBudgetCleared\<close>\<close>
  world :: 'w

record open_session =
  os_session :: string
  os_username :: string
  os_type :: string
  os_created :: int

record 'w budget_services =
  clock :: "'w \<Rightarrow> int \<times> 'w"
  freshId :: "'w \<Rightarrow> string \<times> 'w"
  listUsernames :: "'w \<Rightarrow> string list option \<times> 'w"
  workerSessions :: "'w \<Rightarrow> open_session list option \<times> 'w"

datatype budget_error =
    DbError string
  | CallFailed string
  | OverBudget string string

type_synonym ('w, 'a) bud = "('w budget_server, budget_error, 'a) act"

definition ask :: "('w \<Rightarrow> 'a \<times> 'w) \<Rightarrow> ('w, 'a) bud" where
  "ask f = state_act (\<lambda>s. case f (world s) of (a, w) \<Rightarrow> (a, s\<lparr>world := w\<rparr>))"

lemma ask_run: "ask f s = (Inr (fst (f (world s))), s\<lparr>world := snd (f (world s))\<rparr>)"
  by (simp add: ask_def state_act_run split: prod.splits)

text \<open>A whole budget stored in \<open>int\<close> columns.\<close>

definition budget_columns :: "budget \<Rightarrow> budget option" where
  "budget_columns b = (case (int_column (instanceSpending b), int_column (storageSpending b), int_column (storageQuota b)) of
     (Some i, Some s, Some q) \<Rightarrow> Some \<lparr>instanceSpending = of_int i, storageSpending = of_int s, storageQuota = of_int q\<rparr>
   | _ \<Rightarrow> None)"

definition stored_budget :: "budget \<Rightarrow> ('w, budget) bud" where
  "stored_budget b = (case budget_columns b of
     None \<Rightarrow> throw (DbError ''ER_WARN_DATA_OUT_OF_RANGE'') | Some c \<Rightarrow> ret c)"

section \<open>Instance use\<close>

definition use_of :: "string \<Rightarrow> use_row \<Rightarrow> bool" where
  "use_of i r \<longleftrightarrow> us_session r = i"

definition opened :: "string \<times> string \<times> int \<Rightarrow> use_row \<Rightarrow> use_row" where
  "opened = (\<lambda>(u, t, f) r. r\<lparr>us_username := u, us_type := t, us_from := f\<rparr>)"

definition new_use :: "string \<Rightarrow> string \<times> string \<times> int \<Rightarrow> use_row" where
  "new_use i = (\<lambda>(u, t, f). \<lparr>us_session = i, us_username = u, us_type = t, us_from = f, us_to = None\<rparr>)"

definition stmt_open :: "string \<Rightarrow> string \<Rightarrow> string \<Rightarrow> int \<Rightarrow> use_row list \<Rightarrow> use_row list" where
  "stmt_open i u t f = row_upsert use_of opened new_use i (storedUsername u, t, timestamp_column f)"

definition closed_at :: "int \<Rightarrow> use_row \<Rightarrow> use_row" where
  "closed_at to r = r\<lparr>us_to := Some to\<rparr>"

definition placeholder :: "string \<Rightarrow> int \<Rightarrow> use_row" where
  "placeholder i to = \<lparr>us_session = i, us_username = [], us_type = [], us_from = to, us_to = Some to\<rparr>"

definition stmt_close_use :: "string \<Rightarrow> int \<Rightarrow> use_row list \<Rightarrow> use_row list" where
  "stmt_close_use i to = row_upsert use_of closed_at placeholder i (timestamp_column to)"

definition stmt_close_stale :: "string \<Rightarrow> int \<Rightarrow> use_row list \<Rightarrow> use_row list" where
  "stmt_close_stale i to = sql_update (\<lambda>r. us_session r = i \<and> us_to r = None) (closed_at (timestamp_column to))"

interpretation open_use: upsert_table use_of opened new_use
  by unfold_locales (auto simp: use_of_def opened_def new_use_def fun_eq_iff)

interpretation close_use: upsert_table use_of closed_at placeholder
  by unfold_locales (auto simp: use_of_def closed_at_def placeholder_def fun_eq_iff)

definition openSession :: "string \<Rightarrow> string \<Rightarrow> string \<Rightarrow> int \<Rightarrow> ('w, unit) bud" where
  "openSession i u t f = modify (\<lambda>s. s\<lparr>uses := stmt_open i u t f (uses s)\<rparr>)"

definition closeSession_use :: "string \<Rightarrow> int \<Rightarrow> ('w, unit) bud" where
  "closeSession_use i to = modify (\<lambda>s. s\<lparr>uses := stmt_close_use i to (uses s)\<rparr>)"

definition closeStaleSession :: "string \<Rightarrow> int \<Rightarrow> ('w, unit) bud" where
  "closeStaleSession i to = modify (\<lambda>s. s\<lparr>uses := stmt_close_stale i to (uses s)\<rparr>)"

definition removeUser_uses :: "string \<Rightarrow> ('w, unit) bud" where
  "removeUser_uses u = modify (\<lambda>s. s\<lparr>uses := sql_delete (\<lambda>r. ci_eq (us_username r) u) (uses s)\<rparr>)"

definition count_uses :: "('w, nat) bud" where
  "count_uses = gets (\<lambda>s. length (uses s))"

definition openSessionIds :: "('w, string list) bud" where
  "openSessionIds = gets (\<lambda>s. map us_session (filter (\<lambda>r. us_to r = None) (uses s)))"

text \<open>\<open>SELECT DISTINCT\<close> in the column's collation: the first spelling of each name.\<close>

fun distinct_ci :: "string list \<Rightarrow> string list" where
  "distinct_ci [] = []"
| "distinct_ci (u # us) = u # filter (\<lambda>v. \<not> ci_eq u v) (distinct_ci us)"

definition usersWithOpenSessions :: "('w, string list) bud" where
  "usersWithOpenSessions = gets (\<lambda>s. distinct_ci (map us_username (filter (\<lambda>r. us_to r = None) (uses s))))"

end
