(* ===== verification/BudgetRepository.thy ===== *)
theory BudgetRepository
  imports BudgetModel
begin

text \<open>
  The budget module's repository (\<^verbatim>\<open>modules/budget/src/budgetRepository.js\<close>): uses, monthly storage, budgets, the
  cached spending report and the requests for a budget update. User names are compared in the columns'
  case-insensitive collation.
\<close>

definition STORAGE_COST_PER_GB_MONTH :: rat where
  "STORAGE_COST_PER_GB_MONTH = 33 / 100"

section \<open>Instance use of a month\<close>

definition use_in_month :: "string \<Rightarrow> int \<Rightarrow> int \<Rightarrow> use_row \<Rightarrow> bool" where
  "use_in_month u first after r \<longleftrightarrow> ci_eq (us_username r) u \<and> us_from r \<le> after \<and>
     (case us_to r of None \<Rightarrow> True | Some to \<Rightarrow> to \<ge> first)"

definition instanceUse_of :: "int \<Rightarrow> use_row \<Rightarrow> instanceUse" where
  "instanceUse_of now r = \<lparr>iu_type = us_type r, iu_from = us_from r,
     iu_to = (case us_to r of None \<Rightarrow> now | Some to \<Rightarrow> to)\<rparr>"

definition userInstanceUses :: "'w budget_services \<Rightarrow> string \<Rightarrow> int \<Rightarrow> int \<Rightarrow> ('w, instanceUse list) bud" where
  "userInstanceUses E u y m = (let first = firstOfYearMonth y m; after = plusOneMonth first in
     bnd (gets (\<lambda>s. filter (use_in_month u first after) (uses s))) (\<lambda>rows.
     bnd (ask (clock E)) (\<lambda>now. ret (map (instanceUse_of now) rows))))"

section \<open>Monthly storage\<close>

definition toStorageUse :: "'w budget_services \<Rightarrow> storage_row option \<Rightarrow> ('w, storageUse) bud" where
  "toStorageUse E row = (case row of
     None \<Rightarrow> bnd (ask (clock E)) (\<lambda>now. ret \<lparr>su_gbHours = 0, su_gb = 0, su_updateTime = now\<rparr>)
   | Some r \<Rightarrow> ret \<lparr>su_gbHours = st_gbHours r, su_gb = st_gb r, su_updateTime = st_updated r\<rparr>)"

definition storage_of :: "string \<times> int \<times> int \<Rightarrow> storage_row \<Rightarrow> bool" where
  "storage_of = (\<lambda>(u, y, m) r. ci_eq (st_username r) u \<and> st_year r = y \<and> st_month r = m)"

definition storage_put :: "storageUse \<Rightarrow> storage_row \<Rightarrow> storage_row" where
  "storage_put v r = r\<lparr>st_gbHours := su_gbHours v, st_gb := su_gb v, st_updated := timestamp_column (su_updateTime v)\<rparr>"

definition storage_new :: "string \<times> int \<times> int \<Rightarrow> storageUse \<Rightarrow> storage_row" where
  "storage_new = (\<lambda>(u, y, m) v. \<lparr>st_username = u, st_year = y, st_month = m, st_gbHours = su_gbHours v,
     st_gb = su_gb v, st_updated = timestamp_column (su_updateTime v)\<rparr>)"

interpretation storage_table: upsert_table storage_of storage_put storage_new
  by unfold_locales (auto simp: storage_of_def storage_put_def storage_new_def ci_eq_def fun_eq_iff)

definition userStorageUse :: "'w budget_services \<Rightarrow> string \<Rightarrow> int \<Rightarrow> int \<Rightarrow> ('w, storageUse) bud" where
  "userStorageUse E u y m = bnd (gets (\<lambda>s. find (storage_of (u, y, m)) (storages s))) (toStorageUse E)"

text \<open>\<open>ORDER BY year DESC, month DESC LIMIT 1\<close>.\<close>

definition later_month :: "storage_row \<Rightarrow> storage_row \<Rightarrow> bool" where
  "later_month a b \<longleftrightarrow> st_year a > st_year b \<or> st_year a = st_year b \<and> st_month a > st_month b"

fun latest_month :: "storage_row list \<Rightarrow> storage_row option" where
  "latest_month [] = None"
| "latest_month (r # rs) = (case latest_month rs of None \<Rightarrow> Some r | Some q \<Rightarrow> Some (if later_month q r then q else r))"

definition lastUserStorageUse :: "'w budget_services \<Rightarrow> string \<Rightarrow> ('w, storageUse) bud" where
  "lastUserStorageUse E u = bnd (gets (\<lambda>s. latest_month (filter (\<lambda>r. ci_eq (st_username r) u) (storages s)))) (toStorageUse E)"

definition updateUserStorageUse :: "string \<Rightarrow> storageUse \<Rightarrow> ('w, unit) bud" where
  "updateUserStorageUse u v = (let k = (storedUsername u, year (su_updateTime v), monthOfYear (su_updateTime v)) in
     modify (\<lambda>s. s\<lparr>storages := row_upsert storage_of storage_put storage_new k v (storages s)\<rparr>))"

section \<open>Budgets\<close>

definition budget_for :: "string \<Rightarrow> budget_row \<Rightarrow> bool" where
  "budget_for u r \<longleftrightarrow> ci_eq (bu_username r) u"

definition budget_put :: "budget \<Rightarrow> budget_row \<Rightarrow> budget_row" where
  "budget_put b r = r\<lparr>bu_budget := b\<rparr>"

definition budget_new :: "string \<Rightarrow> budget \<Rightarrow> budget_row" where
  "budget_new u b = \<lparr>bu_username = u, bu_budget = b\<rparr>"

interpretation budget_table: upsert_table budget_for budget_put budget_new
  by unfold_locales (auto simp: budget_for_def budget_put_def budget_new_def ci_eq_def fun_eq_iff)

definition no_budget :: budget where
  "no_budget = \<lparr>instanceSpending = 0, storageSpending = 0, storageQuota = 0\<rparr>"

definition budget_in :: "budget_row list \<Rightarrow> budget list \<Rightarrow> string \<Rightarrow> budget" where
  "budget_in bs ds u = (case find (budget_for u) bs of
     Some r \<Rightarrow> bu_budget r
   | None \<Rightarrow> (case ds of [] \<Rightarrow> no_budget | d # _ \<Rightarrow> d))"

definition userBudget :: "string \<Rightarrow> ('w, budget) bud" where
  "userBudget u = gets (\<lambda>s. budget_in (budgets s) (defaults s) u)"

definition updateDefaultBudget :: "budget \<Rightarrow> ('w, unit) bud" where
  "updateDefaultBudget b = bnd (stored_budget b) (\<lambda>c. modify (\<lambda>s. s\<lparr>defaults :=
     (if defaults s = [] then [c] else map (\<lambda>_. c) (defaults s))\<rparr>))"

definition open_request :: "string \<Rightarrow> request_row \<Rightarrow> bool" where
  "open_request u r \<longleftrightarrow> ci_eq (rq_username r) u \<and> rq_pending r"

definition closeBudgetUpdateRequest :: "'w budget_services \<Rightarrow> string \<Rightarrow> budget \<Rightarrow> ('w, unit) bud" where
  "closeBudgetUpdateRequest E u b = bnd (ask (clock E)) (\<lambda>now. modify (\<lambda>s. s\<lparr>requests :=
     sql_update (open_request u) (\<lambda>r. r\<lparr>rq_final := Some b, rq_updated := timestamp_column now, rq_pending := False\<rparr>)
       (requests s)\<rparr>))"

definition updateBudget_repo :: "'w budget_services \<Rightarrow> string \<Rightarrow> budget \<Rightarrow> ('w, unit) bud" where
  "updateBudget_repo E u b = bnd (stored_budget b) (\<lambda>c.
     andthen (modify (\<lambda>s. s\<lparr>budgets := row_upsert budget_for budget_put budget_new (storedUsername u) c (budgets s)\<rparr>))
       (closeBudgetUpdateRequest E u c))"

section \<open>The cached report\<close>

definition report_row :: "userSpendingReport \<Rightarrow> spending_row" where
  "report_row e = \<lparr>sp_username = sr_username e, sp_instance = sr_instanceSpending e,
     sp_storage = sr_storageSpending e, sp_usage = sr_storageUsage e\<rparr>"

definition insert_spending :: "spending_row \<Rightarrow> ('w, unit) bud" where
  "insert_spending r = bnd (gets (\<lambda>s. list_ex (\<lambda>q. ci_eq (sp_username q) (sp_username r)) (spendings s))) (\<lambda>duplicate.
     if duplicate then throw (DbError ''ER_DUP_ENTRY'') else modify (\<lambda>s. s\<lparr>spendings := spendings s @ [r]\<rparr>))"

definition saveSpendingReport :: "(string \<times> userSpendingReport) list \<Rightarrow> ('w, unit) bud" where
  "saveSpendingReport report = andthen (modify (\<lambda>s. s\<lparr>spendings := []\<rparr>))
     (for_each (map snd report) (\<lambda>e. insert_spending (report_row e)))"

definition updateSpendingReport_repo :: "string \<Rightarrow> userSpendingReport \<Rightarrow> ('w, unit) bud" where
  "updateSpendingReport_repo u e = modify (\<lambda>s. s\<lparr>spendings := sql_update (\<lambda>q. ci_eq (sp_username q) u)
     (\<lambda>q. q\<lparr>sp_instance := sr_instanceSpending e, sp_storage := sr_storageSpending e, sp_usage := sr_storageUsage e\<rparr>)
     (spendings s)\<rparr>)"

section \<open>Requests for a budget update\<close>

definition requestBudgetUpdate_repo :: "'w budget_services \<Rightarrow> string \<Rightarrow> string \<Rightarrow> budget \<Rightarrow> ('w, unit) bud" where
  "requestBudgetUpdate_repo E u message b = bnd (stored_budget b) (\<lambda>c. bnd (ask (clock E)) (\<lambda>now.
     bnd (gets (\<lambda>s. list_ex (open_request u) (requests s))) (\<lambda>pending.
       if pending
       then modify (\<lambda>s. s\<lparr>requests := sql_update (open_request u)
         (\<lambda>r. r\<lparr>rq_requested := c, rq_message := message, rq_updated := timestamp_column now\<rparr>) (requests s)\<rparr>)
       else bnd (userBudget u) (\<lambda>initial. bnd (ask (freshId E)) (\<lambda>i. bnd (ask (clock E)) (\<lambda>created.
         bnd (ask (clock E)) (\<lambda>updated. modify (\<lambda>s. s\<lparr>requests := requests s @
           [\<lparr>rq_id = i, rq_username = storedUsername u, rq_pending = True, rq_message = message, rq_initial = initial,
             rq_requested = c, rq_final = None, rq_created = timestamp_column created,
             rq_updated = timestamp_column updated\<rparr>]\<rparr>))))))))"

definition toBudgetUpdateRequest :: "request_row \<Rightarrow> budgetUpdateRequest" where
  "toBudgetUpdateRequest r = \<lparr>br_message = rq_message r, br_requested = rq_requested r,
     br_created = rq_created r, br_updated = rq_updated r\<rparr>"

definition request_in :: "request_row list \<Rightarrow> string \<Rightarrow> budgetUpdateRequest option" where
  "request_in rs u = fold (\<lambda>r _. Some (toBudgetUpdateRequest r)) (filter (open_request u) rs) None"

definition budgetUpdateRequest_repo :: "string \<Rightarrow> ('w, budgetUpdateRequest option) bud" where
  "budgetUpdateRequest_repo u = gets (\<lambda>s. request_in (requests s) u)"

text \<open>The object keyed by the user names of all pending requests: looked up by the exact name.\<close>

definition budgetUpdateRequests :: "request_row list \<Rightarrow> string \<Rightarrow> budgetUpdateRequest option" where
  "budgetUpdateRequests rs = fold (\<lambda>r m. m(rq_username r \<mapsto> toBudgetUpdateRequest r)) (filter rq_pending rs) Map.empty"

definition report_entry ::
  "spending_row list \<Rightarrow> budget_row list \<Rightarrow> budget list \<Rightarrow> (string \<Rightarrow> budgetUpdateRequest option) \<Rightarrow> string \<Rightarrow> userSpendingReport" where
  "report_entry ss bs ds reqs u = (let spent = find (\<lambda>q. ci_eq (sp_username q) u) ss; b = budget_in bs ds u in
     \<lparr>sr_username = u,
       sr_instanceSpending = (case spent of None \<Rightarrow> 0 | Some q \<Rightarrow> sp_instance q),
       sr_storageSpending = (case spent of None \<Rightarrow> 0 | Some q \<Rightarrow> sp_storage q),
       sr_storageUsage = (case spent of None \<Rightarrow> 0 | Some q \<Rightarrow> sp_usage q),
       sr_instanceBudget = instanceSpending b, sr_storageBudget = storageSpending b, sr_storageQuota = storageQuota b,
       sr_costPerGbMonth = STORAGE_COST_PER_GB_MONTH, sr_request = reqs u\<rparr>)"

definition spendingReport_repo :: "('w, (string \<times> userSpendingReport) list) bud" where
  "spendingReport_repo = gets (\<lambda>s. map (\<lambda>u. (u, report_entry (spendings s) (budgets s) (defaults s)
       (budgetUpdateRequests (requests s)) u))
     (distinct_ci (map sp_username (spendings s) @ map rq_username (requests s) @ map bu_username (budgets s))))"

end
