(* ===== verification/BudgetCommands.thy ===== *)
theory BudgetCommands
  imports BudgetRepository
begin

text \<open>
  What the budget module computes and does: prices (\<^verbatim>\<open>pricing.js\<close>), instance spending
  (\<^verbatim>\<open>instanceSpendingCalculator.js\<close>), storage spending (\<^verbatim>\<open>storageUseService.js\<close>), the commands
  (\<^verbatim>\<open>budgetCommands.js\<close>), the verdict (\<^verbatim>\<open>budgetManager.js\<close>), enforcement, reconciliation, the boot
  seed, the event handlers and the HTTP handlers.
\<close>

section \<open>Prices\<close>

definition HOURLY_COST_BY_INSTANCE_TYPE :: "(string \<times> rat) list" where
  "HOURLY_COST_BY_INSTANCE_TYPE = [
     (''T3aSmall'', 204 / 10000), (''T3aMedium'', 408 / 10000), (''M6aLarge'', 963 / 10000),
     (''M6aXlarge'', 1926 / 10000), (''M6a2xlarge'', 3852 / 10000), (''M6a4xlarge'', 7704 / 10000),
     (''M6a12xlarge'', 23112 / 10000), (''M6a16xlarge'', 30816 / 10000), (''C8aLarge'', 11563 / 100000),
     (''C8aXlarge'', 23126 / 100000), (''C8a2xlarge'', 46252 / 100000), (''C8a4xlarge'', 92504 / 100000),
     (''C8a8xlarge'', 185008 / 100000), (''C8a12xlarge'', 277512 / 100000), (''C8a16xlarge'', 370016 / 100000),
     (''C7aLarge'', 11012 / 100000), (''C7aXlarge'', 22024 / 100000), (''C7a2xlarge'', 44048 / 100000),
     (''C7a4xlarge'', 88096 / 100000), (''C7a8xlarge'', 176192 / 100000), (''C7a12xlarge'', 264288 / 100000),
     (''C7a16xlarge'', 352384 / 100000), (''R6aLarge'', 1269 / 10000), (''R6aXlarge'', 2538 / 10000),
     (''R6a2xlarge'', 5076 / 10000), (''R6a4xlarge'', 10152 / 10000), (''R6a8xlarge'', 20304 / 10000),
     (''R6a16xlarge'', 40608 / 10000), (''M6idLarge'', 1323 / 10000), (''M6idXlarge'', 2646 / 10000),
     (''M6id2xlarge'', 5292 / 10000), (''M6id4xlarge'', 10584 / 10000), (''M6id12xlarge'', 31752 / 10000),
     (''M6id16xlarge'', 42336 / 10000), (''C6idLarge'', 11445 / 100000), (''C6idXlarge'', 2289 / 10000),
     (''C6id2xlarge'', 4578 / 10000), (''C6id4xlarge'', 9156 / 10000), (''C6id8xlarge'', 18312 / 10000),
     (''C6id12xlarge'', 27468 / 10000), (''C6id16xlarge'', 36624 / 10000), (''R8idLarge'', 1848 / 10000),
     (''R8idXlarge'', 3696 / 10000), (''R8id2xlarge'', 7392 / 10000), (''R8id4xlarge'', 14784 / 10000),
     (''R8id8xlarge'', 29568 / 10000), (''R8id16xlarge'', 59136 / 10000), (''X2idn16xlarge'', 8003 / 1000),
     (''X2idn32xlarge'', 16006 / 1000), (''X116xlarge'', 8003 / 1000), (''X132xlarge'', 16006 / 1000),
     (''T2Small'', 25 / 1000), (''M3Medium'', 73 / 1000), (''M4Large'', 119 / 1000),
     (''M4Xlarge'', 238 / 1000), (''M42xlarge'', 475 / 1000), (''M44xlarge'', 95 / 100),
     (''M410xlarge'', 2377 / 1000), (''M416xlarge'', 3803 / 1000), (''M5aLarge'', 96 / 1000),
     (''M5aXlarge'', 192 / 1000), (''M5a2xlarge'', 384 / 1000), (''M5a4xlarge'', 768 / 1000),
     (''M5a12xlarge'', 2304 / 1000), (''M5a16xlarge'', 3072 / 1000), (''C4Large'', 113 / 1000),
     (''C4Xlarge'', 226 / 1000), (''C42xlarge'', 453 / 1000), (''C44xlarge'', 905 / 1000),
     (''C48xlarge'', 1811 / 1000), (''C5Large'', 96 / 1000), (''C5Xlarge'', 192 / 1000),
     (''C52xlarge'', 384 / 1000), (''C54xlarge'', 768 / 1000), (''C59xlarge'', 1728 / 1000),
     (''R4Large'', 148 / 1000), (''R4Xlarge'', 296 / 1000), (''R42xlarge'', 593 / 1000),
     (''R44xlarge'', 1186 / 1000), (''R48xlarge'', 2371 / 1000), (''R416xlarge'', 4742 / 1000),
     (''R5Large'', 141 / 1000), (''R5Xlarge'', 282 / 1000), (''R52xlarge'', 564 / 1000),
     (''R54xlarge'', 1128 / 1000), (''R58xlarge'', 2256 / 1000), (''R516xlarge'', 4512 / 1000),
     (''G5Xlarge'', 1123 / 1000), (''G52xlarge'', 1353 / 1000), (''G512xlarge'', 6332 / 1000)]"

definition hourlyCost :: "string \<Rightarrow> rat" where
  "hourlyCost t = (case map_of HOURLY_COST_BY_INSTANCE_TYPE t of None \<Rightarrow> 0 | Some c \<Rightarrow> c)"

section \<open>Instance spending\<close>

definition hoursToCharge :: "instanceUse \<Rightarrow> int \<Rightarrow> int \<Rightarrow> int" where
  "hoursToCharge use first after = (let f = max (iu_from use) first; t = min (iu_to use) after
     in if f > t then 0 else \<lceil>hoursBetween f t\<rceil>)"

definition calculate :: "int \<Rightarrow> int \<Rightarrow> instanceUse list \<Rightarrow> (string \<Rightarrow> rat) \<Rightarrow> rat" where
  "calculate y m iuses cost = (let first = firstOfYearMonth y m; after = plusOneMonth first
     in foldl (\<lambda>total use. total + of_int (hoursToCharge use first after) * cost (iu_type use)) 0 iuses)"

definition computeInstanceSpending :: "'w budget_services \<Rightarrow> string \<Rightarrow> ('w, rat) bud" where
  "computeInstanceSpending E u = bnd (ask (clock E)) (\<lambda>now.
     bnd (userInstanceUses E u (year now) (monthOfYear now)) (\<lambda>iuses.
       ret (calculate (year now) (monthOfYear now) iuses hourlyCost)))"

section \<open>Storage spending\<close>

definition determineCurrentStorageUse :: "storageUse option \<Rightarrow> rat \<Rightarrow> int \<Rightarrow> storageUse" where
  "determineCurrentStorageUse lastUse gbUsed now =
     (let last = (case lastUse of None \<Rightarrow> \<lparr>su_gbHours = 0, su_gb = 0, su_updateTime = now\<rparr> | Some l \<Rightarrow> l);
          useStartDate = max (firstOfMonth now) (su_updateTime last);
          averageUsed = (su_gb last + gbUsed) / 2;
          initialGbHours = (if sameYearAndMonth now (su_updateTime last) then su_gbHours last else 0)
      in \<lparr>su_gbHours = initialGbHours + averageUsed * hoursBetween useStartDate now, su_gb = gbUsed, su_updateTime = now\<rparr>)"

definition updateStorageUseForThisMonth :: "'w budget_services \<Rightarrow> string \<Rightarrow> rat \<Rightarrow> int \<Rightarrow> ('w, storageUse) bud" where
  "updateStorageUseForThisMonth E u gbUsed now = bnd (lastUserStorageUse E u) (\<lambda>last.
     let use = determineCurrentStorageUse (Some last) gbUsed now
     in andthen (updateUserStorageUse u use) (ret use))"

definition storageUseForThisMonth :: "'w budget_services \<Rightarrow> string \<Rightarrow> int \<Rightarrow> ('w, storageUse) bud" where
  "storageUseForThisMonth E u now = bnd (lastUserStorageUse E u) (\<lambda>last.
     ret (determineCurrentStorageUse (Some last) (su_gb last) now))"

definition calculateStorageSpending :: "storageUse \<Rightarrow> rat \<Rightarrow> int \<Rightarrow> rat" where
  "calculateStorageSpending use costPerGbMonth now =
     su_gbHours use * costPerGbMonth / of_int (daysInMonth (year now) (monthOfYear now)) / 24"

section \<open>Commands\<close>

definition checkUserInstanceSpending :: "'w budget_services \<Rightarrow> string \<Rightarrow> ('w, userInstanceSpending) bud" where
  "checkUserInstanceSpending E u = bnd (computeInstanceSpending E u) (\<lambda>spending.
     bnd (userBudget u) (\<lambda>b. ret (userInstanceSpending_of u spending (instanceSpending b))))"

definition checkUserStorageUse :: "'w budget_services \<Rightarrow> string \<Rightarrow> ('w, userStorageUse) bud" where
  "checkUserStorageUse E u = bnd (ask (clock E)) (\<lambda>now. bnd (storageUseForThisMonth E u now) (\<lambda>use.
     bnd (userBudget u) (\<lambda>b. ret (userStorageUse_of u (calculateStorageSpending use STORAGE_COST_PER_GB_MONTH now)
       (su_gb use) (storageSpending b) (storageQuota b)))))"

definition generateUserSpendingReport :: "'w budget_services \<Rightarrow> string \<Rightarrow> ('w, userSpendingReport) bud" where
  "generateUserSpendingReport E u = bnd (ask (clock E)) (\<lambda>now. bnd (computeInstanceSpending E u) (\<lambda>spending.
     bnd (storageUseForThisMonth E u now) (\<lambda>use. bnd (userBudget u) (\<lambda>b. bnd (budgetUpdateRequest_repo u) (\<lambda>request.
       ret \<lparr>sr_username = u, sr_instanceSpending = spending,
         sr_storageSpending = calculateStorageSpending use STORAGE_COST_PER_GB_MONTH now, sr_storageUsage = su_gb use,
         sr_instanceBudget = instanceSpending b, sr_storageBudget = storageSpending b, sr_storageQuota = storageQuota b,
         sr_costPerGbMonth = STORAGE_COST_PER_GB_MONTH, sr_request = request\<rparr>)))))"

definition usernames :: "'w budget_services \<Rightarrow> ('w, string list) bud" where
  "usernames E = bnd (ask (listUsernames E)) (\<lambda>a. case a of
     None \<Rightarrow> throw (CallFailed ''user'') | Some us \<Rightarrow> ret us)"

fun object_put :: "'k \<Rightarrow> 'v \<Rightarrow> ('k \<times> 'v) list \<Rightarrow> ('k \<times> 'v) list" where
  "object_put k v [] = [(k, v)]"
| "object_put k v ((j, w) # kvs) = (if j = k then (k, v) # kvs else (j, w) # object_put k v kvs)"

fun reports_for :: "'w budget_services \<Rightarrow> string list \<Rightarrow> (string \<times> userSpendingReport) list
    \<Rightarrow> ('w, (string \<times> userSpendingReport) list) bud" where
  "reports_for E [] reports = ret reports"
| "reports_for E (u # us) reports = bnd (generateUserSpendingReport E u) (\<lambda>r. reports_for E us (object_put u r reports))"

definition generateSpendingReport :: "'w budget_services \<Rightarrow> ('w, (string \<times> userSpendingReport) list) bud" where
  "generateSpendingReport E = bnd (usernames E) (\<lambda>us. reports_for E us [])"

definition exceeds_budget :: "'w budget_services \<Rightarrow> string \<Rightarrow> ('w, bool) bud" where
  "exceeds_budget E u = bnd (checkUserInstanceSpending E u) (\<lambda>spending.
     if uis_isBudgetExceeded spending then ret True
     else bnd (checkUserStorageUse E u) (\<lambda>use. ret (usu_isBudgetExceeded use \<or> usu_isQuotaExceeded use)))"

fun exceeding :: "'w budget_services \<Rightarrow> string list \<Rightarrow> ('w, string list) bud" where
  "exceeding E [] = ret []"
| "exceeding E (u # us) = bnd (exceeds_budget E u) (\<lambda>x. bnd (exceeding E us) (\<lambda>vs. ret (if x then u # vs else vs)))"

definition findUsersExceedingBudget :: "'w budget_services \<Rightarrow> ('w, string list) bud" where
  "findUsersExceedingBudget E = bnd (usernames E) (exceeding E)"

definition updateBudget :: "'w budget_services \<Rightarrow> string option \<Rightarrow> budget \<Rightarrow> ('w, unit) bud" where
  "updateBudget E u b = (if u \<noteq> None \<and> u \<noteq> Some [] then updateBudget_repo E (the u) b else updateDefaultBudget b)"

definition updateSpendingReport :: "'w budget_services \<Rightarrow> ('w, unit) bud" where
  "updateSpendingReport E = bnd (generateSpendingReport E) saveSpendingReport"

definition updateUserSpendingReport :: "'w budget_services \<Rightarrow> string \<Rightarrow> ('w, userSpendingReport) bud" where
  "updateUserSpendingReport E u = bnd (generateUserSpendingReport E u) (\<lambda>r.
     andthen (updateSpendingReport_repo u r) (ret r))"

definition updateUserStorageUsage :: "'w budget_services \<Rightarrow> string \<Rightarrow> rat \<Rightarrow> ('w, unit) bud" where
  "updateUserStorageUsage E u gbUsed = bnd (ask (clock E)) (\<lambda>now.
     bnd (updateStorageUseForThisMonth E u gbUsed now) (\<lambda>_. ret ()))"

section \<open>The verdict\<close>

datatype over_reason = INSTANCE_BUDGET | STORAGE_BUDGET | STORAGE_QUOTA

definition reason_string :: "over_reason \<Rightarrow> string" where
  "reason_string r = (case r of INSTANCE_BUDGET \<Rightarrow> ''INSTANCE_BUDGET'' | STORAGE_BUDGET \<Rightarrow> ''STORAGE_BUDGET''
     | STORAGE_QUOTA \<Rightarrow> ''STORAGE_QUOTA'')"

definition error_by_reason :: "over_reason \<Rightarrow> string" where
  "error_by_reason r = (case r of INSTANCE_BUDGET \<Rightarrow> ''InstanceBudgetExceeded'' | STORAGE_BUDGET \<Rightarrow> ''StorageBudgetExceeded''
     | STORAGE_QUOTA \<Rightarrow> ''StorageQuotaExceeded'')"

text \<open>\<open>verdict\<close>: the reason the user is over budget, or \<open>None\<close>.\<close>

definition verdict :: "'w budget_services \<Rightarrow> string \<Rightarrow> ('w, over_reason option) bud" where
  "verdict E u = bnd (checkUserInstanceSpending E u) (\<lambda>spending.
     if uis_isBudgetExceeded spending then ret (Some INSTANCE_BUDGET)
     else bnd (checkUserStorageUse E u) (\<lambda>use.
       if usu_isBudgetExceeded use then ret (Some STORAGE_BUDGET)
       else if usu_isQuotaExceeded use then ret (Some STORAGE_QUOTA)
       else ret None))"

definition check_budget :: "'w budget_services \<Rightarrow> string \<Rightarrow> ('w, unit) bud" where
  "check_budget E u = bnd (verdict E u) (\<lambda>r. case r of
     Some reason \<Rightarrow> throw (OverBudget (error_by_reason reason) u) | None \<Rightarrow> ret ())"

record spending =
  monthlyInstanceBudget :: rat
  monthlyInstanceSpending :: rat
  monthlyStorageBudget :: rat
  monthlyStorageSpending :: rat
  spending_storageQuota :: rat
  spending_storageUsed :: rat
  spending_costPerGbMonth :: rat
  spending_request :: "budgetUpdateRequest option"

definition asSpending :: "userSpendingReport \<Rightarrow> spending" where
  "asSpending r = \<lparr>monthlyInstanceBudget = sr_instanceBudget r, monthlyInstanceSpending = sr_instanceSpending r,
     monthlyStorageBudget = sr_storageBudget r, monthlyStorageSpending = sr_storageSpending r,
     spending_storageQuota = sr_storageQuota r, spending_storageUsed = sr_storageUsage r,
     spending_costPerGbMonth = sr_costPerGbMonth r, spending_request = sr_request r\<rparr>"

definition userSpending :: "'w budget_services \<Rightarrow> string \<Rightarrow> ('w, spending) bud" where
  "userSpending E u = bnd (generateUserSpendingReport E u) (\<lambda>r. ret (asSpending r))"

section \<open>Enforcement\<close>

definition publish :: "string \<Rightarrow> bool \<Rightarrow> ('w, unit) bud" where
  "publish u exceeded = modify (\<lambda>s. s\<lparr>published := published s @ [(u, exceeded)]\<rparr>)"

definition publishVerdicts :: "'w budget_services \<Rightarrow> ('w, unit) bud" where
  "publishVerdicts E = bnd (findUsersExceedingBudget E) (\<lambda>exceeded.
     bnd (usernames E) (\<lambda>us. for_each us (\<lambda>u. publish u (u \<in> set exceeded))))"

definition publishOpenSessionVerdicts :: "'w budget_services \<Rightarrow> ('w, unit) bud" where
  "publishOpenSessionVerdicts E = bnd usersWithOpenSessions (\<lambda>us.
     for_each us (\<lambda>u. bnd (verdict E u) (\<lambda>r. publish u (r \<noteq> None))))"

section \<open>Reconciliation and seed\<close>

definition worker_sessions :: "'w budget_services \<Rightarrow> ('w, open_session list) bud" where
  "worker_sessions E = bnd (ask (workerSessions E)) (\<lambda>a. case a of
     None \<Rightarrow> throw (CallFailed ''worker'') | Some ss \<Rightarrow> ret ss)"

definition open_reported :: "open_session \<Rightarrow> ('w, unit) bud" where
  "open_reported s = openSession (os_session s) (os_username s) (os_type s) (os_created s)"

definition reconcile_uses :: "'w budget_services \<Rightarrow> ('w, unit) bud" where
  "reconcile_uses E = bnd openSessionIds (\<lambda>ids. bnd (worker_sessions E) (\<lambda>open_now.
     andthen (for_each open_now open_reported)
     (bnd (ask (clock E)) (\<lambda>now. for_each ids (\<lambda>i.
       if i \<notin> os_session ` set open_now then closeStaleSession i now else ret ())))))"

definition seed :: "'w budget_services \<Rightarrow> ('w, unit) bud" where
  "seed E = bnd count_uses (\<lambda>c. if c > 0 then ret ()
     else bnd (worker_sessions E) (\<lambda>open_now. for_each open_now open_reported))"

section \<open>Event handlers\<close>

definition onWorkerSessionOpened :: "string \<Rightarrow> string \<Rightarrow> string \<Rightarrow> int \<Rightarrow> ('w, unit) bud" where
  "onWorkerSessionOpened u i t created = openSession i u t created"

definition onWorkerSessionClosed :: "'w budget_services \<Rightarrow> string \<Rightarrow> int option \<Rightarrow> ('w, unit) bud" where
  "onWorkerSessionClosed E i closeTime = bnd (ask (clock E)) (\<lambda>now.
     closeSession_use i (case closeTime of None \<Rightarrow> now | Some t \<Rightarrow> t))"

definition onUserStorageSize :: "'w budget_services \<Rightarrow> string option \<Rightarrow> rat option \<Rightarrow> ('w, unit) bud" where
  "onUserStorageSize E username bytesUsed = (case (username, bytesUsed) of
     (Some u, Some b) \<Rightarrow> andthen (updateUserStorageUsage E u (b / 10 ^ 9))
       (bnd (updateUserSpendingReport E u) (\<lambda>_. ret ()))
   | _ \<Rightarrow> ret ())"

section \<open>HTTP handlers\<close>

datatype budget_reply =
    Json budget
  | BadRequest string
  | NoContent
  | Verdict string "over_reason option"

text \<open>A body's fields after \<open>Number\<close>: \<open>None\<close> stands for a value that is not finite.\<close>

record budget_body =
  body_username :: "string option"
  body_message :: "string option"
  body_instanceSpending :: "rat option"
  body_storageSpending :: "rat option"
  body_storageQuota :: "rat option"

text \<open>A value that is not a string is blank; here it is \<open>None\<close>.\<close>

definition isBlank :: "string option \<Rightarrow> bool" where
  "isBlank v \<longleftrightarrow> (case v of None \<Rightarrow> True | Some s \<Rightarrow> list_all is_space s)"

definition validBudget :: "budget_body \<Rightarrow> budget option" where
  "validBudget b = (case (body_instanceSpending b, body_storageSpending b, body_storageQuota b) of
     (Some i, Some s, Some q) \<Rightarrow> (if i \<ge> 0 \<and> s \<ge> 0 \<and> q \<ge> 0
        then Some \<lparr>instanceSpending = i, storageSpending = s, storageQuota = q\<rparr> else None)
   | _ \<Rightarrow> None)"

definition NOT_NUMBERS :: string where
  "NOT_NUMBERS = ''instanceSpending, storageSpending and storageQuota must be numbers >= 0''"

definition api_updateBudget :: "'w budget_services \<Rightarrow> budget_body \<Rightarrow> ('w, budget_reply) bud" where
  "api_updateBudget E b = (if isBlank (body_username b) then ret (BadRequest ''username is required'')
     else case validBudget b of
       None \<Rightarrow> ret (BadRequest NOT_NUMBERS)
     | Some v \<Rightarrow> andthen (updateBudget E (body_username b) v) (ret (Json v)))"

definition api_requestUpdate :: "'w budget_services \<Rightarrow> string \<Rightarrow> budget_body \<Rightarrow> ('w, budget_reply) bud" where
  "api_requestUpdate E current_user b = (if isBlank (body_message b) then ret (BadRequest ''message is required'')
     else case validBudget b of
       None \<Rightarrow> ret (BadRequest NOT_NUMBERS)
     | Some v \<Rightarrow> andthen (requestBudgetUpdate_repo E current_user (the (body_message b)) v) (ret NoContent))"

definition api_check :: "'w budget_services \<Rightarrow> string \<Rightarrow> (string \<times> string \<times> int) list \<Rightarrow> ('w, budget_reply) bud" where
  "api_check E u open_now = andthen (for_each open_now (\<lambda>(i, t, created). openSession i u t created))
     (bnd (verdict E u) (\<lambda>r. ret (Verdict u r)))"

end
