(* ===== verification/Budget.thy ===== *)
theory Budget
  imports BudgetCommands
begin

text \<open>
  What the budget module guarantees: use rows converge whatever order and however often events are
  delivered, a charge is bounded by the use it is for, the month's query loses nothing that is charged,
  storage accrues the same however often it is sampled, and the verdict that is enforced is the one that
  refuses a session.
\<close>

section \<open>Instance use\<close>

datatype delivery = Opened string string string int | ClosedAt string int

fun deliver :: "delivery \<Rightarrow> use_row list \<Rightarrow> use_row list" where
  "deliver (Opened i u t f) rs = stmt_open i u t f rs"
| "deliver (ClosedAt i to) rs = stmt_close_use i to rs"

lemma find_open_other: "i \<noteq> j \<Longrightarrow> find (use_of i) (stmt_open j u t f rs) = find (use_of i) rs"
  unfolding stmt_open_def by (rule open_use.find_upsert_other) (auto simp: use_of_def new_use_def)

lemma find_close_other: "i \<noteq> j \<Longrightarrow> find (use_of i) (stmt_close_use j to rs) = find (use_of i) rs"
  unfolding stmt_close_use_def by (rule close_use.find_upsert_other) (auto simp: use_of_def placeholder_def)

lemma find_open: "find (use_of i) (stmt_open i u t f rs) = Some (case find (use_of i) rs of
    None \<Rightarrow> \<lparr>us_session = i, us_username = storedUsername u, us_type = t, us_from = timestamp_column f, us_to = None\<rparr>
  | Some r \<Rightarrow> r\<lparr>us_username := storedUsername u, us_type := t, us_from := timestamp_column f\<rparr>)"
  unfolding stmt_open_def open_use.find_upsert by (simp add: opened_def new_use_def split: option.splits)

lemma find_close: "find (use_of i) (stmt_close_use i to rs) = Some (case find (use_of i) rs of
    None \<Rightarrow> placeholder i (timestamp_column to) | Some r \<Rightarrow> r\<lparr>us_to := Some (timestamp_column to)\<rparr>)"
  unfolding stmt_close_use_def close_use.find_upsert by (simp add: closed_at_def split: option.splits)

definition opens :: "string \<Rightarrow> delivery list \<Rightarrow> (string \<times> string \<times> int) set" where
  "opens i ds = {(u, t, f). Opened i u t f \<in> set ds}"

definition closes_at :: "string \<Rightarrow> delivery list \<Rightarrow> int set" where
  "closes_at i ds = {to. ClosedAt i to \<in> set ds}"

lemma opens_snoc: "opens i (ds @ [d]) = (case d of Opened j u t f \<Rightarrow> if j = i then insert (u, t, f) (opens i ds) else opens i ds
    | _ \<Rightarrow> opens i ds)"
  by (auto simp: opens_def split: delivery.splits)

lemma closes_snoc: "closes_at i (ds @ [d]) = (case d of ClosedAt j to \<Rightarrow> if j = i then insert to (closes_at i ds) else closes_at i ds
    | _ \<Rightarrow> closes_at i ds)"
  by (auto simp: closes_at_def split: delivery.splits)

text \<open>What a session's row is, from the deliveries alone.\<close>

definition use_after :: "string \<Rightarrow> (string \<times> string \<times> int) set \<Rightarrow> int set \<Rightarrow> string \<times> string \<times> int \<Rightarrow> int \<Rightarrow> use_row option" where
  "use_after i os cs = (\<lambda>(u, t, f) to.
     if os \<noteq> {} then Some \<lparr>us_session = i, us_username = storedUsername u, us_type = t, us_from = timestamp_column f,
       us_to = (if cs = {} then None else Some (timestamp_column to))\<rparr>
     else if cs \<noteq> {} then Some (placeholder i (timestamp_column to)) else None)"

lemma deliveries_row:
  assumes "find (use_of i) rs = None" and "opens i ds \<subseteq> {p}" and "closes_at i ds \<subseteq> {to}"
  shows "find (use_of i) (fold deliver ds rs) = use_after i (opens i ds) (closes_at i ds) p to"
  using assms(2,3)
proof (induction ds rule: rev_induct)
  case Nil
  then show ?case using assms(1) by (simp add: use_after_def opens_def closes_at_def split: prod.splits)
next
  case (snoc d ds)
  have sub: "opens i ds \<subseteq> {p}" "closes_at i ds \<subseteq> {to}"
    using snoc.prems by (auto simp: opens_snoc closes_snoc split: delivery.splits if_splits)
  note IH = snoc.IH [OF sub]
  obtain u t f where p: "p = (u, t, f)" by (cases p)
  show ?case
  proof (cases d)
    case (Opened j v s g)
    show ?thesis
    proof (cases "j = i")
      case True
      then have "v = u" "s = t" "g = f" using snoc.prems(1) Opened p by (auto simp: opens_snoc)
      then show ?thesis
        using IH True Opened p
        by (auto simp: opens_snoc closes_snoc find_open use_after_def placeholder_def)
    next
      case False
      then show ?thesis using IH Opened by (simp add: opens_snoc closes_snoc find_open_other)
    qed
  next
    case (ClosedAt j c)
    show ?thesis
    proof (cases "j = i")
      case True
      then have "c = to" using snoc.prems(2) ClosedAt by (auto simp: closes_snoc)
      then show ?thesis
        using IH True ClosedAt p
        by (auto simp: opens_snoc closes_snoc find_close use_after_def placeholder_def)
    next
      case False
      then show ?thesis using IH ClosedAt by (simp add: opens_snoc closes_snoc find_close_other)
    qed
  qed
qed

text \<open>C16: Use rows converge: whatever the order in which the announcements of a session arrive, however often each
  arrives, and whatever arrives about other sessions in between, once its request (or activation) and its close
  have both been delivered its row has the requested owner, type and start and the announced end.\<close>

theorem use_rows_converge:
  assumes "find (use_of i) rs = None" and "opens i ds = {(u, t, f)}" and "closes_at i ds = {to}"
  shows "find (use_of i) (fold deliver ds rs) = Some \<lparr>us_session = i, us_username = storedUsername u, us_type = t,
     us_from = timestamp_column f, us_to = Some (timestamp_column to)\<rparr>"
  using deliveries_row [OF assms(1), of ds "(u, t, f)" to] assms(2,3) by (simp add: use_after_def)

theorem use_rows_converge_witness:
  "find (use_of ''a'') (fold deliver [ClosedAt ''a'' 5000, Opened ''b'' ''eve'' ''T3aSmall'' 0, Opened ''a'' ''bob'' ''M5aLarge'' 1000,
      ClosedAt ''a'' 5000] []) = Some \<lparr>us_session = ''a'', us_username = ''bob'', us_type = ''M5aLarge'', us_from = 1000, us_to = Some 5000\<rparr>"
proof -
  let ?ds = "[ClosedAt ''a'' 5000, Opened ''b'' ''eve'' ''T3aSmall'' 0, Opened ''a'' ''bob'' ''M5aLarge'' 1000, ClosedAt ''a'' 5000]"
  have "storedUsername ''bob'' = ''bob''" by code_simp
  moreover have "timestamp_column 1000 = 1000" "timestamp_column 5000 = 5000" by (simp_all add: timestamp_column_def)
  ultimately show ?thesis
    using use_rows_converge [of "''a''" "[]" ?ds "''bob''" "''M5aLarge''" 1000 5000]
    by (simp add: opens_def closes_at_def)
qed


section \<open>What is charged\<close>

lemma hoursBetween_eq: "hoursBetween f t = of_int (t - f) / 3600000"
  by (simp add: hoursBetween_def)

definition overlap :: "instanceUse \<Rightarrow> int \<Rightarrow> int \<Rightarrow> int" where
  "overlap use first after = max 0 (min (iu_to use) after - max (iu_from use) first)"

lemma ceiling_hours:
  fixes d :: int
  shows "d \<le> 3600000 * \<lceil>of_int d / (3600000 :: rat)\<rceil> \<and> 3600000 * \<lceil>of_int d / (3600000 :: rat)\<rceil> < d + 3600000"
proof -
  define x :: rat where "x = of_int d / 3600000"
  define c where "c = \<lceil>x\<rceil>"
  have "x \<le> of_int c" "of_int c < x + 1" unfolding c_def by linarith+
  moreover have "of_int d = 3600000 * x" by (simp add: x_def)
  ultimately have "(of_int d :: rat) \<le> of_int (3600000 * c)" "(of_int (3600000 * c) :: rat) < of_int (d + 3600000)"
    by simp_all
  then show ?thesis unfolding of_int_le_iff of_int_less_iff c_def x_def by blast
qed

lemma hoursToCharge_overlap:
  "overlap use first after \<le> 3600000 * hoursToCharge use first after \<and>
   3600000 * hoursToCharge use first after < overlap use first after + 3600000 \<and>
   0 \<le> hoursToCharge use first after"
proof (cases "max (iu_from use) first > min (iu_to use) after")
  case True
  then show ?thesis by (simp add: hoursToCharge_def overlap_def)
next
  case False
  let ?d = "min (iu_to use) after - max (iu_from use) first"
  have "0 \<le> ?d" using False by linarith
  then have d: "0 \<le> ?d" "overlap use first after = ?d" by (simp_all only: overlap_def max_absorb2)
  have c: "hoursToCharge use first after = \<lceil>of_int ?d / (3600000 :: rat)\<rceil>"
    using False by (simp add: hoursToCharge_def hoursBetween_eq)
  from ceiling_hours [of ?d] c have "?d \<le> 3600000 * hoursToCharge use first after"
    "3600000 * hoursToCharge use first after < ?d + 3600000"
    by simp_all
  with d show ?thesis by linarith
qed

text \<open>A charge is bounded: the hours charged for a use in the month of a time cover its overlap with that
  month, exceed it by less than an hour, and are at most the hours of that month.\<close>

theorem hoursToCharge_bounds:
  assumes "h = hoursToCharge use (firstOfMonth now) (plusOneMonth (firstOfMonth now))"
    and "overlapping = max 0 (min (iu_to use) (plusOneMonth (firstOfMonth now)) - max (iu_from use) (firstOfMonth now))"
  shows "0 \<le> h \<and> overlapping \<le> h * 3600000 \<and> h * 3600000 < overlapping + 3600000 \<and>
    h \<le> 24 * daysInMonth (year now) (monthOfYear now)"
proof -
  let ?f = "firstOfMonth now" and ?a = "plusOneMonth (firstOfMonth now)"
  have m: "1 \<le> monthOfYear now" "monthOfYear now \<le> 12" using getUTCMonth_spec [of now] by (auto simp: monthOfYear_def)
  have month: "?a - ?f = 86400000 * daysInMonth (year now) (monthOfYear now)"
    using daysInMonth_length [OF m, of "year now"] by (simp add: firstOfYearMonth_first msPerDay_def)
  have "0 \<le> ?a - ?f" using cal.before_after [of ?f] by simp
  then have "overlapping \<le> 86400000 * daysInMonth (year now) (monthOfYear now)"
    unfolding assms(2) using month by linarith
  moreover have o: "overlap use ?f ?a = overlapping" by (simp add: overlap_def assms(2))
  ultimately show ?thesis
    using hoursToCharge_overlap [of use ?f ?a] unfolding o assms(1) [symmetric] by linarith
qed

theorem hoursToCharge_bounds_witness:
  "hoursToCharge \<lparr>iu_type = ''T3aSmall'', iu_from = 0, iu_to = 5400001\<rparr> (firstOfMonth 86400000)
     (plusOneMonth (firstOfMonth 86400000)) \<le> 24 * daysInMonth (year 86400000) (monthOfYear 86400000)"
  using hoursToCharge_bounds [OF refl refl] by blast

text \<open>A reference: every use of the user, whether or not it meets the month, at the price of its type.\<close>

definition instance_cost :: "string \<Rightarrow> int \<Rightarrow> use_row list \<Rightarrow> rat" where
  "instance_cost u now rs = (\<Sum>r \<leftarrow> filter (\<lambda>r. ci_eq (us_username r) u) rs.
     of_int (hoursToCharge (instanceUse_of now r) (firstOfMonth now) (plusOneMonth (firstOfMonth now))) * hourlyCost (us_type r))"

lemma outside_free:
  assumes "ci_eq (us_username r) u" and "\<not> use_in_month u (firstOfMonth now) (plusOneMonth (firstOfMonth now)) r"
  shows "hoursToCharge (instanceUse_of now r) (firstOfMonth now) (plusOneMonth (firstOfMonth now)) = 0"
proof -
  from assms have "us_from r > plusOneMonth (firstOfMonth now) \<or> (\<exists>to. us_to r = Some to \<and> to < firstOfMonth now)"
    by (auto simp: use_in_month_def split: option.splits)
  then show ?thesis
    by (auto simp: hoursToCharge_def instanceUse_of_def Let_def split: option.splits)
qed

lemma calculate_sum:
  "calculate y m us cost = (\<Sum>use \<leftarrow> us. of_int (hoursToCharge use (firstOfYearMonth y m) (plusOneMonth (firstOfYearMonth y m))) * cost (iu_type use))"
proof -
  have "foldl (\<lambda>total use. total + f use) a us = a + (\<Sum>use \<leftarrow> us. f use)" for f :: "instanceUse \<Rightarrow> rat" and a
    by (induction us arbitrary: a) (auto simp: add.assoc)
  then show ?thesis by (simp add: calculate_def Let_def)
qed

lemma calculate_month:
  "calculate (year now) (monthOfYear now)
     (map (instanceUse_of now) (filter (use_in_month u (firstOfMonth now) (plusOneMonth (firstOfMonth now))) rs)) hourlyCost
   = instance_cost u now rs"
proof (induction rs)
  case Nil
  then show ?case by (simp add: calculate_sum instance_cost_def)
next
  case (Cons r rs)
  show ?case
  proof (cases "use_in_month u (firstOfMonth now) (plusOneMonth (firstOfMonth now)) r")
    case True
    then have "ci_eq (us_username r) u" by (simp add: use_in_month_def)
    with True Cons show ?thesis
      by (simp add: calculate_sum instance_cost_def firstOfYearMonth_first instanceUse_of_def)
  next
    case False
    with Cons outside_free [of r u now] show ?thesis
      by (cases "ci_eq (us_username r) u") (simp_all add: calculate_sum instance_cost_def)
  qed
qed


section \<open>The verdict\<close>

text \<open>A reference for the verdict at one time: the user's whole use against the user's budget.\<close>

definition last_use :: "string \<Rightarrow> int \<Rightarrow> storage_row list \<Rightarrow> storageUse" where
  "last_use u now rs = (case latest_month (filter (\<lambda>r. ci_eq (st_username r) u) rs) of
     None \<Rightarrow> \<lparr>su_gbHours = 0, su_gb = 0, su_updateTime = now\<rparr>
   | Some r \<Rightarrow> \<lparr>su_gbHours = st_gbHours r, su_gb = st_gb r, su_updateTime = st_updated r\<rparr>)"

definition storage_cost :: "string \<Rightarrow> int \<Rightarrow> storage_row list \<Rightarrow> rat" where
  "storage_cost u now rs = calculateStorageSpending
     (determineCurrentStorageUse (Some (last_use u now rs)) (su_gb (last_use u now rs)) now) STORAGE_COST_PER_GB_MONTH now"

definition over_budget :: "string \<Rightarrow> int \<Rightarrow> 'w budget_server \<Rightarrow> over_reason option" where
  "over_budget u now s = (let b = budget_in (budgets s) (defaults s) u in
     if instance_cost u now (uses s) \<ge> instanceSpending b then Some INSTANCE_BUDGET
     else if storage_cost u now (storages s) \<ge> storageSpending b then Some STORAGE_BUDGET
     else if su_gb (last_use u now (storages s)) > storageQuota b then Some STORAGE_QUOTA
     else None)"

lemma ask_frozen: "f = (\<lambda>w. (a, w)) \<Longrightarrow> ask f s = (Inr a, s)"
  by (simp add: ask_run)

lemma lastUserStorageUse_run:
  assumes "clock E = (\<lambda>w. (now, w))"
  shows "lastUserStorageUse E u s = (Inr (last_use u now (storages s)), s)"
  by (simp add: lastUserStorageUse_def toStorageUse_def bnd_run ask_frozen [OF assms] last_use_def split: option.splits)

lemma storageUseForThisMonth_run:
  assumes "clock E = (\<lambda>w. (now, w))"
  shows "storageUseForThisMonth E u t s =
    (Inr (determineCurrentStorageUse (Some (last_use u now (storages s))) (su_gb (last_use u now (storages s))) t), s)"
  by (simp add: storageUseForThisMonth_def bnd_run lastUserStorageUse_run [OF assms])

lemma computeInstanceSpending_run:
  assumes "clock E = (\<lambda>w. (now, w))"
  shows "computeInstanceSpending E u s = (Inr (instance_cost u now (uses s)), s)"
  by (simp add: computeInstanceSpending_def userInstanceUses_def bnd_run ask_frozen [OF assms]
      firstOfYearMonth_first calculate_month Let_def)

lemma su_gb_determine [simp]: "su_gb (determineCurrentStorageUse l g now) = g"
  by (simp add: determineCurrentStorageUse_def Let_def)

lemma verdict_is_over_budget_run:
  assumes "clock E = (\<lambda>w. (now, w))"
  shows "verdict E u s = (Inr (over_budget u now s), s)"
  by (simp add: verdict_def checkUserInstanceSpending_def checkUserStorageUse_def bnd_run
      computeInstanceSpending_run [OF assms] ask_frozen [OF assms] storageUseForThisMonth_run [OF assms]
      userBudget_def userInstanceSpending_of_def userStorageUse_of_def over_budget_def storage_cost_def)


definition month_services :: "int \<Rightarrow> unit budget_services" where
  "month_services now = \<lparr>clock = (\<lambda>w. (now, w)), freshId = (\<lambda>w. (''r'', w)), listUsernames = (\<lambda>w. (Some [''bob'', ''eve''], w)),
     workerSessions = (\<lambda>w. (Some [\<lparr>os_session = ''b'', os_username = ''Eve'', os_type = ''T3aSmall'', os_created = 2000\<rparr>], w))\<rparr>"

definition month_server :: "unit budget_server" where
  "month_server = \<lparr>uses = [\<lparr>us_session = ''a'', us_username = ''bob'', us_type = ''T3aSmall'', us_from = 0, us_to = None\<rparr>],
     storages = [], budgets = [\<lparr>bu_username = ''bob'', bu_budget = \<lparr>instanceSpending = 0, storageSpending = 10, storageQuota = 10\<rparr>\<rparr>],
     defaults = [\<lparr>instanceSpending = 5, storageSpending = 5, storageQuota = 5\<rparr>], spendings = [], requests = [],
     published = [], world = ()\<rparr>"

lemma month_frozen: "clock (month_services now) = (\<lambda>w. (now, w))"
  by (simp add: month_services_def)


section \<open>Enforcement\<close>

lemma exceeds_budget_run:
  assumes "clock E = (\<lambda>w. (now, w))"
  shows "exceeds_budget E u s = (Inr (over_budget u now s \<noteq> None), s)"
  by (simp add: exceeds_budget_def checkUserInstanceSpending_def checkUserStorageUse_def bnd_run
      computeInstanceSpending_run [OF assms] ask_frozen [OF assms] storageUseForThisMonth_run [OF assms]
      userBudget_def userInstanceSpending_of_def userStorageUse_of_def over_budget_def storage_cost_def Let_def)

lemma exceeding_run:
  assumes "clock E = (\<lambda>w. (now, w))"
  shows "exceeding E us s = (Inr (filter (\<lambda>u. over_budget u now s \<noteq> None) us), s)"
  by (induction us) (simp_all add: bnd_run exceeds_budget_run [OF assms])

lemma over_budget_published [simp]: "over_budget u now (s\<lparr>published := p\<rparr>) = over_budget u now s"
  by (simp add: over_budget_def cong: if_cong)

lemma publish_each:
  assumes "\<And>u p. g u (s\<lparr>published := p\<rparr>) = (Inr (), s\<lparr>published := p @ [(u, v u)]\<rparr>)"
  shows "for_each us g (s\<lparr>published := p\<rparr>) = (Inr (), s\<lparr>published := p @ map (\<lambda>u. (u, v u)) us\<rparr>)"
proof (induction us arbitrary: p)
  case (Cons u us)
  show ?case by (simp add: andthen_run assms Cons)
qed simp

text \<open>Every enforcement cycle publishes the current verdict, once, for each user it covers and in order: the
  hourly cycle for every known user, the cycle of every minute for every user with an open session. The two
  agree with each other and with the verdict that decides on a request.\<close>

theorem enforcement_publishes_verdicts:
  assumes "clock E = (\<lambda>w. (now, w))" and "listUsernames E = (\<lambda>w. (Some us, w))"
  shows "publishVerdicts E s = (Inr (), s\<lparr>published := published s @ map (\<lambda>u. (u, over_budget u now s \<noteq> None)) us\<rparr>) \<and>
    publishOpenSessionVerdicts E s = (Inr (), s\<lparr>published := published s @ map (\<lambda>u. (u, over_budget u now s \<noteq> None))
      (distinct_ci (map us_username (filter (\<lambda>r. us_to r = None) (uses s))))\<rparr>)"
proof -
  let ?v = "\<lambda>u. over_budget u now s \<noteq> None"
  have names: "usernames E t = (Inr us, t)" for t
    using assms(2) by (simp add: usernames_def bnd_run ask_frozen)
  have self: "s\<lparr>published := published s\<rparr> = s" by simp
  have "for_each us (\<lambda>u. publish u (u \<in> set (filter ?v us))) s = for_each us (\<lambda>u. publish u (?v u)) s"
  proof -
    have "for_each vs (\<lambda>u. publish u (u \<in> set (filter ?v us))) t = for_each vs (\<lambda>u. publish u (?v u)) t"
      if "set vs \<subseteq> set us" for vs t
      using that by (induction vs arbitrary: t) (auto simp: andthen_run split: prod.splits sum.splits)
    from this [OF order.refl] show ?thesis .
  qed
  moreover have "for_each us (\<lambda>u. publish u (?v u)) (s\<lparr>published := published s\<rparr>)
      = (Inr (), s\<lparr>published := published s @ map (\<lambda>u. (u, ?v u)) us\<rparr>)"
    by (rule publish_each) (simp add: publish_def)
  ultimately have "publishVerdicts E s = (Inr (), s\<lparr>published := published s @ map (\<lambda>u. (u, ?v u)) us\<rparr>)"
    by (simp add: publishVerdicts_def findUsersExceedingBudget_def bnd_run names exceeding_run [OF assms(1)])
  moreover have "for_each vs (\<lambda>u. bnd (verdict E u) (\<lambda>r. publish u (r \<noteq> None))) (s\<lparr>published := published s\<rparr>)
      = (Inr (), s\<lparr>published := published s @ map (\<lambda>u. (u, ?v u)) vs\<rparr>)" for vs
    by (rule publish_each)
       (simp add: bnd_run publish_def verdict_def checkUserInstanceSpending_def checkUserStorageUse_def
         computeInstanceSpending_run [OF assms(1)] ask_frozen [OF assms(1)] storageUseForThisMonth_run [OF assms(1)]
         userBudget_def userInstanceSpending_of_def userStorageUse_of_def over_budget_def storage_cost_def)
  ultimately show ?thesis by (simp add: publishOpenSessionVerdicts_def usersWithOpenSessions_def bnd_run)
qed

theorem enforcement_publishes_verdicts_witness:
  "published (snd (publishVerdicts (month_services 3600000) month_server))
    = [(''bob'', over_budget ''bob'' 3600000 month_server \<noteq> None), (''eve'', over_budget ''eve'' 3600000 month_server \<noteq> None)]"
proof -
  have "listUsernames (month_services 3600000) = (\<lambda>w. (Some [''bob'', ''eve''], w))" by (simp add: month_services_def)
  from enforcement_publishes_verdicts [OF month_frozen this, of month_server]
  show ?thesis by (simp add: month_server_def)
qed


section \<open>Storage\<close>

lemma hoursBetween_add: "hoursBetween a b + hoursBetween b c = hoursBetween a c"
  by (simp add: hoursBetween_eq add_divide_distrib [symmetric])

lemma determine_unchanged:
  "determineCurrentStorageUse (Some l) (su_gb l) t = \<lparr>su_gbHours =
     (if firstOfMonth t = firstOfMonth (su_updateTime l) then su_gbHours l else 0) +
       su_gb l * hoursBetween (max (firstOfMonth t) (su_updateTime l)) t,
     su_gb = su_gb l, su_updateTime = t\<rparr>"
  by (simp add: determineCurrentStorageUse_def sameYearAndMonth_iff)

lemma determine_twice:
  assumes "t \<le> u" and "firstOfMonth u \<le> t"
  shows "determineCurrentStorageUse (Some (determineCurrentStorageUse (Some l) (su_gb l) t)) (su_gb l) u =
    determineCurrentStorageUse (Some l) (su_gb l) u"
proof -
  let ?l = "determineCurrentStorageUse (Some l) (su_gb l) t"
  have F: "firstOfMonth u = firstOfMonth t" using cal.same_month_iff [OF assms(1)] assms(2) by simp
  have "determineCurrentStorageUse (Some ?l) (su_gb ?l) u = determineCurrentStorageUse (Some l) (su_gb l) u"
    unfolding determine_unchanged F
    using hoursBetween_add [of "max (firstOfMonth t) (su_updateTime l)" t u] cal.first_le [of t]
    by (simp add: max_absorb2 algebra_simps flip: distrib_left)
  then show ?thesis by simp
qed

text \<open>Storage accrues the same however often it is sampled: while the storage does not change, updating it at
  any times of a month and reading it at the end gives what reading it once at the end gives.\<close>

theorem storage_sampling_independent:
  assumes "sorted (ts @ [t])" and "\<forall>x \<in> set ts. firstOfMonth t \<le> x"
  shows "fold (\<lambda>x l. determineCurrentStorageUse (Some l) (su_gb l) x) (ts @ [t]) l =
    determineCurrentStorageUse (Some l) (su_gb l) t"
  using assms
proof (induction ts arbitrary: l)
  case Nil
  then show ?case by simp
next
  case (Cons x ts)
  then have "x \<le> t" "firstOfMonth t \<le> x" by auto
  then have "determineCurrentStorageUse (Some (determineCurrentStorageUse (Some l) (su_gb l) x)) (su_gb l) t =
      determineCurrentStorageUse (Some l) (su_gb l) t"
    by (rule determine_twice)
  with Cons show ?case by simp
qed

theorem storage_sampling_independent_witness:
  "fold (\<lambda>x l. determineCurrentStorageUse (Some l) (su_gb l) x) ([3600000, 7200000] @ [10800000])
     \<lparr>su_gbHours = 5, su_gb = 2, su_updateTime = - 1\<rparr> =
   determineCurrentStorageUse (Some \<lparr>su_gbHours = 5, su_gb = 2, su_updateTime = - 1\<rparr>) 2 10800000"
proof -
  have "firstOfMonth 10800000 = 0" by code_simp
  then show ?thesis
    using storage_sampling_independent [of "[3600000, 7200000]" 10800000 "\<lparr>su_gbHours = 5, su_gb = 2, su_updateTime = - 1\<rparr>"]
    by simp
qed

section \<open>Reconciliation\<close>

definition reported :: "string \<Rightarrow> open_session list \<Rightarrow> open_session option" where
  "reported i ss = find (\<lambda>o'. os_session o' = i) ss"

lemma open_reported_run:
  "for_each ss open_reported s = (Inr (), s\<lparr>uses := fold (\<lambda>o'. stmt_open (os_session o') (os_username o') (os_type o') (os_created o')) ss (uses s)\<rparr>)"
  by (induction ss arbitrary: s) (simp_all add: andthen_run open_reported_def openSession_def)

lemma find_open_reported:
  assumes "distinct (map os_session ss)"
  shows "find (use_of i) (fold (\<lambda>o'. stmt_open (os_session o') (os_username o') (os_type o') (os_created o')) ss rs) =
    (case reported i ss of None \<Rightarrow> find (use_of i) rs
     | Some o' \<Rightarrow> Some \<lparr>us_session = i, us_username = storedUsername (os_username o'), us_type = os_type o',
         us_from = timestamp_column (os_created o'), us_to = Option.bind (find (use_of i) rs) us_to\<rparr>)"
  using assms
proof (induction ss arbitrary: rs)
  case Nil
  show ?case by (simp add: reported_def)
next
  case (Cons o1 ss)
  show ?case
  proof (cases "os_session o1 = i")
    case True
    then have none: "reported i ss = None" using Cons.prems by (auto simp: reported_def find_None_key image_iff)
    have "us_session r = i" if "find (use_of i) rs = Some r" for r
      using find_Some_key [OF that] by (simp add: use_of_def)
    with True none Cons show ?thesis
      by (auto simp: find_open reported_def split: option.splits)
  next
    case False
    then have "find (use_of i) (stmt_open (os_session o1) u' t' f' rs) = find (use_of i) rs" for u' t' f'
      by (intro find_open_other) auto
    with False show ?thesis using Cons
      by (cases "find (\<lambda>o'. os_session o' = i) ss") (simp_all add: reported_def)
  qed
qed

lemma find_close_stale:
  "find (use_of i) (stmt_close_stale j now rs) = map_option
     (\<lambda>r. if i = j \<and> us_to r = None then closed_at (timestamp_column now) r else r) (find (use_of i) rs)"
  unfolding stmt_close_stale_def
  by (induction rs) (auto simp: use_of_def closed_at_def)

lemma close_stale_each:
  "for_each ids (\<lambda>j. if P j then closeStaleSession j now else ret ()) s =
     (Inr (), s\<lparr>uses := fold (\<lambda>j rs. if P j then stmt_close_stale j now rs else rs) ids (uses s)\<rparr>)"
  by (induction ids arbitrary: s) (simp_all add: andthen_run closeStaleSession_def)

lemma find_close_stales:
  "find (use_of i) (fold (\<lambda>j rs. if P j then stmt_close_stale j now rs else rs) ids rs) = map_option
     (\<lambda>r. if i \<in> set ids \<and> P i \<and> us_to r = None then closed_at (timestamp_column now) r else r) (find (use_of i) rs)"
  by (induction ids arbitrary: rs) (auto simp: find_close_stale closed_at_def map_option_case split: option.splits)

text \<open>Reconciliation heals both losses and nothing else: afterwards a session the worker reports has its row,
  still open unless a close was recorded; a session that was open here and that the worker does not report is
  closed now; every other row is as it was.\<close>

theorem reconcile_heals:
  assumes "workerSessions E (world s) = (Some ss, w)" and "distinct (map os_session ss)"
    and "\<forall>r \<in> set (uses s). \<forall>q \<in> set (uses s). us_session r = us_session q \<longrightarrow> r = q"
    and "reconcile_uses E s = (r, t)"
  shows "find (use_of i) (uses t) = (case find (\<lambda>x. os_session x = i) ss of
     Some x \<Rightarrow> Some \<lparr>us_session = i, us_username = storedUsername (os_username x), us_type = os_type x,
       us_from = timestamp_column (os_created x), us_to = Option.bind (find (use_of i) (uses s)) us_to\<rparr>
   | None \<Rightarrow> map_option (\<lambda>q. if us_to q = None then q\<lparr>us_to := Some (timestamp_column (fst (clock E w)))\<rparr> else q)
       (find (use_of i) (uses s)))"
proof -
  let ?open = "fold (\<lambda>x. stmt_open (os_session x) (os_username x) (os_type x) (os_created x)) ss (uses s)"
  let ?ids = "map us_session (filter (\<lambda>r. us_to r = None) (uses s))"
  let ?P = "\<lambda>j. j \<notin> os_session ` set ss"
  have "uses t = fold (\<lambda>j rs. if ?P j then stmt_close_stale j (fst (clock E w)) rs else rs) ?ids ?open"
    using assms(1,4)
    by (auto simp: reconcile_uses_def openSessionIds_def worker_sessions_def bnd_run andthen_run ask_run
        open_reported_run close_stale_each cong: if_cong)
  then have t: "find (use_of i) (uses t) = map_option (\<lambda>q. if i \<in> set ?ids \<and> ?P i \<and> us_to q = None
      then closed_at (timestamp_column (fst (clock E w))) q else q) (find (use_of i) ?open)"
    by (simp only: find_close_stales)
  show ?thesis
  proof (cases "reported i ss")
    case None
    then have P: "?P i" by (auto simp: reported_def find_None_key)
    have ids: "i \<in> set ?ids \<longleftrightarrow> us_to q = None" if "find (use_of i) (uses s) = Some q" for q
      using find_Some_key [OF that] assms(3) by (auto simp: use_of_def)
    show ?thesis
      unfolding t find_open_reported [OF assms(2)]
      using None P ids by (auto simp: reported_def closed_at_def map_option_case split: option.splits)
  next
    case (Some x)
    then have "\<not> ?P i" using find_Some_key [OF Some [unfolded reported_def]] by auto
    then show ?thesis
      unfolding t find_open_reported [OF assms(2)] using Some by (simp add: reported_def)
  qed
qed

theorem reconcile_heals_witness:
  "find (use_of ''a'') (uses (snd (reconcile_uses (month_services 7000) month_server)))
    = Some \<lparr>us_session = ''a'', us_username = ''bob'', us_type = ''T3aSmall'', us_from = 0, us_to = Some 7000\<rparr>"
proof -
  have ts: "timestamp_column 7000 = 7000" by (simp add: timestamp_column_def)
  have w: "workerSessions (month_services 7000) (world month_server) =
      (Some [\<lparr>os_session = ''b'', os_username = ''Eve'', os_type = ''T3aSmall'', os_created = 2000\<rparr>], ())"
    by (simp add: month_services_def)
  show ?thesis
    using reconcile_heals [OF w _ _ prod.collapse [symmetric], of "''a''"] ts
    by (simp add: month_server_def month_services_def use_of_def)
qed

end
