(* ===== verification/BudgetTables.thy ===== *)
theory BudgetTables
  imports Budget
begin

text \<open>
  The invariant of the budget module's tables under every operation of the module (\<open>budget_step\<close>), and what
  setting a budget does.
\<close>

definition tables_ok :: "'w budget_server \<Rightarrow> bool" where
  "tables_ok s \<longleftrightarrow> (\<forall>i. at_most_one (use_of i) (uses s)) \<and> (\<forall>k. at_most_one (storage_of k) (storages s)) \<and>
     (\<forall>u. at_most_one (budget_for u) (budgets s)) \<and> length (defaults s) \<le> 1 \<and>
     (\<forall>u. at_most_one (\<lambda>q. ci_eq (sp_username q) u) (spendings s)) \<and>
     (\<forall>u. at_most_one (open_request u) (requests s))"

abbreviation keeps_tables :: "'w budget_server \<Rightarrow> 'w budget_server \<Rightarrow> bool" where
  "keeps_tables \<equiv> keeps tables_ok"

lemma keeps_reads [intro!]:
  "runs_in keeps_tables (ask f)"
  "runs_in keeps_tables (userBudget u)" "runs_in keeps_tables (toStorageUse E row)"
  "runs_in keeps_tables (stored_budget b)" "runs_in keeps_tables (budgetUpdateRequest_repo u)"
  by (auto simp: ask_def userBudget_def toStorageUse_def stored_budget_def budgetUpdateRequest_repo_def keeps_def
      tables_ok_def split: option.splits prod.splits intro!: keeping.runs_in_state_act keeping.runs_in_bnd)

lemma keeps_storage_reads [intro!]:
  "runs_in keeps_tables (lastUserStorageUse E u)" "runs_in keeps_tables (userInstanceUses E u y m)"
  "runs_in keeps_tables (usernames E)" "runs_in keeps_tables (worker_sessions E)"
  unfolding lastUserStorageUse_def userInstanceUses_def usernames_def worker_sessions_def Let_def
  by (auto intro!: keeping.runs_in_bnd split: option.splits)

lemma keeps_computations [intro!]:
  "runs_in keeps_tables (computeInstanceSpending E u)" "runs_in keeps_tables (storageUseForThisMonth E u now)"
  unfolding computeInstanceSpending_def storageUseForThisMonth_def
  by (auto intro!: keeping.runs_in_bnd)

lemma keeps_checks [intro!]:
  "runs_in keeps_tables (checkUserInstanceSpending E u)" "runs_in keeps_tables (checkUserStorageUse E u)"
  "runs_in keeps_tables (generateUserSpendingReport E u)"
  unfolding checkUserInstanceSpending_def checkUserStorageUse_def generateUserSpendingReport_def
  by (auto intro!: keeping.runs_in_bnd)

lemma keeps_verdicts [intro!]:
  "runs_in keeps_tables (verdict E u)" "runs_in keeps_tables (exceeds_budget E u)"
  unfolding verdict_def exceeds_budget_def by (auto intro!: keeping.runs_in_bnd)

lemma keeps_exceeding [intro!]: "runs_in keeps_tables (exceeding E us)"
proof (induction us)
  case Nil
  show ?case unfolding exceeding.simps by (rule keeping.runs_in_ret)
next
  case (Cons u us)
  then show ?case unfolding exceeding.simps by (intro keeping.runs_in_bnd keeping.runs_in_ret keeps_verdicts)
qed

lemma keeps_reports [intro!]: "runs_in keeps_tables (reports_for E us rs)"
  by (induction us arbitrary: rs) (auto intro!: keeping.runs_in_bnd)

section \<open>The statements that write\<close>

lemma at_most_one_update:
  "(\<And>r. P r \<Longrightarrow> R (f r) \<Longrightarrow> R r) \<Longrightarrow> at_most_one R rs \<Longrightarrow> at_most_one R (sql_update P f rs)"
  unfolding at_most_one_def by (rule order_trans [OF filter_sql_update_le])

lemma keeps_use_statements [intro!]:
  "runs_in keeps_tables (openSession i u t f)" "runs_in keeps_tables (closeSession_use i to)"
  "runs_in keeps_tables (closeStaleSession i to)"
proof -
  show "runs_in keeps_tables (openSession i u t f)"
    unfolding openSession_def stmt_open_def
    by (rule keeping.runs_in_modify) (simp add: keeps_def tables_ok_def open_use.keyed_upsert)
  show "runs_in keeps_tables (closeSession_use i to)"
    unfolding closeSession_use_def stmt_close_use_def
    by (rule keeping.runs_in_modify) (simp add: keeps_def tables_ok_def close_use.keyed_upsert)
  show "runs_in keeps_tables (closeStaleSession i to)"
    unfolding closeStaleSession_def stmt_close_stale_def
    by (rule keeping.runs_in_modify)
       (auto simp: keeps_def tables_ok_def use_of_def closed_at_def intro!: at_most_one_update)
qed

lemma keeps_updateUserStorageUse [intro!]: "runs_in keeps_tables (updateUserStorageUse u v)"
  unfolding updateUserStorageUse_def Let_def
  by (rule keeping.runs_in_modify) (simp add: keeps_def tables_ok_def storage_table.keyed_upsert)

lemma keeps_updateDefaultBudget [intro!]: "runs_in keeps_tables (updateDefaultBudget b)"
  unfolding updateDefaultBudget_def
  by (intro keeping.runs_in_bnd keeps_reads keeping.runs_in_modify) (simp add: keeps_def tables_ok_def)

lemma keeps_closeBudgetUpdateRequest [intro!]: "runs_in keeps_tables (closeBudgetUpdateRequest E u b)"
  unfolding closeBudgetUpdateRequest_def
  by (intro keeping.runs_in_bnd keeps_reads keeping.runs_in_modify)
     (auto simp: keeps_def tables_ok_def open_request_def intro!: at_most_one_update)

lemma keeps_updateBudget [intro!]: "runs_in keeps_tables (updateBudget E u b)"
  unfolding updateBudget_def updateBudget_repo_def
  by (intro keeping.runs_in_if keeping.runs_in_bnd keeping.runs_in_andthen keeps_reads
      keeps_updateDefaultBudget keeps_closeBudgetUpdateRequest keeping.runs_in_modify)
     (simp add: keeps_def tables_ok_def budget_table.keyed_upsert)

lemma at_most_one_snoc:
  "at_most_one P rs \<Longrightarrow> (P r \<Longrightarrow> \<not> list_ex P rs) \<Longrightarrow> at_most_one P (rs @ [r])"
  by (cases "P r") (auto simp: at_most_one_def list_ex_iff filter_empty_conv)

lemma keeps_insert_spending [intro!]: "runs_in keeps_tables (insert_spending r)"
proof -
  have "tables_ok (s\<lparr>spendings := spendings s @ [r]\<rparr>)"
    if ok: "tables_ok s" and new: "\<not> list_ex (\<lambda>q. ci_eq (sp_username q) (sp_username r)) (spendings s)" for s :: "'a budget_server"
  proof -
    have "at_most_one (\<lambda>q. ci_eq (sp_username q) u) (spendings s @ [r])" for u
      by (rule at_most_one_snoc)
         (use ok new in \<open>auto simp: tables_ok_def list_ex_iff ci_eq_def\<close>)
    with ok show ?thesis by (simp add: tables_ok_def)
  qed
  then show ?thesis
    by (auto simp: insert_spending_def runs_in_def keeps_def effect_simps)
qed

lemma keeps_report_writes [intro!]:
  "runs_in keeps_tables (saveSpendingReport rs)" "runs_in keeps_tables (updateSpendingReport_repo u e)"
proof -
  show "runs_in keeps_tables (saveSpendingReport rs)"
    unfolding saveSpendingReport_def
    by (intro keeping.runs_in_andthen keeping.runs_in_for_each keeps_insert_spending keeping.runs_in_modify)
       (simp add: keeps_def tables_ok_def at_most_one_def)
  show "runs_in keeps_tables (updateSpendingReport_repo u e)"
    unfolding updateSpendingReport_repo_def
    by (rule keeping.runs_in_modify) (auto simp: keeps_def tables_ok_def intro!: at_most_one_update)
qed

lemma keeps_requestBudgetUpdate [intro!]: "runs_in keeps_tables (requestBudgetUpdate_repo E u message b)"
proof -
  let ?pending = "\<lambda>s :: 'a budget_server. list_ex (open_request u) (requests s)"
  have new: "tables_ok (s\<lparr>world := w, requests := requests s @ [r]\<rparr>)"
    if ok: "tables_ok s" and no: "\<not> ?pending s" and r: "rq_username r = storedUsername u" for s r w
  proof -
    have "at_most_one (open_request v) (requests s @ [r])" for v
    proof (rule at_most_one_snoc)
      show "at_most_one (open_request v) (requests s)" using ok by (simp add: tables_ok_def)
      assume "open_request v r"
      then have "open_request v = open_request u"
        using r by (auto simp: open_request_def ci_eq_def fun_eq_iff)
      with no show "\<not> list_ex (open_request v) (requests s)" by simp
    qed
    with ok show ?thesis by (simp add: tables_ok_def)
  qed
  have old: "tables_ok (s\<lparr>world := w, requests := sql_update (open_request u)
       (\<lambda>r. r\<lparr>rq_requested := c, rq_message := message, rq_updated := n\<rparr>) (requests s)\<rparr>)" if "tables_ok s" for s :: "'a budget_server" and c n w
    using that by (auto simp: tables_ok_def open_request_def intro!: at_most_one_update)
  show ?thesis
    unfolding runs_in_def
  proof
    fix s :: "'a budget_server"
    show "keeps_tables s (snd (requestBudgetUpdate_repo E u message b s))"
    proof (cases "budget_columns b")
      case None
      then show ?thesis by (simp add: requestBudgetUpdate_repo_def stored_budget_def keeps_def)
    next
      case (Some c)
      show ?thesis
        using Some
        by (cases "?pending s")
           (auto simp: requestBudgetUpdate_repo_def stored_budget_def keeps_def bnd_run ask_run userBudget_def
             intro!: new old)
    qed
  qed
qed

section \<open>Every operation\<close>

lemma keeps_reconcile [intro!]: "runs_in keeps_tables (reconcile_uses E)"
  unfolding reconcile_uses_def openSessionIds_def open_reported_def
  by (intro keeping.runs_in_bnd keeping.runs_in_gets keeps_storage_reads keeping.runs_in_andthen
      keeping.runs_in_for_each keeps_use_statements keeps_reads keeping.runs_in_if keeping.runs_in_ret)

lemma keeps_seed [intro!]: "runs_in keeps_tables (seed E)"
  unfolding seed_def count_uses_def open_reported_def
  by (auto intro!: keeping.runs_in_bnd keeping.runs_in_for_each)

lemma keeps_enforcement [intro!]:
  "runs_in keeps_tables (publishVerdicts E)" "runs_in keeps_tables (publishOpenSessionVerdicts E)"
proof -
  have "runs_in keeps_tables (publish u x :: ('a, unit) bud)" for u x
    unfolding publish_def by (rule keeping.runs_in_modify) (simp add: keeps_def tables_ok_def)
  then show "runs_in keeps_tables (publishVerdicts (E :: 'a budget_services))" "runs_in keeps_tables (publishOpenSessionVerdicts E)"
    unfolding publishVerdicts_def publishOpenSessionVerdicts_def findUsersExceedingBudget_def usersWithOpenSessions_def
    by (auto intro!: keeping.runs_in_bnd keeping.runs_in_for_each)
qed

lemma keeps_updateSpendingReport [intro!]: "runs_in keeps_tables (updateSpendingReport E)"
  unfolding updateSpendingReport_def generateSpendingReport_def by (auto intro!: keeping.runs_in_bnd)

lemma keeps_handlers [intro!]:
  "runs_in keeps_tables (onWorkerSessionOpened u i t c)" "runs_in keeps_tables (onWorkerSessionClosed E i ct)"
  "runs_in keeps_tables (onUserStorageSize E un sz)"
  unfolding onWorkerSessionOpened_def onWorkerSessionClosed_def onUserStorageSize_def updateUserStorageUsage_def
    updateStorageUseForThisMonth_def updateUserSpendingReport_def Let_def
  by (auto intro!: keeping.runs_in_bnd keeping.runs_in_andthen split: option.splits)

lemma keeps_api [intro!]:
  "runs_in keeps_tables (api_updateBudget E b)" "runs_in keeps_tables (api_requestUpdate E cu b)"
  "runs_in keeps_tables (api_check E u os)"
  unfolding api_updateBudget_def api_requestUpdate_def api_check_def
  by (auto intro!: keeping.runs_in_bnd keeping.runs_in_andthen keeping.runs_in_for_each split: option.splits prod.splits)

inductive budget_step :: "'w budget_services \<Rightarrow> 'w budget_server \<Rightarrow> 'w budget_server \<Rightarrow> bool" for E where
  World: "budget_step E s (s\<lparr>world := w\<rparr>)"
| SessionOpened: "onWorkerSessionOpened u i t c s = (r, s') \<Longrightarrow> budget_step E s s'"
| SessionClosed: "onWorkerSessionClosed E i ct s = (r, s') \<Longrightarrow> budget_step E s s'"
| StorageSize: "onUserStorageSize E un sz s = (r, s') \<Longrightarrow> budget_step E s s'"
| Report: "updateSpendingReport E s = (r, s') \<Longrightarrow> budget_step E s s'"
| Verdicts: "publishVerdicts E s = (r, s') \<Longrightarrow> budget_step E s s'"
| OpenVerdicts: "publishOpenSessionVerdicts E s = (r, s') \<Longrightarrow> budget_step E s s'"
| Reconcile: "reconcile_uses E s = (r, s') \<Longrightarrow> budget_step E s s'"
| Seed: "seed E s = (r, s') \<Longrightarrow> budget_step E s s'"
| SetDefault: "updateBudget E None b s = (r, s') \<Longrightarrow> budget_step E s s'"
| ApiUpdate: "api_updateBudget E body s = (a, s') \<Longrightarrow> budget_step E s s'"
| ApiRequest: "api_requestUpdate E cu body s = (a, s') \<Longrightarrow> budget_step E s s'"
| ApiCheck: "api_check E u os s = (a, s') \<Longrightarrow> budget_step E s s'"

text \<open>Whatever the module does, a session has one use row, a user one budget, one cached report row and one
  storage row per month - in any spelling of the name -, there is one default budget, and a user has at most one
  pending request for a budget update.\<close>

theorem budget_tables_stay_keyed:
  assumes "(budget_step E)\<^sup>*\<^sup>* s t" and "tables_ok s"
  shows "tables_ok t"
  using assms
proof (induction rule: rtranclp_induct)
  case base
  then show ?case .
next
  case (step t v)
  have "tables_ok t" using step by blast
  from step(2) have "keeps_tables t v"
  proof (induction rule: budget_step.induct)
    case (World s w)
    show ?case by (simp add: keeps_def tables_ok_def)
  qed (auto intro: runs_inD_run [where Q = keeps_tables])
  with \<open>tables_ok t\<close> show ?case by (simp add: keeps_def)
qed

theorem budget_tables_stay_keyed_witness:
  "tables_ok (snd (api_check (month_services 7000) ''bob'' [(''a'', ''T3aSmall'', 0), (''c'', ''M5aLarge'', 0)] month_server))"
proof (rule budget_tables_stay_keyed)
  show "(budget_step (month_services 7000))\<^sup>*\<^sup>* month_server
      (snd (api_check (month_services 7000) ''bob'' [(''a'', ''T3aSmall'', 0), (''c'', ''M5aLarge'', 0)] month_server))"
    by (rule r_into_rtranclp) (rule budget_step.ApiCheck [OF prod.collapse [symmetric]])
  show "tables_ok month_server"
    by (simp add: tables_ok_def month_server_def at_most_one_def)
qed


lemma budget_for_stored: "ci_eq v u \<Longrightarrow> budget_for v = budget_for (storedUsername u)"
  by (auto simp: budget_for_def ci_eq_def fun_eq_iff)

lemma budget_in_upsert:
  "budget_in (row_upsert budget_for budget_put budget_new (storedUsername u) c bs) ds v =
     (if ci_eq v u then c else budget_in bs ds v)"
proof (cases "ci_eq v u")
  case True
  then show ?thesis
    by (simp add: budget_in_def budget_for_stored budget_table.find_upsert budget_put_def budget_new_def split: option.splits)
next
  case False
  then have "\<not> budget_for v (budget_new (storedUsername u) c)"
    by (auto simp: budget_for_def budget_new_def ci_eq_def)
  with False show ?thesis by (simp add: budget_in_def budget_table.find_upsert_other)
qed

lemma closed_requests:
  "filter (open_request u) (sql_update (open_request u) (\<lambda>r. r\<lparr>rq_final := b, rq_updated := n, rq_pending := False\<rparr>) rs) = []"
  by (induction rs) (auto simp: open_request_def)

text \<open>Setting a user's budget takes effect at once and for that user only: in any spelling of the name the
  user's budget is the one given, in whole numbers; every other user's is as before; and no request of that user
  is left pending.\<close>

theorem updateBudget_takes_effect:
  assumes "body_username b = Some u" and "\<not> list_all is_space u" and "validBudget b = Some v"
    and "budget_columns v = Some c" and "api_updateBudget E b s = (a, t)"
  shows "a = Inr (Json v) \<and>
    budget_in (budgets t) (defaults t) w = (if ci_eq w u then c else budget_in (budgets s) (defaults s) w) \<and>
    filter (open_request u) (requests t) = []"
proof -
  have "u \<noteq> []" using assms(2) by auto
  with assms show ?thesis
    by (auto simp: api_updateBudget_def isBlank_def updateBudget_def updateBudget_repo_def stored_budget_def
        closeBudgetUpdateRequest_def andthen_run bnd_run ask_run budget_in_upsert closed_requests)
qed

definition half_body :: budget_body where
  "half_body = \<lparr>body_username = Some ''Eve'', body_message = None, body_instanceSpending = Some (5 / 2),
     body_storageSpending = Some 1, body_storageQuota = Some (1 / 4)\<rparr>"

theorem updateBudget_takes_effect_witness:
  "fst (api_updateBudget (month_services 0) half_body month_server)
     = Inr (Json \<lparr>instanceSpending = 5 / 2, storageSpending = 1, storageQuota = 1 / 4\<rparr>) \<and>
   budget_in (budgets (snd (api_updateBudget (month_services 0) half_body month_server)))
     (defaults (snd (api_updateBudget (month_services 0) half_body month_server))) ''eve''
     = \<lparr>instanceSpending = 3, storageSpending = 1, storageQuota = 0\<rparr>"
proof -
  let ?v = "\<lparr>instanceSpending = 5 / 2, storageSpending = 1, storageQuota = 1 / 4 :: rat\<rparr>"
  have nonblank: "\<not> list_all is_space ''Eve''" by code_simp
  have valid: "validBudget half_body = Some ?v" by (simp add: validBudget_def half_body_def)
  have columns: "budget_columns ?v = Some \<lparr>instanceSpending = 3, storageSpending = 1, storageQuota = 0\<rparr>" by code_simp
  have eve: "ci_eq ''eve'' ''Eve''" by code_simp
  from updateBudget_takes_effect [OF _ nonblank valid columns prod.collapse [symmetric], of "month_services 0" month_server "''eve''"] eve
  show ?thesis by (auto simp: half_body_def)
qed

end
