(* ===== verification/SessionBudget.thy ===== *)
theory SessionBudget
  imports Sessions BudgetTables
begin

text \<open>
  The two modules together: the worker's request for a session (\<^verbatim>\<open>modules/worker\<close>), whose budget check is the
  HTTP call \<^verbatim>\<open>POST /budget/check/:username\<close> served by the budget module (\<^verbatim>\<open>modules/budget\<close>). The worker's
  outside world is the budget module's state.
\<close>

definition verdict_json :: "string \<Rightarrow> over_reason option \<Rightarrow> json" where
  "verdict_json u r = JObj [(''username'', JStr u), (''exceeded'', JBool (r \<noteq> None)),
     (''reason'', case r of None \<Rightarrow> JNull | Some x \<Rightarrow> JStr (reason_string x))]"

definition budget_endpoint ::
  "'w budget_services \<Rightarrow> string \<Rightarrow> (string \<times> string \<times> int) list \<Rightarrow> 'w budget_server \<Rightarrow> json option \<times> 'w budget_server" where
  "budget_endpoint B u os s = (case api_check B u os s of
     (Inr (Verdict v r), t) \<Rightarrow> (Some (verdict_json v r), t) | (_, t) \<Rightarrow> (None, t))"

definition billed :: "string \<Rightarrow> (string \<times> string \<times> int) list \<Rightarrow> 'w budget_server \<Rightarrow> 'w budget_server" where
  "billed u os s = s\<lparr>uses := fold (\<lambda>(i, t, created). stmt_open i u t created) os (uses s)\<rparr>"

lemma open_each: "for_each os (\<lambda>(i, t, created). openSession i u t created) s = (Inr (), billed u os s)"
  by (induction os arbitrary: s) (auto simp: andthen_run openSession_def billed_def)

lemma api_check_run:
  assumes "clock B = (\<lambda>w. (now, w))"
  shows "api_check B u os s = (Inr (Verdict u (over_budget u now (billed u os s))), billed u os s)"
  by (simp add: api_check_def andthen_run open_each bnd_run verdict_is_over_budget_run [OF assms])

lemma error_names:
  "budgetErrorFor (Some (reason_string x)) u = BudgetExceeded (error_by_reason x) u"
  by (cases x) (simp_all add: budgetErrorFor_def ERROR_BY_REASON_def reason_string_def error_by_reason_def)

lemma budgetVerdict_served:
  assumes "budgetResponse M = budget_endpoint B" and "clock B = (\<lambda>w. (now, w))"
    and "t = billed u (open_of (storedUsername u) (sessions s)) (outer s)"
  shows "budgetVerdict M u s = (Inr (over_budget u now t \<noteq> None, map_option reason_string (over_budget u now t)), s\<lparr>outer := t\<rparr>)"
  by (auto simp: budgetVerdict_def bnd_run openSessions_run outer_call_def state_act_run assms(1,3) budget_endpoint_def
      api_check_run [OF assms(2)] check_verdict_def verdict_json_def split: option.splits)

text \<open>C18: The worker refuses exactly the requests the budget module says are over budget, for the reason it gives,
  and the user's sessions that are open at that moment are billed in that verdict even when their announcements
  have not arrived: a first request is refused with the matching error if the user is over budget once those
  sessions are on the books, and otherwise it is not refused by the budget.\<close>

theorem request_follows_verdict:
  assumes "budgetResponse M = budget_endpoint B" and "clock B = (\<lambda>w. (now, w))"
    and "i = None \<or> find (\<lambda>r. ws_id r = the i) (sessions s) = None" and "it \<in> set (instanceTypeIds M)"
    and "i = None \<or> i = Some [] \<or> UUID_test (the i)"
    and "t = (outer s)\<lparr>uses := fold (\<lambda>(j, ty, created). stmt_open j u ty created)
      (open_of (storedUsername u) (sessions s)) (uses (outer s))\<rparr>"
  shows "(case over_budget u now t of
      Some x \<Rightarrow> requestSession M P u wt it i s = (Inl (BudgetExceeded (error_by_reason x) u), s\<lparr>outer := t\<rparr>)
    | None \<Rightarrow> fst (requestSession M P u wt it i s) \<noteq> Inl (BudgetExceeded name v))"
proof -
  have t: "t = billed u (open_of (storedUsername u) (sessions s)) (outer s)" by (simp add: assms(6) billed_def)
  have first: "repeatedRequest u i s = (Inr None, s)"
    using assms(3) by (cases i) (auto simp: repeatedRequest_def bnd_run findSession_def select_sessions_def)
  note verdict' = budgetVerdict_served [OF assms(1,2) t]
  show ?thesis
  proof (cases "over_budget u now t")
    case (Some x)
    then show ?thesis
      using assms(4,5) error_names [of x u]
      by (auto simp: requestSession_def requestSession_command_def bnd_run first verdict')
  next
    case None
    have inserted: "insert_session r s' = (if ws_id r \<in> ws_id ` set (sessions s') then (Inl (OtherError ''ER_DUP_ENTRY''), s')
        else (Inr (), s'\<lparr>sessions := sessions s' @ [r\<lparr>ws_username := storedUsername (ws_username r)\<rparr>]\<rparr>))"
      for r and s' :: "'a budget_server session_server"
      by (simp add: insert_session_def bnd_run select_sessions_def)
    with None show ?thesis
      using assms(4,5)
      by (auto simp: requestSession_def requestSession_command_def bnd_run andthen_run first verdict' outer_call_def
          state_act_run emit_def Let_def inserted split: option.splits prod.splits sum.splits if_splits)
  qed
qed


definition joint_services :: "unit budget_server manager_services" where
  "joint_services = \<lparr>dbNow = (\<lambda>w. (0, w)), processClock = (\<lambda>w. (0, w)),
     instanceTypeIds = [''T3aSmall''], randomUUID = (\<lambda>w. (''u1'', w)), generateSessionKey = (\<lambda>w. (''key'', w)),
     requestInstance = (\<lambda>s w. (Some (''i-1'', None), w)), releaseInstance = (\<lambda>j i w. (True, w)),
     probeInstances = (\<lambda>ss w. (Some [], w)), isProvisioning = (\<lambda>j w. False), reprovision = (\<lambda>s w. w),
     budgetResponse = budget_endpoint (month_services 0), isLocked = (\<lambda>u w. False)\<rparr>"

lemma bob_over: "over_budget ''bob'' 0 month_server = Some INSTANCE_BUDGET"
proof -
  have "0 \<le> instance_cost ''bob'' 0 (uses month_server)"
    by (simp add: instance_cost_def month_server_def hourlyCost_def HOURLY_COST_BY_INSTANCE_TYPE_def hoursToCharge_overlap)
  then show ?thesis by (simp add: over_budget_def budget_in_def month_server_def budget_for_def)
qed

theorem request_follows_verdict_witness:
  "requestSession joint_services lab_policy ''bob'' ''sandbox'' ''T3aSmall'' None (new_server month_server)
     = (Inl (BudgetExceeded ''InstanceBudgetExceeded'' ''bob''), new_server month_server)"
proof -
  let ?s = "new_server month_server"
  have M: "budgetResponse joint_services = budget_endpoint (month_services 0)" "''T3aSmall'' \<in> set (instanceTypeIds joint_services)"
    by (simp_all add: joint_services_def)
  have "month_server = (outer ?s)\<lparr>uses := fold (\<lambda>(j, ty, created). stmt_open j ''bob'' ty created)
      (open_of (storedUsername ''bob'') (sessions ?s)) (uses (outer ?s))\<rparr>"
    by (simp add: new_server_def open_of_def)
  from request_follows_verdict [OF M(1) month_frozen _ M(2) _ this, of None] bob_over
  show ?thesis by (simp add: error_by_reason_def new_server_def)
qed

end
