(* ===== verification/Interleaving.thy ===== *)
theory Interleaving
  imports Prelude
begin

text \<open>
  Asynchronous functions that run side by side in one process. An \<^verbatim>\<open>async\<close> function runs without
  interruption from one \<^verbatim>\<open>await\<close> to the next; at an \<^verbatim>\<open>await\<close> any other function may run. A program
  here is what is left of such a function: a result, or an awaited operation and the continuation
  it picks. Run alone a program is an action of the prelude (\<open>run\<close>); run among others it takes its
  steps in any order (\<open>steps\<close>). The last section states how an invariant over the world and over
  what each program knows survives every interleaving.
\<close>

section \<open>Programs\<close>

datatype ('w, 'e, 'a) prog =
    Finished "'e + 'a"
  | Await "'w \<Rightarrow> 'w \<times> ('w, 'e, 'a) prog"

named_theorems prog_simps \<open>running the combinators of programs\<close>

definition await :: "('w, 'e, 'a) act \<Rightarrow> ('w, 'e, 'a) prog" where
  "await m = Await (\<lambda>w. case m w of (r, w') \<Rightarrow> (w', Finished r))"

definition pret :: "'a \<Rightarrow> ('w, 'e, 'a) prog" where
  "pret a = Finished (Inr a)"

definition pthrow :: "'e \<Rightarrow> ('w, 'e, 'a) prog" where
  "pthrow e = Finished (Inl e)"

primrec pcont :: "('w, 'e, 'a) prog \<Rightarrow> ('e + 'a \<Rightarrow> ('w, 'f, 'b) prog) \<Rightarrow> ('w, 'f, 'b) prog" where
  "pcont (Finished r) f = f r"
| "pcont (Await op) f = Await (map_prod id (\<lambda>p. pcont p f) \<circ> op)"

definition pbind :: "('w, 'e, 'a) prog \<Rightarrow> ('a \<Rightarrow> ('w, 'e, 'b) prog) \<Rightarrow> ('w, 'e, 'b) prog" where
  "pbind p f = pcont p (case_sum pthrow f)"

definition pcatch :: "('w, 'e, 'a) prog \<Rightarrow> ('e \<Rightarrow> ('w, 'e, 'a) prog) \<Rightarrow> ('w, 'e, 'a) prog" where
  "pcatch p h = pcont p (case_sum h pret)"

definition pfinally :: "('w, 'e, 'a) prog \<Rightarrow> ('w, 'e, unit) prog \<Rightarrow> ('w, 'e, 'a) prog" where
  "pfinally p q = pcont p (\<lambda>r. pcont q (case_sum pthrow (\<lambda>_. Finished r)))"

abbreviation pthen :: "('w, 'e, 'a) prog \<Rightarrow> ('w, 'e, 'b) prog \<Rightarrow> ('w, 'e, 'b) prog" where
  "pthen p q \<equiv> pbind p (\<lambda>_. q)"

fun pfor_each :: "'a list \<Rightarrow> ('a \<Rightarrow> ('w, 'e, unit) prog) \<Rightarrow> ('w, 'e, unit) prog" where
  "pfor_each [] f = pret ()"
| "pfor_each (x # xs) f = pthen (f x) (pfor_each xs f)"

section \<open>A program alone\<close>

primrec run :: "('w, 'e, 'a) prog \<Rightarrow> ('w, 'e, 'a) act" where
  "run (Finished r) = (\<lambda>w. (r, w))"
| "run (Await op) = (\<lambda>w. case (map_prod id run \<circ> op) w of (w', m) \<Rightarrow> m w')"

lemma run_await [prog_simps, simp]: "run (await m) = m"
  by (rule ext) (simp add: await_def split: prod.splits)

lemma run_pret [prog_simps, simp]: "run (pret a) = ret a"
  by (rule ext) (simp add: pret_def)

lemma run_pthrow [prog_simps, simp]: "run (pthrow e) = throw e"
  by (rule ext) (simp add: pthrow_def)

lemma run_pcont: "run (pcont p f) w = (case run p w of (r, w') \<Rightarrow> run (f r) w')"
proof (induction p arbitrary: w)
  case (Await op)
  obtain w' p where op: "op w = (w', p)" by fastforce
  then have "run (pcont p f) w' = (case run p w' of (r, v) \<Rightarrow> run (f r) v)"
    using Await.IH [OF rangeI, of p w] by (simp add: op snds.simps)
  with op show ?case by simp
qed simp

lemma run_pbind [prog_simps]: "run (pbind p f) = bnd (run p) (\<lambda>a. run (f a))"
  by (rule ext) (auto simp: pbind_def run_pcont bnd_run split: prod.splits sum.splits)

lemma run_pcatch [prog_simps]: "run (pcatch p h) = catching (run p) (\<lambda>e. run (h e))"
  by (rule ext) (auto simp: pcatch_def run_pcont catching_run split: prod.splits sum.splits)

lemma run_pfinally [prog_simps]: "run (pfinally p q) = finally_do (run p) (run q)"
  by (rule ext) (auto simp: pfinally_def run_pcont finally_do_run split: prod.splits sum.splits)

lemma run_pfor_each [prog_simps]: "run (pfor_each xs f) = for_each xs (\<lambda>x. run (f x))"
  by (induction xs) (simp_all add: run_pbind andthen_def)

text \<open>What a program run alone does to the world: the rules of \<open>evolution\<close> for programs.\<close>

abbreviation does :: "('w \<Rightarrow> 'w \<Rightarrow> bool) \<Rightarrow> ('w, 'e, 'a) prog \<Rightarrow> bool" where
  "does Q p \<equiv> runs_in Q (run p)"

context evolution
begin

lemma does_pret [intro!]: "does Q (pret a)"
  by (simp add: runs_in_ret)

lemma does_pthrow [intro!]: "does Q (pthrow e)"
  by (simp add: runs_in_throw)

lemma does_await: "runs_in Q m \<Longrightarrow> does Q (await m)"
  by simp

lemma does_pbind [intro]: "does Q p \<Longrightarrow> (\<And>a. does Q (f a)) \<Longrightarrow> does Q (pbind p f)"
  by (simp add: run_pbind runs_in_bnd)

lemma does_pcatch [intro]: "does Q p \<Longrightarrow> (\<And>e. does Q (h e)) \<Longrightarrow> does Q (pcatch p h)"
  by (simp add: run_pcatch runs_in_catching)

lemma does_pfinally [intro]: "does Q p \<Longrightarrow> does Q q \<Longrightarrow> does Q (pfinally p q)"
  by (simp add: run_pfinally runs_in_finally)

lemma does_pfor_each [intro]: "(\<And>x. x \<in> set xs \<Longrightarrow> does Q (f x)) \<Longrightarrow> does Q (pfor_each xs f)"
  by (simp add: run_pfor_each runs_in_for_each)

lemma does_if [intro]: "(c \<Longrightarrow> does Q p) \<Longrightarrow> (\<not> c \<Longrightarrow> does Q q) \<Longrightarrow> does Q (if c then p else q)"
  by simp

end

section \<open>Programs side by side\<close>

inductive steps_one ::
  "('w \<times> ('k \<Rightarrow> ('w, 'e, 'a) prog)) \<Rightarrow> ('w \<times> ('k \<Rightarrow> ('w, 'e, 'a) prog)) \<Rightarrow> bool" where
  step: "\<lbrakk>ps k = Await op; op w = (w', p')\<rbrakk> \<Longrightarrow> steps_one (w, ps) (w', ps(k := p'))"

inductive steps ::
  "('w \<times> ('k \<Rightarrow> ('w, 'e, 'a) prog)) \<Rightarrow> ('w \<times> ('k \<Rightarrow> ('w, 'e, 'a) prog)) \<Rightarrow> bool" where
  refl: "steps c c"
| more: "\<lbrakk>steps c d; steps_one d e\<rbrakk> \<Longrightarrow> steps c e"

inductive_cases steps_oneE: "steps_one (w, ps) d"

text \<open>A schedule names the programs in the order in which they take their steps.\<close>

fun follow :: "'k list \<Rightarrow> 'w \<times> ('k \<Rightarrow> ('w, 'e, 'a) prog) \<Rightarrow> 'w \<times> ('k \<Rightarrow> ('w, 'e, 'a) prog)" where
  "follow [] c = c"
| "follow (k # ks) (w, ps) = follow ks (case ps k of
     Finished r \<Rightarrow> (w, ps)
   | Await op \<Rightarrow> (case op w of (w', p') \<Rightarrow> (w', ps(k := p'))))"

lemma steps_trans: "steps d e \<Longrightarrow> steps c d \<Longrightarrow> steps c e"
  by (induction rule: steps.induct) (auto intro: steps.more)

lemma follow_steps: "steps c (follow ks c)"
proof (induction ks arbitrary: c)
  case (Cons k ks)
  obtain w ps where c: "c = (w, ps)" by fastforce
  show ?case
  proof (cases "ps k")
    case (Await op)
    obtain w' p' where op: "op w = (w', p')" by fastforce
    with Await have "steps c (w', ps(k := p'))"
      unfolding c by (intro steps.more [OF steps.refl] steps_one.step)
    with Cons.IH [of "(w', ps(k := p'))"] op Await show ?thesis by (auto simp: c intro: steps_trans)
  qed (simp add: c Cons.IH)
qed (simp add: steps.refl)

section \<open>Invariants of every interleaving\<close>

text \<open>
  \<open>knows k g\<close> describes what program \<open>k\<close> may rely on. A program abides by an invariant \<open>Inv\<close> over
  the world and the knowledge of all programs when each of its steps, taken while \<open>Inv\<close> holds,
  restores \<open>Inv\<close> after changing its own knowledge only.
\<close>

primrec abides ::
  "('w \<Rightarrow> ('k \<Rightarrow> 'g) \<Rightarrow> bool) \<Rightarrow> 'k \<Rightarrow> ('e + 'a \<Rightarrow> 'g \<Rightarrow> bool) \<Rightarrow> ('w, 'e, 'a) prog \<Rightarrow> 'g \<Rightarrow> bool" where
  "abides Inv k Q (Finished r) = Q r"
| "abides Inv k Q (Await op) = (\<lambda>g. \<forall>w \<gamma>. Inv w \<gamma> \<longrightarrow> \<gamma> k = g \<longrightarrow>
     (case (map_prod id (abides Inv k Q) \<circ> op) w of
       (w', S) \<Rightarrow> \<exists>g'. Inv w' (\<gamma>(k := g')) \<and> S g'))"

lemma abides_weaken:
  assumes "\<And>r g. Q r g \<Longrightarrow> Q' r g" and "abides Inv k Q p g"
  shows "abides Inv k Q' p g"
  using assms(2)
proof (induction p arbitrary: g)
  case (Await op)
  show ?case
    unfolding abides.simps
  proof (intro allI impI)
    fix w \<gamma> assume inv: "Inv w \<gamma>" "\<gamma> k = g"
    obtain w' p where op: "op w = (w', p)" by fastforce
    from Await.prems inv op obtain g' where "Inv w' (\<gamma>(k := g'))" "abides Inv k Q p g'" by fastforce
    moreover have "abides Inv k Q' p g'"
      using Await.IH [OF rangeI, of p w] calculation(2) by (simp add: op snds.simps)
    ultimately show "case (map_prod id (abides Inv k Q') \<circ> op) w of
        (w', S) \<Rightarrow> \<exists>g'. Inv w' (\<gamma>(k := g')) \<and> S g'" using op by auto
  qed
qed (simp add: assms(1))

lemma abides_pcont:
  assumes "abides Inv k Q p g" and "\<And>r g. Q r g \<Longrightarrow> abides Inv k Q' (f r) g"
  shows "abides Inv k Q' (pcont p f) g"
  using assms(1)
proof (induction p arbitrary: g)
  case (Await op)
  show ?case
    unfolding abides.simps pcont.simps
  proof (intro allI impI)
    fix w \<gamma> assume inv: "Inv w \<gamma>" "\<gamma> k = g"
    obtain w' p where op: "op w = (w', p)" by fastforce
    from Await.prems inv op obtain g' where "Inv w' (\<gamma>(k := g'))" "abides Inv k Q p g'" by fastforce
    moreover have "abides Inv k Q' (pcont p f) g'"
      using Await.IH [OF rangeI, of p w] calculation(2) by (simp add: op snds.simps)
    ultimately show "case (map_prod id (abides Inv k Q') \<circ> (map_prod id (\<lambda>p. pcont p f) \<circ> op)) w of
        (w', S) \<Rightarrow> \<exists>g'. Inv w' (\<gamma>(k := g')) \<and> S g'" using op by auto
  qed
qed (simp add: assms(2))

lemma abides_await:
  assumes "\<And>w \<gamma> r w'. Inv w \<gamma> \<Longrightarrow> \<gamma> k = g \<Longrightarrow> m w = (r, w') \<Longrightarrow> \<exists>g'. Inv w' (\<gamma>(k := g')) \<and> Q r g'"
  shows "abides Inv k Q (await m) g"
  using assms by (auto simp: await_def split: prod.splits)

lemma abides_pret [simp]: "abides Inv k Q (pret a) g \<longleftrightarrow> Q (Inr a) g"
  by (simp add: pret_def)

lemma abides_pthrow [simp]: "abides Inv k Q (pthrow e) g \<longleftrightarrow> Q (Inl e) g"
  by (simp add: pthrow_def)

lemma abides_pbind:
  assumes "abides Inv k (case_sum (\<lambda>e. Q (Inl e)) R) p g"
    and "\<And>a g. R a g \<Longrightarrow> abides Inv k Q (f a) g"
  shows "abides Inv k Q (pbind p f) g"
  unfolding pbind_def
  by (rule abides_pcont [OF assms(1)]) (auto simp: assms(2) split: sum.splits)

lemma abides_pcatch:
  assumes "abides Inv k (case_sum R (\<lambda>a. Q (Inr a))) p g"
    and "\<And>e g. R e g \<Longrightarrow> abides Inv k Q (h e) g"
  shows "abides Inv k Q (pcatch p h) g"
  unfolding pcatch_def
  by (rule abides_pcont [OF assms(1)]) (auto simp: assms(2) split: sum.splits)

lemma abides_pfor_each:
  assumes "\<And>x g. x \<in> set xs \<Longrightarrow> L g \<Longrightarrow> abides Inv k (case_sum (\<lambda>e. Q (Inl e)) (\<lambda>_. L)) (f x) g"
    and "\<And>g. L g \<Longrightarrow> Q (Inr ()) g" and "L g"
  shows "abides Inv k Q (pfor_each xs f) g"
  using assms(1,3)
proof (induction xs arbitrary: g)
  case (Cons x xs)
  then show ?case by (auto intro!: abides_pbind [where R = "\<lambda>_. L"])
qed (simp add: assms(2))

theorem steps_respect:
  assumes "steps (w, ps) (w', ps')" and "Inv w \<gamma>" and "\<And>k. abides Inv k (Q k) (ps k) (\<gamma> k)"
  shows "\<exists>\<gamma>'. Inv w' \<gamma>' \<and> (\<forall>k. abides Inv k (Q k) (ps' k) (\<gamma>' k))"
  using assms
proof (induction "(w, ps)" "(w', ps')" arbitrary: w' ps' rule: steps.induct)
  case (more d)
  obtain v qs where d: "d = (v, qs)" by fastforce
  from more d obtain \<gamma>' where inv: "Inv v \<gamma>'" and each: "\<And>k. abides Inv k (Q k) (qs k) (\<gamma>' k)" by blast
  from more(3) [unfolded d] obtain k op p' where
    p: "qs k = Await op" "op v = (w', p')" and ps': "ps' = qs(k := p')" by (auto elim: steps_oneE)
  from each [of k] inv p obtain g' where "Inv w' (\<gamma>'(k := g'))" "abides Inv k (Q k) p' g'" by fastforce
  with each show ?case by (intro exI [of _ "\<gamma>'(k := g')"]) (auto simp: ps')
qed blast

lemma steps_respect_result:
  assumes "steps (w, ps) (w', ps')" and "Inv w \<gamma>" and "\<And>k. abides Inv k (Q k) (ps k) (\<gamma> k)"
  obtains \<gamma>' where "Inv w' \<gamma>'" and "\<And>k r. ps' k = Finished r \<Longrightarrow> Q k r (\<gamma>' k)"
proof -
  from steps_respect [OF assms] obtain \<gamma>'
    where inv: "Inv w' \<gamma>'" and all: "\<forall>k. abides Inv k (Q k) (ps' k) (\<gamma>' k)" by blast
  from all have "Q k r (\<gamma>' k)" if "ps' k = Finished r" for k r
    using that by (metis abides.simps(1))
  with inv that show thesis by blast
qed

end
