(* ===== verification/Instances.thy ===== *)
theory Instances
  imports Interleaving
begin

text \<open>
  The worker instances of the worker module and what keeps them: the instance object
  (\<^verbatim>\<open>modules/worker/src/workerInstance/workerInstance.js\<close>), the table of claims
  (\<^verbatim>\<open>claimRepository.js\<close>), the registry of provisions in flight (\<^verbatim>\<open>provisioningRegistry.js\<close>), the port
  of the hosting service (\<^verbatim>\<open>instanceProvider.js\<close>) and the in-memory hosting service of a development
  machine (\<^verbatim>\<open>hostingService/local/localInstanceProvider.js\<close>). The locale \<open>hosting_service\<close> states
  what the port promises; the local service is its interpretation.
\<close>

section \<open>Instances\<close>

record reservation =
  rv_username :: string
  rv_workerType :: string
  rv_sessionId :: "string option"

record worker_instance =
  wi_id :: string
  wi_type :: string
  wi_host :: "string option"
  wi_running :: bool
  wi_launchTime :: "int option"
  wi_reservation :: "reservation option"
  wi_daemonHost :: "string option"

definition createWorkerInstance ::
  "string \<Rightarrow> string \<Rightarrow> string option \<Rightarrow> bool \<Rightarrow> int option \<Rightarrow> reservation option \<Rightarrow> string option \<Rightarrow> worker_instance" where
  "createWorkerInstance i type host running launchTime res daemonHost =
     \<lparr>wi_id = i, wi_type = type, wi_host = host, wi_running = running, wi_launchTime = launchTime,
      wi_reservation = res, wi_daemonHost = daemonHost\<rparr>"

definition isReserved :: "worker_instance \<Rightarrow> bool" where
  "isReserved x \<longleftrightarrow> wi_reservation x \<noteq> None"

definition isIdle :: "worker_instance \<Rightarrow> bool" where
  "isIdle x \<longleftrightarrow> \<not> isReserved x"

definition reserve :: "worker_instance \<Rightarrow> reservation \<Rightarrow> worker_instance" where
  "reserve x r = x\<lparr>wi_reservation := Some r\<rparr>"

definition unreserve :: "worker_instance \<Rightarrow> worker_instance" where
  "unreserve x = x\<lparr>wi_reservation := None\<rparr>"

text \<open>\<open>reservation?.sessionId\<close>\<close>

definition reservedSession :: "worker_instance \<Rightarrow> string option" where
  "reservedSession x = Option.bind (wi_reservation x) rv_sessionId"

lemma reserve_simps [simp]:
  "wi_id (reserve x r) = wi_id x" "wi_reservation (reserve x r) = Some r"
  "wi_id (unreserve x) = wi_id x" "wi_reservation (unreserve x) = None"
  by (simp_all add: reserve_def unreserve_def)

lemma createWorkerInstance_simps [simp]:
  "wi_id (createWorkerInstance i t h b l r d) = i" "wi_reservation (createWorkerInstance i t h b l r d) = r"
  "wi_type (createWorkerInstance i t h b l r d) = t" "wi_launchTime (createWorkerInstance i t h b l r d) = l"
  "wi_host (createWorkerInstance i t h b l r d) = h" "wi_running (createWorkerInstance i t h b l r d) = b"
  "wi_daemonHost (createWorkerInstance i t h b l r d) = d"
  by (simp_all add: createWorkerInstance_def)

section \<open>The hosting service and the Docker provisioner\<close>

text \<open>
  The port of a hosting service over its own state \<open>'h\<close>, with the wall clock, the Docker provisioner
  and the two points at which a database statement can fail: before it runs (no connection) and
  after it has run (the answer is lost).
\<close>

record 'h hosting =
  launchReserved :: "string \<Rightarrow> reservation \<Rightarrow> ('h, string, worker_instance) act"
  launchIdle :: "string \<Rightarrow> nat \<Rightarrow> ('h, string, unit) act"
  launchPooled :: "nat \<Rightarrow> ('h, string, unit) act"
  pool :: "string \<Rightarrow> ('h, string, unit) act"
  startPooled :: "worker_instance \<Rightarrow> string \<Rightarrow> reservation \<Rightarrow> ('h, string, worker_instance) act"
  terminate :: "string \<Rightarrow> ('h, string, unit) act"
  attachScratchVolume :: "worker_instance \<Rightarrow> ('h, string, string option) act"
  deleteScratchVolume :: "string \<Rightarrow> ('h, string, unit) act"
  reserveAt :: "worker_instance \<Rightarrow> ('h, string, unit) act"
  releaseAt :: "string \<Rightarrow> ('h, string, unit) act"
  idleInstances :: "string option \<Rightarrow> ('h, string, worker_instance list) act"
  pooledInstances :: "bool \<Rightarrow> ('h, string, worker_instance list) act"
  reservedInstances :: "('h, string, worker_instance list) act"
  getInstance :: "string \<Rightarrow> ('h, string, worker_instance option) act"
  restore :: "worker_instance list \<Rightarrow> ('h, string, unit) act"
  awaitHost :: "worker_instance \<Rightarrow> ('h, string, worker_instance) act"
  sweep :: "('h, string, unit) act"
  undeploy :: "worker_instance \<Rightarrow> ('h, string, unit) act"
  provision_on :: "worker_instance \<Rightarrow> string option \<Rightarrow> ('h, string, unit) act"
  remove_orphans :: "string list \<Rightarrow> ('h, string, string list) act"
  connect :: "('h, string, unit) act"
  answer :: "('h, string, unit) act"
  wall_clock :: "'h \<Rightarrow> int"
  pause :: "int \<Rightarrow> 'h \<Rightarrow> 'h"

section \<open>The state of the component\<close>

record claim =
  cl_instance :: string
  cl_session :: string
  cl_time :: int

datatype instance_event =
    InstanceLaunched worker_instance
  | InstancePendingProvisioning worker_instance
  | InstanceProvisioned worker_instance
  | InstanceReleased worker_instance
  | FailedToProvisionInstance worker_instance string
  | FailedToReleaseInstance string string
  | FailedToRequestInstance string string string

record 'h instance_server =
  claim_rows :: "claim list"
  provisioning :: "string \<Rightarrow> string option option"
  releasing :: "string set"
  instance_events :: "instance_event list"
  outside :: 'h

type_synonym ('h, 'a) ins = "('h instance_server, string, 'a) prog"

definition at_outside :: "('h, string, 'a) act \<Rightarrow> ('h instance_server, string, 'a) act" where
  "at_outside m = (\<lambda>w. case m (outside w) of (r, h) \<Rightarrow> (r, w\<lparr>outside := h\<rparr>))"

definition hosted :: "('h, string, 'a) act \<Rightarrow> ('h, 'a) ins" where
  "hosted m = await (at_outside m)"

definition announce :: "instance_event \<Rightarrow> ('h, unit) ins" where
  "announce e = await (modify (\<lambda>w. w\<lparr>instance_events := instance_events w @ [e]\<rparr>))"

definition Date_now :: "('h, 'z) hosting_scheme \<Rightarrow> ('h, int) ins" where
  "Date_now H = await (gets (\<lambda>w. wall_clock H (outside w)))"

section \<open>The table of claims\<close>

definition withConnection :: "('h, 'z) hosting_scheme \<Rightarrow> ('h instance_server, string, 'a) act \<Rightarrow> ('h, 'a) ins" where
  "withConnection H m = await (andthen (at_outside (connect H))
     (bnd m (\<lambda>a. andthen (at_outside (answer H)) (ret a))))"

definition stmt_claim :: "int \<Rightarrow> string \<Rightarrow> string \<Rightarrow> claim list \<Rightarrow> bool \<times> claim list" where
  "stmt_claim n i s cs =
     (if i \<in> cl_instance ` set cs then (False, cs)
      else (True, cs @ [\<lparr>cl_instance = i, cl_session = s, cl_time = n\<rparr>]))"

definition names_claim :: "string \<Rightarrow> string \<Rightarrow> claim \<Rightarrow> bool" where
  "names_claim i s c \<longleftrightarrow> cl_instance c = i \<and> cl_session c = s"

definition claim_insert :: "('h, 'z) hosting_scheme \<Rightarrow> string \<Rightarrow> string \<Rightarrow> ('h, bool) ins" where
  "claim_insert H i s = withConnection H (state_act (\<lambda>w.
     case stmt_claim (wall_clock H (outside w)) i s (claim_rows w) of (b, cs) \<Rightarrow> (b, w\<lparr>claim_rows := cs\<rparr>)))"

definition claim_release :: "('h, 'z) hosting_scheme \<Rightarrow> string \<Rightarrow> string \<Rightarrow> ('h, bool) ins" where
  "claim_release H i s = withConnection H (state_act (\<lambda>w.
     (list_ex (names_claim i s) (claim_rows w), w\<lparr>claim_rows := sql_delete (names_claim i s) (claim_rows w)\<rparr>)))"

definition all_claims :: "('h, 'z) hosting_scheme \<Rightarrow> ('h, claim list) ins" where
  "all_claims H = withConnection H (gets claim_rows)"

definition claims_keyed :: "claim list \<Rightarrow> bool" where
  "claims_keyed cs \<longleftrightarrow> distinct (map cl_instance cs)"

lemma claims_keyed_claim: "claims_keyed cs \<Longrightarrow> claims_keyed (snd (stmt_claim n i s cs))"
  by (auto simp: claims_keyed_def stmt_claim_def)

lemma claims_keyed_delete: "claims_keyed cs \<Longrightarrow> claims_keyed (sql_delete P cs)"
  unfolding claims_keyed_def sql_delete_def by (rule distinct_map_filter)

lemma claims_keyed_eq:
  "claims_keyed cs \<Longrightarrow> c \<in> set cs \<Longrightarrow> d \<in> set cs \<Longrightarrow> cl_instance c = cl_instance d \<Longrightarrow> c = d"
  unfolding claims_keyed_def distinct_map by (blast dest: inj_onD)

section \<open>Provisions in flight\<close>

text \<open>
  A program that is the body of \<open>run\<close> gets \<open>isCurrent\<close>. The entry is a session id or, when the
  reservation names none, \<open>undefined\<close> (\<open>Some None\<close>).
\<close>

definition registry_has :: "string \<Rightarrow> 'h instance_server \<Rightarrow> bool" where
  "registry_has i w \<longleftrightarrow> provisioning w i \<noteq> None"

definition isCurrent :: "string \<Rightarrow> string option \<Rightarrow> ('h, bool) ins" where
  "isCurrent i s = await (gets (\<lambda>w. provisioning w i = Some s))"

definition registry_enter :: "string \<Rightarrow> string option \<Rightarrow> ('h, bool) ins" where
  "registry_enter i s = await (state_act (\<lambda>w.
     if registry_has i w then (False, w) else (True, w\<lparr>provisioning := (provisioning w)(i \<mapsto> s)\<rparr>)))"

text \<open>\<open>Map.get\<close> answers \<open>undefined\<close> for a missing entry, so an \<open>undefined\<close> session deletes nothing new.\<close>

definition registry_leave :: "string \<Rightarrow> string option \<Rightarrow> ('h, unit) ins" where
  "registry_leave i s = await (modify (\<lambda>w.
     if provisioning w i = Some s then w\<lparr>provisioning := (provisioning w)(i := None)\<rparr> else w))"

definition registry_forget :: "string \<Rightarrow> ('h, unit) ins" where
  "registry_forget i = await (modify (\<lambda>w. w\<lparr>provisioning := (provisioning w)(i := None)\<rparr>))"

definition registry_run ::
  "string \<Rightarrow> string option \<Rightarrow> (('h, bool) ins \<Rightarrow> ('h, unit) ins) \<Rightarrow> ('h, bool) ins" where
  "registry_run i s f = pbind (registry_enter i s) (\<lambda>entered.
     if entered then pthen (pfinally (f (isCurrent i s)) (registry_leave i s)) (pret True)
     else pret False)"

section \<open>What a hosting service promises\<close>

text \<open>
  \<open>view h i\<close> is the instance \<open>i\<close> as the service knows it, \<open>fresh h i\<close> says that \<open>i\<close> may still
  become the id of a new instance, and \<open>sound h\<close> is what the service keeps of its own state. An
  operation leaves every reserved instance alone but the one it names; listings touch nothing and report what is there.
\<close>

definition evolves ::
  "('h \<Rightarrow> string \<Rightarrow> worker_instance option) \<Rightarrow> ('h \<Rightarrow> string \<Rightarrow> bool) \<Rightarrow> ('h \<Rightarrow> bool) \<Rightarrow> string set \<Rightarrow> 'h \<Rightarrow> 'h \<Rightarrow> bool" where
  "evolves view fresh sound I h h' \<longleftrightarrow> sound h' \<and> (\<forall>i. fresh h' i \<longrightarrow> fresh h i) \<and>
     (\<forall>i x. i \<notin> I \<longrightarrow> view h i = Some x \<longrightarrow> isReserved x \<longrightarrow>
        map_option wi_reservation (view h' i) = Some (wi_reservation x))"

definition lists_idle :: "('h \<Rightarrow> string \<Rightarrow> worker_instance option) \<Rightarrow> 'h \<Rightarrow> worker_instance list \<Rightarrow> bool" where
  "lists_idle view h xs \<longleftrightarrow> (\<forall>x \<in> set xs. view h (wi_id x) = Some x \<and> wi_reservation x = None)"

locale hosting_service =
  fixes H :: "('h, 'z) hosting_scheme"
    and view :: "'h \<Rightarrow> string \<Rightarrow> worker_instance option"
    and fresh :: "'h \<Rightarrow> string \<Rightarrow> bool"
    and sound :: "'h \<Rightarrow> bool"
  assumes known_not_fresh: "sound h \<Longrightarrow> view h i \<noteq> None \<Longrightarrow> \<not> fresh h i"
    and idle_law: "sound h \<Longrightarrow> idleInstances H kind h = (ri, h') \<Longrightarrow>
      evolves view fresh sound {} h h' \<and> (\<forall>xs. ri = Inr xs \<longrightarrow> lists_idle view h' xs)"
    and pooled_law: "sound h \<Longrightarrow> pooledInstances H b h = (rp, h') \<Longrightarrow>
      evolves view fresh sound {} h h' \<and> (\<forall>xs. rp = Inr xs \<longrightarrow> lists_idle view h' xs)"
    and reserve_law: "sound h \<Longrightarrow> \<not> fresh h (wi_id x) \<Longrightarrow> reserveAt H x h = (rr, h') \<Longrightarrow>
      evolves view fresh sound {wi_id x} h h' \<and> (rr = Inr () \<longrightarrow> view h' (wi_id x) = Some x)"
    and await_law: "sound h \<Longrightarrow> awaitHost H x h = (ra, h') \<Longrightarrow> evolves view fresh sound {} h h' \<and>
      (\<forall>y. ra = Inr y \<longrightarrow> wi_id y = wi_id x \<and> wi_reservation y = wi_reservation x)"
    and launch_law: "sound h \<Longrightarrow> launchReserved H t res h = (rl, h') \<Longrightarrow>
      evolves view fresh sound {} h h' \<and> (\<forall>x. rl = Inr x \<longrightarrow>
        fresh h (wi_id x) \<and> \<not> fresh h' (wi_id x) \<and> view h' (wi_id x) = Some x \<and> wi_reservation x = Some res)"
    and start_law: "sound h \<Longrightarrow> \<not> fresh h (wi_id x) \<Longrightarrow> startPooled H x t res h = (rs, h') \<Longrightarrow>
      evolves view fresh sound {wi_id x} h h' \<and> (\<forall>y. rs = Inr y \<longrightarrow>
        wi_id y = wi_id x \<and> view h' (wi_id x) = Some y \<and> wi_reservation y = Some res)"
    and launchIdle_law: "sound h \<Longrightarrow> launchIdle H t n h = (ru, h') \<Longrightarrow> evolves view fresh sound {} h h'"
    and launchPooled_law: "sound h \<Longrightarrow> launchPooled H n h = (ru, h') \<Longrightarrow> evolves view fresh sound {} h h'"
    and pool_law: "sound h \<Longrightarrow> pool H i h = (ru, h') \<Longrightarrow> evolves view fresh sound {i} h h'"
    and terminate_law: "sound h \<Longrightarrow> terminate H i h = (ru, h') \<Longrightarrow> evolves view fresh sound {i} h h'"
    and sweep_law: "sound h \<Longrightarrow> sweep H h = (ru, h') \<Longrightarrow> evolves view fresh sound {} h h'"
    and connect_law: "sound h \<Longrightarrow> connect H h = (ru, h') \<Longrightarrow> evolves view fresh sound {} h h'"
    and answer_law: "sound h \<Longrightarrow> answer H h = (ru, h') \<Longrightarrow> evolves view fresh sound {} h h'"

section \<open>The hosting service of a development machine\<close>

definition LOCAL_HOST :: string where
  "LOCAL_HOST = ''host.docker.internal''"

text \<open>
  The in-memory map in insertion order, the supply of random ids, the clock, the instances whose
  launch listeners have not run yet, and the answers the database and the Docker daemon will give.
\<close>

record local_state =
  workerInstanceById :: "worker_instance list"
  randomUUIDs :: "nat \<Rightarrow> string"
  nextUUID :: nat
  local_clock :: int
  launched :: "worker_instance list"
  outages :: "bool list"

definition set_instance :: "worker_instance \<Rightarrow> worker_instance list \<Rightarrow> worker_instance list" where
  "set_instance x xs =
     (if wi_id x \<in> wi_id ` set xs then map (\<lambda>y. if wi_id y = wi_id x then x else y) xs else xs @ [x])"

definition updateInstance :: "worker_instance \<Rightarrow> local_state \<Rightarrow> local_state" where
  "updateInstance x h = h\<lparr>workerInstanceById := set_instance x (workerInstanceById h)\<rparr>"

definition local_get :: "local_state \<Rightarrow> string \<Rightarrow> worker_instance option" where
  "local_get h i = find (\<lambda>x. wi_id x = i) (workerInstanceById h)"

definition local_launch ::
  "string \<Rightarrow> reservation option \<Rightarrow> local_state \<Rightarrow> worker_instance \<times> local_state" where
  "local_launch type res h =
     (let i = randomUUIDs h (nextUUID h);
          x = createWorkerInstance i type (Some i) True (Some (local_clock h)) res (Some LOCAL_HOST);
          h' = updateInstance x (h\<lparr>nextUUID := Suc (nextUUID h)\<rparr>)
      in (x, h'\<lparr>launched := launched h' @ [x]\<rparr>))"

definition local_launchReserved :: "string \<Rightarrow> reservation \<Rightarrow> (local_state, string, worker_instance) act" where
  "local_launchReserved type res = state_act (local_launch type (Some res))"

definition local_launchIdle :: "string \<Rightarrow> nat \<Rightarrow> (local_state, string, unit) act" where
  "local_launchIdle type n = bnd (state_act (local_launch type None)) (\<lambda>_. ret ())"

definition local_terminate :: "string \<Rightarrow> (local_state, string, unit) act" where
  "local_terminate i = modify (\<lambda>h. h\<lparr>workerInstanceById := filter (\<lambda>x. wi_id x \<noteq> i) (workerInstanceById h)\<rparr>)"

definition local_reserve :: "worker_instance \<Rightarrow> (local_state, string, unit) act" where
  "local_reserve x = modify (updateInstance x)"

definition local_release :: "string \<Rightarrow> (local_state, string, unit) act" where
  "local_release i = modify (\<lambda>h. case local_get h i of None \<Rightarrow> h | Some x \<Rightarrow> updateInstance (unreserve x) h)"

definition local_idle :: "string option \<Rightarrow> (local_state, string, worker_instance list) act" where
  "local_idle type = gets (\<lambda>h. filter isIdle (workerInstanceById h))"

definition local_reserved :: "(local_state, string, worker_instance list) act" where
  "local_reserved = gets (\<lambda>h. filter isReserved (workerInstanceById h))"

fun restore_into :: "worker_instance list \<Rightarrow> local_state \<Rightarrow> local_state" where
  "restore_into [] h = h"
| "restore_into (x # xs) h = restore_into xs
     (if wi_id x \<noteq> [] \<and> local_get h (wi_id x) = None
      then h\<lparr>workerInstanceById := workerInstanceById h @ [x\<lparr>wi_daemonHost := Some LOCAL_HOST\<rparr>]\<rparr> else h)"

definition unsupported :: "string \<Rightarrow> (local_state, string, 'a) act" where
  "unsupported operation = throw (operation @ '' is not supported by the local hosting service'')"

text \<open>Each use of the database or the Docker daemon consumes an answer: \<open>True\<close> is a failure.\<close>

definition local_outage :: "string \<Rightarrow> (local_state, string, unit) act" where
  "local_outage message = (\<lambda>h. case outages h of
     [] \<Rightarrow> (Inr (), h)
   | b # bs \<Rightarrow> (if b then Inl message else Inr (), h\<lparr>outages := bs\<rparr>))"

definition local_hosting :: "local_state hosting" where
  "local_hosting = \<lparr>
     launchReserved = local_launchReserved,
     launchIdle = local_launchIdle,
     launchPooled = (\<lambda>_. unsupported ''launchPooled''),
     pool = (\<lambda>_. unsupported ''pool''),
     startPooled = (\<lambda>_ _ _. unsupported ''startPooled''),
     terminate = local_terminate,
     attachScratchVolume = (\<lambda>_. ret None),
     deleteScratchVolume = (\<lambda>_. ret ()),
     reserveAt = local_reserve,
     releaseAt = local_release,
     idleInstances = local_idle,
     pooledInstances = (\<lambda>_. ret []),
     reservedInstances = local_reserved,
     getInstance = (\<lambda>i. gets (\<lambda>h. local_get h i)),
     restore = (\<lambda>xs. modify (restore_into xs)),
     awaitHost = ret,
     sweep = ret (),
     undeploy = (\<lambda>_. local_outage ''undeploy''),
     provision_on = (\<lambda>_ _. local_outage ''provision''),
     remove_orphans = (\<lambda>_. bnd (local_outage ''docker'') (\<lambda>_. ret [])),
     connect = local_outage ''connect'',
     answer = local_outage ''answer'',
     wall_clock = local_clock,
     pause = (\<lambda>ms h. h\<lparr>local_clock := local_clock h + ms\<rparr>)\<rparr>"

section \<open>The local service keeps the promises\<close>

definition local_fresh :: "local_state \<Rightarrow> string \<Rightarrow> bool" where
  "local_fresh h i \<longleftrightarrow> i \<in> randomUUIDs h ` {nextUUID h..}"

definition local_sound :: "local_state \<Rightarrow> bool" where
  "local_sound h \<longleftrightarrow> inj (randomUUIDs h) \<and> distinct (map wi_id (workerInstanceById h)) \<and>
     (\<forall>i. local_get h i \<noteq> None \<longrightarrow> \<not> local_fresh h i)"

lemma map_set_instance [simp]:
  "map wi_id (set_instance x xs) = map wi_id xs @ (if wi_id x \<in> wi_id ` set xs then [] else [wi_id x])"
  by (auto simp: set_instance_def)

lemma find_set_instance:
  "find (\<lambda>y. wi_id y = i) (set_instance x xs) = (if i = wi_id x then Some x else find (\<lambda>y. wi_id y = i) xs)"
proof -
  have "find (\<lambda>y. wi_id y = i) (map (\<lambda>y. if wi_id y = wi_id x then x else y) xs) =
      (if i = wi_id x \<and> wi_id x \<in> wi_id ` set xs then Some x else find (\<lambda>y. wi_id y = i) xs)"
    by (induction xs) auto
  moreover have "find (\<lambda>y. wi_id y = wi_id x) xs = None" if "wi_id x \<notin> wi_id ` set xs"
    using that by (auto simp: find_None_key image_iff)
  ultimately show ?thesis by (cases "find (\<lambda>y. wi_id y = i) xs") (auto simp: set_instance_def find_append)
qed

lemma local_get_update [simp]:
  "local_get (updateInstance x h) i = (if i = wi_id x then Some x else local_get h i)"
  by (simp add: local_get_def updateInstance_def find_set_instance)

lemma local_get_terminate:
  "local_get (h\<lparr>workerInstanceById := filter (\<lambda>x. wi_id x \<noteq> i) (workerInstanceById h)\<rparr>) j =
     (if j = i then None else local_get h j)"
proof -
  have "find (\<lambda>x. wi_id x = j) (filter (\<lambda>x. wi_id x \<noteq> i) xs) = (if j = i then None else find (\<lambda>x. wi_id x = j) xs)"
    for xs by (induction xs) auto
  from this [of "workerInstanceById h"] show ?thesis by (simp add: local_get_def)
qed

lemma local_get_in:
  "local_sound h \<Longrightarrow> x \<in> set (workerInstanceById h) \<Longrightarrow> local_get h (wi_id x) = Some x"
  unfolding local_sound_def local_get_def by (rule find_key) auto

lemma local_simps [simp]:
  "nextUUID (updateInstance x h) = nextUUID h" "randomUUIDs (updateInstance x h) = randomUUIDs h" "launched (updateInstance x h) = launched h"
  "local_clock (updateInstance x h) = local_clock h" "outages (updateInstance x h) = outages h"
  "workerInstanceById (updateInstance x h) = set_instance x (workerInstanceById h)"
  by (simp_all add: updateInstance_def)

lemma local_fresh_less: "inj (randomUUIDs h) \<Longrightarrow> n < nextUUID h \<Longrightarrow> \<not> local_fresh h (randomUUIDs h n)"
  by (auto simp: local_fresh_def dest: injD)

lemma local_fresh_same: "nextUUID h' = nextUUID h \<Longrightarrow> randomUUIDs h' = randomUUIDs h \<Longrightarrow> local_fresh h' = local_fresh h"
  by (rule ext) (simp add: local_fresh_def)

abbreviation local_evolves :: "string set \<Rightarrow> local_state \<Rightarrow> local_state \<Rightarrow> bool" where
  "local_evolves \<equiv> evolves local_get local_fresh local_sound"

lemma evolves_refl [simp]: "evolves view fresh sound I h h \<longleftrightarrow> sound h"
  by (auto simp: evolves_def)

lemma local_update_evolves:
  assumes "local_sound h" and "\<not> local_fresh h (wi_id x)"
  shows "local_evolves {wi_id x} h (updateInstance x h)"
proof -
  have "local_fresh (updateInstance x h) = local_fresh h" by (rule local_fresh_same) simp_all
  with assms show ?thesis by (auto simp: evolves_def local_sound_def)
qed

lemma local_terminate_evolves:
  assumes "local_sound h" and "local_terminate i h = (r, h')"
  shows "local_evolves {i} h h'"
proof -
  have h': "h' = h\<lparr>workerInstanceById := filter (\<lambda>x. wi_id x \<noteq> i) (workerInstanceById h)\<rparr>"
    using assms(2) by (simp add: local_terminate_def)
  then have "local_fresh h' = local_fresh h" by (intro local_fresh_same) simp_all
  with assms(1) show ?thesis
    by (auto simp: evolves_def h' local_get_terminate local_sound_def intro: distinct_map_filter)
qed

lemma local_launch_evolves:
  assumes "local_sound h" and "local_launch t res h = (x, h')"
  shows "local_evolves {} h h'"
    and "local_fresh h (wi_id x)" "\<not> local_fresh h' (wi_id x)"
    and "local_get h' (wi_id x) = Some x" "wi_reservation x = res"
proof -
  let ?i = "randomUUIDs h (nextUUID h)"
  have new: "local_fresh h ?i" by (auto simp: local_fresh_def)
  have none: "local_get h ?i = None" using assms(1) new by (auto simp: local_sound_def)
  have h': "local_get h' i = (if i = ?i then Some x else local_get h i)"
    "nextUUID h' = Suc (nextUUID h)" "randomUUIDs h' = randomUUIDs h" "wi_id x = ?i" "wi_reservation x = res"
    "workerInstanceById h' = set_instance x (workerInstanceById h)" for i
    using assms(2) by (auto simp: local_launch_def Let_def local_get_def updateInstance_def find_set_instance)
  from new show "local_fresh h (wi_id x)" "local_get h' (wi_id x) = Some x" "wi_reservation x = res"
    by (simp_all add: h')
  show old: "\<not> local_fresh h' (wi_id x)"
    using assms(1) local_fresh_less [of h' "nextUUID h"] by (simp add: h' local_sound_def)
  have mono: "local_fresh h' i \<Longrightarrow> local_fresh h i" for i by (auto simp: local_fresh_def h'(2,3))
  have "local_sound h'"
    using assms(1) old mono by (auto simp: local_sound_def h' split: if_splits)
  then show "local_evolves {} h h'" using mono none by (auto simp: evolves_def h'(1))
qed

lemma local_outage_evolves:
  assumes "local_sound h" and "local_outage m h = (r, h')"
  shows "local_evolves I h h'"
proof -
  have "nextUUID h' = nextUUID h" "randomUUIDs h' = randomUUIDs h"
    "workerInstanceById h' = workerInstanceById h"
    using assms(2) by (auto simp: local_outage_def split: list.splits)
  moreover from this have "local_get h' = local_get h" "local_fresh h' = local_fresh h"
    by (auto simp: local_get_def local_fresh_def)
  ultimately show ?thesis using assms(1) by (auto simp: evolves_def local_sound_def)
qed

lemma local_lists_idle:
  assumes "local_sound h" and "local_idle kind h = (r, h')"
  shows "h' = h" and "r = Inr xs \<Longrightarrow> lists_idle local_get h xs"
  using assms by (auto simp: local_idle_def lists_idle_def isIdle_def isReserved_def intro: local_get_in)

interpretation local: hosting_service local_hosting local_get local_fresh local_sound
proof
  fix h h' :: local_state and i
  show "local_sound h \<Longrightarrow> local_get h i \<noteq> None \<Longrightarrow> \<not> local_fresh h i"
    by (auto simp: local_sound_def)
next
  fix h h' and kind and ri :: "string + worker_instance list"
  assume h: "local_sound h" and "idleInstances (local_hosting) kind h = (ri, h')"
  then have "local_idle kind h = (ri, h')" by (simp add: local_hosting_def)
  from local_lists_idle [OF h this] h
  show "local_evolves {} h h' \<and> (\<forall>xs. ri = Inr xs \<longrightarrow> lists_idle local_get h' xs)" by simp
next
  fix h h' and t :: string and res and rl :: "string + worker_instance"
  assume h: "local_sound h" and "launchReserved (local_hosting) t res h = (rl, h')"
  then obtain x where "rl = Inr x" "local_launch t (Some res) h = (x, h')"
    by (auto simp: local_hosting_def local_launchReserved_def state_act_run split: prod.splits)
  with local_launch_evolves [OF h this(2)]
  show "local_evolves {} h h' \<and> (\<forall>x. rl = Inr x \<longrightarrow> local_fresh h (wi_id x) \<and>
      \<not> local_fresh h' (wi_id x) \<and> local_get h' (wi_id x) = Some x \<and> wi_reservation x = Some res)" by auto
next
  fix h h' and t :: string and n and ru :: "string + unit"
  assume h: "local_sound h" and "launchIdle (local_hosting) t n h = (ru, h')"
  then have "local_launch t None h = (fst (local_launch t None h), h')"
    by (auto simp: local_hosting_def local_launchIdle_def state_act_run bnd_run split: prod.splits)
  from local_launch_evolves(1) [OF h this] show "local_evolves {} h h'" .
qed (auto simp: local_hosting_def local_reserve_def unsupported_def lists_idle_def
    intro: local_outage_evolves local_terminate_evolves local_update_evolves)

end
