(* ===== verification/InstanceCommands.thy ===== *)
theory InstanceCommands
  imports Instances "HOL-Library.Product_Lexorder"
begin

text \<open>
  The commands of the worker's instance component (\<^verbatim>\<open>modules/worker/src/workerInstance/command/*.js\<close>) and
  its wiring (\<^verbatim>\<open>workerInstance/index.js\<close>), each as a program: every \<^verbatim>\<open>await\<close> of the source is an
  awaited operation, so that the commands can be run to their end or interleaved. Announcing an event
  and asking \<open>isCurrent\<close> are awaited here although the source does not yield there; that only adds
  interleavings. Logging is left out.
\<close>

section \<open>Requesting an instance\<close>

definition launchedAt :: "worker_instance \<Rightarrow> int" where
  "launchedAt x = (case wi_launchTime x of None \<Rightarrow> 0 | Some t \<Rightarrow> t)"

definition hasHost :: "worker_instance \<Rightarrow> bool" where
  "hasHost x = (case wi_host x of None \<Rightarrow> False | Some a \<Rightarrow> a \<noteq> [])"

definition isBooted :: "worker_instance \<Rightarrow> bool" where
  "isBooted x \<longleftrightarrow> wi_running x \<and> hasHost x"

definition ordered :: "worker_instance list \<Rightarrow> worker_instance list" where
  "ordered xs = sort_key (\<lambda>x. (\<not> isBooted x, launchedAt x)) xs"

definition release_and_throw :: "('h, 'z) hosting_scheme \<Rightarrow> string \<Rightarrow> string \<Rightarrow> string \<Rightarrow> ('h, 'a) ins" where
  "release_and_throw H i s e = pthen (claim_release H i s) (pthrow e)"

definition await_ready :: "('h, 'z) hosting_scheme \<Rightarrow> worker_instance \<Rightarrow> ('h, worker_instance) ins" where
  "await_ready H x = pbind (hosted (awaitHost H x)) (\<lambda>ready.
     pthen (announce (InstancePendingProvisioning ready)) (pret ready))"

definition reserve_candidate ::
  "('h, 'z) hosting_scheme \<Rightarrow> string \<Rightarrow> reservation \<Rightarrow> worker_instance \<Rightarrow> ('h, worker_instance) ins" where
  "reserve_candidate H s res c = pcatch
     (pthen (hosted (reserveAt H (reserve c res))) (await_ready H (reserve c res)))
     (release_and_throw H (wi_id c) s)"

fun idle_loop ::
  "('h, 'z) hosting_scheme \<Rightarrow> string \<Rightarrow> reservation \<Rightarrow> worker_instance list \<Rightarrow> ('h, worker_instance option) ins" where
  "idle_loop H s res [] = pret None"
| "idle_loop H s res (c # cs) = pbind (claim_insert H (wi_id c) s) (\<lambda>won.
     if won then pbind (reserve_candidate H s res c) (\<lambda>x. pret (Some x)) else idle_loop H s res cs)"

definition startClaimedPooledInstance ::
  "('h, 'z) hosting_scheme \<Rightarrow> string \<Rightarrow> reservation \<Rightarrow> string \<Rightarrow> worker_instance \<Rightarrow> ('h, worker_instance option) ins" where
  "startClaimedPooledInstance H s res type c = pbind
     (pcatch (pbind (hosted (startPooled H c type res)) (\<lambda>x. pret (Some x)))
        (\<lambda>_. pthen (claim_release H (wi_id c) s) (pret None)))
     (\<lambda>started. case started of
        None \<Rightarrow> pret None
      | Some x \<Rightarrow> pcatch (pbind (await_ready H x) (\<lambda>ready. pret (Some ready))) (release_and_throw H (wi_id c) s))"

fun pooled_loop ::
  "('h, 'z) hosting_scheme \<Rightarrow> string \<Rightarrow> reservation \<Rightarrow> string \<Rightarrow> worker_instance list \<Rightarrow> ('h, worker_instance option) ins" where
  "pooled_loop H s res type [] = pret None"
| "pooled_loop H s res type (c # cs) = pbind (claim_insert H (wi_id c) s) (\<lambda>won.
     if won then startClaimedPooledInstance H s res type c else pooled_loop H s res type cs)"

definition startPooledInstance ::
  "('h, 'z) hosting_scheme \<Rightarrow> string \<Rightarrow> reservation \<Rightarrow> string \<Rightarrow> ('h, worker_instance option) ins" where
  "startPooledInstance H s res type = pbind (hosted (pooledInstances H True))
     (\<lambda>xs. pooled_loop H s res type (sort_key launchedAt xs))"

definition launchInstance ::
  "('h, 'z) hosting_scheme \<Rightarrow> string \<Rightarrow> reservation \<Rightarrow> string \<Rightarrow> ('h, worker_instance) ins" where
  "launchInstance H s res type = pbind (hosted (launchReserved H type res)) (\<lambda>x.
     pthen (pcatch (claim_insert H (wi_id x) s) (\<lambda>_. pret False))
       (pbind (hosted (awaitHost H x)) (\<lambda>ready. pthen (announce (InstanceLaunched ready)) (pret ready))))"

definition reservation_for :: "string \<Rightarrow> string \<Rightarrow> string \<Rightarrow> reservation" where
  "reservation_for username workerType s =
     \<lparr>rv_username = username, rv_workerType = workerType, rv_sessionId = Some s\<rparr>"

definition request_instance ::
  "('h, 'z) hosting_scheme \<Rightarrow> string \<Rightarrow> string \<Rightarrow> string \<Rightarrow> string \<Rightarrow> ('h, worker_instance) ins" where
  "request_instance H workerType type username s =
     (let res = reservation_for username workerType s in
      pcatch (pbind (hosted (idleInstances H (Some type))) (\<lambda>idle.
        pbind (idle_loop H s res (ordered idle)) (\<lambda>reserved. case reserved of
          Some x \<Rightarrow> pret x
        | None \<Rightarrow> pbind (startPooledInstance H s res type) (\<lambda>started. case started of
            Some x \<Rightarrow> pret x
          | None \<Rightarrow> launchInstance H s res type))))
      (\<lambda>e. pthen (announce (FailedToRequestInstance workerType type e)) (pthrow e)))"

section \<open>Provisioning\<close>

definition MAX_RETRIES :: nat where
  "MAX_RETRIES = 10"

definition delay :: "('h, 'z) hosting_scheme \<Rightarrow> int \<Rightarrow> ('h, unit) ins" where
  "delay H ms = await (modify (\<lambda>w. w\<lparr>outside := pause H ms (outside w)\<rparr>))"

text \<open>One attempt: the error, when it failed.\<close>

definition provision_once ::
  "('h, 'z) hosting_scheme \<Rightarrow> worker_instance \<Rightarrow> ('h, bool) ins \<Rightarrow> ('h, string option) ins" where
  "provision_once H x current = pcatch
     (pbind (hosted (attachScratchVolume H x)) (\<lambda>device.
        pthen (hosted (provision_on H x device))
          (pbind current (\<lambda>b. pthen (if b then announce (InstanceProvisioned x) else pret ()) (pret None)))))
     (\<lambda>e. pret (Some e))"

fun provision_attempts ::
  "('h, 'z) hosting_scheme \<Rightarrow> worker_instance \<Rightarrow> ('h, bool) ins \<Rightarrow> nat \<Rightarrow> string \<Rightarrow> ('h, unit) ins" where
  "provision_attempts H x current 0 lastError = pbind current (\<lambda>b.
     if b then pthen (announce (FailedToProvisionInstance x lastError)) (pthrow lastError) else pret ())"
| "provision_attempts H x current (Suc left) lastError = pbind current (\<lambda>b.
     if \<not> b then pret ()
     else pbind (provision_once H x current) (\<lambda>failed. case failed of
       None \<Rightarrow> pret ()
     | Some e \<Rightarrow> pthen (if left > 0 then delay H (2 ^ (MAX_RETRIES - Suc left) * 1000) else pret ())
         (provision_attempts H x current left e)))"

definition provision_instance :: "('h, 'z) hosting_scheme \<Rightarrow> worker_instance \<Rightarrow> ('h, bool) ins \<Rightarrow> ('h, unit) ins" where
  "provision_instance H x current = provision_attempts H x current MAX_RETRIES []"

section \<open>Releasing an instance\<close>

text \<open>A \<open>undefined\<close> session id reaches the database as \<open>NULL\<close>, which equals nothing.\<close>

definition claim_release_of :: "('h, 'z) hosting_scheme \<Rightarrow> string \<Rightarrow> string option \<Rightarrow> ('h, unit) ins" where
  "claim_release_of H i s = (case s of
     None \<Rightarrow> withConnection H (ret ())
   | Some t \<Rightarrow> pthen (claim_release H i t) (pret ()))"

definition isReservedFor :: "worker_instance \<Rightarrow> string option \<Rightarrow> bool" where
  "isReservedFor x s = (case wi_reservation x of
     None \<Rightarrow> False
   | Some r \<Rightarrow> rv_sessionId r = None \<or> rv_sessionId r = Some [] \<or> rv_sessionId r = s)"

definition tear_down ::
  "('h, 'z) hosting_scheme \<Rightarrow> string \<Rightarrow> worker_instance \<Rightarrow> string option \<Rightarrow> ('h, unit) ins" where
  "tear_down H i x s = pthen (registry_forget i)
     (pthen (if hasHost x then pthen (hosted (undeploy H x)) (hosted (deleteScratchVolume H i)) else pret ())
       (pthen (claim_release_of H i s)
         (pthen (hosted (releaseAt H i)) (announce (InstanceReleased (unreserve x))))))"

definition recover_release :: "('h, 'z) hosting_scheme \<Rightarrow> string \<Rightarrow> string option \<Rightarrow> string \<Rightarrow> ('h, unit) ins" where
  "recover_release H i s e = pthen (announce (FailedToReleaseInstance i e))
     (pthen (pcatch (hosted (terminate H i)) (\<lambda>_. pret ()))
       (pcatch (claim_release_of H i s) (\<lambda>_. pret ())))"

definition releaseFromSession :: "('h, 'z) hosting_scheme \<Rightarrow> string \<Rightarrow> string option \<Rightarrow> ('h, unit) ins" where
  "releaseFromSession H i s = pcatch
     (pbind (hosted (getInstance H i)) (\<lambda>found. case found of
        None \<Rightarrow> claim_release_of H i s
      | Some x \<Rightarrow> if isReservedFor x s then tear_down H i x s else claim_release_of H i s))
     (recover_release H i s)"

definition releasing_key :: "string \<Rightarrow> string option \<Rightarrow> string" where
  "releasing_key i s = i @ ''/'' @ (case s of None \<Rightarrow> ''undefined'' | Some t \<Rightarrow> t)"

definition release_enter :: "string \<Rightarrow> ('h, bool) ins" where
  "release_enter key = await (state_act (\<lambda>w.
     if key \<in> releasing w then (False, w) else (True, w\<lparr>releasing := insert key (releasing w)\<rparr>)))"

definition release_leave :: "string \<Rightarrow> ('h, unit) ins" where
  "release_leave key = await (modify (\<lambda>w. w\<lparr>releasing := releasing w - {key}\<rparr>))"

text \<open>A second caller joins the release in flight; how long it waits for that one is not modelled.\<close>

definition release_instance :: "('h, 'z) hosting_scheme \<Rightarrow> string \<Rightarrow> string option \<Rightarrow> ('h, unit) ins" where
  "release_instance H i s = (let key = releasing_key i s in
     pbind (release_enter key) (\<lambda>entered.
       if entered then pfinally (releaseFromSession H i s) (release_leave key) else pret ()))"

section \<open>Sweeps\<close>

definition reclaim_one ::
  "('h, 'z) hosting_scheme \<Rightarrow> string list \<Rightarrow> string list \<Rightarrow> int \<Rightarrow> int \<Rightarrow> claim \<Rightarrow> ('h, bool) ins" where
  "reclaim_one H live opens n graceMs c =
     (let gone = cl_instance c \<notin> set live; abandoned = cl_session c \<notin> set opens in
      if \<not> gone \<and> \<not> abandoned then pret False
      else if n - cl_time c \<le> graceMs then pret False
      else pcatch (pthen (if gone then claim_release_of H (cl_instance c) (Some (cl_session c))
                          else release_instance H (cl_instance c) (Some (cl_session c))) (pret True))
             (\<lambda>_. pret False))"

fun reclaim_loop ::
  "('h, 'z) hosting_scheme \<Rightarrow> string list \<Rightarrow> string list \<Rightarrow> int \<Rightarrow> int \<Rightarrow> claim list \<Rightarrow> nat \<Rightarrow> ('h, nat) ins" where
  "reclaim_loop H live opens n graceMs [] k = pret k"
| "reclaim_loop H live opens n graceMs (c # cs) k = pbind (reclaim_one H live opens n graceMs c) (\<lambda>b.
     reclaim_loop H live opens n graceMs cs (if b then Suc k else k))"

definition reclaimStaleClaims :: "('h, 'z) hosting_scheme \<Rightarrow> string list \<Rightarrow> int \<Rightarrow> ('h, nat) ins" where
  "reclaimStaleClaims H opens graceMs = pbind (hosted (idleInstances H None)) (\<lambda>idle.
     pbind (hosted (reservedInstances H)) (\<lambda>reserved.
     pbind (Date_now H) (\<lambda>n.
     pbind (all_claims H) (\<lambda>cs. reclaim_loop H (map wi_id (idle @ reserved)) opens n graceMs cs 0))))"

datatype time_unit = Multiplier rat | Unit string

definition TIME_UNIT_MS :: "(string \<times> rat) list" where
  "TIME_UNIT_MS = [(''NANOSECONDS'', 1 / 1000000), (''MICROSECONDS'', 1 / 1000), (''MILLISECONDS'', 1),
     (''SECONDS'', 1000), (''MINUTES'', 60000), (''HOURS'', 3600000), (''DAYS'', 86400000)]"

definition minAgeMs :: "rat \<Rightarrow> time_unit \<Rightarrow> rat" where
  "minAgeMs minAge u = (case u of
     Multiplier m \<Rightarrow> minAge * m
   | Unit name \<Rightarrow> minAge * (case map_of TIME_UNIT_MS name of None \<Rightarrow> 1000 | Some m \<Rightarrow> m))"

text \<open>An instance without launch time has age \<open>NaN\<close>, which exceeds nothing.\<close>

definition unused :: "string list \<Rightarrow> string list \<Rightarrow> int \<Rightarrow> rat \<Rightarrow> worker_instance \<Rightarrow> bool" where
  "unused used claimed n minAge x \<longleftrightarrow> wi_id x \<notin> set used \<and> wi_id x \<notin> set claimed \<and>
     (case wi_launchTime x of None \<Rightarrow> False | Some t \<Rightarrow> minAge < of_int (n - t))"

definition releaseUnusedInstances ::
  "('h, 'z) hosting_scheme \<Rightarrow> string list \<Rightarrow> rat \<Rightarrow> time_unit \<Rightarrow> ('h, unit) ins" where
  "releaseUnusedInstances H used minAge u = pbind (Date_now H) (\<lambda>n.
     pbind (hosted (reservedInstances H)) (\<lambda>reserved.
     pbind (all_claims H) (\<lambda>cs.
       pfor_each (filter (unused used (map cl_instance cs) n (minAgeMs minAge u)) reserved)
         (\<lambda>x. pcatch (release_instance H (wi_id x) (reservedSession x)) (\<lambda>_. pret ())))))"

text \<open>The order in which a \<open>Set\<close> or \<open>Map\<close> lists what was added to it.\<close>

definition insertion_order :: "'a list \<Rightarrow> 'a list" where
  "insertion_order xs = rev (remdups (rev xs))"

definition removeOrphanedContainers :: "('h, 'z) hosting_scheme \<Rightarrow> string list \<Rightarrow> ('h, string list) ins" where
  "removeOrphanedContainers H sessionInstanceIds = pbind (hosted (idleInstances H None)) (\<lambda>idle.
     pbind (hosted (reservedInstances H)) (\<lambda>reserved.
       hosted (remove_orphans H (insertion_order (sessionInstanceIds @ map wi_id (idle @ reserved))))))"

section \<open>Sizing the pool of idle instances\<close>

definition POOL_CYCLE_CLAIM :: string where
  "POOL_CYCLE_CLAIM = ''pool-cycle''"

definition MAX_CONCURRENT_WARM_UPS :: int where
  "MAX_CONCURRENT_WARM_UPS = 2"

definition underClaim :: "('h, 'z) hosting_scheme \<Rightarrow> string \<Rightarrow> worker_instance \<Rightarrow> ('h, unit) ins \<Rightarrow> ('h, bool) ins" where
  "underClaim H me x operation = pbind (claim_insert H (wi_id x) me) (\<lambda>won.
     if won then pfinally (pthen operation (pret True)) (pthen (claim_release H (wi_id x) me) (pret ()))
     else pret False)"

definition attempt :: "('h, bool) ins \<Rightarrow> ('h, bool) ins" where
  "attempt operation = pcatch operation (\<lambda>_. pret False)"

definition surplus_of :: "(string \<times> nat) list \<Rightarrow> worker_instance list \<Rightarrow> string \<Rightarrow> worker_instance list" where
  "surplus_of targets idle type =
     (let current = filter (\<lambda>x. wi_type x = type) idle;
          target = (case map_of targets type of None \<Rightarrow> 0 | Some k \<Rightarrow> k)
      in take (length current - target) (sort_key (\<lambda>x. - launchedAt x) current))"

definition deficit_of :: "(string \<times> nat) list \<Rightarrow> worker_instance list \<Rightarrow> string \<Rightarrow> nat" where
  "deficit_of targets idle type =
     (case map_of targets type of None \<Rightarrow> 0 | Some k \<Rightarrow> k) - length (filter (\<lambda>x. wi_type x = type) idle)"

definition sizeRunningIdle ::
  "('h, 'z) hosting_scheme \<Rightarrow> (string \<times> nat) list \<Rightarrow> ('h, worker_instance list) ins" where
  "sizeRunningIdle H targets = pbind (hosted (idleInstances H None)) (\<lambda>idle.
     (let types = insertion_order (map wi_type idle @ map fst targets) in
      pthen (pfor_each types (\<lambda>type.
          if deficit_of targets idle type > 0 then hosted (launchIdle H type (deficit_of targets idle type)) else pret ()))
        (pret (concat (map (surplus_of targets idle) types)))))"

definition stoppedPoolState :: "('h, 'z) hosting_scheme \<Rightarrow> nat \<Rightarrow> ('h, int \<times> int) ins" where
  "stoppedPoolState H stoppedPoolSize = pbind (hosted (pooledInstances H False)) (\<lambda>all.
     pbind (hosted (pooledInstances H True)) (\<lambda>ready.
       pret (max 0 (int stoppedPoolSize - int (length all)), int (length all) - int (length ready))))"

fun dispose_surplus ::
  "('h, 'z) hosting_scheme \<Rightarrow> int \<Rightarrow> worker_instance list \<Rightarrow> int \<Rightarrow> ('h, int) ins" where
  "dispose_surplus H deficit [] pooled = pret pooled"
| "dispose_surplus H deficit (x # xs) pooled =
     (if pooled < deficit
      then pbind (attempt (underClaim H POOL_CYCLE_CLAIM x (hosted (pool H (wi_id x))))) (\<lambda>b.
        dispose_surplus H deficit xs (if b then pooled + 1 else pooled))
      else pthen (attempt (underClaim H POOL_CYCLE_CLAIM x (hosted (terminate H (wi_id x)))))
        (dispose_surplus H deficit xs pooled))"

definition sizeIdlePool :: "('h, 'z) hosting_scheme \<Rightarrow> (string \<times> nat) list \<Rightarrow> nat \<Rightarrow> ('h, unit) ins" where
  "sizeIdlePool H targets stoppedPoolSize = pbind (sizeRunningIdle H targets) (\<lambda>surplus.
     pbind (if stoppedPoolSize > 0 then stoppedPoolState H stoppedPoolSize else pret (0, 0)) (\<lambda>(deficit, warming).
     pbind (dispose_surplus H deficit (sort_key launchedAt surplus) 0) (\<lambda>pooled.
       (let warmUps = min (deficit - pooled) (MAX_CONCURRENT_WARM_UPS - warming) in
        if warmUps > 0
        then pthen (attempt (pthen (hosted (launchPooled H (nat warmUps))) (pret True))) (pret ())
        else pret ()))))"

section \<open>Wiring\<close>

definition restoreOpenSessionInstances ::
  "('h, 'z) hosting_scheme \<Rightarrow> ('h, worker_instance list) ins \<Rightarrow> ('h, unit) ins" where
  "restoreOpenSessionInstances H openSessionInstances =
     pcatch (pbind openSessionInstances (\<lambda>xs. hosted (restore H xs))) (\<lambda>_. pret ())"

fun backfill_loop :: "('h, 'z) hosting_scheme \<Rightarrow> worker_instance list \<Rightarrow> nat \<Rightarrow> ('h, nat) ins" where
  "backfill_loop H [] k = pret k"
| "backfill_loop H (x # xs) k = (case reservedSession x of
     None \<Rightarrow> backfill_loop H xs k
   | Some s \<Rightarrow> if s = [] then backfill_loop H xs k
       else pbind (claim_insert H (wi_id x) s) (\<lambda>b. backfill_loop H xs (if b then Suc k else k)))"

definition backfillClaims :: "('h, 'z) hosting_scheme \<Rightarrow> ('h, nat) ins" where
  "backfillClaims H = pbind (hosted (reservedInstances H)) (\<lambda>xs. backfill_loop H xs 0)"

definition runPoolCycle :: "('h, 'z) hosting_scheme \<Rightarrow> (string \<times> nat) list \<Rightarrow> nat \<Rightarrow> ('h, unit) ins" where
  "runPoolCycle H targets stoppedPoolSize =
     pthen (pcatch (sizeIdlePool H targets stoppedPoolSize) (\<lambda>_. pret ()))
       (pcatch (hosted (sweep H)) (\<lambda>_. pret ()))"

definition start_instances :: "('h, 'z) hosting_scheme \<Rightarrow> ('h, worker_instance list) ins \<Rightarrow> ('h, unit) ins" where
  "start_instances H openSessionInstances = pthen (restoreOpenSessionInstances H openSessionInstances)
     (pcatch (pthen (backfillClaims H) (pret ())) (\<lambda>_. pret ()))"

definition on_launched :: "worker_instance \<Rightarrow> ('h, unit) ins" where
  "on_launched x = (if isReserved x then announce (InstancePendingProvisioning x) else pret ())"

definition on_pendingProvisioning :: "('h, 'z) hosting_scheme \<Rightarrow> worker_instance \<Rightarrow> ('h, bool) ins" where
  "on_pendingProvisioning H x = pcatch
     (registry_run (wi_id x) (reservedSession x) (provision_instance H x)) (\<lambda>_. pret True)"

end
