(* ===== verification/InstanceClaims.thy ===== *)
theory InstanceClaims
  imports InstanceCommands
begin

text \<open>
  Requests and pool cycles side by side. What each of them may rely on is a \<open>knowledge\<close>: the
  instances it has seen idle, those it has claimed, those it has reserved, and the one it has
  launched. \<open>claims_inv\<close> ties the knowledge of all of them to the claim table and the hosting
  service; every awaited operation keeps it, so it holds in every interleaving.
\<close>

section \<open>What a request knows\<close>

record knowledge =
  seen :: "string set"
  claimed :: "string set"
  reserved :: "string set"
  launched_new :: "string set"

definition no_knowledge :: knowledge where
  "no_knowledge = \<lparr>seen = {}, claimed = {}, reserved = {}, launched_new = {}\<rparr>"

definition reserved_for :: "worker_instance option \<Rightarrow> string \<Rightarrow> bool" where
  "reserved_for v s \<longleftrightarrow> (\<exists>x. v = Some x \<and> reservedSession x = Some s)"

lemma reserved_for_evolves:
  assumes "evolves view fresh sound I h h'" and "reserved_for (view h i) s" and "i \<notin> I"
  shows "reserved_for (view h' i) s"
proof -
  from assms(2) obtain x r where x: "view h i = Some x" "wi_reservation x = Some r" "rv_sessionId r = Some s"
    by (auto simp: reserved_for_def reservedSession_def split: Option.bind_splits)
  with assms(1,3) have "map_option wi_reservation (view h' i) = Some (Some r)"
    by (fastforce simp: evolves_def isReserved_def)
  with x(3) show ?thesis by (auto simp: reserved_for_def reservedSession_def)
qed

text \<open>How an operation on an instance changes what the program knows.\<close>

definition drop_reserved :: "string \<Rightarrow> knowledge \<Rightarrow> knowledge" where
  "drop_reserved i g = g\<lparr>reserved := reserved g - {i}\<rparr>"

definition add_reserved :: "string \<Rightarrow> knowledge \<Rightarrow> knowledge" where
  "add_reserved i g = g\<lparr>reserved := insert i (reserved g)\<rparr>"

definition add_claimed :: "string \<Rightarrow> knowledge \<Rightarrow> knowledge" where
  "add_claimed i g = g\<lparr>claimed := insert i (claimed g)\<rparr>"

definition drop_claimed :: "string \<Rightarrow> knowledge \<Rightarrow> knowledge" where
  "drop_claimed i g = g\<lparr>claimed := claimed g - {i}, reserved := reserved g - {i}\<rparr>"

definition add_launched :: "string \<Rightarrow> knowledge \<Rightarrow> knowledge" where
  "add_launched i g = g\<lparr>launched_new := insert i (launched_new g), reserved := insert i (reserved g)\<rparr>"

lemma knowledge_simps [simp]:
  "seen (drop_reserved i g) = seen g" "claimed (drop_reserved i g) = claimed g"
  "reserved (drop_reserved i g) = reserved g - {i}" "launched_new (drop_reserved i g) = launched_new g"
  "seen (add_reserved i g) = seen g" "claimed (add_reserved i g) = claimed g"
  "reserved (add_reserved i g) = insert i (reserved g)" "launched_new (add_reserved i g) = launched_new g"
  "seen (add_claimed i g) = seen g" "claimed (add_claimed i g) = insert i (claimed g)"
  "reserved (add_claimed i g) = reserved g" "launched_new (add_claimed i g) = launched_new g"
  "seen (drop_claimed i g) = seen g" "claimed (drop_claimed i g) = claimed g - {i}"
  "reserved (drop_claimed i g) = reserved g - {i}" "launched_new (drop_claimed i g) = launched_new g"
  "seen (add_launched i g) = seen g" "claimed (add_launched i g) = claimed g"
  "reserved (add_launched i g) = insert i (reserved g)" "launched_new (add_launched i g) = insert i (launched_new g)"
  by (simp_all add: drop_reserved_def add_reserved_def add_claimed_def drop_claimed_def add_launched_def)

context hosting_service
begin

definition claims_inv :: "'h instance_server \<Rightarrow> (string \<Rightarrow> knowledge) \<Rightarrow> bool" where
  "claims_inv w \<gamma> \<longleftrightarrow> sound (outside w) \<and> claims_keyed (claim_rows w) \<and>
     (\<forall>c \<in> set (claim_rows w). \<not> fresh (outside w) (cl_instance c)) \<and>
     (\<forall>s i. i \<in> seen (\<gamma> s) \<union> claimed (\<gamma> s) \<union> launched_new (\<gamma> s) \<longrightarrow> \<not> fresh (outside w) i) \<and>
     (\<forall>s i. i \<in> claimed (\<gamma> s) \<longrightarrow> (\<exists>c \<in> set (claim_rows w). names_claim i s c)) \<and>
     (\<forall>s i. i \<in> reserved (\<gamma> s) \<longrightarrow> i \<in> claimed (\<gamma> s) \<union> launched_new (\<gamma> s) \<and> reserved_for (view (outside w) i) s) \<and>
     (\<forall>s i. i \<in> launched_new (\<gamma> s) \<longrightarrow> i \<in> reserved (\<gamma> s)) \<and>
     (\<forall>s t i. i \<in> launched_new (\<gamma> s) \<longrightarrow> i \<notin> seen (\<gamma> t) \<and> (t \<noteq> s \<longrightarrow> i \<notin> claimed (\<gamma> t) \<union> launched_new (\<gamma> t))) \<and>
     (\<forall>s c. c \<in> set (claim_rows w) \<longrightarrow> cl_instance c \<in> launched_new (\<gamma> s) \<longrightarrow> cl_session c = s)"

lemma claims_invD:
  assumes "claims_inv w \<gamma>"
  shows inv_sound: "sound (outside w)"
    and inv_keyed: "claims_keyed (claim_rows w)"
    and inv_rows: "c \<in> set (claim_rows w) \<Longrightarrow> \<not> fresh (outside w) (cl_instance c)"
    and inv_known: "i \<in> seen (\<gamma> s) \<union> claimed (\<gamma> s) \<union> launched_new (\<gamma> s) \<Longrightarrow> \<not> fresh (outside w) i"
    and inv_claimed: "i \<in> claimed (\<gamma> s) \<Longrightarrow> \<exists>c \<in> set (claim_rows w). names_claim i s c"
    and inv_reserved: "i \<in> reserved (\<gamma> s) \<Longrightarrow> i \<in> claimed (\<gamma> s) \<union> launched_new (\<gamma> s)"
    and inv_reserved_for: "i \<in> reserved (\<gamma> s) \<Longrightarrow> reserved_for (view (outside w) i) s"
    and inv_launched: "i \<in> launched_new (\<gamma> s) \<Longrightarrow> i \<in> reserved (\<gamma> s)"
    and inv_unseen: "i \<in> launched_new (\<gamma> s) \<Longrightarrow> i \<notin> seen (\<gamma> t)"
    and inv_unclaimed: "i \<in> launched_new (\<gamma> s) \<Longrightarrow> t \<noteq> s \<Longrightarrow> i \<notin> claimed (\<gamma> t) \<union> launched_new (\<gamma> t)"
    and inv_row_launched: "c \<in> set (claim_rows w) \<Longrightarrow> cl_instance c \<in> launched_new (\<gamma> s) \<Longrightarrow> cl_session c = s"
  using assms unfolding claims_inv_def by blast+

lemma claimed_apart:
  assumes "claims_inv w \<gamma>" and "i \<in> claimed (\<gamma> s)" and "t \<noteq> s"
  shows "i \<notin> claimed (\<gamma> t)" and "i \<notin> reserved (\<gamma> t)"
proof -
  from inv_claimed [OF assms(1,2)] obtain c where c: "c \<in> set (claim_rows w)" "cl_instance c = i" "cl_session c = s"
    by (auto simp: names_claim_def)
  show not_t: "i \<notin> claimed (\<gamma> t)"
  proof
    assume "i \<in> claimed (\<gamma> t)"
    from inv_claimed [OF assms(1) this] obtain d where "d \<in> set (claim_rows w)" "cl_instance d = i" "cl_session d = t"
      by (auto simp: names_claim_def)
    with c claims_keyed_eq [OF inv_keyed [OF assms(1)], of c d] assms(3) show False by simp
  qed
  show "i \<notin> reserved (\<gamma> t)"
    using not_t inv_reserved [OF assms(1)] inv_unclaimed [OF assms(1) _ assms(3) [symmetric]] assms(2) by blast
qed

text \<open>A step of program \<open>s\<close>: what the outside, the table and its knowledge may do.\<close>

lemma inv_step:
  assumes inv: "claims_inv w \<gamma>" and g: "\<gamma> s = g"
    and out: "evolves view fresh sound I (outside w) (outside w')" "I \<subseteq> claimed g"
    and keyed: "claims_keyed (claim_rows w')"
    and new: "\<And>c. c \<in> set (claim_rows w') \<Longrightarrow>
        c \<in> set (claim_rows w) \<or> cl_session c = s \<and> cl_instance c \<in> seen g \<union> launched_new g"
    and old: "\<And>c. c \<in> set (claim_rows w) \<Longrightarrow> c \<in> set (claim_rows w') \<or> cl_session c = s"
    and known: "seen g' \<subseteq> seen g \<union> {i. \<exists>x. view (outside w') i = Some x \<and> wi_reservation x = None}"
        "claimed g' \<subseteq> seen g \<union> claimed g \<union> launched_new g" "launched_new g' \<subseteq> launched_new g"
    and rows: "\<And>i. i \<in> claimed g' \<Longrightarrow> \<exists>c \<in> set (claim_rows w'). names_claim i s c"
    and res: "reserved g' \<subseteq> claimed g' \<union> launched_new g'" "launched_new g' \<subseteq> reserved g'"
        "\<And>i. i \<in> reserved g' \<Longrightarrow> reserved_for (view (outside w') i) s"
  shows "claims_inv w' (\<gamma>(s := g'))"
proof -
  have sound: "sound (outside w')" using out(1) by (simp add: evolves_def)
  have fresh: "fresh (outside w') i \<Longrightarrow> fresh (outside w) i" for i using out(1) by (simp add: evolves_def)
  have nf: "i \<in> seen g \<union> claimed g \<union> launched_new g \<Longrightarrow> \<not> fresh (outside w') i" for i
    using inv_known [OF inv, of i s] g fresh by blast
  have known': "i \<in> seen g' \<union> claimed g' \<union> launched_new g' \<Longrightarrow> \<not> fresh (outside w') i" for i
    using known nf [of i] known_not_fresh [OF sound, of i] by blast
  have other: "reserved_for (view (outside w') i) t" if "t \<noteq> s" "i \<in> reserved (\<gamma> t)" for t i
  proof -
    have "i \<notin> I" using claimed_apart(2) [OF inv _ that(1)] that(2) out(2) g by blast
    moreover have r: "reserved_for (view (outside w) i) t" by (rule inv_reserved_for [OF inv that(2)])
    ultimately show ?thesis
      using reserved_for_evolves [OF out(1), of i t] by blast
  qed
  have unseen: "i \<notin> seen g'" if "i \<in> launched_new ((\<gamma>(s := g')) t)" for i t
  proof -
    have "reserved_for (view (outside w') i) t"
      using that res(2,3) other [of t i] inv_launched [OF inv, of i t] by (cases "t = s") auto
    moreover have "i \<notin> seen g"
      using that known(3) inv_unseen [OF inv, of i t s] inv_unseen [OF inv, of i s s] g by (auto split: if_splits)
    ultimately show ?thesis using known(1) by (auto simp: reserved_for_def reservedSession_def)
  qed
  have apart: "i \<notin> claimed g' \<union> launched_new g'" if "i \<in> launched_new (\<gamma> t)" "t \<noteq> s" for i t
    using that inv_unseen [OF inv that(1), of s] inv_unclaimed [OF inv that(1), of s] known g by blast
  have apart': "i \<notin> claimed (\<gamma> t) \<union> launched_new (\<gamma> t)" if "i \<in> launched_new g'" "t \<noteq> s" for i t
    using inv_unclaimed [OF inv _ that(2), of i] that(1) known(3) g by blast
  have row: "cl_session c = t" if "c \<in> set (claim_rows w')" "cl_instance c \<in> launched_new ((\<gamma>(s := g')) t)" for c t
  proof (cases "c \<in> set (claim_rows w)")
    case True
    with that(2) inv_row_launched [OF inv True] known(3) g show ?thesis by (auto split: if_splits)
  next
    case False
    with new [OF that(1)] that(2) inv_unseen [OF inv, of "cl_instance c" t s] inv_unclaimed [OF inv, of "cl_instance c" t s] g
    show ?thesis by (auto split: if_splits)
  qed
  have claims': "\<exists>c \<in> set (claim_rows w'). names_claim i t c" if "i \<in> claimed (\<gamma> t)" "t \<noteq> s" for i t
    using inv_claimed [OF inv that(1)] old that(2) by (fastforce simp: names_claim_def)
  show ?thesis
    unfolding claims_inv_def
  proof (intro conjI allI ballI impI sound keyed)
    show "\<not> fresh (outside w') (cl_instance c)" if "c \<in> set (claim_rows w')" for c
      using new [OF that] inv_rows [OF inv, of c] fresh nf by blast
    show "\<not> fresh (outside w') i"
      if "i \<in> seen ((\<gamma>(s := g')) t) \<union> claimed ((\<gamma>(s := g')) t) \<union> launched_new ((\<gamma>(s := g')) t)" for t i
      using that known' inv_known [OF inv, of i t] fresh by (cases "t = s") auto
    show "\<exists>c \<in> set (claim_rows w'). names_claim i t c" if "i \<in> claimed ((\<gamma>(s := g')) t)" for t i
      using that rows claims' by (cases "t = s") auto
    show "i \<in> claimed ((\<gamma>(s := g')) t) \<union> launched_new ((\<gamma>(s := g')) t)"
      "reserved_for (view (outside w') i) t" if "i \<in> reserved ((\<gamma>(s := g')) t)" for t i
      using that res other inv_reserved [OF inv, of i t] by (cases "t = s"; auto)+
    show "i \<in> reserved ((\<gamma>(s := g')) t)" if "i \<in> launched_new ((\<gamma>(s := g')) t)" for t i
      using that res(2) inv_launched [OF inv, of i t] by (cases "t = s") auto
    show "i \<notin> seen ((\<gamma>(s := g')) u)" if "i \<in> launched_new ((\<gamma>(s := g')) t)" for t u i
      using that unseen [OF that] inv_unseen [OF inv, of i t u] inv_unseen [OF inv, of i s u] known(3) g
      by (cases "t = s"; cases "u = s") auto
    show "i \<notin> claimed ((\<gamma>(s := g')) u) \<union> launched_new ((\<gamma>(s := g')) u)"
      if "i \<in> launched_new ((\<gamma>(s := g')) t)" "u \<noteq> t" for t u i
      using that apart apart' inv_unclaimed [OF inv, of i t u] by (cases "t = s"; cases "u = s") auto
    show "cl_session c = t" if "c \<in> set (claim_rows w')" "cl_instance c \<in> launched_new ((\<gamma>(s := g')) t)" for t c
      by (rule row [OF that])
  qed
qed

section \<open>Each operation keeps it\<close>

lemma inv_outside:
  assumes "claims_inv w \<gamma>" and "\<gamma> s = g"
    and "evolves view fresh sound I (outside w) h'" and "I \<subseteq> claimed g"
    and "seen g' \<subseteq> seen g \<union> {i. \<exists>x. view h' i = Some x \<and> wi_reservation x = None}"
    and "claimed g' \<subseteq> claimed g" and "launched_new g' \<subseteq> launched_new g"
    and "reserved g' \<subseteq> claimed g' \<union> launched_new g'" and "launched_new g' \<subseteq> reserved g'"
    and "\<And>i. i \<in> reserved g' \<Longrightarrow> reserved_for (view h' i) s"
  shows "claims_inv (w\<lparr>outside := h'\<rparr>) (\<gamma>(s := g'))"
proof (rule inv_step [OF assms(1,2), where I = I])
  show "\<exists>c \<in> set (claim_rows (w\<lparr>outside := h'\<rparr>)). names_claim i s c" if "i \<in> claimed g'" for i
    using inv_claimed [OF assms(1), of i s] that assms(2,6) by auto
qed (use assms inv_keyed [OF assms(1)] in auto)

lemma still_reserved:
  assumes "claims_inv w \<gamma>" and "evolves view fresh sound I (outside w) h'"
    and "i \<in> reserved (\<gamma> s)" and "i \<notin> I"
  shows "reserved_for (view h' i) s"
proof -
  have "reserved_for (view (outside w) i) s" by (rule inv_reserved_for [OF assms(1,3)])
  from reserved_for_evolves [OF assms(2) this assms(4)] show ?thesis .
qed

lemma inv_quiet:
  assumes "claims_inv w \<gamma>" and "evolves view fresh sound {} (outside w) h'"
  shows "claims_inv (w\<lparr>outside := h'\<rparr>) \<gamma>"
proof -
  have "claims_inv (w\<lparr>outside := h'\<rparr>) (\<gamma>(s := \<gamma> s))" for s
    by (rule inv_outside [OF assms(1) HOL.refl assms(2)])
       (use inv_reserved [OF assms(1)] inv_launched [OF assms(1)] still_reserved [OF assms] in auto)
  then show ?thesis by simp
qed

lemma abides_hosted:
  assumes "\<And>w \<gamma> r h'. claims_inv w \<gamma> \<Longrightarrow> \<gamma> s = g \<Longrightarrow> m (outside w) = (r, h') \<Longrightarrow>
      \<exists>g'. claims_inv (w\<lparr>outside := h'\<rparr>) (\<gamma>(s := g')) \<and> Q r g'"
  shows "abides claims_inv s Q (hosted m) g"
  unfolding hosted_def
  by (rule abides_await) (use assms in \<open>auto simp: at_outside_def split: prod.splits\<close>)

lemma abides_quiet:
  assumes "\<And>h r h'. sound h \<Longrightarrow> m h = (r, h') \<Longrightarrow> evolves view fresh sound {} h h'"
    and "\<And>h r h'. sound h \<Longrightarrow> m h = (r, h') \<Longrightarrow> Q r g"
  shows "abides claims_inv s Q (hosted m) g"
proof (rule abides_hosted)
  fix w \<gamma> r h' assume inv: "claims_inv w \<gamma>" and g: "\<gamma> s = g" and m: "m (outside w) = (r, h')"
  have "claims_inv (w\<lparr>outside := h'\<rparr>) (\<gamma>(s := g))"
    using inv_quiet [OF inv assms(1) [OF inv_sound [OF inv] m]] g by (simp add: fun_upd_idem)
  with assms(2) [OF inv_sound [OF inv] m]
  show "\<exists>g'. claims_inv (w\<lparr>outside := h'\<rparr>) (\<gamma>(s := g')) \<and> Q r g'" by blast
qed

lemma abides_announce: "Q (Inr ()) g \<Longrightarrow> abides claims_inv s Q (announce e) g"
  unfolding announce_def
  by (rule abides_await, rule exI [of _ g]) (auto simp: claims_inv_def fun_upd_idem)

lemma abides_list:
  assumes "\<And>h r h'. sound h \<Longrightarrow> m h = (r, h') \<Longrightarrow>
      evolves view fresh sound {} h h' \<and> (\<forall>xs. r = Inr xs \<longrightarrow> lists_idle view h' xs)"
    and "\<And>r g'. seen g \<subseteq> seen g' \<Longrightarrow> (\<And>xs. r = Inr xs \<Longrightarrow> wi_id ` set xs \<subseteq> seen g') \<Longrightarrow> Q r g'"
  shows "abides claims_inv s Q (hosted m) g"
proof (rule abides_hosted)
  fix w \<gamma> r h' assume inv: "claims_inv w \<gamma>" and g: "\<gamma> s = g" and m: "m (outside w) = (r, h')"
  note law = assms(1) [OF inv_sound [OF inv] m]
  let ?S = "case r of Inl _ \<Rightarrow> {} | Inr xs \<Rightarrow> wi_id ` set xs"
  let ?g = "g\<lparr>seen := seen g \<union> ?S\<rparr>"
  have "claims_inv (w\<lparr>outside := h'\<rparr>) (\<gamma>(s := ?g))"
  proof (rule inv_outside [OF inv g])
    show "evolves view fresh sound {} (outside w) h'" using law by simp
    show "seen ?g \<subseteq> seen g \<union> {i. \<exists>x. view h' i = Some x \<and> wi_reservation x = None}"
      using law by (auto simp: lists_idle_def split: sum.splits)
    show "reserved_for (view h' i) s" if "i \<in> reserved ?g" for i
      using still_reserved [OF inv, of "{}" h' i s] law that g by auto
  qed (use inv_reserved [OF inv, of _ s] inv_launched [OF inv, of _ s] g in auto)
  moreover have "Q r ?g" by (rule assms(2)) auto
  ultimately show "\<exists>g'. claims_inv (w\<lparr>outside := h'\<rparr>) (\<gamma>(s := g')) \<and> Q r g'" by blast
qed

text \<open>Operations on an instance the program has claimed; on failure it may no longer be reserved.\<close>

lemma abides_on_claimed:
  assumes i: "i \<in> seen g" "i \<in> claimed g"
    and law: "\<And>h r h'. sound h \<Longrightarrow> \<not> fresh h i \<Longrightarrow> m h = (r, h') \<Longrightarrow> evolves view fresh sound {i} h h'"
    and lost: "\<And>r. Q r (drop_reserved i g)"
  shows "abides claims_inv s Q (hosted m) g"
proof (rule abides_hosted)
  fix w \<gamma> r h' assume inv: "claims_inv w \<gamma>" and g: "\<gamma> s = g" and m: "m (outside w) = (r, h')"
  have nf: "\<not> fresh (outside w) i" using inv_known [OF inv, of i s] i g by simp
  note ev = law [OF inv_sound [OF inv] nf m]
  have nl: "i \<notin> launched_new g" using inv_unseen [OF inv, of i s s] i(1) g by blast
  have "claims_inv (w\<lparr>outside := h'\<rparr>) (\<gamma>(s := drop_reserved i g))"
    by (rule inv_outside [OF inv g ev])
       (use i nl inv_reserved [OF inv, of _ s] inv_launched [OF inv, of _ s] still_reserved [OF inv ev, of _ s] g in auto)
  with lost show "\<exists>g'. claims_inv (w\<lparr>outside := h'\<rparr>) (\<gamma>(s := g')) \<and> Q r g'" by blast
qed

lemma abides_reserving:
  assumes i: "i \<in> seen g" "i \<in> claimed g"
    and law: "\<And>h r h'. sound h \<Longrightarrow> \<not> fresh h i \<Longrightarrow> m h = (r, h') \<Longrightarrow>
        evolves view fresh sound {i} h h' \<and> (\<forall>a. r = Inr a \<longrightarrow> reserved_for (view h' i) s \<and> R a)"
    and lost: "\<And>e. Q (Inl e) (drop_reserved i g)" and kept: "\<And>a. R a \<Longrightarrow> Q (Inr a) (add_reserved i g)"
  shows "abides claims_inv s Q (hosted m) g"
proof (rule abides_hosted)
  fix w \<gamma> r h' assume inv: "claims_inv w \<gamma>" and g: "\<gamma> s = g" and m: "m (outside w) = (r, h')"
  have nf: "\<not> fresh (outside w) i" using inv_known [OF inv, of i s] i g by simp
  note law' = law [OF inv_sound [OF inv] nf m]
  note ev = conjunct1 [OF law']
  have nl: "i \<notin> launched_new g" using inv_unseen [OF inv, of i s s] i(1) g by blast
  note facts = i nl inv_reserved [OF inv, of _ s] inv_launched [OF inv, of _ s] still_reserved [OF inv ev, of _ s] g
  show "\<exists>g'. claims_inv (w\<lparr>outside := h'\<rparr>) (\<gamma>(s := g')) \<and> Q r g'"
  proof (cases r)
    case (Inl e)
    have "claims_inv (w\<lparr>outside := h'\<rparr>) (\<gamma>(s := drop_reserved i g))"
      by (rule inv_outside [OF inv g ev]) (use facts in auto)
    with lost Inl show ?thesis by blast
  next
    case (Inr a)
    with law' have view: "reserved_for (view h' i) s" and R: "R a" by auto
    have "claims_inv (w\<lparr>outside := h'\<rparr>) (\<gamma>(s := add_reserved i g))"
    proof (rule inv_outside [OF inv g ev])
      show "reserved_for (view h' j) s" if "j \<in> reserved (add_reserved i g)" for j
        using that view facts(6) [of j] g by (cases "j = i") auto
    qed (use facts in auto)
    with kept [OF R] Inr show ?thesis by blast
  qed
qed

lemma abides_launch:
  assumes lost: "\<And>e. Q (Inl e) g"
    and kept: "\<And>x. reservedSession x = rv_sessionId res \<Longrightarrow> Q (Inr x) (add_launched (wi_id x) g)"
    and res: "rv_sessionId res = Some s"
  shows "abides claims_inv s Q (hosted (launchReserved H type res)) g"
proof (rule abides_hosted)
  fix w \<gamma> r h'
  assume inv: "claims_inv w \<gamma>" and g: "\<gamma> s = g" and m: "launchReserved H type res (outside w) = (r, h')"
  note law = launch_law [OF inv_sound [OF inv] m]
  from law have ev: "evolves view fresh sound {} (outside w) h'" by simp
  show "\<exists>g'. claims_inv (w\<lparr>outside := h'\<rparr>) (\<gamma>(s := g')) \<and> Q r g'"
  proof (cases r)
    case (Inl e)
    with inv_quiet [OF inv ev] lost g show ?thesis by (intro exI [of _ g]) (simp add: fun_upd_idem)
  next
    case (Inr x)
    let ?i = "wi_id x" and ?w = "w\<lparr>outside := h'\<rparr>"
    from law Inr have x: "fresh (outside w) ?i" "\<not> fresh h' ?i" "view h' ?i = Some x" "wi_reservation x = Some res" by auto
    have old: "\<not> fresh h' i" if "\<not> fresh (outside w) i" for i using that ev by (auto simp: evolves_def)
    have nu: "?i \<notin> seen (\<gamma> t)" "?i \<notin> claimed (\<gamma> t)" "?i \<notin> launched_new (\<gamma> t)" "?i \<notin> reserved (\<gamma> t)" for t
      using inv_known [OF inv, of ?i t] inv_reserved [OF inv, of ?i t] x(1) by auto
    have nr: "cl_instance c \<noteq> ?i" if "c \<in> set (claim_rows w)" for c using inv_rows [OF inv that] x(1) by auto
    have mine: "reserved_for (view h' ?i) s" using x res by (simp add: reserved_for_def reservedSession_def)
    have sel: "outside ?w = h'" "claim_rows ?w = claim_rows w" by simp_all
    have "claims_inv ?w (\<gamma>(s := add_launched ?i g))"
      unfolding claims_inv_def sel
    proof (intro conjI allI ballI impI)
      show "sound h'" using ev by (simp add: evolves_def)
      show "claims_keyed (claim_rows w)" by (rule inv_keyed [OF inv])
      show "\<not> fresh h' (cl_instance c)" if "c \<in> set (claim_rows w)" for c by (rule old [OF inv_rows [OF inv that]])
      fix t i
      let ?k = "(\<gamma>(s := add_launched ?i g)) t"
      show "\<not> fresh h' i" if "i \<in> seen ?k \<union> claimed ?k \<union> launched_new ?k"
        using that x(2) old [OF inv_known [OF inv, of i t]] g by (auto split: if_splits)
      show "\<exists>c \<in> set (claim_rows w). names_claim i t c" if "i \<in> claimed ?k"
        using that inv_claimed [OF inv, of i t] g by (auto split: if_splits)
      show "i \<in> claimed ?k \<union> launched_new ?k" if "i \<in> reserved ?k"
        using that inv_reserved [OF inv, of i t] g by (auto split: if_splits)
      show "reserved_for (view h' i) t" if "i \<in> reserved ?k"
        using that mine still_reserved [OF inv ev, of i t] g by (auto split: if_splits)
      show "i \<in> reserved ?k" if "i \<in> launched_new ?k"
        using that inv_launched [OF inv, of i t] g by (auto split: if_splits)
      show "i \<notin> seen ((\<gamma>(s := add_launched ?i g)) u)" if "i \<in> launched_new ?k" for u
        using that nu inv_unseen [OF inv, of i t u] g by (auto split: if_splits)
      show "i \<notin> claimed ((\<gamma>(s := add_launched ?i g)) u) \<union> launched_new ((\<gamma>(s := add_launched ?i g)) u)"
        if "i \<in> launched_new ?k" "u \<noteq> t" for u
        using that nu inv_unclaimed [OF inv, of i t u] g by (auto split: if_splits)
      show "cl_session c = t" if "c \<in> set (claim_rows w)" "cl_instance c \<in> launched_new ?k" for c
        using that nr inv_row_launched [OF inv that(1), of t] g by (auto split: if_splits)
    qed
    with kept [of x] x(4) Inr show ?thesis by (auto simp: reservedSession_def)
  qed
qed

lemma abides_withConnection:
  assumes m: "\<And>w \<gamma> r w'. claims_inv w \<gamma> \<Longrightarrow> \<gamma> s = g \<Longrightarrow> m w = (r, w') \<Longrightarrow>
      \<exists>g'. claims_inv w' (\<gamma>(s := g')) \<and> Q r g' \<and> (\<forall>e. Q (Inl e) g')"
    and no_connection: "\<And>e. Q (Inl e) g"
  shows "abides claims_inv s Q (withConnection H m) g"
  unfolding withConnection_def
proof (rule abides_await)
  fix w \<gamma> r w'
  assume inv: "claims_inv w \<gamma>" and g: "\<gamma> s = g"
    and run: "andthen (at_outside (connect H)) (bnd m (\<lambda>a. andthen (at_outside (answer H)) (ret a))) w = (r, w')"
  obtain rc h1 where c: "connect H (outside w) = (rc, h1)" by fastforce
  let ?w1 = "w\<lparr>outside := h1\<rparr>"
  have inv1: "claims_inv ?w1 \<gamma>" by (rule inv_quiet [OF inv connect_law [OF inv_sound [OF inv] c]])
  show "\<exists>g'. claims_inv w' (\<gamma>(s := g')) \<and> Q r g'"
  proof (cases rc)
    case (Inl e)
    with run c have "r = Inl e" "w' = ?w1" by (simp_all add: andthen_run at_outside_def)
    with inv1 no_connection g show ?thesis by (intro exI [of _ g]) (simp add: fun_upd_idem)
  next
    case (Inr u)
    obtain ra w2 where mw: "m ?w1 = (ra, w2)" by fastforce
    from m [OF inv1 g mw] obtain g' where
      inv2: "claims_inv w2 (\<gamma>(s := g'))" and Q: "Q ra g'" "\<And>e. Q (Inl e) g'" by blast
    show ?thesis
    proof (cases ra)
      case (Inl e)
      with run c Inr mw have "r = Inl e" "w' = w2" by (simp_all add: andthen_run bnd_run at_outside_def)
      with inv2 Q show ?thesis by blast
    next
      case a: (Inr a)
      obtain rb h2 where b: "answer H (outside w2) = (rb, h2)" by fastforce
      have inv3: "claims_inv (w2\<lparr>outside := h2\<rparr>) (\<gamma>(s := g'))"
        by (rule inv_quiet [OF inv2 answer_law [OF inv_sound [OF inv2] b]])
      from run c Inr mw a b have "w' = w2\<lparr>outside := h2\<rparr>" "r = Inr a \<or> (\<exists>e. r = Inl e)"
        by (auto simp: andthen_run bnd_run at_outside_def split: sum.splits prod.splits)
      with inv3 Q a show ?thesis by auto
    qed
  qed
qed

lemma abides_claim:
  assumes i: "i \<in> seen g \<or> i \<in> launched_new g"
    and lost: "\<And>r. r \<noteq> Inr True \<Longrightarrow> Q r g" and won: "Q (Inr True) (add_claimed i g)" "\<And>e. Q (Inl e) (add_claimed i g)"
  shows "abides claims_inv s Q (claim_insert H i s) g"
  unfolding claim_insert_def
proof (rule abides_withConnection)
  fix w \<gamma> w' and r :: "string + bool"
  assume inv: "claims_inv w \<gamma>" and g: "\<gamma> s = g"
    and run: "state_act (\<lambda>w. case stmt_claim (wall_clock H (outside w)) i s (claim_rows w) of
        (b, cs) \<Rightarrow> (b, w\<lparr>claim_rows := cs\<rparr>)) w = (r, w')"
  define n where "n = wall_clock H (outside w)"
  show "\<exists>g'. claims_inv w' (\<gamma>(s := g')) \<and> Q r g' \<and> (\<forall>e. Q (Inl e) g')"
  proof (cases "i \<in> cl_instance ` set (claim_rows w)")
    case True
    with run have "r = Inr False" "w' = w" by (simp_all add: state_act_run stmt_claim_def n_def)
    with inv g lost show ?thesis by (intro exI [of _ g]) (simp add: fun_upd_idem)
  next
    case False
    let ?c = "\<lparr>cl_instance = i, cl_session = s, cl_time = n\<rparr>"
    from run False have r: "r = Inr True" "w' = w\<lparr>claim_rows := claim_rows w @ [?c]\<rparr>"
      by (simp_all add: state_act_run stmt_claim_def n_def)
    have "claims_inv w' (\<gamma>(s := add_claimed i g))"
    proof (rule inv_step [OF inv g, where I = "{}"])
      show "evolves view fresh sound {} (outside w) (outside w')" using inv_sound [OF inv] by (simp add: r)
      show "claims_keyed (claim_rows w')" using inv_keyed [OF inv] False by (auto simp: r claims_keyed_def)
      show "\<exists>c \<in> set (claim_rows w'). names_claim j s c" if "j \<in> claimed (add_claimed i g)" for j
        using that inv_claimed [OF inv, of j s] g by (auto simp: r names_claim_def)
      show "reserved_for (view (outside w') j) s" if "j \<in> reserved (add_claimed i g)" for j
        using that inv_reserved_for [OF inv, of j s] g by (simp add: r)
    qed (use i inv_reserved [OF inv, of _ s] inv_launched [OF inv, of _ s] g in \<open>auto simp: r\<close>)
    with won r show ?thesis by blast
  qed
qed (simp add: lost)

lemma abides_unclaim:
  assumes i: "i \<in> seen g" and dropped: "\<And>r. Q r (drop_claimed i g)"
  shows "abides claims_inv s (\<lambda>r g'. Q r g' \<or> (\<exists>e. r = Inl e \<and> g' = g)) (claim_release H i s) g"
  unfolding claim_release_def
proof (rule abides_withConnection)
  fix w \<gamma> w' and r :: "string + bool"
  assume inv: "claims_inv w \<gamma>" and g: "\<gamma> s = g"
    and run: "state_act (\<lambda>w. (list_ex (names_claim i s) (claim_rows w),
        w\<lparr>claim_rows := sql_delete (names_claim i s) (claim_rows w)\<rparr>)) w = (r, w')"
  from run have w': "w' = w\<lparr>claim_rows := sql_delete (names_claim i s) (claim_rows w)\<rparr>" by (simp add: state_act_run)
  have nl: "i \<notin> launched_new g" using inv_unseen [OF inv, of i s s] i g by blast
  have "claims_inv w' (\<gamma>(s := drop_claimed i g))"
  proof (rule inv_step [OF inv g, where I = "{}"])
    show "evolves view fresh sound {} (outside w) (outside w')" using inv_sound [OF inv] by (simp add: w')
    show "claims_keyed (claim_rows w')" using inv_keyed [OF inv] by (simp add: w' claims_keyed_delete)
    show "c \<in> set (claim_rows w') \<or> cl_session c = s" if "c \<in> set (claim_rows w)" for c
      using that by (auto simp: w' sql_delete_def names_claim_def)
    show "\<exists>c \<in> set (claim_rows w'). names_claim j s c" if "j \<in> claimed (drop_claimed i g)" for j
      using that inv_claimed [OF inv, of j s] g by (auto simp: w' sql_delete_def names_claim_def)
    show "reserved_for (view (outside w') j) s" if "j \<in> reserved (drop_claimed i g)" for j
      using that inv_reserved_for [OF inv, of j s] g by (simp add: w')
  qed (use nl inv_reserved [OF inv, of _ s] inv_launched [OF inv, of _ s] g in \<open>auto simp: w' sql_delete_def\<close>)
  with dropped show "\<exists>g'. claims_inv w' (\<gamma>(s := g')) \<and> (Q r g' \<or> (\<exists>e. r = Inl e \<and> g' = g)) \<and>
      (\<forall>e. Q (Inl e) g' \<or> (\<exists>e'. Inl e = Inl e' \<and> g' = g))" by blast
qed simp

section \<open>Requests keep it\<close>

definition got :: "string + worker_instance \<Rightarrow> knowledge \<Rightarrow> bool" where
  "got r g \<longleftrightarrow> (\<forall>x. r = Inr x \<longrightarrow> wi_id x \<in> reserved g)"

definition got_some :: "string + worker_instance option \<Rightarrow> knowledge \<Rightarrow> bool" where
  "got_some r g \<longleftrightarrow> (\<forall>x. r = Inr (Some x) \<longrightarrow> wi_id x \<in> reserved g)"

lemma abides_await_host:
  assumes "\<And>e. Q (Inl e) g" and "\<And>y. wi_id y = wi_id x \<Longrightarrow> Q (Inr y) g"
  shows "abides claims_inv s Q (hosted (awaitHost H x)) g"
proof (rule abides_quiet)
  fix h r h' assume h: "sound h" "awaitHost H x h = (r, h')"
  note law = await_law [OF h]
  from law show "evolves view fresh sound {} h h'" by (rule conjunct1)
  from law show "Q r g" by (cases r) (auto intro: assms)
qed

lemma abides_announce_then:
  assumes "abides claims_inv s Q p g"
  shows "abides claims_inv s Q (pthen (announce e) p) g"
  by (rule abides_pbind [where R = "\<lambda>_ g'. g' = g"], rule abides_announce) (simp_all add: assms)

lemma abides_ready:
  assumes "wi_id x \<in> reserved g" and "\<And>e. Q (Inl e) g" and "\<And>y. wi_id y \<in> reserved g \<Longrightarrow> Q (Inr y) g"
  shows "abides claims_inv s Q (await_ready H x) g"
  unfolding await_ready_def
proof (rule abides_pbind [where R = "\<lambda>y g'. g' = g \<and> wi_id y \<in> reserved g"])
  show "abides claims_inv s (case_sum (\<lambda>e. Q (Inl e)) (\<lambda>y g'. g' = g \<and> wi_id y \<in> reserved g)) (hosted (awaitHost H x)) g"
    by (rule abides_await_host) (simp_all add: assms(1,2))
next
  show "abides claims_inv s Q (pthen (announce (InstancePendingProvisioning y)) (pret y)) g'"
    if "g' = g \<and> wi_id y \<in> reserved g" for y g'
    by (rule abides_announce_then) (use that assms(3) in simp)
qed

lemma abides_unclaim_then:
  assumes "i \<in> seen g" and Q: "\<And>r g'. seen g' = seen g \<Longrightarrow> Q r g'"
  shows "abides claims_inv s Q (claim_release H i s) g"
proof (rule abides_weaken)
  show "abides claims_inv s (\<lambda>r g'. seen g' = seen g \<or> (\<exists>e. r = Inl e \<and> g' = g)) (claim_release H i s) g"
    by (rule abides_unclaim [OF assms(1)]) simp
  show "Q r g'" if "seen g' = seen g \<or> (\<exists>e. r = Inl e \<and> g' = g)" for r g'
    using that by (intro Q) auto
qed

lemma abides_release_and_throw:
  assumes "i \<in> seen g" and "\<And>e g'. Q (Inl e) g'"
  shows "abides claims_inv s Q (release_and_throw H i s e) g"
  unfolding release_and_throw_def
proof (rule abides_pbind [where R = "\<lambda>_ _. True"])
  show "abides claims_inv s (case_sum (\<lambda>e. Q (Inl e)) (\<lambda>_ _. True)) (claim_release H i s) g"
    by (rule abides_unclaim_then [OF assms(1)]) (simp add: assms(2) split: sum.splits)
qed (simp add: assms(2))

lemma abides_reserve_candidate:
  assumes "wi_id c \<in> seen g" "wi_id c \<in> claimed g" and "rv_sessionId res = Some s"
  shows "abides claims_inv s got (reserve_candidate H s res c) g"
  unfolding reserve_candidate_def
proof (rule abides_pcatch [where R = "\<lambda>_ g'. wi_id c \<in> seen g'"])
  let ?R = "\<lambda>_ g'. wi_id c \<in> seen g' \<and> wi_id c \<in> reserved g'"
  show "abides claims_inv s (case_sum (\<lambda>_ g'. wi_id c \<in> seen g') (\<lambda>a. got (Inr a)))
      (pthen (hosted (reserveAt H (reserve c res))) (await_ready H (reserve c res))) g"
  proof (rule abides_pbind [where R = ?R])
    show "abides claims_inv s (case_sum (\<lambda>e. case_sum (\<lambda>_ g'. wi_id c \<in> seen g') (\<lambda>a. got (Inr a)) (Inl e)) ?R)
        (hosted (reserveAt H (reserve c res))) g"
    proof (rule abides_reserving [where i = "wi_id c" and R = "\<lambda>_. True"])
      fix h r h' assume "sound h" "\<not> fresh h (wi_id c)" "reserveAt H (reserve c res) h = (r, h')"
      from reserve_law [OF this(1) _ this(3)] this(2) assms(3)
      show "evolves view fresh sound {wi_id c} h h' \<and> (\<forall>a. r = Inr a \<longrightarrow> reserved_for (view h' (wi_id c)) s \<and> True)"
        by (auto simp: reserved_for_def reservedSession_def)
    qed (use assms in auto)
  next
    show "abides claims_inv s (case_sum (\<lambda>_ g'. wi_id c \<in> seen g') (\<lambda>a. got (Inr a))) (await_ready H (reserve c res)) g'"
      if "?R a g'" for a :: unit and g'
      by (rule abides_ready) (use that in \<open>auto simp: got_def\<close>)
  qed
next
  show "abides claims_inv s got (release_and_throw H (wi_id c) s e) g'" if "wi_id c \<in> seen g'" for e g'
    by (rule abides_release_and_throw [OF that]) (simp add: got_def)
qed

lemma abides_claim_next:
  assumes i: "i \<in> seen g" and S: "S \<subseteq> seen g"
    and won: "\<And>g'. i \<in> seen g' \<Longrightarrow> i \<in> claimed g' \<Longrightarrow> abides claims_inv s got_some p g'"
    and lost: "\<And>g'. S \<subseteq> seen g' \<Longrightarrow> abides claims_inv s got_some q g'"
  shows "abides claims_inv s got_some (pbind (claim_insert H i s) (\<lambda>won. if won then p else q)) g"
proof (rule abides_pbind [where R = "\<lambda>b g'. S \<subseteq> seen g' \<and> i \<in> seen g' \<and> (b \<longrightarrow> i \<in> claimed g')"])
  show "abides claims_inv s (case_sum (\<lambda>e. got_some (Inl e)) (\<lambda>b g'. S \<subseteq> seen g' \<and> i \<in> seen g' \<and> (b \<longrightarrow> i \<in> claimed g')))
      (claim_insert H i s) g"
    by (rule abides_claim) (use i S in \<open>auto simp: got_some_def split: sum.splits\<close>)
qed (use won lost in auto)

lemma abides_some:
  assumes "abides claims_inv s got p g"
  shows "abides claims_inv s got_some (pbind p (\<lambda>x. pret (Some x))) g"
  by (rule abides_pbind [where R = "\<lambda>x g. wi_id x \<in> reserved g"], rule abides_weaken [OF _ assms])
    (auto simp: got_def got_some_def split: sum.splits)

lemma abides_idle_loop:
  assumes "rv_sessionId res = Some s" and "wi_id ` set cs \<subseteq> seen g"
  shows "abides claims_inv s got_some (idle_loop H s res cs) g"
  using assms(2)
proof (induction cs arbitrary: g)
  case (Cons c cs)
  then show ?case
    unfolding idle_loop.simps
    by (intro abides_claim_next [where S = "wi_id ` set cs"] abides_some abides_reserve_candidate)
       (auto simp: assms(1))
qed (simp add: got_some_def)

lemma abides_start_claimed:
  assumes "wi_id c \<in> seen g" "wi_id c \<in> claimed g" and res: "rv_sessionId res = Some s"
  shows "abides claims_inv s got_some (startClaimedPooledInstance H s res type c) g"
  unfolding startClaimedPooledInstance_def
proof (rule abides_pbind [where R = "\<lambda>x g'. \<forall>y. x = Some y \<longrightarrow> wi_id c \<in> seen g' \<and> wi_id y \<in> reserved g'"])
  let ?R = "\<lambda>x g'. \<forall>y. x = Some y \<longrightarrow> wi_id c \<in> seen g' \<and> wi_id y \<in> reserved g'"
  show "abides claims_inv s (case_sum (\<lambda>e. got_some (Inl e)) ?R)
      (pcatch (pbind (hosted (startPooled H c type res)) (\<lambda>x. pret (Some x)))
        (\<lambda>_. pthen (claim_release H (wi_id c) s) (pret None))) g"
  proof (rule abides_pcatch [where R = "\<lambda>_ g'. wi_id c \<in> seen g'"])
    show "abides claims_inv s (case_sum (\<lambda>_ g'. wi_id c \<in> seen g') (\<lambda>x. case_sum (\<lambda>e. got_some (Inl e)) ?R (Inr x)))
        (pbind (hosted (startPooled H c type res)) (\<lambda>x. pret (Some x))) g"
    proof (rule abides_pbind [where R = "\<lambda>y g'. wi_id c \<in> seen g' \<and> wi_id y \<in> reserved g'"])
      show "abides claims_inv s
          (case_sum (\<lambda>e. case_sum (\<lambda>_ g'. wi_id c \<in> seen g') (\<lambda>x. case_sum (\<lambda>e. got_some (Inl e)) ?R (Inr x)) (Inl e))
            (\<lambda>y g'. wi_id c \<in> seen g' \<and> wi_id y \<in> reserved g')) (hosted (startPooled H c type res)) g"
      proof (rule abides_reserving [where i = "wi_id c" and R = "\<lambda>y. wi_id y = wi_id c"])
        fix h r h' assume "sound h" "\<not> fresh h (wi_id c)" "startPooled H c type res h = (r, h')"
        from start_law [OF this] res
        show "evolves view fresh sound {wi_id c} h h' \<and>
            (\<forall>a. r = Inr a \<longrightarrow> reserved_for (view h' (wi_id c)) s \<and> wi_id a = wi_id c)"
          by (cases r) (simp_all add: reserved_for_def reservedSession_def)
      qed (simp_all add: assms(1,2))
    qed simp
    show "abides claims_inv s (case_sum (\<lambda>e. got_some (Inl e)) ?R) (pthen (claim_release H (wi_id c) s) (pret None)) g'"
      if "wi_id c \<in> seen g'" for g'
    proof (rule abides_pbind [where R = "\<lambda>_ _. True"])
      show "abides claims_inv s (case_sum (\<lambda>e. case_sum (\<lambda>e. got_some (Inl e)) ?R (Inl e)) (\<lambda>_ _. True))
          (claim_release H (wi_id c) s) g'"
        by (rule abides_unclaim_then [OF that]) (simp add: got_some_def split: sum.splits)
    qed simp
  qed
next
  fix x :: "worker_instance option" and g' :: knowledge assume x: "\<forall>y. x = Some y \<longrightarrow> wi_id c \<in> seen g' \<and> wi_id y \<in> reserved g'"
  show "abides claims_inv s got_some (case x of None \<Rightarrow> pret None
      | Some y \<Rightarrow> pcatch (pbind (await_ready H y) (\<lambda>ready. pret (Some ready))) (release_and_throw H (wi_id c) s)) g'"
  proof (cases x)
    case (Some y)
    with x have y: "wi_id c \<in> seen g'" "wi_id y \<in> reserved g'" by auto
    have "abides claims_inv s got_some (pcatch (pbind (await_ready H y) (\<lambda>ready. pret (Some ready)))
        (release_and_throw H (wi_id c) s)) g'"
    proof (rule abides_pcatch [where R = "\<lambda>_ g. wi_id c \<in> seen g"],
        rule abides_pbind [where R = "\<lambda>z g. wi_id z \<in> reserved g"])
      show "abides claims_inv s (case_sum (\<lambda>e. case_sum (\<lambda>_ g. wi_id c \<in> seen g) (\<lambda>a. got_some (Inr a)) (Inl e))
          (\<lambda>z g. wi_id z \<in> reserved g)) (await_ready H y) g'"
        by (rule abides_ready) (use y in auto)
    qed (auto simp: got_some_def intro: abides_release_and_throw)
    with Some show ?thesis by simp
  qed (simp add: got_some_def)
qed

lemma abides_pooled_loop:
  assumes "rv_sessionId res = Some s" and "wi_id ` set cs \<subseteq> seen g"
  shows "abides claims_inv s got_some (pooled_loop H s res type cs) g"
  using assms(2)
proof (induction cs arbitrary: g)
  case (Cons c cs)
  then show ?case
    unfolding pooled_loop.simps
    by (intro abides_claim_next [where S = "wi_id ` set cs"] abides_start_claimed) (auto simp: assms(1))
qed (simp add: got_some_def)

lemma abides_launchInstance:
  assumes res: "rv_sessionId res = Some s"
  shows "abides claims_inv s got (launchInstance H s res type) g"
  unfolding launchInstance_def
proof (rule abides_pbind [where R = "\<lambda>x g. wi_id x \<in> launched_new g \<and> wi_id x \<in> reserved g"])
  show "abides claims_inv s (case_sum (\<lambda>e. got (Inl e)) (\<lambda>x g. wi_id x \<in> launched_new g \<and> wi_id x \<in> reserved g))
      (hosted (launchReserved H type res)) g"
    by (rule abides_launch [OF _ _ res]) (auto simp: got_def)
next
  fix x :: worker_instance and g :: knowledge assume x: "wi_id x \<in> launched_new g \<and> wi_id x \<in> reserved g"
  show "abides claims_inv s got (pthen (pcatch (claim_insert H (wi_id x) s) (\<lambda>_. pret False))
      (pbind (hosted (awaitHost H x)) (\<lambda>ready. pthen (announce (InstanceLaunched ready)) (pret ready)))) g"
  proof (rule abides_pbind [where R = "\<lambda>_ g. wi_id x \<in> reserved g"])
    show "abides claims_inv s (case_sum (\<lambda>e. got (Inl e)) (\<lambda>_ g. wi_id x \<in> reserved g))
        (pcatch (claim_insert H (wi_id x) s) (\<lambda>_. pret False)) g"
      by (rule abides_pcatch [where R = "\<lambda>_ g. wi_id x \<in> reserved g"], rule abides_claim)
        (use x in \<open>auto split: sum.splits\<close>)
  next
    fix b and g :: knowledge assume y: "wi_id x \<in> reserved g"
    show "abides claims_inv s got
        (pbind (hosted (awaitHost H x)) (\<lambda>ready. pthen (announce (InstanceLaunched ready)) (pret ready))) g"
    proof (rule abides_pbind [where R = "\<lambda>z g. wi_id z \<in> reserved g"])
      show "abides claims_inv s (case_sum (\<lambda>e. got (Inl e)) (\<lambda>z g. wi_id z \<in> reserved g)) (hosted (awaitHost H x)) g"
        by (rule abides_await_host) (simp_all add: got_def y)
    next
      show "abides claims_inv s got (pthen (announce (InstanceLaunched z)) (pret z)) g" if "wi_id z \<in> reserved g" for z g
        by (rule abides_announce_then) (simp add: got_def that)
    qed
  qed
qed

lemma abides_pooled_or_launch:
  assumes res: "rv_sessionId res = Some s"
  shows "abides claims_inv s got (pbind (startPooledInstance H s res type) (\<lambda>started. case started of
      Some x \<Rightarrow> pret x | None \<Rightarrow> launchInstance H s res type)) g"
proof (rule abides_pbind [where R = "\<lambda>v g. got_some (Inr v) g"])
  show "abides claims_inv s (case_sum (\<lambda>e. got (Inl e)) (\<lambda>v g. got_some (Inr v) g)) (startPooledInstance H s res type) g"
    unfolding startPooledInstance_def
  proof (rule abides_pbind [where R = "\<lambda>xs g. wi_id ` set xs \<subseteq> seen g"])
    show "abides claims_inv s (case_sum (\<lambda>e. case_sum (\<lambda>e. got (Inl e)) (\<lambda>v g. got_some (Inr v) g) (Inl e))
        (\<lambda>xs g. wi_id ` set xs \<subseteq> seen g)) (hosted (pooledInstances H True)) g"
      by (rule abides_list [OF pooled_law]) (auto simp: got_def split: sum.splits)
  next
    fix xs :: "worker_instance list" and g :: knowledge assume "wi_id ` set xs \<subseteq> seen g"
    then have "abides claims_inv s got_some (pooled_loop H s res type (sort_key launchedAt xs)) g"
      by (intro abides_pooled_loop [OF res]) simp
    then show "abides claims_inv s (case_sum (\<lambda>e. got (Inl e)) (\<lambda>v g. got_some (Inr v) g))
        (pooled_loop H s res type (sort_key launchedAt xs)) g"
      by (rule abides_weaken [rotated]) (auto simp: got_def split: sum.splits)
  qed
next
  show "abides claims_inv s got (case v of Some x \<Rightarrow> pret x | None \<Rightarrow> launchInstance H s res type) g"
    if "got_some (Inr v) g" for v :: "worker_instance option" and g
    using that abides_launchInstance [OF res] by (cases v) (simp_all add: got_def got_some_def)
qed

lemma abides_request:
  "abides claims_inv s got (request_instance H workerType type username s) g"
proof -
  define res where "res = reservation_for username workerType s"
  have res: "rv_sessionId res = Some s" by (simp add: res_def reservation_for_def)
  show ?thesis
    unfolding request_instance_def Let_def res_def [symmetric]
  proof (rule abides_pcatch [where R = "\<lambda>_ _. True"], rule abides_pbind [where R = "\<lambda>xs g. wi_id ` set xs \<subseteq> seen g"])
    show "abides claims_inv s (case_sum (\<lambda>e. case_sum (\<lambda>_ _. True) (\<lambda>a. got (Inr a)) (Inl e))
        (\<lambda>xs g. wi_id ` set xs \<subseteq> seen g)) (hosted (idleInstances H (Some type))) g"
      by (rule abides_list [OF idle_law]) (auto split: sum.splits)
  next
    fix xs :: "worker_instance list" and g :: knowledge assume xs: "wi_id ` set xs \<subseteq> seen g"
    show "abides claims_inv s (case_sum (\<lambda>_ _. True) (\<lambda>a. got (Inr a)))
        (pbind (idle_loop H s res (ordered xs)) (\<lambda>reserved. case reserved of
          Some x \<Rightarrow> pret x
        | None \<Rightarrow> pbind (startPooledInstance H s res type) (\<lambda>started. case started of
            Some x \<Rightarrow> pret x
          | None \<Rightarrow> launchInstance H s res type))) g"
    proof (rule abides_pbind [where R = "\<lambda>v g. got_some (Inr v) g"])
      have "abides claims_inv s got_some (idle_loop H s res (ordered xs)) g"
        using xs by (intro abides_idle_loop [OF res]) (simp add: ordered_def)
      then show "abides claims_inv s (case_sum (\<lambda>e. case_sum (\<lambda>_ _. True) (\<lambda>a. got (Inr a)) (Inl e)) (\<lambda>v g. got_some (Inr v) g))
          (idle_loop H s res (ordered xs)) g"
        by (rule abides_weaken [rotated]) (auto split: sum.splits)
    next
      fix v :: "worker_instance option" and g :: knowledge assume v: "got_some (Inr v) g"
      show "abides claims_inv s (case_sum (\<lambda>_ _. True) (\<lambda>a. got (Inr a))) (case v of
          Some x \<Rightarrow> pret x
        | None \<Rightarrow> pbind (startPooledInstance H s res type) (\<lambda>started. case started of
            Some x \<Rightarrow> pret x
          | None \<Rightarrow> launchInstance H s res type)) g"
      proof (cases v)
        case None
        have "abides claims_inv s (case_sum (\<lambda>_ _. True) (\<lambda>a. got (Inr a)))
            (pbind (startPooledInstance H s res type) (\<lambda>started. case started of
              Some x \<Rightarrow> pret x | None \<Rightarrow> launchInstance H s res type)) g"
          by (rule abides_weaken [OF _ abides_pooled_or_launch [OF res]]) (auto split: sum.splits)
        with None show ?thesis by simp
      qed (use v in \<open>simp add: got_def got_some_def\<close>)
    qed
  next
    show "abides claims_inv s got (pthen (announce (FailedToRequestInstance workerType type e)) (pthrow e)) g" for e g
      by (rule abides_announce_then) (simp add: got_def)
  qed
qed

section \<open>The pool cycle keeps it\<close>

lemma abides_underClaim:
  assumes i: "wi_id x \<in> seen g"
    and law: "\<And>h r h'. sound h \<Longrightarrow> m h = (r, h') \<Longrightarrow> evolves view fresh sound {wi_id x} h h'"
  shows "abides claims_inv s (\<lambda>r g'. seen g' = seen g) (attempt (underClaim H s x (hosted m))) g"
  unfolding attempt_def underClaim_def
proof (rule abides_pcatch [where R = "\<lambda>_ g'. seen g' = seen g"],
    rule abides_pbind [where R = "\<lambda>b g'. seen g' = seen g \<and> (b \<longrightarrow> wi_id x \<in> claimed g')"])
  show "abides claims_inv s (case_sum (\<lambda>e. case_sum (\<lambda>_ g'. seen g' = seen g) (\<lambda>_ g'. seen g' = seen g) (Inl e))
      (\<lambda>b g'. seen g' = seen g \<and> (b \<longrightarrow> wi_id x \<in> claimed g'))) (claim_insert H (wi_id x) s) g"
    by (rule abides_claim) (use i in \<open>auto split: sum.splits\<close>)
next
  fix b and g' :: knowledge assume b: "seen g' = seen g \<and> (b \<longrightarrow> wi_id x \<in> claimed g')"
  show "abides claims_inv s (case_sum (\<lambda>_ g'. seen g' = seen g) (\<lambda>_ g'. seen g' = seen g))
      (if b then pfinally (pthen (hosted m) (pret True)) (pthen (claim_release H (wi_id x) s) (pret ())) else pret False) g'"
  proof (cases b)
    case True
    with b i have x: "wi_id x \<in> seen g'" "wi_id x \<in> claimed g'" by auto
    have body: "abides claims_inv s (\<lambda>_ k. seen k = seen g) (pthen (hosted m) (pret True)) g'"
    proof (rule abides_pbind [where R = "\<lambda>_ k. seen k = seen g"])
      show "abides claims_inv s (case_sum (\<lambda>e k. seen k = seen g) (\<lambda>_ k. seen k = seen g)) (hosted m) g'"
        by (rule abides_on_claimed [OF x]) (use law b in \<open>auto split: sum.splits\<close>)
    qed simp
    have clean: "abides claims_inv s (\<lambda>_ k. seen k = seen g) (pthen (claim_release H (wi_id x) s) (pret ())) k"
      if "seen k = seen g" for k
    proof (rule abides_pbind [where R = "\<lambda>_ k. seen k = seen g"])
      show "abides claims_inv s (case_sum (\<lambda>e k. seen k = seen g) (\<lambda>_ k. seen k = seen g)) (claim_release H (wi_id x) s) k"
        by (rule abides_unclaim_then) (use that i in \<open>auto split: sum.splits\<close>)
    qed simp
    have "abides claims_inv s (case_sum (\<lambda>_ g'. seen g' = seen g) (\<lambda>_ g'. seen g' = seen g))
        (pfinally (pthen (hosted m) (pret True)) (pthen (claim_release H (wi_id x) s) (pret ()))) g'"
      unfolding pfinally_def
    proof (rule abides_pcont [OF body], rule abides_pcont [OF clean])
      fix r1 and r :: "string + bool" and k :: knowledge assume "seen k = seen g"
      then show "abides claims_inv s (case_sum (\<lambda>_ g'. seen g' = seen g) (\<lambda>_ g'. seen g' = seen g))
          (case_sum pthrow (\<lambda>_. Finished r) r1) k"
        by (cases r1; cases r) simp_all
    qed
    with True show ?thesis by simp
  qed (use b in simp)
qed simp

lemma abides_dispose:
  assumes "wi_id ` set xs \<subseteq> seen g"
  shows "abides claims_inv POOL_CYCLE_CLAIM (\<lambda>_ _. True) (dispose_surplus H deficit xs pooled) g"
  using assms
proof (induction xs arbitrary: pooled g)
  case (Cons x xs)
  have next_one: "abides claims_inv POOL_CYCLE_CLAIM (\<lambda>_ _. True)
      (pbind (attempt (underClaim H POOL_CYCLE_CLAIM x (hosted m))) f) g"
    if "\<And>h r h'. sound h \<Longrightarrow> m h = (r, h') \<Longrightarrow> evolves view fresh sound {wi_id x} h h'"
      and "\<And>b. f b = dispose_surplus H deficit xs (k b)"
    for m :: "('h, string, unit) act" and f and k
  proof (rule abides_pbind [where R = "\<lambda>_ k. seen k = seen g"])
    show "abides claims_inv POOL_CYCLE_CLAIM (case_sum (\<lambda>e _. True) (\<lambda>_ k. seen k = seen g))
        (attempt (underClaim H POOL_CYCLE_CLAIM x (hosted m))) g"
      by (rule abides_weaken [OF _ abides_underClaim])
        (use Cons.prems that(1) in \<open>auto split: sum.splits\<close>)
    show "abides claims_inv POOL_CYCLE_CLAIM (\<lambda>_ _. True) (f b) g'" if "seen g' = seen g" for b g'
      unfolding \<open>\<And>b. f b = dispose_surplus H deficit xs (k b)\<close> using Cons.prems that by (intro Cons.IH) auto
  qed
  show ?case
    unfolding dispose_surplus.simps
    by (simp add: next_one [where k = "\<lambda>b. if b then pooled + 1 else pooled", OF pool_law]
        next_one [where k = "\<lambda>_. pooled", OF terminate_law])
qed simp

lemma set_surplus_of: "set (surplus_of targets idle type) \<subseteq> set idle"
  unfolding surplus_of_def Let_def by (auto dest!: in_set_takeD)

lemma abides_sizeRunningIdle:
  "abides claims_inv s (case_sum (\<lambda>_ _. True) (\<lambda>xs g. wi_id ` set xs \<subseteq> seen g)) (sizeRunningIdle H targets) g"
  unfolding sizeRunningIdle_def Let_def
proof (rule abides_pbind [where R = "\<lambda>xs g. wi_id ` set xs \<subseteq> seen g"])
  show "abides claims_inv s (case_sum (\<lambda>e. case_sum (\<lambda>_ _. True) (\<lambda>xs g. wi_id ` set xs \<subseteq> seen g) (Inl e))
      (\<lambda>xs g. wi_id ` set xs \<subseteq> seen g)) (hosted (idleInstances H None)) g"
    by (rule abides_list [OF idle_law]) (auto split: sum.splits)
next
  fix idle :: "worker_instance list" and g :: knowledge assume idle: "wi_id ` set idle \<subseteq> seen g"
  let ?types = "insertion_order (map wi_type idle @ map fst targets)"
  show "abides claims_inv s (case_sum (\<lambda>_ _. True) (\<lambda>xs g. wi_id ` set xs \<subseteq> seen g))
      (pthen (pfor_each ?types (\<lambda>type. if deficit_of targets idle type > 0
          then hosted (launchIdle H type (deficit_of targets idle type)) else pret ()))
        (pret (concat (map (surplus_of targets idle) ?types)))) g"
  proof (rule abides_pbind [where R = "\<lambda>_ g. wi_id ` set idle \<subseteq> seen g"], rule abides_pfor_each [where L = "\<lambda>g. wi_id ` set idle \<subseteq> seen g"])
    fix type and g :: knowledge assume "wi_id ` set idle \<subseteq> seen g"
    then show "abides claims_inv s (case_sum (\<lambda>e. case_sum (\<lambda>e. case_sum (\<lambda>_ _. True) (\<lambda>xs g. wi_id ` set xs \<subseteq> seen g) (Inl e))
          (\<lambda>_ g. wi_id ` set idle \<subseteq> seen g) (Inl e)) (\<lambda>_ g. wi_id ` set idle \<subseteq> seen g))
        (if deficit_of targets idle type > 0 then hosted (launchIdle H type (deficit_of targets idle type)) else pret ()) g"
      by (cases "deficit_of targets idle type > 0")
         (auto intro!: abides_quiet launchIdle_law split: sum.splits)
  next
    fix u and g :: knowledge assume "wi_id ` set idle \<subseteq> seen g"
    then show "abides claims_inv s (case_sum (\<lambda>_ _. True) (\<lambda>xs g. wi_id ` set xs \<subseteq> seen g))
        (pret (concat (map (surplus_of targets idle) ?types))) g"
      using set_surplus_of [of targets idle] by fastforce
  qed (use idle in auto)
qed

lemma abides_stoppedPoolState:
  assumes "S \<subseteq> seen g"
  shows "abides claims_inv s (case_sum (\<lambda>_ _. True) (\<lambda>_ g. S \<subseteq> seen g)) (stoppedPoolState H n) g"
proof -
  have list: "abides claims_inv s (case_sum (\<lambda>_ _. True) (\<lambda>_ g. S \<subseteq> seen g)) (hosted (pooledInstances H b)) g"
    if "S \<subseteq> seen g" for b g
    by (rule abides_list [OF pooled_law]) (use that in \<open>auto split: sum.splits\<close>)
  show ?thesis
    unfolding stoppedPoolState_def
    by (rule abides_pbind [where R = "\<lambda>_ g. S \<subseteq> seen g"],
        rule abides_weaken [OF _ list [OF assms]], simp_all split: sum.splits)
       (rule abides_pbind [where R = "\<lambda>_ g. S \<subseteq> seen g"], rule abides_weaken [OF _ list], simp_all split: sum.splits)
qed

lemma abides_sizeIdlePool:
  "abides claims_inv POOL_CYCLE_CLAIM (\<lambda>_ _. True) (sizeIdlePool H targets n) g"
  unfolding sizeIdlePool_def
proof (rule abides_pbind [where R = "\<lambda>xs g. wi_id ` set xs \<subseteq> seen g"])
  show "abides claims_inv POOL_CYCLE_CLAIM (case_sum (\<lambda>_ _. True) (\<lambda>xs g. wi_id ` set xs \<subseteq> seen g)) (sizeRunningIdle H targets) g"
    by (rule abides_sizeRunningIdle)
next
  fix surplus :: "worker_instance list" and g :: knowledge assume s: "wi_id ` set surplus \<subseteq> seen g"
  let ?rest = "\<lambda>(deficit, warming). pbind (dispose_surplus H deficit (sort_key launchedAt surplus) 0) (\<lambda>pooled.
     (let warmUps = min (deficit - pooled) (MAX_CONCURRENT_WARM_UPS - warming) in
      if warmUps > 0 then pthen (attempt (pthen (hosted (launchPooled H (nat warmUps))) (pret True))) (pret ()) else pret ()))"
  show "abides claims_inv POOL_CYCLE_CLAIM (\<lambda>_ _. True)
      (pbind (if n > 0 then stoppedPoolState H n else pret (0, 0)) ?rest) g"
  proof (rule abides_pbind [where R = "\<lambda>_ g. wi_id ` set surplus \<subseteq> seen g"])
    show "abides claims_inv POOL_CYCLE_CLAIM (case_sum (\<lambda>_ _. True) (\<lambda>_ g. wi_id ` set surplus \<subseteq> seen g))
        (if n > 0 then stoppedPoolState H n else pret (0, 0)) g"
      using abides_stoppedPoolState [OF s] s by simp
  next
    fix dw :: "int \<times> int" and g :: knowledge assume s: "wi_id ` set surplus \<subseteq> seen g"
    have warm: "abides claims_inv POOL_CYCLE_CLAIM (\<lambda>_ _. True)
        (pthen (attempt (pthen (hosted (launchPooled H k)) (pret True))) (pret ())) g" for k g
      unfolding attempt_def
      by (rule abides_pbind [where R = "\<lambda>_ _. True"], rule abides_pcatch [where R = "\<lambda>_ _. True"],
          rule abides_pbind [where R = "\<lambda>_ _. True"], rule abides_quiet)
         (auto intro: launchPooled_law split: sum.splits)
    have "abides claims_inv POOL_CYCLE_CLAIM (\<lambda>_ _. True) (dispose_surplus H d (sort_key launchedAt surplus) 0) g" for d
      by (rule abides_dispose) (use s in simp)
    then show "abides claims_inv POOL_CYCLE_CLAIM (\<lambda>_ _. True) (?rest dw) g"
      by (cases dw) (auto simp: Let_def warm intro!: abides_pbind [where R = "\<lambda>_ _. True"]
          elim: abides_weaken [rotated] split: sum.splits)
  qed
qed

lemma abides_runPoolCycle:
  "abides claims_inv POOL_CYCLE_CLAIM (\<lambda>_ _. True) (runPoolCycle H targets n) g"
  unfolding runPoolCycle_def
proof (rule abides_pbind [where R = "\<lambda>_ _. True"])
  show "abides claims_inv POOL_CYCLE_CLAIM (case_sum (\<lambda>e _. True) (\<lambda>_ _. True))
      (pcatch (sizeIdlePool H targets n) (\<lambda>_. pret ())) g"
    by (rule abides_pcatch [where R = "\<lambda>_ _. True"], rule abides_weaken [OF _ abides_sizeIdlePool])
       (auto split: sum.splits)
  show "abides claims_inv POOL_CYCLE_CLAIM (\<lambda>_ _. True) (pcatch (hosted (sweep H)) (\<lambda>_. pret ())) g" for g
    by (rule abides_pcatch [where R = "\<lambda>_ _. True"], rule abides_quiet)
       (auto intro: sweep_law split: sum.splits)
qed

end

section \<open>Exclusive allocation\<close>

definition request_process ::
  "('h, 'z) hosting_scheme \<Rightarrow> string \<Rightarrow> string \<Rightarrow> string \<Rightarrow> string \<Rightarrow> ('h, worker_instance option) ins" where
  "request_process H workerType type username s =
     pbind (request_instance H workerType type username s) (\<lambda>x. pret (Some x))"

definition pool_process :: "('h, 'z) hosting_scheme \<Rightarrow> (string \<times> nat) list \<Rightarrow> nat \<Rightarrow> ('h, worker_instance option) ins" where
  "pool_process H targets n = pbind (runPoolCycle H targets n) (\<lambda>_. pret None)"

text \<open>Any number of requests, one for each session, and a pool cycle.\<close>

definition requests_and_pool_cycle ::
  "('h, 'z) hosting_scheme \<Rightarrow> (string \<Rightarrow> ('h, worker_instance option) ins) \<Rightarrow> bool" where
  "requests_and_pool_cycle H ps \<longleftrightarrow> (\<forall>k. ps k = pret None \<or>
     (\<exists>workerType type username. ps k = request_process H workerType type username k) \<or>
     k = POOL_CYCLE_CLAIM \<and> (\<exists>targets n. ps k = pool_process H targets n))"

definition no_future_claims :: "('h \<Rightarrow> string \<Rightarrow> bool) \<Rightarrow> 'h instance_server \<Rightarrow> bool" where
  "no_future_claims fresh w \<longleftrightarrow> claims_keyed (claim_rows w) \<and> (\<forall>c \<in> set (claim_rows w). \<not> fresh (outside w) (cl_instance c))"

context hosting_service
begin

lemma abides_process:
  assumes "requests_and_pool_cycle H ps"
  shows "abides claims_inv k got_some (ps k) g"
proof -
  consider "ps k = pret None" | workerType type username where "ps k = request_process H workerType type username k"
    | targets n where "k = POOL_CYCLE_CLAIM" "ps k = pool_process H targets n"
    using assms unfolding requests_and_pool_cycle_def by blast
  then show ?thesis
  proof cases
    case (3 targets n)
    then show ?thesis
      unfolding 3(2) pool_process_def unfolding 3(1)
      by (intro abides_pbind [where R = "\<lambda>_ _. True"] abides_weaken [OF _ abides_runPoolCycle])
         (auto simp: got_some_def split: sum.splits)
  qed (auto simp: got_some_def request_process_def intro: abides_some abides_request)
qed

theorem allocation_exclusive:
  assumes "requests_and_pool_cycle H ps" and "sound (outside w)" and "no_future_claims fresh w"
    and "steps (w, ps) (w', ps')" and "ps' s = Finished (Inr (Some x))"
  shows "reserved_for (view (outside w') (wi_id x)) s"
    and "c \<in> set (claim_rows w') \<Longrightarrow> cl_instance c = wi_id x \<Longrightarrow> cl_session c = s"
proof -
  have "claims_inv w (\<lambda>_. no_knowledge)"
    using assms(2,3) by (auto simp: claims_inv_def no_future_claims_def no_knowledge_def)
  from steps_respect_result [OF assms(4) this abides_process [OF assms(1)]]
  obtain \<gamma> where inv: "claims_inv w' \<gamma>" and res: "\<And>k r. ps' k = Finished r \<Longrightarrow> got_some r (\<gamma> k)" by blast
  from res [OF assms(5)] have x: "wi_id x \<in> reserved (\<gamma> s)" by (simp add: got_some_def)
  show "reserved_for (view (outside w') (wi_id x)) s" by (rule inv_reserved_for [OF inv x])
  show "cl_session c = s" if c: "c \<in> set (claim_rows w')" "cl_instance c = wi_id x"
  proof (cases "wi_id x \<in> claimed (\<gamma> s)")
    case True
    from inv_claimed [OF inv True] obtain d where "d \<in> set (claim_rows w')" "cl_instance d = wi_id x" "cl_session d = s"
      by (auto simp: names_claim_def)
    with claims_keyed_eq [OF inv_keyed [OF inv] c(1), of d] c(2) show ?thesis by simp
  next
    case False
    with inv_reserved [OF inv x] inv_row_launched [OF inv c(1), of s] c(2) show ?thesis by simp
  qed
qed

end

end
