(* ===== verification/WorkerInstances.thy ===== *)
theory WorkerInstances
  imports InstanceClaims
begin

text \<open>
  What the instance component promises: exclusive allocation under every interleaving, releases and
  sweeps that leave other sessions' instances alone, and provisioning that settles.
\<close>

section \<open>What a release touches\<close>

lemma snd_at_outside: "snd (at_outside m w) = w\<lparr>outside := snd (m (outside w))\<rparr>"
  by (simp add: at_outside_def split: prod.splits)

definition keeps_claims :: "(claim \<Rightarrow> bool) \<Rightarrow> 'h instance_server \<Rightarrow> 'h instance_server \<Rightarrow> bool" where
  "keeps_claims S w w' \<longleftrightarrow> (\<forall>c \<in> set (claim_rows w). \<not> S c \<longrightarrow> c \<in> set (claim_rows w'))"

interpretation kc: evolution "keeps_claims S" for S
  by unfold_locales (auto simp: keeps_claims_def)

lemma keeps_claims_outside: "runs_in (keeps_claims S) (at_outside m)"
  by (auto simp: runs_in_def at_outside_def keeps_claims_def split: prod.splits)

lemma keeps_claims_same [intro!]:
  "does (keeps_claims S) (hosted m)" "does (keeps_claims S) (announce e)" "does (keeps_claims S) (Date_now H)"
  "does (keeps_claims S) (registry_forget i)" "does (keeps_claims S) (release_enter k)" "does (keeps_claims S) (release_leave k)"
  by (auto simp: hosted_def announce_def Date_now_def registry_forget_def release_enter_def release_leave_def
      keeps_claims_def state_act_run intro!: kc.runs_in_modify kc.runs_in_state_act keeps_claims_outside)

lemma keeps_claims_connection: "runs_in (keeps_claims S) m \<Longrightarrow> does (keeps_claims S) (withConnection H m)"
  unfolding withConnection_def by (auto intro!: kc.runs_in_andthen kc.runs_in_bnd keeps_claims_outside)

lemma keeps_claims_release:
  assumes "\<And>t c. s = Some t \<Longrightarrow> names_claim i t c \<Longrightarrow> S c"
  shows "does (keeps_claims S) (claim_release_of H i s)"
proof (cases s)
  case None
  then show ?thesis by (auto simp: claim_release_of_def intro!: keeps_claims_connection)
next
  case (Some t)
  have "runs_in (keeps_claims S) (state_act (\<lambda>w. (list_ex (names_claim i t) (claim_rows w),
      w\<lparr>claim_rows := sql_delete (names_claim i t) (claim_rows w)\<rparr>)))"
    by (rule kc.runs_in_state_act) (use assms [OF Some] in \<open>auto simp: keeps_claims_def sql_delete_def\<close>)
  then show ?thesis
    by (auto simp: claim_release_of_def Some claim_release_def intro!: keeps_claims_connection)
qed

lemma keeps_claims_release_instance:
  assumes "\<And>t c. s = Some t \<Longrightarrow> names_claim i t c \<Longrightarrow> S c"
  shows "does (keeps_claims S) (release_instance H i s)"
proof -
  note rel = keeps_claims_release [OF assms]
  have "does (keeps_claims S) (tear_down H i x s)" for x
    unfolding tear_down_def by (intro kc.does_pbind kc.does_if kc.does_pret keeps_claims_same rel)
  then show ?thesis
    unfolding release_instance_def releaseFromSession_def recover_release_def Let_def
    by (intro kc.does_pbind kc.does_pcatch kc.does_pfinally kc.does_if kc.does_pret keeps_claims_same rel)
       (auto split: option.splits intro: rel)
qed

text \<open>On the local service: every instance but the one named is untouched.\<close>

definition only_instance :: "string set \<Rightarrow> local_state instance_server \<Rightarrow> local_state instance_server \<Rightarrow> bool" where
  "only_instance I w w' \<longleftrightarrow> (\<forall>j. j \<notin> I \<longrightarrow> local_get (outside w') j = local_get (outside w) j)"

interpretation oi: evolution "only_instance I" for I
  by unfold_locales (auto simp: only_instance_def)

lemma only_instance_hosted:
  "(\<And>h. \<forall>j. j \<notin> I \<longrightarrow> local_get (snd (m h)) j = local_get h j) \<Longrightarrow> does (only_instance I) (hosted m)"
  by (simp add: runs_in_def hosted_def only_instance_def snd_at_outside)

lemma local_outage_get [simp]: "local_get (snd (local_outage m h)) = local_get h"
  by (rule ext) (auto simp: local_outage_def local_get_def split: list.splits)

lemma only_instance_same [intro!]:
  "does (only_instance I) (announce e)" "does (only_instance I) (Date_now H)"
  "does (only_instance I) (registry_forget i)" "does (only_instance I) (release_enter k)" "does (only_instance I) (release_leave k)"
  by (auto simp: announce_def Date_now_def registry_forget_def release_enter_def release_leave_def
      only_instance_def state_act_run intro!: oi.runs_in_modify oi.runs_in_state_act)

lemma only_instance_connection:
  "(\<And>w. outside (snd (m w)) = outside w) \<Longrightarrow> does (only_instance I) (withConnection local_hosting m)"
  unfolding withConnection_def run_await
  by (intro oi.runs_in_andthen oi.runs_in_bnd oi.runs_in_ret)
     (simp_all add: local_hosting_def only_instance_def snd_at_outside runs_in_def)

lemma only_instance_local:
  assumes "i \<in> I"
  shows "does (only_instance I) (hosted (getInstance local_hosting i))" "does (only_instance I) (hosted (releaseAt local_hosting i))"
    "does (only_instance I) (hosted (terminate local_hosting i))" "does (only_instance I) (hosted (undeploy local_hosting x))"
    "does (only_instance I) (hosted (deleteScratchVolume local_hosting i))"
proof -
  have "local_get h i = Some y \<Longrightarrow> wi_id y = i" for h y
    by (auto simp: local_get_def dest: find_Some_key)
  then show "does (only_instance I) (hosted (releaseAt local_hosting i))"
    using assms by (intro only_instance_hosted) (auto simp: local_hosting_def local_release_def split: option.splits)
qed (use assms in \<open>auto intro!: only_instance_hosted simp: local_hosting_def local_terminate_def local_get_terminate\<close>)

lemma only_instance_release:
  assumes "i \<in> I"
  shows "does (only_instance I) (release_instance local_hosting i s)"
proof -
  have rel: "does (only_instance I) (claim_release_of local_hosting i s)"
    unfolding claim_release_of_def claim_release_def
    by (auto simp: state_act_run split: option.splits intro!: only_instance_connection)
  note here = only_instance_local [OF assms]
  have "does (only_instance I) (tear_down local_hosting i x s)" for x
    unfolding tear_down_def by (intro oi.does_pbind oi.does_if oi.does_pret only_instance_same rel here)
  then show ?thesis
    unfolding release_instance_def releaseFromSession_def recover_release_def Let_def
    by (intro oi.does_pbind oi.does_pcatch oi.does_pfinally oi.does_if oi.does_pret only_instance_same rel here)
       (auto split: option.splits intro: rel)
qed

section \<open>A release, run to its end while nothing fails\<close>

definition no_outage :: "local_state \<Rightarrow> bool" where
  "no_outage h \<longleftrightarrow> True \<notin> set (outages h)"

definition next_answer :: "local_state \<Rightarrow> local_state" where
  "next_answer h = h\<lparr>outages := tl (outages h)\<rparr>"

lemma local_outage_ok: "no_outage h \<Longrightarrow> local_outage m h = (Inr (), next_answer h)"
  by (cases "outages h") (auto simp: local_outage_def no_outage_def next_answer_def)

lemma no_outage_simps [simp]:
  "no_outage h \<Longrightarrow> no_outage (next_answer h)" "no_outage (updateInstance x h) \<longleftrightarrow> no_outage h"
  "local_get (next_answer h) = local_get h" "workerInstanceById (next_answer h) = workerInstanceById h"
  "local_clock (next_answer h) = local_clock h"
  by (cases "outages h"; auto simp: no_outage_def next_answer_def local_get_def)+

lemmas run_simps = prog_simps effect_simps hosted_def at_outside_def withConnection_def announce_def

lemma run_claim_release_of:
  assumes "no_outage (outside w)"
  shows "\<exists>h. run (claim_release_of local_hosting i s) w = (Inr (), w\<lparr>outside := h,
      claim_rows := sql_delete (\<lambda>c. cl_instance c = i \<and> Some (cl_session c) = s) (claim_rows w)\<rparr>) \<and>
    no_outage h \<and> local_get h = local_get (outside w) \<and> local_clock h = local_clock (outside w)"
proof (cases s)
  case None
  have "sql_delete (\<lambda>c. cl_instance c = i \<and> Some (cl_session c) = s) (claim_rows w) = claim_rows w"
    by (simp add: None sql_delete_def)
  with assms None show ?thesis
    by (intro exI [of _ "next_answer (next_answer (outside w))"])
       (simp add: claim_release_of_def run_simps local_hosting_def local_outage_ok)
next
  case (Some t)
  have "(\<lambda>c. cl_instance c = i \<and> Some (cl_session c) = s) = names_claim i t"
    by (auto simp: Some names_claim_def)
  with assms show ?thesis
    by (intro exI [of _ "next_answer (next_answer (outside w))"])
       (simp add: Some claim_release_of_def claim_release_def run_simps local_hosting_def local_outage_ok)
qed

text \<open>
  What a release from a session leaves of an instance: the reservation goes when it names that session,
  or none.
\<close>

definition freed :: "worker_instance option \<Rightarrow> string option \<Rightarrow> worker_instance option" where
  "freed v s = (case v of None \<Rightarrow> None
     | Some x \<Rightarrow> (case wi_reservation x of None \<Rightarrow> Some x
        | Some r \<Rightarrow> if rv_sessionId r \<in> {None, Some [], s} then Some (unreserve x) else Some x))"

lemma freed_simps [simp]:
  "freed None s = None"
  "freed (Some x) s = (if isReservedFor x s then Some (unreserve x) else Some x)"
  by (auto simp: freed_def isReservedFor_def split: option.splits)

lemma run_tear_down:
  assumes "no_outage (outside w)" and x: "local_get (outside w) i = Some x"
  shows "\<exists>w'. run (tear_down local_hosting i x s) w = (Inr (), w') \<and>
    claim_rows w' = sql_delete (\<lambda>c. cl_instance c = i \<and> Some (cl_session c) = s) (claim_rows w) \<and>
    local_get (outside w') i = Some (unreserve x) \<and> releasing w' = releasing w \<and> provisioning w' i = None \<and>
    instance_events w' = instance_events w @ [InstanceReleased (unreserve x)]"
proof -
  let ?w1 = "w\<lparr>provisioning := (provisioning w)(i := None)\<rparr>"
  let ?w2 = "if hasHost x then ?w1\<lparr>outside := next_answer (outside w)\<rparr> else ?w1"
  have ok: "no_outage (outside ?w2)" "local_get (outside ?w2) = local_get (outside w)" using assms by auto
  from run_claim_release_of [OF ok(1), of i s] obtain h where
    h: "run (claim_release_of local_hosting i s) ?w2 = (Inr (), ?w2\<lparr>outside := h,
        claim_rows := sql_delete (\<lambda>c. cl_instance c = i \<and> Some (cl_session c) = s) (claim_rows ?w2)\<rparr>)"
      "local_get h = local_get (outside w)" using ok(2) by auto
  have "wi_id x = i" using x by (auto simp: local_get_def dest: find_Some_key)
  with assms h show ?thesis
    by (cases "hasHost x") (auto simp: tear_down_def registry_forget_def run_simps local_hosting_def local_release_def local_outage_ok)
qed

text \<open>
  Releasing an instance from a session frees the instance only when it is reserved for that
  session; in every case the session's claim on it goes and every other instance and claim stays.
\<close>

theorem release_only_from_session:
  assumes "releasing_key i s \<notin> releasing w" and "no_outage (outside w)"
    and "run (release_instance local_hosting i s) w = (r, w')"
  shows "r = Inr () \<and> local_get (outside w') i = freed (local_get (outside w) i) s \<and>
    (\<forall>j. j \<noteq> i \<longrightarrow> local_get (outside w') j = local_get (outside w) j) \<and>
    claim_rows w' = sql_delete (\<lambda>c. cl_instance c = i \<and> Some (cl_session c) = s) (claim_rows w)"
proof -
  have others: "\<forall>j. j \<noteq> i \<longrightarrow> local_get (outside w') j = local_get (outside w) j"
    using runs_inD_run [OF only_instance_release [of i "{i}"] assms(3)] by (simp add: only_instance_def)
  let ?w = "w\<lparr>releasing := insert (releasing_key i s) (releasing w)\<rparr>"
  let ?d = "sql_delete (\<lambda>c. cl_instance c = i \<and> Some (cl_session c) = s) (claim_rows w)"
  have "\<exists>v. run (releaseFromSession local_hosting i s) ?w = (Inr (), v) \<and> claim_rows v = ?d \<and>
      local_get (outside v) i = freed (local_get (outside w) i) s"
  proof (cases "\<exists>x. local_get (outside w) i = Some x \<and> isReservedFor x s")
    case True
    then obtain x where x: "local_get (outside w) i = Some x" "isReservedFor x s" by blast
    from run_tear_down [of ?w i x s] x assms(2) obtain v where
      "run (tear_down local_hosting i x s) ?w = (Inr (), v)" "claim_rows v = ?d" "local_get (outside v) i = Some (unreserve x)"
      by auto
    with x show ?thesis by (simp add: releaseFromSession_def run_simps local_hosting_def)
  next
    case False
    from run_claim_release_of [of ?w i s] assms(2) obtain h where
      "run (claim_release_of local_hosting i s) ?w = (Inr (), ?w\<lparr>outside := h, claim_rows := ?d\<rparr>)"
      "local_get h = local_get (outside w)" by auto
    with False show ?thesis
      by (cases "local_get (outside w) i") (auto simp: releaseFromSession_def run_simps local_hosting_def)
  qed
  then obtain v where v: "run (releaseFromSession local_hosting i s) ?w = (Inr (), v)" "claim_rows v = ?d"
    "local_get (outside v) i = freed (local_get (outside w) i) s" by blast
  have "run (release_instance local_hosting i s) w = (Inr (), v\<lparr>releasing := releasing v - {releasing_key i s}\<rparr>)"
    using assms(1) v(1) by (simp add: release_instance_def Let_def release_enter_def release_leave_def run_simps)
  with assms(3) v others show ?thesis by auto
qed

section \<open>Sweeps spare what is in use\<close>

definition spared_claim :: "string list \<Rightarrow> int \<Rightarrow> local_state \<Rightarrow> claim \<Rightarrow> bool" where
  "spared_claim opens graceMs h c \<longleftrightarrow> local_clock h - cl_time c \<le> graceMs \<or>
     cl_session c \<in> set opens \<and> local_get h (cl_instance c) \<noteq> None"

definition leaves_others :: "claim \<Rightarrow> local_state instance_server \<Rightarrow> local_state instance_server \<Rightarrow> bool" where
  "leaves_others c w w' \<longleftrightarrow> keeps_claims (\<lambda>d. cl_instance d \<noteq> cl_instance c) w w' \<and> only_instance (- {cl_instance c}) w w'"

interpretation sp: evolution "leaves_others c" for c
  by unfold_locales (auto simp: leaves_others_def kc.evolves_refl oi.evolves_refl intro: kc.evolves_trans oi.evolves_trans)

lemma spares_both:
  "does (keeps_claims (\<lambda>d. cl_instance d \<noteq> cl_instance c)) p \<Longrightarrow> does (only_instance (- {cl_instance c})) p \<Longrightarrow> does (leaves_others c) p"
  by (simp add: runs_in_def leaves_others_def)

lemma spares_release:
  assumes "i \<noteq> cl_instance c"
  shows "does (leaves_others c) (release_instance local_hosting i s)" "does (leaves_others c) (claim_release_of local_hosting i s)"
proof -
  have rel: "does (only_instance (- {cl_instance c})) (claim_release_of local_hosting i s)"
    unfolding claim_release_of_def claim_release_def
    by (auto simp: state_act_run split: option.splits intro!: only_instance_connection)
  show "does (leaves_others c) (release_instance local_hosting i s)" "does (leaves_others c) (claim_release_of local_hosting i s)"
    by (intro spares_both only_instance_release keeps_claims_release_instance keeps_claims_release rel;
        use assms in \<open>auto simp: names_claim_def\<close>)+
qed

lemma spares_reclaim_loop:
  assumes "\<And>d. d \<in> set cs \<Longrightarrow> cl_instance d = cl_instance c \<Longrightarrow> n - cl_time d \<le> graceMs \<or>
      cl_instance d \<in> set live \<and> cl_session d \<in> set opens"
  shows "does (leaves_others c) (reclaim_loop local_hosting live opens n graceMs cs k)"
  using assms
proof (induction cs arbitrary: k)
  case (Cons d cs)
  have "does (leaves_others c) (reclaim_one local_hosting live opens n graceMs d)"
  proof (cases "cl_instance d = cl_instance c")
    case True
    with Cons.prems [of d] show ?thesis by (auto simp: reclaim_one_def Let_def)
  next
    case False
    then show ?thesis
      unfolding reclaim_one_def Let_def
      by (intro sp.does_if sp.does_pret sp.does_pcatch sp.does_pbind spares_release)
  qed
  with Cons show ?case by (simp only: reclaim_loop.simps) (intro sp.does_pbind Cons.IH; auto)
qed auto

lemma local_live: "set (map wi_id (filter isIdle xs @ filter isReserved xs)) = wi_id ` set xs"
  by (auto simp: isIdle_def)

lemma local_get_listed: "local_get h i \<noteq> None \<longleftrightarrow> i \<in> wi_id ` set (workerInstanceById h)"
  by (auto simp: local_get_def find_None_key image_iff)

text \<open>
  C14: Reclaiming stale claims keeps every claim that is within the grace period, or that an open
  session has on an instance that exists, and leaves the instance of such a claim alone.
\<close>

theorem reclaim_spares_live:
  assumes "claims_keyed (claim_rows w)" and "c \<in> set (claim_rows w)"
    and "spared_claim opens graceMs (outside w) c"
    and "run (reclaimStaleClaims local_hosting opens graceMs) w = (r, w')"
  shows "c \<in> set (claim_rows w') \<and> local_get (outside w') (cl_instance c) = local_get (outside w) (cl_instance c)"
proof -
  let ?live = "map wi_id (filter isIdle (workerInstanceById (outside w)) @ filter isReserved (workerInstanceById (outside w)))"
  let ?n = "local_clock (outside w)"
  let ?loop = "\<lambda>cs. reclaim_loop local_hosting ?live opens ?n graceMs cs 0"
  have "run (reclaimStaleClaims local_hosting opens graceMs) w = run (pbind (all_claims local_hosting) ?loop) w"
    by (simp add: reclaimStaleClaims_def Date_now_def run_simps local_hosting_def local_idle_def local_reserved_def)
  with assms(4) have w': "w' = snd (run (pbind (all_claims local_hosting) ?loop) w)" by (metis snd_conv)
  have "leaves_others c w w'"
  proof -
    obtain ra wa where a: "run (all_claims local_hosting) w = (ra, wa)" by fastforce
    have "does (leaves_others c) (all_claims local_hosting)"
      unfolding all_claims_def by (intro spares_both keeps_claims_connection only_instance_connection) auto
    from runs_inD_run [OF this a] have wa: "leaves_others c w wa" .
    show ?thesis
    proof (cases ra)
      case (Inr cs)
      with a have cs: "cs = claim_rows w"
        by (auto simp: all_claims_def run_simps split: sum.splits prod.splits)
      have "does (leaves_others c) (?loop cs)"
      proof (rule spares_reclaim_loop)
        fix d assume "d \<in> set cs" "cl_instance d = cl_instance c"
        with claims_keyed_eq [OF assms(1) assms(2), of d] cs have "d = c" by simp
        with assms(3) show "?n - cl_time d \<le> graceMs \<or> cl_instance d \<in> set ?live \<and> cl_session d \<in> set opens"
          unfolding spared_claim_def local_live local_get_listed by auto
      qed
      from runs_inD [OF this, of wa] have "leaves_others c wa w'" by (simp add: w' run_pbind bnd_run a Inr)
      with wa show ?thesis by (rule sp.evolves_trans)
    qed (use a wa in \<open>simp add: w' run_pbind bnd_run\<close>)
  qed
  with assms(2) show ?thesis by (auto simp: leaves_others_def keeps_claims_def only_instance_def)
qed

text \<open>
  Releasing unused instances touches no instance that is in use, that any claim names, that is
  idle or that is not older than the minimum age, and drops no claim.
\<close>

theorem releaseUnused_spares:
  assumes "local_sound (outside w)" and "local_get (outside w) i = Some x"
    and "i \<in> set used \<or> i \<in> cl_instance ` set (claim_rows w) \<or> isIdle x \<or>
      (\<forall>t. wi_launchTime x = Some t \<longrightarrow> of_int (local_clock (outside w) - t) \<le> minAgeMs minAge u)"
    and "run (releaseUnusedInstances local_hosting used minAge u) w = (r, w')"
  shows "local_get (outside w') i = Some x \<and> set (claim_rows w) \<subseteq> set (claim_rows w')"
proof -
  let ?res = "filter isReserved (workerInstanceById (outside w))"
  let ?sel = "\<lambda>cs. filter (unused used (map cl_instance cs) (local_clock (outside w)) (minAgeMs minAge u)) ?res"
  let ?loop = "\<lambda>cs. pfor_each (?sel cs) (\<lambda>x. pcatch (release_instance local_hosting (wi_id x) (reservedSession x)) (\<lambda>_. pret ()))"

  have run: "run (releaseUnusedInstances local_hosting used minAge u) w = run (pbind (all_claims local_hosting) ?loop) w"
    by (simp add: releaseUnusedInstances_def Date_now_def run_simps local_hosting_def local_reserved_def)
  obtain ra wa where a: "run (all_claims local_hosting) w = (ra, wa)" by fastforce
  have quiet: "does (only_instance (- {i})) (all_claims local_hosting)" "does (keeps_claims (\<lambda>_. False)) (all_claims local_hosting)"
    unfolding all_claims_def by (auto intro!: keeps_claims_connection only_instance_connection)
  have wa: "only_instance (- {i}) w wa" "set (claim_rows w) \<subseteq> set (claim_rows wa)"
    using runs_inD_run [OF quiet(1) a] runs_inD_run [OF quiet(2) a] by (auto simp: keeps_claims_def)
  have "only_instance (- {i}) w w' \<and> set (claim_rows w) \<subseteq> set (claim_rows w')"
  proof (cases ra)
    case (Inl e)
    with assms(4) run a wa show ?thesis by (simp add: run_pbind bnd_run)
  next
    case (Inr cs)
    with a have cs: "cs = claim_rows w"
      by (auto simp: all_claims_def run_simps split: sum.splits prod.splits)
    from Inr assms(4) run a have w': "run (?loop cs) wa = (r, w')" by (simp add: run_pbind bnd_run)
    have not_i: "wi_id y \<noteq> i" "wi_id y \<notin> cl_instance ` set (claim_rows w)" if "y \<in> set (?sel cs)" for y
    proof -
      from that have y: "y \<in> set (workerInstanceById (outside w))" "isReserved y"
        "unused used (map cl_instance cs) (local_clock (outside w)) (minAgeMs minAge u) y" by auto
      from y(3) show "wi_id y \<notin> cl_instance ` set (claim_rows w)" by (auto simp: unused_def cs)
      show "wi_id y \<noteq> i"
      proof
        assume "wi_id y = i"
        with local_get_in [OF assms(1) y(1)] assms(2) have "y = x" by simp
        with y(2,3) assms(3) \<open>wi_id y = i\<close> show False by (auto simp: unused_def cs isIdle_def split: option.splits)
      qed
    qed
    have one: "does (only_instance (- {i})) (?loop cs)"
      by (intro oi.does_pfor_each oi.does_pcatch oi.does_pret only_instance_release) (use not_i in auto)
    have two: "does (keeps_claims (\<lambda>c. cl_instance c \<notin> cl_instance ` set (claim_rows w))) (?loop cs)"
      by (intro kc.does_pfor_each kc.does_pcatch kc.does_pret keeps_claims_release_instance)
         (use not_i in \<open>auto simp: names_claim_def\<close>)
    have "only_instance (- {i}) wa w'" "keeps_claims (\<lambda>c. cl_instance c \<notin> cl_instance ` set (claim_rows w)) wa w'"
      using runs_inD [OF one, of wa] runs_inD [OF two, of wa] w' by simp_all
    with wa show ?thesis by (auto simp: keeps_claims_def intro: oi.evolves_trans)
  qed
  with assms(2) show ?thesis by (simp add: only_instance_def)
qed

section \<open>Provisioning settles\<close>

text \<open>The waiting time after which the attempts that are \<open>left\<close> are over, in milliseconds.\<close>

definition waits_left :: "nat \<Rightarrow> int" where
  "waits_left k = (if k = 0 then 0 else (2 ^ 9 - 2 ^ (MAX_RETRIES - k)) * 1000)"

lemma waits_left_nonneg: "0 \<le> waits_left k"
proof (cases "k = 0")
  case False
  then have "(2 :: int) ^ (MAX_RETRIES - k) \<le> 2 ^ 9" by (intro power_increasing) (auto simp: MAX_RETRIES_def)
  then show ?thesis by (simp add: waits_left_def)
qed (simp add: waits_left_def)

lemma waits_left_Suc:
  assumes "0 < k" and "Suc k \<le> MAX_RETRIES"
  shows "2 ^ (MAX_RETRIES - Suc k) * 1000 + waits_left k = waits_left (Suc k)"
proof -
  have "MAX_RETRIES - k = Suc (MAX_RETRIES - Suc k)" using assms by simp
  with assms show ?thesis by (simp add: waits_left_def)
qed

definition settled :: "worker_instance \<Rightarrow> nat \<Rightarrow> local_state \<Rightarrow> string + unit \<Rightarrow> instance_event \<Rightarrow> bool" where
  "settled x k h r ev \<longleftrightarrow> (if take k (outages h) = replicate k True
     then \<exists>e. r = Inl e \<and> ev = FailedToProvisionInstance x e
     else r = Inr () \<and> ev = InstanceProvisioned x)"

lemma settled_0 [simp]: "settled x 0 h r ev \<longleftrightarrow> (\<exists>e. r = Inl e \<and> ev = FailedToProvisionInstance x e)"
  by (simp add: settled_def)

lemma settled_Suc:
  "settled x (Suc k) h r ev \<longleftrightarrow> (if outages h \<noteq> [] \<and> hd (outages h)
     then settled x k (next_answer h) r ev else r = Inr () \<and> ev = InstanceProvisioned x)"
  by (cases "outages h") (simp_all add: settled_def next_answer_def)

lemma run_isCurrent [simp]: "run (isCurrent i s) w = (Inr (provisioning w i = Some s), w)"
  by (simp add: isCurrent_def)

lemma run_provision_once:
  assumes "provisioning w i = Some s"
  shows "run (provision_once local_hosting x (isCurrent i s)) w =
    (if outages (outside w) \<noteq> [] \<and> hd (outages (outside w)) then (Inr (Some ''provision''), w\<lparr>outside := next_answer (outside w)\<rparr>)
     else (Inr None, w\<lparr>outside := next_answer (outside w), instance_events := instance_events w @ [InstanceProvisioned x]\<rparr>))"
proof -
  have "w\<lparr>outside := next_answer (outside w)\<rparr> = w" if "outages (outside w) = []"
  proof -
    have "next_answer (outside w) = outside w" using that by (simp add: next_answer_def)
    then show ?thesis by simp
  qed
  with assms show ?thesis
    by (cases "outages (outside w)")
       (auto simp: provision_once_def run_simps local_hosting_def local_outage_def next_answer_def)
qed

lemma run_provision_attempts:
  assumes "provisioning w i = Some s" and "k \<le> MAX_RETRIES"
  shows "\<exists>r h ev. run (provision_attempts local_hosting x (isCurrent i s) k e0) w =
      (r, w\<lparr>outside := h, instance_events := instance_events w @ [ev]\<rparr>) \<and>
    settled x k (outside w) r ev \<and> workerInstanceById h = workerInstanceById (outside w) \<and>
    local_clock (outside w) \<le> local_clock h \<and> local_clock h \<le> local_clock (outside w) + waits_left k"
  using assms
proof (induction k arbitrary: w e0)
  case 0
  then show ?case
    by (auto simp: run_simps waits_left_def intro!: exI [of _ "Inl e0"] exI [of _ "outside w"])
next
  case (Suc k)
  show ?case
  proof (cases "outages (outside w) \<noteq> [] \<and> hd (outages (outside w))")
    case False
    with Suc.prems waits_left_nonneg [of "Suc k"] show ?thesis
      by (auto simp: run_pbind bnd_run run_provision_once settled_Suc next_answer_def
          intro!: exI [of _ "next_answer (outside w)"])
  next
    case True
    let ?ms = "if k > 0 then 2 ^ (MAX_RETRIES - Suc k) * 1000 else (0 :: int)"
    let ?h = "(next_answer (outside w))\<lparr>local_clock := local_clock (outside w) + ?ms\<rparr>"
    let ?w = "w\<lparr>outside := ?h\<rparr>"
    have out: "outages ?h = outages (next_answer (outside w))" by simp
    from Suc.IH [of ?w "''provision''"] Suc.prems obtain r h ev where
      h: "run (provision_attempts local_hosting x (isCurrent i s) k ''provision'') ?w =
          (r, ?w\<lparr>outside := h, instance_events := instance_events w @ [ev]\<rparr>)"
        "settled x k ?h r ev" "workerInstanceById h = workerInstanceById (outside w)"
        "local_clock ?h \<le> local_clock h" "local_clock h \<le> local_clock ?h + waits_left k" by auto
    have "run (if k > 0 then delay local_hosting (2 ^ (MAX_RETRIES - Suc k) * 1000) else pret ())
        (w\<lparr>outside := next_answer (outside w)\<rparr>) = (Inr (), ?w)"
      by (auto simp: delay_def local_hosting_def next_answer_def)
    then have "run (provision_attempts local_hosting x (isCurrent i s) (Suc k) e0) w =
        (r, w\<lparr>outside := h, instance_events := instance_events w @ [ev]\<rparr>)"
      using True Suc.prems(1) h(1) by (simp add: run_pbind bnd_run run_provision_once)
    moreover have "settled x k (next_answer (outside w)) r ev" using h(2) by (simp add: settled_def)
    then have "settled x (Suc k) (outside w) r ev" using True by (simp add: settled_Suc)
    moreover have "?ms + waits_left k = waits_left (Suc k)"
      using waits_left_Suc [of k] Suc.prems(2) by (cases "k = 0") (simp_all add: waits_left_def MAX_RETRIES_def)
    moreover have "local_clock (outside w) \<le> local_clock h" using h(4) by (cases "k = 0") (simp_all add: order.trans [rotated])
    ultimately show ?thesis using h(3-5) by (intro exI [of _ r] exI [of _ h] exI [of _ ev]) auto
  qed
qed


section \<open>Concrete runs\<close>

definition instance0 :: "string option \<Rightarrow> worker_instance" where
  "instance0 s = createWorkerInstance ''i0'' ''T1'' (Some ''i0'') True (Some 0)
     (map_option (\<lambda>t. reservation_for ''ann'' ''sandbox'' t) s) (Some LOCAL_HOST)"

definition local0 :: "string option \<Rightarrow> bool list \<Rightarrow> local_state" where
  "local0 s answers = \<lparr>workerInstanceById = [instance0 s], randomUUIDs = (\<lambda>n. replicate n CHR ''u''), nextUUID = 3,
     local_clock = 100, launched = [], outages = answers\<rparr>"

definition world0 :: "claim list \<Rightarrow> string option \<Rightarrow> bool list \<Rightarrow> local_state instance_server" where
  "world0 cs s answers = \<lparr>claim_rows = cs, provisioning = (\<lambda>_. None), releasing = {}, instance_events = [],
     outside = local0 s answers\<rparr>"

lemma local0_sound: "local_sound (local0 s answers)"
proof -
  have "inj (\<lambda>n. replicate n CHR ''u'')" by (rule injI) (metis length_replicate)
  moreover have "''i0'' \<noteq> replicate n CHR ''u''" for n by (cases n) auto
  ultimately show ?thesis
    by (auto simp: local_sound_def local0_def local_fresh_def local_get_def instance0_def)
qed

text \<open>Two requests and a pool cycle at one idle instance, their steps interleaved.\<close>

definition race :: "string \<Rightarrow> (local_state, worker_instance option) ins" where
  "race = (\<lambda>_. pret None)
    (''a'' := request_process local_hosting ''sandbox'' ''T1'' ''ann'' ''a'',
     ''b'' := request_process local_hosting ''sandbox'' ''T1'' ''bob'' ''b'',
     POOL_CYCLE_CLAIM := pool_process local_hosting [] 0)"

definition race_schedule :: "string list" where
  "race_schedule = [''a'', ''b'', POOL_CYCLE_CLAIM, ''b'', ''a'', POOL_CYCLE_CLAIM, ''a'', ''b'', ''b'', ''a'',
     POOL_CYCLE_CLAIM, ''b'', ''a'', ''b'', ''b'', ''b'', ''a'', ''a'']"

definition raced :: "local_state instance_server \<times> (string \<Rightarrow> (local_state, worker_instance option) ins)" where
  "raced = follow race_schedule (world0 [] None [], race)"

definition finished_with :: "('w, 'e, 'a option) prog \<Rightarrow> 'a option" where
  "finished_with p = (case p of Finished (Inr x) \<Rightarrow> x | _ \<Rightarrow> None)"

lemma raced_results: "finished_with (snd raced ''a'') \<noteq> None \<and> map_option wi_id (finished_with (snd raced ''b'')) = Some ''i0''"
  by code_simp

lemma race_ok: "requests_and_pool_cycle local_hosting race"
  by (auto simp: requests_and_pool_cycle_def race_def)

section \<open>Exclusive allocation\<close>

text \<open>
  C9: However the requests of different sessions and a pool cycle are interleaved, and whatever fails
  on the way, an instance a request has answered is reserved for its session alone: no other request
  answers it, no claim on it is another session's, and the pool cycle has not taken it.
\<close>

theorem requests_exclusive:
  assumes "requests_and_pool_cycle local_hosting ps" and "local_sound (outside w)" and "no_future_claims local_fresh w"
    and "steps (w, ps) (w', ps')" and "ps' s = Finished (Inr (Some x))"
  shows "reserved_for (local_get (outside w') (wi_id x)) s \<and>
    (\<forall>c \<in> set (claim_rows w'). cl_instance c = wi_id x \<longrightarrow> cl_session c = s) \<and>
    (\<forall>t y. ps' t = Finished (Inr (Some y)) \<longrightarrow> wi_id y = wi_id x \<longrightarrow> t = s)"
proof -
  note exclusive = local.allocation_exclusive [OF assms(1-4)]
  have "t = s" if "ps' t = Finished (Inr (Some y))" "wi_id y = wi_id x" for t y
    using exclusive(1) [OF assms(5)] exclusive(1) [OF that(1)] that(2) by (auto simp: reserved_for_def)
  with exclusive [OF assms(5)] show ?thesis by blast
qed

theorem requests_exclusive_witness:
  "reserved_for (local_get (outside (fst raced)) ''i0'') ''b'' \<and> finished_with (snd raced ''a'') \<noteq> None"
proof -
  obtain w' ps' where r: "raced = (w', ps')" by fastforce
  have steps: "steps (world0 [] None [], race) (w', ps')"
    using follow_steps [of "(world0 [] None [], race)" race_schedule] by (simp add: raced_def [symmetric] r)
  have "map_option wi_id (finished_with (ps' ''b'')) = Some ''i0''" using raced_results by (simp add: r)
  then obtain x where x: "ps' ''b'' = Finished (Inr (Some x))" "wi_id x = ''i0''"
    by (auto simp: finished_with_def split: prog.splits sum.splits)
  have "no_future_claims local_fresh (world0 [] None [])" by (simp add: no_future_claims_def claims_keyed_def world0_def)
  from requests_exclusive [OF race_ok _ this steps x(1)] x(2) raced_results
  show ?thesis by (simp add: r world0_def local0_sound)
qed

section \<open>Witnesses\<close>

definition claim0 :: "string \<Rightarrow> claim" where
  "claim0 s = \<lparr>cl_instance = ''i0'', cl_session = s, cl_time = 0\<rparr>"

theorem release_only_from_session_witness:
  "local_get (outside (snd (run (release_instance local_hosting ''i0'' (Some ''a'')) (world0 [claim0 ''a''] (Some ''a'') [])))) ''i0''
    = Some (instance0 None)"
  using release_only_from_session [of "''i0''" "Some ''a''" "world0 [claim0 ''a''] (Some ''a'') []"
      "fst (run (release_instance local_hosting ''i0'' (Some ''a'')) (world0 [claim0 ''a''] (Some ''a'') []))"]
  by (simp add: world0_def local0_def no_outage_def local_get_def instance0_def isReservedFor_def
      reservation_for_def createWorkerInstance_def unreserve_def)

theorem reclaim_spares_live_witness:
  "claim0 ''a'' \<in> set (claim_rows (snd (run (reclaimStaleClaims local_hosting [''a''] 50) (world0 [claim0 ''a''] (Some ''a'') []))))"
  using reclaim_spares_live [of "world0 [claim0 ''a''] (Some ''a'') []" "claim0 ''a''" "[''a'']" 50
      "fst (run (reclaimStaleClaims local_hosting [''a''] 50) (world0 [claim0 ''a''] (Some ''a'') []))"]
  by (simp add: world0_def local0_def claims_keyed_def spared_claim_def claim0_def local_get_def instance0_def)

theorem releaseUnused_spares_witness:
  "local_get (outside (snd (run (releaseUnusedInstances local_hosting [] 0 (Unit ''MINUTES'')) (world0 [claim0 ''a''] (Some ''a'') [])))) ''i0''
    = Some (instance0 (Some ''a''))"
  using releaseUnused_spares [of "world0 [claim0 ''a''] (Some ''a'') []" "''i0''" "instance0 (Some ''a'')" "[]" 0 "Unit ''MINUTES''"
      "fst (run (releaseUnusedInstances local_hosting [] 0 (Unit ''MINUTES'')) (world0 [claim0 ''a''] (Some ''a'') []))"]
  by (simp add: world0_def local0_sound claim0_def) (simp add: local0_def local_get_def instance0_def)


section \<open>Where a release reaches too far\<close>

text \<open>
  A release for a session that no longer holds the instance only drops its claim, but when the
  database does not answer, the error handler terminates the instance all the same: here that of the
  session \<open>b\<close> that holds it now.
\<close>

theorem stale_release_terminates:
  "local_get (outside (snd (run (release_instance local_hosting ''i0'' (Some ''a'')) (world0 [claim0 ''b''] (Some ''b'') [True])))) ''i0'' = None"
  by code_simp

text \<open>
  A release drops the claim before it frees the instance. A request that listed the instance while it
  was idle, and gets to its claim only in that gap, is answered an instance that the release then
  frees.
\<close>

definition late_release :: "string \<Rightarrow> (local_state, worker_instance option) ins" where
  "late_release = (\<lambda>_. pret None)
    (''a'' := pbind (request_process local_hosting ''sandbox'' ''T1'' ''ann'' ''a'') (\<lambda>x.
       pthen (release_instance local_hosting ''i0'' (Some ''a'')) (pret None)),
     ''b'' := request_process local_hosting ''sandbox'' ''T1'' ''bob'' ''b'')"

definition late_schedule :: "string list" where
  "late_schedule = ''b'' # replicate 11 ''a'' @ replicate 4 ''b'' @ replicate 3 ''a''"

theorem late_release_frees_next:
  "map_option wi_id (finished_with (snd (follow late_schedule (world0 [] None [], late_release)) ''b'')) = Some ''i0'' \<and>
   map_option isIdle (local_get (outside (fst (follow late_schedule (world0 [] None [], late_release)))) ''i0'') = Some True"
  by code_simp

end
