(* ===== verification/UsageModel.thy ===== *)
theory UsageModel
  imports Prelude
begin

text \<open>
  The arithmetic of the worker's usage sampler: counters, percentages and rates
  (\<^verbatim>\<open>modules/worker/src/instanceUsage/computeUsage.js\<close>, \<^verbatim>\<open>round.js\<close>), the pseudo-terminals read from
  the output of \<^verbatim>\<open>stat\<close>, the busy verdict (\<^verbatim>\<open>busyVerdict.js\<close>) and the gauges (\<^verbatim>\<open>usageMetrics.js\<close>).
  Numbers that the source holds as doubles are exact rationals here.
\<close>

section \<open>Rounding\<close>

definition EPSILON :: rat where
  "EPSILON = 1 / 2 ^ 52"

definition round2 :: "rat \<Rightarrow> rat" where
  "round2 v = of_int (Math_round ((v + EPSILON) * 100)) / 100"

definition clampPct :: "rat \<Rightarrow> rat" where
  "clampPct v = round2 (min 100 (max 0 v))"

section \<open>Counters and what is computed from them\<close>

text \<open>What the Docker daemon reports of a container; a missing number is \<open>None\<close>.\<close>

record docker_stats =
  total_usage :: "int option"
  system_cpu_usage :: "int option"
  online_cpus :: "int option"
  memory_usage :: "int option"
  inactive_file :: "int option"
  networks :: "(int option \<times> int option) list"

record counters =
  cpuTotal :: "int option"
  systemTotal :: "int option"
  onlineCpus :: "int option"
  rxBytes :: "int option"
  txBytes :: "int option"

definition or_zero :: "int option \<Rightarrow> int" where
  "or_zero v = (case v of None \<Rightarrow> 0 | Some n \<Rightarrow> n)"

definition getNetworkTraffic :: "(int option \<times> int option) list \<Rightarrow> int option \<times> int option" where
  "getNetworkTraffic ns = (if ns = [] then (None, None)
     else (Some (sum_list (map (or_zero \<circ> fst) ns)), Some (sum_list (map (or_zero \<circ> snd) ns))))"

definition extractCounters :: "docker_stats \<Rightarrow> counters" where
  "extractCounters d = (case getNetworkTraffic (networks d) of (rx, tx) \<Rightarrow>
     \<lparr>cpuTotal = total_usage d, systemTotal = system_cpu_usage d, onlineCpus = online_cpus d, rxBytes = rx, txBytes = tx\<rparr>)"

text \<open>A missing core count is 0.\<close>

definition computeCpuPct :: "counters \<Rightarrow> counters \<Rightarrow> int \<Rightarrow> rat option" where
  "computeCpuPct prev now cpuCount =
     (case (cpuTotal prev, systemTotal prev, cpuTotal now, systemTotal now, onlineCpus now) of
        (Some c0, Some s0, Some c1, Some s1, Some cpus) \<Rightarrow>
          if cpus = 0 \<or> cpuCount = 0 then None
          else let cpuDelta = c1 - c0; systemDelta = s1 - s0 in
            if cpuDelta < 0 \<or> systemDelta \<le> 0 then None
            else Some (clampPct (of_int cpuDelta / of_int systemDelta * of_int cpus / of_int cpuCount * 100))
      | _ \<Rightarrow> None)"

definition computeRamUsage :: "docker_stats \<Rightarrow> int \<Rightarrow> int option \<times> rat option" where
  "computeRamUsage d instanceRamBytes = (case memory_usage d of
     None \<Rightarrow> (None, None)
   | Some usage \<Rightarrow> let ramBytes = max 0 (usage - or_zero (inactive_file d)) in
       (Some ramBytes, if instanceRamBytes = 0 then None else Some (clampPct (of_int ramBytes / of_int instanceRamBytes * 100))))"

definition computeNetRates :: "counters \<Rightarrow> counters \<Rightarrow> rat \<Rightarrow> int option \<times> int option" where
  "computeNetRates prev now elapsedSeconds =
     (case (rxBytes prev, txBytes prev, rxBytes now, txBytes now) of
        (Some r0, Some t0, Some r1, Some t1) \<Rightarrow>
          if elapsedSeconds \<le> 0 \<or> r1 - r0 < 0 \<or> t1 - t0 < 0 then (None, None)
          else (Some (Math_round (of_int (r1 - r0) / elapsedSeconds)), Some (Math_round (of_int (t1 - t0) / elapsedSeconds)))
      | _ \<Rightarrow> (None, None))"

section \<open>Text of the exec calls\<close>

definition Number_digits :: "string \<Rightarrow> int" where
  "Number_digits ds = int (digits_value 0 ds)"

text \<open>One reading of a GPU. \<open>number\<close> is JavaScript's \<open>Number\<close> where it is finite.\<close>

definition gpu_line :: "(string \<Rightarrow> rat option) \<Rightarrow> string \<Rightarrow> (rat \<times> rat) option" where
  "gpu_line number line = (case split_on CHR '','' line of
     util # mem # _ \<Rightarrow> (case (number (trim util), number (trim mem)) of
        (Some u, Some m) \<Rightarrow> Some (u, m) | _ \<Rightarrow> None)
   | _ \<Rightarrow> None)"

definition parseGpuCsv :: "(string \<Rightarrow> rat option) \<Rightarrow> string \<Rightarrow> (rat \<times> rat) option" where
  "parseGpuCsv number text =
     (let gpus = map (gpu_line number) (filter (\<lambda>l. l \<noteq> []) (map trim (split_on (CHR 0x0A) text))) in
      if text = [] \<or> gpus = [] \<or> None \<in> set gpus then None
      else let ps = map the gpus in
        Some (clampPct (sum_list (map fst ps) / of_nat (length ps)), sum_list (map snd ps) * 1024 * 1024))"

text \<open>
  The match of \<^verbatim>\<open>(\d+)\s+(\d+)\s+(/dev/pts/\d+)\<close> at the start of a text, and what follows it: a run
  of digits or of spaces never gives a character back, because what follows it cannot start with one.
\<close>

definition PTS :: string where
  "PTS = ''/dev/pts/''"

definition span :: "('a \<Rightarrow> bool) \<Rightarrow> 'a list \<Rightarrow> 'a list \<times> 'a list" where
  "span P xs = (takeWhile P xs, dropWhile P xs)"

definition match_record :: "string \<Rightarrow> ((int \<times> int) \<times> string) option" where
  "match_record s0 = (case span is_digit s0 of (atime, s1) \<Rightarrow> case span is_space s1 of (b1, s2) \<Rightarrow>
     case span is_digit s2 of (ctime, s3) \<Rightarrow> case span is_space s3 of (b2, s4) \<Rightarrow>
     if atime = [] \<or> b1 = [] \<or> ctime = [] \<or> b2 = [] \<or> take 9 s4 \<noteq> PTS then None
     else case span is_digit (drop 9 s4) of (n, s5) \<Rightarrow>
       if n = [] then None else Some ((Number_digits atime, Number_digits ctime), s5))"

lemma length_span: "length (snd (span P xs)) \<le> length xs"
  by (simp add: span_def length_dropWhile_le)

lemma match_record_shorter: "match_record s = Some (r, s') \<Longrightarrow> length s' < length s"
proof -
  assume m: "match_record s = Some (r, s')"
  let ?s1 = "dropWhile is_digit s" let ?s2 = "dropWhile is_space ?s1" let ?s3 = "dropWhile is_digit ?s2"
  let ?s4 = "dropWhile is_space ?s3"
  from m have s': "s' = dropWhile is_digit (drop 9 ?s4)" and t: "takeWhile is_digit s \<noteq> []"
    by (auto simp: match_record_def span_def split: if_splits)
  have "length s' \<le> length (drop 9 ?s4)" unfolding s' by (rule length_dropWhile_le)
  also have "\<dots> \<le> length ?s4" by simp
  also have "\<dots> \<le> length ?s3" by (rule length_dropWhile_le)
  also have "\<dots> \<le> length ?s2" by (rule length_dropWhile_le)
  also have "\<dots> \<le> length ?s1" by (rule length_dropWhile_le)
  also have "length ?s1 < length s"
    using t by (cases s) (auto simp: less_Suc_eq_le length_dropWhile_le split: if_splits)
  finally show ?thesis .
qed

function matchAll :: "string \<Rightarrow> (int \<times> int) list" where
  "matchAll [] = []"
| "matchAll (c # cs) = (case match_record (c # cs) of
     None \<Rightarrow> matchAll cs
   | Some (r, rest) \<Rightarrow> r # matchAll rest)"
  by pat_completeness auto
termination
  by (relation "measure length") (auto dest: match_record_shorter)

definition freshCtimeCutoff :: "int \<Rightarrow> int \<Rightarrow> int" where
  "freshCtimeCutoff n tickSeconds = n div 1000 - tickSeconds"

definition parsePtyStat :: "string \<Rightarrow> int \<Rightarrow> int \<Rightarrow> int option" where
  "parsePtyStat text n tickSeconds =
     (let as = map fst (filter (\<lambda>(a, c). c < freshCtimeCutoff n tickSeconds) (matchAll text)) in
      if as = [] then None else Some (Max (set as)))"

definition countUserTerminals :: "string \<Rightarrow> nat" where
  "countUserTerminals text = length (filter (\<lambda>(a, c). a > c) (matchAll text))"

section \<open>The busy verdict\<close>

record instance_type =
  it_id :: string
  it_cpuCount :: int
  it_gpuCount :: int
  it_ramBytes :: int

record busy_policy =
  bp_interactionMinutes :: int
  bp_busyMinutes :: int
  bp_maxUnattendedHours :: rat
  bp_graceTicks :: nat
  bp_windowMinutes :: int
  bp_cpuCores :: rat
  bp_gpuPct :: rat
  bp_networkKBps :: rat
  bp_samplingSeconds :: int

record window_stats =
  wn_samples :: nat
  wn_cpuAvg :: "rat option"
  wn_gpuSamples :: nat
  wn_gpuAvg :: "rat option"
  wn_netAvg :: "rat option"

definition COVERAGE :: rat where
  "COVERAGE = 8 / 10"

definition EDGE_TRIM :: rat where
  "EDGE_TRIM = 2"

definition requiredSamplesFor :: "int \<Rightarrow> int \<Rightarrow> rat" where
  "requiredSamplesFor windowMinutes samplingIntervalSeconds =
     COVERAGE * max 1 (of_int windowMinutes * 60 / of_int samplingIntervalSeconds - EDGE_TRIM)"

definition coresUsed :: "rat option \<Rightarrow> int \<Rightarrow> rat option" where
  "coresUsed cpuAvgPct instanceCores = (case cpuAvgPct of
     None \<Rightarrow> None
   | Some p \<Rightarrow> if instanceCores = 0 then None else Some (p / 100 * of_int instanceCores))"

definition reaches :: "rat option \<Rightarrow> rat \<Rightarrow> bool" where
  "reaches v threshold = (case v of None \<Rightarrow> False | Some x \<Rightarrow> x \<ge> threshold)"

text \<open>Busy, and whether there was enough to tell.\<close>

definition isBusy :: "window_stats option \<Rightarrow> instance_type \<Rightarrow> busy_policy \<Rightarrow> rat \<Rightarrow> bool \<times> bool" where
  "isBusy stats it P requiredSamples = (case stats of
     None \<Rightarrow> (False, False)
   | Some w \<Rightarrow>
       if of_nat (wn_samples w) < requiredSamples then (False, False)
       else if reaches (coresUsed (wn_cpuAvg w) (it_cpuCount it)) (bp_cpuCores P) then (True, True)
       else if it_gpuCount it > 0 \<and> of_nat (wn_gpuSamples w) \<ge> requiredSamples \<and> reaches (wn_gpuAvg w) (bp_gpuPct P)
       then (True, True)
       else if reaches (wn_netAvg w) (bp_networkKBps P * 1024) then (True, True)
       else (False, True))"

datatype busy_verdict = BUSY | UNUSED | NO_VERDICT

definition verdict_of :: "bool \<times> bool \<Rightarrow> busy_verdict" where
  "verdict_of v = (case v of (busy, coverage) \<Rightarrow> if coverage then if busy then BUSY else UNUSED else NO_VERDICT)"

end
