(* ===== verification/UsageSampler.thy ===== *)
theory UsageSampler
  imports SessionRepository UsageModel
begin

text \<open>
  The usage tables (\<^verbatim>\<open>modules/worker/src/instanceUsage/usageRepository.js\<close>), the registries of
  terminals and verdicts (\<^verbatim>\<open>terminalRegistry.js\<close>, \<^verbatim>\<open>busyRegistry.js\<close>), the gauges
  (\<^verbatim>\<open>usageMetrics.js\<close>) and one tick of the sampler (\<^verbatim>\<open>sampleInstances.js\<close>), over the session table
  of \<open>SessionRepository\<close>. The policy and the registries are present, as \<^verbatim>\<open>main.js\<close> wires them. What
  the averages of the database round away is kept.
\<close>

section \<open>Tables and memory\<close>

record sample =
  us_session :: string
  us_username :: string
  us_type :: string
  us_time :: int
  us_cpu :: "rat option"
  us_ramBytes :: "int option"
  us_ram :: "rat option"
  us_gpu :: "rat option"
  us_gpuRam :: "rat option"
  us_rx :: "int option"
  us_tx :: "int option"

record hourly =
  uh_session :: string
  uh_username :: string
  uh_type :: string
  uh_hour :: int
  uh_samples :: nat
  uh_cpuAvg :: "rat option"
  uh_cpuMax :: "rat option"
  uh_ramAvg :: "rat option"
  uh_ramMax :: "rat option"
  uh_gpuAvg :: "rat option"
  uh_gpuMax :: "rat option"
  uh_gpuRamMax :: "rat option"
  uh_netAvg :: "rat option"

text \<open>The memory of a session between two ticks; \<open>None\<close> where the source has \<open>undefined\<close> or \<open>null\<close>.\<close>

record sampler_entry =
  se_time :: "int option"
  se_counters :: "counters option"
  se_ptyAtime :: "int option"
  se_unknownTicks :: nat
  se_interactionSeen :: bool
  se_failed :: bool

type_synonym labels = "string \<times> string \<times> string"

record 'u usage_world =
  sample_rows :: "sample list"
  hourly_rows :: "hourly list"
  sampler :: "string \<Rightarrow> sampler_entry option"
  terminals :: "string \<Rightarrow> nat option"
  verdicts :: "string \<Rightarrow> busy_verdict option"
  gauge_series :: "string \<Rightarrow> labels \<Rightarrow> rat option"
  tracked_labels :: "string \<Rightarrow> labels option"
  inner :: 'u

record 'u usage_services =
  now_db :: "'u \<Rightarrow> int \<times> 'u"
  now_process :: "'u \<Rightarrow> int \<times> 'u"
  containerStats :: "session_row \<Rightarrow> 'u \<Rightarrow> docker_stats option \<times> 'u"  \<comment> \<open>\<open>None\<close> when the call throws\<close>
  gpuStats :: "session_row \<Rightarrow> 'u \<Rightarrow> string option \<times> 'u"
  ptyStats :: "session_row \<Rightarrow> 'u \<Rightarrow> string option \<times> 'u"
  usage_db :: "'u \<Rightarrow> bool \<times> 'u"  \<comment> \<open>whether the database answers the next usage statement\<close>
  number_of :: "string \<Rightarrow> rat option"

definition at_inner :: "('u \<Rightarrow> 'a \<times> 'u) \<Rightarrow> 'u usage_world \<Rightarrow> 'a \<times> 'u usage_world" where
  "at_inner f w = (case f (inner w) of (a, u) \<Rightarrow> (a, w\<lparr>inner := u\<rparr>))"

definition session_env :: "('u, 'z) usage_services_scheme \<Rightarrow> 'u usage_world session_services" where
  "session_env U = \<lparr>dbNow = at_inner (now_db U), processClock = at_inner (now_process U)\<rparr>"

type_synonym ('u, 'a) usa = "('u usage_world, 'a) ses"

definition usage_call :: "('u \<Rightarrow> 'a \<times> 'u) \<Rightarrow> ('u, 'a) usa" where
  "usage_call f = outer_call (at_inner f)"

definition usage_state :: "('u usage_world \<Rightarrow> 'u usage_world) \<Rightarrow> ('u, unit) usa" where
  "usage_state f = outer_call (\<lambda>w. ((), f w))"

definition usage_gets :: "('u usage_world \<Rightarrow> 'a) \<Rightarrow> ('u, 'a) usa" where
  "usage_gets f = outer_call (\<lambda>w. (f w, w))"

definition answered :: "string \<Rightarrow> ('u \<Rightarrow> 'a option \<times> 'u) \<Rightarrow> ('u, 'a) usa" where
  "answered what f = bnd (usage_call f) (\<lambda>a. case a of None \<Rightarrow> throw (OtherError what) | Some x \<Rightarrow> ret x)"

definition usage_statement :: "('u, 'z) usage_services_scheme \<Rightarrow> ('u, unit) usa" where
  "usage_statement U = bnd (usage_call (usage_db U)) (\<lambda>ok. if ok then ret () else throw (OtherError ''database''))"

section \<open>Statements of the usage repository\<close>

definition average :: "rat list \<Rightarrow> rat option" where
  "average vs = (if vs = [] then None else Some (sum_list vs / of_nat (length vs)))"

definition maximum :: "rat list \<Rightarrow> rat option" where
  "maximum vs = (if vs = [] then None else Some (Max (set vs)))"

text \<open>The values an aggregate function sees: those that are not \<open>NULL\<close>.\<close>

definition measured :: "('r \<Rightarrow> 'a option) \<Rightarrow> 'r list \<Rightarrow> 'a list" where
  "measured f rs = map the (filter (\<lambda>v. v \<noteq> None) (map f rs))"

definition net_of :: "sample \<Rightarrow> rat" where
  "net_of r = of_int (or_zero (us_rx r) + or_zero (us_tx r))"

definition insertSample :: "('u, 'z) usage_services_scheme \<Rightarrow> sample \<Rightarrow> ('u, unit) usa" where
  "insertSample U r = andthen (usage_statement U) (bnd (usage_gets sample_rows) (\<lambda>rs.
     if list_ex (\<lambda>q. us_session q = us_session r \<and> us_time q = us_time r) rs then throw (OtherError ''duplicate'')
     else usage_state (\<lambda>w. w\<lparr>sample_rows := sample_rows w @ [r\<lparr>us_username := storedUsername (us_username r)\<rparr>]\<rparr>)))"

definition window_of :: "sample list \<Rightarrow> window_stats" where
  "window_of rs = \<lparr>wn_samples = length (measured us_cpu rs), wn_cpuAvg = average (measured us_cpu rs),
     wn_gpuSamples = length (measured us_gpu rs), wn_gpuAvg = average (measured us_gpu rs),
     wn_netAvg = average (map net_of rs)\<rparr>"

definition stmt_busyWindow :: "string list \<Rightarrow> int \<Rightarrow> sample list \<Rightarrow> string \<Rightarrow> window_stats option" where
  "stmt_busyWindow ids fromTime rs i =
     (let own = filter (\<lambda>r. us_session r = i \<and> us_time r \<ge> fromTime) rs in
      if i \<notin> set ids \<or> own = [] then None else Some (window_of own))"

definition busyWindowStats ::
  "('u, 'z) usage_services_scheme \<Rightarrow> string list \<Rightarrow> int \<Rightarrow> ('u, string \<Rightarrow> window_stats option) usa" where
  "busyWindowStats U ids fromTime = (if ids = [] then ret (\<lambda>_. None)
     else andthen (usage_statement U) (usage_gets (\<lambda>w. stmt_busyWindow ids fromTime (sample_rows w))))"

definition HOUR_MS :: int where
  "HOUR_MS = 60 * MINUTE_MS"

definition DAY_MS :: int where
  "DAY_MS = 24 * HOUR_MS"

definition group_key :: "sample \<Rightarrow> string \<times> string \<times> string" where
  "group_key r = (us_session r, us_username r, us_type r)"

definition hourly_of :: "int \<Rightarrow> string \<times> string \<times> string \<Rightarrow> sample list \<Rightarrow> hourly" where
  "hourly_of hour k rs = (case k of (s, u, t) \<Rightarrow>
     \<lparr>uh_session = s, uh_username = u, uh_type = t, uh_hour = hour, uh_samples = length rs,
      uh_cpuAvg = average (measured us_cpu rs), uh_cpuMax = maximum (measured us_cpu rs),
      uh_ramAvg = average (measured us_ram rs), uh_ramMax = maximum (measured us_ram rs),
      uh_gpuAvg = average (measured us_gpu rs), uh_gpuMax = maximum (measured us_gpu rs),
      uh_gpuRamMax = maximum (measured us_gpuRam rs), uh_netAvg = average (map net_of rs)\<rparr>)"

text \<open>\<open>ON DUPLICATE KEY UPDATE\<close> keeps the username and the type of the row that is there.\<close>

definition upsert_hourly :: "hourly \<Rightarrow> hourly list \<Rightarrow> hourly list" where
  "upsert_hourly h hs = (if list_ex (\<lambda>q. uh_session q = uh_session h \<and> uh_hour q = uh_hour h) hs
     then sql_update (\<lambda>q. uh_session q = uh_session h \<and> uh_hour q = uh_hour h)
       (\<lambda>q. h\<lparr>uh_username := uh_username q, uh_type := uh_type q\<rparr>) hs
     else hs @ [h])"

definition rollup_groups :: "int \<Rightarrow> int \<Rightarrow> sample list \<Rightarrow> hourly list" where
  "rollup_groups hourStart hourEnd rs =
     (let inside = filter (\<lambda>r. hourStart \<le> us_time r \<and> us_time r < hourEnd) rs in
      map (\<lambda>k. hourly_of hourStart k (filter (\<lambda>r. group_key r = k) inside)) (remdups (map group_key inside)))"

definition stmt_rollup :: "int \<Rightarrow> int \<Rightarrow> sample list \<Rightarrow> hourly list \<Rightarrow> hourly list" where
  "stmt_rollup hourStart hourEnd rs hs = fold upsert_hourly (rollup_groups hourStart hourEnd rs) hs"

fun rollup_loop :: "('u, 'z) usage_services_scheme \<Rightarrow> int \<Rightarrow> nat \<Rightarrow> ('u, unit) usa" where
  "rollup_loop U currentHourStart 0 = ret ()"
| "rollup_loop U currentHourStart (Suc i) = andthen (usage_statement U) (andthen
     (usage_state (\<lambda>w. w\<lparr>hourly_rows := stmt_rollup (currentHourStart - int (Suc i) * HOUR_MS)
        (currentHourStart - int i * HOUR_MS) (sample_rows w) (hourly_rows w)\<rparr>))
     (rollup_loop U currentHourStart i))"

definition rollupHours :: "('u, 'z) usage_services_scheme \<Rightarrow> nat \<Rightarrow> ('u, unit) usa" where
  "rollupHours U hoursBack = bnd (usage_call (now_process U)) (\<lambda>n.
     rollup_loop U (n div HOUR_MS * HOUR_MS) hoursBack)"

definition pruneSamples :: "('u, 'z) usage_services_scheme \<Rightarrow> int \<Rightarrow> ('u, nat) usa" where
  "pruneSamples U retentionDays = bnd (usage_call (now_process U)) (\<lambda>n. andthen (usage_statement U)
     (bnd (usage_gets (\<lambda>w. sql_matched (\<lambda>r. us_time r < n - retentionDays * DAY_MS) (sample_rows w))) (\<lambda>k.
        andthen (usage_state (\<lambda>w. w\<lparr>sample_rows := sql_delete (\<lambda>r. us_time r < n - retentionDays * DAY_MS) (sample_rows w)\<rparr>))
          (ret k))))"

definition pruneHourly :: "('u, 'z) usage_services_scheme \<Rightarrow> int \<Rightarrow> ('u, nat) usa" where
  "pruneHourly U retentionDays = bnd (usage_call (now_process U)) (\<lambda>n. andthen (usage_statement U)
     (bnd (usage_gets (\<lambda>w. sql_matched (\<lambda>r. uh_hour r < n - retentionDays * DAY_MS) (hourly_rows w))) (\<lambda>k.
        andthen (usage_state (\<lambda>w. w\<lparr>hourly_rows := sql_delete (\<lambda>r. uh_hour r < n - retentionDays * DAY_MS) (hourly_rows w)\<rparr>))
          (ret k))))"

section \<open>Gauges\<close>

definition labelsOf :: "sample \<times> string \<Rightarrow> labels" where
  "labelsOf si = (us_username (fst si), us_type (fst si), snd si)"

definition gauge_values :: "sample \<Rightarrow> (string \<times> rat option) list" where
  "gauge_values r = [(''cpuPct'', us_cpu r), (''ramPct'', us_ram r), (''gpuPct'', us_gpu r),
     (''netRxBytesPerS'', map_option of_int (us_rx r)), (''netTxBytesPerS'', map_option of_int (us_tx r))]"

definition set_gauges :: "sample \<times> string \<Rightarrow> (string \<Rightarrow> labels \<Rightarrow> rat option) \<Rightarrow> string \<Rightarrow> labels \<Rightarrow> rat option" where
  "set_gauges si g = (\<lambda>key l. if l = labelsOf si then
       (case map_of (gauge_values (fst si)) key of Some (Some v) \<Rightarrow> Some v | _ \<Rightarrow> g key l) else g key l)"

text \<open>The labels tracked for an instance end with its id.\<close>

definition update_gauges :: "(sample \<times> string) list \<Rightarrow> 'u usage_world \<Rightarrow> 'u usage_world" where
  "update_gauges ss w =
     (let current = fold (\<lambda>si m. m(snd si \<mapsto> labelsOf si)) ss Map.empty;
          gone = (\<lambda>l. tracked_labels w (snd (snd l)) = Some l \<and> current (snd (snd l)) = None);
          series = fold set_gauges ss (gauge_series w)
      in w\<lparr>gauge_series := (\<lambda>key l. if gone l then None else series key l), tracked_labels := current\<rparr>)"

section \<open>One tick\<close>

definition SANDBOX :: string where
  "SANDBOX = ''sandbox''"

definition samplePtys ::
  "('u, 'z) usage_services_scheme \<Rightarrow> session_row \<Rightarrow> int \<Rightarrow> int \<Rightarrow> ('u, (int option \<times> nat) option) usa" where
  "samplePtys U s n tickSeconds = bnd (usage_call (ptyStats U s)) (\<lambda>text. ret (case text of
     None \<Rightarrow> None
   | Some t \<Rightarrow> Some (parsePtyStat t n tickSeconds, countUserTerminals t)))"

definition sampleGpu :: "('u, 'z) usage_services_scheme \<Rightarrow> session_row \<Rightarrow> ('u, (rat \<times> rat) option) usa" where
  "sampleGpu U s = bnd (usage_call (gpuStats U s)) (\<lambda>text. ret (case text of
     None \<Rightarrow> None
   | Some t \<Rightarrow> parseGpuCsv (number_of U) t))"

definition next_entry :: "int \<Rightarrow> counters \<Rightarrow> int option \<Rightarrow> sampler_entry option \<Rightarrow> sampler_entry" where
  "next_entry n c ptyAtime prev =
     \<lparr>se_time = Some n, se_counters = Some c,
      se_ptyAtime = (case ptyAtime of Some a \<Rightarrow> Some a | None \<Rightarrow> Option.bind prev se_ptyAtime),
      se_unknownTicks = (case prev of None \<Rightarrow> 0 | Some e \<Rightarrow> se_unknownTicks e),
      se_interactionSeen = (case prev of None \<Rightarrow> False | Some e \<Rightarrow> se_interactionSeen e),
      se_failed = False\<rparr>"

definition remember :: "string \<Rightarrow> sampler_entry \<Rightarrow> ('u, unit) usa" where
  "remember i e = usage_state (\<lambda>w. w\<lparr>sampler := (sampler w)(i \<mapsto> e)\<rparr>)"

text \<open>\<open>{...(prev ?? {}), samplingFailed: true}\<close>: without a previous entry only the flag is there.\<close>

definition mark_failed :: "string \<Rightarrow> ('u, unit) usa" where
  "mark_failed i = bnd (usage_gets (\<lambda>w. sampler w i)) (\<lambda>prev. remember i (case prev of
     None \<Rightarrow> \<lparr>se_time = None, se_counters = None, se_ptyAtime = None, se_unknownTicks = 0,
       se_interactionSeen = False, se_failed = True\<rparr>
   | Some e \<Rightarrow> e\<lparr>se_failed := True\<rparr>))"

definition advanced :: "int option \<Rightarrow> int option \<Rightarrow> bool" where
  "advanced now prev = (case (now, prev) of (Some a, Some b) \<Rightarrow> a > b | _ \<Rightarrow> False)"

definition terminal_input ::
  "('u, 'z) usage_services_scheme \<Rightarrow> busy_policy \<Rightarrow> session_row \<Rightarrow> int option \<Rightarrow> sampler_entry \<Rightarrow> ('u, unit) usa" where
  "terminal_input U P s ptyAtime prev = (if advanced ptyAtime (se_ptyAtime prev)
     then andthen (usage_state (\<lambda>w. w\<lparr>sampler := (sampler w)(ws_id s := map_option (\<lambda>e. e\<lparr>se_interactionSeen := True\<rparr>) (sampler w (ws_id s)))\<rparr>))
       (bnd (extendSession_repo (session_env U) (ws_id s) (bp_interactionMinutes P) True None) (\<lambda>_. ret ()))
     else ret ())"

definition make_sample ::
  "session_row \<Rightarrow> instance_type \<Rightarrow> int \<Rightarrow> docker_stats \<Rightarrow> counters \<Rightarrow> counters \<Rightarrow> int \<Rightarrow> (rat \<times> rat) option \<Rightarrow> sample" where
  "make_sample s it n raw prev c t0 gpu =
     (case computeRamUsage raw (it_ramBytes it) of (ramBytes, ramPct) \<Rightarrow>
      case computeNetRates prev c (of_int (n - t0) / 1000) of (rx, tx) \<Rightarrow>
      \<lparr>us_session = ws_id s, us_username = ws_username s, us_type = ws_instanceType s, us_time = n,
       us_cpu = computeCpuPct prev c (it_cpuCount it), us_ramBytes = ramBytes, us_ram = ramPct,
       us_gpu = map_option fst gpu, us_gpuRam = map_option snd gpu, us_rx = rx, us_tx = tx\<rparr>)"

text \<open>The sample of a session, when the tick has one; an entry without time makes \<open>prev.time.getTime()\<close> throw.\<close>

definition finish_sample ::
  "('u, 'z) usage_services_scheme \<Rightarrow> busy_policy \<Rightarrow> instance_type \<Rightarrow> session_row \<Rightarrow> docker_stats \<Rightarrow> int
    \<Rightarrow> sampler_entry option \<Rightarrow> (int option \<times> nat) option \<Rightarrow> ('u, sample option) usa" where
  "finish_sample U P it s raw n prev ptys =
     (let c = extractCounters raw; ptyAtime = Option.bind ptys fst in
      andthen (case ptys of None \<Rightarrow> ret ()
          | Some (_, k) \<Rightarrow> usage_state (\<lambda>w. w\<lparr>terminals := (terminals w)(ws_id s \<mapsto> k)\<rparr>))
      (andthen (remember (ws_id s) (next_entry n c ptyAtime prev))
      (case prev of
         None \<Rightarrow> ret None
       | Some e \<Rightarrow> andthen (terminal_input U P s ptyAtime e)
           (case (se_time e, se_counters e) of
              (Some t0, Some c0) \<Rightarrow>
                bnd (if it_gpuCount it > 0 then sampleGpu U s else ret None) (\<lambda>gpu.
                (let r = make_sample s it n raw c0 c t0 gpu in
                 andthen (insertSample U r) (ret (Some r))))
            | _ \<Rightarrow> throw (OtherError ''TypeError'')))))"

definition take_sample ::
  "('u, 'z) usage_services_scheme \<Rightarrow> busy_policy \<Rightarrow> instance_type \<Rightarrow> session_row \<Rightarrow> ('u, sample option) usa" where
  "take_sample U P it s =
     bnd (answered ''stats'' (containerStats U s)) (\<lambda>raw.
     bnd (usage_call (now_process U)) (\<lambda>n.
     bnd (usage_gets (\<lambda>w. sampler w (ws_id s))) (\<lambda>prev.
     bnd (if ws_workerType s = SANDBOX then samplePtys U s n (bp_samplingSeconds P) else ret None)
       (finish_sample U P it s raw n prev))))"

text \<open>Whether the session is evaluated, and its sample with the instance it ran on.\<close>

definition sample_session ::
  "('u, 'z) usage_services_scheme \<Rightarrow> busy_policy \<Rightarrow> (string \<Rightarrow> instance_type option) \<Rightarrow> session_row
    \<Rightarrow> ('u, bool \<times> (sample \<times> string) option) usa" where
  "sample_session U P types s = (case types (ws_instanceType s) of
     None \<Rightarrow> ret (False, None)
   | Some it \<Rightarrow> catching
       (bnd (take_sample U P it s) (\<lambda>r. ret (True, map_option (\<lambda>r. (r, case ws_instance s of None \<Rightarrow> [] | Some i \<Rightarrow> i)) r)))
       (\<lambda>_. andthen (mark_failed (ws_id s)) (ret (True, None))))"

fun sample_sessions ::
  "('u, 'z) usage_services_scheme \<Rightarrow> busy_policy \<Rightarrow> (string \<Rightarrow> instance_type option) \<Rightarrow> session_row list
    \<Rightarrow> ('u, session_row list \<times> (sample \<times> string) list) usa" where
  "sample_sessions U P types [] = ret ([], [])"
| "sample_sessions U P types (s # ss) = bnd (sample_session U P types s) (\<lambda>(evaluated, r).
     bnd (sample_sessions U P types ss) (\<lambda>(es, rs).
       ret (if evaluated then s # es else es, case r of None \<Rightarrow> rs | Some x \<Rightarrow> x # rs)))"

definition set_ticks :: "string \<Rightarrow> nat \<Rightarrow> ('u, unit) usa" where
  "set_ticks i k = usage_state (\<lambda>w. w\<lparr>sampler := (sampler w)(i := map_option (\<lambda>e. e\<lparr>se_unknownTicks := k\<rparr>) (sampler w i))\<rparr>)"

definition failed_entry :: "sampler_entry option \<Rightarrow> bool" where
  "failed_entry v = (case v of None \<Rightarrow> False | Some e \<Rightarrow> se_failed e)"

definition ticks_entry :: "sampler_entry option \<Rightarrow> nat" where
  "ticks_entry v = (case v of None \<Rightarrow> 0 | Some e \<Rightarrow> se_unknownTicks e)"

definition extend_busy ::
  "('u, 'z) usage_services_scheme \<Rightarrow> busy_policy \<Rightarrow> bool \<times> bool \<Rightarrow> session_row \<Rightarrow> ('u, unit) usa" where
  "extend_busy U P v s =
     bnd (usage_gets (\<lambda>w. sampler w (ws_id s))) (\<lambda>state.
     andthen (usage_state (\<lambda>w. w\<lparr>verdicts := (verdicts w)(ws_id s \<mapsto> verdict_of v)\<rparr>))
     (if snd v \<or> \<not> failed_entry state
      then andthen (set_ticks (ws_id s) 0)
        (if fst v then bnd (extendSession_repo (session_env U) (ws_id s) (bp_busyMinutes P) False (Some (bp_maxUnattendedHours P))) (\<lambda>_. ret ())
         else ret ())
      else (let ticks = Suc (ticks_entry state) in
        andthen (set_ticks (ws_id s) ticks)
        (if ticks \<le> bp_graceTicks P
         then bnd (extendSession_repo (session_env U) (ws_id s) (bp_busyMinutes P) False (Some (bp_maxUnattendedHours P))) (\<lambda>_. ret ())
         else ret ()))))"

definition extendBusySessions ::
  "('u, 'z) usage_services_scheme \<Rightarrow> busy_policy \<Rightarrow> (string \<Rightarrow> instance_type option) \<Rightarrow> session_row list \<Rightarrow> int \<Rightarrow> ('u, unit) usa" where
  "extendBusySessions U P types evaluated n =
     (if evaluated = [] then ret ()
      else bnd (busyWindowStats U (map ws_id evaluated) (n - bp_windowMinutes P * MINUTE_MS)) (\<lambda>stats.
        for_each evaluated (\<lambda>s. case types (ws_instanceType s) of
          None \<Rightarrow> ret ()
        | Some it \<Rightarrow> catching (extend_busy U P (isBusy (stats (ws_id s)) it P
             (requiredSamplesFor (bp_windowMinutes P) (bp_samplingSeconds P))) s) (\<lambda>_. ret ()))))"

definition keep_ids :: "string list \<Rightarrow> (string \<Rightarrow> 'a option) \<Rightarrow> string \<Rightarrow> 'a option" where
  "keep_ids live m = (\<lambda>i. if i \<in> set live then m i else None)"

definition sampleInstances ::
  "('u, 'z) usage_services_scheme \<Rightarrow> busy_policy \<Rightarrow> (string \<Rightarrow> instance_type option) \<Rightarrow> ('u, unit) usa" where
  "sampleInstances U P types = bnd (sessions_in [Active] None) (\<lambda>ss.
     bnd (sample_sessions U P types ss) (\<lambda>(evaluated, samples).
     bnd (usage_call (now_process U)) (\<lambda>n.
     andthen (extendBusySessions U P types evaluated n)
       (usage_state (\<lambda>w. update_gauges samples (w\<lparr>sampler := keep_ids (map ws_id ss) (sampler w),
          terminals := keep_ids (map ws_id ss) (terminals w), verdicts := keep_ids (map ws_id ss) (verdicts w)\<rparr>))))))"

section \<open>The other jobs of the component\<close>

definition ROLLUP_HEAL_HOURS :: nat where
  "ROLLUP_HEAL_HOURS = 2"

definition rollup_job :: "('u, 'z) usage_services_scheme \<Rightarrow> ('u, unit) usa" where
  "rollup_job U = rollupHours U ROLLUP_HEAL_HOURS"

definition prune_job :: "('u, 'z) usage_services_scheme \<Rightarrow> int \<Rightarrow> int \<Rightarrow> ('u, unit) usa" where
  "prune_job U sampleRetentionDays hourlyRetentionDays =
     bnd (pruneSamples U sampleRetentionDays) (\<lambda>_. bnd (pruneHourly U hourlyRetentionDays) (\<lambda>_. ret ()))"

text \<open>The reads of the two registries: no entry counts as no terminal, and as no verdict.\<close>

definition terminals_get :: "'u usage_world \<Rightarrow> string \<Rightarrow> nat" where
  "terminals_get w i = (case terminals w i of None \<Rightarrow> 0 | Some k \<Rightarrow> k)"

definition verdict_get :: "'u usage_world \<Rightarrow> string \<Rightarrow> busy_verdict" where
  "verdict_get w i = (case verdicts w i of None \<Rightarrow> NO_VERDICT | Some v \<Rightarrow> v)"

end
