(* ===== verification/InstanceUsage.thy ===== *)
theory InstanceUsage
  imports UsageSampler
begin

text \<open>
  What the usage sampler promises: load alone never carries a session past the unattended cap, an
  instance the sampler cannot see is spared for the grace ticks only, the terminals are read from the
  frames of the Docker stream, and rolling an hour up again changes nothing.
\<close>

section \<open>Load never outlives the cap\<close>

text \<open>A row after extensions that are no interaction.\<close>

definition capped :: "rat \<Rightarrow> session_row \<Rightarrow> session_row \<Rightarrow> bool" where
  "capped hours r q \<longleftrightarrow> ws_id q = ws_id r \<and> ws_state q = ws_state r \<and> ws_interaction q = ws_interaction r \<and>
     ws_active q = ws_active r \<and> ws_created q = ws_created r \<and>
     (\<forall>t. ws_timeout r = Some t \<longrightarrow> (\<exists>t'. ws_timeout q = Some t' \<and> t \<le> t' \<and>
        t' \<le> max t (UNATTENDED_ANCHOR r + Math_round (hours * 60) * MINUTE_MS)))"

definition only_capped :: "rat \<Rightarrow> 'w session_server \<Rightarrow> 'w session_server \<Rightarrow> bool" where
  "only_capped hours s t \<longleftrightarrow> list_all2 (capped hours) (sessions s) (sessions t)"

lemma capped_refl [simp]: "capped hours r r"
  by (auto simp: capped_def)

lemma capped_anchor: "capped hours r q \<Longrightarrow> UNATTENDED_ANCHOR q = UNATTENDED_ANCHOR r"
  by (simp add: capped_def UNATTENDED_ANCHOR_def)

lemma capped_trans:
  assumes "capped hours r q" and "capped hours q p"
  shows "capped hours r p"
proof -
  have "\<exists>t'. ws_timeout p = Some t' \<and> t \<le> t' \<and> t' \<le> max t (UNATTENDED_ANCHOR r + Math_round (hours * 60) * MINUTE_MS)"
    if t: "ws_timeout r = Some t" for t
  proof -
    from assms(1) t obtain u where u: "ws_timeout q = Some u" "t \<le> u"
      "u \<le> max t (UNATTENDED_ANCHOR r + Math_round (hours * 60) * MINUTE_MS)" by (auto simp: capped_def)
    from assms(2) u(1) obtain v where v: "ws_timeout p = Some v" "u \<le> v"
      "v \<le> max u (UNATTENDED_ANCHOR q + Math_round (hours * 60) * MINUTE_MS)" by (auto simp: capped_def)
    with u capped_anchor [OF assms(1)] show ?thesis by auto
  qed
  with assms show ?thesis by (simp add: capped_def)
qed

interpretation oc: evolution "only_capped hours" for hours
proof
  show "only_capped hours s s" for s :: "'w session_server"
    by (simp add: only_capped_def list_all2_refl)
  show "only_capped hours s t \<Longrightarrow> only_capped hours t u \<Longrightarrow> only_capped hours s u" for s t u :: "'w session_server"
    unfolding only_capped_def
    by (rule list_all2_trans [where ?P1.0 = "capped hours" and ?P2.0 = "capped hours"]) (auto intro: capped_trans)
qed

lemma capped_extend: "capped hours r (extend_row n minutes False (Some hours) r)"
  by (auto simp: capped_def extend_row_timeout coalesce_def candidate_def extend_row_fields)

lemma only_capped_outer [intro!]:
  "runs_in (only_capped hours) (outer_call f)" "runs_in (only_capped hours) (select_sessions g)"
  by (auto simp: outer_call_def select_sessions_def only_capped_def list_all2_refl split: prod.splits
      intro!: oc.runs_in_state_act)

lemma only_capped_usage [intro!]:
  "runs_in (only_capped hours) (usage_call f)" "runs_in (only_capped hours) (usage_state g)"
  "runs_in (only_capped hours) (usage_gets k)"
  by (auto simp: usage_call_def usage_state_def usage_gets_def)

lemma only_capped_extend:
  "runs_in (only_capped hours) (extendSession_repo E i minutes False (Some hours))"
  unfolding extendSession_repo_def update_sessions_def stmt_extend_def
  by (intro oc.runs_in_bnd oc.runs_in_andthen oc.runs_in_modify oc.runs_in_ret only_capped_outer)
     (auto simp: only_capped_def sql_update_def list_all2_map2 capped_extend intro!: list_all2_refl)

lemma only_capped_extend_busy: "runs_in (only_capped (bp_maxUnattendedHours P)) (extend_busy U P v s)"
  unfolding extend_busy_def set_ticks_def Let_def
  by (intro oc.runs_in_bnd oc.runs_in_andthen oc.runs_in_if oc.runs_in_ret only_capped_usage only_capped_extend)

lemma only_capped_extendBusySessions:
  "runs_in (only_capped (bp_maxUnattendedHours P)) (extendBusySessions U P types es n)"
proof -
  have "runs_in (only_capped (bp_maxUnattendedHours P)) (usage_statement U)"
    unfolding usage_statement_def by (intro oc.runs_in_bnd oc.runs_in_if oc.runs_in_ret oc.runs_in_throw only_capped_usage)
  then show ?thesis
    unfolding extendBusySessions_def busyWindowStats_def
    by (intro oc.runs_in_if oc.runs_in_bnd oc.runs_in_andthen oc.runs_in_ret oc.runs_in_for_each only_capped_usage)
       (auto split: option.splits intro: only_capped_extend_busy)
qed

text \<open>No terminal is open: none is listed, or the call fails.\<close>

definition no_terminals :: "('u, 'z) usage_services_scheme \<Rightarrow> bool" where
  "no_terminals U \<longleftrightarrow> (\<forall>s u text. fst (ptyStats U s u) = Some text \<longrightarrow> matchAll text = [])"

lemma samplePtys_silent:
  assumes "no_terminals U" and "\<And>ptys. Option.bind ptys fst = None \<Longrightarrow> runs_in (only_capped hours) (f ptys)"
  shows "runs_in (only_capped hours) (bnd (samplePtys U s n k) f)"
  unfolding runs_in_def
proof
  fix w :: "'a usage_world session_server"
  obtain t u where p: "ptyStats U s (inner (outer w)) = (t, u)" by fastforce
  define ptys where "ptys = (case t of None \<Rightarrow> None | Some x \<Rightarrow> Some (parsePtyStat x n k, countUserTerminals x))"
  define w' where "w' = w\<lparr>outer := (outer w)\<lparr>inner := u\<rparr>\<rparr>"
  have run: "bnd (samplePtys U s n k) f w = f ptys w'"
    using p by (simp add: samplePtys_def usage_call_def outer_call_def at_inner_def bnd_run state_act_run ptys_def w'_def)
  have "matchAll x = []" if "t = Some x" for x
    using assms(1) p that unfolding no_terminals_def by (metis fst_conv)
  then have "Option.bind ptys fst = None"
    by (cases t) (auto simp: ptys_def parsePtyStat_def)
  from assms(2) [OF this] have "only_capped hours w' (snd (f ptys w'))" by (rule runs_inD)
  moreover have "only_capped hours w w'" by (simp add: w'_def only_capped_def list_all2_refl)
  ultimately show "only_capped hours w (snd (bnd (samplePtys U s n k) f w))"
    unfolding run by (rule oc.evolves_trans [rotated])
qed

lemma only_capped_remember [intro!]:
  "runs_in (only_capped hours) (remember i e)" "runs_in (only_capped hours) (mark_failed i)"
  "runs_in (only_capped hours) (answered what f)" "runs_in (only_capped hours) (insertSample U r)"
  "runs_in (only_capped hours) (sampleGpu U s)"
  unfolding remember_def mark_failed_def answered_def insertSample_def usage_statement_def sampleGpu_def
  by (intro oc.runs_in_bnd oc.runs_in_andthen oc.runs_in_if oc.runs_in_ret oc.runs_in_throw only_capped_usage;
      auto split: option.splits)+

lemma only_capped_finish_sample:
  assumes "Option.bind ptys fst = None"
  shows "runs_in (only_capped hours) (finish_sample U P it s raw n prev ptys)"
proof -
  have quiet: "terminal_input U P s None e = ret ()" for e
    by (simp add: terminal_input_def advanced_def)
  have make: "runs_in (only_capped hours) (bnd (if it_gpuCount it > 0 then sampleGpu U s else ret None) (\<lambda>gpu.
      andthen (insertSample U (f gpu)) (ret (Some (f gpu)))))" for f
    by (intro oc.runs_in_bnd oc.runs_in_andthen oc.runs_in_if oc.runs_in_ret only_capped_remember)
  show ?thesis
    unfolding finish_sample_def Let_def assms
    by (cases ptys; cases prev; cases "Option.bind prev se_time"; cases "Option.bind prev se_counters")
       (auto simp: quiet make split del: if_split intro!: oc.runs_in_andthen)
qed

lemma only_capped_take_sample:
  assumes "no_terminals U"
  shows "runs_in (only_capped hours) (take_sample U P it s)"
proof -
  have ptys: "runs_in (only_capped hours)
      (bnd (if ws_workerType s = SANDBOX then samplePtys U s n k else ret None) (finish_sample U P it s raw n prev))" for raw n prev k
    by (cases "ws_workerType s = SANDBOX")
       (auto intro!: samplePtys_silent [OF assms] only_capped_finish_sample)
  show ?thesis
    unfolding take_sample_def
    by (rule oc.runs_in_bnd [OF only_capped_remember(3)], rule oc.runs_in_bnd [OF only_capped_usage(1)],
        rule oc.runs_in_bnd [OF only_capped_usage(3)], rule ptys)
qed

lemma only_capped_sample_sessions:
  assumes "no_terminals U"
  shows "runs_in (only_capped hours) (sample_sessions U P types ss)"
proof (induction ss)
  case (Cons s ss)
  have "runs_in (only_capped hours) (sample_session U P types s)"
    unfolding sample_session_def
    by (auto split: option.splits intro!: oc.runs_in_catching oc.runs_in_bnd oc.runs_in_andthen only_capped_take_sample [OF assms])
  with Cons show ?case
    unfolding sample_sessions.simps split_beta by (intro oc.runs_in_bnd oc.runs_in_ret)
qed (simp only: sample_sessions.simps oc.runs_in_ret)

lemma only_capped_tick:
  assumes "no_terminals U"
  shows "runs_in (only_capped (bp_maxUnattendedHours P)) (sampleInstances U P types)"
  unfolding sampleInstances_def sessions_in_def
  by (auto split: prod.splits intro!: oc.runs_in_bnd oc.runs_in_andthen only_capped_outer only_capped_usage
      only_capped_sample_sessions [OF assms] only_capped_extendBusySessions)

text \<open>Any number of ticks, whatever the instances report and whatever fails.\<close>

definition ticks ::
  "('u, 'z) usage_services_scheme \<Rightarrow> busy_policy \<Rightarrow> (string \<Rightarrow> instance_type option) \<Rightarrow> nat
    \<Rightarrow> 'u usage_world session_server \<Rightarrow> 'u usage_world session_server" where
  "ticks U P types k = (\<lambda>s. snd (sampleInstances U P types s)) ^^ k"

text \<open>
  C15: While no terminal is open, no number of sampler ticks, whatever load they see and whatever
  fails, carries a session's deadline past the later of the deadline it had and the unattended cap
  counted from its last interaction; nor do they shorten it, count as an interaction or close it.
\<close>

theorem load_never_outlives_cap:
  assumes "no_terminals U" and "r \<in> set (sessions s)" and "ws_timeout r = Some t"
  shows "\<exists>q \<in> set (sessions (ticks U P types k s)). ws_id q = ws_id r \<and> ws_state q = ws_state r \<and>
    UNATTENDED_ANCHOR q = UNATTENDED_ANCHOR r \<and>
    (\<exists>t'. ws_timeout q = Some t' \<and> t \<le> t' \<and>
       t' \<le> max t (UNATTENDED_ANCHOR r + Math_round (bp_maxUnattendedHours P * 60) * MINUTE_MS))"
proof -
  have "only_capped (bp_maxUnattendedHours P) s (ticks U P types k s)"
    unfolding ticks_def
  proof (induction k)
    case (Suc k)
    then show ?case
      using runs_inD [OF only_capped_tick [OF assms(1)]] by (auto intro: oc.evolves_trans)
  qed (simp add: oc.evolves_refl)
  with assms(2) obtain q where q: "q \<in> set (sessions (ticks U P types k s))" "capped (bp_maxUnattendedHours P) r q"
    unfolding only_capped_def by (meson list_all2_in1)
  with assms(3) capped_anchor [OF q(2)] show ?thesis by (auto simp: capped_def)
qed

section \<open>A sandbox to apply the properties to\<close>

definition lab_usage :: "int usage_services" where
  "lab_usage = \<lparr>now_db = (\<lambda>u. (u, u + 1000)), now_process = (\<lambda>u. (u, u + 1000)),
     containerStats = (\<lambda>_ u. (Some \<lparr>total_usage = Some (4 * u), system_cpu_usage = Some (10 * u), online_cpus = Some 4,
       memory_usage = Some 1000, inactive_file = Some 200, networks = []\<rparr>, u)),
     gpuStats = (\<lambda>_ u. (None, u)), ptyStats = (\<lambda>_ u. (Some [], u)), usage_db = (\<lambda>u. (True, u)),
     number_of = (\<lambda>_. None)\<rparr>"

definition lab_busy :: busy_policy where
  "lab_busy = \<lparr>bp_interactionMinutes = 60, bp_busyMinutes = 30, bp_maxUnattendedHours = 24, bp_graceTicks = 2,
     bp_windowMinutes = 10, bp_cpuCores = 1 / 2, bp_gpuPct = 10, bp_networkKBps = 500, bp_samplingSeconds = 60\<rparr>"

definition lab_sandbox :: session_row where
  "lab_sandbox = \<lparr>ws_id = ''s1'', ws_state = Active, ws_username = ''bob'', ws_workerType = ''sandbox'',
     ws_instanceType = ''T3aSmall'', ws_instance = Some ''i1'', ws_host = Some ''h1'', ws_created = 0, ws_updated = 0,
     ws_apiKey = None, ws_timeout = Some 60000, ws_interaction = None, ws_active = Some 0,
     ws_notification = NONE, ws_notified = None\<rparr>"

definition lab_types :: "string \<Rightarrow> instance_type option" where
  "lab_types i = (if i = ''T3aSmall'' then Some \<lparr>it_id = i, it_cpuCount = 4, it_gpuCount = 0, it_ramBytes = 4000\<rparr> else None)"

definition lab_watched :: "sampler_entry option \<Rightarrow> int usage_world session_server" where
  "lab_watched e = \<lparr>sessions = [lab_sandbox], session_apps = [], emitted = [],
     outer = \<lparr>sample_rows = [], hourly_rows = [], sampler = (\<lambda>i. if i = ''s1'' then e else None), terminals = Map.empty,
       verdicts = Map.empty, gauge_series = (\<lambda>_ _. None), tracked_labels = Map.empty, inner = 1000\<rparr>\<rparr>"

definition lab_blind :: sampler_entry where
  "lab_blind = \<lparr>se_time = None, se_counters = None, se_ptyAtime = None, se_unknownTicks = 0,
     se_interactionSeen = False, se_failed = True\<rparr>"

theorem load_never_outlives_cap_witness:
  "\<exists>q \<in> set (sessions (ticks lab_usage lab_busy lab_types 100 (lab_watched None))). ws_id q = ''s1'' \<and> ws_state q = Active \<and>
    UNATTENDED_ANCHOR q = 0 \<and> (\<exists>t'. ws_timeout q = Some t' \<and> 60000 \<le> t' \<and> t' \<le> 24 * 60 * 60000)"
proof -
  have "no_terminals lab_usage" by (simp add: no_terminals_def lab_usage_def)
  moreover have "lab_sandbox \<in> set (sessions (lab_watched None))" by (simp add: lab_watched_def)
  moreover have "ws_timeout lab_sandbox = Some 60000" by (simp add: lab_sandbox_def)
  moreover have "UNATTENDED_ANCHOR lab_sandbox = 0" "ws_id lab_sandbox = ''s1''" "ws_state lab_sandbox = Active"
    by (simp_all add: lab_sandbox_def UNATTENDED_ANCHOR_def coalesce_def)
  moreover have "Math_round (bp_maxUnattendedHours lab_busy * 60) * MINUTE_MS = 24 * 60 * 60000" by code_simp
  ultimately show ?thesis
    using load_never_outlives_cap [of lab_usage lab_sandbox "lab_watched None" 60000 lab_busy lab_types 100] by simp
qed

section \<open>Terminals in the frames of the Docker stream\<close>

text \<open>What \<^verbatim>\<open>stat -c "%X %Z %n"\<close> prints of a terminal: its times and its name.\<close>

type_synonym pty = "nat \<times> nat \<times> nat"

definition print_pty :: "pty \<Rightarrow> string" where
  "print_pty p = (case p of (a, c, k) \<Rightarrow>
     string_of_nat a @ '' '' @ string_of_nat c @ '' '' @ PTS @ string_of_nat k @ [CHR 0x0A])"

text \<open>A frame of the multiplexed stream: a header of eight bytes and what was written at once.\<close>

definition frame :: "string \<times> pty list \<Rightarrow> string" where
  "frame f = fst f @ concat (map print_pty (snd f))"

definition times_of :: "pty \<Rightarrow> int \<times> int" where
  "times_of p = (case p of (a, c, k) \<Rightarrow> (int a, int c))"

lemma digits_value_append: "digits_value v (xs @ ys) = digits_value (digits_value v xs) ys"
  by (induction xs arbitrary: v) auto

lemma string_of_nat_digits:
  "set (string_of_nat n) \<subseteq> Collect is_digit \<and> string_of_nat n \<noteq> [] \<and> digits_value 0 (string_of_nat n) = n"
proof (induction n rule: string_of_nat.induct)
  case (1 n)
  show ?case
  proof (cases "n < 10")
    case True
    then show ?thesis by (simp add: string_of_nat.simps [of n] is_digit_def)
  next
    case False
    have "digits_value 0 (string_of_nat n) = 10 * (n div 10) + n mod 10"
      using 1 False by (simp add: string_of_nat.simps [of n] digits_value_append)
    with 1 False show ?thesis
      by (simp add: string_of_nat.simps [of n] is_digit_def subset_iff)
  qed
qed

lemma span_digits:
  assumes "\<not> is_digit c"
  shows "span is_digit (string_of_nat n @ c # rest) = (string_of_nat n, c # rest)"
proof -
  have "\<And>x. x \<in> set (string_of_nat n) \<Longrightarrow> is_digit x" using string_of_nat_digits [of n] by blast
  with assms show ?thesis by (simp add: span_def takeWhile_append dropWhile_append)
qed

lemma span_space:
  assumes "\<not> is_space c"
  shows "span is_space ('' '' @ c # rest) = ('' '', c # rest)"
  using assms by (simp add: span_def is_space_def)

lemma string_of_nat_Cons:
  obtains c cs where "string_of_nat n = c # cs" and "\<not> is_space c" and "is_digit c"
proof -
  obtain c cs where c: "string_of_nat n = c # cs" using string_of_nat_digits [of n] by (cases "string_of_nat n") auto
  then have "is_digit c" using string_of_nat_digits [of n] by auto
  moreover from this have "\<not> is_space c" by (auto simp: is_digit_def is_space_def)
  ultimately show thesis using c that by blast
qed

lemma not_digits [simp]: "\<not> is_digit CHR '' ''" "\<not> is_digit (CHR 0x0A)" "\<not> is_space CHR ''/''"
  by (simp_all add: is_digit_def is_space_def)

lemma match_print:
  "match_record (print_pty (a, c, k) @ rest) = Some ((int a, int c), CHR 0x0A # rest)"
proof -
  obtain d ds where d: "string_of_nat c = d # ds" "\<not> is_space d" by (rule string_of_nat_Cons [of c])
  let ?r3 = "PTS @ string_of_nat k @ CHR 0x0A # rest"
  let ?r2 = "string_of_nat c @ CHR '' '' # ?r3"
  have s1: "span is_digit (string_of_nat a @ CHR '' '' # ?r2) = (string_of_nat a, CHR '' '' # ?r2)"
    by (rule span_digits) simp
  have s2: "span is_space (CHR '' '' # ?r2) = ('' '', ?r2)" using span_space [OF d(2)] d(1) by simp
  have s3: "span is_digit ?r2 = (string_of_nat c, CHR '' '' # ?r3)" by (rule span_digits) simp
  have s4: "span is_space (CHR '' '' # ?r3) = ('' '', ?r3)"
    using span_space [OF not_digits(3)] by (simp add: PTS_def)
  have s5: "span is_digit (drop 9 ?r3) = (string_of_nat k, CHR 0x0A # rest)"
    using span_digits [OF not_digits(2), of k rest] by (simp add: PTS_def)
  have "take 9 ?r3 = PTS" by (simp add: PTS_def)
  then show ?thesis
    using s1 s2 s3 s4 s5 string_of_nat_digits [of a] string_of_nat_digits [of c] string_of_nat_digits [of k]
    by (simp add: match_record_def print_pty_def Number_digits_def)
qed

lemma matchAll_noise:
  assumes "\<And>c. c \<in> set noise \<Longrightarrow> \<not> is_digit c"
  shows "matchAll (noise @ text) = matchAll text"
  using assms
proof (induction noise)
  case (Cons c cs)
  then have "match_record (c # cs @ text) = None" by (simp add: match_record_def span_def split: prod.splits)
  with Cons show ?case by simp
qed simp

lemma matchAll_print: "matchAll (print_pty p @ rest) = times_of p # matchAll rest"
proof -
  obtain a c k where p: "p = (a, c, k)" by (cases p)
  have "print_pty p @ rest \<noteq> []" by (simp add: p print_pty_def PTS_def)
  then obtain x xs where x: "print_pty p @ rest = x # xs" by (cases "print_pty p @ rest") auto
  with match_print [of a c k rest] have "matchAll (print_pty p @ rest) = times_of p # matchAll (CHR 0x0A # rest)"
    by (simp add: p times_of_def)
  also have "matchAll (CHR 0x0A # rest) = matchAll rest" using matchAll_noise [of "[CHR 0x0A]" rest] by simp
  finally show ?thesis .
qed

lemma matchAll_records: "matchAll (concat (map print_pty ps) @ rest) = map times_of ps @ matchAll rest"
  by (induction ps) (simp_all add: matchAll_print)

text \<open>
  The terminals the sampler reads from the framed output of \<^verbatim>\<open>stat\<close> are exactly those that were
  printed, however the output is cut into frames between records, as long as no frame header has a byte
  that is an ASCII digit.
\<close>

theorem ptyStat_roundtrip:
  assumes "\<And>h c. h \<in> fst ` set fs \<Longrightarrow> c \<in> set h \<Longrightarrow> \<not> is_digit c"
  shows "matchAll (concat (map frame fs)) = map times_of (concat (map snd fs))"
  using assms
proof (induction fs)
  case (Cons f fs)
  have "matchAll (frame f @ concat (map frame fs)) = matchAll (concat (map print_pty (snd f)) @ concat (map frame fs))"
    unfolding frame_def append_assoc by (rule matchAll_noise) (use Cons.prems in auto)
  also have "\<dots> = map times_of (snd f) @ matchAll (concat (map frame fs))" by (rule matchAll_records)
  also have "matchAll (concat (map frame fs)) = map times_of (concat (map snd fs))"
    by (rule Cons.IH) (use Cons.prems in auto)
  finally show ?case by simp
qed simp

definition header :: "char \<Rightarrow> char \<Rightarrow> string" where
  "header b1 b0 = [CHR 0x01, CHR 0x00, CHR 0x00, CHR 0x00, CHR 0x00, CHR 0x00, b1, b0]"

theorem ptyStat_roundtrip_witness:
  "matchAll (frame (header (CHR 0x00) CHR ''!'', [(1712345678, 1712340000, 3)])) = [(1712345678, 1712340000)]"
proof -
  let ?fs = "[(header (CHR 0x00) CHR ''!'', [(1712345678, 1712340000, 3)])]"
  have "\<And>h c. h \<in> fst ` set ?fs \<Longrightarrow> c \<in> set h \<Longrightarrow> \<not> is_digit c"
    by (auto simp: header_def is_digit_def)
  from ptyStat_roundtrip [of ?fs, OF this] show ?thesis by (simp add: times_of_def)
qed

text \<open>
  The header of a frame of 48 to 57 bytes, modulo 256, ends with a digit, which the pattern takes for
  the first digit of the first time: seventeen terminals are such a frame.
\<close>

definition seventeen :: "pty list" where
  "seventeen = map (\<lambda>k. (1712345678, 1712340000, k)) [0..<17]"

lemma digit_before_time:
  "matchAll (CHR ''8'' # print_pty (1712345678, c, k) @ rest) = (81712345678, int c) # matchAll rest"
proof -
  have "CHR ''8'' = char_of (56 :: nat)" by code_simp
  then have "CHR ''8'' # print_pty (1712345678, c, k) = print_pty (81712345678, c, k)"
    by (simp add: print_pty_def string_of_nat.simps)
  then have "CHR ''8'' # print_pty (1712345678, c, k) @ rest = print_pty (81712345678, c, k) @ rest"
    by (metis append_Cons)
  with matchAll_print [of "(81712345678, c, k)" rest] show ?thesis by (simp only: times_of_def prod.case) simp
qed

theorem header_digit_corrupts_time:
  "length (concat (map print_pty seventeen)) = 2 * 256 + of_char CHR ''8'' \<and>
   fst (hd (matchAll (frame (header (CHR 0x02) CHR ''8'', seventeen)))) = 81712345678"
proof
  show "length (concat (map print_pty seventeen)) = 2 * 256 + of_char CHR ''8''"
    by (simp add: seventeen_def print_pty_def PTS_def upt_rec string_of_nat.simps)
  let ?n = "[CHR 0x01, CHR 0x00, CHR 0x00, CHR 0x00, CHR 0x00, CHR 0x00, CHR 0x02]"
  have frame: "frame (header (CHR 0x02) CHR ''8'', p # ps) = ?n @ CHR ''8'' # print_pty p @ concat (map print_pty ps)" for p ps
    by (simp add: frame_def header_def)
  have noise: "matchAll (?n @ t) = matchAll t" for t by (rule matchAll_noise) (auto simp: is_digit_def)
  have "seventeen = (1712345678, 1712340000, 0) # tl seventeen" by (simp add: seventeen_def upt_rec)
  then show "fst (hd (matchAll (frame (header (CHR 0x02) CHR ''8'', seventeen)))) = 81712345678"
    by (metis frame noise digit_before_time list.sel(1) fst_conv)
qed

section \<open>Rolling up again\<close>

definition same_key :: "hourly \<Rightarrow> hourly \<Rightarrow> bool" where
  "same_key h q \<longleftrightarrow> uh_session q = uh_session h \<and> uh_hour q = uh_hour h"

definition overwrite :: "hourly \<Rightarrow> hourly \<Rightarrow> hourly" where
  "overwrite h q = (if same_key h q then h\<lparr>uh_username := uh_username q, uh_type := uh_type q\<rparr> else q)"

lemma upsert_hourly_alt:
  "upsert_hourly h hs = (if list_ex (same_key h) hs then map (overwrite h) hs else hs @ [h])"
proof -
  have "(\<lambda>q. uh_session q = uh_session h \<and> uh_hour q = uh_hour h) = same_key h"
    by (auto simp: same_key_def)
  then show ?thesis by (simp add: upsert_hourly_def sql_update_def overwrite_def [abs_def])
qed

lemma same_key_overwrite [simp]: "same_key h (overwrite g q) = same_key h q"
  by (auto simp: same_key_def overwrite_def)

lemma upserts_all_there:
  "\<forall>g \<in> set gs. list_ex (same_key g) hs \<Longrightarrow> fold upsert_hourly gs hs = map (fold overwrite gs) hs"
proof (induction gs arbitrary: hs)
  case (Cons g gs)
  then have "fold upsert_hourly gs (map (overwrite g) hs) = map (fold overwrite gs) (map (overwrite g) hs)"
    by (intro Cons.IH) (auto simp: list_ex_iff)
  moreover have "upsert_hourly g hs = map (overwrite g) hs"
    using Cons.prems by (simp add: upsert_hourly_alt)
  ultimately show ?case by simp
qed simp

lemma upserts_settle:
  "(\<forall>g \<in> set gs. list_ex (same_key g) (fold upsert_hourly gs hs)) \<and>
   (\<forall>q \<in> set (fold upsert_hourly gs hs). fold overwrite gs q = q)"
proof (induction gs rule: rev_induct)
  case (snoc g gs)
  let ?hs = "fold upsert_hourly gs hs"
  have known: "list_ex (same_key k) (upsert_hourly g ?hs)" if "list_ex (same_key k) ?hs \<or> k = g" for k
  proof (cases "list_ex (same_key g) ?hs")
    case True
    with that have "list_ex (same_key k) ?hs" by auto
    then show ?thesis using True by (auto simp: upsert_hourly_alt list_ex_iff)
  next
    case False
    have "same_key g g" by (simp add: same_key_def)
    with that False show ?thesis by (auto simp: upsert_hourly_alt list_ex_iff)
  qed
  have "overwrite g (fold overwrite gs q) = q" if q: "q \<in> set (upsert_hourly g ?hs)" for q
  proof (cases "same_key g q")
    case True
    have "q = g\<lparr>uh_username := uh_username q, uh_type := uh_type q\<rparr>"
      using q True by (auto simp: upsert_hourly_alt overwrite_def list_ex_iff split: if_splits)
    moreover have "uh_username (fold overwrite gs q) = uh_username q \<and> uh_type (fold overwrite gs q) = uh_type q \<and>
        same_key g (fold overwrite gs q) = same_key g q"
      by (induction gs arbitrary: q) (simp_all add: overwrite_def same_key_def)
    ultimately show ?thesis using True by (simp add: overwrite_def)
  next
    case False
    then have "q \<in> set ?hs"
      using q by (auto simp: upsert_hourly_alt overwrite_def same_key_def split: if_splits)
    then have "fold overwrite gs q = q" using snoc by blast
    with False show ?thesis by (simp add: overwrite_def)
  qed
  with snoc known show ?case by auto
qed simp

text \<open>
  Rolling an hour up again gives the same hourly rows, whatever rows were there before: the heal
  window of the rollup job overwrites and never adds.
\<close>

theorem rollup_again:
  "stmt_rollup hourStart hourEnd rs (stmt_rollup hourStart hourEnd rs hs) = stmt_rollup hourStart hourEnd rs hs"
  unfolding stmt_rollup_def
  using upserts_settle [of "rollup_groups hourStart hourEnd rs" hs]
  by (simp add: upserts_all_there map_idI)

section \<open>An instance nobody can see\<close>

lemma run_extend_blind:
  assumes "sampler (outer w) (ws_id s) = Some e" and "se_failed e"
  shows "\<exists>w'. extend_busy U P (False, False) s w = (Inr (), w') \<and>
    sampler (outer w') (ws_id s) = Some (e\<lparr>se_unknownTicks := Suc (se_unknownTicks e)\<rparr>) \<and>
    (bp_graceTicks P \<le> se_unknownTicks e \<longrightarrow> sessions w' = sessions w) \<and>
    verdicts (outer w') (ws_id s) = Some NO_VERDICT"
  using assms
  by (auto simp: extend_busy_def set_ticks_def usage_gets_def usage_state_def outer_call_def effect_simps failed_entry_def
      ticks_entry_def Let_def verdict_of_def extendSession_repo_def update_sessions_def select_sessions_def session_env_def
      at_inner_def split: prod.splits)

text \<open>
  An instance the sampler cannot see, in a window with too few samples, is treated as busy for
  the grace ticks only: the first tick after them, and every later one, leaves the deadline alone.
\<close>

theorem blindness_runs_out:
  assumes "sampler (outer w) (ws_id s) = Some e" and "se_failed e" and "bp_graceTicks P \<le> se_unknownTicks e + k"
  shows "sessions (((\<lambda>w. snd (extend_busy U P (False, False) s w)) ^^ (k + j)) w) =
    sessions (((\<lambda>w. snd (extend_busy U P (False, False) s w)) ^^ k) w)"
proof -
  let ?t = "\<lambda>w. snd (extend_busy U P (False, False) s w)"
  have entry: "sampler (outer ((?t ^^ n) w)) (ws_id s) = Some (e\<lparr>se_unknownTicks := se_unknownTicks e + n\<rparr>)" for n
  proof (induction n)
    case (Suc n)
    then obtain w' where "extend_busy U P (False, False) s ((?t ^^ n) w) = (Inr (), w')"
      "sampler (outer w') (ws_id s) = Some (e\<lparr>se_unknownTicks := Suc (se_unknownTicks e + n)\<rparr>)"
      using run_extend_blind [of "(?t ^^ n) w" s "e\<lparr>se_unknownTicks := se_unknownTicks e + n\<rparr>" U P] assms(2) by auto
    then show ?case by simp
  qed (simp add: assms(1))
  show ?thesis
  proof (induction j)
    case (Suc j)
    obtain w' where "extend_busy U P (False, False) s ((?t ^^ (k + j)) w) = (Inr (), w')"
      "sessions w' = sessions ((?t ^^ (k + j)) w)"
      using run_extend_blind [OF entry [of "k + j"], of U P] assms(2,3) by auto
    with Suc show ?case by simp
  qed simp
qed

theorem blindness_runs_out_witness:
  "sessions (((\<lambda>w. snd (extend_busy lab_usage lab_busy (False, False) lab_sandbox w)) ^^ (2 + 40)) (lab_watched (Some lab_blind))) =
    sessions (((\<lambda>w. snd (extend_busy lab_usage lab_busy (False, False) lab_sandbox w)) ^^ 2) (lab_watched (Some lab_blind)))"
  by (rule blindness_runs_out [where e = lab_blind])
     (simp_all add: lab_watched_def lab_sandbox_def lab_blind_def lab_busy_def)

section \<open>What a failed sample costs\<close>

text \<open>
  A sample that fails before any has been remembered leaves an entry that holds the failure and no
  time. The next sample is read, but computing with the entry throws, so it is lost and the instance
  counts as unseen for another tick.
\<close>

lemma timeless_entry_throws:
  assumes "se_time e = None" and "Option.bind ptys fst = None"
  shows "fst (finish_sample U P it s raw n (Some e) ptys w) = Inl (OtherError ''TypeError'')"
  using assms
  by (cases ptys) (auto simp: finish_sample_def terminal_input_def advanced_def remember_def usage_state_def outer_call_def
      effect_simps Let_def split: option.splits)

theorem first_failure_loses_next_sample:
  "fst (sample_session lab_usage lab_busy lab_types lab_sandbox (lab_watched (Some lab_blind))) = Inr (True, None) \<and>
   map_option se_failed (sampler (outer (snd (sample_session lab_usage lab_busy lab_types lab_sandbox
     (lab_watched (Some lab_blind))))) ''s1'') = Some True \<and>
   sample_rows (outer (snd (sample_session lab_usage lab_busy lab_types lab_sandbox (lab_watched (Some lab_blind))))) = []"
  by code_simp

text \<open>
  Gauges are removed by the instance they belong to: when an instance goes to another user between two
  ticks, the series of its previous user stays, and is never removed.
\<close>

definition lab_sample :: "string \<Rightarrow> sample" where
  "lab_sample u = \<lparr>us_session = ''s1'', us_username = u, us_type = ''T3aSmall'', us_time = 0, us_cpu = Some 5,
     us_ramBytes = None, us_ram = None, us_gpu = None, us_gpuRam = None, us_rx = None, us_tx = None\<rparr>"

theorem previous_users_gauge_stays:
  "gauge_series (update_gauges [] (update_gauges [(lab_sample ''eve'', ''i1'')] (update_gauges [(lab_sample ''bob'', ''i1'')]
     (outer (lab_watched None))))) ''cpuPct'' (''bob'', ''T3aSmall'', ''i1'') = Some 5"
  by code_simp

end
