(* ===== verification/KeyCase.thy ===== *)
theory KeyCase
  imports Prelude "HOL-Library.List_Lexorder" "HOL-Library.Char_ord"
begin

text \<open>
  Keys of a key-value store that name a user in more than one spelling, brought back to the spelling
  the database holds (\<^verbatim>\<open>lib/js/shared/src/redisKeyCase.js\<close>): the plan, and how it is carried out against
  the store. The store is a map; a conditional rename does nothing when the new key exists.
\<close>

section \<open>Planning\<close>

datatype orphans = Rename_orphans | Remove_orphans

text \<open>\<open>map.set(k, [...(map.get(k) ?? []), v])\<close> on a map in insertion order.\<close>

fun map_push :: "('k \<times> 'v list) list \<Rightarrow> 'k \<Rightarrow> 'v \<Rightarrow> ('k \<times> 'v list) list" where
  "map_push [] k v = [(k, [v])]"
| "map_push ((k', vs) # m) k v = (if k' = k then (k', vs @ [v]) # m else (k', vs) # map_push m k v)"

definition key_start :: "string \<Rightarrow> string \<Rightarrow> string" where
  "key_start pre separator = pre @ separator"

definition starts_with :: "string \<Rightarrow> string \<Rightarrow> bool" where
  "starts_with start s \<longleftrightarrow> take (length start) s = start"

definition named_keys :: "string \<Rightarrow> string list \<Rightarrow> string list" where
  "named_keys start keys = filter (\<lambda>k. starts_with start k \<and> length k > length start) (sort keys)"

definition key_target :: "string \<Rightarrow> string \<Rightarrow> string" where
  "key_target start k = start @ storedUsername (drop (length start) k)"

definition stored_keys :: "string \<Rightarrow> string list \<Rightarrow> string set" where
  "stored_keys start named = set (filter (\<lambda>k. k = key_target start k) named)"

definition collisions :: "string \<Rightarrow> string list \<Rightarrow> (string \<times> string list) list" where
  "collisions start named = foldl (\<lambda>m k. if k = key_target start k then m else map_push m (key_target start k) k) [] named"

definition survivor :: "orphans \<Rightarrow> string set \<Rightarrow> string \<times> string list \<Rightarrow> string option" where
  "survivor orph stored = (\<lambda>(target, ks). if orph = Rename_orphans \<and> target \<notin> stored then Some (last ks) else None)"

definition planKeyNormalization ::
  "string list \<Rightarrow> string \<Rightarrow> orphans \<Rightarrow> string \<Rightarrow> string list \<times> (string \<times> string) list" where
  "planKeyNormalization keys pre orph separator =
     (let start = key_start pre separator; named = named_keys start keys; stored = stored_keys start named;
          cs = collisions start named
      in (sort (concat (map (\<lambda>c. filter (\<lambda>k. Some k \<noteq> survivor orph stored c) (snd c)) cs)),
          concat (map (\<lambda>c. case survivor orph stored c of None \<Rightarrow> [] | Some k \<Rightarrow> [(k, fst c)]) cs)))"

section \<open>Carrying the plan out\<close>

function batches :: "nat \<Rightarrow> 'a list \<Rightarrow> 'a list list" where
  "batches n xs = (if xs = [] \<or> n = 0 then [] else take n xs # batches n (drop n xs))"
  by pat_completeness auto
termination
  by (relation "measure (length \<circ> snd)") auto

declare batches.simps [simp del]

fun rename_keys ::
  "(string \<Rightarrow> string \<Rightarrow> ('s, 'e, bool) act) \<Rightarrow> (string \<times> string) list \<Rightarrow> ('s, 'e, nat \<times> string list) act" where
  "rename_keys renameKey [] = ret (0, [])"
| "rename_keys renameKey ((old, new) # rs) = bnd (renameKey old new) (\<lambda>done.
     bnd (rename_keys renameKey rs) (\<lambda>(renamed, refused).
       ret (if done then (Suc renamed, refused) else (renamed, old # refused))))"

definition applyKeyNormalization ::
  "'e \<Rightarrow> string list \<Rightarrow> string \<Rightarrow> orphans \<Rightarrow> string \<Rightarrow> (string \<Rightarrow> string \<Rightarrow> ('s, 'e, bool) act) option
    \<Rightarrow> (string list \<Rightarrow> ('s, 'e, unit) act) \<Rightarrow> nat \<Rightarrow> ('s, 'e, nat \<times> nat) act" where
  "applyKeyNormalization err keys pre orph separator renameKey removeKeys batchSize =
     (case planKeyNormalization keys pre orph separator of (removals, renames) \<Rightarrow>
      if renames \<noteq> [] \<and> renameKey = None then throw err
      else bnd (case renameKey of None \<Rightarrow> ret (0, []) | Some f \<Rightarrow> rename_keys f renames) (\<lambda>(renamed, refused).
        let removals = removals @ refused in
        andthen (for_each (batches batchSize removals) removeKeys) (ret (length removals, renamed))))"

section \<open>What the plan holds\<close>

lemma map_of_push:
  "map_of (map_push m k v) = (map_of m)(k \<mapsto> (case map_of m k of None \<Rightarrow> [v] | Some vs \<Rightarrow> vs @ [v]))"
  by (induction m k v rule: map_push.induct) auto

lemma fst_push: "fst ` set (map_push m k v) = insert k (fst ` set m)"
  by (induction m k v rule: map_push.induct) auto

lemma distinct_push: "distinct (map fst m) \<Longrightarrow> distinct (map fst (map_push m k v))"
proof (induction m k v rule: map_push.induct)
  case (2 k' vs m k v)
  then show ?case using fst_push [of m k v] by (auto simp flip: set_map)
qed simp

definition spelled :: "string \<Rightarrow> string list \<Rightarrow> string \<Rightarrow> string list" where
  "spelled start named t = filter (\<lambda>k. k \<noteq> key_target start k \<and> key_target start k = t) named"

lemma collisions_snoc:
  "collisions start (named @ [k]) = (if k = key_target start k then collisions start named
     else map_push (collisions start named) (key_target start k) k)"
  by (simp add: collisions_def)

lemma distinct_collisions: "distinct (map fst (collisions start named))"
  by (induction named rule: rev_induct) (auto simp: collisions_snoc distinct_push, simp add: collisions_def)

lemma map_of_collisions:
  "map_of (collisions start named) t = (if spelled start named t = [] then None else Some (spelled start named t))"
proof (induction named rule: rev_induct)
  case (snoc k named)
  show ?case
  proof (cases "k = key_target start k \<or> t \<noteq> key_target start k")
    case True
    then have "spelled start (named @ [k]) t = spelled start named t" by (auto simp: spelled_def)
    with True snoc show ?thesis by (auto simp: collisions_snoc map_of_push)
  next
    case False
    then have "spelled start (named @ [k]) t = spelled start named t @ [k]" by (auto simp: spelled_def)
    with False snoc show ?thesis by (auto simp: collisions_snoc map_of_push simp del: map_of_eq_Some_iff)
  qed
qed (simp add: collisions_def spelled_def)

lemma in_collisions:
  "(t, ks) \<in> set (collisions start named) \<longleftrightarrow> ks \<noteq> [] \<and> ks = spelled start named t"
  using map_of_eq_Some_iff [OF distinct_collisions, of start named t ks]
  unfolding map_of_collisions by (auto split: if_splits)

definition named_key :: "string \<Rightarrow> string \<Rightarrow> bool" where
  "named_key start k \<longleftrightarrow> starts_with start k \<and> length k > length start"

lemma set_named_keys [simp]: "set (named_keys start keys) = {k \<in> set keys. named_key start k}"
  by (auto simp: named_keys_def named_key_def)

lemma starts_with_append [simp]: "starts_with s (s @ t)"
  by (simp add: starts_with_def)

lemma target_named [simp]: "named_key start k \<Longrightarrow> named_key start (key_target start k)"
  by (simp add: named_key_def key_target_def storedUsername_def)

lemma target_idem [simp]: "key_target start (key_target start k) = key_target start k"
  by (simp add: key_target_def)

lemma last_spelled:
  assumes "spelled start (named_keys start keys) t \<noteq> []"
  shows "last (spelled start (named_keys start keys) t) = Max (set (spelled start (named_keys start keys) t))"
proof -
  let ?s = "spelled start (named_keys start keys) t"
  have s: "sorted ?s"
    unfolding spelled_def named_keys_def filter_filter by (rule sorted_wrt_filter) simp
  have "x \<le> last ?s" if "x \<in> set ?s" for x
  proof -
    from that obtain j where j: "j < length ?s" "x = ?s ! j" by (auto simp: in_set_conv_nth)
    then have "?s ! j \<le> ?s ! (length ?s - 1)" by (intro sorted_nth_mono [OF s]) auto
    with j assms show ?thesis by (simp add: last_conv_nth)
  qed
  with assms show ?thesis by (intro Max_eqI [symmetric]) auto
qed

section \<open>Carrying it out against a store\<close>

type_synonym store = "string \<Rightarrow> string option"

definition renamenx :: "string \<Rightarrow> string \<Rightarrow> (store, string, bool) act" where
  "renamenx old new = (\<lambda>m. case m old of None \<Rightarrow> (Inl ''ERR no such key'', m)
     | Some v \<Rightarrow> if m new = None then (Inr True, m(old := None, new := Some v)) else (Inr False, m))"

definition del_keys :: "string list \<Rightarrow> (store, string, unit) act" where
  "del_keys ks = modify (\<lambda>m k. if k \<in> set ks then None else m k)"

lemma concat_batches: "concat (batches (Suc n) xs) = xs"
proof (induction "Suc n" xs rule: batches.induct)
  case (1 xs)
  then show ?case by (subst batches.simps) (simp add: append_take_drop_id)
qed

lemma run_del_batches:
  "for_each bs del_keys m = (Inr (), \<lambda>k. if k \<in> set (concat bs) then None else m k)"
  by (induction bs arbitrary: m) (auto simp: del_keys_def andthen_run)

lemma run_rename_keys:
  assumes "distinct (map fst rs)" and "distinct (map snd rs)" and "fst ` set rs \<inter> snd ` set rs = {}"
    and "\<forall>(old, new) \<in> set rs. m old \<noteq> None \<and> m new = None"
  shows "\<exists>m'. rename_keys renamenx rs m = (Inr (length rs, []), m') \<and> (\<forall>(old, new) \<in> set rs. m' new = m old) \<and>
    (\<forall>k. k \<notin> snd ` set rs \<longrightarrow> m' k = (if k \<in> fst ` set rs then None else m k))"
  using assms
proof (induction rs arbitrary: m)
  case (Cons r rs)
  obtain old new where r: "r = (old, new)" by fastforce
  from Cons.prems(4) r obtain v where v: "m old = Some v" "m new = None" by auto
  let ?m = "m(old := None, new := Some v)"
  have ne: "old \<notin> fst ` set rs" "new \<notin> snd ` set rs" "old \<noteq> new" "old \<notin> snd ` set rs" "new \<notin> fst ` set rs"
    using Cons.prems(1-3) r by auto
  have fresh: "\<forall>(o', n') \<in> set rs. ?m o' \<noteq> None \<and> ?m n' = None"
    using Cons.prems(4) ne by (auto simp: rev_image_eqI)
  have d: "distinct (map fst rs)" "distinct (map snd rs)" "fst ` set rs \<inter> snd ` set rs = {}"
    using Cons.prems(1-3) by auto
  from Cons.IH [OF d fresh] obtain m' where m': "rename_keys renamenx rs ?m = (Inr (length rs, []), m')"
    "\<forall>(o', n') \<in> set rs. m' n' = ?m o'"
    "\<forall>k. k \<notin> snd ` set rs \<longrightarrow> m' k = (if k \<in> fst ` set rs then None else ?m k)"
    by blast
  have run: "rename_keys renamenx (r # rs) m = (Inr (length (r # rs), []), m')"
    using m'(1) v r by (simp add: renamenx_def bnd_run)
  moreover have "m' n' = m o'" if "(o', n') \<in> set rs" for o' n'
  proof -
    have "o' \<noteq> old" "o' \<noteq> new" using that ne by force+
    with m'(2) that show ?thesis by fastforce
  qed
  then have "\<forall>(o', n') \<in> set (r # rs). m' n' = m o'"
    using m'(3) ne v r by auto
  moreover have others: "\<forall>k. k \<notin> snd ` set (r # rs) \<longrightarrow> m' k = (if k \<in> fst ` set (r # rs) then None else m k)"
    using m'(3) ne r by auto
  ultimately show ?case by blast
qed simp

definition removals :: "string \<Rightarrow> string list \<Rightarrow> string list" where
  "removals pre keys = fst (planKeyNormalization keys pre Rename_orphans '':'')"

definition renames :: "string \<Rightarrow> string list \<Rightarrow> (string \<times> string) list" where
  "renames pre keys = snd (planKeyNormalization keys pre Rename_orphans '':'')"

abbreviation spellings :: "string \<Rightarrow> string list \<Rightarrow> string \<Rightarrow> string list" where
  "spellings pre keys \<equiv> spelled (key_start pre '':'') (named_keys (key_start pre '':'') keys)"

lemma spellings_in:
  "set (spellings pre keys t) = {k \<in> set keys. named_key (key_start pre '':'') k \<and>
     k \<noteq> key_target (key_start pre '':'') k \<and> key_target (key_start pre '':'') k = t}"
  by (auto simp: spelled_def)

lemma spellings_target:
  assumes "spellings pre keys t \<noteq> []"
  shows "named_key (key_start pre '':'') t" and "key_target (key_start pre '':'') t = t"
proof -
  from assms obtain k where "k \<in> set (spellings pre keys t)" by (meson hd_in_set)
  then have k: "named_key (key_start pre '':'') k" "t = key_target (key_start pre '':'') k"
    unfolding spellings_in by blast+
  show "named_key (key_start pre '':'') t" unfolding k(2) using k(1) by (rule target_named)
  show "key_target (key_start pre '':'') t = t" unfolding k(2) by (rule target_idem)
qed

lemma in_concat_pairs: "x \<in> set (concat (map f cs)) \<longleftrightarrow> (\<exists>t ks. (t, ks) \<in> set cs \<and> x \<in> set (f (t, ks)))"
  by auto

lemma stored_iff:
  assumes "spellings pre keys t \<noteq> []"
  shows "t \<in> stored_keys (key_start pre '':'') (named_keys (key_start pre '':'') keys) \<longleftrightarrow> t \<in> set keys"
  using spellings_target [OF assms] by (auto simp: stored_keys_def)

lemma in_renames:
  "(old, new) \<in> set (renames pre keys) \<longleftrightarrow> spellings pre keys new \<noteq> [] \<and> new \<notin> set keys \<and> old = last (spellings pre keys new)"
proof -
  let ?start = "key_start pre '':''"
  let ?cs = "collisions ?start (named_keys ?start keys)" and ?st = "stored_keys ?start (named_keys ?start keys)"
  have "(old, new) \<in> set (renames pre keys) \<longleftrightarrow>
      (\<exists>ks. (new, ks) \<in> set ?cs \<and> survivor Rename_orphans ?st (new, ks) = Some old)"
    unfolding renames_def planKeyNormalization_def Let_def snd_conv in_concat_pairs
    by (auto split: option.splits)
  then show ?thesis
    using stored_iff [of pre keys new] by (auto simp: in_collisions survivor_def split: if_splits)
qed

lemma in_removals:
  "k \<in> set (removals pre keys) \<longleftrightarrow> k \<in> set keys \<and> named_key (key_start pre '':'') k \<and>
     k \<noteq> key_target (key_start pre '':'') k \<and> (k, key_target (key_start pre '':'') k) \<notin> set (renames pre keys)"
proof -
  let ?start = "key_start pre '':''"
  let ?cs = "collisions ?start (named_keys ?start keys)" and ?st = "stored_keys ?start (named_keys ?start keys)"
  let ?t = "key_target ?start k"
  have "k \<in> set (removals pre keys) \<longleftrightarrow>
      (\<exists>t ks. (t, ks) \<in> set ?cs \<and> k \<in> set ks \<and> survivor Rename_orphans ?st (t, ks) \<noteq> Some k)"
    unfolding removals_def planKeyNormalization_def Let_def fst_conv set_sort in_concat_pairs
    by (simp add: eq_commute)
  also have "\<dots> \<longleftrightarrow> k \<in> set (spellings pre keys ?t) \<and> survivor Rename_orphans ?st (?t, spellings pre keys ?t) \<noteq> Some k"
    unfolding in_collisions by (auto simp: spelled_def) (auto simp: filter_empty_conv)
  also have "\<dots> \<longleftrightarrow> k \<in> set (spellings pre keys ?t) \<and> (k, ?t) \<notin> set (renames pre keys)"
    using stored_iff [of pre keys ?t]
    by (cases "spellings pre keys ?t = []") (auto simp: in_renames survivor_def)
  finally show ?thesis by (simp add: spellings_in)
qed

lemma renames_member:
  assumes "(old, new) \<in> set (renames pre keys)"
  shows "old \<in> set keys" and "new \<notin> set keys" and "named_key (key_start pre '':'') old" and "named_key (key_start pre '':'') new"
    and "key_target (key_start pre '':'') old = new" and "key_target (key_start pre '':'') new = new"
proof -
  from assms have s: "spellings pre keys new \<noteq> []" "new \<notin> set keys" "old = last (spellings pre keys new)"
    by (auto simp: in_renames)
  then have "old \<in> set (spellings pre keys new)" by simp
  then show "old \<in> set keys" "named_key (key_start pre '':'') old" "key_target (key_start pre '':'') old = new"
    unfolding spellings_in by blast+
  show "new \<notin> set keys" "named_key (key_start pre '':'') new" "key_target (key_start pre '':'') new = new"
    using s(2) spellings_target [OF s(1)] by auto
qed

lemma map_snd_choices:
  "map snd (concat (map (\<lambda>c. case f c of None \<Rightarrow> [] | Some k \<Rightarrow> [(k, fst c)]) cs)) = map fst (filter (\<lambda>c. f c \<noteq> None) cs)"
  by (induction cs) (auto split: option.splits)

lemma renames_distinct: "distinct (map fst (renames pre keys))" "distinct (map snd (renames pre keys))"
proof -
  show d: "distinct (map snd (renames pre keys))"
    unfolding renames_def planKeyNormalization_def Let_def snd_conv map_snd_choices
    using distinct_collisions by (metis distinct_map_filter)
  have "inj_on fst (set (renames pre keys))"
  proof (rule inj_onI)
    fix x y :: "string \<times> string"
    assume "x \<in> set (renames pre keys)" "y \<in> set (renames pre keys)" "fst x = fst y"
    moreover from this have "key_target (key_start pre '':'') (fst x) = snd x" "key_target (key_start pre '':'') (fst y) = snd y"
      by (metis renames_member(5) prod.collapse)+
    ultimately show "x = y" by (metis prod_eq_iff)
  qed
  with d show "distinct (map fst (renames pre keys))" by (simp add: distinct_map)
qed

lemma run_renames:
  assumes "set keys = {k. m k \<noteq> None \<and> starts_with (key_start pre '':'') k}"
  shows "\<exists>m'. rename_keys renamenx (renames pre keys) m = (Inr (length (renames pre keys), []), m') \<and>
    (\<forall>(old, new) \<in> set (renames pre keys). m' new = m old) \<and>
    (\<forall>k. k \<notin> snd ` set (renames pre keys) \<longrightarrow> m' k = (if k \<in> fst ` set (renames pre keys) then None else m k))"
proof (rule run_rename_keys [OF renames_distinct])
  show "fst ` set (renames pre keys) \<inter> snd ` set (renames pre keys) = {}"
    using renames_member(1,2) by fastforce
  have "m old \<noteq> None \<and> m new = None" if r: "(old, new) \<in> set (renames pre keys)" for old new
    using renames_member(1,2,4) [OF r] assms by (auto simp: named_key_def)
  then show "\<forall>(old, new) \<in> set (renames pre keys). m old \<noteq> None \<and> m new = None" by blast
qed

text \<open>
  Normalizing the keys of a store leaves one key for each user, in the stored spelling: a value
  that was under that key stays, otherwise the value of one other spelling is kept, and keys of other
  kinds are untouched.
\<close>

theorem normalize_store:
  assumes "set keys = {k. m k \<noteq> None \<and> starts_with (key_start pre '':'') k}"
    and "applyKeyNormalization err keys pre Rename_orphans '':'' (Some renamenx) del_keys (Suc n) m = (r, m')"
  shows "(\<exists>counts. r = Inr counts) \<and>
    (\<forall>k. named_key (key_start pre '':'') k \<and> m' k \<noteq> None \<longrightarrow> key_target (key_start pre '':'') k = k) \<and>
    (\<forall>k. named_key (key_start pre '':'') k \<and> key_target (key_start pre '':'') k = k \<longrightarrow>
       m' k = (if m k \<noteq> None \<or> spellings pre keys k = [] then m k else m (Max (set (spellings pre keys k))))) \<and>
    (\<forall>k. \<not> named_key (key_start pre '':'') k \<longrightarrow> m' k = m k)"
proof -
  let ?start = "key_start pre '':''" and ?rs = "renames pre keys"
  obtain m1 where m1: "rename_keys renamenx ?rs m = (Inr (length ?rs, []), m1)"
    "\<forall>(old, new) \<in> set ?rs. m1 new = m old" "\<forall>k. k \<notin> snd ` set ?rs \<longrightarrow> m1 k = (if k \<in> fst ` set ?rs then None else m k)"
    using run_renames [OF assms(1)] by blast
  have r: "\<exists>counts. r = Inr counts" and m': "m' = (\<lambda>k. if k \<in> set (removals pre keys) then None else m1 k)"
    using assms(2) m1(1)
    by (auto simp: applyKeyNormalization_def removals_def renames_def bnd_run andthen_run run_del_batches concat_batches
        Let_def split: prod.splits)
  have key: "k \<in> set keys \<longleftrightarrow> m k \<noteq> None" if "named_key ?start k" for k
    using assms(1) that by (auto simp: named_key_def)
  have "key_target ?start k = k" if k: "named_key ?start k" "m' k \<noteq> None" for k
  proof (rule ccontr)
    assume other: "key_target ?start k \<noteq> k"
    then have snd: "k \<notin> snd ` set ?rs" using renames_member(6) by fastforce
    with k(2) m1(3) have "m k \<noteq> None" "k \<notin> fst ` set ?rs" by (auto simp: m' split: if_splits)
    with other k(1) key have "k \<in> set (removals pre keys)" by (force simp: in_removals)
    with k(2) show False by (simp add: m')
  qed
  moreover have "m' k = (if m k \<noteq> None \<or> spellings pre keys k = [] then m k else m (Max (set (spellings pre keys k))))"
    if k: "named_key ?start k" "key_target ?start k = k" for k
  proof -
    have m'k: "m' k = m1 k" using k by (simp add: m' in_removals)
    show ?thesis
    proof (cases "m k \<noteq> None \<or> spellings pre keys k = []")
      case True
      then have "k \<notin> snd ` set ?rs" using k key by (auto simp: in_renames)
      moreover have "k \<notin> fst ` set ?rs" using k(2) renames_member(1,2,5) by fastforce
      ultimately show ?thesis using True m'k m1(3) by simp
    next
      case False
      then have "(last (spellings pre keys k), k) \<in> set ?rs" using k key by (simp add: in_renames)
      with m1(2) False m'k show ?thesis by (auto simp: last_spelled)
    qed
  qed
  moreover have "m' k = m k" if "\<not> named_key ?start k" for k
  proof -
    have "k \<notin> fst ` set ?rs" "k \<notin> snd ` set ?rs" using that renames_member(3,4) by fastforce+
    with that m1(3) show ?thesis by (simp add: m' in_removals)
  qed
  ultimately show ?thesis using r by blast
qed

definition lab_store :: store where
  "lab_store = [''user:Bob'' \<mapsto> ''1'', ''user:BOB'' \<mapsto> ''2'', ''user:eve'' \<mapsto> ''3'', ''other'' \<mapsto> ''4'']"

definition lab_normalized :: "(string + nat \<times> nat) \<times> store" where
  "lab_normalized = applyKeyNormalization ''no rename'' [''user:Bob'', ''user:eve'', ''user:BOB''] ''user'' Rename_orphans '':''
     (Some renamenx) del_keys (Suc 499) lab_store"

theorem normalize_store_witness:
  "(\<exists>counts. fst lab_normalized = Inr counts) \<and> snd lab_normalized ''user:bob'' = Some ''1'' \<and>
   snd lab_normalized ''user:Bob'' = None \<and> snd lab_normalized ''user:BOB'' = None \<and>
   snd lab_normalized ''user:eve'' = Some ''3'' \<and> snd lab_normalized ''other'' = Some ''4''"
proof -
  let ?keys = "[''user:Bob'', ''user:eve'', ''user:BOB'']"
  have start: "key_start ''user'' '':'' = ''user:''" by (simp add: key_start_def)
  have "set ?keys = {k. lab_store k \<noteq> None \<and> starts_with (key_start ''user'' '':'') k}"
    by (auto simp: lab_store_def start starts_with_def split: if_splits)
  note law = normalize_store [OF this, of "''no rename''" 499 "fst lab_normalized" "snd lab_normalized"]
  have run: "applyKeyNormalization ''no rename'' ?keys ''user'' Rename_orphans '':'' (Some renamenx) del_keys (Suc 499) lab_store =
      (fst lab_normalized, snd lab_normalized)" by (simp add: lab_normalized_def)
  note law = law [OF run]
  have names: "named_key (key_start ''user'' '':'') ''user:bob'' \<and> key_target (key_start ''user'' '':'') ''user:bob'' = ''user:bob''"
    "named_key (key_start ''user'' '':'') ''user:eve'' \<and> key_target (key_start ''user'' '':'') ''user:eve'' = ''user:eve''"
    "named_key (key_start ''user'' '':'') ''user:Bob'' \<and> key_target (key_start ''user'' '':'') ''user:Bob'' \<noteq> ''user:Bob''"
    "named_key (key_start ''user'' '':'') ''user:BOB'' \<and> key_target (key_start ''user'' '':'') ''user:BOB'' \<noteq> ''user:BOB''"
    "\<not> named_key (key_start ''user'' '':'') ''other''"
    by code_simp+
  have found: "lab_store ''user:bob'' = None" "spellings ''user'' ?keys ''user:bob'' = [''user:BOB'', ''user:Bob'']"
    "lab_store (Max {''user:BOB'', ''user:Bob''}) = Some ''1''" "lab_store ''user:eve'' = Some ''3''" "lab_store ''other'' = Some ''4''"
    by code_simp+
  note gone = law [THEN conjunct2, THEN conjunct1, rule_format] and kept = law [THEN conjunct2, THEN conjunct2, THEN conjunct1, rule_format]
    and other = law [THEN conjunct2, THEN conjunct2, THEN conjunct2, rule_format]
  have "snd lab_normalized ''user:bob'' = Some ''1''" "snd lab_normalized ''user:eve'' = Some ''3''"
    using kept [OF names(1)] kept [OF names(2)] found by simp_all
  moreover have "snd lab_normalized ''user:Bob'' = None" "snd lab_normalized ''user:BOB'' = None"
    using gone [of "''user:Bob''"] gone [of "''user:BOB''"] names(3,4) by blast+
  moreover have "snd lab_normalized ''other'' = Some ''4''" using other [OF names(5)] found(5) by simp
  ultimately show ?thesis using law by blast
qed

end
