(* ===== verification/StorageModel.thy ===== *)
theory StorageModel
  imports KeyCase
begin

text \<open>
  What the storage module keeps (\<^verbatim>\<open>modules/storage/src\<close>): the key-value store of sizes and session
  flags (\<^verbatim>\<open>kvstore.js\<close>), the table of a user's states (\<^verbatim>\<open>historyRepository.js\<close>), the latest access of a
  user (\<^verbatim>\<open>activity.js\<close>, \<^verbatim>\<open>http.js\<close>), and the jobs it hands to its queues (\<^verbatim>\<open>jobCase.js\<close>). The queue is a
  library: what is kept of it is the list of the jobs that were added, each with the time of the addition
  as its timestamp. Times are milliseconds.
\<close>

section \<open>Sizes and sessions\<close>

text \<open>\<open>parseInt\<close> of a decimal text; \<open>None\<close> for \<open>NaN\<close>.\<close>

definition parseInt :: "string \<Rightarrow> int option" where
  "parseInt s = (let t = dropWhile is_space s;
       (negative, u) = (case t of c # cs \<Rightarrow> if c = CHR ''-'' then (True, cs) else if c = CHR ''+'' then (False, cs) else (False, t)
         | [] \<Rightarrow> (False, t));
       ds = takeWhile is_digit u
     in if ds = [] then None else Some ((if negative then - 1 else 1) * int (digits_value 0 ds)))"

definition SESSION_PREFIX :: string where "SESSION_PREFIX = ''session''"
definition LAST_ACTIVE_PREFIX :: string where "LAST_ACTIVE_PREFIX = ''lastActive''"
definition LAST_INACTIVE_PREFIX :: string where "LAST_INACTIVE_PREFIX = ''lastInactive''"
definition STORAGE_PREFIX :: string where "STORAGE_PREFIX = ''storage''"

definition user_key :: "string \<Rightarrow> string \<Rightarrow> string" where
  "user_key pre username = pre @ '':'' @ storedUsername username"

definition setSessionActive :: "string \<Rightarrow> string \<Rightarrow> store \<Rightarrow> store" where
  "setSessionActive username timestamp m =
     m(user_key SESSION_PREFIX username \<mapsto> ''true'', user_key LAST_ACTIVE_PREFIX username \<mapsto> timestamp)"

definition setSessionInactive :: "string \<Rightarrow> string \<Rightarrow> store \<Rightarrow> store" where
  "setSessionInactive username timestamp m =
     m(user_key SESSION_PREFIX username \<mapsto> ''false'', user_key LAST_INACTIVE_PREFIX username \<mapsto> timestamp)"

definition getSessionStatus :: "string \<Rightarrow> store \<Rightarrow> bool" where
  "getSessionStatus username m \<longleftrightarrow> m (user_key SESSION_PREFIX username) = Some ''true''"

text \<open>The previous size, \<open>None\<close> for \<open>NaN\<close>, and the store with the new one.\<close>

definition getSetUserStorage :: "string \<Rightarrow> string \<Rightarrow> store \<Rightarrow> int option \<times> store" where
  "getSetUserStorage username bytes m =
     (Option.bind (m (user_key STORAGE_PREFIX username)) parseInt, m(user_key STORAGE_PREFIX username \<mapsto> bytes))"

definition getUserStorage :: "string \<Rightarrow> store \<Rightarrow> string option" where
  "getUserStorage username m = m (user_key STORAGE_PREFIX username)"

definition normalized_prefixes :: "string list" where
  "normalized_prefixes = [SESSION_PREFIX, LAST_ACTIVE_PREFIX, LAST_INACTIVE_PREFIX, STORAGE_PREFIX]"

text \<open>\<open>scanned pre m\<close> is what a scan of the store for the prefix answers.\<close>

definition normalizeCase :: "(string \<Rightarrow> store \<Rightarrow> string list) \<Rightarrow> (store, string, unit) act" where
  "normalizeCase scanned = for_each normalized_prefixes (\<lambda>pre. bnd (gets (scanned pre)) (\<lambda>keys.
     bnd (applyKeyNormalization ''no renameKey'' keys pre Rename_orphans '':'' (Some renamenx) del_keys 500) (\<lambda>_. ret ())))"

section \<open>The history of a user\<close>

record history_row =
  hi_id :: nat
  hi_username :: string
  hi_event :: string
  hi_time :: int

text \<open>
  The latest row of a user. Rows of the same second are taken in the order of the index
  \<open>(username, timestamp, id)\<close>, the highest id first.
\<close>

definition later :: "history_row \<Rightarrow> history_row \<Rightarrow> bool" where
  "later q r \<longleftrightarrow> hi_time r < hi_time q \<or> hi_time r = hi_time q \<and> hi_id r < hi_id q"

fun latest_row :: "history_row list \<Rightarrow> history_row option" where
  "latest_row [] = None"
| "latest_row (r # rs) = (case latest_row rs of None \<Rightarrow> Some r | Some q \<Rightarrow> if later r q then Some r else Some q)"

definition latest_event :: "string \<Rightarrow> history_row list \<Rightarrow> string option" where
  "latest_event u rs = map_option hi_event (latest_row (filter (\<lambda>r. ci_eq (hi_username r) u) rs))"

definition stmt_addEvent :: "int \<Rightarrow> string \<Rightarrow> string \<Rightarrow> history_row list \<Rightarrow> history_row list" where
  "stmt_addEvent n u e rs = (if (case latest_event u rs of None \<Rightarrow> [] | Some v \<Rightarrow> v) \<noteq> e
     then rs @ [\<lparr>hi_id = Suc (length rs), hi_username = storedUsername u, hi_event = e, hi_time = n\<rparr>] else rs)"

text \<open>The newest row of every user: \<open>MAX(id)\<close> within the collation's groups.\<close>

definition stmt_mostRecentEvents :: "history_row list \<Rightarrow> history_row list" where
  "stmt_mostRecentEvents rs = filter (\<lambda>r. \<forall>q \<in> set rs. ci_eq (hi_username q) (hi_username r) \<longrightarrow> hi_id q \<le> hi_id r) rs"

text \<open>The user variables of the query, as they go over the rows, newest first.\<close>

fun number_rows :: "string \<Rightarrow> nat \<Rightarrow> history_row list \<Rightarrow> (history_row \<times> nat) list" where
  "number_rows current_event row_num [] = []"
| "number_rows current_event row_num (r # rs) =
     (let prev_event = current_event; current_event = hi_event r;
          row_num = (if prev_event = current_event then row_num + 1 else 1)
      in (r, row_num) # number_rows current_event row_num rs)"

definition newest_first :: "history_row list \<Rightarrow> history_row list" where
  "newest_first rs = rev (sort_key hi_time rs)"

definition stmt_userEvents :: "string \<Rightarrow> history_row list \<Rightarrow> history_row list" where
  "stmt_userEvents u rs = take 10 (map fst (filter (\<lambda>(r, n). n = 1) (number_rows [] 0
     (newest_first (filter (\<lambda>r. ci_eq (hi_username r) u \<and> hi_event r \<noteq> ''INACTIVE_UNKNOWN'') rs)))))"

section \<open>Latest access\<close>

text \<open>The body of an answer: \<open>None\<close> when there is none.\<close>

definition isEmptyObject :: "json \<Rightarrow> bool" where
  "isEmptyObject v \<longleftrightarrow> (case v of JObj fs \<Rightarrow> fs = [] | JNull \<Rightarrow> False | _ \<Rightarrow> False)"

definition toTimestamp :: "(string \<Rightarrow> int option) \<Rightarrow> json option \<Rightarrow> string + int option" where
  "toTimestamp parseDate body = (if isEmptyObject (nullish body (JObj [])) then Inr None
     else case Option.bind body (\<lambda>b. json_get b ''timestamp'') of
       Some (JStr s) \<Rightarrow> (case parseDate s of None \<Rightarrow> Inl ''Unexpected response'' | Some t \<Rightarrow> Inr (Some t))
     | _ \<Rightarrow> Inl ''Unexpected response'')"

text \<open>\<open>null\<close> compares as 0.\<close>

definition latest_of :: "int option list \<Rightarrow> int option" where
  "latest_of ts = foldl (\<lambda>acc t. if t > (case acc of None \<Rightarrow> 0 | Some a \<Rightarrow> a) then Some t else acc) None
     (map the (filter (\<lambda>t. t \<noteq> None) ts))"

text \<open>Positive: in the future, negative: in the past.\<close>

definition relativeExpirationTime :: "int \<Rightarrow> int \<Rightarrow> int \<Rightarrow> int" where
  "relativeExpirationTime inactivityTimeout now mostRecentTimestamp = mostRecentTimestamp + inactivityTimeout - now"

text \<open>The latest of several lists of accesses by user, in the order of their first mention.\<close>

fun merge_recent :: "(string \<times> int) list \<Rightarrow> string \<times> int \<Rightarrow> (string \<times> int) list" where
  "merge_recent [] (k, d) = [(k, d)]"
| "merge_recent ((k', d') # m) (k, d) = (if k' = k then (k', if d > d' then d else d') # m else (k', d') # merge_recent m (k, d))"

definition mergeMostRecent :: "(string \<times> int) list list \<Rightarrow> (string \<times> int) list" where
  "mergeMostRecent objects = foldl merge_recent [] (concat objects)"

section \<open>Jobs\<close>

record job =
  jb_id :: string
  jb_username :: string
  jb_action :: string
  jb_priority :: nat
  jb_delay :: int
  jb_timestamp :: int  \<comment> \<open>when it was added\<close>

definition job_key :: "string \<Rightarrow> string \<Rightarrow> string" where
  "job_key username action = ''job-'' @ storedUsername username @ ''-'' @ action"

definition remainingDelay :: "job \<Rightarrow> int \<Rightarrow> int" where
  "remainingDelay j n = max 0 (jb_delay j + jb_timestamp j - n)"

definition job_by_id :: "job list \<Rightarrow> string \<Rightarrow> job option" where
  "job_by_id js i = find (\<lambda>j. jb_id j = i) (rev js)"

text \<open>The ids of the jobs, each at its first position: the keys of the \<^verbatim>\<open>Map\<close>.\<close>

definition job_ids :: "job list \<Rightarrow> string list" where
  "job_ids js = rev (remdups (rev (map jb_id js)))"

definition readded :: "int \<Rightarrow> job \<Rightarrow> string \<Rightarrow> job" where
  "readded n j new = j\<lparr>jb_id := new, jb_username := storedUsername (jb_username j), jb_delay := remainingDelay j n\<rparr>"

definition planJobNormalization :: "job list \<Rightarrow> int \<Rightarrow> job list \<times> (job \<times> job) list" where
  "planJobNormalization js n = (case planKeyNormalization (job_ids js) ''job'' Rename_orphans ''-'' of (removed, renamed) \<Rightarrow>
     (map (\<lambda>i. the (job_by_id js i)) removed,
      map (\<lambda>(old, new). (the (job_by_id js old), readded n (the (job_by_id js old)) new)) renamed))"

end
