(* ===== verification/StorageChecks.thy ===== *)
theory StorageChecks
  imports StorageModel
begin

text \<open>
  What the storage module does: the inactivity check, which mails an inactive user and later erases the
  user's storage (\<^verbatim>\<open>inactivityCheck.js\<close>), the scan of sizes (\<^verbatim>\<open>storageCheck.js\<close>) and the messages that
  set them off (\<^verbatim>\<open>messageHandler.js\<close>). The queue, the other services and the disk are functions of
  \<open>storage_env\<close> over an arbitrary world; a call that throws answers \<open>Inl\<close> or \<open>False\<close>. Every reading of the
  clock may find that time has passed.
\<close>

datatype storage_act = Mailed string int | EraseStarted string int

record 'w storage_server =
  redis :: store
  history :: "history_row list"
  handed :: "job list"        \<comment> \<open>the jobs handed to the inactivity queue\<close>
  rescans :: "job list"       \<comment> \<open>the jobs handed to the scan queue\<close>
  acts :: "storage_act list"  \<comment> \<open>mails and erasures, in order\<close>
  stime :: int
  outer_world :: 'w

record 'w storage_env =
  elapse :: "'w \<Rightarrow> nat \<times> 'w"
  random :: "'w \<Rightarrow> rat \<times> 'w"
  parseDate :: "string \<Rightarrow> int option"
  mostRecentLogin :: "string \<Rightarrow> 'w \<Rightarrow> (string + json option) \<times> 'w"
  mostRecentSession :: "string \<Rightarrow> 'w \<Rightarrow> (string + json option) \<times> 'w"
  loginByUser :: "'w \<Rightarrow> (string + (string \<times> int) list) \<times> 'w"
  sessionByUser :: "'w \<Rightarrow> (string + (string \<times> int) list) \<times> 'w"
  userInfo :: "string \<Rightarrow> 'w \<Rightarrow> bool \<times> 'w"
  eraseHome :: "string \<Rightarrow> 'w \<Rightarrow> bool \<times> 'w"
  history_db :: "'w \<Rightarrow> bool \<times> 'w"
  queue_add :: "job \<Rightarrow> 'w \<Rightarrow> bool \<times> 'w"
  queue_remove :: "string \<Rightarrow> 'w \<Rightarrow> bool \<times> 'w"
  queue_has :: "string \<Rightarrow> 'w \<Rightarrow> bool \<times> 'w"
  queue_obliterate :: "'w \<Rightarrow> bool \<times> 'w"
  queue_pending :: "'w \<Rightarrow> job list \<times> 'w"

record inactivity_policy =
  inactivityTimeout :: int
  inactivityNotificationDelay :: int
  inactivityGracePeriod :: int
  inactivityMaxSpread :: int
  inactivityUserStorageThreshold :: int

type_synonym ('w, 'a) sto = "('w storage_server, string, 'a) act"

definition outward :: "('w \<Rightarrow> 'a \<times> 'w) \<Rightarrow> ('w, 'a) sto" where
  "outward f = state_act (\<lambda>s. case f (outer_world s) of (a, w) \<Rightarrow> (a, s\<lparr>outer_world := w\<rparr>))"

definition answered_by :: "('w \<Rightarrow> (string + 'a) \<times> 'w) \<Rightarrow> ('w, 'a) sto" where
  "answered_by f = bnd (outward f) (\<lambda>r. case r of Inl e \<Rightarrow> throw e | Inr a \<Rightarrow> ret a)"

definition succeeds :: "string \<Rightarrow> ('w \<Rightarrow> bool \<times> 'w) \<Rightarrow> ('w, unit) sto" where
  "succeeds what f = bnd (outward f) (\<lambda>done. if done then ret () else throw what)"

definition Date_now :: "'w storage_env \<Rightarrow> ('w, int) sto" where
  "Date_now E = bnd (outward (elapse E)) (\<lambda>d.
     andthen (modify (\<lambda>s. s\<lparr>stime := stime s + int d\<rparr>)) (gets stime))"

section \<open>Is the user active\<close>

definition getMostRecentAccess :: "'w storage_env \<Rightarrow> string \<Rightarrow> ('w, int option) sto" where
  "getMostRecentAccess E u = bnd (answered_by (mostRecentLogin E u)) (\<lambda>login.
     bnd (answered_by (mostRecentSession E u)) (\<lambda>session.
       case (toTimestamp (parseDate E) login, toTimestamp (parseDate E) session) of
         (Inr a, Inr b) \<Rightarrow> ret (latest_of [a, b])
       | (Inl e, _) \<Rightarrow> throw e
       | (_, Inl e) \<Rightarrow> throw e))"

definition isActive :: "'w storage_env \<Rightarrow> inactivity_policy \<Rightarrow> string \<Rightarrow> ('w, bool) sto" where
  "isActive E P u = bnd (getMostRecentAccess E u) (\<lambda>access. case access of
     None \<Rightarrow> ret False
   | Some t \<Rightarrow> bnd (Date_now E) (\<lambda>n. ret (relativeExpirationTime (inactivityTimeout P) n t > 0)))"

datatype storage_status = USER_ACTIVE | INACTIVE_HIGH | INACTIVE_LOW | INACTIVE_UNKNOWN

definition getStorageStatus :: "'w storage_env \<Rightarrow> inactivity_policy \<Rightarrow> string \<Rightarrow> ('w, storage_status) sto" where
  "getStorageStatus E P u = bnd (isActive E P u) (\<lambda>active. if active then ret USER_ACTIVE
     else bnd (gets (\<lambda>s. getUserStorage u (redis s))) (\<lambda>bytes. case bytes of
       None \<Rightarrow> ret INACTIVE_UNKNOWN
     | Some t \<Rightarrow> if t = [] then ret INACTIVE_UNKNOWN
         else ret (case parseInt t of Some n \<Rightarrow> if n > inactivityUserStorageThreshold P then INACTIVE_HIGH else INACTIVE_LOW
           | None \<Rightarrow> INACTIVE_LOW)))"

definition addEvent :: "'w storage_env \<Rightarrow> string \<Rightarrow> string \<Rightarrow> ('w, unit) sto" where
  "addEvent E u e = andthen (succeeds ''database'' (history_db E)) (bnd (Date_now E) (\<lambda>n.
     modify (\<lambda>s. s\<lparr>history := stmt_addEvent (n div 1000) u e (history s)\<rparr>)))"

section \<open>Scheduling\<close>

definition remove_job :: "'w storage_env \<Rightarrow> string \<Rightarrow> ('w, unit) sto" where
  "remove_job E i = succeeds ''queue'' (queue_remove E i)"

definition removeUserJobs :: "'w storage_env \<Rightarrow> string \<Rightarrow> ('w, unit) sto" where
  "removeUserJobs E u = andthen (remove_job E (job_key u ''mark''))
     (andthen (remove_job E (job_key u ''notify'')) (remove_job E (job_key u ''erase'')))"

definition hand_over :: "'w storage_env \<Rightarrow> job \<Rightarrow> ('w, unit) sto" where
  "hand_over E j = bnd (Date_now E) (\<lambda>n. let j = j\<lparr>jb_timestamp := n\<rparr> in
     andthen (modify (\<lambda>s. s\<lparr>handed := handed s @ [j]\<rparr>)) (succeeds ''queue'' (queue_add E j)))"

definition schedule :: "'w storage_env \<Rightarrow> string \<Rightarrow> int \<Rightarrow> string \<Rightarrow> ('w, unit) sto" where
  "schedule E u delay action = hand_over E \<lparr>jb_id = job_key u action, jb_username = storedUsername u, jb_action = action,
     jb_priority = 1, jb_delay = delay, jb_timestamp = 0\<rparr>"

definition scheduleMark :: "'w storage_env \<Rightarrow> string \<Rightarrow> int \<Rightarrow> ('w, unit) sto" where
  "scheduleMark E u delay = schedule E u delay ''mark''"

definition scheduleNotify :: "'w storage_env \<Rightarrow> inactivity_policy \<Rightarrow> string \<Rightarrow> ('w, unit) sto" where
  "scheduleNotify E P u = schedule E u (inactivityNotificationDelay P) ''notify''"

definition scheduleErase :: "'w storage_env \<Rightarrow> inactivity_policy \<Rightarrow> string \<Rightarrow> ('w, unit) sto" where
  "scheduleErase E P u = andthen (removeUserJobs E u) (schedule E u (inactivityGracePeriod P) ''erase'')"

text \<open>\<open>None\<close> is the default argument, the present.\<close>

definition getDelay :: "'w storage_env \<Rightarrow> inactivity_policy \<Rightarrow> int option \<Rightarrow> ('w, int) sto" where
  "getDelay E P mostRecent = bnd (case mostRecent of Some t \<Rightarrow> ret t | None \<Rightarrow> Date_now E) (\<lambda>t.
     bnd (Date_now E) (\<lambda>n. ret (max 0 (relativeExpirationTime (inactivityTimeout P) n t))))"

definition scheduleInactivityCheck :: "'w storage_env \<Rightarrow> inactivity_policy \<Rightarrow> string \<Rightarrow> ('w, unit) sto" where
  "scheduleInactivityCheck E P u = andthen (removeUserJobs E u) (bnd (getDelay E P None) (scheduleMark E u))"

definition cancelInactivityCheck :: "'w storage_env \<Rightarrow> string \<Rightarrow> ('w, unit) sto" where
  "cancelInactivityCheck E u = andthen (removeUserJobs E u) (addEvent E u ''ACTIVE'')"

section \<open>Processing a job\<close>

definition notify_user :: "'w storage_env \<Rightarrow> string \<Rightarrow> ('w, unit) sto" where
  "notify_user E u = andthen (succeeds ''user'' (userInfo E u)) (bnd (Date_now E) (\<lambda>n.
     modify (\<lambda>s. s\<lparr>acts := acts s @ [Mailed u n]\<rparr>)))"

definition erase_storage :: "'w storage_env \<Rightarrow> string \<Rightarrow> ('w, unit) sto" where
  "erase_storage E u = bnd (Date_now E) (\<lambda>n. andthen (modify (\<lambda>s. s\<lparr>acts := acts s @ [EraseStarted u n]\<rparr>))
     (succeeds ''Cannot erase storage'' (eraseHome E u)))"

text \<open>What the three handlers share: only the branch of a significant storage differs.\<close>

definition unless_high :: "'w storage_env \<Rightarrow> string \<Rightarrow> ('w, unit) sto \<Rightarrow> storage_status \<Rightarrow> ('w, unit) sto" where
  "unless_high E u high st = (case st of
     INACTIVE_HIGH \<Rightarrow> high
   | INACTIVE_LOW \<Rightarrow> addEvent E u ''INACTIVE_LOW''
   | INACTIVE_UNKNOWN \<Rightarrow> andthen (addEvent E u ''INACTIVE_UNKNOWN'') (throw ''Unknown storage size'')
   | USER_ACTIVE \<Rightarrow> addEvent E u ''ACTIVE'')"

definition markInactiveUser :: "'w storage_env \<Rightarrow> inactivity_policy \<Rightarrow> string \<Rightarrow> ('w, unit) sto" where
  "markInactiveUser E P u = bnd (getStorageStatus E P u)
     (unless_high E u (andthen (scheduleNotify E P u) (addEvent E u ''INACTIVE_HIGH'')))"

definition notifyInactiveUser :: "'w storage_env \<Rightarrow> inactivity_policy \<Rightarrow> string \<Rightarrow> ('w, unit) sto" where
  "notifyInactiveUser E P u = bnd (getStorageStatus E P u)
     (unless_high E u (andthen (notify_user E u) (andthen (scheduleErase E P u) (addEvent E u ''NOTIFIED''))))"

definition eraseInactiveUserStorage :: "'w storage_env \<Rightarrow> inactivity_policy \<Rightarrow> string \<Rightarrow> ('w, unit) sto" where
  "eraseInactiveUserStorage E P u = bnd (getStorageStatus E P u)
     (unless_high E u (andthen (erase_storage E u) (addEvent E u ''PURGED'')))"

definition processJob :: "'w storage_env \<Rightarrow> inactivity_policy \<Rightarrow> job \<Rightarrow> ('w, unit) sto" where
  "processJob E P j = (if jb_action j = ''mark'' then markInactiveUser E P (jb_username j)
     else if jb_action j = ''notify'' then notifyInactiveUser E P (jb_username j)
     else if jb_action j = ''erase'' then eraseInactiveUserStorage E P (jb_username j)
     else throw ''Unknown action'')"

section \<open>Starting\<close>

definition schedule_first :: "'w storage_env \<Rightarrow> inactivity_policy \<Rightarrow> string \<times> int \<Rightarrow> ('w, unit) sto" where
  "schedule_first E P = (\<lambda>(u, t). bnd (outward (queue_has E (job_key u ''mark''))) (\<lambda>mark.
     bnd (if mark then ret True else outward (queue_has E (job_key u ''notify''))) (\<lambda>notify.
     bnd (if notify then ret True else outward (queue_has E (job_key u ''erase''))) (\<lambda>erase.
       if erase then ret ()
       else bnd (getDelay E P (Some t)) (\<lambda>delay. bnd (outward (random E)) (\<lambda>r.
         andthen (scheduleMark E u (delay + \<lfloor>r * of_int (inactivityMaxSpread P)\<rfloor>))
           (addEvent E u (if delay > 0 then ''ACTIVE'' else ''INACTIVE_UNKNOWN''))))))))"

definition scheduleFullCheck :: "'w storage_env \<Rightarrow> inactivity_policy \<Rightarrow> ('w, unit) sto" where
  "scheduleFullCheck E P = bnd (answered_by (loginByUser E)) (\<lambda>logins. bnd (answered_by (sessionByUser E)) (\<lambda>sessions.
     andthen (succeeds ''queue'' (queue_obliterate E))
       (for_each (mergeMostRecent [logins, sessions]) (schedule_first E P))))"

definition startInactivityCheck :: "'w storage_env \<Rightarrow> inactivity_policy \<Rightarrow> ('w, unit) sto" where
  "startInactivityCheck E P = bnd (gets (\<lambda>s. redis s ''initialized'')) (\<lambda>v. if v \<noteq> None \<and> v \<noteq> Some [] then ret ()
     else andthen (scheduleFullCheck E P) (modify (\<lambda>s. s\<lparr>redis := (redis s)(''initialized'' \<mapsto> ''yes'')\<rparr>)))"

definition readd_job :: "'w storage_env \<Rightarrow> job \<times> job \<Rightarrow> ('w, unit) sto" where
  "readd_job E = (\<lambda>(old, new). bnd (outward (queue_has E (jb_id new))) (\<lambda>displaced.
     andthen (if displaced then remove_job E (jb_id new) else ret ())
       (andthen (hand_over E new) (remove_job E (jb_id old)))))"

definition normalizeJobs :: "'w storage_env \<Rightarrow> ('w, unit) sto" where
  "normalizeJobs E = bnd (outward (queue_pending E)) (\<lambda>js. bnd (Date_now E) (\<lambda>n.
     case planJobNormalization js n of (removed, readd) \<Rightarrow>
       andthen (for_each readd (readd_job E)) (for_each removed (\<lambda>j. remove_job E (jb_id j)))))"

section \<open>Scanning sizes\<close>

record scan_policy =
  scanMinDelay :: int
  scanMaxDelay :: int
  scanDelayIncreaseFactor :: rat

definition MAX_RELATIVE_DELAY_SPREAD :: rat where
  "MAX_RELATIVE_DELAY_SPREAD = 2 / 10"

definition spreadDelay :: "rat \<Rightarrow> rat \<Rightarrow> int" where
  "spreadDelay r delay = \<lfloor>delay * (1 + (r - 1 / 2) * 2 * MAX_RELATIVE_DELAY_SPREAD)\<rfloor>"

definition increasingDelay :: "scan_policy \<Rightarrow> int \<Rightarrow> rat" where
  "increasingDelay S delay =
     max (min (of_int delay * scanDelayIncreaseFactor S) (of_int (scanMaxDelay S))) (of_int (scanMinDelay S))"

definition scan_key :: "string \<Rightarrow> string" where
  "scan_key username = ''job-'' @ storedUsername username"

definition scheduleStorageCheck :: "'w storage_env \<Rightarrow> string \<Rightarrow> rat \<Rightarrow> nat \<Rightarrow> ('w, unit) sto" where
  "scheduleStorageCheck E u nominalDelay priority = bnd (outward (random E)) (\<lambda>r.
     andthen (remove_job E (scan_key u)) (bnd (Date_now E) (\<lambda>n.
       let j = \<lparr>jb_id = scan_key u, jb_username = storedUsername u, jb_action = ''rescan'', jb_priority = priority,
           jb_delay = spreadDelay r nominalDelay, jb_timestamp = n\<rparr> in
       andthen (modify (\<lambda>s. s\<lparr>rescans := rescans s @ [j]\<rparr>)) (succeeds ''queue'' (queue_add E j)))))"

datatype rescan_type = FilesDeleted | SessionDeactivated | SessionActivated | Initial | Periodic

fun SCHEDULE_OPTIONS :: "scan_policy \<Rightarrow> rescan_type \<Rightarrow> nat \<times> int" where
  "SCHEDULE_OPTIONS S FilesDeleted = (1, 0)"
| "SCHEDULE_OPTIONS S SessionDeactivated = (2, 0)"
| "SCHEDULE_OPTIONS S SessionActivated = (3, 0)"
| "SCHEDULE_OPTIONS S Initial = (6, scanMinDelay S)"
| "SCHEDULE_OPTIONS S Periodic = (6, scanMaxDelay S)"

definition scheduleRescan :: "'w storage_env \<Rightarrow> scan_policy \<Rightarrow> string \<Rightarrow> rescan_type \<Rightarrow> ('w, unit) sto" where
  "scheduleRescan E S u t = (case SCHEDULE_OPTIONS S t of (priority, delay) \<Rightarrow>
     scheduleStorageCheck E u (of_int delay) priority)"

definition scheduleFullScan :: "'w storage_env \<Rightarrow> scan_policy \<Rightarrow> string list \<Rightarrow> ('w, unit) sto" where
  "scheduleFullScan E S homes = for_each homes (\<lambda>u. bnd (gets (\<lambda>s. getUserStorage u (redis s))) (\<lambda>bytes.
     if bytes \<noteq> None \<and> bytes \<noteq> Some [] then scheduleRescan E S u Periodic else scheduleRescan E S u Initial))"

definition next_scan :: "scan_policy \<Rightarrow> bool \<Rightarrow> job \<Rightarrow> bool \<Rightarrow> nat \<times> rat" where
  "next_scan S workerSession j changed =
     (if workerSession then (3, of_int (scanMinDelay S))
      else if jb_delay j < scanMaxDelay S \<and> jb_priority j \<noteq> 6
      then if changed then (4, of_int (scanMinDelay S)) else (5, increasingDelay S (jb_delay j))
      else (6, of_int (scanMaxDelay S)))"

definition scan_completed :: "'w storage_env \<Rightarrow> scan_policy \<Rightarrow> job \<Rightarrow> int \<Rightarrow> ('w, unit) sto" where
  "scan_completed E S j bytes =
     bnd (gets (\<lambda>s. getSessionStatus (jb_username j) (redis s))) (\<lambda>workerSession.
     bnd (state_act (\<lambda>s. case getSetUserStorage (jb_username j) (string_of_int bytes) (redis s) of (p, m) \<Rightarrow> (p, s\<lparr>redis := m\<rparr>)))
       (\<lambda>previous. case next_scan S workerSession j (Some bytes \<noteq> previous) of (priority, delay) \<Rightarrow>
          scheduleStorageCheck E (jb_username j) delay priority))"

section \<open>Messages\<close>

datatype storage_event = On_sessionActivated string | On_sessionDeactivated string | On_filesDeleted string
  | On_clientUp string | On_userDown string

text \<open>What an event sets off; equal rescans within a second are one.\<close>

definition rescan_of :: "storage_event \<Rightarrow> (string \<times> rescan_type) option" where
  "rescan_of e = (case e of On_sessionActivated u \<Rightarrow> Some (u, SessionActivated)
     | On_sessionDeactivated u \<Rightarrow> Some (u, SessionDeactivated) | On_filesDeleted u \<Rightarrow> Some (u, FilesDeleted) | _ \<Rightarrow> None)"

definition react_inactivity :: "'w storage_env \<Rightarrow> inactivity_policy \<Rightarrow> storage_event \<Rightarrow> ('w, unit) sto" where
  "react_inactivity E P e = catching (case e of
       On_userDown u \<Rightarrow> scheduleInactivityCheck E P u
     | On_sessionDeactivated u \<Rightarrow> scheduleInactivityCheck E P u
     | On_clientUp u \<Rightarrow> cancelInactivityCheck E u
     | On_sessionActivated u \<Rightarrow> cancelInactivityCheck E u
     | On_filesDeleted u \<Rightarrow> ret ()) (\<lambda>_. ret ())"

datatype storage_message = WorkerSessionActivated "string option" | WorkerSessionClosed "string option"
  | FilesDeletedMessage "string option" | ClientUp "string option" | UserDown string

definition nonblank :: "string option \<Rightarrow> string option" where
  "nonblank u = (if u = Some [] then None else u)"

definition messageHandler :: "'w storage_env \<Rightarrow> (int \<Rightarrow> string) \<Rightarrow> storage_message \<Rightarrow> ('w, storage_event option) sto" where
  "messageHandler E toISO m = (case m of
     WorkerSessionActivated v \<Rightarrow> (case nonblank v of None \<Rightarrow> ret None | Some u \<Rightarrow> bnd (Date_now E) (\<lambda>n.
       andthen (modify (\<lambda>s. s\<lparr>redis := setSessionActive u (toISO n) (redis s)\<rparr>)) (ret (Some (On_sessionActivated u)))))
   | WorkerSessionClosed v \<Rightarrow> (case nonblank v of None \<Rightarrow> ret None | Some u \<Rightarrow> bnd (Date_now E) (\<lambda>n.
       andthen (modify (\<lambda>s. s\<lparr>redis := setSessionInactive u (toISO n) (redis s)\<rparr>)) (ret (Some (On_sessionDeactivated u)))))
   | FilesDeletedMessage v \<Rightarrow> ret (map_option On_filesDeleted (nonblank v))
   | ClientUp v \<Rightarrow> ret (map_option On_clientUp (nonblank v))
   | UserDown u \<Rightarrow> ret (if u = [] then None else Some (On_userDown u)))"

end
