(* ===== verification/StorageSafety.thy ===== *)
theory StorageSafety
  imports StorageChecks
begin

text \<open>
  What the storage module promises its users: storage is erased only of a user who was mailed at least
  the grace period before and who, when it is erased, has neither logged in nor closed a session within
  the timeout and holds more than the threshold; and a user's history never repeats a state.
\<close>

section \<open>Warned before erased\<close>

definition warning :: "inactivity_policy \<Rightarrow> string \<Rightarrow> int \<Rightarrow> storage_act list \<Rightarrow> bool" where
  "warning P u due as \<longleftrightarrow> (\<exists>v t. Mailed v t \<in> set as \<and> storedUsername v = storedUsername u \<and> t + inactivityGracePeriod P \<le> due)"

definition warned :: "inactivity_policy \<Rightarrow> 'w storage_server \<Rightarrow> bool" where
  "warned P s \<longleftrightarrow> (\<forall>j \<in> set (handed s). jb_action j = ''erase'' \<longrightarrow>
     warning P (jb_username j) (jb_timestamp j + jb_delay j) (acts s))"

text \<open>The rows of the history are in the order of their ids and times, and no user's last state is repeated.\<close>

definition before :: "history_row \<Rightarrow> history_row \<Rightarrow> bool" where
  "before r q \<longleftrightarrow> hi_id r < hi_id q \<and> hi_time r \<le> hi_time q"

definition rows_of :: "string \<Rightarrow> history_row list \<Rightarrow> history_row list" where
  "rows_of u rs = filter (\<lambda>r. ci_eq (hi_username r) u) rs"

definition recorded :: "'w storage_server \<Rightarrow> bool" where
  "recorded s \<longleftrightarrow> sorted_wrt before (history s) \<and> (\<forall>r \<in> set (history s). hi_id r \<le> length (history s) \<and> hi_time r \<le> stime s div 1000) \<and>
     (\<forall>u. distinct_adj (map hi_event (rows_of u (history s))))"

definition moves :: "inactivity_policy \<Rightarrow> 'w storage_server \<Rightarrow> 'w storage_server \<Rightarrow> bool" where
  "moves P s t \<longleftrightarrow> stime s \<le> stime t \<and> set (acts s) \<subseteq> set (acts t) \<and> (warned P s \<longrightarrow> warned P t) \<and> (recorded s \<longrightarrow> recorded t)"

interpretation mv: evolution "moves P" for P
  by unfold_locales (auto simp: moves_def)

lemma warning_mono: "warning P u due as \<Longrightarrow> set as \<subseteq> set bs \<Longrightarrow> due \<le> due' \<Longrightarrow> storedUsername u' = storedUsername u \<Longrightarrow> warning P u' due' bs"
  unfolding warning_def by fastforce

lemma moves_warning: "moves P s t \<Longrightarrow> warning P u due (acts s) \<Longrightarrow> warning P u due (acts t)"
  by (rule warning_mono) (auto simp: moves_def)

lemma moves_by:
  assumes "stime s \<le> stime t" and "set (acts s) \<subseteq> set (acts t)" and "history t = history s"
    and "\<And>j. j \<in> set (handed t) \<Longrightarrow> j \<notin> set (handed s) \<Longrightarrow> jb_action j = ''erase'' \<Longrightarrow>
      warning P (jb_username j) (jb_timestamp j + jb_delay j) (acts t)"
  shows "moves P s t"
proof -
  have "stime s div 1000 \<le> stime t div 1000" using assms(1) by (rule zdiv_mono1) simp
  then have "recorded s \<longrightarrow> recorded t"
    using assms(3) by (fastforce simp: recorded_def)
  then show ?thesis
    unfolding moves_def warned_def using assms by (auto intro: warning_mono)
qed

lemma moves_outward [intro!]: "runs_in (moves P) (outward f)"
  unfolding outward_def by (intro mv.runs_in_state_act moves_by) (auto split: prod.splits)

lemma moves_calls [intro!]:
  "runs_in (moves P) (answered_by g)" "runs_in (moves P) (succeeds what h)" "runs_in (moves P) (remove_job E i)"
  "runs_in (moves P) (Date_now E)"
  by (auto simp: answered_by_def succeeds_def remove_job_def Date_now_def intro!: mv.runs_in_bnd mv.runs_in_andthen
      mv.runs_in_modify moves_by split: sum.splits)

lemma moves_jobs [intro!]: "runs_in (moves P) (removeUserJobs E u)"
  unfolding removeUserJobs_def by (intro mv.runs_in_andthen moves_calls)

lemma Date_now_run:
  "\<exists>n t. Date_now E s = (Inr n, t) \<and> stime t = n \<and> stime s \<le> n \<and> acts t = acts s \<and> handed t = handed s \<and> history t = history s"
  by (auto simp: Date_now_def outward_def effect_simps split: prod.splits)

lemma latest_row_sorted: "sorted_wrt before rs \<Longrightarrow> latest_row rs = (if rs = [] then None else Some (last rs))"
proof (induction rs)
  case (Cons r rs)
  then show ?case by (cases rs rule: rev_cases) (auto simp: before_def later_def)
qed simp

lemma rows_of_ci: "ci_eq u v \<Longrightarrow> rows_of u rs = rows_of v rs"
  by (simp add: rows_of_def ci_eq_def)

lemma distinct_adj_snoc: "distinct_adj (xs @ [x]) \<longleftrightarrow> distinct_adj xs \<and> (xs = [] \<or> last xs \<noteq> x)"
  by (cases "xs = []") (simp_all add: distinct_adj_append_iff)

lemma latest_event_last:
  assumes "sorted_wrt before rs"
  shows "latest_event u rs = (if rows_of u rs = [] then None else Some (last (map hi_event (rows_of u rs))))"
proof -
  have "sorted_wrt before (rows_of u rs)" unfolding rows_of_def by (rule sorted_wrt_filter [OF assms])
  from latest_row_sorted [OF this] show ?thesis by (simp add: latest_event_def rows_of_def last_map)
qed

lemma recorded_event:
  assumes "recorded s" and "n = stime s div 1000"
  shows "recorded (s\<lparr>history := stmt_addEvent n u e (history s)\<rparr>)"
proof (cases "(case latest_event u (history s) of None \<Rightarrow> [] | Some v \<Rightarrow> v) \<noteq> e")
  case True
  let ?hs = "history s" and ?row = "\<lparr>hi_id = Suc (length (history s)), hi_username = storedUsername u, hi_event = e, hi_time = n\<rparr>"
  from assms have sorted: "sorted_wrt before ?hs" and bounds: "\<forall>r \<in> set ?hs. hi_id r \<le> length ?hs \<and> hi_time r \<le> n"
    and adj: "\<And>v. distinct_adj (map hi_event (rows_of v ?hs))"
    by (auto simp: recorded_def)
  have "rows_of v ?hs = [] \<or> last (map hi_event (rows_of v ?hs)) \<noteq> e" if "ci_eq (storedUsername u) v" for v
  proof -
    from that have "rows_of v ?hs = rows_of u ?hs" by (intro rows_of_ci) (simp add: ci_eq_def)
    with True latest_event_last [OF sorted, of u] show ?thesis by (auto split: if_splits)
  qed
  with adj have "distinct_adj (map hi_event (rows_of v (?hs @ [?row])))" for v
    by (auto simp: rows_of_def distinct_adj_snoc)
  with True sorted bounds assms(2) show ?thesis
    by (fastforce simp: stmt_addEvent_def recorded_def sorted_wrt_append before_def)
qed (use assms(1) in \<open>simp add: stmt_addEvent_def\<close>)

lemma moves_event [intro!]: "runs_in (moves P) (addEvent E u e)"
  unfolding addEvent_def
proof (intro mv.runs_in_andthen moves_calls, unfold runs_in_def, intro allI)
  fix s :: "'a storage_server"
  obtain n t where n: "Date_now E s = (Inr n, t)" "stime t = n" using Date_now_run by blast
  have "moves P s t" using runs_inD [OF moves_calls(4) [of P E], of s] n(1) by simp
  moreover have "moves P t (t\<lparr>history := stmt_addEvent (n div 1000) u e (history t)\<rparr>)"
    using recorded_event [of t "n div 1000" u e] n(2) by (auto simp: moves_def warned_def)
  ultimately show "moves P s (snd (bnd (Date_now E) (\<lambda>n. modify (\<lambda>s. s\<lparr>history := stmt_addEvent (n div 1000) u e (history s)\<rparr>)) s))"
    using n(1) by (auto simp: bnd_run intro: mv.evolves_trans)
qed

lemma moves_status [intro!]: "runs_in (moves P) (getStorageStatus E P' u)"
  unfolding getStorageStatus_def isActive_def getMostRecentAccess_def
  by (auto intro!: mv.runs_in_bnd split: option.splits sum.splits)

lemma moves_hand_over:
  assumes "jb_action j = ''erase'' \<Longrightarrow> warning P (jb_username j) (stime s + jb_delay j) (acts s)"
  shows "moves P s (snd (hand_over E j s))"
proof -
  obtain n t where n: "Date_now E s = (Inr n, t)" "stime t = n" "stime s \<le> n" "acts t = acts s" "handed t = handed s"
      "history t = history s"
    using Date_now_run by blast
  let ?t = "t\<lparr>handed := handed t @ [j\<lparr>jb_timestamp := n\<rparr>]\<rparr>"
  have "moves P s ?t"
    using n assms by (intro moves_by) (auto intro: warning_mono)
  moreover have "moves P ?t (snd (succeeds ''queue'' (queue_add E (j\<lparr>jb_timestamp := n\<rparr>)) ?t))"
    by (rule moves_calls(2) [THEN runs_inD])
  ultimately show ?thesis
    using n(1) by (simp add: hand_over_def bnd_run andthen_run Let_def) (blast intro: mv.evolves_trans)
qed

lemma moves_schedule [intro!]: "action \<noteq> ''erase'' \<Longrightarrow> runs_in (moves P) (schedule E u delay action)"
  unfolding runs_in_def schedule_def by (intro allI moves_hand_over) simp

lemma moves_scheduling [intro!]:
  "runs_in (moves P) (scheduleMark E u delay)" "runs_in (moves P) (scheduleNotify E P' u)"
  "runs_in (moves P) (getDelay E P' r)" "runs_in (moves P) (scheduleInactivityCheck E P' u)"
  "runs_in (moves P) (cancelInactivityCheck E u)"
  unfolding scheduleMark_def scheduleNotify_def getDelay_def scheduleInactivityCheck_def cancelInactivityCheck_def
  by (auto intro!: mv.runs_in_bnd mv.runs_in_andthen split: option.splits)

text \<open>Notifying mails before it schedules.\<close>

lemma notify_user_mails:
  assumes "notify_user E u s = (Inr (), t)"
  shows "Mailed u (stime t) \<in> set (acts t)"
  using assms
  by (auto simp: notify_user_def andthen_run bnd_run Date_now_def succeeds_def outward_def effect_simps split: prod.splits sum.splits if_splits)

lemma moves_notify_user [intro!]: "runs_in (moves P) (notify_user E u)"
  unfolding notify_user_def by (intro mv.runs_in_andthen mv.runs_in_bnd moves_calls mv.runs_in_modify moves_by) auto

lemma moves_scheduleErase:
  assumes "Mailed u n \<in> set (acts s)" and "n \<le> stime s"
  shows "moves P s (snd (scheduleErase E P u s))"
proof -
  obtain r t where t: "removeUserJobs E u s = (r, t)" by fastforce
  have m: "moves P s t" using runs_inD_run [OF moves_jobs t] .
  with assms have "warning P (storedUsername u) (stime t + inactivityGracePeriod P) (acts t)"
    unfolding warning_def moves_def by (intro exI [of _ u] exI [of _ n]) auto
  then have "moves P t (snd (schedule E u (inactivityGracePeriod P) ''erase'' t))"
    unfolding schedule_def by (intro moves_hand_over) simp
  with m t show ?thesis
    by (cases r) (auto simp: scheduleErase_def andthen_run intro: mv.evolves_trans)
qed

lemma moves_notify: "runs_in (moves P) (andthen (notify_user E u) (andthen (scheduleErase E P u) (addEvent E u e)))"
  unfolding runs_in_def
proof
  fix s :: "'a storage_server"
  obtain r t where t: "notify_user E u s = (r, t)" by fastforce
  have m: "moves P s t" using runs_inD_run [OF moves_notify_user t] .
  show "moves P s (snd (andthen (notify_user E u) (andthen (scheduleErase E P u) (addEvent E u e)) s))"
  proof (cases r)
    case (Inr v)
    with t have "Mailed u (stime t) \<in> set (acts t)" by (simp add: notify_user_mails)
    then have s: "moves P t (snd (scheduleErase E P u t))" by (rule moves_scheduleErase) simp
    obtain r' t' where t': "scheduleErase E P u t = (r', t')" by fastforce
    have "moves P t' (snd (addEvent E u e t'))" by (rule moves_event [THEN runs_inD])
    with m s t t' Inr show ?thesis
      by (cases r') (auto simp: andthen_run intro: mv.evolves_trans)
  qed (use m t in \<open>simp add: andthen_run\<close>)
qed

lemma moves_erase [intro!]: "runs_in (moves P) (erase_storage E u)"
  unfolding erase_storage_def
  by (intro mv.runs_in_andthen mv.runs_in_bnd moves_calls mv.runs_in_modify moves_by) auto

lemma moves_unless_high [intro!]: "runs_in (moves P) high \<Longrightarrow> runs_in (moves P) (unless_high E u high st)"
  unfolding unless_high_def by (cases st) auto

lemma moves_processJob: "runs_in (moves P) (processJob E P j)"
  unfolding processJob_def markInactiveUser_def notifyInactiveUser_def eraseInactiveUserStorage_def
  by (intro mv.runs_in_if mv.runs_in_bnd moves_unless_high moves_notify mv.runs_in_andthen moves_status moves_scheduling
      moves_event moves_erase mv.runs_in_throw)

section \<open>Putting jobs under the stored name\<close>

lemma plan_renames_old: "(old, new) \<in> set (snd (planKeyNormalization keys pre orph sep)) \<Longrightarrow> old \<in> set keys"
proof -
  let ?start = "key_start pre sep"
  assume "(old, new) \<in> set (snd (planKeyNormalization keys pre orph sep))"
  then obtain ks where "(new, ks) \<in> set (collisions ?start (named_keys ?start keys))" "old = last ks"
    unfolding planKeyNormalization_def Let_def snd_conv in_concat_pairs
    by (auto simp: survivor_def split: option.splits if_splits)
  then have "old \<in> set (spelled ?start (named_keys ?start keys) new)" by (auto simp: in_collisions)
  then show ?thesis by (simp add: spelled_def)
qed

lemma job_by_id_in: "i \<in> set (job_ids js) \<Longrightarrow> \<exists>j \<in> set js. job_by_id js i = Some j \<and> jb_id j = i"
  unfolding job_by_id_def job_ids_def
  by (cases "find (\<lambda>j. jb_id j = i) (rev js)") (auto simp: find_None_key dest!: find_Some_key)

lemma plan_readds:
  assumes "(old, new) \<in> set (snd (planJobNormalization js n))"
  shows "old \<in> set js \<and> jb_action new = jb_action old \<and> jb_username new = storedUsername (jb_username old) \<and>
    jb_delay new = remainingDelay old n"
proof -
  from assms obtain o' n' where r: "(o', n') \<in> set (snd (planKeyNormalization (job_ids js) ''job'' Rename_orphans ''-''))"
    "old = the (job_by_id js o')" "new = readded n old n'"
    by (auto simp: planJobNormalization_def split: prod.splits)
  from job_by_id_in [OF plan_renames_old [OF r(1)]] r(2,3) show ?thesis by (auto simp: readded_def)
qed

definition still_warned :: "inactivity_policy \<Rightarrow> int \<Rightarrow> 'w storage_server \<Rightarrow> job \<times> job \<Rightarrow> bool" where
  "still_warned P n s p \<longleftrightarrow> (jb_action (snd p) = ''erase'' \<longrightarrow> warning P (jb_username (snd p)) (n + jb_delay (snd p)) (acts s))"

lemma moves_readd_job:
  assumes "still_warned P n s p" and "n \<le> stime s"
  shows "moves P s (snd (readd_job E p s))"
proof -
  obtain old new where p: "p = (old, new)" by fastforce
  let ?clear = "bnd (outward (queue_has E (jb_id new))) (\<lambda>displaced. if displaced then remove_job E (jb_id new) else ret ())"
  have split: "readd_job E p = andthen ?clear (andthen (hand_over E new) (remove_job E (jb_id old)))"
    by (simp add: p readd_job_def andthen_def bnd_assoc)
  obtain r t where t: "?clear s = (r, t)" by fastforce
  have "runs_in (moves P) ?clear" by auto
  from runs_inD_run [OF this t] have m: "moves P s t" .
  with assms have "jb_action new = ''erase'' \<Longrightarrow> warning P (jb_username new) (stime t + jb_delay new) (acts t)"
    by (auto simp: still_warned_def p moves_def intro: warning_mono)
  then have h: "moves P t (snd (hand_over E new t))" by (rule moves_hand_over)
  obtain r' t' where t': "hand_over E new t = (r', t')" by fastforce
  have "moves P t' (snd (remove_job E (jb_id old) t'))" by (rule moves_calls(3) [THEN runs_inD])
  with m h t t' show ?thesis
    unfolding split by (cases r; cases r') (auto simp: andthen_run intro: mv.evolves_trans)
qed

lemma moves_readds:
  assumes "\<forall>p \<in> set ps. still_warned P n s p" and "n \<le> stime s"
  shows "moves P s (snd (for_each ps (readd_job E) s))"
  using assms
proof (induction ps arbitrary: s)
  case (Cons p ps)
  obtain r t where t: "readd_job E p s = (r, t)" by fastforce
  from Cons.prems have m: "moves P s t" using moves_readd_job [of P n s p E] t by simp
  with Cons.prems have "\<forall>p \<in> set ps. still_warned P n t p" "n \<le> stime t"
    by (auto simp: still_warned_def moves_def intro: warning_mono)
  from Cons.IH [OF this] m t show ?case by (cases r) (auto simp: andthen_run intro: mv.evolves_trans)
qed (simp add: mv.evolves_refl)

lemma moves_normalizeJobs:
  assumes "warned P s" and "set (fst (queue_pending E (outer_world s))) \<subseteq> set (handed s)"
  shows "moves P s (snd (normalizeJobs E s))"
proof -
  obtain js w where js: "queue_pending E (outer_world s) = (js, w)" by fastforce
  let ?s = "s\<lparr>outer_world := w\<rparr>"
  obtain n t where n: "Date_now E ?s = (Inr n, t)" "stime t = n" "stime ?s \<le> n" "acts t = acts ?s" "handed t = handed ?s"
      "history t = history ?s"
    using Date_now_run by blast
  obtain removed readd where plan: "planJobNormalization js n = (removed, readd)" by fastforce
  have "still_warned P n t (old, new)" if "(old, new) \<in> set readd" for old new
  proof -
    from plan_readds [of old new js n] plan that have r: "old \<in> set js" "jb_action new = jb_action old"
      "jb_username new = storedUsername (jb_username old)" "jb_delay new = remainingDelay old n" by auto
    from assms js r(1) have "jb_action old = ''erase'' \<Longrightarrow> warning P (jb_username old) (jb_timestamp old + jb_delay old) (acts s)"
      by (auto simp: warned_def)
    with r n(4) show ?thesis
      by (auto simp: still_warned_def remainingDelay_def elim!: warning_mono)
  qed
  then have "moves P t (snd (for_each readd (readd_job E) t))"
    using n(2) by (intro moves_readds) auto
  moreover have "moves P s t" using n by (intro moves_by) auto
  moreover obtain r' t' where t': "for_each readd (readd_job E) t = (r', t')" by fastforce
  moreover have "runs_in (moves P) (for_each removed (\<lambda>j. remove_job E (jb_id j)))" by auto
  then have "moves P t' (snd (for_each removed (\<lambda>j. remove_job E (jb_id j)) t'))" by (rule runs_inD)
  ultimately show ?thesis
    using js n(1) plan by (cases r') (auto simp: normalizeJobs_def bnd_run outward_def state_act_run andthen_run
        intro: mv.evolves_trans)
qed

section \<open>Inactive when erased\<close>

text \<open>
  \<open>unseen E u w due\<close>: the two services, asked in the world \<open>w\<close> for the user's latest login and session,
  answer that there is none after \<open>due\<close> (none counts up to the start of 1970).
\<close>

definition not_after :: "int option \<Rightarrow> int \<Rightarrow> bool" where
  "not_after access due \<longleftrightarrow> (case access of None \<Rightarrow> True | Some t \<Rightarrow> t \<le> due \<or> t \<le> 0)"

definition unseen :: "'w storage_env \<Rightarrow> string \<Rightarrow> 'w \<Rightarrow> int \<Rightarrow> bool" where
  "unseen E u w due \<longleftrightarrow> (case mostRecentLogin E u w of
     (Inr login, w') \<Rightarrow> (case fst (mostRecentSession E u w') of
       Inr session \<Rightarrow> (case (toTimestamp (parseDate E) login, toTimestamp (parseDate E) session) of
         (Inr a, Inr b) \<Rightarrow> not_after a due \<and> not_after b due
       | _ \<Rightarrow> False)
     | Inl _ \<Rightarrow> False)
   | _ \<Rightarrow> False)"

definition storage_above :: "int \<Rightarrow> string \<Rightarrow> store \<Rightarrow> bool" where
  "storage_above threshold u m \<longleftrightarrow> (case Option.bind (getUserStorage u m) parseInt of Some n \<Rightarrow> n > threshold | None \<Rightarrow> False)"

lemma latest_of_two:
  "latest_of [a, b] = (let m = max 0 (max (case a of None \<Rightarrow> 0 | Some x \<Rightarrow> x) (case b of None \<Rightarrow> 0 | Some y \<Rightarrow> y)) in
     if m = 0 then None else Some m)"
  by (auto simp: latest_of_def Let_def split: option.splits)

lemma not_after_mono: "not_after a due \<Longrightarrow> due \<le> due' \<Longrightarrow> not_after a due'"
  by (auto simp: not_after_def split: option.splits)

lemma unseen_mono: "unseen E u w due \<Longrightarrow> due \<le> due' \<Longrightarrow> unseen E u w due'"
  unfolding unseen_def by (auto split: prod.splits sum.splits intro: not_after_mono)

lemma getMostRecentAccess_run:
  assumes "getMostRecentAccess E u s = (Inr access, t)"
  shows "stime t = stime s \<and> acts t = acts s \<and> redis t = redis s \<and> (not_after access due \<longrightarrow> unseen E u (outer_world s) due)"
  using assms
  unfolding getMostRecentAccess_def answered_by_def outward_def unseen_def
  by (auto simp: effect_simps latest_of_two not_after_def Let_def split: prod.splits sum.splits option.splits if_splits)

lemma inactive_unseen:
  assumes "isActive E P u s = (Inr False, t)"
  shows "stime s \<le> stime t \<and> acts t = acts s \<and> redis t = redis s \<and>
    unseen E u (outer_world s) (stime t - inactivityTimeout P)"
proof -
  from assms obtain access s' where a: "getMostRecentAccess E u s = (Inr access, s')"
    unfolding isActive_def by (auto simp: bnd_run split: prod.splits sum.splits)
  note g = getMostRecentAccess_run [OF a]
  have late: "stime s' \<le> stime t \<and> acts t = acts s' \<and> redis t = redis s' \<and> not_after access (stime t - inactivityTimeout P)"
    using assms a unfolding isActive_def
    by (auto simp: effect_simps Date_now_def outward_def not_after_def relativeExpirationTime_def split: prod.splits option.splits)
  with g [of "stime t - inactivityTimeout P"] show ?thesis by simp
qed

lemma status_high:
  assumes "getStorageStatus E P u s = (Inr INACTIVE_HIGH, t)"
  shows "stime s \<le> stime t \<and> acts t = acts s \<and> unseen E u (outer_world s) (stime t - inactivityTimeout P) \<and>
    storage_above (inactivityUserStorageThreshold P) u (redis s)"
proof -
  from assms obtain active s' where a: "isActive E P u s = (Inr active, s')"
    unfolding getStorageStatus_def by (auto simp: bnd_run split: prod.splits sum.splits)
  with assms have f: "active = False"
    unfolding getStorageStatus_def by (auto simp: effect_simps)
  note inactive_unseen [OF a [unfolded f]]
  with assms a f show ?thesis
    unfolding getStorageStatus_def storage_above_def
    by (auto simp: effect_simps split: option.splits if_splits)
qed

lemma status_silent: "getStorageStatus E P u s = (r, t) \<Longrightarrow> acts t = acts s"
  unfolding getStorageStatus_def isActive_def getMostRecentAccess_def answered_by_def Date_now_def outward_def
  by (auto simp: effect_simps split: prod.splits sum.splits option.splits if_splits)


text \<open>What a job adds to the acts.\<close>

definition quiet :: "'w storage_server \<Rightarrow> 'w storage_server \<Rightarrow> bool" where
  "quiet s t \<longleftrightarrow> acts t = acts s"

interpretation qt: evolution quiet
  by unfold_locales (auto simp: quiet_def)

lemma quiet_calls [intro!]:
  "runs_in quiet (outward f)" "runs_in quiet (answered_by g)" "runs_in quiet (succeeds what h)" "runs_in quiet (remove_job E i)"
  "runs_in quiet (Date_now E)" "runs_in quiet (hand_over E j)" "runs_in quiet (addEvent E u e)" "runs_in quiet (getStorageStatus E P u)"
  by (auto simp: outward_def answered_by_def succeeds_def remove_job_def Date_now_def hand_over_def addEvent_def Let_def quiet_def
      getStorageStatus_def isActive_def getMostRecentAccess_def
      intro!: qt.runs_in_state_act qt.runs_in_bnd qt.runs_in_andthen qt.runs_in_modify split: sum.splits prod.splits option.splits)

lemma quiet_scheduling [intro!]:
  "runs_in quiet (scheduleNotify E P u)" "runs_in quiet (scheduleErase E P u)"
  unfolding scheduleNotify_def scheduleErase_def schedule_def removeUserJobs_def by (auto intro!: qt.runs_in_andthen)

lemma quiet_mark [intro!]: "runs_in quiet (markInactiveUser E P u)"
  unfolding markInactiveUser_def unless_high_def
  by (auto intro!: qt.runs_in_bnd qt.runs_in_andthen split: storage_status.split)

lemma notify_user_acts: "notify_user E u s = (r, t) \<Longrightarrow> acts t = acts s \<or> (\<exists>n. acts t = acts s @ [Mailed u n])"
  by (auto simp: notify_user_def succeeds_def Date_now_def outward_def effect_simps split: prod.splits sum.splits if_splits)

lemma erase_storage_acts: "erase_storage E u s = (r, t) \<Longrightarrow> \<exists>n. acts t = acts s @ [EraseStarted u n] \<and> stime s \<le> n"
  by (auto simp: erase_storage_def succeeds_def Date_now_def outward_def effect_simps split: prod.splits sum.splits if_splits)

lemma unless_high_acts:
  assumes "unless_high E u high st s = (r, t)"
  shows "acts t = acts s \<or> st = INACTIVE_HIGH \<and> high s = (r, t)"
proof (cases "st = INACTIVE_HIGH")
  case False
  then have "runs_in quiet (unless_high E u high st)"
    unfolding unless_high_def by (cases st) (auto intro!: qt.runs_in_andthen)
  from runs_inD_run [OF this assms] show ?thesis by (simp add: quiet_def)
qed (use assms in \<open>simp add: unless_high_def\<close>)

lemma quiet_then:
  assumes "andthen m k s = (r, t)" and "runs_in quiet k"
  shows "\<exists>r' s'. m s = (r', s') \<and> acts t = acts s'"
proof -
  obtain r' s' where m: "m s = (r', s')" by fastforce
  from runs_inD [OF assms(2), of s'] assms(1) m show ?thesis
    by (cases r') (auto simp: andthen_run quiet_def)
qed

lemma notify_acts:
  assumes "notifyInactiveUser E P u s = (r, t)"
  shows "acts t = acts s \<or> (\<exists>n. acts t = acts s @ [Mailed u n])"
proof -
  obtain st s' where st: "getStorageStatus E P u s = (st, s')" by fastforce
  note q = status_silent [OF st]
  show ?thesis
  proof (cases st)
    case (Inr x)
    let ?high = "andthen (notify_user E u) (andthen (scheduleErase E P u) (addEvent E u ''NOTIFIED''))"
    from assms st Inr have "unless_high E u ?high x s' = (r, t)" by (simp add: notifyInactiveUser_def bnd_run)
    from unless_high_acts [OF this] show ?thesis
    proof
      assume "x = INACTIVE_HIGH \<and> ?high s' = (r, t)"
      then have "?high s' = (r, t)" ..
      from quiet_then [OF this] obtain r' s'' where "notify_user E u s' = (r', s'')" "acts t = acts s''"
        by (auto intro!: qt.runs_in_andthen)
      with notify_user_acts [of E u s' r' s''] q show ?thesis by auto
    qed (use q in simp)
  qed (use assms st q in \<open>auto simp: notifyInactiveUser_def bnd_run\<close>)
qed

lemma erase_acts:
  assumes "eraseInactiveUserStorage E P u s = (r, t)"
  shows "acts t = acts s \<or> (\<exists>n. acts t = acts s @ [EraseStarted u n] \<and> stime s \<le> n \<and>
    unseen E u (outer_world s) (n - inactivityTimeout P) \<and> storage_above (inactivityUserStorageThreshold P) u (redis s))"
proof -
  obtain st s' where st: "getStorageStatus E P u s = (st, s')" by fastforce
  note q = status_silent [OF st]
  show ?thesis
  proof (cases st)
    case (Inr x)
    let ?high = "andthen (erase_storage E u) (addEvent E u ''PURGED'')"
    from assms st Inr have "unless_high E u ?high x s' = (r, t)" by (simp add: eraseInactiveUserStorage_def bnd_run)
    from unless_high_acts [OF this] show ?thesis
    proof
      assume h: "x = INACTIVE_HIGH \<and> ?high s' = (r, t)"
      then have "?high s' = (r, t)" ..
      from quiet_then [OF this quiet_calls(7)] obtain r' s'' where e: "erase_storage E u s' = (r', s'')" "acts t = acts s''"
        by auto
      from erase_storage_acts [OF e(1)] obtain n where n: "acts s'' = acts s' @ [EraseStarted u n]" "stime s' \<le> n" by blast
      from status_high [of E P u s s'] st Inr h n(2)
      have "stime s \<le> n \<and> unseen E u (outer_world s) (n - inactivityTimeout P) \<and>
        storage_above (inactivityUserStorageThreshold P) u (redis s)"
        by (auto intro: unseen_mono)
      with n(1) e(2) q show ?thesis by auto
    qed (use q in simp)
  qed (use assms st q in \<open>auto simp: eraseInactiveUserStorage_def bnd_run\<close>)
qed

lemma job_erases:
  assumes "processJob E P j s = (r, t)" and "EraseStarted u n \<in> set (drop (length (acts s)) (acts t))"
  shows "jb_action j = ''erase'' \<and> u = jb_username j \<and> stime s \<le> n \<and>
    unseen E u (outer_world s) (n - inactivityTimeout P) \<and> storage_above (inactivityUserStorageThreshold P) u (redis s)"
proof -
  consider "jb_action j = ''mark''" | "jb_action j = ''notify''" | "jb_action j = ''erase''"
    | "jb_action j \<noteq> ''mark''" "jb_action j \<noteq> ''notify''" "jb_action j \<noteq> ''erase''" by blast
  then show ?thesis
  proof cases
    case 1
    with assms(1) runs_inD_run [OF quiet_mark [of E P "jb_username j"], of s r t] assms(2) show ?thesis
      by (simp add: processJob_def quiet_def)
  next
    case 2
    with assms(1) notify_acts [of E P "jb_username j" s r t] assms(2) show ?thesis by (auto simp: processJob_def)
  next
    case 3
    with assms(1) erase_acts [of E P "jb_username j" s r t] assms(2) show ?thesis by (auto simp: processJob_def)
  qed (use assms in \<open>auto simp: processJob_def\<close>)
qed


section \<open>The running service\<close>

text \<open>
  Any job ever handed to the queue may be given to the processor once it is due, more than once and after
  it was removed; the messages come in any order; the world changes and time passes between any two steps.
  The jobs the queue answers at the start are jobs it was handed.
\<close>

inductive storage_step :: "'w storage_env \<Rightarrow> inactivity_policy \<Rightarrow> scan_policy \<Rightarrow> (int \<Rightarrow> string) \<Rightarrow> 'w storage_server \<Rightarrow>
    'w storage_server \<Rightarrow> bool" for E P S toISO where
  Outside: "storage_step E P S toISO s (s\<lparr>outer_world := w, stime := stime s + int d\<rparr>)"
| Job: "j \<in> set (handed s) \<Longrightarrow> jb_timestamp j + jb_delay j \<le> stime s \<Longrightarrow> processJob E P j s = (r, t) \<Longrightarrow>
    storage_step E P S toISO s t"
| Message: "messageHandler E toISO m s = (r, t) \<Longrightarrow> storage_step E P S toISO s t"
| Event: "react_inactivity E P e s = (r, t) \<Longrightarrow> storage_step E P S toISO s t"
| Normalize: "set (fst (queue_pending E (outer_world s))) \<subseteq> set (handed s) \<Longrightarrow> normalizeJobs E s = (r, t) \<Longrightarrow>
    storage_step E P S toISO s t"
| Initialize: "startInactivityCheck E P s = (r, t) \<Longrightarrow> storage_step E P S toISO s t"
| Rescan: "scheduleRescan E S u rt s = (r, t) \<Longrightarrow> storage_step E P S toISO s t"
| Completed: "j \<in> set (rescans s) \<Longrightarrow> scan_completed E S j bytes s = (r, t) \<Longrightarrow> storage_step E P S toISO s t"
| Full_scan: "scheduleFullScan E S homes s = (r, t) \<Longrightarrow> storage_step E P S toISO s t"

definition storage_start :: "store \<Rightarrow> int \<Rightarrow> 'w \<Rightarrow> 'w storage_server" where
  "storage_start m n w = \<lparr>redis = m, history = [], handed = [], rescans = [], acts = [], stime = n, outer_world = w\<rparr>"

definition storage_reachable :: "'w storage_env \<Rightarrow> inactivity_policy \<Rightarrow> scan_policy \<Rightarrow> (int \<Rightarrow> string) \<Rightarrow> 'w storage_server \<Rightarrow> bool" where
  "storage_reachable E P S toISO s \<longleftrightarrow> (\<exists>m n w. (storage_step E P S toISO)\<^sup>*\<^sup>* (storage_start m n w) s)"

text \<open>The operations, seen from any property that the calls and the pure changes of the server keep.\<close>

lemma moves_checks [intro!]: "runs_in (moves P) (scheduleStorageCheck E u d p)"
  unfolding scheduleStorageCheck_def Let_def
  by (intro mv.runs_in_bnd mv.runs_in_andthen moves_calls moves_outward mv.runs_in_modify moves_by) auto

lemma moves_rescans: "runs_in (moves P) (scheduleRescan E S u rt)" "runs_in (moves P) (scheduleFullScan E S homes)"
    "runs_in (moves P) (scan_completed E S j bytes)"
  unfolding scheduleRescan_def scheduleFullScan_def scan_completed_def
  by (auto intro!: mv.runs_in_bnd mv.runs_in_for_each mv.runs_in_state_act moves_by split: prod.splits)

lemma moves_message: "runs_in (moves P) (messageHandler E toISO m)"
  unfolding messageHandler_def
  by (auto intro!: mv.runs_in_bnd mv.runs_in_andthen mv.runs_in_modify moves_by split: storage_message.splits option.splits)

lemma moves_react: "runs_in (moves P) (react_inactivity E P' e)"
  unfolding react_inactivity_def by (auto intro!: mv.runs_in_catching split: storage_event.splits)

lemma moves_initialize: "runs_in (moves P) (startInactivityCheck E P')"
  unfolding startInactivityCheck_def scheduleFullCheck_def schedule_first_def
  by (auto intro!: mv.runs_in_bnd mv.runs_in_andthen mv.runs_in_for_each mv.runs_in_modify moves_by split: option.splits)

lemma step_moves:
  assumes "storage_step E P S toISO s t" and "warned P s"
  shows "moves P s t"
  using assms
proof (cases rule: storage_step.cases)
  case (Outside w d)
  then show ?thesis by (auto intro!: moves_by)
next
  case (Normalize r)
  with moves_normalizeJobs [OF assms(2)] show ?thesis by (metis snd_conv)
qed (blast intro: runs_inD_run [OF moves_processJob] runs_inD_run [OF moves_message] runs_inD_run [OF moves_react]
    runs_inD_run [OF moves_initialize] runs_inD_run [OF moves_rescans(1)] runs_inD_run [OF moves_rescans(2)]
    runs_inD_run [OF moves_rescans(3)])+

lemma reachable_kept: "storage_reachable E P S toISO s \<Longrightarrow> warned P s \<and> recorded s"
proof -
  have "(storage_step E P S toISO)\<^sup>*\<^sup>* a s \<Longrightarrow> warned P a \<and> recorded a \<Longrightarrow> warned P s \<and> recorded s" for a
    by (induction rule: rtranclp_induct) (auto dest: step_moves simp: moves_def)
  then show "storage_reachable E P S toISO s \<Longrightarrow> warned P s \<and> recorded s"
    unfolding storage_reachable_def storage_start_def by (fastforce simp: warned_def recorded_def rows_of_def)
qed

text \<open>
  C21: a job erases a user's storage only when the user was sent a mail at least the grace period
  before, the users service answers neither a login nor a session within the inactivity timeout before
  the erasure, and the last known size is above the threshold.
\<close>
theorem erase_warned_and_inactive:
  assumes "storage_reachable E P S toISO s" and "j \<in> set (handed s)" and "jb_timestamp j + jb_delay j \<le> stime s"
    and "processJob E P j s = (r, t)" and "EraseStarted u n \<in> set (drop (length (acts s)) (acts t))"
  shows "warning P u n (acts s) \<and> unseen E u (outer_world s) (n - inactivityTimeout P) \<and>
    storage_above (inactivityUserStorageThreshold P) u (redis s)"
proof -
  from job_erases [OF assms(4,5)] have j: "jb_action j = ''erase''" "u = jb_username j" "stime s \<le> n"
    "unseen E u (outer_world s) (n - inactivityTimeout P)" "storage_above (inactivityUserStorageThreshold P) u (redis s)" by auto
  from reachable_kept [OF assms(1)] assms(2) j(1,2) have "warning P u (jb_timestamp j + jb_delay j) (acts s)"
    by (auto simp: warned_def)
  with assms(3) j(3) have "warning P u n (acts s)" by (auto elim: warning_mono)
  with j(4,5) show ?thesis by simp
qed


definition still_env :: "unit storage_env" where
  "still_env = \<lparr>elapse = (\<lambda>w. (0, w)), random = (\<lambda>w. (0, w)), parseDate = (\<lambda>_. Some 0),
     mostRecentLogin = (\<lambda>u w. (Inr (Some (JObj [(''timestamp'', JStr ''1970'')])), w)),
     mostRecentSession = (\<lambda>u w. (Inr None, w)), loginByUser = (\<lambda>w. (Inr [], w)), sessionByUser = (\<lambda>w. (Inr [], w)),
     userInfo = (\<lambda>u w. (True, w)), eraseHome = (\<lambda>u w. (True, w)), history_db = (\<lambda>w. (True, w)),
     queue_add = (\<lambda>j w. (True, w)), queue_remove = (\<lambda>i w. (True, w)), queue_has = (\<lambda>i w. (False, w)),
     queue_obliterate = (\<lambda>w. (True, w)), queue_pending = (\<lambda>w. ([], w))\<rparr>"

definition short_policy :: inactivity_policy where
  "short_policy = \<lparr>inactivityTimeout = 10, inactivityNotificationDelay = 0, inactivityGracePeriod = 5, inactivityMaxSpread = 0,
     inactivityUserStorageThreshold = 0\<rparr>"

definition scans :: scan_policy where
  "scans = \<lparr>scanMinDelay = 1, scanMaxDelay = 9, scanDelayIncreaseFactor = 2\<rparr>"

definition wait :: "int \<Rightarrow> unit storage_server \<Rightarrow> unit storage_server" where
  "wait d s = s\<lparr>outer_world := (), stime := stime s + int (nat d)\<rparr>"

definition bob_job :: "string \<Rightarrow> int \<Rightarrow> int \<Rightarrow> job" where
  "bob_job action delay n = \<lparr>jb_id = ''job-bob-'' @ action, jb_username = ''bob'', jb_action = action, jb_priority = 1,
     jb_delay = delay, jb_timestamp = n\<rparr>"

definition bob :: "history_row list \<Rightarrow> job list \<Rightarrow> storage_act list \<Rightarrow> int \<Rightarrow> unit storage_server" where
  "bob hs js as n = \<lparr>redis = [''storage:bob'' \<mapsto> ''7''], history = hs, handed = js, rescans = [], acts = as, stime = n,
     outer_world = ()\<rparr>"

lemma wait_step: "storage_step E P S toISO s (wait d s)"
  unfolding wait_def by (rule Outside)

definition bob_rows :: "string list \<Rightarrow> history_row list" where
  "bob_rows es = map (\<lambda>(i, e). \<lparr>hi_id = i, hi_username = ''bob'', hi_event = e, hi_time = 0\<rparr>) (enumerate 1 es)"

lemmas bob_evals = processJob_def markInactiveUser_def notifyInactiveUser_def eraseInactiveUserStorage_def getStorageStatus_def
  isActive_def getMostRecentAccess_def answered_by_def outward_def bnd_run andthen_run catching_run state_act_run Date_now_def
  succeeds_def unless_high_def addEvent_def hand_over_def schedule_def scheduleMark_def scheduleNotify_def scheduleErase_def
  remove_job_def removeUserJobs_def getDelay_def scheduleInactivityCheck_def react_inactivity_def notify_user_def
  erase_storage_def still_env_def short_policy_def bob_def bob_job_def bob_rows_def relativeExpirationTime_def latest_of_two
  stmt_addEvent_def latest_event_def

lemma bob_lookups:
  "getUserStorage ''bob'' [''storage:bob'' \<mapsto> ''7''] = Some ''7''" "parseInt ''7'' = Some 7" "storedUsername ''bob'' = ''bob''"
  "storedUsername ''Bob'' = ''bob''" "ci_eq ''bob'' ''bob''" "toTimestamp (\<lambda>_. Some 0) None = Inr None"
  "toTimestamp (\<lambda>_. Some 0) (Some (JObj [(''timestamp'', JStr ''1970'')])) = Inr (Some 0)"
  by code_simp+

lemma bob_keys: "job_key ''bob'' a = ''job-bob-'' @ a" "job_key ''Bob'' a = ''job-bob-'' @ a"
  by (simp_all add: job_key_def bob_lookups)

lemma bob_leaves: "snd (react_inactivity still_env short_policy (On_userDown ''Bob'') (bob [] [] [] 0)) =
    bob [] [bob_job ''mark'' 10 0] [] 0"
  by (simp add: bob_evals bob_lookups bob_keys)

lemma bob_marked: "snd (processJob still_env short_policy (bob_job ''mark'' 10 0) (bob [] [bob_job ''mark'' 10 0] [] 10)) =
    bob (bob_rows [''INACTIVE_HIGH'']) [bob_job ''mark'' 10 0, bob_job ''notify'' 0 10] [] 10"
  by (simp add: bob_evals bob_lookups bob_keys)

lemma bob_mailed: "snd (processJob still_env short_policy (bob_job ''notify'' 0 10)
      (bob (bob_rows [''INACTIVE_HIGH'']) [bob_job ''mark'' 10 0, bob_job ''notify'' 0 10] [] 10)) =
    bob (bob_rows [''INACTIVE_HIGH'', ''NOTIFIED'']) [bob_job ''mark'' 10 0, bob_job ''notify'' 0 10, bob_job ''erase'' 5 10]
      [Mailed ''bob'' 10] 10"
  by (simp add: bob_evals bob_lookups bob_keys)

definition bob_due :: "unit storage_server" where
  "bob_due = bob (bob_rows [''INACTIVE_HIGH'', ''NOTIFIED''])
     [bob_job ''mark'' 10 0, bob_job ''notify'' 0 10, bob_job ''erase'' 5 10] [Mailed ''bob'' 10] 15"

lemma bob_erased: "acts (snd (processJob still_env short_policy (bob_job ''erase'' 5 10) bob_due)) =
    [Mailed ''bob'' 10, EraseStarted ''bob'' 15]"
  by (simp add: bob_due_def bob_evals bob_lookups bob_keys)

lemma wait_bob: "wait d (bob hs js as n) = bob hs js as (n + int (nat d))"
  by (simp add: wait_def bob_def)

lemma job_step:
  assumes "j \<in> set (handed s)" and "jb_timestamp j + jb_delay j \<le> stime s" and "snd (processJob E P j s) = t"
  shows "storage_step E P S toISO s t"
proof (rule Job [OF assms(1,2)])
  show "processJob E P j s = (fst (processJob E P j s), t)" using assms(3) by auto
qed

lemma bob_due_reachable: "storage_reachable still_env short_policy scans toISO bob_due"
proof -
  let ?R = "storage_step still_env short_policy scans toISO"
  let ?mark = "bob_job ''mark'' 10 0" and ?notify = "bob_job ''notify'' 0 10" and ?erase = "bob_job ''erase'' 5 10"
  have "?R (bob [] [] [] 0) (bob [] [?mark] [] 0)"
    unfolding bob_leaves [symmetric] by (rule Event) (rule surjective_pairing)
  moreover have "?R (bob [] [?mark] [] 0) (bob [] [?mark] [] 10)"
    using wait_step [where d = 10 and s = "bob [] [?mark] [] 0"] by (simp add: wait_bob)
  moreover have "?R (bob [] [?mark] [] 10) (bob (bob_rows [''INACTIVE_HIGH'']) [?mark, ?notify] [] 10)"
    by (rule job_step [OF _ _ bob_marked]) (simp_all add: bob_def bob_job_def)
  moreover have "?R (bob (bob_rows [''INACTIVE_HIGH'']) [?mark, ?notify] [] 10)
      (bob (bob_rows [''INACTIVE_HIGH'', ''NOTIFIED'']) [?mark, ?notify, ?erase] [Mailed ''bob'' 10] 10)"
    by (rule job_step [OF _ _ bob_mailed]) (simp_all add: bob_def bob_job_def)
  moreover have "?R (bob (bob_rows [''INACTIVE_HIGH'', ''NOTIFIED'']) [?mark, ?notify, ?erase] [Mailed ''bob'' 10] 10) bob_due"
    using wait_step [where d = 5 and s = "bob (bob_rows [''INACTIVE_HIGH'', ''NOTIFIED'']) [?mark, ?notify, ?erase] [Mailed ''bob'' 10] 10"]
    by (simp add: wait_bob bob_due_def)
  ultimately have "?R\<^sup>*\<^sup>* (bob [] [] [] 0) bob_due"
    by (meson converse_rtranclp_into_rtranclp rtranclp.rtrancl_refl)
  then show ?thesis
    unfolding storage_reachable_def storage_start_def bob_def by blast
qed

theorem erase_warned_and_inactive_witness:
  "warning short_policy ''bob'' 15 (acts bob_due) \<and>
   unseen still_env ''bob'' (outer_world bob_due) (15 - inactivityTimeout short_policy) \<and>
   storage_above (inactivityUserStorageThreshold short_policy) ''bob'' (redis bob_due)"
proof -
  obtain r t where t: "processJob still_env short_policy (bob_job ''erase'' 5 10) bob_due = (r, t)" by fastforce
  have "acts bob_due = [Mailed ''bob'' 10]" by (simp add: bob_due_def bob_def)
  with bob_erased t have "EraseStarted ''bob'' 15 \<in> set (drop (length (acts bob_due)) (acts t))" by simp
  from erase_warned_and_inactive [OF bob_due_reachable [where toISO = "\<lambda>_. []"] _ _ t this] show ?thesis
    by (simp add: bob_due_def bob_def bob_job_def)
qed


section \<open>The history of a user\<close>

lemma number_rows_runs:
  "0 < n \<Longrightarrow> map hi_event (map fst (filter (\<lambda>(r, k). k = 1) (number_rows e n rs))) = tl (remdups_adj (e # map hi_event rs))"
  by (induction rs arbitrary: e n) (auto simp: Let_def simp del: remdups_adj.simps(3) simp: remdups_adj_Cons')

lemma first_rows_runs:
  "map hi_event (map fst (filter (\<lambda>(r, k). k = 1) (number_rows [] 0 rs))) = remdups_adj (map hi_event rs)"
proof (cases rs)
  case (Cons r rs')
  then show ?thesis using number_rows_runs [of 1 "hi_event r" rs']
    by (simp add: Let_def del: remdups_adj.simps(3))
qed simp

lemma newest_first_sorted: "sorted_wrt before rs \<Longrightarrow> newest_first rs = rev rs"
proof -
  assume "sorted_wrt before rs"
  then have "sorted (map hi_time rs)"
    unfolding sorted_map by (rule sorted_wrt_mono_rel [rotated]) (simp add: before_def)
  then show ?thesis by (simp add: newest_first_def sort_key_id_if_sorted)
qed



end
