(* ===== verification/GatewayModel.thy ===== *)
theory GatewayModel
  imports KeyCase
begin

text \<open>
  The gateway's users and login sessions (\<^verbatim>\<open>modules/gateway/src\<close>): the headers it owns (\<^verbatim>\<open>user.js\<close>), the
  cache of users (\<^verbatim>\<open>userStore.js\<close>), the login sessions (\<^verbatim>\<open>session.js\<close>, \<^verbatim>\<open>userSession.js\<close>) and the calls to
  the other modules (\<^verbatim>\<open>userApi.js\<close>). One exchange is the request being handled together with the stores it
  is handled against. A value that a store or a header keeps as JSON text is the value itself; what a
  client wrote into a header of the gateway's is kept apart, as \<open>Sent\<close>. The other modules are functions of
  \<open>gateway_env\<close> over an arbitrary world; \<open>answers\<close> records what they answered.
\<close>

section \<open>Data\<close>

record google_tokens =
  accessTokenExpiryDate :: "int option"
  tokenData :: json

record user =
  usr_id :: json
  usr_username :: string
  usr_googleTokens :: "google_tokens option"
  usr_status :: string
  usr_roles :: "string list"
  usr_systemUser :: bool
  usr_admin :: bool
  usr_details :: "(string \<times> json) list"  \<comment> \<open>everything else\<close>

record worker_session =
  wss_sessionId :: "string option"
  wss_workerType :: string
  wss_taskId :: "string option"

datatype 'a header = Sent string | Given 'a

datatype gateway_event =
    LOGIN_SESSION_INVALIDATED string string string
  | USER_UPDATED user
  | GOOGLE_ACCESS_TOKEN_ADDED user
  | GOOGLE_ACCESS_TOKEN_REMOVED user
  | GOOGLE_ACCESS_TOKEN_UPDATED user

text \<open>What a service answered: its status, and the body it sends with success.\<close>

datatype 'a reply = Unreachable string | Status nat | Body 'a

datatype answer =
    Loaded string user
  | Authenticated string string user
  | Key_owner string string worker_session  \<comment> \<open>the key, the user, the session\<close>
  | Looked_up string user
  | Reset user

record request =
  http_method :: string
  url_path :: string
  sessionID :: string
  session_username :: "string option"
  sepal_user :: "user header option"
  sepal_session :: "worker_session header option"
  authorization :: "string option"
  noAuthChallenge :: bool
  login_stored :: bool                 \<comment> \<open>the request wrote to its session\<close>
  on_finish :: "gateway_event list"

record 'w gateway =
  user_cache :: "string \<Rightarrow> user option"
  login_sessions :: "(string \<times> string option) list"
  events :: "gateway_event list"
  answers :: "answer list"
  req :: request
  gtime :: int
  services :: 'w

record 'w gateway_env =
  redis_ok :: "'w \<Rightarrow> bool \<times> 'w"
  newSessionId :: "'w \<Rightarrow> string \<times> 'w"
  parse_user :: "string \<Rightarrow> user option"
  parse_session :: "string \<Rightarrow> worker_session option"
  isMatch :: "string \<Rightarrow> string \<Rightarrow> bool"  \<comment> \<open>the glob library\<close>
  backend_user :: "string \<Rightarrow> 'w \<Rightarrow> user reply \<times> 'w"
  backend_authenticate :: "string \<Rightarrow> string \<Rightarrow> 'w \<Rightarrow> user reply \<times> 'w"
  session_key_owner :: "string \<Rightarrow> 'w \<Rightarrow> (string \<times> worker_session) reply \<times> 'w"
  task_key_owner :: "string \<Rightarrow> 'w \<Rightarrow> (string \<times> string) reply \<times> 'w"
  backend_lookup :: "string \<Rightarrow> 'w \<Rightarrow> user reply \<times> 'w"
  backend_reset :: "json \<Rightarrow> 'w \<Rightarrow> user reply \<times> 'w"
  refresh_tokens :: "user \<Rightarrow> 'w \<Rightarrow> google_tokens reply \<times> 'w"
  revoke_access :: "user \<Rightarrow> 'w \<Rightarrow> user reply \<times> 'w"

type_synonym ('w, 'a) gate = "('w gateway, string, 'a) act"

section \<open>Calls\<close>

definition asks :: "('w \<Rightarrow> 'a \<times> 'w) \<Rightarrow> ('w, 'a) gate" where
  "asks f = state_act (\<lambda>s. case f (services s) of (a, w) \<Rightarrow> (a, s\<lparr>services := w\<rparr>))"

definition redis_call :: "'w gateway_env \<Rightarrow> ('w, unit) gate" where
  "redis_call E = bnd (asks (redis_ok E)) (\<lambda>done. if done then ret () else throw ''redis'')"

definition noted :: "answer \<Rightarrow> ('w, unit) gate" where
  "noted a = modify (\<lambda>s. s\<lparr>answers := answers s @ [a]\<rparr>)"

definition emit :: "gateway_event \<Rightarrow> ('w, unit) gate" where
  "emit e = modify (\<lambda>s. s\<lparr>events := events s @ [e]\<rparr>)"

definition on_req :: "(request \<Rightarrow> request) \<Rightarrow> ('w, unit) gate" where
  "on_req f = modify (\<lambda>s. s\<lparr>req := f (req s)\<rparr>)"

text \<open>
  A call with \<open>validStatuses\<close>: success is a status below 400 or one of those; every other outcome is an
  error. The caller gets the status, and the body when it is 200.
\<close>

definition posts :: "nat list \<Rightarrow> ('a \<Rightarrow> answer) \<Rightarrow> ('w \<Rightarrow> 'a reply \<times> 'w) \<Rightarrow> ('w, nat + 'a) gate" where
  "posts valid note f = bnd (asks f) (\<lambda>r. case r of
     Unreachable e \<Rightarrow> throw e
   | Status c \<Rightarrow> if c < 400 \<or> c \<in> set valid then ret (Inl c) else throw ''status''
   | Body b \<Rightarrow> andthen (noted (note b)) (ret (Inr b)))"

section \<open>The headers\<close>

definition deserialize :: "(string \<Rightarrow> 'a option) \<Rightarrow> 'a header option \<Rightarrow> 'a option" where
  "deserialize parse h = (case h of None \<Rightarrow> None | Some (Sent t) \<Rightarrow> parse t | Some (Given a) \<Rightarrow> Some a)"

definition getRequestUser :: "'w gateway_env \<Rightarrow> ('w, user option) gate" where
  "getRequestUser E = gets (\<lambda>s. deserialize (parse_user E) (sepal_user (req s)))"

definition userInfo_of :: "user \<Rightarrow> user" where
  "userInfo_of u = u\<lparr>usr_username := storedUsername (usr_username u), usr_details := []\<rparr>"

definition setRequestUser :: "user \<Rightarrow> ('w, unit) gate" where
  "setRequestUser u = on_req (\<lambda>r. r\<lparr>sepal_user := Some (Given (userInfo_of u))\<rparr>)"

definition removeRequestUser :: "('w, unit) gate" where
  "removeRequestUser = on_req (\<lambda>r. r\<lparr>sepal_user := None\<rparr>)"

definition getRequestSession :: "'w gateway_env \<Rightarrow> ('w, worker_session option) gate" where
  "getRequestSession E = gets (\<lambda>s. deserialize (parse_session E) (sepal_session (req s)))"

definition setRequestSession :: "worker_session \<Rightarrow> ('w, unit) gate" where
  "setRequestSession v = on_req (\<lambda>r. r\<lparr>sepal_session := Some (Given v)\<rparr>)"

definition removeRequestSession :: "('w, unit) gate" where
  "removeRequestSession = on_req (\<lambda>r. r\<lparr>sepal_session := None\<rparr>)"

text \<open>An empty name is no name.\<close>

definition named :: "string option \<Rightarrow> string option" where
  "named n = (if n = Some [] then None else n)"

definition getSessionUsername :: "('w, string option) gate" where
  "getSessionUsername = gets (\<lambda>s. named (session_username (req s)))"

definition setSessionUsername :: "string \<Rightarrow> ('w, unit) gate" where
  "setSessionUsername n = on_req (\<lambda>r. r\<lparr>session_username := Some (storedUsername n), login_stored := True\<rparr>)"

section \<open>The cache of users\<close>

definition USER_PREFIX :: string where "USER_PREFIX = ''user''"

definition userKey :: "string \<Rightarrow> string" where
  "userKey n = USER_PREFIX @ '':'' @ storedUsername n"

definition storedUser :: "user \<Rightarrow> user" where
  "storedUser u = u\<lparr>usr_username := storedUsername (usr_username u)\<rparr>"

definition handleUpdate :: "user option \<Rightarrow> user \<Rightarrow> ('w, unit) gate" where
  "handleUpdate prevUser u = (if prevUser = Some u then ret ()
     else andthen (emit (USER_UPDATED u))
       (let had = Option.bind prevUser usr_googleTokens; now = usr_googleTokens u in
        if had = None \<and> now \<noteq> None then emit (GOOGLE_ACCESS_TOKEN_ADDED u)
        else if had \<noteq> None \<and> now = None then emit (GOOGLE_ACCESS_TOKEN_REMOVED u)
        else if had \<noteq> now then emit (GOOGLE_ACCESS_TOKEN_UPDATED u)
        else ret ()))"

definition setUser :: "'w gateway_env \<Rightarrow> user \<Rightarrow> ('w, user) gate" where
  "setUser E u = andthen (redis_call E)
     (bnd (state_act (\<lambda>s. (user_cache s (userKey (usr_username u)),
          s\<lparr>user_cache := (user_cache s)(userKey (usr_username u) \<mapsto> storedUser u)\<rparr>)))
       (\<lambda>prevUser. andthen (handleUpdate prevUser (storedUser u)) (ret (storedUser u))))"

definition loadUser :: "'w gateway_env \<Rightarrow> string \<Rightarrow> ('w, user) gate" where
  "loadUser E n = bnd (posts [] (Loaded n) (backend_user E n)) (\<lambda>r. case r of Inr u \<Rightarrow> ret u | Inl _ \<Rightarrow> throw ''no user'')"

definition getUser :: "'w gateway_env \<Rightarrow> string \<Rightarrow> ('w, user) gate" where
  "getUser E n = andthen (redis_call E) (bnd (gets (\<lambda>s. user_cache s (userKey n))) (\<lambda>u. case u of
     Some u \<Rightarrow> ret u
   | None \<Rightarrow> bnd (loadUser E n) (setUser E)))"

text \<open>\<open>EMPTY\<close> is \<open>None\<close>.\<close>

definition updateUser :: "'w gateway_env \<Rightarrow> string \<Rightarrow> ('w, user option) gate" where
  "updateUser E n = (if n = [] then ret None
     else catching (bnd (bnd (loadUser E n) (setUser E)) (\<lambda>u. ret (Some u))) (\<lambda>_. ret None))"

definition userMiddleware :: "'w gateway_env \<Rightarrow> ('w, unit) gate" where
  "userMiddleware E = bnd getSessionUsername (\<lambda>username. andthen removeRequestUser (andthen removeRequestSession
     (case username of None \<Rightarrow> ret ()
      | Some n \<Rightarrow> bnd (getUser E n) (\<lambda>u. if usr_status u = ''ACTIVE'' then setRequestUser u else ret ()))))"

definition del_users :: "string list \<Rightarrow> ('w, unit) gate" where
  "del_users keys = modify (\<lambda>s. s\<lparr>user_cache := (\<lambda>k. if k \<in> set keys then None else user_cache s k)\<rparr>)"

text \<open>\<open>scanned m\<close> is what a scan of the cache answers.\<close>

definition correct_user :: "string \<Rightarrow> ('w, unit) gate" where
  "correct_user k = modify (\<lambda>s. case user_cache s k of
     Some u \<Rightarrow> if isStoredUsername (usr_username u) then s else s\<lparr>user_cache := (user_cache s)(k \<mapsto> storedUser u)\<rparr>
   | None \<Rightarrow> s)"

definition normalizeUsers :: "((string \<Rightarrow> user option) \<Rightarrow> string list) \<Rightarrow> ('w, unit) gate" where
  "normalizeUsers scanned = bnd (gets (\<lambda>s. scanned (user_cache s))) (\<lambda>keys.
     andthen (applyKeyNormalization ''no renameKey'' keys USER_PREFIX Remove_orphans '':'' None del_users 500)
       (bnd (gets (\<lambda>s. scanned (user_cache s))) (\<lambda>keys. for_each (concat (batches 500 keys)) correct_user)))"

section \<open>Login sessions\<close>

definition store_destroy :: "'w gateway_env \<Rightarrow> string \<Rightarrow> ('w, unit) gate" where
  "store_destroy E i = andthen (redis_call E) (modify (\<lambda>s. s\<lparr>login_sessions := filter (\<lambda>(k, _). k \<noteq> i) (login_sessions s)\<rparr>))"

definition sessionInvalidated :: "string \<Rightarrow> string \<Rightarrow> string \<Rightarrow> ('w, unit) gate" where
  "sessionInvalidated n i reason = emit (LOGIN_SESSION_INVALIDATED n i reason)"

definition removeSession :: "'w gateway_env \<Rightarrow> string \<Rightarrow> string \<Rightarrow> string \<Rightarrow> ('w, unit) gate" where
  "removeSession E n reason i = andthen (store_destroy E i) (sessionInvalidated n i reason)"

definition getSessionIdsByUsername :: "'w gateway_env \<Rightarrow> string option \<Rightarrow> ('w, string list) gate" where
  "getSessionIdsByUsername E n = andthen (redis_call E) (gets (\<lambda>s.
     map fst (filter (\<lambda>(_, m). map_option storedUsername m = map_option storedUsername n) (login_sessions s))))"

text \<open>\<open>Promise.all\<close>: every one runs; the first error is the outcome.\<close>

fun promise_all :: "('a \<Rightarrow> ('s, 'e, unit) act) \<Rightarrow> 'a list \<Rightarrow> ('s, 'e, unit) act" where
  "promise_all f [] = ret ()"
| "promise_all f (x # xs) = (\<lambda>s. case f x s of (r, s') \<Rightarrow> (case promise_all f xs s' of (r', s'') \<Rightarrow>
     (case r of Inl e \<Rightarrow> Inl e | Inr _ \<Rightarrow> r', s'')))"

definition removeSessionsByUsername :: "'w gateway_env \<Rightarrow> string \<Rightarrow> ('w, unit) gate" where
  "removeSessionsByUsername E n = bnd (getSessionIdsByUsername E (Some n)) (promise_all (removeSession E n ''locked''))"

definition normalizeSessions :: "('w, unit) gate" where
  "normalizeSessions = modify (\<lambda>s. s\<lparr>login_sessions :=
     map (\<lambda>(i, n). (i, map_option storedUsername n)) (login_sessions s)\<rparr>)"

definition userLocked_message :: "'w gateway_env \<Rightarrow> string \<Rightarrow> string option \<Rightarrow> ('w, unit) gate" where
  "userLocked_message E key n = (if key = ''user.UserLocked''
     then case named n of Some n \<Rightarrow> removeSessionsByUsername E n | None \<Rightarrow> ret () else ret ())"

definition logout :: "'w gateway_env \<Rightarrow> ('w, nat) gate" where
  "logout E = bnd getSessionUsername (\<lambda>username. bnd (gets (\<lambda>s. sessionID (req s))) (\<lambda>i.
     andthen (store_destroy E i) (andthen (on_req (\<lambda>r. r\<lparr>session_username := None, login_stored := False\<rparr>))
       (andthen (case username of None \<Rightarrow> ret ()
          | Some n \<Rightarrow> andthen (sessionInvalidated n i ''logout'') (bnd (getSessionIdsByUsername E (Some n)) (\<lambda>_. ret ())))
         (ret 200)))))"

definition invalidateOtherSessions :: "'w gateway_env \<Rightarrow> ('w, nat) gate" where
  "invalidateOtherSessions E = bnd (gets (\<lambda>s. (session_username (req s), sessionID (req s)))) (\<lambda>(n, i).
     bnd (getSessionIdsByUsername E n) (\<lambda>ids.
       andthen (promise_all (removeSession E (case n of None \<Rightarrow> [] | Some n \<Rightarrow> n) ''invalidated'') (filter (\<lambda>k. k \<noteq> i) ids))
         (ret 200)))"

text \<open>The library's \<open>regenerate\<close>: the session is destroyed, and the request gets an empty one with a new id.\<close>

definition regenerate :: "'w gateway_env \<Rightarrow> ('w, unit) gate" where
  "regenerate E = bnd (gets (\<lambda>s. sessionID (req s))) (\<lambda>i. andthen (store_destroy E i) (bnd (asks (newSessionId E)) (\<lambda>new.
     on_req (\<lambda>r. r\<lparr>sessionID := new, session_username := None, login_stored := False\<rparr>))))"

definition ensureSessionFor :: "'w gateway_env \<Rightarrow> string \<Rightarrow> ('w, unit) gate" where
  "ensureSessionFor E n = bnd getSessionUsername (\<lambda>previous. bnd (gets (\<lambda>s. sessionID (req s))) (\<lambda>previousId.
     case previous of None \<Rightarrow> ret ()
     | Some p \<Rightarrow> if storedUsername p \<noteq> storedUsername n
         then andthen (regenerate E)
           (on_req (\<lambda>r. r\<lparr>on_finish := on_finish r @ [LOGIN_SESSION_INVALIDATED p previousId ''replaced'']\<rparr>))
         else ret ()))"

definition startSession :: "'w gateway_env \<Rightarrow> user \<Rightarrow> ('w, unit) gate" where
  "startSession E u = bnd (setUser E u) (\<lambda>_. andthen (ensureSessionFor E (usr_username u))
     (andthen (setSessionUsername (usr_username u)) (setRequestUser u)))"

text \<open>
  The end of a response: the library saves a session the request wrote to, unsaved ones are not kept, and
  what was to follow the response follows.
\<close>

definition respond :: "'w gateway_env \<Rightarrow> ('w, unit) gate" where
  "respond E = bnd (gets req) (\<lambda>r.
     andthen (if login_stored r then modify (\<lambda>s. s\<lparr>login_sessions :=
         filter (\<lambda>(k, _). k \<noteq> sessionID r) (login_sessions s) @ [(sessionID r, session_username r)]\<rparr>) else ret ())
       (modify (\<lambda>s. s\<lparr>events := events s @ on_finish r\<rparr>)))"

end
