(* ===== verification/GatewayAuth.thy ===== *)
theory GatewayAuth
  imports GatewayModel
begin

text \<open>
  How the gateway answers a request (\<^verbatim>\<open>modules/gateway/src\<close>): credentials (\<^verbatim>\<open>authMiddleware.js\<close>), Google
  tokens (\<^verbatim>\<open>googleAccessTokenMiddleware.js\<close>), metrics (\<^verbatim>\<open>metricsAccess.js\<close>), the endpoints
  (\<^verbatim>\<open>config/endpoints.js\<close>), the headers it forwards (\<^verbatim>\<open>proxy.js\<close>), the order of its routes (\<^verbatim>\<open>main.js\<close>)
  and WebSocket upgrades (\<^verbatim>\<open>webSocketUpgrade.js\<close>). Texts are ASCII.
\<close>

section \<open>Credentials\<close>

text \<open>\<open>Buffer.from(s, 'base64')\<close>: both alphabets, other characters skipped, the end at the first \<open>=\<close>.\<close>

definition sextet :: "char \<Rightarrow> nat option" where
  "sextet c = (let n = of_char c :: nat in
     if 65 \<le> n \<and> n \<le> 90 then Some (n - 65)
     else if 97 \<le> n \<and> n \<le> 122 then Some (n - 71)
     else if 48 \<le> n \<and> n \<le> 57 then Some (n + 4)
     else if n = 43 \<or> n = 45 then Some 62
     else if n = 47 \<or> n = 95 then Some 63
     else None)"

fun octets :: "nat list \<Rightarrow> nat list" where
  "octets (a # b # c # d # xs) = [4 * a + b div 16, 16 * (b mod 16) + c div 4, 64 * (c mod 4) + d] @ octets xs"
| "octets [a, b, c] = [4 * a + b div 16, 16 * (b mod 16) + c div 4]"
| "octets [a, b] = [4 * a + b div 16]"
| "octets _ = []"

definition from_base64 :: "string \<Rightarrow> string" where
  "from_base64 s = map char_of (octets (map the (filter (\<lambda>x. x \<noteq> None) (map sextet (takeWhile (\<lambda>c. c \<noteq> CHR ''='') s)))))"

definition newline :: "char \<Rightarrow> bool" where
  "newline c \<longleftrightarrow> c = CHR 0x0A \<or> c = CHR 0x0D"

text \<open>\<open>match(/([^:]*):(.*)/)\<close>, \<open>None\<close> when there is no colon.\<close>

definition match_credentials :: "string \<Rightarrow> (string \<times> string) option" where
  "match_credentials t = (case dropWhile (\<lambda>c. c \<noteq> CHR '':'') t of [] \<Rightarrow> None
     | _ # rest \<Rightarrow> Some (takeWhile (\<lambda>c. c \<noteq> CHR '':'') t, takeWhile (\<lambda>c. \<not> newline c) rest))"

definition hasBasicAuthHeaders :: "request \<Rightarrow> bool" where
  "hasBasicAuthHeaders r = (case authorization r of None \<Rightarrow> False | Some h \<Rightarrow> starts_with ''basic '' (storedUsername h))"

text \<open>The username, lower-cased, and the password; \<open>None\<close> when the password is missing or empty.\<close>

definition getRequestHeaderCredentials :: "request \<Rightarrow> (string \<times> string) option" where
  "getRequestHeaderCredentials r = Option.bind (authorization r) (\<lambda>h.
     case match_credentials (from_base64 (drop 6 h)) of
       None \<Rightarrow> None
     | Some (n, p) \<Rightarrow> if p = [] then None else Some (storedUsername n, p))"

definition TASK_API_KEY_PREFIX :: string where "TASK_API_KEY_PREFIX = ''task_''"

definition isAuthenticated :: "'w gateway_env \<Rightarrow> ('w, bool) gate" where
  "isAuthenticated E = bnd (getRequestUser E) (\<lambda>u. ret (u \<noteq> None))"

definition authenticatedGuiRequest :: "'w gateway_env \<Rightarrow> user \<Rightarrow> ('w, nat) gate" where
  "authenticatedGuiRequest E u = andthen (startSession E u) (ret 200)"

definition authenticatedNonGuiRequest :: "user \<Rightarrow> ('w, nat) gate" where
  "authenticatedNonGuiRequest u = andthen (setRequestUser u) (ret 200)"

definition authorized :: "'w gateway_env \<Rightarrow> user \<Rightarrow> ('w, nat) gate" where
  "authorized E u = bnd (gets (\<lambda>s. noAuthChallenge (req s))) (\<lambda>gui.
     if gui then authenticatedGuiRequest E u else authenticatedNonGuiRequest u)"

definition auth_loadUser :: "'w gateway_env \<Rightarrow> string \<Rightarrow> worker_session \<Rightarrow> ('w, nat) gate" where
  "auth_loadUser E n v = bnd (posts [200, 401] (Looked_up n) (backend_lookup E n)) (\<lambda>r. case r of
     Inr u \<Rightarrow> if usr_status u \<noteq> ''ACTIVE'' then ret 401
       else andthen (setRequestSession v) (authenticatedNonGuiRequest u)
   | Inl c \<Rightarrow> ret (if c = 401 then 401 else 500))"

definition task_owner :: "string \<times> string \<Rightarrow> string \<times> worker_session" where
  "task_owner = (\<lambda>(n, i). (n, \<lparr>wss_sessionId = None, wss_workerType = ''task'', wss_taskId = Some i\<rparr>))"

definition task_key_reply :: "(string \<times> string) reply \<times> 'w \<Rightarrow> (string \<times> worker_session) reply \<times> 'w" where
  "task_key_reply = (\<lambda>(r, w). (case r of Unreachable e \<Rightarrow> Unreachable e | Status c \<Rightarrow> Status c | Body o' \<Rightarrow> Body (task_owner o'), w))"

definition keyOwner :: "'w gateway_env \<Rightarrow> ('w \<Rightarrow> (string \<times> worker_session) reply \<times> 'w) \<Rightarrow> string \<Rightarrow> ('w, nat) gate" where
  "keyOwner E f apiKey = bnd (posts [200, 401] (\<lambda>(n, v). Key_owner apiKey n v) f) (\<lambda>r. case r of
     Inr (n, v) \<Rightarrow> auth_loadUser E n v
   | Inl c \<Rightarrow> ret (if c = 401 then 401 else 500))"

definition authenticateApiKey :: "'w gateway_env \<Rightarrow> string \<Rightarrow> ('w, nat) gate" where
  "authenticateApiKey E apiKey = keyOwner E
     (if starts_with TASK_API_KEY_PREFIX apiKey then (\<lambda>w. task_key_reply (task_key_owner E apiKey w))
      else session_key_owner E apiKey) apiKey"

definition authenticate :: "'w gateway_env \<Rightarrow> ('w, nat) gate" where
  "authenticate E = bnd (gets (\<lambda>s. getRequestHeaderCredentials (req s))) (\<lambda>c. case c of
     None \<Rightarrow> ret 401
   | Some (n, p) \<Rightarrow> if n \<noteq> []
       then bnd (posts [200, 401, 429] (Authenticated n p) (backend_authenticate E n p)) (\<lambda>r. case r of
           Inr u \<Rightarrow> authorized E u
         | Inl c \<Rightarrow> ret (if c = 401 then 401 else if c = 429 then 429 else 500))
       else authenticateApiKey E p)"

text \<open>The status; \<open>next\<close> is called with 200 alone.\<close>

definition authMiddleware :: "'w gateway_env \<Rightarrow> ('w, nat) gate" where
  "authMiddleware E = catching (bnd (gets (\<lambda>s. hasBasicAuthHeaders (req s))) (\<lambda>basic.
     if basic then authenticate E
     else bnd (isAuthenticated E) (\<lambda>known. ret (if known then 200 else 401)))) (\<lambda>_. ret 500)"

section \<open>Google tokens\<close>

definition REFRESH_IF_EXPIRES_IN_MINUTES :: int where "REFRESH_IF_EXPIRES_IN_MINUTES = 10"

definition getRefreshDelay :: "int \<Rightarrow> int \<Rightarrow> int" where
  "getRefreshDelay n expiry = max 0 (expiry - n - REFRESH_IF_EXPIRES_IN_MINUTES * 60000)"

definition isRefreshRequired :: "int \<Rightarrow> int \<Rightarrow> bool" where
  "isRefreshRequired n expiry \<longleftrightarrow> getRefreshDelay n expiry = 0"

definition updateGoogleAccessToken :: "'w gateway_env \<Rightarrow> user \<Rightarrow> ('w, user) gate" where
  "updateGoogleAccessToken E u = bnd (asks (refresh_tokens E u)) (\<lambda>r. case r of
     Unreachable e \<Rightarrow> throw e
   | Body t \<Rightarrow> ret (u\<lparr>usr_googleTokens := Some t\<rparr>)
   | Status c \<Rightarrow> if c \<noteq> 204 then throw ''empty response''
       else bnd (asks (revoke_access E u)) (\<lambda>r. case r of
           Body v \<Rightarrow> ret (v\<lparr>usr_googleTokens := None\<rparr>)
         | _ \<Rightarrow> throw ''not revoked''))"

definition googleAccessTokenMiddleware :: "'w gateway_env \<Rightarrow> ('w, unit) gate" where
  "googleAccessTokenMiddleware E = bnd (getRequestUser E) (\<lambda>u. bnd (gets gtime) (\<lambda>n.
     case Option.bind (Option.bind u usr_googleTokens) accessTokenExpiryDate of
       None \<Rightarrow> if u = None then throw ''no user'' else ret ()
     | Some expiry \<Rightarrow> if expiry \<noteq> 0 \<and> isRefreshRequired n expiry
         then catching (bnd (updateGoogleAccessToken E (the u)) (\<lambda>v.
             andthen (setRequestUser v) (bnd (setUser E v) (\<lambda>_. ret ())))) (\<lambda>_. ret ())
         else ret ()))"

section \<open>Endpoints\<close>

record endpoint =
  ep_path :: string
  ep_target :: string
  ep_ws :: bool
  ep_authenticate :: bool
  ep_noCache :: bool

definition auth_endpoint :: "string \<Rightarrow> string \<Rightarrow> endpoint" where
  "auth_endpoint p t = \<lparr>ep_path = p, ep_target = t, ep_ws = False, ep_authenticate = True, ep_noCache = False\<rparr>"

definition open_endpoint :: "string \<Rightarrow> string \<Rightarrow> endpoint" where
  "open_endpoint p t = (auth_endpoint p t)\<lparr>ep_authenticate := False\<rparr>"

text \<open>The targets: a module, and the path under it.\<close>

definition endpoints :: "endpoint list" where
  "endpoints =
    [auth_endpoint ''/api/gee'' ''gee'',
     auth_endpoint ''/api/ceo-gateway'' ''ceoGateway'',
     (auth_endpoint ''/api/terminal'' ''terminal'')\<lparr>ep_ws := True\<rparr>,
     open_endpoint ''/api/user/password/reset-request'' ''user/password/reset-request'',
     open_endpoint ''/api/user/validate'' ''user/validate'',
     open_endpoint ''/api/user/signup'' ''user/signup'',
     open_endpoint ''/api/user/google/access-request-callback'' ''user/google/access-request-callback'',
     auth_endpoint ''/api/user'' ''user'',
     auth_endpoint ''/api/processing-recipes'' ''recipe'',
     auth_endpoint ''/api/budget'' ''budget/budget'',
     auth_endpoint ''/api/message'' ''message'',
     (auth_endpoint ''/api/user-files'' ''userFiles'')\<lparr>ep_ws := True\<rparr>,
     auth_endpoint ''/api/storage'' ''storage'',
     auth_endpoint ''/api/tasks'' ''taskManager/tasks'',
     (open_endpoint ''/api/sessions/expiry'' ''worker/sessions/expiry'')\<lparr>ep_noCache := True\<rparr>,
     auth_endpoint ''/api/sessions'' ''worker/sessions'',
     auth_endpoint ''/api/scene-metadata'' ''sceneMetadata'',
     (open_endpoint ''/api/apps/list'' ''appManager/list'')\<lparr>ep_noCache := True\<rparr>,
     auth_endpoint ''/api/apps'' ''appManager'',
     auth_endpoint ''/api/app-manager'' ''appManager'',
     (auth_endpoint ''/api/app-launcher'' ''appLauncher'')\<lparr>ep_ws := True\<rparr>,
     auth_endpoint ''/api/email'' ''email'',
     auth_endpoint ''/api/docker/metrics'' ''docker/metrics'',
     auth_endpoint ''/api/worker/metrics'' ''worker/metrics'',
     (open_endpoint ''/privacy-policy'' ''gui/resource/privacy-policy.html'')\<lparr>ep_noCache := True\<rparr>]"

definition internalPaths :: "string list" where
  "internalPaths = [''/api/user/auth'', ''/api/user/nss'']"

text \<open>Mounting: the path itself and everything below it, in any case.\<close>

definition mounted :: "string \<Rightarrow> string \<Rightarrow> bool" where
  "mounted p path \<longleftrightarrow> starts_with (storedUsername p) (storedUsername path) \<and>
     (case drop (length p) path of [] \<Rightarrow> True | c # _ \<Rightarrow> c = CHR ''/'')"

definition posted :: "string \<Rightarrow> request \<Rightarrow> bool" where
  "posted p r \<longleftrightarrow> http_method r = ''POST'' \<and> storedUsername (url_path r) \<in> {p, p @ ''/''}"

section \<open>Metrics\<close>

definition ADMIN_ROLE :: string where "ADMIN_ROLE = ''application_admin''"

text \<open>The test of \<^verbatim>\<open>/^\/api\/[^/]+\/+metrics(\.json)?(\/|$)/i\<close>.\<close>

definition isMetricsPath :: "string \<Rightarrow> bool" where
  "isMetricsPath path = (let t = storedUsername path; rest = drop 5 t; below = dropWhile (\<lambda>c. c \<noteq> CHR ''/'') rest;
       page = dropWhile (\<lambda>c. c = CHR ''/'') below
     in starts_with ''/api/'' t \<and> rest \<noteq> [] \<and> hd rest \<noteq> CHR ''/'' \<and> below \<noteq> [] \<and>
        (mounted ''metrics'' page \<or> mounted ''metrics.json'' page))"

definition requireAdmin :: "'w gateway_env \<Rightarrow> ('w, bool) gate" where
  "requireAdmin E = bnd (getRequestUser E) (\<lambda>u. ret (case u of None \<Rightarrow> False | Some u \<Rightarrow> ADMIN_ROLE \<in> set (usr_roles u)))"

section \<open>Routes\<close>

datatype outcome =
    Responded nat
  | Own string                \<comment> \<open>a page the gateway answers itself\<close>
  | Forwarded endpoint "user header option" "worker_session header option"

text \<open>The path asked of the target: its own path, then what follows the endpoint's in the request.\<close>

definition ends_with :: "char \<Rightarrow> string \<Rightarrow> bool" where
  "ends_with c s \<longleftrightarrow> s \<noteq> [] \<and> last s = c"

definition pathRewrite :: "string \<Rightarrow> string \<Rightarrow> string \<Rightarrow> string" where
  "pathRewrite path targetPathname originalUrl =
     (let targetPath = if targetPathname = ''/'' then [] else targetPathname; rest = drop (length path) originalUrl;
          joinedPath = (if ends_with (CHR ''/'') targetPath \<and> starts_with ''/'' rest then targetPath @ drop 1 rest
            else targetPath @ rest)
      in if starts_with ''/'' joinedPath then joinedPath else CHR ''/'' # joinedPath)"

text \<open>What is forwarded: the request's headers, with the gateway's own set or removed.\<close>

definition proxyReq :: "'w gateway_env \<Rightarrow> endpoint \<Rightarrow> ('w, user header option \<times> worker_session header option) gate" where
  "proxyReq E e = bnd (getRequestUser E) (\<lambda>u. bnd (getRequestSession E) (\<lambda>v. bnd (gets (\<lambda>s. sepal_user (req s))) (\<lambda>h.
     ret (if ep_authenticate e \<and> u \<noteq> None then Some (Given (the u)) else h,
          if ep_authenticate e then map_option Given v else None))))"

text \<open>A middleware that answers itself unless its status is 200.\<close>

definition guarded :: "('w, nat) gate \<Rightarrow> ('w, outcome) gate \<Rightarrow> ('w, outcome) gate" where
  "guarded check k = bnd check (\<lambda>c. if c = 200 then k else ret (Responded c))"

definition with_google_tokens :: "'w gateway_env \<Rightarrow> ('w, outcome) gate \<Rightarrow> ('w, outcome) gate" where
  "with_google_tokens E k = bnd (catching (bnd (googleAccessTokenMiddleware E) (\<lambda>_. ret 200)) (\<lambda>_. ret 500))
     (\<lambda>c. if c = (200 :: nat) then k else ret (Responded c))"

definition proxy_to :: "'w gateway_env \<Rightarrow> endpoint \<Rightarrow> ('w, outcome) gate" where
  "proxy_to E e = (let k = bnd (proxyReq E e) (\<lambda>(u, v). ret (Forwarded e u v)) in
     if ep_authenticate e then guarded (authMiddleware E) (with_google_tokens E k) else k)"

definition proxyEndpoints :: "'w gateway_env \<Rightarrow> string \<Rightarrow> ('w, outcome) gate" where
  "proxyEndpoints E path = (if list_ex (\<lambda>p. mounted p path) internalPaths then ret (Responded 404)
     else case find (\<lambda>e. mounted (ep_path e) path) endpoints of None \<Rightarrow> ret (Responded 404) | Some e \<Rightarrow> proxy_to E e)"

definition after_metrics :: "'w gateway_env \<Rightarrow> string \<Rightarrow> ('w, outcome) gate" where
  "after_metrics E path =
     (if mounted ''/api/gateway/metrics'' path then ret (Own ''metrics'')
      else if mounted ''/api/sandbox/start'' path then guarded (authMiddleware E) (with_google_tokens E (ret (Own ''sandbox start'')))
      else if mounted ''/api/sandbox/interaction'' path then guarded (authMiddleware E) (ret (Own ''sandbox interaction''))
      else if mounted ''/api/sandbox/server'' path then guarded (authMiddleware E) (ret (Own ''sandbox server''))
      else if mounted ''/api/sandbox'' path then guarded (authMiddleware E) (with_google_tokens E (ret (Own ''sandbox'')))
      else proxyEndpoints E path)"

definition passwordReset :: "'w gateway_env \<Rightarrow> json \<Rightarrow> ('w, nat) gate" where
  "passwordReset E body = catching (bnd (posts [200, 400] Reset (backend_reset E body)) (\<lambda>r. case r of
     Inr u \<Rightarrow> andthen (startSession E u) (ret 200)
   | Inl c \<Rightarrow> ret c)) (\<lambda>_. ret 500)"

definition routes :: "'w gateway_env \<Rightarrow> json \<Rightarrow> ('w, outcome) gate" where
  "routes E body = bnd (gets req) (\<lambda>r. let path = url_path r in
     if posted ''/api/user/logout'' r then bnd (logout E) (\<lambda>c. ret (Responded c))
     else if posted ''/api/user/invalidateothersessions'' r then bnd (invalidateOtherSessions E) (\<lambda>c. ret (Responded c))
     else if posted ''/api/user/password/reset'' r then bnd (passwordReset E body) (\<lambda>c. ret (Responded c))
     else if isMetricsPath path
     then guarded (authMiddleware E) (bnd (requireAdmin E) (\<lambda>admin. if admin then after_metrics E path else ret (Responded 403)))
     else after_metrics E path)"

text \<open>An error that reaches the framework is answered with 500.\<close>

definition handle :: "'w gateway_env \<Rightarrow> json \<Rightarrow> ('w, outcome) gate" where
  "handle E body = catching (andthen (userMiddleware E) (routes E body)) (\<lambda>_. ret (Responded 500))"

section \<open>Upgrades\<close>

definition webSocketPath :: string where "webSocketPath = ''/api/ws''"

datatype upgrade = Refused string | Global_socket string string | To_sandbox string "user header option"
  | To_endpoint endpoint "user header option" "worker_session header option"

definition under :: "string \<Rightarrow> string \<Rightarrow> bool" where
  "under p path \<longleftrightarrow> path = p \<or> starts_with (p @ ''/'') path"

definition handleProxiedWebSocket :: "'w gateway_env \<Rightarrow> string \<Rightarrow> string \<Rightarrow> ('w, upgrade) gate" where
  "handleProxiedWebSocket E path n = (if isMetricsPath path then ret (Refused ''403 Forbidden'')
     else if under ''/api/sandbox'' path then bnd (gets (\<lambda>s. sepal_user (req s))) (\<lambda>h. ret (To_sandbox n h))
     else case find (\<lambda>e. ep_ws e \<and> (path = ep_path e \<or> isMatch E path (ep_path e @ ''/**''))) endpoints of
       None \<Rightarrow> ret (Refused ''404 Not Found'')
     | Some e \<Rightarrow> bnd (gets req) (\<lambda>r. ret (To_endpoint e (sepal_user r) (sepal_session r))))"

definition webSocketUpgradeHandler :: "'w gateway_env \<Rightarrow> ('w, upgrade) gate" where
  "webSocketUpgradeHandler E = bnd getSessionUsername (\<lambda>username. andthen removeRequestUser (andthen removeRequestSession
     (bnd (gets req) (\<lambda>r. case username of
        None \<Rightarrow> ret (Refused ''401 Unauthorized'')
      | Some n \<Rightarrow> if url_path r = webSocketPath then ret (Global_socket n (sessionID r))
          else catching (bnd (getUser E n) (\<lambda>u. if usr_status u = ''ACTIVE''
              then andthen (setRequestUser u) (handleProxiedWebSocket E (url_path r) n)
              else ret (Refused ''401 Unauthorized''))) (\<lambda>_. ret (Refused ''401 Unauthorized''))))))"

end
