(* ===== verification/GatewaySafety.thy ===== *)
theory GatewaySafety
  imports GatewayAuth
begin

text \<open>
  What the gateway promises the modules behind it: whom a forwarded request speaks for, that nothing a
  client writes into the gateway's headers is passed on, that metrics are for administrators, that a lock
  ends a user's sessions, and that a login as another user replaces the session.
\<close>

section \<open>What an operation leaves alone\<close>

definition same_request :: "request \<Rightarrow> request \<Rightarrow> bool" where
  "same_request r q \<longleftrightarrow> authorization q = authorization r \<and> url_path q = url_path r \<and> http_method q = http_method r"

definition extends :: "'w gateway \<Rightarrow> 'w gateway \<Rightarrow> bool" where
  "extends s t \<longleftrightarrow> (\<exists>new. answers t = answers s @ new) \<and> same_request (req s) (req t)"

definition beside :: "'w gateway \<Rightarrow> 'w gateway \<Rightarrow> bool" where
  "beside s t \<longleftrightarrow> extends s t \<and> sepal_user (req t) = sepal_user (req s) \<and> sepal_session (req t) = sepal_session (req s)"

interpretation ext: evolution extends
proof
  fix s t u :: "'w gateway"
  show "extends s s" by (simp add: extends_def same_request_def)
  assume "extends s t" "extends t u"
  then show "extends s u" unfolding extends_def same_request_def by fastforce
qed

interpretation bes: evolution beside
proof
  fix s t u :: "'w gateway"
  show "beside s s" by (simp add: beside_def ext.evolves_refl)
  assume "beside s t" "beside t u"
  then show "beside s u" unfolding beside_def using ext.evolves_trans by fastforce
qed

lemma beside_extends: "runs_in beside m \<Longrightarrow> runs_in extends m"
  by (auto simp: runs_in_def beside_def)

lemma beside_by:
  assumes "answers t = answers s" and "same_request (req s) (req t)" and "sepal_user (req t) = sepal_user (req s)"
    and "sepal_session (req t) = sepal_session (req s)"
  shows "beside s t"
  using assms by (simp add: beside_def extends_def)

lemma beside_basics [intro!]:
  "runs_in beside (asks f)" "runs_in beside (redis_call E)" "runs_in beside (noted a)" "runs_in beside (emit e)"
  by (auto simp: asks_def redis_call_def noted_def emit_def beside_def extends_def same_request_def
      intro!: bes.runs_in_bnd bes.runs_in_state_act bes.runs_in_modify split: prod.splits)

lemma beside_on_req [intro]:
  "(\<And>r. same_request r (f r) \<and> sepal_user (f r) = sepal_user r \<and> sepal_session (f r) = sepal_session r) \<Longrightarrow> runs_in beside (on_req f)"
  unfolding on_req_def by (intro bes.runs_in_modify beside_by) auto

lemma beside_calls [intro!]:
  "runs_in beside (posts valid note f)" "runs_in beside (handleUpdate p u)" "runs_in beside (setUser E u)"
  "runs_in beside (loadUser E n)" "runs_in beside (getUser E n)"
  unfolding posts_def handleUpdate_def setUser_def loadUser_def getUser_def Let_def
  by (auto intro!: bes.runs_in_bnd bes.runs_in_andthen bes.runs_in_state_act beside_by
      simp: same_request_def split: reply.splits sum.splits option.splits)

lemma beside_sessions [intro!]:
  "runs_in beside (store_destroy E i)" "runs_in beside (regenerate E)" "runs_in beside (ensureSessionFor E n)"
  "runs_in beside (setSessionUsername n)"
  unfolding store_destroy_def regenerate_def ensureSessionFor_def setSessionUsername_def getSessionUsername_def
  by (auto intro!: bes.runs_in_bnd bes.runs_in_andthen bes.runs_in_modify beside_by beside_on_req
      simp: same_request_def split: option.splits)


section \<open>Whom a request speaks for\<close>

text \<open>
  \<open>as\<close> are the answers the services gave while the request was handled, \<open>n\<close> a user name. A session
  speaks for the active user that the cache or the user module has under the session's name; presented
  credentials for the user they authenticate; an API key for its owner, when that user is active.
\<close>

definition by_session :: "request \<Rightarrow> (string \<Rightarrow> user option) \<Rightarrow> answer list \<Rightarrow> string \<Rightarrow> bool" where
  "by_session r cached as n \<longleftrightarrow> (\<exists>m v. named (session_username r) = Some m \<and> usr_status v = ''ACTIVE'' \<and>
     (cached (userKey m) = Some v \<or> Loaded m v \<in> set as) \<and> n = storedUsername (usr_username v))"

definition by_key :: "request \<Rightarrow> answer list \<Rightarrow> worker_session \<Rightarrow> string \<Rightarrow> bool" where
  "by_key r as w n \<longleftrightarrow> (\<exists>k owner v. getRequestHeaderCredentials r = Some ([], k) \<and> Key_owner k owner w \<in> set as \<and>
     Looked_up owner v \<in> set as \<and> usr_status v = ''ACTIVE'' \<and> n = storedUsername (usr_username v))"

definition by_credentials :: "request \<Rightarrow> answer list \<Rightarrow> string \<Rightarrow> bool" where
  "by_credentials r as n \<longleftrightarrow> (\<exists>m p v. getRequestHeaderCredentials r = Some (m, p) \<and> m \<noteq> [] \<and>
     Authenticated m p v \<in> set as \<and> n = storedUsername (usr_username v)) \<or> (\<exists>w. by_key r as w n)"

lemma by_mono:
  assumes "set as \<subseteq> set bs"
  shows "by_session r c as n \<Longrightarrow> by_session r c bs n" "by_key r as w n \<Longrightarrow> by_key r bs w n"
    "by_credentials r as n \<Longrightarrow> by_credentials r bs n"
  using assms unfolding by_session_def by_credentials_def by_key_def by blast+

lemma same_request_credentials [simp]:
  "same_request r q \<Longrightarrow> getRequestHeaderCredentials q = getRequestHeaderCredentials r"
  "same_request r q \<Longrightarrow> hasBasicAuthHeaders q = hasBasicAuthHeaders r"
  by (simp_all add: same_request_def getRequestHeaderCredentials_def hasBasicAuthHeaders_def)

text \<open>A posted answer is recorded.\<close>

lemma posts_body:
  assumes "posts valid note f s = (Inr (Inr b), t)"
  shows "answers t = answers s @ [note b] \<and> beside s t"
  using assms runs_inD_run [OF beside_calls(1), of valid "note" f s] 
  by (fastforce simp: posts_def asks_def noted_def effect_simps split: prod.splits reply.splits if_splits)

definition newly :: "'w gateway \<Rightarrow> 'w gateway \<Rightarrow> answer list" where
  "newly s t = drop (length (answers s)) (answers t)"

lemma newly_mono: "extends s t \<Longrightarrow> extends t u \<Longrightarrow> set (newly s t) \<subseteq> set (newly s u) \<and> set (newly t u) \<subseteq> set (newly s u)"
  by (auto simp: extends_def newly_def)

lemma startSession_sets:
  assumes "startSession E u s = (Inr (), t)"
  shows "sepal_user (req t) = Some (Given (userInfo_of u)) \<and> sepal_session (req t) = sepal_session (req s) \<and> extends s t"
proof -
  let ?before = "bnd (setUser E u) (\<lambda>_. andthen (ensureSessionFor E (usr_username u)) (setSessionUsername (usr_username u)))"
  have split: "startSession E u = andthen ?before (setRequestUser u)"
    by (simp add: startSession_def andthen_def bnd_assoc)
  obtain r' s' where b: "?before s = (r', s')" by fastforce
  have "runs_in beside ?before" by (intro bes.runs_in_bnd bes.runs_in_andthen beside_calls beside_sessions)
  from runs_inD_run [OF this b] have "beside s s'" .
  with b assms show ?thesis
    unfolding split by (auto simp: andthen_run setRequestUser_def on_req_def beside_def extends_def same_request_def split: sum.splits)
qed

lemma auth_loadUser_200:
  assumes "auth_loadUser E n v s = (Inr 200, t)"
  shows "\<exists>u. usr_status u = ''ACTIVE'' \<and> sepal_user (req t) = Some (Given (userInfo_of u)) \<and> sepal_session (req t) = Some (Given v) \<and>
    answers t = answers s @ [Looked_up n u] \<and> extends s t"
proof -
  from assms obtain r s' where p: "posts [200, 401] (Looked_up n) (backend_lookup E n) s = (Inr r, s')"
    unfolding auth_loadUser_def by (auto simp: bnd_run split: prod.splits sum.splits)
  with assms obtain u where r: "r = Inr u" "usr_status u = ''ACTIVE''"
    unfolding auth_loadUser_def by (auto simp: bnd_run split: sum.splits if_splits)
  from posts_body [OF p [unfolded r(1)]] assms p r show ?thesis
    unfolding auth_loadUser_def
    by (intro exI [of _ u]) (auto simp: bnd_run andthen_run setRequestSession_def authenticatedNonGuiRequest_def setRequestUser_def
        on_req_def beside_def extends_def same_request_def)
qed

lemma authenticateApiKey_200:
  assumes "authenticateApiKey E k s = (Inr 200, t)" and "getRequestHeaderCredentials (req s) = Some ([], k)"
  shows "\<exists>u v. sepal_user (req t) = Some (Given (userInfo_of u)) \<and> sepal_session (req t) = Some (Given v) \<and> extends s t \<and>
    by_key (req s) (newly s t) v (storedUsername (usr_username u))"
proof -
  define f where "f = (if starts_with TASK_API_KEY_PREFIX k then (\<lambda>w. task_key_reply (task_key_owner E k w)) else session_key_owner E k)"
  from assms(1) obtain r s' where p: "posts [200, 401] (\<lambda>(n, v). Key_owner k n v) f s = (Inr r, s')"
    unfolding authenticateApiKey_def keyOwner_def f_def [symmetric] by (auto simp: bnd_run split: prod.splits sum.splits)
  with assms(1) obtain n v where r: "r = Inr (n, v)" and l: "auth_loadUser E n v s' = (Inr 200, t)"
    unfolding authenticateApiKey_def keyOwner_def f_def [symmetric] by (auto simp: bnd_run split: sum.splits if_splits)
  from posts_body [OF p [unfolded r]] have p': "answers s' = answers s @ [Key_owner k n v]" "extends s s'"
    by (auto simp: beside_def)
  from auth_loadUser_200 [OF l] obtain u where u: "usr_status u = ''ACTIVE''" "sepal_user (req t) = Some (Given (userInfo_of u))"
    "sepal_session (req t) = Some (Given v)" "answers t = answers s' @ [Looked_up n u]" "extends s' t" by blast
  have "by_key (req s) (newly s t) v (storedUsername (usr_username u))"
    unfolding by_key_def newly_def using u p' assms(2) by auto
  with u p' show ?thesis using ext.evolves_trans by blast
qed

lemma authorized_200:
  assumes "authorized E u s = (Inr 200, t)"
  shows "sepal_user (req t) = Some (Given (userInfo_of u)) \<and> sepal_session (req t) = sepal_session (req s) \<and> extends s t"
  using assms startSession_sets [of E u s]
  unfolding authorized_def authenticatedGuiRequest_def authenticatedNonGuiRequest_def
  by (auto simp: bnd_run andthen_run setRequestUser_def on_req_def extends_def same_request_def split: if_splits sum.splits prod.splits)


text \<open>
  \<open>fresh_request s t\<close>: \<open>t\<close> follows \<open>s\<close> and its headers name at most the session's user; \<open>cleared s t\<close>: its
  headers name the user the request is authenticated as.
\<close>

definition fresh_request :: "'w gateway \<Rightarrow> 'w gateway \<Rightarrow> bool" where
  "fresh_request s t \<longleftrightarrow> extends s t \<and> sepal_session (req t) = None \<and> (case sepal_user (req t) of None \<Rightarrow> True
     | Some (Sent _) \<Rightarrow> False
     | Some (Given u) \<Rightarrow> by_session (req s) (user_cache s) (newly s t) (usr_username u))"

definition cleared :: "'w gateway \<Rightarrow> 'w gateway \<Rightarrow> bool" where
  "cleared s t \<longleftrightarrow> extends s t \<and> (case sepal_user (req t) of Some (Given u) \<Rightarrow>
       (if hasBasicAuthHeaders (req s) then by_credentials (req s) (newly s t) (usr_username u)
        else by_session (req s) (user_cache s) (newly s t) (usr_username u)) \<and>
       (case sepal_session (req t) of None \<Rightarrow> True
        | Some (Given w) \<Rightarrow> hasBasicAuthHeaders (req s) \<and> by_key (req s) (newly s t) w (usr_username u)
        | Some (Sent _) \<Rightarrow> False)
     | _ \<Rightarrow> False)"

lemma userInfo_name [simp]: "usr_username (userInfo_of u) = storedUsername (usr_username u)"
  by (simp add: userInfo_of_def)

lemma fresh_beside: "fresh_request s t \<Longrightarrow> beside t u \<Longrightarrow> fresh_request s u"
  unfolding fresh_request_def beside_def
  using ext.evolves_trans [of s t u] newly_mono [of s t u] by (auto split: option.splits header.splits intro: by_mono)

lemma cleared_by:
  assumes "extends s t" and "sepal_user (req t) = Some (Given u)" and "sepal_session (req t) = None \<or> sepal_session (req t) = Some (Given w)"
    and "if hasBasicAuthHeaders (req s) then by_credentials (req s) (newly s t) (usr_username u)
      else by_session (req s) (user_cache s) (newly s t) (usr_username u)"
    and "sepal_session (req t) \<noteq> None \<Longrightarrow> hasBasicAuthHeaders (req s) \<and> by_key (req s) (newly s t) w (usr_username u)"
  shows "cleared s t"
  using assms by (auto simp: cleared_def)

lemma cleared_beside:
  assumes "cleared s t" and "beside t u"
  shows "cleared s u"
proof -
  from assms have e: "extends s t" "extends t u" by (auto simp: cleared_def beside_def)
  note m = by_mono [OF conjunct1 [OF newly_mono [OF e]]]
  from assms e show ?thesis
    unfolding cleared_def beside_def
    by (auto split: option.splits header.splits if_splits intro: m ext.evolves_trans)
qed

lemma authenticate_200:
  assumes "authenticate E s = (Inr 200, t)"
  shows "\<exists>u. sepal_user (req t) = Some (Given u) \<and> by_credentials (req s) (newly s t) (usr_username u) \<and> extends s t \<and>
    ((\<exists>m p. getRequestHeaderCredentials (req s) = Some (m, p) \<and> m \<noteq> []) \<and> sepal_session (req t) = sepal_session (req s) \<or>
     (\<exists>w. sepal_session (req t) = Some (Given w) \<and> by_key (req s) (newly s t) w (usr_username u)))"
proof -
  from assms obtain m p where c: "getRequestHeaderCredentials (req s) = Some (m, p)"
    unfolding authenticate_def by (auto simp: bnd_run split: option.splits)
  show ?thesis
  proof (cases "m = []")
    case True
    with assms c have "authenticateApiKey E p s = (Inr 200, t)" unfolding authenticate_def by (simp add: bnd_run)
    from authenticateApiKey_200 [OF this] c True show ?thesis
      unfolding by_credentials_def by fastforce
  next
    case False
    from assms c False obtain r s' where q: "posts [200, 401, 429] (Authenticated m p) (backend_authenticate E m p) s = (Inr r, s')"
      unfolding authenticate_def by (auto simp: bnd_run split: prod.splits sum.splits)
    with assms c False obtain u where r: "r = Inr u" and a: "authorized E u s' = (Inr 200, t)"
      unfolding authenticate_def by (auto simp: bnd_run split: sum.splits if_splits)
    from posts_body [OF q [unfolded r]] have p': "answers s' = answers s @ [Authenticated m p u]" "beside s s'" by auto
    note z = authorized_200 [OF a]
    have e: "extends s s'" "extends s' t" using p' z by (auto simp: beside_def)
    have "Authenticated m p u \<in> set (newly s s')" using p'(1) by (simp add: newly_def)
    then have "Authenticated m p u \<in> set (newly s t)" using newly_mono [OF e] by blast
    then have "by_credentials (req s) (newly s t) (usr_username (userInfo_of u))"
      unfolding by_credentials_def using c False by auto
    with z p' e c False show ?thesis
      by (intro exI [of _ "userInfo_of u"]) (auto simp: beside_def intro: ext.evolves_trans)
  qed
qed

lemma session_header:
  assumes "fresh_request s t \<or> cleared s t"
  shows "sepal_session (req t) = None \<or> (\<exists>w n. sepal_session (req t) = Some (Given w) \<and> by_key (req s) (newly s t) w n)"
proof (cases "sepal_session (req t)")
  case (Some h)
  with assms have "cleared s t" by (simp add: fresh_request_def)
  with Some show ?thesis by (cases h) (auto simp: cleared_def split: option.splits header.splits)
qed simp

lemma authMiddleware_cleared:
  assumes "authMiddleware E t = (Inr 200, u)" and "fresh_request s t \<or> cleared s t"
  shows "cleared s u"
proof (cases "hasBasicAuthHeaders (req t)")
  case True
  with assms(1) have "authenticate E t = (Inr 200, u)"
    unfolding authMiddleware_def by (auto simp: catching_run bnd_run split: prod.splits sum.splits)
  from authenticate_200 [OF this] obtain v where v: "sepal_user (req u) = Some (Given v)"
    "by_credentials (req t) (newly t u) (usr_username v)" "extends t u"
    "(\<exists>m p. getRequestHeaderCredentials (req t) = Some (m, p) \<and> m \<noteq> []) \<and> sepal_session (req u) = sepal_session (req t) \<or>
     (\<exists>w. sepal_session (req u) = Some (Given w) \<and> by_key (req t) (newly t u) w (usr_username v))" by blast
  have e: "extends s t" using assms(2) by (auto simp: fresh_request_def cleared_def)
  then have r: "same_request (req s) (req t)" by (simp add: extends_def)
  have creds: "getRequestHeaderCredentials (req t) = getRequestHeaderCredentials (req s)" "hasBasicAuthHeaders (req s)"
    using r True by auto
  note m = by_mono [OF conjunct2 [OF newly_mono [OF e v(3)]]]
  have c: "by_credentials (req s) (newly s u) (usr_username v)"
    using m(3) [OF v(2)] creds unfolding by_credentials_def by_key_def by simp
  have su: "extends s u" using e v(3) by (rule ext.evolves_trans)
  from v(4) show ?thesis
  proof
    assume named: "(\<exists>m p. getRequestHeaderCredentials (req t) = Some (m, p) \<and> m \<noteq> []) \<and> sepal_session (req u) = sepal_session (req t)"
    then have "\<not> by_key (req s) as w n" for as w n unfolding by_key_def using creds(1) by auto
    with session_header [OF assms(2)] have "sepal_session (req t) = None" by blast
    with named su v(1) c creds(2) show ?thesis by (intro cleared_by) auto
  next
    assume "\<exists>w. sepal_session (req u) = Some (Given w) \<and> by_key (req t) (newly t u) w (usr_username v)"
    then obtain w where w: "sepal_session (req u) = Some (Given w)" "by_key (req t) (newly t u) w (usr_username v)" by blast
    from m(2) [OF w(2)] creds(1) have "by_key (req s) (newly s u) w (usr_username v)" unfolding by_key_def by simp
    with su v(1) c w(1) creds(2) show ?thesis by (intro cleared_by) auto
  qed
next
  case False
  with assms(1) have t: "u = t" and known: "deserialize (parse_user E) (sepal_user (req t)) \<noteq> None"
    unfolding authMiddleware_def isAuthenticated_def getRequestUser_def
    by (auto simp: catching_run bnd_run split: if_splits)
  have r: "same_request (req s) (req t)" using assms(2) by (auto simp: fresh_request_def cleared_def extends_def)
  from assms(2) show ?thesis
  proof
    assume "fresh_request s t"
    with known False r t show ?thesis
      by (auto simp: fresh_request_def cleared_def deserialize_def split: option.splits header.splits)
  qed (simp add: t)
qed


lemma getUser_from:
  assumes "getUser E n s = (Inr u, t)"
  shows "(user_cache s (userKey n) = Some u \<or> (\<exists>v. Loaded n v \<in> set (newly s t) \<and> u = storedUser v)) \<and> beside s t"
proof -
  from assms obtain s1 where s1: "redis_call E s = (Inr (), s1)" unfolding getUser_def by (auto simp: andthen_run split: prod.splits sum.splits)
  then have c: "user_cache s1 = user_cache s" "answers s1 = answers s"
    by (auto simp: redis_call_def asks_def effect_simps split: prod.splits if_splits)
  have b: "beside s t" using runs_inD_run [OF beside_calls(5) assms] .
  show ?thesis
  proof (cases "user_cache s1 (userKey n)")
    case (Some v)
    with assms s1 c b show ?thesis unfolding getUser_def by (simp add: andthen_run bnd_run)
  next
    case None
    with assms s1 have l: "bnd (loadUser E n) (setUser E) s1 = (Inr u, t)" unfolding getUser_def by (simp add: andthen_run bnd_run)
    then obtain v s2 where v: "loadUser E n s1 = (Inr v, s2)" and st: "setUser E v s2 = (Inr u, t)"
      by (auto simp: bnd_run split: prod.splits sum.splits)
    from v obtain q where "posts [] (Loaded n) (backend_user E n) s1 = (Inr q, s2)" "q = Inr v"
      unfolding loadUser_def by (auto simp: bnd_run split: prod.splits sum.splits)
    with posts_body [of "[]" "Loaded n" "backend_user E n" s1 v s2] have a: "answers s2 = answers s1 @ [Loaded n v]" by simp
    have "u = storedUser v" using st unfolding setUser_def by (auto simp: andthen_run bnd_run state_act_run split: prod.splits sum.splits)
    moreover have "beside s2 t" using runs_inD_run [OF beside_calls(3) st] .
    with a c have "Loaded n v \<in> set (newly s t)" by (auto simp: newly_def beside_def extends_def)
    ultimately show ?thesis using b by blast
  qed
qed

lemma userMiddleware_fresh:
  assumes "userMiddleware E s = (Inr (), t)"
  shows "fresh_request s t"
proof -
  let ?s = "s\<lparr>req := (req s)\<lparr>sepal_user := None, sepal_session := None\<rparr>\<rparr>"
  have e: "extends s ?s" by (simp add: extends_def same_request_def)
  have f: "fresh_request s ?s" using e by (simp add: fresh_request_def)
  show ?thesis
  proof (cases "named (session_username (req s))")
    case None
    with assms have "t = ?s"
      by (simp add: userMiddleware_def getSessionUsername_def bnd_run andthen_run removeRequestUser_def removeRequestSession_def on_req_def)
    with f show ?thesis by simp
  next
    case (Some n)
    with assms obtain u s' where g: "getUser E n ?s = (Inr u, s')"
      and t: "(if usr_status u = ''ACTIVE'' then setRequestUser u else ret ()) s' = (Inr (), t)"
      by (auto simp: userMiddleware_def getSessionUsername_def bnd_run andthen_run removeRequestUser_def removeRequestSession_def
          on_req_def split: prod.splits sum.splits)
    from getUser_from [OF g] have u: "user_cache s (userKey n) = Some u \<or> (\<exists>v. Loaded n v \<in> set (newly s s') \<and> u = storedUser v)"
      and b: "beside ?s s'" by (auto simp: newly_def)
    from f b have f': "fresh_request s s'" by (rule fresh_beside)
    show ?thesis
    proof (cases "usr_status u = ''ACTIVE''")
      case True
      then have "by_session (req s) (user_cache s) (newly s s') (storedUsername (usr_username u))"
        unfolding by_session_def using u Some by (auto simp: storedUser_def)
      with f' True t show ?thesis
        by (auto simp: fresh_request_def setRequestUser_def on_req_def extends_def same_request_def newly_def)
    qed (use t f' in simp)
  qed
qed

text \<open>The user module's answer to a revocation is the user it was asked about.\<close>

definition revokes_same :: "'w gateway_env \<Rightarrow> bool" where
  "revokes_same E \<longleftrightarrow> (\<forall>u w v w'. revoke_access E u w = (Body v, w') \<longrightarrow> storedUsername (usr_username v) = storedUsername (usr_username u))"

lemma revoked_name: "revokes_same E \<Longrightarrow> revoke_access E u w = (Body v, w') \<Longrightarrow> storedUsername (usr_username v) = storedUsername (usr_username u)"
  unfolding revokes_same_def by blast

lemma updateGoogleAccessToken_same:
  assumes "updateGoogleAccessToken E u s = (Inr v, t)" and "revokes_same E"
  shows "storedUsername (usr_username v) = storedUsername (usr_username u) \<and> beside s t"
proof
  have "runs_in beside (updateGoogleAccessToken E u)"
    unfolding updateGoogleAccessToken_def by (auto intro!: bes.runs_in_bnd split: reply.splits)
  from runs_inD_run [OF this assms(1)] show "beside s t" .
  show "storedUsername (usr_username v) = storedUsername (usr_username u)"
    using assms by (auto simp: updateGoogleAccessToken_def asks_def effect_simps revoked_name split: prod.splits reply.splits if_splits)
qed

lemma cleared_name: "cleared s t \<Longrightarrow> sepal_user (req t) = Some (Given u) \<Longrightarrow> storedUsername (usr_username u) = usr_username u"
  by (auto simp: cleared_def by_session_def by_credentials_def by_key_def split: if_splits)

lemma cleared_set:
  assumes "cleared s t" and "sepal_user (req t) = Some (Given u)" and "storedUsername (usr_username v) = storedUsername (usr_username u)"
    and "setRequestUser v t = (r, t')"
  shows "cleared s t'"
proof -
  from cleared_name [OF assms(1,2)] assms(3) have n: "storedUsername (usr_username v) = usr_username u" by simp
  have t': "t' = t\<lparr>req := (req t)\<lparr>sepal_user := Some (Given (userInfo_of v))\<rparr>\<rparr>"
    using assms(4) by (simp add: setRequestUser_def on_req_def)
  then have same: "newly s t' = newly s t" "extends s t' = extends s t" "sepal_session (req t') = sepal_session (req t)"
      "sepal_user (req t') = Some (Given (userInfo_of v))"
    by (simp_all add: newly_def extends_def same_request_def)
  from assms(1,2) show ?thesis
    unfolding cleared_def same by (simp add: n split: option.splits header.splits)
qed

lemma google_cleared:
  assumes "googleAccessTokenMiddleware E t = (r, t')" and "cleared s t" and "revokes_same E"
  shows "cleared s t'"
proof -
  from assms(2) obtain u where u: "sepal_user (req t) = Some (Given u)" by (auto simp: cleared_def split: option.splits header.splits)
  let ?refresh = "bnd (updateGoogleAccessToken E u) (\<lambda>v. andthen (setRequestUser v) (bnd (setUser E v) (\<lambda>_. ret ())))"
  have refreshed: "cleared s t''" if "?refresh t = (q, t'')" for q t''
  proof -
    obtain q1 t1 where t1: "updateGoogleAccessToken E u t = (q1, t1)" by fastforce
    have "runs_in beside (updateGoogleAccessToken E u)"
      unfolding updateGoogleAccessToken_def by (auto intro!: bes.runs_in_bnd split: reply.splits)
    from runs_inD_run [OF this t1] have b: "beside t t1" .
    with assms(2) have c: "cleared s t1" by (rule cleared_beside)
    show ?thesis
    proof (cases q1)
      case (Inl e)
      with that t1 c show ?thesis by (simp add: bnd_run)
    next
      case (Inr v)
      from b u have u': "sepal_user (req t1) = Some (Given u)" by (simp add: beside_def)
      obtain q2 t2 where t2: "setRequestUser v t1 = (q2, t2)" by fastforce
      have "storedUsername (usr_username v) = storedUsername (usr_username u)"
        using updateGoogleAccessToken_same [of E u t v t1] t1 Inr assms(3) by simp
      from cleared_set [OF c u' this t2] have c2: "cleared s t2" .
      have "beside t2 (snd (bnd (setUser E v) (\<lambda>_. ret ()) t2))"
        by (rule runs_inD) (intro bes.runs_in_bnd beside_calls bes.runs_in_ret)
      from cleared_beside [OF c2 this] that t1 t2 Inr show ?thesis
        by (auto simp: bnd_run andthen_run setRequestUser_def on_req_def)
    qed
  qed
  have k: "deserialize (parse_user E) (sepal_user (req t)) = Some u" using u by (simp add: deserialize_def)
  obtain q t'' where q: "?refresh t = (q, t'')" by fastforce
  from refreshed [OF q] q assms(1,2) k show ?thesis
    by (auto simp: googleAccessTokenMiddleware_def getRequestUser_def bnd_run catching_run split: option.splits if_splits sum.splits)
qed


section \<open>Forwarding\<close>

text \<open>What the headers of a forwarded request say, given the exchange \<open>s\<close> it started from and its end \<open>t\<close>.\<close>

definition speaks :: "'w gateway \<Rightarrow> 'w gateway \<Rightarrow> endpoint \<Rightarrow> user header option \<Rightarrow> bool" where
  "speaks s t e h \<longleftrightarrow> (case h of
     None \<Rightarrow> \<not> ep_authenticate e
   | Some (Sent _) \<Rightarrow> False
   | Some (Given u) \<Rightarrow> let session = by_session (req s) (user_cache s) (newly s t) (usr_username u);
         credentials = by_credentials (req s) (newly s t) (usr_username u) in
       if ep_authenticate e then if hasBasicAuthHeaders (req s) then credentials else session
       else session \<or> credentials)"

definition attributes :: "'w gateway \<Rightarrow> 'w gateway \<Rightarrow> endpoint \<Rightarrow> user header option \<Rightarrow> worker_session header option \<Rightarrow> bool" where
  "attributes s t e h v \<longleftrightarrow> (case v of
     None \<Rightarrow> True
   | Some (Sent _) \<Rightarrow> False
   | Some (Given w) \<Rightarrow> ep_authenticate e \<and> (case h of
       Some (Given u) \<Rightarrow> by_key (req s) (newly s t) w (usr_username u)
     | _ \<Rightarrow> False))"

definition forwards :: "'w gateway \<Rightarrow> 'w gateway \<Rightarrow> outcome \<Rightarrow> bool" where
  "forwards s t out \<longleftrightarrow> (case out of Forwarded e h v \<Rightarrow> speaks s t e h \<and> attributes s t e h v | _ \<Rightarrow> True)"

lemma forwards_other [simp]: "forwards s t (Responded c)" "forwards s t (Own p)"
  by (simp_all add: forwards_def)

lemma proxyReq_run:
  "proxyReq E e t = (Inr (if ep_authenticate e \<and> deserialize (parse_user E) (sepal_user (req t)) \<noteq> None
      then map_option Given (deserialize (parse_user E) (sepal_user (req t))) else sepal_user (req t),
     if ep_authenticate e then map_option Given (deserialize (parse_session E) (sepal_session (req t))) else None), t)"
  by (auto simp: proxyReq_def getRequestUser_def getRequestSession_def bnd_run split: option.splits)

lemma cleared_user:
  assumes "cleared s t"
  shows "\<exists>u. sepal_user (req t) = Some (Given u) \<and>
    (if hasBasicAuthHeaders (req s) then by_credentials (req s) (newly s t) (usr_username u)
     else by_session (req s) (user_cache s) (newly s t) (usr_username u))"
proof (cases "sepal_user (req t)")
  case (Some h)
  with assms show ?thesis by (cases h) (simp_all add: cleared_def)
qed (use assms in \<open>simp add: cleared_def\<close>)

lemma cleared_forwards:
  assumes "cleared s t" and "ep_authenticate e" and "proxyReq E e t = (Inr (h, v), u)"
  shows "forwards s u (Forwarded e h v)"
proof -
  from assms(1) obtain x where x: "sepal_user (req t) = Some (Given x)" by (auto simp: cleared_def split: option.splits header.splits)
  from assms(2,3) x have hv: "h = Some (Given x)" "v = map_option Given (deserialize (parse_session E) (sepal_session (req t)))" "u = t"
    by (auto simp: proxyReq_run deserialize_def)
  show ?thesis
  proof (cases "sepal_session (req t)")
    case None
    with x hv assms(1,2) show ?thesis
      by (simp add: forwards_def speaks_def attributes_def cleared_def deserialize_def Let_def)
  next
    case (Some q)
    with session_header [OF disjI2 [OF assms(1)]] obtain w where "q = Given w" by auto
    with Some x hv assms(1,2) show ?thesis
      by (simp add: forwards_def speaks_def attributes_def cleared_def deserialize_def Let_def)
  qed
qed

lemma open_forwards:
  assumes "fresh_request s t \<or> cleared s t" and "\<not> ep_authenticate e" and "proxyReq E e t = (Inr (h, v), u)"
  shows "forwards s u (Forwarded e h v)"
proof -
  have "h = sepal_user (req t)" "v = None" "u = t" using assms(2,3) by (auto simp: proxyReq_run)
  from assms(1) show ?thesis
  proof
    assume "fresh_request s t"
    with \<open>h = _\<close> \<open>v = _\<close> \<open>u = t\<close> assms(2) show ?thesis
      by (auto simp: forwards_def speaks_def attributes_def fresh_request_def Let_def split: option.splits header.splits)
  next
    assume "cleared s t"
    from cleared_user [OF this] \<open>h = _\<close> \<open>v = _\<close> \<open>u = t\<close> assms(2) show ?thesis
      by (auto simp: forwards_def speaks_def attributes_def Let_def split: if_splits)
  qed
qed

lemma guarded_cleared:
  assumes "guarded (authMiddleware E) k t = (Inr out, u)" and "fresh_request s t \<or> cleared s t"
    and "\<And>t' out u. cleared s t' \<Longrightarrow> k t' = (Inr out, u) \<Longrightarrow> forwards s u out"
  shows "forwards s u out"
proof -
  obtain c t' where c: "authMiddleware E t = (Inr c, t')" and k: "(if c = 200 then k else ret (Responded c)) t' = (Inr out, u)"
    using assms(1) by (auto simp: guarded_def bnd_run split: prod.splits sum.splits)
  with authMiddleware_cleared [of E t t' s] assms(2,3) show ?thesis by (auto split: if_splits)
qed

lemma google_then:
  assumes "with_google_tokens E k t = (Inr out, u)" and "cleared s t" and "revokes_same E"
    and "\<And>t' out u. cleared s t' \<Longrightarrow> k t' = (Inr out, u) \<Longrightarrow> forwards s u out"
  shows "forwards s u out"
proof -
  obtain r t' where g: "googleAccessTokenMiddleware E t = (r, t')" by fastforce
  from google_cleared [OF this assms(2,3)] have "cleared s t'" .
  with assms(1,4) g show ?thesis
    by (auto simp: with_google_tokens_def bnd_run catching_run split: sum.splits if_splits)
qed

lemma proxy_to_forwards:
  assumes "proxy_to E e t = (Inr out, u)" and "fresh_request s t \<or> cleared s t" and "revokes_same E"
  shows "forwards s u out"
proof -
  let ?k = "bnd (proxyReq E e) (\<lambda>(u, v). ret (Forwarded e u v))"
  show ?thesis
  proof (cases "ep_authenticate e")
    case True
    with assms(1) have g: "guarded (authMiddleware E) (with_google_tokens E ?k) t = (Inr out, u)" by (simp add: proxy_to_def)
    have k: "forwards s u' out'" if "cleared s t'" "?k t' = (Inr out', u')" for t' out' u'
      using cleared_forwards [OF that(1) True, of E] that(2) by (auto simp: bnd_run split: prod.splits sum.splits)
    show ?thesis
      by (rule guarded_cleared [OF g assms(2)]) (erule google_then [OF _ _ assms(3) k])
  next
    case False
    with assms open_forwards [OF assms(2) False, of E] show ?thesis
      by (auto simp: proxy_to_def bnd_run split: prod.splits sum.splits)
  qed
qed

lemma after_metrics_forwards:
  assumes "after_metrics E path t = (Inr out, u)" and "fresh_request s t \<or> cleared s t" and "revokes_same E"
  shows "forwards s u out"
proof -
  have own: "forwards s u out" if "guarded (authMiddleware E) k t = (Inr out, u)"
    and "k = with_google_tokens E (ret (Own p)) \<or> k = ret (Own p)" for k p
    using that(1) assms(2)
  proof (rule guarded_cleared)
    fix t' out' u' assume c: "cleared s t'" and k: "k t' = (Inr out', u')"
    from that(2) show "forwards s u' out'"
    proof
      assume "k = with_google_tokens E (ret (Own p))"
      with k have "with_google_tokens E (ret (Own p)) t' = (Inr out', u')" by simp
      then show ?thesis by (rule google_then [OF _ c assms(3)]) auto
    qed (use k in auto)
  qed
  show ?thesis
    using assms(1) proxy_to_forwards [OF _ assms(2,3)] own [OF _ disjI1 [OF refl]] own [OF _ disjI2 [OF refl]]
    by (auto simp: after_metrics_def proxyEndpoints_def split: if_splits option.splits)
qed

text \<open>
  C19: a forwarded request carries a user only as the gateway set it, never as the client wrote it: on an
  authenticated endpoint the user that the presented credentials, or else the active user that the login
  session stands for; and it carries a worker session only on an authenticated endpoint and only as the
  presented API key's owner, who is then the request's user.
\<close>
theorem forwarded_identity:
  assumes "revokes_same E" and "handle E body s = (Inr (Forwarded e h v), t)"
  shows "speaks s t e h \<and> attributes s t e h v"
proof -
  from assms(2) obtain r t1 where m: "userMiddleware E s = (r, t1)" by fastforce
  with assms(2) have r: "r = Inr ()" by (cases r) (auto simp: handle_def catching_run andthen_run)
  with m have f: "fresh_request s t1" by (simp add: userMiddleware_fresh)
  from assms(2) m r have routed: "routes E body t1 = (Inr (Forwarded e h v), t)"
    by (auto simp: handle_def catching_run andthen_run split: prod.splits sum.splits)
  let ?path = "url_path (req t1)"
  let ?k = "bnd (requireAdmin E) (\<lambda>admin. if admin then after_metrics E ?path else ret (Responded 403))"
  have k: "forwards s u' out'" if "cleared s t'" "?k t' = (Inr out', u')" for t' out' u'
    using that after_metrics_forwards [OF _ _ assms(1), of ?path t' out' u' s]
    by (auto simp: bnd_run requireAdmin_def getRequestUser_def split: if_splits)
  from routed consider "guarded (authMiddleware E) ?k t1 = (Inr (Forwarded e h v), t)" | "after_metrics E ?path t1 = (Inr (Forwarded e h v), t)"
    by (auto simp: routes_def bnd_run Let_def split: if_splits prod.splits sum.splits)
  then have "forwards s t (Forwarded e h v)"
  proof cases
    case 1
    then show ?thesis by (rule guarded_cleared [OF _ _ k]) (use f in auto)
  next
    case 2
    with after_metrics_forwards [OF _ _ assms(1)] f show ?thesis by blast
  qed
  then show ?thesis by (simp add: forwards_def)
qed


definition bob_user :: "string \<Rightarrow> user" where
  "bob_user status = \<lparr>usr_id = JNum 7, usr_username = ''Bob'', usr_googleTokens = None, usr_status = status, usr_roles = [],
     usr_systemUser = False, usr_admin = False, usr_details = []\<rparr>"

definition lab_env :: "unit gateway_env" where
  "lab_env = \<lparr>redis_ok = (\<lambda>w. (True, w)), newSessionId = (\<lambda>w. (''s2'', w)), parse_user = (\<lambda>_. None), parse_session = (\<lambda>_. None),
     isMatch = (\<lambda>_ _. False), backend_user = (\<lambda>n w. (Body (bob_user ''ACTIVE''), w)),
     backend_authenticate = (\<lambda>n p w. (Status 401, w)), session_key_owner = (\<lambda>k w. (Status 401, w)),
     task_key_owner = (\<lambda>k w. (Body (''Bob'', ''i''), w)), backend_lookup = (\<lambda>n w. (Body (bob_user ''ACTIVE''), w)),
     backend_reset = (\<lambda>b w. (Status 400, w)), refresh_tokens = (\<lambda>u w. (Status 204, w)), revoke_access = (\<lambda>u w. (Body u, w))\<rparr>"

definition asking :: "string \<Rightarrow> string option \<Rightarrow> request" where
  "asking path auth = \<lparr>http_method = ''GET'', url_path = path, sessionID = ''s1'', session_username = None,
     sepal_user = Some (Sent ''eve''), sepal_session = Some (Sent ''eve''), authorization = auth, noAuthChallenge = False,
     login_stored = False, on_finish = []\<rparr>"

definition at_gate :: "request \<Rightarrow> unit gateway" where
  "at_gate r = \<lparr>user_cache = (\<lambda>_. None), login_sessions = [(''s1'', Some ''eve'')], events = [], answers = [], req = r, gtime = 0,
     services = ()\<rparr>"


definition task_request :: request where
  "task_request = asking ''/api/tasks/task/i'' (Some ''Basic OnRhc2tfMQ=='')"

definition task_headers :: "user header option \<times> worker_session header option" where
  "task_headers = (Some (Given (userInfo_of (bob_user ''ACTIVE''))),
     Some (Given \<lparr>wss_sessionId = None, wss_workerType = ''task'', wss_taskId = Some ''i''\<rparr>))"

lemma task_request_forwarded:
  "fst (handle lab_env JNull (at_gate task_request)) =
     Inr (Forwarded (auth_endpoint ''/api/tasks'' ''taskManager/tasks'') (fst task_headers) (snd task_headers))"
  by code_simp

theorem forwarded_identity_witness:
  "speaks (at_gate task_request) (snd (handle lab_env JNull (at_gate task_request))) (auth_endpoint ''/api/tasks'' ''taskManager/tasks'')
     (fst task_headers) \<and>
   attributes (at_gate task_request) (snd (handle lab_env JNull (at_gate task_request)))
     (auth_endpoint ''/api/tasks'' ''taskManager/tasks'') (fst task_headers) (snd task_headers)"
proof (rule forwarded_identity)
  show "revokes_same lab_env" by (simp add: revokes_same_def lab_env_def)
  show "handle lab_env JNull (at_gate task_request) =
    (Inr (Forwarded (auth_endpoint ''/api/tasks'' ''taskManager/tasks'') (fst task_headers) (snd task_headers)),
     snd (handle lab_env JNull (at_gate task_request)))"
    using task_request_forwarded by (metis prod.collapse)
qed

section \<open>Metrics\<close>

lemma isMetricsPath_lower: "isMetricsPath (storedUsername p) = isMetricsPath p"
  by (simp add: isMetricsPath_def)

lemma posted_not_metrics:
  assumes "posted p r" and "p \<in> {''/api/user/logout'', ''/api/user/invalidateothersessions'', ''/api/user/password/reset''}"
  shows "\<not> isMetricsPath (url_path r)"
proof -
  have "\<not> isMetricsPath ''/api/user/logout''" "\<not> isMetricsPath ''/api/user/logout/''"
    "\<not> isMetricsPath ''/api/user/invalidateothersessions''" "\<not> isMetricsPath ''/api/user/invalidateothersessions/''"
    "\<not> isMetricsPath ''/api/user/password/reset''" "\<not> isMetricsPath ''/api/user/password/reset/''"
    by code_simp+
  with assms isMetricsPath_lower [of "url_path r"] show ?thesis by (auto simp: posted_def)
qed

text \<open>
  A request for a module's metrics, in any spelling of the path, goes no further than authentication
  unless the user it is authenticated as is an administrator: it is answered with the status of the failed
  authentication, or with 403.
\<close>
theorem metrics_for_admins:
  assumes "isMetricsPath (url_path (req s))" and "userMiddleware E s = (Inr (), t)" and "authMiddleware E t = (Inr c, t')"
    and "c = 200 \<Longrightarrow> (case deserialize (parse_user E) (sepal_user (req t')) of None \<Rightarrow> True | Some u \<Rightarrow> ADMIN_ROLE \<notin> set (usr_roles u))"
  shows "handle E body s = (Inr (Responded (if c = 200 then 403 else c)), t')"
proof -
  from userMiddleware_fresh [OF assms(2)] have "url_path (req t) = url_path (req s)"
    by (simp add: fresh_request_def extends_def same_request_def)
  with assms(1) posted_not_metrics [of _ "req t"] have "isMetricsPath (url_path (req t))"
    "\<not> posted ''/api/user/logout'' (req t)" "\<not> posted ''/api/user/invalidateothersessions'' (req t)"
    "\<not> posted ''/api/user/password/reset'' (req t)" by auto
  with assms(2-4) show ?thesis
    by (auto simp: handle_def catching_run andthen_run routes_def bnd_run guarded_def requireAdmin_def getRequestUser_def
        split: option.splits)
qed

definition metrics_request :: request where
  "metrics_request = asking ''/api/worker//METRICS'' (Some ''Basic OnRhc2tfMQ=='')"

theorem metrics_for_admins_witness:
  "fst (handle lab_env JNull (at_gate metrics_request)) = Inr (Responded 403)"
proof -
  obtain r t where u: "userMiddleware lab_env (at_gate metrics_request) = (r, t)" by fastforce
  obtain c t' where a: "authMiddleware lab_env t = (c, t')" by fastforce
  have "fst (userMiddleware lab_env (at_gate metrics_request)) = Inr ()" by code_simp
  with u have r: "userMiddleware lab_env (at_gate metrics_request) = (Inr (), t)" by simp
  have "fst (authMiddleware lab_env (snd (userMiddleware lab_env (at_gate metrics_request)))) = Inr 200" by code_simp
  with u a have c: "authMiddleware lab_env t = (Inr 200, t')" by simp
  have "sepal_user (req (snd (authMiddleware lab_env (snd (userMiddleware lab_env (at_gate metrics_request)))))) =
      Some (Given (userInfo_of (bob_user ''ACTIVE'')))" by code_simp
  with u a have h: "sepal_user (req t') = Some (Given (userInfo_of (bob_user ''ACTIVE'')))" by simp
  have p: "isMetricsPath (url_path (req (at_gate metrics_request)))" by code_simp
  have "ADMIN_ROLE \<notin> set (usr_roles (userInfo_of (bob_user ''ACTIVE'')))" by code_simp
  with metrics_for_admins [OF p r c] h show ?thesis by (simp add: deserialize_def)
qed

end
