(* ===== verification/GatewaySessions.thy ===== *)
theory GatewaySessions
  imports GatewaySafety
begin

text \<open>
  The gateway's login sessions and cached users: a lock ends every session of the user and no other, a
  login as another user replaces the session, and the cache names every user as the database does.
\<close>

section \<open>A lock\<close>

definition of_user :: "string \<Rightarrow> string \<times> string option \<Rightarrow> bool" where
  "of_user n = (\<lambda>(_, m). map_option storedUsername m = Some (storedUsername n))"

definition sessions_of :: "string \<Rightarrow> (string \<times> string option) list \<Rightarrow> string list" where
  "sessions_of n ss = map fst (filter (of_user n) ss)"

lemma removeSession_run:
  assumes "removeSession E n reason i s = (r, t)"
  shows "set (login_sessions t) \<subseteq> set (login_sessions s) \<and> (\<forall>p \<in> set (login_sessions s). fst p \<noteq> i \<longrightarrow> p \<in> set (login_sessions t)) \<and>
    (r = Inr () \<longrightarrow> login_sessions t = filter (\<lambda>(k, _). k \<noteq> i) (login_sessions s) \<and>
       events t = events s @ [LOGIN_SESSION_INVALIDATED n i reason])"
  using assms
  by (auto simp: removeSession_def store_destroy_def redis_call_def asks_def sessionInvalidated_def emit_def effect_simps
      split: prod.splits if_splits)

lemma removeSessions_run:
  assumes "promise_all (removeSession E n reason) ks s = (r, t)"
  shows "set (login_sessions t) \<subseteq> set (login_sessions s) \<and> (\<forall>p \<in> set (login_sessions s). fst p \<notin> set ks \<longrightarrow> p \<in> set (login_sessions t)) \<and>
    (r = Inr () \<longrightarrow> login_sessions t = filter (\<lambda>(k, _). k \<notin> set ks) (login_sessions s) \<and>
       events t = events s @ map (\<lambda>i. LOGIN_SESSION_INVALIDATED n i reason) ks)"
  using assms
proof (induction ks arbitrary: s r)
  case (Cons i ks)
  obtain r' s' where i: "removeSession E n reason i s = (r', s')" by fastforce
  from Cons.prems i obtain r'' where js: "promise_all (removeSession E n reason) ks s' = (r'', t)"
    and t: "r = (case r' of Inl e \<Rightarrow> Inl e | Inr _ \<Rightarrow> r'')" by (auto split: prod.splits)
  from removeSession_run [OF i] Cons.IH [OF js] t show ?case
    by (auto split: sum.splits intro!: filter_cong)
qed simp

lemma userLocked_run:
  assumes "userLocked_message E ''user.UserLocked'' (Some n) s = (r, t)" and "n \<noteq> []"
  shows "set (login_sessions t) \<subseteq> set (login_sessions s) \<and>
    (\<forall>p \<in> set (login_sessions s). fst p \<notin> set (sessions_of n (login_sessions s)) \<longrightarrow> p \<in> set (login_sessions t)) \<and>
    (r = Inr () \<longrightarrow> (\<forall>p \<in> set (login_sessions t). \<not> of_user n p) \<and>
       events t = events s @ map (\<lambda>i. LOGIN_SESSION_INVALIDATED n i ''locked'') (sessions_of n (login_sessions s)))"
proof -
  obtain q s' where q: "redis_call E s = (q, s')" by fastforce
  then have same: "login_sessions s' = login_sessions s" "events s' = events s"
    by (auto simp: redis_call_def asks_def effect_simps split: prod.splits if_splits)
  have ids: "map fst (filter (\<lambda>(_, m). map_option storedUsername m = map_option storedUsername (Some n)) (login_sessions s')) =
      sessions_of n (login_sessions s)" by (simp add: sessions_of_def of_user_def same)
  show ?thesis
  proof (cases q)
    case (Inl e)
    with assms q same show ?thesis
      by (auto simp: userLocked_message_def named_def removeSessionsByUsername_def getSessionIdsByUsername_def bnd_run andthen_run)
  next
    case (Inr v)
    with assms q ids have p: "promise_all (removeSession E n ''locked'') (sessions_of n (login_sessions s)) s' = (r, t)"
      by (simp add: userLocked_message_def named_def removeSessionsByUsername_def getSessionIdsByUsername_def bnd_run andthen_run)
    from removeSessions_run [OF p] same show ?thesis
      by (auto simp: sessions_of_def rev_image_eqI)
  qed
qed

text \<open>
  C25: the message that a user was locked ends sessions of that user only, whatever the session store
  does; when it is handled without an error, none of the user's sessions is left, in any spelling of the
  name, and the socket of each is told.
\<close>
theorem lock_ends_sessions:
  assumes "userLocked_message E ''user.UserLocked'' (Some n) s = (r, t)" and "n \<noteq> []"
  shows "set (login_sessions t) \<subseteq> set (login_sessions s) \<and>
    (\<forall>p \<in> set (login_sessions s). fst p \<notin> set (sessions_of n (login_sessions s)) \<longrightarrow> p \<in> set (login_sessions t)) \<and>
    (r = Inr () \<longrightarrow> (\<forall>p \<in> set (login_sessions t). \<not> of_user n p) \<and>
       events t = events s @ map (\<lambda>i. LOGIN_SESSION_INVALIDATED n i ''locked'') (sessions_of n (login_sessions s)))"
  by (rule userLocked_run [OF assms])

definition logged_in :: "unit gateway" where
  "logged_in = (at_gate (asking ''/'' None))\<lparr>login_sessions := [(''s1'', Some ''bob''), (''s2'', Some ''eve''), (''s3'', Some ''Bob'')]\<rparr>"

lemma logged_in_locked:
  "fst (userLocked_message lab_env ''user.UserLocked'' (Some ''BOB'') logged_in) = Inr ()"
  "login_sessions (snd (userLocked_message lab_env ''user.UserLocked'' (Some ''BOB'') logged_in)) = [(''s2'', Some ''eve'')]"
  by code_simp+

theorem lock_ends_sessions_witness:
  "events (snd (userLocked_message lab_env ''user.UserLocked'' (Some ''BOB'') logged_in)) =
     [LOGIN_SESSION_INVALIDATED ''BOB'' ''s1'' ''locked'', LOGIN_SESSION_INVALIDATED ''BOB'' ''s3'' ''locked'']"
proof -
  let ?t = "snd (userLocked_message lab_env ''user.UserLocked'' (Some ''BOB'') logged_in)"
  have run: "userLocked_message lab_env ''user.UserLocked'' (Some ''BOB'') logged_in = (Inr (), ?t)"
    using logged_in_locked(1) by (metis prod.collapse)
  have "sessions_of ''BOB'' (login_sessions logged_in) = [''s1'', ''s3'']" and "events logged_in = []" by code_simp+
  with lock_ends_sessions [OF run] show ?thesis by simp
qed

section \<open>A login as another user\<close>

lemma redis_frame:
  assumes "redis_call E s = (r, t)"
  shows "req t = req s \<and> login_sessions t = login_sessions s \<and> events t = events s"
  using assms by (auto simp: redis_call_def asks_def effect_simps split: prod.splits if_splits)

definition no_session_change :: "'w gateway \<Rightarrow> 'w gateway \<Rightarrow> bool" where
  "no_session_change s t \<longleftrightarrow> req t = req s \<and> login_sessions t = login_sessions s"

interpretation nsc: evolution no_session_change
  by unfold_locales (auto simp: no_session_change_def)

lemma setUser_no_session_change [intro!]: "runs_in no_session_change (setUser E u)"
  unfolding setUser_def redis_call_def asks_def handleUpdate_def emit_def Let_def
  by (auto intro!: nsc.runs_in_bnd nsc.runs_in_andthen nsc.runs_in_state_act nsc.runs_in_modify
      simp: no_session_change_def split: prod.splits)

text \<open>
  C26: logging in as another user on a session that a user holds destroys that session and stores the
  login under a new one; the session's former user is told that it was replaced once the response is
  out. Logging in again as the same user keeps the session.
\<close>
theorem login_replaces_session:
  assumes "andthen (startSession E u) (respond E) s = (Inr (), t)" and "named (session_username (req s)) = Some p"
  shows "(sessionID (req t), Some (storedUsername (usr_username u))) \<in> set (login_sessions t) \<and>
    (\<forall>m. (sessionID (req t), m) \<in> set (login_sessions t) \<longrightarrow> m = Some (storedUsername (usr_username u))) \<and>
    (if storedUsername p = storedUsername (usr_username u) then sessionID (req t) = sessionID (req s)
     else (sessionID (req t) \<noteq> sessionID (req s) \<longrightarrow> (\<forall>m. (sessionID (req s), m) \<notin> set (login_sessions t))) \<and>
       LOGIN_SESSION_INVALIDATED p (sessionID (req s)) ''replaced'' \<in> set (on_finish (req t)) \<and>
       (\<exists>before. events t = before @ on_finish (req t)))"
proof -
  obtain r1 s1 where s1: "setUser E u s = (r1, s1)" by fastforce
  from runs_inD_run [OF setUser_no_session_change s1] have same: "req s1 = req s" "login_sessions s1 = login_sessions s"
    by (auto simp: no_session_change_def)
  from assms(1) s1 obtain v where r1: "r1 = Inr v" by (cases r1) (auto simp: startSession_def andthen_run bnd_run)
  let ?n = "storedUsername (usr_username u)"
  show ?thesis
  proof (cases "storedUsername p = ?n")
    case True
    with assms s1 r1 same show ?thesis
      by (auto simp: startSession_def andthen_run bnd_run ensureSessionFor_def getSessionUsername_def setSessionUsername_def
          setRequestUser_def on_req_def respond_def)
  next
    case False
    obtain r2 s2 where s2: "store_destroy E (sessionID (req s)) s1 = (r2, s2)" by fastforce
    have d: "req s2 = req s" "r2 = Inr () \<Longrightarrow> login_sessions s2 = filter (\<lambda>(k, _). k \<noteq> sessionID (req s)) (login_sessions s)"
      using s2 same redis_frame [of E s1] by (auto simp: store_destroy_def andthen_run split: prod.splits sum.splits)
    obtain new w where w: "newSessionId E (services s2) = (new, w)" by fastforce
    from assms False s1 r1 same s2 have r2: "r2 = Inr ()"
      by (cases r2) (auto simp: startSession_def andthen_run bnd_run ensureSessionFor_def getSessionUsername_def regenerate_def)
    from assms False s1 r1 same s2 d(1) d(2) [OF r2] r2 w show ?thesis
      by (auto simp: startSession_def andthen_run bnd_run ensureSessionFor_def getSessionUsername_def regenerate_def asks_def
          state_act_run setSessionUsername_def setRequestUser_def on_req_def respond_def)
  qed
qed

definition eves_login :: "unit gateway" where
  "eves_login = (at_gate ((asking ''/api/user/login'' None)\<lparr>session_username := Some ''eve''\<rparr>))"

theorem login_replaces_session_witness:
  "LOGIN_SESSION_INVALIDATED ''eve'' ''s1'' ''replaced'' \<in>
     set (on_finish (req (snd (andthen (startSession lab_env (bob_user ''ACTIVE'')) (respond lab_env) eves_login))))"
proof -
  let ?m = "andthen (startSession lab_env (bob_user ''ACTIVE'')) (respond lab_env)"
  have "fst (?m eves_login) = Inr ()" by code_simp
  then have run: "?m eves_login = (Inr (), snd (?m eves_login))" by (metis prod.collapse)
  have "named (session_username (req eves_login)) = Some ''eve''" and "sessionID (req eves_login) = ''s1''"
    and "storedUsername ''eve'' \<noteq> storedUsername (usr_username (bob_user ''ACTIVE''))" by code_simp+
  with login_replaces_session [OF run] show ?thesis by (simp split: if_splits)
qed


section \<open>Upgrades\<close>

text \<open>
  A WebSocket upgrade is passed on only to an endpoint that takes sockets, never to a module's
  metrics, always with a user header for the active user of the login session and without a worker
  session; a socket of the gateway's own is opened for the session's user only.
\<close>
theorem upgrade_identity:
  assumes "webSocketUpgradeHandler E s = (Inr out, t)"
  shows "case out of
      Refused _ \<Rightarrow> True
    | Global_socket n i \<Rightarrow> named (session_username (req s)) = Some n \<and> i = sessionID (req s)
    | To_sandbox n h \<Rightarrow> named (session_username (req s)) = Some n \<and> \<not> isMetricsPath (url_path (req s)) \<and>
        (\<exists>u. h = Some (Given u) \<and> by_session (req s) (user_cache s) (newly s t) (usr_username u))
    | To_endpoint e h v \<Rightarrow> ep_ws e \<and> e \<in> set endpoints \<and> \<not> isMetricsPath (url_path (req s)) \<and> v = None \<and>
        (\<exists>u. h = Some (Given u) \<and> by_session (req s) (user_cache s) (newly s t) (usr_username u))"
proof -
  let ?s = "s\<lparr>req := (req s)\<lparr>sepal_user := None, sepal_session := None\<rparr>\<rparr>"
  show ?thesis
  proof (cases "\<exists>n. named (session_username (req s)) = Some n \<and> url_path (req s) \<noteq> webSocketPath")
    case False
    with assms show ?thesis
      by (auto simp: webSocketUpgradeHandler_def getSessionUsername_def bnd_run andthen_run removeRequestUser_def
          removeRequestSession_def on_req_def split: option.splits)
  next
    case True
    then obtain n where n: "named (session_username (req s)) = Some n" "url_path (req s) \<noteq> webSocketPath" by blast
    obtain r s' where g: "getUser E n ?s = (r, s')" by fastforce
    show ?thesis
    proof (cases "\<exists>u. r = Inr u \<and> usr_status u = ''ACTIVE''")
      case False
      with assms n g show ?thesis
        by (cases r) (auto simp: webSocketUpgradeHandler_def getSessionUsername_def bnd_run andthen_run removeRequestUser_def
            removeRequestSession_def on_req_def catching_run)
    next
      case True
      then obtain u where u: "r = Inr u" "usr_status u = ''ACTIVE''" by blast
      from getUser_from [of E n ?s u s'] g u(1) have f: "user_cache s (userKey n) = Some u \<or> (\<exists>v. Loaded n v \<in> set (newly s s') \<and> u = storedUser v)"
        and b: "sepal_session (req s') = None" by (auto simp: newly_def beside_def)
      have spk: "by_session (req s) (user_cache s) (newly s s') (usr_username (userInfo_of u))"
        unfolding by_session_def using f n(1) u(2) by (auto simp: storedUser_def)
      let ?t = "s'\<lparr>req := (req s')\<lparr>sepal_user := Some (Given (userInfo_of u))\<rparr>\<rparr>"
      from assms n g u have "catching (\<lambda>_. handleProxiedWebSocket E (url_path (req s)) n ?t) (\<lambda>_. ret (Refused ''401 Unauthorized'')) ?t = (Inr out, t)"
        by (auto simp: webSocketUpgradeHandler_def getSessionUsername_def bnd_run andthen_run removeRequestUser_def
            removeRequestSession_def on_req_def catching_run setRequestUser_def)
      then have "handleProxiedWebSocket E (url_path (req s)) n ?t = (Inr out, t)"
        by (auto simp: catching_run handleProxiedWebSocket_def bnd_run split: if_splits option.splits)
      with n(1) spk b show ?thesis
        by (auto simp: handleProxiedWebSocket_def bnd_run newly_def find_Some_iff split: if_splits option.splits upgrade.splits)
    qed
  qed
qed

definition socket_request :: "unit gateway" where
  "socket_request = at_gate ((asking ''/api/terminal'' None)\<lparr>session_username := Some ''bob''\<rparr>)"

theorem upgrade_identity_witness:
  "\<exists>e h. fst (webSocketUpgradeHandler lab_env socket_request) = Inr (To_endpoint e h None) \<and> ep_ws e"
proof -
  let ?out = "To_endpoint ((auth_endpoint ''/api/terminal'' ''terminal'')\<lparr>ep_ws := True\<rparr>) (Some (Given (userInfo_of (bob_user ''ACTIVE'')))) None"
  have f: "fst (webSocketUpgradeHandler lab_env socket_request) = Inr ?out" by code_simp
  then have run: "webSocketUpgradeHandler lab_env socket_request = (Inr ?out, snd (webSocketUpgradeHandler lab_env socket_request))"
    by (metis prod.collapse)
  from upgrade_identity [OF run] f show ?thesis by auto
qed

section \<open>The names in the cache\<close>

text \<open>A cached user is under the key of the name it holds, both in the stored spelling.\<close>

definition user_key_start :: string where "user_key_start = key_start USER_PREFIX '':''"

definition spelled_cache :: "(string \<Rightarrow> user option) \<Rightarrow> bool" where
  "spelled_cache m \<longleftrightarrow> (\<forall>k u. m k = Some u \<and> named_key user_key_start k \<longrightarrow>
     k = key_target user_key_start k \<and> isStoredUsername (usr_username u))"

lemma userKey_target: "key_target user_key_start (userKey n) = userKey n"
  by (simp add: userKey_def user_key_start_def key_start_def key_target_def)

abbreviation spelling_kept :: "'w gateway \<Rightarrow> 'w gateway \<Rightarrow> bool" where
  "spelling_kept \<equiv> keeps (\<lambda>s. spelled_cache (user_cache s))"

lemma spelling_calls [intro!]:
  "runs_in spelling_kept (asks f)" "runs_in spelling_kept (redis_call E)" "runs_in spelling_kept (noted a)" "runs_in spelling_kept (emit e)"
  "runs_in spelling_kept (on_req g)" "runs_in spelling_kept (posts valid noting h)" "runs_in spelling_kept (handleUpdate p u)"
  by (auto simp: asks_def redis_call_def noted_def emit_def on_req_def posts_def handleUpdate_def Let_def keeps_def
      intro!: keeping.runs_in_bnd keeping.runs_in_andthen keeping.runs_in_state_act keeping.runs_in_modify
      split: prod.splits reply.splits)

lemma spelling_setUser [intro!]: "runs_in spelling_kept (setUser E u)"
  unfolding setUser_def
  by (intro keeping.runs_in_andthen keeping.runs_in_bnd spelling_calls keeping.runs_in_ret keeping.runs_in_state_act)
    (auto simp: keeps_def spelled_cache_def userKey_target storedUser_def)

lemma spelling_users [intro!]:
  "runs_in spelling_kept (loadUser E n)" "runs_in spelling_kept (getUser E n)" "runs_in spelling_kept (updateUser E n)"
  unfolding loadUser_def getUser_def updateUser_def
  by (auto intro!: keeping.runs_in_bnd keeping.runs_in_andthen keeping.runs_in_catching split: option.splits sum.splits)


lemma spelling_sessions [intro!]:
  "runs_in spelling_kept (store_destroy E i)" "runs_in spelling_kept (regenerate E)" "runs_in spelling_kept (ensureSessionFor E n)"
  "runs_in spelling_kept (startSession E u)" "runs_in spelling_kept (logout E)" "runs_in spelling_kept (invalidateOtherSessions E)"
  "runs_in spelling_kept (removeSession E n reason i)" "runs_in spelling_kept (getSessionIdsByUsername E m)"
proof -
  have destroy: "runs_in spelling_kept (store_destroy E i)" for i
    unfolding store_destroy_def by (auto intro!: keeping.runs_in_andthen keeping.runs_in_modify simp: keeps_def)
  have ids: "runs_in spelling_kept (getSessionIdsByUsername E m)" for m
    unfolding getSessionIdsByUsername_def by (auto intro!: keeping.runs_in_andthen)
  have one: "runs_in spelling_kept (removeSession E n reason i)" for n reason i
    unfolding removeSession_def sessionInvalidated_def by (auto intro!: keeping.runs_in_andthen destroy)
  have all: "runs_in spelling_kept (promise_all (removeSession E n reason) ks)" for n reason ks
  proof (induction ks)
    case (Cons k ks)
    show ?case
      unfolding runs_in_def
    proof
      fix s :: "'a gateway"
      obtain r t where t: "removeSession E n reason k s = (r, t)" by fastforce
      with runs_inD_run [OF one t] runs_inD [OF Cons, of t]
      show "spelling_kept s (snd (promise_all (removeSession E n reason) (k # ks) s))"
        by (auto simp: keeps_def split: prod.splits)
    qed
  qed (simp add: runs_in_def keeps_def)
  have new: "runs_in spelling_kept (regenerate E)"
    unfolding regenerate_def by (auto intro!: keeping.runs_in_bnd keeping.runs_in_andthen destroy)
  have ensure: "runs_in spelling_kept (ensureSessionFor E n)" for n
    unfolding ensureSessionFor_def getSessionUsername_def
    by (auto intro!: keeping.runs_in_bnd keeping.runs_in_andthen new split: option.splits)
  show "runs_in spelling_kept (store_destroy E i)" "runs_in spelling_kept (regenerate E)" "runs_in spelling_kept (ensureSessionFor E n)"
    "runs_in spelling_kept (removeSession E n reason i)" "runs_in spelling_kept (getSessionIdsByUsername E m)"
    by (rule destroy new ensure one ids)+
  show "runs_in spelling_kept (startSession E u)"
    unfolding startSession_def setSessionUsername_def setRequestUser_def
    by (auto intro!: keeping.runs_in_bnd keeping.runs_in_andthen ensure)
  show "runs_in spelling_kept (logout E)"
    unfolding logout_def getSessionUsername_def sessionInvalidated_def
    by (auto intro!: keeping.runs_in_bnd keeping.runs_in_andthen destroy ids split: option.splits)
  show "runs_in spelling_kept (invalidateOtherSessions E)"
    unfolding invalidateOtherSessions_def by (auto intro!: keeping.runs_in_bnd keeping.runs_in_andthen all ids)
qed

lemma spelling_auth [intro!]: "runs_in spelling_kept (authMiddleware E)" "runs_in spelling_kept (googleAccessTokenMiddleware E)"
    "runs_in spelling_kept (userMiddleware E)" "runs_in spelling_kept (passwordReset E body)"
  unfolding authMiddleware_def authenticate_def isAuthenticated_def getRequestUser_def authorized_def authenticatedGuiRequest_def
    authenticatedNonGuiRequest_def authenticateApiKey_def keyOwner_def auth_loadUser_def setRequestSession_def setRequestUser_def
    googleAccessTokenMiddleware_def updateGoogleAccessToken_def userMiddleware_def getSessionUsername_def removeRequestUser_def
    removeRequestSession_def passwordReset_def
  by (auto intro!: keeping.runs_in_bnd keeping.runs_in_andthen keeping.runs_in_catching
      split: option.splits sum.splits reply.splits prod.splits)

lemma spelling_guards:
  "runs_in spelling_kept k \<Longrightarrow> runs_in spelling_kept (guarded (authMiddleware E) k)"
  "runs_in spelling_kept k \<Longrightarrow> runs_in spelling_kept (with_google_tokens E k)"
  "runs_in spelling_kept (proxyReq E e)" "runs_in spelling_kept (requireAdmin E)"
  unfolding guarded_def with_google_tokens_def proxyReq_def requireAdmin_def getRequestUser_def getRequestSession_def
  by (auto intro!: keeping.runs_in_bnd keeping.runs_in_catching)

lemma spelling_proxy: "runs_in spelling_kept (proxy_to E e)"
proof -
  have k: "runs_in spelling_kept (bnd (proxyReq E e) (\<lambda>(u, v). ret (Forwarded e u v)))"
    by (rule keeping.runs_in_bnd [OF spelling_guards(3)]) auto
  show ?thesis
    unfolding proxy_to_def Let_def by (intro keeping.runs_in_if spelling_guards(1,2) k)
qed

lemma spelling_after_metrics: "runs_in spelling_kept (after_metrics E path)"
proof -
  have "runs_in spelling_kept (proxyEndpoints E path)"
    unfolding proxyEndpoints_def by (cases "find (\<lambda>e. mounted (ep_path e) path) endpoints") (auto intro: spelling_proxy)
  then show ?thesis
    unfolding after_metrics_def by (intro keeping.runs_in_if spelling_guards(1,2) keeping.runs_in_ret)
qed

lemma spelling_handle: "runs_in spelling_kept (handle E body)"
proof -
  have admin: "runs_in spelling_kept (bnd (requireAdmin E) (\<lambda>admin. if admin then after_metrics E path else ret (Responded 403)))" for path
    by (intro keeping.runs_in_bnd spelling_guards keeping.runs_in_if spelling_after_metrics keeping.runs_in_ret)
  show ?thesis
    unfolding handle_def routes_def Let_def
    by (intro keeping.runs_in_catching keeping.runs_in_andthen keeping.runs_in_bnd keeping.runs_in_if keeping.runs_in_gets
        keeping.runs_in_ret spelling_guards(1) admin spelling_after_metrics spelling_auth spelling_sessions)
qed

text \<open>Unreachable keys are dropped, not renamed.\<close>

lemma remove_plan:
  "snd (planKeyNormalization keys pre Remove_orphans sep) = [] \<and>
   set (fst (planKeyNormalization keys pre Remove_orphans sep)) =
     {k \<in> set keys. named_key (key_start pre sep) k \<and> k \<noteq> key_target (key_start pre sep) k}"
proof -
  let ?start = "key_start pre sep"
  have none: "survivor Remove_orphans st c = None" for st c by (simp add: survivor_def split: prod.splits)
  have "x \<in> set (concat (map snd (collisions ?start (named_keys ?start keys)))) \<longleftrightarrow>
      x \<in> set keys \<and> named_key ?start x \<and> x \<noteq> key_target ?start x" for x
  proof -
    have "x \<in> set (concat (map snd (collisions ?start (named_keys ?start keys)))) \<longleftrightarrow>
        (\<exists>t. x \<in> set (spelled ?start (named_keys ?start keys) t))"
      unfolding in_concat_pairs in_collisions by (auto simp del: set_named_keys) (metis empty_iff list.set(1))
    then show ?thesis by (auto simp: spelled_def)
  qed
  then show ?thesis
    by (auto simp: planKeyNormalization_def Let_def none)
qed

lemma run_del_users: "for_each bs del_users s =
    (Inr (), s\<lparr>user_cache := (\<lambda>k. if k \<in> set (concat bs) then None else user_cache s k)\<rparr>)"
proof (induction bs arbitrary: s)
  case (Cons b bs)
  have "(\<lambda>k. if k \<in> set (concat bs) then None else if k \<in> set b then None else user_cache s k) =
      (\<lambda>k. if k \<in> set (concat (b # bs)) then None else user_cache s k)" by auto
  with Cons [of "s\<lparr>user_cache := (\<lambda>k. if k \<in> set b then None else user_cache s k)\<rparr>"] show ?case
    by (simp add: del_users_def andthen_run cong: if_cong)
qed simp

lemma run_correct_users: "\<exists>t. for_each ks correct_user s = (Inr (), t) \<and>
    user_cache t = (\<lambda>k. if k \<in> set ks then map_option storedUser (user_cache s k) else user_cache s k)"
proof (induction ks arbitrary: s)
  case (Cons k ks)
  obtain s' where s': "correct_user k s = (Inr (), s')" by (simp add: correct_user_def)
  then have c: "user_cache s' = (user_cache s)(k := map_option storedUser (user_cache s k))"
    by (auto simp: correct_user_def storedUser_def isStoredUsername_def split: option.splits if_splits)
  from Cons.IH [of s'] obtain t where t: "for_each ks correct_user s' = (Inr (), t)"
    "user_cache t = (\<lambda>k. if k \<in> set ks then map_option storedUser (user_cache s' k) else user_cache s' k)" by blast
  have "storedUser (storedUser u) = storedUser u" for u by (simp add: storedUser_def)
  with s' t c show ?case by (auto simp: andthen_run option.map_comp o_def)
qed simp

lemma normalized_users:
  assumes "\<And>m. dom m \<subseteq> dom (user_cache s) \<Longrightarrow> set (scanned m) = {k. m k \<noteq> None \<and> starts_with user_key_start k}"
  shows "\<exists>t. normalizeUsers scanned s = (Inr (), t) \<and> spelled_cache (user_cache t) \<and>
    (\<forall>k. named_key user_key_start k \<longrightarrow> user_cache t k =
       (if k = key_target user_key_start k then map_option storedUser (user_cache s k) else None))"
proof -
  let ?keys = "scanned (user_cache s)"
  obtain ds where plan: "planKeyNormalization ?keys USER_PREFIX Remove_orphans '':'' = (ds, [])"
    and ds: "set ds = {k \<in> set ?keys. named_key user_key_start k \<and> k \<noteq> key_target user_key_start k}"
    using remove_plan [of ?keys USER_PREFIX "'':''"] unfolding user_key_start_def by (metis prod.collapse)
  let ?s = "s\<lparr>user_cache := (\<lambda>k. if k \<in> set ds then None else user_cache s k)\<rparr>"
  have fewer: "dom (user_cache ?s) \<subseteq> dom (user_cache s)" by (auto split: if_splits)
  have b: "concat (batches 500 xs) = xs" for xs :: "'c list" using concat_batches [of 499 xs] by simp
  have del: "applyKeyNormalization ''no renameKey'' ?keys USER_PREFIX Remove_orphans '':'' None del_users 500 s = (Inr (length ds, 0), ?s)"
    by (simp add: applyKeyNormalization_def plan bnd_run andthen_run run_del_users b)
  from run_correct_users [of "scanned (user_cache ?s)" ?s] obtain t where
    t: "for_each (scanned (user_cache ?s)) correct_user ?s = (Inr (), t)"
    and c: "user_cache t = (\<lambda>k. if k \<in> set (scanned (user_cache ?s)) then map_option storedUser (user_cache ?s k) else user_cache ?s k)"
    by blast
  have run: "normalizeUsers scanned s = (Inr (), t)"
    using del t by (simp add: normalizeUsers_def bnd_run andthen_run b)
  have at: "user_cache t k = (if k = key_target user_key_start k then map_option storedUser (user_cache s k) else None)"
    if "named_key user_key_start k" for k
  proof -
    from that have s: "starts_with user_key_start k" by (simp add: named_key_def)
    have "k \<in> set (scanned (user_cache ?s)) \<longleftrightarrow> user_cache ?s k \<noteq> None"
      using s assms [OF fewer] by simp
    then have "user_cache t k = map_option storedUser (user_cache ?s k)" by (auto simp: c)
    moreover have "k \<in> set ds \<longleftrightarrow> user_cache s k \<noteq> None \<and> k \<noteq> key_target user_key_start k"
      using that s assms [OF subset_refl] by (simp add: ds)
    ultimately show ?thesis by auto
  qed
  have "spelled_cache (user_cache t)"
    unfolding spelled_cache_def
  proof (intro allI impI)
    fix k u assume "user_cache t k = Some u \<and> named_key user_key_start k"
    with at [of k] show "k = key_target user_key_start k \<and> isStoredUsername (usr_username u)"
      by (cases "user_cache s k") (auto simp: storedUser_def split: if_splits)
  qed
  with run at show ?thesis by blast
qed


definition old_cache :: "unit gateway" where
  "old_cache = (at_gate (asking ''/'' None))\<lparr>user_cache := [''user:Bob'' \<mapsto> bob_user ''ACTIVE'', ''user:bob'' \<mapsto> bob_user ''ACTIVE'']\<rparr>"

definition old_scan :: "(string \<Rightarrow> user option) \<Rightarrow> string list" where
  "old_scan m = filter (\<lambda>k. m k \<noteq> None) [''user:Bob'', ''user:bob'']"


end
