(* ===== verification/TaskModel.thy ===== *)
theory TaskModel
  imports Prelude
begin

text \<open>
  The task-manager's data (\<^verbatim>\<open>modules/task-manager/src/task.js\<close>, \<^verbatim>\<open>errors.js\<close>): the states of a
  task, their descriptions, the \<open>task\<close> object, and the errors a command can be refused with.
\<close>

datatype task_state = PENDING | ACTIVE | CANCELING | COMPLETED | CANCELED | FAILED

definition RUNNING_STATES :: "task_state list" where
  "RUNNING_STATES = [ACTIVE, CANCELING]"

definition FINISHED_STATES :: "task_state list" where
  "FINISHED_STATES = [COMPLETED, CANCELED, FAILED]"

lemma in_RUNNING [simp]: "s \<in> set RUNNING_STATES \<longleftrightarrow> s = ACTIVE \<or> s = CANCELING"
  by (simp add: RUNNING_STATES_def)

lemma in_FINISHED [simp]:
  "s \<in> set FINISHED_STATES \<longleftrightarrow> s = COMPLETED \<or> s = CANCELED \<or> s = FAILED"
  by (simp add: FINISHED_STATES_def)

text \<open>\<open>describe\<close> is \<open>JSON.stringify\<close>; the stored text is modelled by the value itself.\<close>

definition describe :: "string \<Rightarrow> string \<Rightarrow> (string \<times> json) list \<Rightarrow> json" where
  "describe defaultMessage messageKey messageArgs = JObj
     [(''defaultMessage'', JStr defaultMessage), (''messageKey'', JStr messageKey),
      (''messageArgs'', JObj messageArgs)]"

fun StateDescription :: "task_state \<Rightarrow> json" where
  "StateDescription PENDING = describe ''Initializing...'' ''tasks.status.initializing'' []"
| "StateDescription ACTIVE = describe ''Executing...'' ''tasks.status.executing'' []"
| "StateDescription CANCELING = describe ''Canceling.'' ''tasks.status.canceling'' []"
| "StateDescription COMPLETED = describe ''Completed!'' ''tasks.status.completed'' []"
| "StateDescription CANCELED = describe ''Canceled.'' ''tasks.status.canceled'' []"
| "StateDescription FAILED = describe ''Failed: Internal Error'' ''tasks.status.failed''
     [(''error'', JStr ''Internal Error'')]"

definition failure :: "string \<Rightarrow> json" where
  "failure message = describe (''Failed: '' @ message) ''tasks.status.failed''
     [(''error'', JStr message)]"

text \<open>\<open>JSON.stringify(undefined)\<close> is \<open>undefined\<close>.\<close>

definition statusDescriptionOf :: "json option \<Rightarrow> json option" where
  "statusDescriptionOf m = m"

record task =
  task_id :: string
  task_state :: task_state
  task_username :: string
  task_operation :: string
  task_params :: json
  task_statusDescription :: json
  task_recipeId :: "string option"
  task_creationTime :: "int option"
  task_updateTime :: "int option"
  task_progressTime :: "int option"

definition createTask ::
  "string \<Rightarrow> task_state \<Rightarrow> string \<Rightarrow> string \<Rightarrow> json option \<Rightarrow> json option \<Rightarrow> string option
    \<Rightarrow> int option \<Rightarrow> int option \<Rightarrow> int option \<Rightarrow> task" where
  "createTask i st username operation params statusDescription recipeId created updated progress =
     \<lparr>task_id = i, task_state = st, task_username = username, task_operation = operation,
      task_params = (case params of None \<Rightarrow> JObj [] | Some p \<Rightarrow> p),
      task_statusDescription =
        (case statusDescription of None \<Rightarrow> StateDescription st | Some d \<Rightarrow> d),
      task_recipeId = recipeId, task_creationTime = created, task_updateTime = updated,
      task_progressTime = progress\<rparr>"

definition isFinished :: "task \<Rightarrow> bool" where
  "isFinished t \<longleftrightarrow> task_state t \<in> set FINISHED_STATES"

definition getTitle :: "task \<Rightarrow> json" where
  "getTitle t = nullish (json_get (task_params t) ''title'') (JStr (task_operation t))"

datatype task_error =
    Unauthorized string
  | InvalidCommand string
  | NotFound string
  | Failure string  \<comment> \<open>any other \<open>Error\<close>: a rejected statement or a rejected call of the daemon\<close>

text \<open>The edges of a task's life. A finished task has none.\<close>

fun task_edge :: "task_state \<Rightarrow> task_state \<Rightarrow> bool" where
  "task_edge PENDING s \<longleftrightarrow> s = ACTIVE \<or> s = CANCELED"
| "task_edge ACTIVE s \<longleftrightarrow> s = CANCELING \<or> s = COMPLETED \<or> s = CANCELED \<or> s = FAILED"
| "task_edge CANCELING s \<longleftrightarrow> s = COMPLETED \<or> s = CANCELED \<or> s = FAILED"
| "task_edge _ s \<longleftrightarrow> False"

definition task_life :: "task_state \<Rightarrow> task_state \<Rightarrow> bool" where
  "task_life = task_edge\<^sup>*\<^sup>*"

lemma task_life_refl [simp, intro]: "task_life s s"
  by (simp add: task_life_def)

lemma task_life_trans: "task_life s t \<Longrightarrow> task_life t u \<Longrightarrow> task_life s u"
  by (simp add: task_life_def)

lemma task_edge_life: "task_edge s t \<Longrightarrow> task_life s t"
  by (simp add: task_life_def)

fun task_rank :: "task_state \<Rightarrow> nat" where
  "task_rank PENDING = 0"
| "task_rank ACTIVE = 1"
| "task_rank CANCELING = 2"
| "task_rank _ = 3"

lemma task_edge_rank: "task_edge s t \<Longrightarrow> task_rank s < task_rank t"
  by (cases s; cases t) auto

lemma task_life_rank: "task_life s t \<Longrightarrow> s = t \<or> task_rank s < task_rank t"
  unfolding task_life_def
  by (induction rule: rtranclp_induct) (auto dest: task_edge_rank)

lemma task_life_finished:
  "task_life s t \<Longrightarrow> s \<in> set FINISHED_STATES \<Longrightarrow> t = s"
  unfolding task_life_def by (induction rule: converse_rtranclp_induct) auto

lemma task_life_not_pending: "task_life s PENDING \<Longrightarrow> s = PENDING"
  by (drule task_life_rank) (cases s; auto)

lemma task_life_ACTIVE: "task_life s ACTIVE \<Longrightarrow> s = PENDING \<or> s = ACTIVE"
  by (drule task_life_rank) (cases s; auto)

end
