(* ===== verification/TaskRepository.thy ===== *)
theory TaskRepository
  imports TaskModel
begin

text \<open>
  The \<^verbatim>\<open>task\<close> table and the statements \<^verbatim>\<open>taskRepository.js\<close> sends to it. Every statement is one
  function of the table; the repository's methods wrap it with the clock, the announcement to the
  task's owner and the answer. \<open>task_stmt\<close> is the relation "one statement of this repository":
  handlers interleave at their statements, so a property of \<open>task_stmt\<^sup>*\<^sup>*\<close> holds however they
  interleave.
\<close>

record task_row =
  row_id :: string
  row_state :: task_state
  row_username :: string
  row_operation :: string
  row_params :: json
  row_status :: json
  row_recipeId :: "string option"
  row_apiKeyHash :: "string option"
  row_created :: int
  row_updated :: int
  row_progress :: "int option"
  row_removed :: bool
  row_slot :: "int option"

record 'w repo_state =
  rows :: "task_row list"
  announced :: "string list"  \<comment> \<open>the owners \<open>onChange\<close> was called with, in order\<close>
  world :: 'w  \<comment> \<open>everything outside the process\<close>

record 'w services =
  clock :: "'w \<Rightarrow> int \<times> 'w"

definition now :: "('w, 'z) services_scheme \<Rightarrow> (('w, 'y) repo_state_scheme, task_error, int) act" where
  "now E = state_act (\<lambda>s. case clock E (world s) of (t, w) \<Rightarrow> (t, s\<lparr>world := w\<rparr>))"

section \<open>Statements\<close>

definition stmt_activate :: "int \<Rightarrow> string \<Rightarrow> string \<Rightarrow> task_row list \<Rightarrow> task_row list" where
  "stmt_activate t hash i = sql_update (\<lambda>r. row_id r = i \<and> row_state r = PENDING)
     (\<lambda>r. r\<lparr>row_state := ACTIVE, row_status := StateDescription ACTIVE,
            row_apiKeyHash := Some hash, row_updated := t, row_progress := Some t\<rparr>)"

definition stmt_transition ::
  "int \<Rightarrow> task_state list \<Rightarrow> task_state \<Rightarrow> json \<Rightarrow> string \<Rightarrow> task_row list \<Rightarrow> task_row list" where
  "stmt_transition t from dest d i =
     sql_update (\<lambda>r. row_id r = i \<and> row_state r \<in> set from)
     (\<lambda>r. r\<lparr>row_state := dest, row_status := d, row_updated := t,
            row_apiKeyHash := (if dest \<in> set RUNNING_STATES then row_apiKeyHash r else None)\<rparr>)"

definition stmt_recordProgress :: "int \<Rightarrow> json \<Rightarrow> string \<Rightarrow> task_row list \<Rightarrow> task_row list" where
  "stmt_recordProgress t d i = sql_update (\<lambda>r. row_id r = i \<and> row_state r = ACTIVE)
     (\<lambda>r. r\<lparr>row_status := d, row_updated := t, row_progress := Some t\<rparr>)"

definition stmt_grantSlot :: "int \<Rightarrow> string \<Rightarrow> task_row list \<Rightarrow> task_row list" where
  "stmt_grantSlot t i =
     sql_update (\<lambda>r. row_id r = i \<and> row_state r = ACTIVE \<and> row_slot r = None)
     (\<lambda>r. r\<lparr>row_slot := Some t\<rparr>)"

definition stmt_renewSlot :: "int \<Rightarrow> string \<Rightarrow> task_row list \<Rightarrow> task_row list" where
  "stmt_renewSlot t i =
     sql_update (\<lambda>r. row_id r = i \<and> row_state r \<in> set RUNNING_STATES \<and> row_slot r \<noteq> None)
     (\<lambda>r. r\<lparr>row_slot := Some t\<rparr>)"

definition stmt_releaseSlot :: "int \<Rightarrow> string \<Rightarrow> task_row list \<Rightarrow> task_row list" where
  "stmt_releaseSlot g i = sql_update (\<lambda>r. row_id r = i \<and> row_slot r = Some g)
     (\<lambda>r. r\<lparr>row_slot := None\<rparr>)"

definition stmt_resetProgress :: "int \<Rightarrow> task_row list \<Rightarrow> task_row list" where
  "stmt_resetProgress t = sql_update (\<lambda>r. row_state r = ACTIVE) (\<lambda>r. r\<lparr>row_progress := Some t\<rparr>)"

definition stmt_resetCanceling :: "int \<Rightarrow> task_row list \<Rightarrow> task_row list" where
  "stmt_resetCanceling t = sql_update (\<lambda>r. row_state r = CANCELING) (\<lambda>r. r\<lparr>row_updated := t\<rparr>)"

definition stmt_remove :: "string \<Rightarrow> task_row list \<Rightarrow> task_row list" where
  "stmt_remove i = sql_update (\<lambda>r. row_id r = i \<and> \<not> row_removed r) (\<lambda>r. r\<lparr>row_removed := True\<rparr>)"

definition removable :: "string \<Rightarrow> string list \<Rightarrow> task_row \<Rightarrow> bool" where
  "removable u ids r \<longleftrightarrow>
     ci_eq (row_username r) u \<and> row_id r \<in> set ids \<and> row_state r \<in> set FINISHED_STATES"

definition stmt_removeFinished :: "string \<Rightarrow> string list \<Rightarrow> task_row list \<Rightarrow> task_row list" where
  "stmt_removeFinished u ids = sql_update (removable u ids) (\<lambda>r. r\<lparr>row_removed := True\<rparr>)"

definition new_row :: "task_row \<Rightarrow> bool" where
  "new_row r \<longleftrightarrow> row_state r = PENDING \<and> isStoredUsername (row_username r) \<and>
     row_apiKeyHash r = None \<and> row_slot r = None \<and> \<not> row_removed r"

inductive task_quiet :: "task_row list \<Rightarrow> task_row list \<Rightarrow> bool" where
  Transition: "(\<And>s. s \<in> set from \<Longrightarrow> task_edge s dest) \<Longrightarrow> dest \<noteq> ACTIVE \<Longrightarrow>
    task_quiet rs (stmt_transition t from dest d i rs)"
| Progress: "task_quiet rs (stmt_recordProgress t d i rs)"
| Grant: "task_quiet rs (stmt_grantSlot t i rs)"
| Renew: "task_quiet rs (stmt_renewSlot t i rs)"
| Release: "task_quiet rs (stmt_releaseSlot g i rs)"
| ResetProgress: "task_quiet rs (stmt_resetProgress t rs)"
| ResetCanceling: "task_quiet rs (stmt_resetCanceling t rs)"
| Remove: "task_quiet rs (stmt_remove i rs)"
| RemoveFinished: "task_quiet rs (stmt_removeFinished u ids rs)"

inductive task_update :: "task_row list \<Rightarrow> task_row list \<Rightarrow> bool" where
  Activate: "Some h \<notin> row_apiKeyHash ` set rs \<Longrightarrow> task_update rs (stmt_activate t h i rs)"
| Quiet: "task_quiet rs qs \<Longrightarrow> task_update rs qs"

inductive task_stmt :: "task_row list \<Rightarrow> task_row list \<Rightarrow> bool" where
  Insert: "new_row r \<Longrightarrow> row_id r \<notin> row_id ` set rs \<Longrightarrow> task_stmt rs (rs @ [r])"
| Update: "task_update rs qs \<Longrightarrow> task_stmt rs qs"

lemma quiet_updates: "task_quiet\<^sup>*\<^sup>* rs qs \<Longrightarrow> task_update\<^sup>*\<^sup>* rs qs"
  by (induction rule: rtranclp_induct) (auto intro: task_update.Quiet rtranclp.rtrancl_into_rtrancl)

lemma updates_stmts: "task_update\<^sup>*\<^sup>* rs qs \<Longrightarrow> task_stmt\<^sup>*\<^sup>* rs qs"
  by (induction rule: rtranclp_induct) (auto intro: task_stmt.Update rtranclp.rtrancl_into_rtrancl)

lemmas stmt_defs =
  stmt_activate_def stmt_transition_def stmt_recordProgress_def stmt_grantSlot_def
  stmt_renewSlot_def stmt_releaseSlot_def stmt_resetProgress_def stmt_resetCanceling_def
  stmt_remove_def stmt_removeFinished_def

subsection \<open>What a statement keeps\<close>

text \<open>The columns no statement writes, and the direction of the state column.\<close>

definition row_later :: "task_row \<Rightarrow> task_row \<Rightarrow> bool" where
  "row_later r q \<longleftrightarrow> row_id q = row_id r \<and> row_username q = row_username r \<and>
     row_operation q = row_operation r \<and> row_params q = row_params r \<and>
     row_recipeId q = row_recipeId r \<and> row_created q = row_created r \<and>
     (row_removed r \<longrightarrow> row_removed q) \<and> task_life (row_state r) (row_state q)"

lemma row_later_refl [simp, intro]: "row_later r r"
  by (simp add: row_later_def)

lemma row_later_trans: "row_later r q \<Longrightarrow> row_later q p \<Longrightarrow> row_later r p"
  by (auto simp: row_later_def intro: task_life_trans)

definition rows_later :: "task_row list \<Rightarrow> task_row list \<Rightarrow> bool" where
  "rows_later rs qs \<longleftrightarrow> length rs \<le> length qs \<and> list_all2 row_later rs (take (length rs) qs)"

lemma rows_later_refl [simp, intro]: "rows_later rs rs"
  by (simp add: rows_later_def list.rel_refl)

lemma rows_later_trans:
  assumes "rows_later rs qs" and "rows_later qs ps"
  shows "rows_later rs ps"
proof -
  have "list_all2 row_later (take (length rs) qs) (take (length rs) ps)"
    using assms unfolding rows_later_def
    by (metis list_all2_takeI min.absorb1 take_take)
  then show ?thesis
    using assms unfolding rows_later_def
    by (auto intro: list_all2_trans [OF row_later_trans])
qed

lemma rows_later_update:
  "(\<And>r. P r \<Longrightarrow> row_later r (f r)) \<Longrightarrow> rows_later rs (sql_update P f rs)"
  by (auto simp: rows_later_def list_all2_conv_all_nth sql_update_def)

lemma rows_later_append: "rows_later rs (rs @ qs)"
  by (simp add: rows_later_def list.rel_refl)

lemma task_quiet_later: "task_quiet rs qs \<Longrightarrow> rows_later rs qs \<and> length qs = length rs"
  by (induction rule: task_quiet.induct)
     (auto simp: stmt_defs row_later_def task_edge_life intro!: rows_later_update)

lemma task_update_later: "task_update rs qs \<Longrightarrow> rows_later rs qs \<and> length qs = length rs"
  by (induction rule: task_update.induct)
     (auto simp: stmt_activate_def row_later_def task_edge_life task_quiet_later
       intro!: rows_later_update)

lemma task_updates_later:
  "task_update\<^sup>*\<^sup>* rs qs \<Longrightarrow> rows_later rs qs \<and> length qs = length rs"
  by (induction rule: rtranclp_induct) (auto dest: task_update_later intro: rows_later_trans)

lemma task_stmt_later: "task_stmt rs qs \<Longrightarrow> rows_later rs qs"
  by (induction rule: task_stmt.induct) (auto simp: rows_later_append dest: task_update_later)

lemma task_stmts_later: "task_stmt\<^sup>*\<^sup>* rs qs \<Longrightarrow> rows_later rs qs"
  by (induction rule: rtranclp_induct) (auto dest: task_stmt_later intro: rows_later_trans)

lemma rows_later_nth:
  "rows_later rs qs \<Longrightarrow> i < length rs \<Longrightarrow> i < length qs \<and> row_later (rs ! i) (qs ! i)"
  by (auto simp: rows_later_def list_all2_conv_all_nth)

lemma rows_later_row:
  assumes "rows_later rs qs" and "r \<in> set rs"
  obtains q where "q \<in> set qs" and "row_later r q"
  using assms by (metis in_set_conv_nth rows_later_nth)

subsection \<open>The invariant of the table\<close>

definition row_ok :: "task_row \<Rightarrow> bool" where
  "row_ok r \<longleftrightarrow> isStoredUsername (row_username r) \<and>
     (row_apiKeyHash r \<noteq> None \<longleftrightarrow> row_state r \<in> set RUNNING_STATES) \<and>
     (row_slot r \<noteq> None \<longrightarrow> row_state r \<noteq> PENDING)"

definition table_ok :: "task_row list \<Rightarrow> bool" where
  "table_ok rs \<longleftrightarrow> distinct (map row_id rs) \<and> list_all row_ok rs"

lemma table_ok_Nil [simp]: "table_ok []"
  by (simp add: table_ok_def)

lemma table_ok_update:
  assumes "table_ok rs" and "\<And>r. row_id (f r) = row_id r"
    and "\<And>r. P r \<Longrightarrow> row_ok r \<Longrightarrow> row_ok (f r)"
  shows "table_ok (sql_update P f rs)"
  using assms
  by (auto simp: table_ok_def map_sql_update_same list_all_iff set_sql_update)

lemma task_quiet_ok: "task_quiet rs qs \<Longrightarrow> table_ok rs \<Longrightarrow> table_ok qs"
proof (induction rule: task_quiet.induct)
  case (Transition "from" dest rs t d i)
  have "row_state r \<noteq> PENDING \<or> dest = CANCELED" if "row_state r \<in> set from" for r :: task_row
    using Transition(1) [OF that] Transition(2) by (cases "row_state r") auto
  moreover have "dest \<noteq> PENDING" if "row_state r \<in> set from" for r :: task_row
    using Transition(1) [OF that] by (cases "row_state r") auto
  moreover have "dest = CANCELING \<Longrightarrow> row_state r = ACTIVE" if "row_state r \<in> set from" for r :: task_row
    using Transition(1) [OF that] by (cases "row_state r") auto
  ultimately show ?case
    unfolding stmt_transition_def using Transition(2-)
    by (intro table_ok_update) (auto simp: row_ok_def)
qed (auto simp: stmt_defs row_ok_def removable_def intro!: table_ok_update)

lemma task_update_ok: "task_update rs qs \<Longrightarrow> table_ok rs \<Longrightarrow> table_ok qs"
proof (induction rule: task_update.induct)
  case (Activate h rs t i)
  then show ?case
    unfolding stmt_activate_def by (intro table_ok_update) (auto simp: row_ok_def)
next
  case (Quiet rs qs)
  then show ?case by (rule task_quiet_ok)
qed

lemma task_stmt_ok: "task_stmt rs qs \<Longrightarrow> table_ok rs \<Longrightarrow> table_ok qs"
proof (induction rule: task_stmt.induct)
  case (Insert r rs)
  then show ?case by (auto simp: table_ok_def new_row_def row_ok_def)
next
  case (Update rs qs)
  then show ?case by (rule task_update_ok)
qed

lemma task_stmts_ok: "task_stmt\<^sup>*\<^sup>* rs qs \<Longrightarrow> table_ok rs \<Longrightarrow> table_ok qs"
  by (induction rule: rtranclp_induct) (auto dest: task_stmt_ok)

section \<open>Methods of the repository\<close>

definition toTask :: "task_row \<Rightarrow> task" where
  "toTask r = createTask (row_id r) (row_state r) (row_username r) (row_operation r)
     (Some (row_params r)) (Some (row_status r)) (row_recipeId r)
     (Some (row_created r)) (Some (row_updated r)) (row_progress r)"

definition onChange :: "string \<Rightarrow> (('w, 'y) repo_state_scheme, task_error, unit) act" where
  "onChange u = modify (\<lambda>s. s\<lparr>announced := announced s @ [u]\<rparr>)"

definition select ::
  "(task_row list \<Rightarrow> 'a) \<Rightarrow> (('w, 'y) repo_state_scheme, task_error, 'a) act" where
  "select f = gets (\<lambda>s. f (rows s))"

definition store ::
  "(task_row list \<Rightarrow> task_row list) \<Rightarrow> (('w, 'y) repo_state_scheme, task_error, unit) act" where
  "store f = modify (\<lambda>s. s\<lparr>rows := f (rows s)\<rparr>)"

text \<open>An \<open>UPDATE\<close> and its \<open>affectedRows\<close>.\<close>

definition query_update ::
  "(task_row \<Rightarrow> bool) \<Rightarrow> (task_row list \<Rightarrow> task_row list) \<Rightarrow> (('w, 'y) repo_state_scheme, task_error, nat) act"
where
  "query_update P f = bnd (select (sql_matched P)) (\<lambda>affectedRows. andthen (store f) (ret affectedRows))"

text \<open>\<open>#change\<close>: an \<open>UPDATE\<close> of one task, announced to its owner when it matched.\<close>

definition change ::
  "task \<Rightarrow> (task_row \<Rightarrow> bool) \<Rightarrow> (task_row list \<Rightarrow> task_row list) \<Rightarrow> (('w, 'y) repo_state_scheme, task_error, bool) act"
where
  "change t P f = bnd (query_update P f) (\<lambda>affectedRows.
     andthen (if affectedRows \<noteq> 0 then onChange (task_username t) else ret ()) (ret (0 < affectedRows)))"

definition row_of_task :: "task \<Rightarrow> int \<Rightarrow> int \<Rightarrow> task_row" where
  "row_of_task t created updated =
     \<lparr>row_id = task_id t, row_state = task_state t, row_username = storedUsername (task_username t),
      row_operation = task_operation t, row_params = task_params t,
      row_status = task_statusDescription t, row_recipeId = task_recipeId t,
      row_apiKeyHash = None,
      row_created = created, row_updated = updated,
      row_progress = None, row_removed = False, row_slot = None\<rparr>"

definition insert_task :: "task \<Rightarrow> (('w, 'y) repo_state_scheme, task_error, unit) act" where
  "insert_task t = bnd (select (\<lambda>rs. task_id t \<in> row_id ` set rs)) (\<lambda>duplicate.
     if duplicate then throw (Failure ''ER_DUP_ENTRY'')
     else (case (task_creationTime t, task_updateTime t) of
         (Some c, Some u) \<Rightarrow>
           andthen (store (\<lambda>rs. rs @ [row_of_task t c u])) (onChange (task_username t))
       | _ \<Rightarrow> throw (Failure ''ER_BAD_NULL_ERROR'')))"

definition getTask :: "string \<Rightarrow> (('w, 'y) repo_state_scheme, task_error, task option) act" where
  "getTask i = select (\<lambda>rs. map_option toTask (find (\<lambda>r. row_id r = i) rs))"

definition userTasks :: "string \<Rightarrow> (('w, 'y) repo_state_scheme, task_error, task list) act" where
  "userTasks u = select (\<lambda>rs. map toTask (sort_key row_created
     (filter (\<lambda>r. ci_eq (row_username r) u \<and> \<not> row_removed r) rs)))"

definition eligible :: "string list \<Rightarrow> task_row \<Rightarrow> bool" where
  "eligible excludeUsernames r \<longleftrightarrow> row_state r = PENDING \<and>
     \<not> list_ex (\<lambda>u. ci_eq (row_username r) u) excludeUsernames"

definition pending_rows :: "string list \<Rightarrow> task_row list \<Rightarrow> task_row list" where
  "pending_rows excludeUsernames rs = sort_key row_created (filter (eligible excludeUsernames) rs)"

definition pendingTasks ::
  "nat \<Rightarrow> string list \<Rightarrow> (('w, 'y) repo_state_scheme, task_error, task list) act" where
  "pendingTasks limit excludeUsernames =
     select (\<lambda>rs. map toTask (take limit (pending_rows excludeUsernames rs)))"

definition is_running :: "task_row \<Rightarrow> bool" where
  "is_running r \<longleftrightarrow> row_state r \<in> set RUNNING_STATES"

definition runningTasks :: "(('w, 'y) repo_state_scheme, task_error, task list) act" where
  "runningTasks = select (\<lambda>rs. map toTask (filter is_running rs))"

definition countRunning :: "(('w, 'y) repo_state_scheme, task_error, nat) act" where
  "countRunning = select (sql_matched is_running)"

text \<open>\<open>GROUP BY\<close>: one entry per user, in the order the users first occur.\<close>

fun add_count :: "string \<Rightarrow> (string \<times> nat) list \<Rightarrow> (string \<times> nat) list" where
  "add_count u [] = [(u, 1)]"
| "add_count u ((v, n) # cs) = (if v = u then (v, Suc n) # cs else (v, n) # add_count u cs)"

definition count_users :: "string list \<Rightarrow> (string \<times> nat) list" where
  "count_users us = fold add_count us []"

definition countRunningByUser :: "(('w, 'y) repo_state_scheme, task_error, (string \<times> nat) list) act" where
  "countRunningByUser = select (\<lambda>rs. count_users (map row_username (filter is_running rs)))"

definition activate ::
  "('w, 'z) services_scheme \<Rightarrow> task \<Rightarrow> string \<Rightarrow> (('w, 'y) repo_state_scheme, task_error, bool) act" where
  "activate E t apiKeyHash = bnd (now E) (\<lambda>n.
     bnd (select (\<lambda>rs. Some apiKeyHash \<in> row_apiKeyHash ` set rs)) (\<lambda>duplicate.
     if duplicate then throw (Failure ''ER_DUP_ENTRY'')
     else change t (\<lambda>r. row_id r = task_id t \<and> row_state r = PENDING)
       (stmt_activate n apiKeyHash (task_id t))))"

definition transition ::
  "('w, 'z) services_scheme \<Rightarrow> task \<Rightarrow> task_state list \<Rightarrow> task_state \<Rightarrow> json option
    \<Rightarrow> (('w, 'y) repo_state_scheme, task_error, bool) act" where
  "transition E t from dest statusDescription = bnd (now E) (\<lambda>n.
     change t (\<lambda>r. row_id r = task_id t \<and> row_state r \<in> set from)
       (stmt_transition n from dest
          (case statusDescription of None \<Rightarrow> StateDescription dest | Some d \<Rightarrow> d) (task_id t)))"

definition recordProgress ::
  "('w, 'z) services_scheme \<Rightarrow> task \<Rightarrow> json option \<Rightarrow> (('w, 'y) repo_state_scheme, task_error, bool) act" where
  "recordProgress E t statusDescription = bnd (now E) (\<lambda>n.
     case statusDescription of
       None \<Rightarrow> throw (Failure ''ER_BAD_NULL_ERROR'')
     | Some d \<Rightarrow> change t (\<lambda>r. row_id r = task_id t \<and> row_state r = ACTIVE)
         (stmt_recordProgress n d (task_id t)))"

definition grantSlot ::
  "('w, 'z) services_scheme \<Rightarrow> task \<Rightarrow> (('w, 'y) repo_state_scheme, task_error, int option) act" where
  "grantSlot E t = bnd (now E) (\<lambda>slot.
     bnd (query_update (\<lambda>r. row_id r = task_id t \<and> row_state r = ACTIVE \<and> row_slot r = None)
       (stmt_grantSlot slot (task_id t))) (\<lambda>affectedRows.
     ret (if affectedRows \<noteq> 0 then Some slot else None)))"

definition renewSlot ::
  "('w, 'z) services_scheme \<Rightarrow> task \<Rightarrow> (('w, 'y) repo_state_scheme, task_error, int option) act" where
  "renewSlot E t = bnd (now E) (\<lambda>slot.
     bnd (query_update (\<lambda>r. row_id r = task_id t \<and> row_state r \<in> set RUNNING_STATES \<and> row_slot r \<noteq> None)
       (stmt_renewSlot slot (task_id t))) (\<lambda>affectedRows.
     ret (if affectedRows \<noteq> 0 then Some slot else None)))"

definition slotTime :: "task \<Rightarrow> (('w, 'y) repo_state_scheme, task_error, int option) act" where
  "slotTime t = select (\<lambda>rs. Option.bind (find (\<lambda>r. row_id r = task_id t) rs) row_slot)"

definition releaseSlot ::
  "task \<Rightarrow> int option \<Rightarrow> (('w, 'y) repo_state_scheme, task_error, int option) act" where
  "releaseSlot t slot = bnd (case slot of Some g \<Rightarrow> ret (Some g) | None \<Rightarrow> slotTime t) (\<lambda>grant.
     case grant of
       None \<Rightarrow> ret None
     | Some g \<Rightarrow> bnd (query_update (\<lambda>r. row_id r = task_id t \<and> row_slot r = Some g)
         (stmt_releaseSlot g (task_id t))) (\<lambda>affectedRows.
         ret (if affectedRows \<noteq> 0 then Some g else None)))"

definition holds_slot :: "task_row \<Rightarrow> bool" where
  "holds_slot r \<longleftrightarrow> row_slot r \<noteq> None \<and> is_running r"

definition slotHolders :: "(('w, 'y) repo_state_scheme, task_error, (string \<times> string) list) act" where
  "slotHolders = select (\<lambda>rs. map (\<lambda>r. (row_id r, row_username r)) (filter holds_slot rs))"

definition resetProgressClock ::
  "('w, 'z) services_scheme \<Rightarrow> (('w, 'y) repo_state_scheme, task_error, unit) act" where
  "resetProgressClock E = bnd (now E) (\<lambda>n.
     andthen (store (stmt_resetProgress n)) (store (stmt_resetCanceling n)))"

definition stalledTasks :: "int \<Rightarrow> (('w, 'y) repo_state_scheme, task_error, task list) act" where
  "stalledTasks before = select (\<lambda>rs. map toTask (filter (\<lambda>r. row_state r = ACTIVE \<and>
     (case row_progress r of None \<Rightarrow> False | Some p \<Rightarrow> p < before)) rs))"

definition cancelingSince :: "int \<Rightarrow> (('w, 'y) repo_state_scheme, task_error, task list) act" where
  "cancelingSince before = select (\<lambda>rs. map toTask
     (filter (\<lambda>r. row_state r = CANCELING \<and> row_updated r < before) rs))"

definition findByApiKeyHash :: "string \<Rightarrow> (('w, 'y) repo_state_scheme, task_error, task option) act" where
  "findByApiKeyHash h = select (\<lambda>rs. map_option toTask
     (find (\<lambda>r. row_apiKeyHash r = Some h \<and> row_state r \<in> set RUNNING_STATES) rs))"

definition remove_task :: "task \<Rightarrow> (('w, 'y) repo_state_scheme, task_error, bool) act" where
  "remove_task t = change t (\<lambda>r. row_id r = task_id t \<and> \<not> row_removed r) (stmt_remove (task_id t))"

definition removeFinishedUserTasks ::
  "string \<Rightarrow> string list \<Rightarrow> (('w, 'y) repo_state_scheme, task_error, unit) act" where
  "removeFinishedUserTasks u ids = (if ids = [] then ret ()
     else bnd (query_update (removable u ids) (stmt_removeFinished u ids)) (\<lambda>affectedRows.
       if affectedRows \<noteq> 0 then onChange u else ret ()))"

subsection \<open>Every method is a sequence of statements\<close>

definition repo_evolves :: "('w, 'y) repo_state_scheme \<Rightarrow> ('w, 'y) repo_state_scheme \<Rightarrow> bool" where
  "repo_evolves s t \<longleftrightarrow> task_stmt\<^sup>*\<^sup>* (rows s) (rows t)"

interpretation repo: evolution "repo_evolves :: ('w, 'y) repo_state_scheme \<Rightarrow> _"
  by unfold_locales (auto simp: repo_evolves_def)

definition repo_updates :: "('w, 'y) repo_state_scheme \<Rightarrow> ('w, 'y) repo_state_scheme \<Rightarrow> bool" where
  "repo_updates s t \<longleftrightarrow> task_update\<^sup>*\<^sup>* (rows s) (rows t)"

interpretation upd: evolution "repo_updates :: ('w, 'y) repo_state_scheme \<Rightarrow> _"
  by unfold_locales (auto simp: repo_updates_def)

definition repo_quiet :: "('w, 'y) repo_state_scheme \<Rightarrow> ('w, 'y) repo_state_scheme \<Rightarrow> bool" where
  "repo_quiet s t \<longleftrightarrow> task_quiet\<^sup>*\<^sup>* (rows s) (rows t)"

interpretation quiet: evolution "repo_quiet :: ('w, 'y) repo_state_scheme \<Rightarrow> _"
  by unfold_locales (auto simp: repo_quiet_def)

lemma runs_quiet_updates [intro]: "runs_in repo_quiet m \<Longrightarrow> runs_in repo_updates m"
  by (auto simp: runs_in_def repo_updates_def repo_quiet_def intro: quiet_updates)

lemma updates_evolves [intro]: "runs_in repo_updates m \<Longrightarrow> runs_in repo_evolves m"
  by (auto simp: runs_in_def repo_updates_def repo_evolves_def intro: updates_stmts)

lemma repo_evolves_same [simp]: "rows t = rows s \<Longrightarrow> repo_evolves s t"
  by (simp add: repo_evolves_def)

lemma repo_quiet_same [simp]: "rows t = rows s \<Longrightarrow> repo_quiet s t"
  by (simp add: repo_quiet_def)

lemma repo_updates_same [simp]: "rows t = rows s \<Longrightarrow> repo_updates s t"
  by (simp add: repo_updates_def)

lemma runs_in_now [intro!, simp]: "runs_in repo_quiet (now E)"
  by (auto simp: now_def intro!: quiet.runs_in_state_act split: prod.splits)

lemma runs_in_onChange [intro!, simp]: "runs_in repo_quiet (onChange u)"
  by (auto simp: onChange_def intro!: quiet.runs_in_modify)

lemma runs_in_select [intro!, simp]: "runs_in repo_quiet (select f)"
  by (auto simp: select_def)

lemma runs_in_store: "(\<And>rs. task_quiet rs (f rs)) \<Longrightarrow> runs_in repo_quiet (store f)"
  unfolding store_def by (rule quiet.runs_in_modify) (simp add: repo_quiet_def r_into_rtranclp)

lemma runs_in_query_update:
  "(\<And>rs. task_quiet rs (f rs)) \<Longrightarrow> runs_in repo_quiet (query_update P f)"
  by (auto simp: query_update_def intro: runs_in_store)

lemma runs_in_change: "(\<And>rs. task_quiet rs (f rs)) \<Longrightarrow> runs_in repo_quiet (change t P f)"
  by (auto simp: change_def intro: runs_in_query_update)

lemma runs_in_activate [intro!]: "runs_in repo_updates (activate E t h)"
proof -
  have "runs_in repo_updates (bnd (select (\<lambda>rs. Some h \<in> row_apiKeyHash ` set rs)) (\<lambda>duplicate.
     if duplicate then throw (Failure ''ER_DUP_ENTRY'') else change t P (stmt_activate n h i)))" for n P i
    by (auto simp: runs_in_def bnd_run andthen_run change_def query_update_def select_def store_def
        onChange_def repo_updates_def intro: task_update.Activate)
  then show ?thesis
    unfolding activate_def by (rule upd.runs_in_bnd [OF runs_quiet_updates [OF runs_in_now]])
qed

lemma runs_in_transition [intro]:
  "(\<And>s. s \<in> set from \<Longrightarrow> task_edge s dest) \<Longrightarrow> dest \<noteq> ACTIVE \<Longrightarrow>
   runs_in repo_quiet (transition E t from dest d)"
  unfolding transition_def
  by (intro quiet.runs_in_bnd runs_in_now runs_in_change task_quiet.Transition) auto

lemma runs_in_recordProgress [intro!]: "runs_in repo_quiet (recordProgress E t d)"
  unfolding recordProgress_def
  by (auto split: option.splits intro!: runs_in_change task_quiet.Progress)

lemma runs_in_grantSlot [intro!]: "runs_in repo_quiet (grantSlot E t)"
  unfolding grantSlot_def by (auto intro!: runs_in_query_update task_quiet.Grant)

lemma runs_in_renewSlot [intro!]: "runs_in repo_quiet (renewSlot E t)"
  unfolding renewSlot_def by (intro quiet.runs_in_bnd runs_in_now runs_in_query_update
      task_quiet.Renew quiet.runs_in_ret)

lemma runs_in_slotTime [intro!]: "runs_in repo_quiet (slotTime t)"
  by (auto simp: slotTime_def)

lemma runs_in_releaseSlot [intro!]: "runs_in repo_quiet (releaseSlot t slot)"
  unfolding releaseSlot_def
  by (auto split: option.splits intro!: quiet.runs_in_bnd runs_in_query_update task_quiet.Release)

lemma runs_in_resetProgressClock [intro!]: "runs_in repo_quiet (resetProgressClock E)"
  unfolding resetProgressClock_def
  by (auto intro!: runs_in_store task_quiet.ResetProgress task_quiet.ResetCanceling)

lemma runs_in_remove_task [intro!]: "runs_in repo_quiet (remove_task t)"
  unfolding remove_task_def by (auto intro!: runs_in_change task_quiet.Remove)

lemma runs_in_removeFinishedUserTasks [intro!]: "runs_in repo_quiet (removeFinishedUserTasks u ids)"
  unfolding removeFinishedUserTasks_def
  by (auto intro!: runs_in_query_update task_quiet.RemoveFinished)

lemma runs_in_reads [intro!]:
  "runs_in repo_quiet (getTask i)" "runs_in repo_quiet (userTasks u)"
  "runs_in repo_quiet (pendingTasks n us)" "runs_in repo_quiet runningTasks"
  "runs_in repo_quiet countRunning" "runs_in repo_quiet countRunningByUser"
  "runs_in repo_quiet slotHolders" "runs_in repo_quiet (stalledTasks b)"
  "runs_in repo_quiet (cancelingSince b)" "runs_in repo_quiet (findByApiKeyHash h)"
  by (auto simp: getTask_def userTasks_def pendingTasks_def runningTasks_def countRunning_def
      countRunningByUser_def slotHolders_def stalledTasks_def cancelingSince_def findByApiKeyHash_def)

lemma runs_in_insert_task [intro!]:
  assumes "task_state t = PENDING"
  shows "runs_in repo_evolves (insert_task t)"
proof -
  have "new_row (row_of_task t c u)" for c u
    using assms by (simp add: new_row_def row_of_task_def)
  moreover have "row_id (row_of_task t c u) = task_id t" for c u
    by (simp add: row_of_task_def)
  ultimately have "task_stmt rs (rs @ [row_of_task t c u])"
    if "task_id t \<notin> row_id ` set rs" for rs c u
    using that by (auto intro: task_stmt.Insert)
  then show ?thesis
    by (auto simp: runs_in_def insert_task_def bnd_run andthen_run select_def store_def onChange_def
        repo_evolves_def split: option.splits)
qed

text \<open>What a caller may rely on, whatever it called.\<close>

lemma evolves_table_ok: "runs_in repo_evolves m \<Longrightarrow> table_ok (rows s) \<Longrightarrow> table_ok (rows (snd (m s)))"
  using task_stmts_ok runs_inD [of repo_evolves m s] by (auto simp: repo_evolves_def)

lemma evolves_rows_later: "runs_in repo_evolves m \<Longrightarrow> rows_later (rows s) (rows (snd (m s)))"
  using task_stmts_later runs_inD [of repo_evolves m s] by (auto simp: repo_evolves_def)

subsection \<open>Methods on one task touch that task only\<close>

definition touch :: "string \<Rightarrow> task_row list \<Rightarrow> task_row list \<Rightarrow> bool" where
  "touch i rs qs \<longleftrightarrow> list_all2 (\<lambda>r q. row_id q = row_id r \<and> (row_id r = i \<or> q = r)) rs qs"

lemma touch_refl [simp, intro]: "touch i rs rs"
  by (simp add: touch_def list.rel_refl)

lemma touch_trans: "touch i rs qs \<Longrightarrow> touch i qs ps \<Longrightarrow> touch i rs ps"
  by (fastforce simp: touch_def list_all2_conv_all_nth)

lemma touch_update:
  "(\<And>r. row_id (f r) = row_id r) \<Longrightarrow> (\<And>r. P r \<Longrightarrow> row_id r = i) \<Longrightarrow> touch i rs (sql_update P f rs)"
  by (induction rs) (auto simp: touch_def)

lemma touch_matched:
  assumes "touch i rs qs" and "distinct (map row_id rs)" and "r \<in> set rs" and "row_id r = i"
    and "q \<in> set qs" and "row_id q = i"
  shows "sql_matched P qs + (if P r then 1 else 0) = sql_matched P rs + (if P q then 1 else 0)"
  using assms unfolding touch_def
proof (induction rs qs)
  case Nil
  then show ?case by simp
next
  case (Cons a as b bs)
  show ?case
  proof (cases "row_id a = i")
    case True
    with Cons.prems have "i \<notin> row_id ` set as" by auto
    moreover have "map row_id bs = map row_id as"
      using Cons.hyps(2) by (induction as bs) auto
    ultimately have "i \<notin> row_id ` set bs" by (metis list.set_map)
    have "list_all2 (\<lambda>r q. row_id q = row_id r \<and> (row_id r = i \<or> q = r)) as bs \<Longrightarrow>
        i \<notin> row_id ` set as \<Longrightarrow> bs = as"
      by (induction as bs rule: list_all2_induct) auto
    with Cons.hyps(2) \<open>i \<notin> row_id ` set as\<close> have "bs = as" by blast
    moreover have "r = a"
      using Cons.prems(2,3) \<open>i \<notin> row_id ` set as\<close> by auto
    moreover have "q = b"
      using Cons.prems(4,5) \<open>i \<notin> row_id ` set bs\<close> by (metis imageI set_ConsD)
    ultimately show ?thesis by (simp add: sql_matched_def)
  next
    case False
    with Cons show ?thesis by (auto simp: sql_matched_def)
  qed
qed

definition touches :: "string \<Rightarrow> ('w, 'y) repo_state_scheme \<Rightarrow> ('w, 'y) repo_state_scheme \<Rightarrow> bool" where
  "touches i s t \<longleftrightarrow> touch i (rows s) (rows t)"

interpretation tch: evolution "touches i :: ('w, 'y) repo_state_scheme \<Rightarrow> _" for i
  by unfold_locales (auto simp: touches_def intro: touch_trans)

lemma touches_same: "rows t = rows s \<Longrightarrow> touches i s t"
  by (simp add: touches_def)

lemma touches_reads [intro!]:
  "runs_in (touches i) (now E)" "runs_in (touches i) (onChange u)" "runs_in (touches i) (select f)"
  by (auto simp: now_def onChange_def select_def touches_same intro!: tch.runs_in_state_act
      tch.runs_in_modify split: prod.splits)

lemma touches_query_update:
  "(\<And>rs. touch i rs (f rs)) \<Longrightarrow> runs_in (touches i) (query_update P f)"
  unfolding query_update_def store_def
  by (intro tch.runs_in_bnd tch.runs_in_andthen tch.runs_in_modify touches_reads tch.runs_in_ret)
     (simp add: touches_def)

lemma touches_change: "(\<And>rs. touch i rs (f rs)) \<Longrightarrow> runs_in (touches i) (change t P f)"
  unfolding change_def
  by (intro tch.runs_in_bnd tch.runs_in_andthen tch.runs_in_if touches_query_update touches_reads
      tch.runs_in_ret)

lemma touches_activate [intro!]: "runs_in (touches (task_id t)) (activate E t h)"
  unfolding activate_def
  by (intro tch.runs_in_bnd tch.runs_in_if touches_reads touches_change tch.runs_in_throw)
     (auto simp: stmt_activate_def intro: touch_update)

lemma touches_transition [intro!]: "runs_in (touches (task_id t)) (transition E t from dest d)"
  unfolding transition_def
  by (intro tch.runs_in_bnd touches_reads touches_change)
     (auto simp: stmt_transition_def intro: touch_update)

lemma touches_releaseSlot [intro!]: "runs_in (touches (task_id t)) (releaseSlot t slot)"
proof -
  have "runs_in (touches (task_id t)) (slotTime t)" by (auto simp: slotTime_def)
  then show ?thesis
    unfolding releaseSlot_def
    by (auto split: option.splits intro!: tch.runs_in_bnd touches_query_update touch_update
        simp: stmt_releaseSlot_def)
qed

end
