(* ===== verification/LocalProcessingSlots.thy ===== *)
theory LocalProcessingSlots
  imports Prelude "HOL-Library.Product_Lexorder"
begin

text \<open>
  The line for local processing slots (\<^verbatim>\<open>modules/task-manager/src/localProcessingSlots.js\<close>). The
  JavaScript \<^verbatim>\<open>Map\<close> of waiters is a list in insertion order; \<open>set\<close> on a present key keeps its
  position. Times are milliseconds.
\<close>

record waiter =
  w_id :: string
  w_username :: string
  w_since :: int
  w_seen :: int

definition ABANDONED_AFTER_MS :: int where
  "ABANDONED_AFTER_MS = 30 * 1000"

definition waiters_get :: "waiter list \<Rightarrow> string \<Rightarrow> waiter option" where
  "waiters_get ws i = find (\<lambda>w. w_id w = i) ws"

fun waiters_set :: "waiter list \<Rightarrow> waiter \<Rightarrow> waiter list" where
  "waiters_set [] x = [x]"
| "waiters_set (w # ws) x = (if w_id w = w_id x then x # ws else w # waiters_set ws x)"

definition waiters_delete :: "waiter list \<Rightarrow> string \<Rightarrow> waiter list" where
  "waiters_delete ws i = filter (\<lambda>w. w_id w \<noteq> i) ws"

definition isWaiting :: "waiter list \<Rightarrow> string \<Rightarrow> bool" where
  "isWaiting ws i \<longleftrightarrow> list_ex (\<lambda>w. w_id w = i) ws"

definition dropAbandoned :: "int \<Rightarrow> waiter list \<Rightarrow> waiter list" where
  "dropAbandoned now ws = filter (\<lambda>w. \<not> now - w_seen w > ABANDONED_AFTER_MS) ws"

definition held :: "(string \<times> nat) list \<Rightarrow> waiter \<Rightarrow> nat" where
  "held heldByUser w = (case map_of heldByUser (w_username w) of None \<Rightarrow> 0 | Some n \<Rightarrow> n)"

definition turn_key :: "(string \<times> nat) list \<Rightarrow> waiter \<Rightarrow> nat \<times> int" where
  "turn_key heldByUser w = (held heldByUser w, w_since w)"

definition inTurn :: "int \<Rightarrow> (string \<times> nat) list \<Rightarrow> waiter list \<Rightarrow> string list" where
  "inTurn free heldByUser ws =
     map w_id (take (nat (max 0 free)) (sort_key (turn_key heldByUser) ws))"

definition enrolled :: "string \<Rightarrow> string \<Rightarrow> int \<Rightarrow> waiter list \<Rightarrow> waiter list" where
  "enrolled i u now ws = dropAbandoned now (waiters_set ws
     \<lparr>w_id = i, w_username = u,
      w_since = (case waiters_get ws i of None \<Rightarrow> now | Some w \<Rightarrow> w_since w), w_seen = now\<rparr>)"

definition request_slot ::
  "string \<Rightarrow> string \<Rightarrow> int \<Rightarrow> (string \<times> nat) list \<Rightarrow> int \<Rightarrow> waiter list \<Rightarrow> bool \<times> waiter list" where
  "request_slot i u free heldByUser now ws = (let line = enrolled i u now ws in
     if i \<in> set (inTurn free heldByUser line) then (True, waiters_delete line i) else (False, line))"

lemmas slot_eval = request_slot_def Let_def enrolled_def inTurn_def waiters_get_def dropAbandoned_def
  ABANDONED_AFTER_MS_def turn_key_def held_def waiters_delete_def

section \<open>The line keeps one place per task\<close>

definition line_ok :: "waiter list \<Rightarrow> bool" where
  "line_ok ws \<longleftrightarrow> distinct (map w_id ws)"

lemma ids_waiters_set: "w_id ` set (waiters_set ws x) = insert (w_id x) (w_id ` set ws)"
  by (induction ws) auto

lemma line_ok_set [intro]: "line_ok ws \<Longrightarrow> line_ok (waiters_set ws x)"
  by (induction ws) (auto simp: line_ok_def ids_waiters_set)

lemma line_ok_delete [intro]: "line_ok ws \<Longrightarrow> line_ok (waiters_delete ws i)"
  by (simp add: line_ok_def waiters_delete_def distinct_map_filter)

lemma line_ok_drop [intro]: "line_ok ws \<Longrightarrow> line_ok (dropAbandoned now ws)"
  by (simp add: line_ok_def dropAbandoned_def distinct_map_filter)

lemma line_ok_enrolled [intro]: "line_ok ws \<Longrightarrow> line_ok (enrolled i u now ws)"
  by (auto simp: enrolled_def)

lemma line_ok_request: "line_ok ws \<Longrightarrow> line_ok (snd (request_slot i u free hb now ws))"
  by (auto simp: request_slot_def Let_def)

lemma in_waiters_set: "x \<in> set (waiters_set ws x)"
  by (induction ws) auto

definition enrollee :: "string \<Rightarrow> string \<Rightarrow> int \<Rightarrow> waiter list \<Rightarrow> waiter" where
  "enrollee i u now ws = \<lparr>w_id = i, w_username = u,
     w_since = (case waiters_get ws i of None \<Rightarrow> now | Some w \<Rightarrow> w_since w), w_seen = now\<rparr>"

lemma enrollee_id [simp]: "w_id (enrollee i u now ws) = i"
  by (simp add: enrollee_def)

lemma enrollee_in: "enrollee i u now ws \<in> set (enrolled i u now ws)"
proof -
  have "enrollee i u now ws \<in> set (waiters_set ws (enrollee i u now ws))"
    by (rule in_waiters_set)
  moreover have "\<not> now - w_seen (enrollee i u now ws) > ABANDONED_AFTER_MS"
    by (simp add: enrollee_def ABANDONED_AFTER_MS_def)
  ultimately show ?thesis
    by (simp add: enrolled_def dropAbandoned_def enrollee_def)
qed

lemma granted_in_turn:
  assumes "line_ok ws" and "request_slot i u free hb now ws = (True, ws')"
  shows "enrollee i u now ws \<in>
    set (take (nat (max 0 free)) (sort_key (turn_key hb) (enrolled i u now ws)))"
proof -
  let ?line = "enrolled i u now ws"
  from assms(2) have "i \<in> set (inTurn free hb ?line)"
    by (auto simp: request_slot_def Let_def split: if_splits)
  then obtain w where w: "w \<in> set (take (nat (max 0 free)) (sort_key (turn_key hb) ?line))"
    and "w_id w = i"
    by (auto simp: inTurn_def)
  then have "w \<in> set ?line" by (auto dest: in_set_takeD)
  moreover from assms(1) have "distinct (map w_id ?line)"
    using line_ok_enrolled line_ok_def by blast
  ultimately have "w = enrollee i u now ws"
    using enrollee_in \<open>w_id w = i\<close> by (metis enrollee_id map_of_key_unique)
  with w show ?thesis by simp
qed

text \<open>A grant needs a free slot.\<close>

lemma granted_free: "request_slot i u free hb now ws = (True, ws') \<Longrightarrow> 0 < free"
  by (cases "0 < free") (auto simp: request_slot_def inTurn_def Let_def split: if_splits)

lemma enrolled_deleted:
  "request_slot i u free hb now ws = (True, ws') \<Longrightarrow> \<not> isWaiting ws' i"
  by (auto simp: request_slot_def Let_def waiters_delete_def isWaiting_def list_ex_iff split: if_splits)

lemma refused_not_in_turn:
  "request_slot i u free hb now ws = (False, ws') \<Longrightarrow> ws' = enrolled i u now ws \<and>
   enrollee i u now ws \<notin> set (take (nat (max 0 free)) (sort_key (turn_key hb) (enrolled i u now ws)))"
  by (force simp: request_slot_def inTurn_def Let_def split: if_splits)

section \<open>Fairness\<close>

text \<open>
  A request is granted only when fewer than the number of free slots live waiters are ahead of
  it, by slots already held by their user and then by how long they have waited; it is refused only
  when at least that many others are ahead of it or level with it.
\<close>

theorem request_slot_in_turn:
  assumes "line_ok ws" and "request_slot i u free hb now ws = (granted, ws')"
  shows "if granted
    then int (length (filter (\<lambda>w. turn_key hb w < turn_key hb (enrollee i u now ws))
           (enrolled i u now ws))) < free
    else free \<le> int (length (filter
           (\<lambda>w. turn_key hb w \<le> turn_key hb (enrollee i u now ws) \<and> w \<noteq> enrollee i u now ws)
           (enrolled i u now ws)))"
proof (cases granted)
  case True
  with assms have g: "request_slot i u free hb now ws = (True, ws')" by simp
  from take_sort_key_few [OF granted_in_turn [OF assms(1) g]] granted_free [OF g] True
  show ?thesis by (simp add: max_def split: if_splits)
next
  case False
  with assms(2) have "request_slot i u free hb now ws = (False, ws')" by simp
  from not_take_sort_key_many [OF enrollee_in conjunct2 [OF refused_not_in_turn [OF this]]] False
  show ?thesis by simp
qed

theorem request_slot_in_turn_witness:
  "request_slot ''b'' ''bob'' 1 [(''ann'', 1)] 9 [\<lparr>w_id = ''a'', w_username = ''ann'', w_since = 1, w_seen = 5\<rparr>]
     = (True, [\<lparr>w_id = ''a'', w_username = ''ann'', w_since = 1, w_seen = 5\<rparr>]) \<and>
   int (length (filter
     (\<lambda>w. turn_key [(''ann'', 1)] w < turn_key [(''ann'', 1)] (enrollee ''b'' ''bob'' 9
        [\<lparr>w_id = ''a'', w_username = ''ann'', w_since = 1, w_seen = 5\<rparr>]))
     (enrolled ''b'' ''bob'' 9 [\<lparr>w_id = ''a'', w_username = ''ann'', w_since = 1, w_seen = 5\<rparr>]))) < 1"
proof -
  let ?ws = "[\<lparr>w_id = ''a'', w_username = ''ann'', w_since = 1, w_seen = 5\<rparr>]"
  have run: "request_slot ''b'' ''bob'' 1 [(''ann'', 1)] 9 ?ws = (True, ?ws)" by (simp add: slot_eval)
  have "line_ok ?ws" by (simp add: line_ok_def)
  from request_slot_in_turn [OF this run] run show ?thesis by simp
qed

lemma waiters_get_set_same: "waiters_get (waiters_set ws x) (w_id x) = Some x"
  by (induction ws) (auto simp: waiters_get_def)

lemma waiters_get_set_other:
  "i \<noteq> w_id x \<Longrightarrow> waiters_get (waiters_set ws x) i = waiters_get ws i"
  by (induction ws) (auto simp: waiters_get_def)

lemma waiters_get_filter:
  "line_ok ws \<Longrightarrow> waiters_get (filter P ws) i =
     (case waiters_get ws i of None \<Rightarrow> None | Some w \<Rightarrow> if P w then Some w else None)"
proof (induction ws)
  case Nil
  then show ?case by (simp add: waiters_get_def)
next
  case (Cons w ws)
  show ?case
  proof (cases "w_id w = i")
    case True
    from Cons.prems have "w_id w \<notin> w_id ` set ws" by (simp add: line_ok_def)
    with True have "\<forall>v \<in> set ws. w_id v \<noteq> i" by (metis imageI)
    with True show ?thesis by (simp add: waiters_get_def find_None_key)
  next
    case False
    with Cons show ?thesis by (simp add: waiters_get_def line_ok_def)
  qed
qed

lemma waiters_get_enrolled:
  assumes "line_ok ws"
  shows "waiters_get (enrolled i u now ws) j =
    (if j = i then Some (enrollee i u now ws)
     else case waiters_get ws j of None \<Rightarrow> None
       | Some w \<Rightarrow> if now - w_seen w > ABANDONED_AFTER_MS then None else Some w)"
proof -
  have "waiters_get (waiters_set ws (enrollee i u now ws)) j =
    (if j = i then Some (enrollee i u now ws) else waiters_get ws j)"
    using waiters_get_set_same [of ws "enrollee i u now ws"]
      waiters_get_set_other [of j "enrollee i u now ws" ws] by auto
  moreover have "\<not> now - w_seen (enrollee i u now ws) > ABANDONED_AFTER_MS"
    by (simp add: enrollee_def ABANDONED_AFTER_MS_def)
  ultimately show ?thesis
    using assms
    by (auto simp: enrolled_def dropAbandoned_def enrollee_def [symmetric] waiters_get_filter
        line_ok_set split: option.splits)
qed

text \<open>
  Asking again does not jump the line and does not cost the place in it: after a refused request
  the task waits since the moment it first asked, and every other waiter that was seen in the
  last thirty seconds is untouched.
\<close>

theorem request_slot_keeps_places:
  assumes "line_ok ws" and "request_slot i u free hb now ws = (False, ws')"
  shows "(\<exists>w. waiters_get ws' i = Some w \<and> w_seen w = now \<and>
      w_since w = (case waiters_get ws i of None \<Rightarrow> now | Some v \<Rightarrow> w_since v)) \<and>
    (\<forall>j w. j \<noteq> i \<and> waiters_get ws j = Some w \<and> now - w_seen w \<le> ABANDONED_AFTER_MS \<longrightarrow>
      waiters_get ws' j = Some w)"
proof -
  from refused_not_in_turn [OF assms(2)] have ws': "ws' = enrolled i u now ws" ..
  have "waiters_get ws' j = Some w"
    if "j \<noteq> i" "waiters_get ws j = Some w" "now - w_seen w \<le> ABANDONED_AFTER_MS" for j w
    using that by (simp add: ws' waiters_get_enrolled [OF assms(1)])
  moreover have "\<exists>w. waiters_get ws' i = Some w \<and> w_seen w = now \<and>
      w_since w = (case waiters_get ws i of None \<Rightarrow> now | Some v \<Rightarrow> w_since v)"
    by (simp add: ws' waiters_get_enrolled [OF assms(1)] enrollee_def)
  ultimately show ?thesis by blast
qed

theorem request_slot_keeps_places_witness:
  "\<exists>ws'. request_slot ''a'' ''ann'' 0 [] 9 [\<lparr>w_id = ''a'', w_username = ''ann'', w_since = 1, w_seen = 5\<rparr>]
     = (False, ws') \<and> (\<exists>w. waiters_get ws' ''a'' = Some w \<and> w_since w = 1)"
proof -
  let ?ws = "[\<lparr>w_id = ''a'', w_username = ''ann'', w_since = 1, w_seen = 5\<rparr>]"
  have run: "request_slot ''a'' ''ann'' 0 [] 9 ?ws =
    (False, [\<lparr>w_id = ''a'', w_username = ''ann'', w_since = 1, w_seen = 9\<rparr>])" by (simp add: slot_eval)
  have "line_ok ?ws" by (simp add: line_ok_def)
  from request_slot_keeps_places [OF this run] run show ?thesis
    by (auto simp: waiters_get_def)
qed

end
