(* ===== verification/ContainerSpec.thy ===== *)
theory ContainerSpec
  imports TaskModel
begin

text \<open>
  What a task's container is created with (\<^verbatim>\<open>containerSpec.js\<close>), the daemon calls the supervisor makes
  (\<^verbatim>\<open>dockerEngine.js\<close>) and the outcome file a container leaves (\<^verbatim>\<open>taskWorkspace.js\<close>).
\<close>

definition LABEL_MANAGED :: string where
  "LABEL_MANAGED = ''org.openforis.sepal.task-manager''"

definition LABEL_TASK_ID :: string where
  "LABEL_TASK_ID = ''org.openforis.sepal.task-id''"

definition LABEL_USERNAME :: string where
  "LABEL_USERNAME = ''org.openforis.sepal.username''"

definition CONTAINER_HOME :: string where
  "CONTAINER_HOME = ''/home/sepal-user''"

definition SOURCE :: string where
  "SOURCE = ''/usr/local/src/sepal''"

definition TASK_NETWORK :: string where
  "TASK_NETWORK = ''sepal-task''"

definition CPU_SHARES :: int where "CPU_SHARES = 256"
definition OOM_SCORE_ADJ :: int where "OOM_SCORE_ADJ = 500"
definition PIDS_LIMIT :: int where "PIDS_LIMIT = 1024"

record spec_config =
  deployEnvironment :: string
  dockerRegistryHost :: string
  sepalVersion :: string
  sepalHostDataDir :: string
  sepalHostProjectDir :: string
  syslogAddress :: string  \<comment> \<open>empty when unset\<close>
  taskMemoryMb :: rat
  taskCpus :: rat

record container_spec =
  spec_name :: string
  spec_Image :: string
  spec_Labels :: "(string \<times> string) list"
  spec_Env :: "string list"
  spec_Binds :: "string list"
  spec_Init :: bool
  spec_RestartPolicy :: string
  spec_Memory :: rat
  spec_MemorySwap :: rat
  spec_NanoCpus :: int
  spec_CpuShares :: int
  spec_OomScoreAdj :: int
  spec_PidsLimit :: int
  spec_NetworkMode :: string
  spec_LogConfig :: "(string \<times> string) option"  \<comment> \<open>the syslog address and the tag\<close>

definition containerName :: "task \<Rightarrow> string" where
  "containerName t = ''task.'' @ task_username t @ ''.'' @ task_id t"

definition taskDirectory :: "string \<Rightarrow> string \<Rightarrow> string" where
  "taskDirectory dir taskId = dir @ ''/task-manager/tasks/'' @ taskId"

definition sourceBinds :: "string \<Rightarrow> string list" where
  "sourceBinds projectDir =
     [projectDir @ ''/modules/task/src:'' @ SOURCE @ ''/modules/task/src'',
      projectDir @ ''/lib/js/shared/src:'' @ SOURCE @ ''/lib/js/shared/src'']"

definition home_bind :: "spec_config \<Rightarrow> task \<Rightarrow> string" where
  "home_bind c t = sepalHostDataDir c @ ''/sepal/home/'' @ task_username t @ '':'' @ CONTAINER_HOME"

definition workspace_bind :: "spec_config \<Rightarrow> task \<Rightarrow> string" where
  "workspace_bind c t = taskDirectory (sepalHostDataDir c) (task_id t) @ '':/task''"

definition containerSpec :: "task \<Rightarrow> string \<Rightarrow> spec_config \<Rightarrow> container_spec" where
  "containerSpec t apiKey c =
     (let dev = deployEnvironment c = ''DEV''; memoryMb = taskMemoryMb c in
     \<lparr>spec_name = containerName t,
      spec_Image = dockerRegistryHost c @ ''/openforis/task:'' @ sepalVersion c,
      spec_Labels = [(LABEL_MANAGED, ''true''), (LABEL_TASK_ID, task_id t),
        (LABEL_USERNAME, task_username t)],
      spec_Env =
        [''TASK_ID='' @ task_id t,
         ''TASK_API_KEY='' @ apiKey,
         ''SEPAL_ENDPOINT=http://gateway'',
         ''USERNAME=sepal-user'',
         ''PYTHONNOUSERSITE=1'',
         ''DEPLOY_ENVIRONMENT='' @ deployEnvironment c,
         ''GDAL_CACHEMAX='' @ string_of_int \<lfloor>memoryMb / 4\<rfloor>,
         ''GDAL_NUM_THREADS='' @ string_of_int (max 1 (Math_round (taskCpus c)))],
      spec_Binds = [home_bind c t, workspace_bind c t] @
        (if dev then sourceBinds (sepalHostProjectDir c) else []),
      spec_Init = True,
      spec_RestartPolicy = ''no'',
      spec_Memory = memoryMb * 1024 * 1024,
      spec_MemorySwap = memoryMb * 1024 * 1024,
      spec_NanoCpus = Math_round (taskCpus c * 1000000000),
      spec_CpuShares = CPU_SHARES,
      spec_OomScoreAdj = OOM_SCORE_ADJ,
      spec_PidsLimit = PIDS_LIMIT,
      spec_NetworkMode = TASK_NETWORK,
      spec_LogConfig = (if syslogAddress c = '''' then None
        else Some (syslogAddress c, ''task/'' @ task_username t @ ''/'' @ task_id t))\<rparr>)"

section \<open>Container names\<close>

lemma UUID_length: "UUID_test i \<Longrightarrow> length i = 36"
  by (simp add: UUID_test_def)

lemma append_same_suffix_length:
  "length y = length y' \<Longrightarrow> x @ y = x' @ y' \<Longrightarrow> x = x' \<and> y = y'"
  by (simp add: append_eq_append_conv)

text \<open>
  Two tasks whose identifiers passed the UUID test have the same container name only if they
  have the same owner and the same identifier, so stopping, killing or removing one task's
  container never reaches another task's.
\<close>

theorem containerName_inj:
  assumes "UUID_test (task_id t)" and "UUID_test (task_id u)" and "containerName t = containerName u"
  shows "task_id t = task_id u \<and> task_username t = task_username u"
proof -
  have "(task_username t @ ''.'') @ task_id t = (task_username u @ ''.'') @ task_id u"
    using assms(3) by (simp add: containerName_def)
  with UUID_length [OF assms(1)] UUID_length [OF assms(2)]
  have "task_username t @ ''.'' = task_username u @ ''.'' \<and> task_id t = task_id u"
    by (intro append_same_suffix_length) simp_all
  then show ?thesis by simp
qed

definition example_task :: "string \<Rightarrow> string \<Rightarrow> task" where
  "example_task i u = createTask i PENDING u ''image.GEE'' None None None (Some 1) (Some 1) None"

definition example_uuid :: string where
  "example_uuid = ''0a1b2c3d-0000-4000-8000-00000000000f''"

lemma example_uuid_ok: "UUID_test example_uuid"
  by code_simp

theorem containerName_inj_witness:
  "task_id (example_task example_uuid ''ann'') = example_uuid \<and>
   task_username (example_task example_uuid ''ann'') = ''ann''"
proof -
  have "containerName (example_task example_uuid ''ann'') = containerName (example_task example_uuid ''ann'')"
    by simp
  from containerName_inj [OF _ _ this] example_uuid_ok
  show ?thesis by (simp add: example_task_def createTask_def)
qed

section \<open>The daemon\<close>

text \<open>The answer of one call of the Docker API: done, or refused with an HTTP status (0 for none).\<close>

datatype docker_answer = Done | Refused nat

definition DOCKER_NOT_FOUND :: nat where "DOCKER_NOT_FOUND = 404"
definition DOCKER_NOT_MODIFIED :: nat where "DOCKER_NOT_MODIFIED = 304"
definition DOCKER_CONFLICT :: nat where "DOCKER_CONFLICT = 409"

definition ignoring :: "nat list \<Rightarrow> docker_answer \<Rightarrow> bool" where
  "ignoring statusCodes a = (case a of Done \<Rightarrow> True | Refused c \<Rightarrow> c \<in> set statusCodes)"

record raw_container =
  raw_Name :: string
  raw_Labels :: "(string \<times> string) list"
  raw_State :: string

record container =
  c_name :: string
  c_taskId :: "string option"
  c_running :: bool

definition strip_slash :: "string \<Rightarrow> string" where
  "strip_slash n = (case n of [] \<Rightarrow> [] | c # cs \<Rightarrow> if c = CHR ''/'' then cs else n)"

definition listed :: "raw_container \<Rightarrow> container" where
  "listed r = \<lparr>c_name = strip_slash (raw_Name r),
     c_taskId = map_of (raw_Labels r) LABEL_TASK_ID,
     c_running = (raw_State r = ''running'')\<rparr>"

section \<open>The outcome a container leaves\<close>

text \<open>The states \<open>OUTCOMES\<close> lists.\<close>

fun outcome_state :: "json option \<Rightarrow> task_state option" where
  "outcome_state (Some (JStr s)) =
     (if s = ''COMPLETED'' then Some COMPLETED
      else if s = ''FAILED'' then Some FAILED
      else if s = ''CANCELED'' then Some CANCELED else None)"
| "outcome_state _ = None"

text \<open>\<open>readResult\<close>: \<open>None\<close> for a missing or unreadable file and for an unknown state.\<close>

definition readResult :: "json option \<Rightarrow> (task_state \<times> json option) option" where
  "readResult file = (case file of None \<Rightarrow> None
     | Some result \<Rightarrow> (case outcome_state (json_get result ''state'') of
         None \<Rightarrow> None
       | Some s \<Rightarrow> Some (s, json_get result ''statusDescription'')))"

lemma readResult_finished: "readResult f = Some (s, d) \<Longrightarrow> s \<in> set FINISHED_STATES"
  by (auto simp: readResult_def split: option.splits if_splits elim!: outcome_state.elims)

end
