(* ===== verification/Supervisor.thy ===== *)
theory Supervisor
  imports TaskRepository LocalProcessingSlots ContainerSpec
begin

text \<open>
  The supervisor of task containers (\<^verbatim>\<open>modules/task-manager/src/containerSupervisor.js\<close>). Its work
  runs one piece at a time from a queue; the pieces are the \<open>job\<close>s. The Docker daemon, the disk, the
  clock and the random generator are the functions of \<open>supervisor_services\<close> over an arbitrary world.
\<close>

datatype job = Dispatch | Reconcile | EnforceTimeouts | Collect task

record 'w supervisor_state = "'w repo_state" +
  line :: "waiter list"
  watched :: "string list"
  stopping :: "string list"
  queue :: "job list"

record 'w supervisor_services = "'w services" +
  generateApiKey :: "'w \<Rightarrow> string \<times> 'w"
  hashApiKey :: "string \<Rightarrow> string"
  docker_createContainer :: "container_spec \<Rightarrow> 'w \<Rightarrow> docker_answer \<times> 'w"
  docker_start :: "string \<Rightarrow> 'w \<Rightarrow> docker_answer \<times> 'w"
  docker_listContainers :: "'w \<Rightarrow> raw_container list option \<times> 'w"
  docker_remove :: "string \<Rightarrow> 'w \<Rightarrow> docker_answer \<times> 'w"
  docker_kill :: "string \<Rightarrow> 'w \<Rightarrow> docker_answer \<times> 'w"
  docker_stop :: "string \<Rightarrow> int \<Rightarrow> 'w \<Rightarrow> 'w"  \<comment> \<open>issued, not awaited\<close>
  docker_wait :: "string \<Rightarrow> 'w \<Rightarrow> 'w"  \<comment> \<open>issued, not awaited\<close>
  workspace_prepare :: "task \<Rightarrow> 'w \<Rightarrow> bool \<times> 'w"
  workspace_resultFile :: "string \<Rightarrow> 'w \<Rightarrow> json option \<times> 'w"
  workspace_remove :: "string \<Rightarrow> 'w \<Rightarrow> bool \<times> 'w"

record supervisor_config =
  maxConcurrent :: int
  maxConcurrentPerUser :: int
  maxConcurrentLocalProcessing :: int
  stallTimeoutMs :: int
  cancelTimeoutMs :: int
  stopGraceSeconds :: int
  specConfig :: spec_config

type_synonym ('w, 'a) sup = "('w supervisor_state, task_error, 'a) act"

definition INTERRUPTED :: json where
  "INTERRUPTED = JObj [(''messageKey'', JStr ''tasks.status.interrupted''),
     (''defaultMessage'', JStr ''Interrupted by a server restart. Run the task again.'')]"

definition STALLED :: json where
  "STALLED = JObj [(''messageKey'', JStr ''tasks.status.stalled''),
     (''defaultMessage'', JStr ''The task stopped responding. Run the task again.'')]"

definition LAUNCH_FAILED :: json where
  "LAUNCH_FAILED = JObj [(''messageKey'', JStr ''tasks.status.launchFailed''),
     (''defaultMessage'', JStr ''The task could not be started. Run the task again.'')]"

definition EXITED_UNEXPECTEDLY :: json where
  "EXITED_UNEXPECTEDLY = JObj [(''messageKey'', JStr ''tasks.status.exitedUnexpectedly''),
     (''defaultMessage'', JStr ''The task ended unexpectedly. Run the task again.'')]"

section \<open>Calls of the outside world\<close>

definition outside :: "('w \<Rightarrow> 'a \<times> 'w) \<Rightarrow> ('w, 'a) sup" where
  "outside f = state_act (\<lambda>s. case f (world s) of (a, w) \<Rightarrow> (a, s\<lparr>world := w\<rparr>))"

definition expect :: "string \<Rightarrow> bool \<Rightarrow> ('w, unit) sup" where
  "expect what ok = (if ok then ret () else throw (Failure what))"

definition engine_run :: "'w supervisor_services \<Rightarrow> container_spec \<Rightarrow> ('w, unit) sup" where
  "engine_run E spec =
     bnd (outside (docker_createContainer E spec)) (\<lambda>a. andthen (expect ''create'' (ignoring [] a))
     (bnd (outside (docker_start E (spec_name spec))) (\<lambda>b. expect ''start'' (ignoring [] b))))"

definition engine_list :: "'w supervisor_services \<Rightarrow> ('w, container list) sup" where
  "engine_list E = bnd (outside (docker_listContainers E)) (\<lambda>a.
     case a of None \<Rightarrow> throw (Failure ''list'') | Some cs \<Rightarrow> ret (map listed cs))"

definition engine_kill :: "'w supervisor_services \<Rightarrow> string \<Rightarrow> ('w, unit) sup" where
  "engine_kill E name = bnd (outside (docker_kill E name)) (\<lambda>a.
     expect ''kill'' (ignoring [DOCKER_NOT_FOUND, DOCKER_CONFLICT] a))"

definition engine_remove :: "'w supervisor_services \<Rightarrow> string \<Rightarrow> ('w, unit) sup" where
  "engine_remove E name = bnd (outside (docker_remove E name)) (\<lambda>a.
     expect ''remove'' (ignoring [DOCKER_NOT_FOUND, DOCKER_CONFLICT] a))"

definition remove_workspace :: "'w supervisor_services \<Rightarrow> string \<Rightarrow> ('w, unit) sup" where
  "remove_workspace E i = bnd (outside (workspace_remove E i)) (expect ''rm'')"

section \<open>Local processing slots\<close>

definition countByUser :: "(string \<times> string) list \<Rightarrow> (string \<times> nat) list" where
  "countByUser holders = count_users (map snd holders)"

definition requestSlot_job ::
  "'w supervisor_services \<Rightarrow> supervisor_config \<Rightarrow> task \<Rightarrow> ('w, int option) sup" where
  "requestSlot_job E C t = bnd slotHolders (\<lambda>holders.
     if list_ex (\<lambda>(i, _). i = task_id t) holders then renewSlot E t
     else bnd (getTask (task_id t)) (\<lambda>current. case current of
       None \<Rightarrow> ret None
     | Some cur \<Rightarrow> if task_state cur \<noteq> ACTIVE then ret None
         else bnd (now E) (\<lambda>n.
           bnd (gets line) (\<lambda>ws.
           let (inTurn, ws') = request_slot (task_id cur) (task_username cur)
             (maxConcurrentLocalProcessing C - int (length holders)) (countByUser holders) n ws in
           andthen (modify (\<lambda>s. s\<lparr>line := ws'\<rparr>))
             (if \<not> inTurn then ret None else grantSlot E cur)))))"

definition releaseSlot_job :: "task \<Rightarrow> int option \<Rightarrow> ('w, unit) sup" where
  "releaseSlot_job t slot = bnd (releaseSlot t slot) (\<lambda>_. ret ())"

section \<open>Ending a container\<close>

definition forgetSlot :: "task \<Rightarrow> ('w, unit) sup" where
  "forgetSlot t = andthen (modify (\<lambda>s. s\<lparr>line := waiters_delete (line s) (task_id t)\<rparr>))
     (releaseSlot_job t None)"

definition discard :: "'w supervisor_services \<Rightarrow> task \<Rightarrow> ('w, unit) sup" where
  "discard E t = finally_do (engine_remove E (containerName t))
     (andthen (remove_workspace E (task_id t)) (forgetSlot t))"

definition kill :: "'w supervisor_services \<Rightarrow> task \<Rightarrow> ('w, unit) sup" where
  "kill E t = andthen (engine_kill E (containerName t)) (discard E t)"

text \<open>A container is stopped once until the stop settles (\<open>stop_settles\<close>).\<close>

definition stop_container :: "'w supervisor_services \<Rightarrow> supervisor_config \<Rightarrow> task \<Rightarrow> ('w, unit) sup" where
  "stop_container E C t = modify (\<lambda>s. if task_id t \<in> set (stopping s) then s
     else s\<lparr>stopping := stopping s @ [task_id t],
            world := docker_stop E (containerName t) (stopGraceSeconds C) (world s)\<rparr>)"

definition stop_settles :: "task \<Rightarrow> ('w, unit) sup" where
  "stop_settles t = modify (\<lambda>s. s\<lparr>stopping := removeAll (task_id t) (stopping s)\<rparr>)"

definition watch :: "'w supervisor_services \<Rightarrow> task \<Rightarrow> ('w, unit) sup" where
  "watch E t = modify (\<lambda>s. if task_id t \<in> set (watched s) then s
     else s\<lparr>watched := watched s @ [task_id t], world := docker_wait E (containerName t) (world s)\<rparr>)"

text \<open>The wait of a watched container settles; a container that exited is collected.\<close>

definition wait_settles :: "task \<Rightarrow> bool \<Rightarrow> ('w, unit) sup" where
  "wait_settles t exited = modify (\<lambda>s. s\<lparr>queue := (if exited then queue s @ [Collect t] else queue s),
     watched := removeAll (task_id t) (watched s)\<rparr>)"

section \<open>Dispatching\<close>

text \<open>The part of a launch that follows the activation.\<close>

definition launch_activated ::
  "'w supervisor_services \<Rightarrow> supervisor_config \<Rightarrow> task \<Rightarrow> string \<Rightarrow> ('w, bool) sup" where
  "launch_activated E C t apiKey = bnd (catching
       (andthen (bnd (outside (workspace_prepare E t)) (expect ''prepare''))
         (andthen (engine_run E (containerSpec t apiKey (specConfig C))) (ret True)))
       (\<lambda>_. andthen (bnd (transition E t RUNNING_STATES FAILED (Some LAUNCH_FAILED)) (\<lambda>_. ret ()))
         (andthen (discard E t) (ret False))))
     (\<lambda>started. if \<not> started then ret False else andthen (watch E t) (ret True))"

definition launch :: "'w supervisor_services \<Rightarrow> supervisor_config \<Rightarrow> task \<Rightarrow> ('w, bool) sup" where
  "launch E C t = bnd (outside (generateApiKey E)) (\<lambda>apiKey.
     bnd (activate E t (hashApiKey E apiKey)) (\<lambda>activated.
     if \<not> activated then ret False else launch_activated E C t apiKey))"

definition usersAtLimit :: "supervisor_config \<Rightarrow> (string \<times> nat) list \<Rightarrow> string list" where
  "usersAtLimit C byUser = map fst (filter (\<lambda>(_, n). int n \<ge> maxConcurrentPerUser C) byUser)"

subsection \<open>The pieces change tasks only through the repository\<close>

lemma runs_in_outside [intro!]: "runs_in repo_quiet (outside f)"
  by (auto simp: outside_def intro!: quiet.runs_in_state_act split: prod.splits)

lemma runs_in_expect [intro!]: "runs_in repo_quiet (expect what ok)"
  by (auto simp: expect_def)

lemma runs_in_engine [intro!]:
  "runs_in repo_quiet (engine_run E spec)" "runs_in repo_quiet (engine_list E)"
  "runs_in repo_quiet (engine_kill E n)" "runs_in repo_quiet (engine_remove E n)"
  "runs_in repo_quiet (remove_workspace E i)"
  by (auto simp: engine_run_def engine_list_def engine_kill_def engine_remove_def
      remove_workspace_def split: option.splits)

lemma runs_in_modify_same:
  "(\<And>s. rows (f s) = rows s) \<Longrightarrow> runs_in repo_quiet (modify f)"
  by (rule quiet.runs_in_modify) simp

lemma runs_in_releaseSlot_job [intro!]: "runs_in repo_quiet (releaseSlot_job t slot)"
  by (auto simp: releaseSlot_job_def)

lemma runs_in_forgetSlot [intro!]: "runs_in repo_quiet (forgetSlot t)"
  by (auto simp: forgetSlot_def intro!: runs_in_modify_same)

lemma runs_in_discard [intro!]: "runs_in repo_quiet (discard E t)"
  by (auto simp: discard_def)

lemma runs_in_kill [intro!]: "runs_in repo_quiet (kill E t)"
  by (auto simp: kill_def)

lemma runs_in_marks [intro!]:
  "runs_in repo_quiet (stop_container E C t)" "runs_in repo_quiet (watch E t)"
  "runs_in repo_quiet (stop_settles t)" "runs_in repo_quiet (wait_settles t b)"
  by (auto simp: stop_container_def watch_def stop_settles_def wait_settles_def
      intro!: runs_in_modify_same)

lemma running_edges: "st \<in> set RUNNING_STATES \<Longrightarrow> dest \<in> set FINISHED_STATES \<Longrightarrow> task_edge st dest"
  by auto

lemma runs_in_finish [intro]:
  assumes "dest \<in> set FINISHED_STATES"
  shows "runs_in repo_quiet (transition E t RUNNING_STATES dest d)"
proof (rule runs_in_transition)
  show "task_edge st dest" if "st \<in> set RUNNING_STATES" for st
    using that assms by (rule running_edges)
  show "dest \<noteq> ACTIVE" using assms by auto
qed

lemma runs_in_launch_activated [intro!]: "runs_in repo_quiet (launch_activated E C t k)"
proof -
  have "runs_in repo_quiet (transition E t RUNNING_STATES FAILED d)" for d
    by (rule runs_in_finish) simp
  then show ?thesis
    unfolding launch_activated_def by (intro quiet.runs_in_bnd quiet.runs_in_if quiet.runs_in_catching
        quiet.runs_in_andthen quiet.runs_in_ret runs_in_outside runs_in_expect
        runs_in_engine runs_in_discard runs_in_marks)
qed

lemma runs_in_launch [intro!]: "runs_in repo_updates (launch E C t)"
  unfolding launch_def by (auto intro!: upd.runs_in_bnd)

lemma runs_in_requestSlot_job [intro!]: "runs_in repo_quiet (requestSlot_job E C t)"
  unfolding requestSlot_job_def Let_def
  by (auto split: option.splits prod.splits intro!: quiet.runs_in_bnd quiet.runs_in_andthen
      runs_in_modify_same)

subsection \<open>The dispatch loop\<close>

definition pending_count :: "task_row list \<Rightarrow> nat" where
  "pending_count rs = sql_matched (\<lambda>r. row_state r = PENDING) rs"

lemma rows_later_pending:
  assumes "rows_later rs qs" and "length qs = length rs"
  shows "pending_count qs \<le> pending_count rs"
proof -
  from assms have "list_all2 row_later rs qs" by (simp add: rows_later_def)
  then show ?thesis
  proof induction
    case Nil
    then show ?case by simp
  next
    case (Cons r rs q qs)
    have "row_state r = PENDING" if "row_state q = PENDING"
      using Cons.hyps(1) that by (auto simp: row_later_def intro: task_life_not_pending)
    with Cons.IH show ?case by (auto simp: pending_count_def sql_matched_def)
  qed
qed

lemma updates_pending: "runs_in repo_updates m \<Longrightarrow> pending_count (rows (snd (m s))) \<le> pending_count (rows s)"
  using runs_inD [of repo_updates m s] task_updates_later
  by (auto simp: repo_updates_def intro: rows_later_pending)

lemma stmt_activate_pending:
  "r \<in> set rs \<Longrightarrow> row_id r = i \<Longrightarrow> row_state r = PENDING \<Longrightarrow>
   pending_count (stmt_activate n h i rs) < pending_count rs"
proof (induction rs)
  case Nil
  then show ?case by simp
next
  case (Cons q qs)
  have le: "pending_count (stmt_activate n h i qs) \<le> pending_count qs"
    by (auto simp: pending_count_def stmt_activate_def sql_matched_def intro: filter_sql_update_le)
  show ?case
  proof (cases "row_id q = i \<and> row_state q = PENDING")
    case True
    with le show ?thesis by (simp add: stmt_activate_def pending_count_def sql_matched_def)
  next
    case False
    with Cons show ?thesis by (auto simp: stmt_activate_def pending_count_def sql_matched_def)
  qed
qed

text \<open>A task that is pending is activated, or the statement rejects.\<close>

lemma activate_pending:
  assumes "r \<in> set (rows s)" and "row_id r = task_id t" and "row_state r = PENDING"
    and "activate E t h s = (Inr b, s')"
  shows "b \<and> pending_count (rows s') < pending_count (rows s)"
proof -
  have "0 < sql_matched (\<lambda>r. row_id r = task_id t \<and> row_state r = PENDING) (rows s)"
    unfolding sql_matched_pos using assms(1-3) by auto
  then show ?thesis
    using assms(4) stmt_activate_pending [OF assms(1-3)]
    by (auto simp: activate_def now_def change_def query_update_def select_def store_def onChange_def
        effect_simps split: prod.splits if_splits)
qed

text \<open>A launch that did not reject went through the activation.\<close>

lemma launchE:
  assumes "launch E C t s = (r, s')"
  obtains (rejected) e where "r = Inl e" and "rows s' = rows s"
  | (inactive) k s1 where "rows s1 = rows s" and "activate E t (hashApiKey E k) s1 = (Inr False, s')"
      and "r = Inr False"
  | (active) k s1 s2 where "rows s1 = rows s" and "activate E t (hashApiKey E k) s1 = (Inr True, s2)"
      and "launch_activated E C t k s2 = (r, s')"
proof -
  obtain k s1 where k: "outside (generateApiKey E) s = (Inr k, s1)" and r1: "rows s1 = rows s"
    by (auto simp: outside_def effect_simps split: prod.splits)
  obtain a s2 where a: "activate E t (hashApiKey E k) s1 = (a, s2)" by fastforce
  show ?thesis
  proof (cases a)
    case (Inl e)
    then have "rows s2 = rows s1"
      using a by (auto simp: activate_def now_def change_def query_update_def select_def store_def
          onChange_def effect_simps split: prod.splits if_splits)
    moreover have "r = Inl e" "s' = s2"
      using assms k a Inl by (simp_all add: launch_def bnd_run)
    ultimately show ?thesis using r1 by (intro rejected) simp_all
  next
    case (Inr b)
    have tail: "(if \<not> b then ret False else launch_activated E C t k) s2 = (r, s')"
      using assms k a Inr by (simp add: launch_def bnd_run)
    show ?thesis
    proof (cases b)
      case True
      with tail a Inr show ?thesis by (intro active [OF r1, of k s2]) simp_all
    next
      case False
      with tail a Inr show ?thesis by (intro inactive [OF r1, of k]) simp_all
    qed
  qed
qed

lemma launch_pending:
  assumes "r \<in> set (rows s)" and "row_id r = task_id t" and "row_state r = PENDING"
    and "launch E C t s = (Inr b, s')"
  shows "pending_count (rows s') < pending_count (rows s)"
  using assms(4)
proof (cases rule: launchE)
  case (inactive k s1)
  with activate_pending [of r s1 t E "hashApiKey E k" False s'] assms(1-3) show ?thesis by simp
next
  case (active k s1 s2)
  have "pending_count (rows s2) < pending_count (rows s1)"
    using activate_pending [of r s1 t E "hashApiKey E k" True s2] assms(1-3) active by simp
  moreover have "pending_count (rows s') \<le> pending_count (rows s2)"
    using updates_pending [of "launch_activated E C t k" s2] active
    by (auto intro: runs_quiet_updates)
  ultimately show ?thesis using active by simp
qed simp

lemma pendingTasks_run: "pendingTasks n us s = (Inr (map toTask (take n (pending_rows us (rows s)))), s)"
  by (simp add: pendingTasks_def select_def)

lemma pending_rows_in:
  "r \<in> set (pending_rows us rs) \<longleftrightarrow> r \<in> set rs \<and> eligible us r"
  by (simp add: pending_rows_def)

lemma toTask_simps [simp]:
  "task_id (toTask r) = row_id r" "task_state (toTask r) = row_state r"
  "task_username (toTask r) = row_username r"
  by (simp_all add: toTask_def createTask_def)

lemma dispatch_decreases:
  assumes "pendingTasks n us s = (Inr (t # ts), s')" and "launch E C t s' = (Inr b, s'')"
  shows "pending_count (rows s'') < pending_count (rows s)"
proof -
  from assms(1) have s': "s' = s" and "t \<in> toTask ` set (pending_rows us (rows s))"
    by (auto simp: pendingTasks_run Cons_eq_map_conv)
       (metis image_eqI in_set_takeD list.set_intros(1))
  then obtain r where "r \<in> set (rows s)" "row_state r = PENDING" "t = toTask r"
    by (auto simp: pending_rows_in eligible_def)
  with launch_pending [of r s t E C b s''] assms(2) s' show ?thesis by simp
qed

function dispatch_loop ::
  "'w supervisor_services \<Rightarrow> supervisor_config \<Rightarrow> int \<Rightarrow> (string \<times> nat) list
    \<Rightarrow> 'w supervisor_state \<Rightarrow> (task_error + unit) \<times> 'w supervisor_state" where
  "dispatch_loop E C free runningByUser s =
     (if free > 0 then
        (case pendingTasks 1 (usersAtLimit C runningByUser) s of
          (Inl e, s') \<Rightarrow> (Inl e, s')
        | (Inr [], s') \<Rightarrow> (Inr (), s')
        | (Inr (t # _), s') \<Rightarrow>
            (case launch E C t s' of
              (Inl e, s'') \<Rightarrow> (Inl e, s'')
            | (Inr launched, s'') \<Rightarrow>
                if \<not> launched then dispatch_loop E C free runningByUser s''
                else dispatch_loop E C (free - 1) (add_count (task_username t) runningByUser) s''))
      else (Inr (), s))"
  by pat_completeness auto
termination
  by (relation "measure (\<lambda>(E, C, free, byUser, s). pending_count (rows s))")
     (auto intro: dispatch_decreases [OF sym sym])

declare dispatch_loop.simps [simp del]

definition dispatchPending :: "'w supervisor_services \<Rightarrow> supervisor_config \<Rightarrow> ('w, unit) sup" where
  "dispatchPending E C = bnd countRunning (\<lambda>n. bnd countRunningByUser (\<lambda>runningByUser.
     dispatch_loop E C (maxConcurrent C - int n) runningByUser))"

lemma updates_dispatch_loop: "repo_updates s (snd (dispatch_loop E C free byUser s))"
proof (induction E C free byUser s rule: dispatch_loop.induct)
  case (1 E C free byUser s)
  show ?case
  proof (cases "0 < free \<and> pending_rows (usersAtLimit C byUser) (rows s) \<noteq> []")
    case True
    then obtain t ts where p: "pendingTasks 1 (usersAtLimit C byUser) s = (Inr (t # ts), s)"
      by (cases "pending_rows (usersAtLimit C byUser) (rows s)") (auto simp: pendingTasks_run)
    obtain r s1 where l: "launch E C t s = (r, s1)" by fastforce
    with runs_in_launch have "repo_updates s s1" by (rule runs_inD_run)
    with True p l 1 show ?thesis
      by (subst dispatch_loop.simps) (auto split: sum.splits intro: upd.evolves_trans)
  next
    case False
    then show ?thesis
      by (subst dispatch_loop.simps) (auto simp: pendingTasks_run upd.evolves_refl)
  qed
qed

lemma runs_in_dispatchPending [intro!]: "runs_in repo_updates (dispatchPending E C)"
  unfolding dispatchPending_def
  by (intro upd.runs_in_bnd [OF runs_quiet_updates [OF runs_in_reads(5)]]
        upd.runs_in_bnd [OF runs_quiet_updates [OF runs_in_reads(6)]])
     (simp add: runs_in_def updates_dispatch_loop)

subsection \<open>What a launch leaves\<close>

lemma touches_outside [intro!]:
  "runs_in (touches i) (outside f)" "runs_in (touches i) (expect what ok)"
  by (auto simp: outside_def expect_def touches_same intro!: tch.runs_in_state_act split: prod.splits)

lemma touches_engine [intro!]:
  "runs_in (touches i) (engine_run E spec)" "runs_in (touches i) (engine_kill E n)"
  "runs_in (touches i) (engine_remove E n)" "runs_in (touches i) (remove_workspace E j)"
  by (auto simp: engine_run_def engine_kill_def engine_remove_def remove_workspace_def)

lemma touches_modify_same: "(\<And>s. rows (f s) = rows s) \<Longrightarrow> runs_in (touches i) (modify f)"
  by (rule tch.runs_in_modify) (simp add: touches_same)

lemma touches_discard [intro!]: "runs_in (touches (task_id t)) (discard E t)"
  unfolding discard_def forgetSlot_def releaseSlot_job_def
  by (intro tch.runs_in_finally tch.runs_in_andthen touches_engine touches_modify_same
      tch.runs_in_bnd touches_releaseSlot tch.runs_in_ret) simp

lemma touches_watch [intro!]: "runs_in (touches i) (watch E t)"
  unfolding watch_def by (auto intro!: touches_modify_same)

lemma touches_launch_activated [intro!]: "runs_in (touches (task_id t)) (launch_activated E C t k)"
  unfolding launch_activated_def
  by (intro tch.runs_in_bnd tch.runs_in_if tch.runs_in_catching tch.runs_in_andthen tch.runs_in_ret
      touches_outside touches_engine touches_transition touches_discard touches_watch)

lemma touches_launch [intro!]: "runs_in (touches (task_id t)) (launch E C t)"
  unfolding launch_def
  by (intro tch.runs_in_bnd tch.runs_in_if tch.runs_in_ret touches_outside touches_activate
      touches_launch_activated)

definition not_running :: "string \<Rightarrow> task_row list \<Rightarrow> bool" where
  "not_running i rs \<longleftrightarrow> (\<forall>r \<in> set rs. row_id r = i \<longrightarrow> \<not> is_running r)"

lemma change_run:
  "change t P f s = (Inr (\<exists>q \<in> set (rows s). P q),
     s\<lparr>rows := f (rows s), announced := announced s @
        (if \<exists>q \<in> set (rows s). P q then [task_username t] else [])\<rparr>)"
proof -
  have "0 < sql_matched P (rows s) \<longleftrightarrow> (\<exists>q \<in> set (rows s). P q)" by (rule sql_matched_pos)
  then show ?thesis
    by (cases "\<exists>q \<in> set (rows s). P q")
       (simp_all add: change_def query_update_def select_def store_def onChange_def effect_simps
         del: sql_matched_0)
qed

lemma transition_run:
  assumes "transition E t from dest d s = (r, s')"
  shows "(\<exists>n. rows s' = stmt_transition n from dest
     (case d of None \<Rightarrow> StateDescription dest | Some x \<Rightarrow> x) (task_id t) (rows s)) \<and>
     r = Inr (\<exists>q \<in> set (rows s). row_id q = task_id t \<and> row_state q \<in> set from)"
proof -
  obtain n w where c: "clock E (world s) = (n, w)" by fastforce
  from assms have "r = Inr (\<exists>q \<in> set (rows s). row_id q = task_id t \<and> row_state q \<in> set from)"
    and "rows s' = stmt_transition n from dest
     (case d of None \<Rightarrow> StateDescription dest | Some x \<Rightarrow> x) (task_id t) (rows s)"
    using c by (simp_all add: transition_def now_def bnd_run state_act_run change_run split_def)
       (auto simp: split_def)
  then show ?thesis by blast
qed

lemma stmt_transitionE:
  assumes "q \<in> set (stmt_transition n from dest d i rs)"
  obtains r where "r \<in> set rs" and "row_id q = row_id r" and "row_username q = row_username r"
    and "row_state q = (if row_id r = i \<and> row_state r \<in> set from then dest else row_state r)"
proof -
  obtain r where "r \<in> set rs" and q: "q = (if row_id r = i \<and> row_state r \<in> set from
      then r\<lparr>row_state := dest, row_status := d, row_updated := n,
            row_apiKeyHash := (if dest \<in> set RUNNING_STATES then row_apiKeyHash r else None)\<rparr> else r)"
    by (rule in_sql_updateE [OF assms [unfolded stmt_transition_def]])
  then show ?thesis by (intro that [of r]) simp_all
qed

lemma transition_not_running:
  assumes "transition E t RUNNING_STATES dest d s = (r, s')" and "dest \<in> set FINISHED_STATES"
  shows "not_running (task_id t) (rows s')"
  using transition_run [OF assms(1)] assms(2)
  by (auto simp: not_running_def stmt_transition_def set_sql_update is_running_def)

lemma quiet_calm:
  "task_quiet rs qs \<Longrightarrow> list_all2 (\<lambda>r q. row_id q = row_id r \<and> (is_running q \<longrightarrow> is_running r)) rs qs"
proof (induction rule: task_quiet.induct)
  case (Transition "from" dest rs t d i)
  have "is_running r" if "row_state r \<in> set from" and "dest = CANCELING" for r
    using Transition(1) [OF that(1)] that(2) by (cases "row_state r") (auto simp: is_running_def)
  with Transition(2) show ?case
    by (auto simp: stmt_transition_def sql_update_def list_all2_map2 is_running_def
        intro!: list_all2_refl)
qed (auto simp: stmt_defs sql_update_def list_all2_map2 is_running_def intro!: list_all2_refl)

lemma quiets_not_running:
  assumes "task_quiet\<^sup>*\<^sup>* rs qs" and "not_running i rs"
  shows "not_running i qs"
  using assms
proof (induction rule: rtranclp_induct)
  case base
  then show ?case .
next
  case (step qs ps)
  have "\<not> is_running p" if p: "p \<in> set ps" "row_id p = i" for p
  proof -
    from p(1) obtain j where j: "j < length ps" "p = ps ! j" by (auto simp: in_set_conv_nth)
    with quiet_calm [OF step.hyps(2)] have "j < length qs" and eq: "row_id p = row_id (qs ! j)"
        "is_running p \<longrightarrow> is_running (qs ! j)"
      by (auto simp: list_all2_conv_all_nth)
    then have "qs ! j \<in> set qs" by simp
    with eq p(2) step.IH [OF step.prems] show ?thesis by (auto simp: not_running_def)
  qed
  then show ?case by (auto simp: not_running_def)
qed

lemma quiet_not_running:
  "runs_in repo_quiet m \<Longrightarrow> m s = (r, s') \<Longrightarrow> not_running i (rows s) \<Longrightarrow> not_running i (rows s')"
  by (drule (1) runs_inD_run) (auto simp: repo_quiet_def dest: quiets_not_running)

lemma launch_failed_not_running:
  assumes "launch_activated E C t k s = (r, s')" and "r \<noteq> Inr True"
  shows "not_running (task_id t) (rows s')"
proof -
  let ?attempt = "andthen (bnd (outside (workspace_prepare E t)) (expect ''prepare''))
    (andthen (engine_run E (containerSpec t k (specConfig C))) (ret True))"
  obtain a s1 where a: "?attempt s = (a, s1)" by fastforce
  then have "a = Inr True" if "a = Inr b" for b
    using that by (auto simp: andthen_run split: prod.splits sum.splits)
  with a assms obtain e where e: "a = Inl e"
    by (cases a) (auto simp: launch_activated_def watch_def effect_simps)
  obtain b s2 where b: "transition E t RUNNING_STATES FAILED (Some LAUNCH_FAILED) s1 = (b, s2)"
    by fastforce
  then have "not_running (task_id t) (rows s2)"
    by (rule transition_not_running) simp
  moreover obtain d s3 where d: "discard E t s2 = (d, s3)" by fastforce
  ultimately have "not_running (task_id t) (rows s3)"
    by (rule quiet_not_running [OF runs_in_discard, rotated])
  moreover have "s' = s3"
    using assms(1) a e b d transition_run [OF b]
    by (auto simp: launch_activated_def bnd_run catching_run andthen_run split: sum.splits prod.splits if_splits)
  ultimately show ?thesis by simp
qed

lemma launch_started_rows:
  "launch_activated E C t k s = (Inr True, s') \<Longrightarrow> rows s' = rows s"
proof -
  assume l: "launch_activated E C t k s = (Inr True, s')"
  have prepared: "rows s1 = rows s"
    if "andthen (bnd (outside (workspace_prepare E t)) (expect ''prepare''))
      (andthen (engine_run E (containerSpec t k (specConfig C))) (ret True)) s = (a, s1)" for a s1
    using that by (auto simp: outside_def expect_def engine_run_def effect_simps
        split: prod.splits sum.splits if_splits)
  obtain a s1 where a: "andthen (bnd (outside (workspace_prepare E t)) (expect ''prepare''))
      (andthen (engine_run E (containerSpec t k (specConfig C))) (ret True)) s = (a, s1)" by fastforce
  show ?thesis
  proof (cases a)
    case (Inl e)
    obtain b s2 where b: "transition E t RUNNING_STATES FAILED (Some LAUNCH_FAILED) s1 = (b, s2)"
      by fastforce
    from l a Inl b transition_run [OF b] show ?thesis
      by (auto simp: launch_activated_def bnd_run catching_run andthen_run split: sum.splits prod.splits)
  next
    case (Inr b)
    with l a prepared [OF a] show ?thesis
      by (auto simp: launch_activated_def watch_def effect_simps split: if_splits)
  qed
qed

text \<open>
  The count of running rows of one kind around a launch: one more exactly when the launch answers
  that the task started, and the task's row is of that kind.
\<close>

lemma launch_count:
  assumes "launch E C t s = (a, s')" and "distinct (map row_id (rows s))"
    and "r \<in> set (rows s)" and "row_id r = task_id t" and "row_state r = PENDING"
    and kind: "\<And>r q. row_later r q \<Longrightarrow> U q = U r"
  shows "sql_matched (\<lambda>q. is_running q \<and> U q) (rows s') =
    sql_matched (\<lambda>q. is_running q \<and> U q) (rows s) + (if a = Inr True \<and> U r then 1 else 0)"
proof -
  let ?P = "\<lambda>q. is_running q \<and> U q"
  have touched: "touch (task_id t) (rows s) (rows s')"
    using runs_inD_run [OF touches_launch assms(1)] by (simp add: touches_def)
  have "repo_updates s s'" using runs_inD_run [OF runs_in_launch assms(1)] .
  then have later: "rows_later (rows s) (rows s')"
    by (simp add: repo_updates_def task_updates_later)
  from later assms(3) obtain q where q: "q \<in> set (rows s')" "row_later r q"
    by (rule rows_later_row)
  then have "row_id q = task_id t" using assms(4) by (simp add: row_later_def)
  note exact = touch_matched [OF touched assms(2,3,4) q(1) this, of ?P]
  have idle: "\<not> is_running r" using assms(5) by (simp add: is_running_def)
  have "is_running q \<longleftrightarrow> a = Inr True"
    using assms(1)
  proof (cases rule: launchE)
    case (rejected e)
    then have "q = r" using q(1) assms(2,3) \<open>row_id q = task_id t\<close> assms(4)
      by (metis map_of_key_unique)
    with idle rejected show ?thesis by simp
  next
    case (inactive k s1)
    with activate_pending [of r s1 t E "hashApiKey E k" False s'] assms(3-5) show ?thesis by simp
  next
    case (active k s1 s2)
    show ?thesis
    proof (cases "a = Inr True")
      case True
      with active have "rows s' = rows s2" by (auto dest: launch_started_rows)
      moreover obtain n where "rows s2 = stmt_activate n (hashApiKey E k) (task_id t) (rows s1)"
        using active(2) by (auto simp: activate_def now_def bnd_run state_act_run select_def change_run
            split: prod.splits if_splits)
      ultimately have "rows s' = stmt_activate n (hashApiKey E k) (task_id t) (rows s)"
        using active(1) by simp
      with q(1) obtain p where p: "p \<in> set (rows s)"
        "q = (if row_id p = task_id t \<and> row_state p = PENDING then p\<lparr>row_state := ACTIVE,
           row_status := StateDescription ACTIVE, row_apiKeyHash := Some (hashApiKey E k),
           row_updated := n, row_progress := Some n\<rparr> else p)"
        unfolding stmt_activate_def by (auto elim: in_sql_updateE)
      then have "row_id p = task_id t" using \<open>row_id q = task_id t\<close> by (auto split: if_splits)
      with p(1) assms(2-4) have "p = r" by (metis map_of_key_unique)
      with p(2) \<open>row_id p = task_id t\<close> assms(5) True show ?thesis by (simp add: is_running_def)
    next
      case False
      with launch_failed_not_running [OF active(3)] q(1) \<open>row_id q = task_id t\<close>
      show ?thesis by (auto simp: not_running_def)
    qed
  qed
  with exact idle kind [OF q(2)] show ?thesis by auto
qed

subsection \<open>The limits\<close>

definition running_count :: "task_row list \<Rightarrow> nat" where
  "running_count rs = sql_matched is_running rs"

definition user_running :: "string \<Rightarrow> task_row list \<Rightarrow> nat" where
  "user_running u rs = sql_matched (\<lambda>q. is_running q \<and> row_username q = u) rs"

definition tally :: "(string \<times> nat) list \<Rightarrow> string \<Rightarrow> nat" where
  "tally cs u = (case map_of cs u of None \<Rightarrow> 0 | Some n \<Rightarrow> n)"

lemma tally_add: "tally (add_count v cs) u = tally cs u + (if u = v then 1 else 0)"
  by (induction v cs rule: add_count.induct) (auto simp: tally_def)

lemma keys_add: "fst ` set (add_count v cs) = insert v (fst ` set cs)"
  by (induction v cs rule: add_count.induct) auto

lemma distinct_add: "distinct (map fst cs) \<Longrightarrow> distinct (map fst (add_count v cs))"
  by (induction v cs rule: add_count.induct) (auto simp flip: set_map, auto simp: keys_add)

lemma tally_fold: "tally (fold add_count us cs) u = tally cs u + length (filter (\<lambda>v. v = u) us)"
  by (induction us arbitrary: cs) (auto simp: tally_add)

lemma keys_fold: "fst ` set (fold add_count us cs) = set us \<union> fst ` set cs"
  by (induction us arbitrary: cs) (auto simp: keys_add)

lemma distinct_fold: "distinct (map fst cs) \<Longrightarrow> distinct (map fst (fold add_count us cs))"
  by (induction us arbitrary: cs) (auto simp: distinct_add)

definition by_user_ok :: "(string \<times> nat) list \<Rightarrow> task_row list \<Rightarrow> bool" where
  "by_user_ok byUser rs \<longleftrightarrow> distinct (map fst byUser) \<and> list_all (isStoredUsername \<circ> fst) byUser \<and>
     (\<forall>u. tally byUser u = user_running u rs)"

lemma by_user_ok_counted:
  assumes "table_ok rs"
  shows "by_user_ok (count_users (map row_username (filter is_running rs))) rs"
proof -
  let ?cs = "count_users (map row_username (filter is_running rs))"
  have "fst ` set ?cs = row_username ` set (filter is_running rs)"
    by (simp add: count_users_def keys_fold)
  then have "\<forall>c \<in> set ?cs. isStoredUsername (fst c)"
    using assms by (auto simp: table_ok_def list_all_iff row_ok_def) (metis (no_types, lifting)
      fst_conv image_iff mem_Collect_eq)
  moreover have "tally ?cs u = user_running u rs" for u
    by (simp add: count_users_def tally_fold user_running_def sql_matched_def filter_map comp_def
        conj_commute) (simp add: tally_def)
  ultimately show ?thesis
    by (auto simp: by_user_ok_def list_all_iff count_users_def intro: distinct_fold)
qed

lemma usersAtLimit_iff:
  assumes "by_user_ok byUser rs" and "0 < maxConcurrentPerUser C"
  shows "u \<in> set (usersAtLimit C byUser) \<longleftrightarrow> maxConcurrentPerUser C \<le> int (user_running u rs)"
proof -
  have d: "distinct (map fst byUser)" and t: "tally byUser u = user_running u rs"
    using assms(1) by (auto simp: by_user_ok_def)
  have "u \<in> set (usersAtLimit C byUser) \<longleftrightarrow> (\<exists>n. (u, n) \<in> set byUser \<and> maxConcurrentPerUser C \<le> int n)"
    by (force simp: usersAtLimit_def)
  also have "\<dots> \<longleftrightarrow> (\<exists>n. map_of byUser u = Some n \<and> maxConcurrentPerUser C \<le> int n)"
    using d by simp
  also have "\<dots> \<longleftrightarrow> maxConcurrentPerUser C \<le> int (tally byUser u)"
    using assms(2) by (auto simp: tally_def split: option.splits)
  finally show ?thesis using t by simp
qed

lemma eligible_iff:
  assumes "by_user_ok byUser rs" and "table_ok rs" and "0 < maxConcurrentPerUser C" and "r \<in> set rs"
  shows "eligible (usersAtLimit C byUser) r \<longleftrightarrow> row_state r = PENDING \<and>
    \<not> maxConcurrentPerUser C \<le> int (user_running (row_username r) rs)"
proof -
  have "isStoredUsername (row_username r)"
    using assms(2,4) by (auto simp: table_ok_def list_all_iff row_ok_def)
  moreover have "isStoredUsername u" if "u \<in> set (usersAtLimit C byUser)" for u
    using that assms(1) by (auto simp: usersAtLimit_def by_user_ok_def list_all_iff)
  ultimately have "list_ex (\<lambda>u. ci_eq (row_username r) u) (usersAtLimit C byUser) \<longleftrightarrow>
      row_username r \<in> set (usersAtLimit C byUser)"
    by (auto simp: list_ex_iff ci_eq_stored)
  then show ?thesis
    using usersAtLimit_iff [OF assms(1,3)] by (simp add: eligible_def)
qed

lemma launch_counts:
  assumes "launch E C t s = (a, s')" and "table_ok (rows s)"
    and "r \<in> set (rows s)" and "t = toTask r" and "row_state r = PENDING"
  shows "running_count (rows s') = running_count (rows s) + (if a = Inr True then 1 else 0)"
    and "user_running u (rows s') = user_running u (rows s) +
      (if a = Inr True \<and> u = row_username r then 1 else 0)"
    and "table_ok (rows s')"
proof -
  have d: "distinct (map row_id (rows s))" using assms(2) by (simp add: table_ok_def)
  have i: "row_id r = task_id t" using assms(4) by simp
  from launch_count [OF assms(1) d assms(3) i assms(5), of "\<lambda>_. True"]
  show "running_count (rows s') = running_count (rows s) + (if a = Inr True then 1 else 0)"
    by (simp add: running_count_def)
  from launch_count [OF assms(1) d assms(3) i assms(5), of "\<lambda>q. row_username q = u"]
  show "user_running u (rows s') = user_running u (rows s) +
      (if a = Inr True \<and> u = row_username r then 1 else 0)"
    by (auto simp: user_running_def row_later_def)
  show "table_ok (rows s')"
    using evolves_table_ok [OF updates_evolves [OF runs_in_launch], of s E C t] assms(1,2) by simp
qed

lemma list_all_keys: "list_all (P \<circ> fst) cs \<longleftrightarrow> (\<forall>k \<in> fst ` set cs. P k)"
  by (auto simp: list_all_iff)

lemma by_user_ok_launched:
  assumes "by_user_ok byUser rs" and "isStoredUsername v"
    and "\<And>u. user_running u qs = user_running u rs + (if u = v then 1 else 0)"
  shows "by_user_ok (add_count v byUser) qs"
  using assms by (auto simp: by_user_ok_def tally_add distinct_add list_all_keys keys_add)

lemma by_user_ok_same:
  "by_user_ok byUser rs \<Longrightarrow> (\<And>u. user_running u qs = user_running u rs) \<Longrightarrow> by_user_ok byUser qs"
  by (simp add: by_user_ok_def)

definition within_limits :: "supervisor_config \<Rightarrow> int \<Rightarrow> task_row list \<Rightarrow> task_row list \<Rightarrow> bool" where
  "within_limits C free rs qs \<longleftrightarrow>
     int (running_count qs) \<le> int (running_count rs) + max 0 free \<and>
     (\<forall>u. int (user_running u qs) \<le> max (int (user_running u rs)) (maxConcurrentPerUser C))"

definition dispatched :: "supervisor_config \<Rightarrow> int \<Rightarrow> task_row list \<Rightarrow> task_row list \<Rightarrow> bool" where
  "dispatched C free rs qs \<longleftrightarrow>
     int (running_count qs) = int (running_count rs) + max 0 free \<or>
     (\<forall>q \<in> set qs. row_state q = PENDING \<longrightarrow>
       maxConcurrentPerUser C \<le> int (user_running (row_username q) qs))"

lemma within_limits_step:
  assumes "within_limits C (free - 1) qs ps" and "0 < free"
    and "running_count qs = Suc (running_count rs)"
    and "\<And>u. int (user_running u qs) \<le> max (int (user_running u rs)) (maxConcurrentPerUser C)"
  shows "within_limits C free rs ps"
proof -
  have "int (user_running u ps) \<le> max (int (user_running u rs)) (maxConcurrentPerUser C)" for u
    using assms(1) assms(4) [of u] unfolding within_limits_def by (auto elim!: allE [of _ u])
  with assms(1-3) show ?thesis by (auto simp: within_limits_def)
qed

lemma dispatched_step:
  "dispatched C (free - 1) qs ps \<Longrightarrow> 0 < free \<Longrightarrow> running_count qs = Suc (running_count rs) \<Longrightarrow>
   dispatched C free rs ps"
  unfolding dispatched_def by auto

lemma dispatch_loop_ok:
  assumes "table_ok (rows s)" and "by_user_ok byUser (rows s)" and "0 < maxConcurrentPerUser C"
    and "dispatch_loop E C free byUser s = (a, s')"
  shows "within_limits C free (rows s) (rows s') \<and> (a = Inr () \<longrightarrow> dispatched C free (rows s) (rows s'))"
  using assms
proof (induction E C free byUser s rule: dispatch_loop.induct)
  case (1 E C free byUser s)
  let ?us = "usersAtLimit C byUser"
  show ?case
  proof (cases "0 < free")
    case False
    with "1.prems"(4) have "a = Inr () \<and> s' = s" by (simp add: dispatch_loop.simps)
    with False show ?thesis by (auto simp: within_limits_def dispatched_def)
  next
    case free: True
    show ?thesis
    proof (cases "pending_rows ?us (rows s)")
      case Nil
      with free "1.prems"(4) have a: "a = Inr ()" "s' = s"
        by (simp_all add: dispatch_loop.simps pendingTasks_run)
      from Nil have "\<not> eligible ?us q" if "q \<in> set (rows s)" for q
        using that pending_rows_in [of q ?us "rows s"] by simp
      then have "\<forall>q \<in> set (rows s). row_state q = PENDING \<longrightarrow>
          maxConcurrentPerUser C \<le> int (user_running (row_username q) (rows s))"
        using eligible_iff [OF "1.prems"(2,1,3)] by blast
      with a show ?thesis by (auto simp: within_limits_def dispatched_def)
    next
      case (Cons r rest)
      then have "r \<in> set (pending_rows ?us (rows s))" by simp
      then have r: "r \<in> set (rows s)" "eligible ?us r" by (simp_all add: pending_rows_in)
      then have pend: "row_state r = PENDING"
        and room: "int (user_running (row_username r) (rows s)) < maxConcurrentPerUser C"
        using eligible_iff [OF "1.prems"(2,1,3) r(1)] by auto
      have stored: "isStoredUsername (row_username r)"
        using "1.prems"(1) r(1) by (auto simp: table_ok_def list_all_iff row_ok_def)
      have p: "pendingTasks 1 ?us s = (Inr [toTask r], s)"
        using Cons by (simp add: pendingTasks_run)
      obtain l s2 where l: "launch E C (toTask r) s = (l, s2)" by fastforce
      note counts = launch_counts [OF l "1.prems"(1) r(1) refl pend]
      show ?thesis
      proof (cases l)
        case (Inl e)
        with free p l "1.prems"(4) have "a = Inl e" "s' = s2"
          by (simp_all add: dispatch_loop.simps)
        with Inl counts(1,2) show ?thesis by (auto simp: within_limits_def)
      next
        case (Inr launched)
        show ?thesis
        proof (cases launched)
          case False
          have "by_user_ok byUser (rows s2)"
            using "1.prems"(2) by (rule by_user_ok_same) (use counts(2) Inr False in auto)
          with "1.IH"(1) [of "Inr [toTask r]" s "[toTask r]" "toTask r" "[]" l s2 False]
            free p l Inr False "1.prems" counts
          show ?thesis by (auto simp: dispatch_loop.simps [of E C free] within_limits_def dispatched_def)
        next
          case True
          have "by_user_ok (add_count (row_username r) byUser) (rows s2)"
            using "1.prems"(2) stored by (rule by_user_ok_launched) (use counts(2) Inr True in auto)
          with "1.IH"(2) [of "Inr [toTask r]" s "[toTask r]" "toTask r" "[]" l s2 True]
            free p l Inr True "1.prems" counts(3)
          have IH: "within_limits C (free - 1) (rows s2) (rows s') \<and>
              (a = Inr () \<longrightarrow> dispatched C (free - 1) (rows s2) (rows s'))"
            by (simp add: dispatch_loop.simps [of E C free])
          have "running_count (rows s2) = Suc (running_count (rows s))"
            using counts(1) Inr True by simp
          moreover have "int (user_running u (rows s2)) \<le> max (int (user_running u (rows s))) (maxConcurrentPerUser C)"
            for u using counts(2) Inr True room by auto
          ultimately show ?thesis
            using IH free by (blast intro: within_limits_step dispatched_step)
        qed
      qed
    qed
  qed
qed

lemma dispatchPending_ok:
  assumes "table_ok (rows s)" and "0 < maxConcurrentPerUser C" and "dispatchPending E C s = (a, s')"
  shows "within_limits C (maxConcurrent C - int (running_count (rows s))) (rows s) (rows s') \<and>
    (a = Inr () \<longrightarrow> dispatched C (maxConcurrent C - int (running_count (rows s))) (rows s) (rows s'))"
proof (rule dispatch_loop_ok [OF assms(1) by_user_ok_counted [OF assms(1)] assms(2)])
  show "dispatch_loop E C (maxConcurrent C - int (running_count (rows s)))
      (count_users (map row_username (filter is_running (rows s)))) s = (a, s')"
    using assms(3) by (simp add: dispatchPending_def countRunning_def countRunningByUser_def select_def
        bnd_run running_count_def)
qed

text \<open>A world that counts its own calls: every call of the clock or the key generator is a new number.\<close>

definition counting_services :: "int supervisor_services" where
  "counting_services = \<lparr>clock = (\<lambda>w. (w, w + 1)),
     generateApiKey = (\<lambda>w. (''key'' @ string_of_int w, w + 1)), hashApiKey = (\<lambda>k. ''hash'' @ k),
     docker_createContainer = (\<lambda>_ w. (Done, w)), docker_start = (\<lambda>_ w. (Done, w)),
     docker_listContainers = (\<lambda>w. (Some [], w)), docker_remove = (\<lambda>_ w. (Done, w)),
     docker_kill = (\<lambda>_ w. (Done, w)), docker_stop = (\<lambda>_ _ w. w), docker_wait = (\<lambda>_ w. w),
     workspace_prepare = (\<lambda>_ w. (True, w)), workspace_resultFile = (\<lambda>_ w. (None, w)),
     workspace_remove = (\<lambda>_ w. (True, w))\<rparr>"

definition small_config :: supervisor_config where
  "small_config = \<lparr>maxConcurrent = 2, maxConcurrentPerUser = 1, maxConcurrentLocalProcessing = 1,
     stallTimeoutMs = 10, cancelTimeoutMs = 10, stopGraceSeconds = 5,
     specConfig = \<lparr>deployEnvironment = ''PROD'', dockerRegistryHost = ''registry'', sepalVersion = ''1'',
       sepalHostDataDir = ''/data'', sepalHostProjectDir = ''/sepal'', syslogAddress = [],
       taskMemoryMb = 1024, taskCpus = 1\<rparr>\<rparr>"

definition pending_row :: "string \<Rightarrow> string \<Rightarrow> task_row" where
  "pending_row i u = row_of_task (example_task i u) 0 0"

definition task_server :: "task_row list \<Rightarrow> int supervisor_state" where
  "task_server rs = \<lparr>rows = rs, announced = [], world = 100, line = [], watched = [], stopping = [],
     queue = []\<rparr>"

lemma small_config_limits [simp]: "maxConcurrent small_config = 2" "maxConcurrentPerUser small_config = 1"
  by (simp_all add: small_config_def)

lemma pending_row_id [simp]: "row_id (pending_row i u) = i"
  by (simp add: pending_row_def row_of_task_def example_task_def createTask_def)

lemma rows_task_server [simp]: "rows (task_server rs) = rs"
  by (simp add: task_server_def)

definition three_pending :: "task_row list" where
  "three_pending = [pending_row ''a'' ''ann'', pending_row ''b'' ''ann'', pending_row ''c'' ''bob'']"

lemma three_pending_ok: "table_ok three_pending"
  by code_simp

text \<open>
  C2: a dispatch never takes the number of running tasks over the server's limit, nor a user's over
  the per-user limit, whatever the Docker daemon and the disk answer: a count over its limit
  afterwards was over it before.
\<close>

theorem dispatchPending_limits:
  assumes "table_ok (rows s)" and "0 < maxConcurrentPerUser C" and "dispatchPending E C s = (a, s')"
  shows "int (running_count (rows s')) \<le> max (int (running_count (rows s))) (maxConcurrent C) \<and>
    (\<forall>u. int (user_running u (rows s')) \<le> max (int (user_running u (rows s))) (maxConcurrentPerUser C))"
  using dispatchPending_ok [OF assms] by (auto simp: within_limits_def)

lemma three_pending_idle: "running_count three_pending = 0"
  by code_simp

theorem dispatchPending_limits_witness:
  "running_count (rows (snd (dispatchPending counting_services small_config (task_server three_pending)))) \<le> 2"
  using dispatchPending_limits [of "task_server three_pending" small_config counting_services
      "fst (dispatchPending counting_services small_config (task_server three_pending))"
      "snd (dispatchPending counting_services small_config (task_server three_pending))"]
  by (simp add: three_pending_ok three_pending_idle)

text \<open>
  C3: a dispatch that is not interrupted by an error stops only when the server is full or every task
  still pending belongs to a user who is at the per-user limit: no task is left waiting for room
  there is.
\<close>

theorem dispatchPending_complete:
  assumes "table_ok (rows s)" and "0 < maxConcurrentPerUser C" and "dispatchPending E C s = (Inr (), s')"
  shows "maxConcurrent C \<le> int (running_count (rows s')) \<or>
    (\<forall>q \<in> set (rows s'). row_state q = PENDING \<longrightarrow>
       maxConcurrentPerUser C \<le> int (user_running (row_username q) (rows s')))"
  using dispatchPending_ok [OF assms] by (auto simp: dispatched_def)

lemma three_pending_dispatched:
  "fst (dispatchPending counting_services small_config (task_server three_pending)) = Inr () \<and>
   map (\<lambda>r. (row_state r, row_username r))
     (rows (snd (dispatchPending counting_services small_config (task_server three_pending))))
     = [(ACTIVE, ''ann''), (PENDING, ''ann''), (ACTIVE, ''bob'')]"
  by code_simp

theorem dispatchPending_complete_witness:
  "2 \<le> int (running_count (rows (snd (dispatchPending counting_services small_config (task_server three_pending)))))
   \<or> 1 \<le> int (user_running ''ann''
          (rows (snd (dispatchPending counting_services small_config (task_server three_pending)))))"
proof -
  let ?qs = "rows (snd (dispatchPending counting_services small_config (task_server three_pending)))"
  have "(PENDING, ''ann'') \<in> set (map (\<lambda>r. (row_state r, row_username r)) ?qs)"
    unfolding conjunct2 [OF three_pending_dispatched] by simp
  then obtain q where q: "q \<in> set ?qs" "row_state q = PENDING" "row_username q = ''ann''" by auto
  have "dispatchPending counting_services small_config (task_server three_pending) =
      (Inr (), snd (dispatchPending counting_services small_config (task_server three_pending)))"
    using three_pending_dispatched by (simp add: prod_eq_iff)
  from dispatchPending_complete [OF _ _ this] three_pending_ok q show ?thesis by fastforce
qed

end
