(* ===== verification/SupervisorJobs.thy ===== *)
theory SupervisorJobs
  imports Supervisor
begin

text \<open>
  The rest of the supervisor (\<^verbatim>\<open>containerSupervisor.js\<close>): collecting a container that exited,
  reconciling tasks with containers, timeouts, and the queue the pieces run through.
\<close>

section \<open>Collecting\<close>

definition interrupted :: "task \<Rightarrow> task_state \<times> json option" where
  "interrupted t = (if task_state t = CANCELING then (CANCELED, None) else (FAILED, Some INTERRUPTED))"

definition outcome :: "task \<Rightarrow> (task_state \<times> json option) option \<Rightarrow> task_state \<times> json option" where
  "outcome t result = (case result of
     Some (s, d) \<Rightarrow> if s = CANCELED then interrupted t else (s, statusDescriptionOf d)
   | None \<Rightarrow> if task_state t = CANCELING then (CANCELED, None) else (FAILED, Some EXITED_UNEXPECTEDLY))"

definition end_task ::
  "'w supervisor_services \<Rightarrow> task \<Rightarrow> task_state \<times> json option \<Rightarrow> ('w, unit) sup" where
  "end_task E t = (\<lambda>(st, d). bnd (transition E t RUNNING_STATES st d) (\<lambda>_. ret ()))"

definition collect_outcome :: "'w supervisor_services \<Rightarrow> task \<Rightarrow> ('w, unit) sup" where
  "collect_outcome E t = bnd (getTask (task_id t)) (\<lambda>current. case current of
     None \<Rightarrow> ret ()
   | Some cur \<Rightarrow> if task_state cur \<in> set RUNNING_STATES
       then bnd (outside (workspace_resultFile E (task_id t))) (\<lambda>file. end_task E cur (outcome cur (readResult file)))
       else ret ())"

definition collect :: "'w supervisor_services \<Rightarrow> supervisor_config \<Rightarrow> task \<Rightarrow> ('w, unit) sup" where
  "collect E C t = andthen (collect_outcome E t) (andthen (discard E t) (dispatchPending E C))"

section \<open>Reconciling\<close>

text \<open>A JavaScript \<^verbatim>\<open>Map\<close> from task ids to containers: \<open>set\<close> on a present key keeps its position.\<close>

fun containers_set :: "(string \<times> container) list \<Rightarrow> string \<Rightarrow> container \<Rightarrow> (string \<times> container) list" where
  "containers_set [] i c = [(i, c)]"
| "containers_set ((j, d) # m) i c = (if j = i then (i, c) # m else (j, d) # containers_set m i c)"

fun labelled :: "'w supervisor_services \<Rightarrow> (string \<times> container) list \<Rightarrow> container list
    \<Rightarrow> ('w, (string \<times> container) list) sup" where
  "labelled E containers [] = ret containers"
| "labelled E containers (c # cs) =
     (if c_taskId c \<noteq> None \<and> c_taskId c \<noteq> Some []
      then labelled E (containers_set containers (the (c_taskId c)) c) cs
      else andthen (engine_remove E (c_name c)) (labelled E containers cs))"

definition taskContainers :: "'w supervisor_services \<Rightarrow> ('w, (string \<times> container) list) sup" where
  "taskContainers E = bnd (engine_list E) (labelled E [])"

definition reconcile_task ::
  "'w supervisor_services \<Rightarrow> supervisor_config \<Rightarrow> (string \<times> container) list \<Rightarrow> task \<Rightarrow> ('w, unit) sup" where
  "reconcile_task E C containers t = (case map_of containers (task_id t) of
     None \<Rightarrow> andthen (end_task E t (interrupted t))
       (andthen (remove_workspace E (task_id t)) (forgetSlot t))
   | Some c \<Rightarrow> if c_running c
       then andthen (if task_state t = CANCELING then stop_container E C t else ret ()) (watch E t)
       else collect E C t)"

definition remove_unowned ::
  "'w supervisor_services \<Rightarrow> string list \<Rightarrow> string \<times> container \<Rightarrow> ('w, unit) sup" where
  "remove_unowned E runningIds = (\<lambda>(i, c). if i \<in> set runningIds then ret ()
     else andthen (engine_remove E (c_name c)) (remove_workspace E i))"

definition reconcile :: "'w supervisor_services \<Rightarrow> supervisor_config \<Rightarrow> ('w, unit) sup" where
  "reconcile E C = bnd (taskContainers E) (\<lambda>containers. bnd runningTasks (\<lambda>running.
     andthen (for_each running (reconcile_task E C containers))
       (for_each containers (remove_unowned E (map task_id running)))))"

section \<open>Timeouts\<close>

definition fail_stalled :: "'w supervisor_services \<Rightarrow> task \<Rightarrow> ('w, unit) sup" where
  "fail_stalled E t = andthen (bnd (transition E t [ACTIVE] FAILED (Some STALLED)) (\<lambda>_. ret ())) (kill E t)"

definition end_canceling :: "'w supervisor_services \<Rightarrow> task \<Rightarrow> ('w, unit) sup" where
  "end_canceling E t = andthen (bnd (transition E t [CANCELING] CANCELED None) (\<lambda>_. ret ())) (kill E t)"

definition enforceTimeouts :: "'w supervisor_services \<Rightarrow> supervisor_config \<Rightarrow> ('w, unit) sup" where
  "enforceTimeouts E C = bnd (now E) (\<lambda>n.
     andthen (bnd (stalledTasks (n - stallTimeoutMs C)) (\<lambda>ts. for_each ts (fail_stalled E)))
       (bnd (cancelingSince (n - cancelTimeoutMs C)) (\<lambda>ts. for_each ts (end_canceling E))))"

section \<open>The queue\<close>

fun job_work :: "'w supervisor_services \<Rightarrow> supervisor_config \<Rightarrow> job \<Rightarrow> ('w, unit) sup" where
  "job_work E C Dispatch = dispatchPending E C"
| "job_work E C Reconcile = reconcile E C"
| "job_work E C EnforceTimeouts = enforceTimeouts E C"
| "job_work E C (Collect t) = collect E C t"

text \<open>A piece that rejects is logged, and the queue goes on.\<close>

definition run_job :: "'w supervisor_services \<Rightarrow> supervisor_config \<Rightarrow> job \<Rightarrow> ('w, unit) sup" where
  "run_job E C j = catching (job_work E C j) (\<lambda>_. ret ())"

definition enqueue :: "job \<Rightarrow> ('w, unit) sup" where
  "enqueue j = modify (\<lambda>s. s\<lparr>queue := queue s @ [j]\<rparr>)"

text \<open>Awaiting the queue: the pieces queued so far run, in order.\<close>

definition drain :: "'w supervisor_services \<Rightarrow> supervisor_config \<Rightarrow> ('w, unit) sup" where
  "drain E C = bnd (gets queue) (\<lambda>js.
     andthen (modify (\<lambda>s. s\<lparr>queue := []\<rparr>)) (for_each js (run_job E C)))"

definition requestSlot ::
  "'w supervisor_services \<Rightarrow> supervisor_config \<Rightarrow> task \<Rightarrow> ('w, int option) sup" where
  "requestSlot E C t = andthen (drain E C) (requestSlot_job E C t)"

definition releaseSlot_queued ::
  "'w supervisor_services \<Rightarrow> supervisor_config \<Rightarrow> task \<Rightarrow> int option \<Rightarrow> ('w, unit) sup" where
  "releaseSlot_queued E C t slot = andthen (drain E C) (releaseSlot_job t slot)"

definition stopContainer :: "'w supervisor_services \<Rightarrow> supervisor_config \<Rightarrow> task \<Rightarrow> ('w, unit) sup" where
  "stopContainer E C t = andthen (drain E C) (stop_container E C t)"

definition tick :: "('w, unit) sup" where
  "tick = andthen (enqueue Reconcile) (andthen (enqueue EnforceTimeouts) (enqueue Dispatch))"

definition start :: "'w supervisor_services \<Rightarrow> supervisor_config \<Rightarrow> ('w, unit) sup" where
  "start E C = andthen (resetProgressClock E)
     (andthen (enqueue Reconcile) (andthen (drain E C) (andthen (enqueue Dispatch) (drain E C))))"

section \<open>Every piece is a sequence of statements\<close>

lemma outcome_finished: "fst (outcome t (readResult f)) \<in> set FINISHED_STATES"
  by (auto simp: outcome_def interrupted_def dest: readResult_finished split: option.splits)

lemma runs_in_end_task [intro!]:
  "fst o' \<in> set FINISHED_STATES \<Longrightarrow> runs_in repo_quiet (end_task E t o')"
  unfolding end_task_def split_def by (intro quiet.runs_in_bnd runs_in_finish quiet.runs_in_ret)

lemma runs_in_collect_outcome [intro!]: "runs_in repo_quiet (collect_outcome E t)"
  unfolding collect_outcome_def
  by (auto intro!: quiet.runs_in_bnd outcome_finished split: option.splits)

lemma runs_in_collect [intro!]: "runs_in repo_updates (collect E C t)"
  unfolding collect_def
  by (intro upd.runs_in_andthen runs_in_dispatchPending runs_quiet_updates
      runs_in_collect_outcome runs_in_discard)

lemma runs_in_labelled [intro!]: "runs_in repo_quiet (labelled E m cs)"
  by (induction E m cs rule: labelled.induct) (auto, simp add: runs_in_def)

lemma runs_in_taskContainers [intro!]: "runs_in repo_quiet (taskContainers E)"
  by (auto simp: taskContainers_def)

lemma interrupted_finished: "fst (interrupted t) \<in> set FINISHED_STATES"
  by (simp add: interrupted_def)

lemma runs_in_reconcile_task [intro!]: "runs_in repo_updates (reconcile_task E C m t)"
proof -
  have "runs_in repo_quiet (andthen (end_task E t (interrupted t))
      (andthen (remove_workspace E (task_id t)) (forgetSlot t)))"
    by (intro quiet.runs_in_andthen runs_in_end_task interrupted_finished runs_in_engine runs_in_forgetSlot)
  moreover have "runs_in repo_quiet
      (andthen (if task_state t = CANCELING then stop_container E C t else ret ()) (watch E t))"
    by auto
  ultimately show ?thesis
    by (auto simp: reconcile_task_def split: option.splits)
qed

lemma runs_in_remove_unowned [intro!]: "runs_in repo_quiet (remove_unowned E ids ic)"
  by (auto simp: remove_unowned_def split: prod.splits)

lemma runs_in_reconcile [intro!]: "runs_in repo_updates (reconcile E C)"
  unfolding reconcile_def
  by (intro upd.runs_in_bnd [OF runs_quiet_updates [OF runs_in_taskContainers]]
      upd.runs_in_bnd [OF runs_quiet_updates [OF runs_in_reads(4)]] upd.runs_in_andthen
      upd.runs_in_for_each runs_in_reconcile_task runs_quiet_updates [OF runs_in_remove_unowned])

lemma runs_in_timeout_steps [intro!]:
  "runs_in repo_quiet (fail_stalled E t)" "runs_in repo_quiet (end_canceling E t)"
  unfolding fail_stalled_def end_canceling_def
  by (intro quiet.runs_in_andthen quiet.runs_in_bnd runs_in_transition quiet.runs_in_ret runs_in_kill; simp)+

lemma runs_in_enforceTimeouts [intro!]: "runs_in repo_quiet (enforceTimeouts E C)"
  by (auto simp: enforceTimeouts_def)

lemma runs_in_job [intro!]: "runs_in repo_updates (job_work E C j)"
  by (cases j) auto

lemma runs_in_run_job [intro!]: "runs_in repo_updates (run_job E C j)"
  unfolding run_job_def by (intro upd.runs_in_catching runs_in_job upd.runs_in_ret)

lemma runs_in_enqueue [intro!]: "runs_in repo_quiet (enqueue j)"
  by (auto simp: enqueue_def intro!: runs_in_modify_same)

lemma runs_in_drain [intro!]: "runs_in repo_updates (drain E C)"
  unfolding drain_def
  by (intro upd.runs_in_bnd upd.runs_in_gets upd.runs_in_andthen upd.runs_in_for_each runs_in_run_job
      runs_quiet_updates [OF runs_in_modify_same]) simp

lemma runs_in_calls [intro!]:
  "runs_in repo_updates (requestSlot E C t)" "runs_in repo_updates (releaseSlot_queued E C t slot)"
  "runs_in repo_updates (stopContainer E C t)" "runs_in repo_updates tick"
  "runs_in repo_updates (start E C)"
  unfolding requestSlot_def releaseSlot_queued_def stopContainer_def tick_def start_def
  by (intro upd.runs_in_andthen runs_in_drain runs_quiet_updates [OF runs_in_requestSlot_job]
      runs_quiet_updates [OF runs_in_releaseSlot_job] runs_quiet_updates [OF runs_in_marks(1)]
      runs_quiet_updates [OF runs_in_enqueue] runs_quiet_updates [OF runs_in_resetProgressClock])+

section \<open>A task that ended stays ended, and keeps no slot\<close>

definition ended :: "task_row \<Rightarrow> bool" where
  "ended r \<longleftrightarrow> row_state r \<in> set FINISHED_STATES \<and> row_slot r = None"

definition has_ended :: "string \<Rightarrow> task_row list \<Rightarrow> bool" where
  "has_ended i rs \<longleftrightarrow> (\<forall>r \<in> set rs. row_id r = i \<longrightarrow> ended r)"

definition is_finished_in :: "string \<Rightarrow> task_row list \<Rightarrow> bool" where
  "is_finished_in i rs \<longleftrightarrow> (\<forall>r \<in> set rs. row_id r = i \<longrightarrow> row_state r \<in> set FINISHED_STATES)"

lemma quiet_ended:
  "task_quiet rs qs \<Longrightarrow> list_all2 (\<lambda>r q. row_id q = row_id r \<and> (ended r \<longrightarrow> ended q)) rs qs"
proof (induction rule: task_quiet.induct)
  case (Transition "from" dest rs t d i)
  have "\<not> ended r" if "row_state r \<in> set from" for r
    using Transition(1) [OF that] by (cases "row_state r") (auto simp: ended_def)
  then show ?case
    by (auto simp: stmt_transition_def sql_update_def list_all2_map2 intro!: list_all2_refl)
qed (auto simp: stmt_defs sql_update_def list_all2_map2 ended_def intro!: list_all2_refl)

lemma update_ended:
  "task_update rs qs \<Longrightarrow> list_all2 (\<lambda>r q. row_id q = row_id r \<and> (ended r \<longrightarrow> ended q)) rs qs"
proof (induction rule: task_update.induct)
  case (Activate h rs t i)
  show ?case
    by (auto simp: stmt_activate_def sql_update_def list_all2_map2 ended_def intro!: list_all2_refl)
qed (rule quiet_ended)

text \<open>A predicate of single rows that every statement carries along holds to the end.\<close>

lemma carried_along:
  assumes "list_all2 (\<lambda>r q. row_id q = row_id r \<and> (P r \<longrightarrow> P q)) rs qs"
    and "\<forall>r \<in> set rs. row_id r = i \<longrightarrow> P r"
  shows "\<forall>q \<in> set qs. row_id q = i \<longrightarrow> P q"
proof (intro ballI impI)
  fix q assume "q \<in> set qs" and i: "row_id q = i"
  then obtain j where "j < length qs" "q = qs ! j" by (auto simp: in_set_conv_nth)
  with assms(1) have "rs ! j \<in> set rs" "row_id q = row_id (rs ! j)" "P (rs ! j) \<longrightarrow> P q"
    by (auto simp: list_all2_conv_all_nth)
  with assms(2) i show "P q" by auto
qed

lemma updates_has_ended: "task_update\<^sup>*\<^sup>* rs qs \<Longrightarrow> has_ended i rs \<Longrightarrow> has_ended i qs"
  by (induction rule: rtranclp_induct)
     (auto simp only: has_ended_def dest: carried_along [OF update_ended])

lemma later_finished:
  assumes "rows_later rs qs" and "length qs = length rs" and "is_finished_in i rs"
  shows "is_finished_in i qs"
proof -
  have "list_all2 (\<lambda>r q. row_id q = row_id r \<and>
      (row_state r \<in> set FINISHED_STATES \<longrightarrow> row_state q \<in> set FINISHED_STATES)) rs qs"
  proof -
    from assms(1,2) have "list_all2 row_later rs qs" by (simp add: rows_later_def)
    then show ?thesis
      by (rule list_all2_mono) (auto simp: row_later_def dest: task_life_finished)
  qed
  from carried_along [OF this] assms(3) show ?thesis by (simp add: is_finished_in_def)
qed

lemma updates_finished_in: "task_update\<^sup>*\<^sup>* rs qs \<Longrightarrow> is_finished_in i rs \<Longrightarrow> is_finished_in i qs"
  using task_updates_later later_finished by blast

lemma run_has_ended:
  "runs_in repo_updates m \<Longrightarrow> m s = (a, s') \<Longrightarrow> has_ended i (rows s) \<Longrightarrow> has_ended i (rows s')"
  by (drule (1) runs_inD_run) (auto simp: repo_updates_def dest: updates_has_ended)

lemma run_finished_in:
  "runs_in repo_updates m \<Longrightarrow> m s = (a, s') \<Longrightarrow> is_finished_in i (rows s) \<Longrightarrow> is_finished_in i (rows s')"
  by (drule (1) runs_inD_run) (auto simp: repo_updates_def dest: updates_finished_in)

definition no_pending :: "string \<Rightarrow> task_row list \<Rightarrow> bool" where
  "no_pending i rs \<longleftrightarrow> (\<forall>r \<in> set rs. row_id r = i \<longrightarrow> row_state r \<noteq> PENDING)"

lemma run_no_pending:
  assumes "runs_in repo_updates m" and "m s = (a, s')" and "no_pending i (rows s)"
  shows "no_pending i (rows s')"
proof -
  from assms(1,2) have "task_update\<^sup>*\<^sup>* (rows s) (rows s')"
    by (auto dest: runs_inD_run simp: repo_updates_def)
  then have "list_all2 row_later (rows s) (rows s')"
    using task_updates_later by (fastforce simp: rows_later_def)
  then have "list_all2 (\<lambda>r q. row_id q = row_id r \<and> (row_state r \<noteq> PENDING \<longrightarrow> row_state q \<noteq> PENDING))
      (rows s) (rows s')"
    by (rule list_all2_mono) (auto simp: row_later_def dest: task_life_not_pending)
  from carried_along [OF this] assms(3) show ?thesis by (simp add: no_pending_def)
qed

text \<open>Ending a task that has left \<open>PENDING\<close>, and forgetting its slot.\<close>

lemma end_task_finished:
  assumes "end_task E t (st, d) s = (a, s')" and "st \<in> set FINISHED_STATES"
    and "no_pending (task_id t) (rows s)"
  shows "is_finished_in (task_id t) (rows s')"
proof -
  obtain b s1 where tr: "transition E t RUNNING_STATES st d s = (b, s1)" by fastforce
  with assms(1) have "s' = s1"
    using transition_run [OF tr] by (auto simp: end_task_def bnd_run)
  moreover obtain n x where "rows s1 = stmt_transition n RUNNING_STATES st x (task_id t) (rows s)"
    using transition_run [OF tr] by blast
  moreover have "r \<in> set (rows s) \<Longrightarrow> row_id r = task_id t \<Longrightarrow>
      row_state r = ACTIVE \<or> row_state r = CANCELING \<or> row_state r \<in> set FINISHED_STATES" for r
    using assms(3) by (cases "row_state r") (auto simp: no_pending_def)
  ultimately show ?thesis
    using assms(2) by (auto simp: is_finished_in_def stmt_transition_def set_sql_update)
qed

lemma query_update_run:
  "query_update P f s = (Inr (sql_matched P (rows s)), s\<lparr>rows := f (rows s)\<rparr>)"
  by (simp add: query_update_def select_def store_def effect_simps)

lemma releaseSlot_forgets:
  assumes "releaseSlot t None s = (a, s')" and "distinct (map row_id (rows s))"
  shows "\<forall>r \<in> set (rows s'). row_id r = task_id t \<longrightarrow> row_slot r = None"
proof (cases "find (\<lambda>r. row_id r = task_id t) (rows s)")
  case None
  then have "\<forall>r \<in> set (rows s). row_id r \<noteq> task_id t" by (simp add: find_None_key)
  with assms(1) None show ?thesis
    by (auto simp: releaseSlot_def slotTime_def select_def bnd_run)
next
  case (Some r)
  then have r: "r \<in> set (rows s)" "row_id r = task_id t" by (auto dest: find_Some_key)
  have only: "q = r" if "q \<in> set (rows s)" "row_id q = task_id t" for q
    using that r assms(2) by (metis map_of_key_unique)
  show ?thesis
  proof (cases "row_slot r")
    case None
    with assms(1) Some have "s' = s"
      by (auto simp: releaseSlot_def slotTime_def select_def bnd_run)
    with only None show ?thesis by auto
  next
    case (Some g)
    with assms(1) \<open>find _ _ = Some r\<close> have "rows s' = stmt_releaseSlot g (task_id t) (rows s)"
      by (auto simp: releaseSlot_def slotTime_def select_def bnd_run query_update_run)
    with only Some show ?thesis by (auto simp: stmt_releaseSlot_def set_sql_update)
  qed
qed

lemma run_table_ok:
  "runs_in repo_updates m \<Longrightarrow> m s = (a, s') \<Longrightarrow> table_ok (rows s) \<Longrightarrow> table_ok (rows s')"
  using evolves_table_ok [OF updates_evolves, of m s] by simp

lemma forgetSlot_ends:
  assumes "forgetSlot t s = (a, s')" and "table_ok (rows s)" and "is_finished_in (task_id t) (rows s)"
  shows "has_ended (task_id t) (rows s')"
proof -
  let ?s = "s\<lparr>line := waiters_delete (line s) (task_id t)\<rparr>"
  obtain b s1 where rel: "releaseSlot t None ?s = (b, s1)" by fastforce
  with assms(1) have "s' = s1"
    by (auto simp: forgetSlot_def releaseSlot_job_def andthen_run bnd_run split: sum.splits)
  moreover have "is_finished_in (task_id t) (rows s1)"
    using run_finished_in [OF runs_quiet_updates [OF runs_in_releaseSlot] rel] assms(3) by simp
  moreover have "\<forall>r \<in> set (rows s1). row_id r = task_id t \<longrightarrow> row_slot r = None"
    using releaseSlot_forgets [OF rel] assms(2) by (simp add: table_ok_def)
  ultimately show ?thesis by (auto simp: has_ended_def ended_def is_finished_in_def)
qed

lemma discard_ends:
  assumes "discard E t s = (Inr (), s')" and "table_ok (rows s)" and "is_finished_in (task_id t) (rows s)"
  shows "has_ended (task_id t) (rows s')"
proof -
  from assms(1) obtain s1 u where d: "engine_remove E (containerName t) s = (Inr (), s1)"
    and f: "andthen (remove_workspace E (task_id t)) (forgetSlot t) s1 = (Inr u, s')"
    unfolding discard_def by (rule finally_doE)
  from f obtain v s2 where w: "remove_workspace E (task_id t) s1 = (Inr v, s2)"
    and g: "forgetSlot t s2 = (Inr u, s')" by (rule andthenE)
  note updates = runs_quiet_updates [OF runs_in_engine(4)] runs_quiet_updates [OF runs_in_engine(5)]
  have "table_ok (rows s2)" "is_finished_in (task_id t) (rows s2)"
    using run_table_ok [OF updates(1) d assms(2)] run_finished_in [OF updates(1) d assms(3)]
      run_table_ok [OF updates(2) w] run_finished_in [OF updates(2) w] by auto
  with g show ?thesis by (rule forgetSlot_ends)
qed

text \<open>Collecting ends a task that was running, with the outcome its container left.\<close>

lemma collect_outcome_run:
  assumes "collect_outcome E t s = (a, s')" and "distinct (map row_id (rows s))"
    and "r \<in> set (rows s)" and "row_id r = task_id t" and "is_running r"
    and "q \<in> set (rows s')" and "row_id q = task_id t"
  shows "row_state q = fst (outcome (toTask r) (readResult (fst (workspace_resultFile E (task_id t) (world s)))))"
proof -
  let ?o = "outcome (toTask r) (readResult (fst (workspace_resultFile E (task_id t) (world s))))"
  have get: "getTask (task_id t) s = (Inr (Some (toTask r)), s)"
    using find_key [OF assms(2,3)] assms(4) by (simp add: getTask_def select_def)
  obtain res w where f: "workspace_resultFile E (task_id t) (world s) = (res, w)" by fastforce
  obtain b s1 where tr: "transition E (toTask r) RUNNING_STATES (fst ?o) (snd ?o) (s\<lparr>world := w\<rparr>) = (b, s1)"
    by fastforce
  with assms(1,5) get f have "s' = s1"
    using transition_run [OF tr]
    by (auto simp: collect_outcome_def bnd_run outside_def state_act_run end_task_def split_def is_running_def)
  moreover obtain n x where "rows s1 = stmt_transition n RUNNING_STATES (fst ?o) x (row_id r) (rows s)"
    using transition_run [OF tr] by auto
  ultimately obtain p where p: "p \<in> set (rows s)" "row_id p = row_id q"
      "row_state q = (if row_id p = row_id r \<and> is_running p then fst ?o else row_state p)"
    using assms(6) unfolding stmt_transition_def is_running_def
    by (auto elim!: in_sql_updateE split: if_splits)
  then have "p = r" using assms(2,3,4,7) by (metis map_of_key_unique)
  with p(3) assms(5) show ?thesis by simp
qed

lemma collect_finished:
  assumes "collect_outcome E t s = (Inr u, s')" and "table_ok (rows s)" and "no_pending (task_id t) (rows s)"
  shows "is_finished_in (task_id t) (rows s')"
proof (cases "\<exists>r \<in> set (rows s). row_id r = task_id t \<and> is_running r")
  case True
  then obtain r where "r \<in> set (rows s)" "row_id r = task_id t" "is_running r" by blast
  with collect_outcome_run [OF assms(1)] assms(2) show ?thesis
    using outcome_finished unfolding is_finished_in_def table_ok_def by (metis outcome_finished)
next
  case False
  have "is_finished_in (task_id t) (rows s)"
    unfolding is_finished_in_def
  proof (intro ballI impI)
    fix r assume "r \<in> set (rows s)" "row_id r = task_id t"
    with False assms(3) show "row_state r \<in> set FINISHED_STATES"
      by (cases "row_state r") (auto simp: no_pending_def is_running_def)
  qed
  with run_finished_in [OF runs_quiet_updates [OF runs_in_collect_outcome] assms(1)] show ?thesis .
qed

lemma collect_ends:
  assumes "collect E C t s = (Inr u, s')" and "table_ok (rows s)" and "no_pending (task_id t) (rows s)"
  shows "has_ended (task_id t) (rows s')"
proof -
  from assms(1) obtain a s1 b s2 where c: "collect_outcome E t s = (Inr a, s1)"
    and d: "discard E t s1 = (Inr (), s2)" and e: "dispatchPending E C s2 = (Inr b, s')"
    unfolding collect_def by (auto elim!: andthenE)
  have "has_ended (task_id t) (rows s2)"
    using d run_table_ok [OF runs_quiet_updates [OF runs_in_collect_outcome] c assms(2)]
      collect_finished [OF c assms(2,3)]
    by (rule discard_ends)
  with run_has_ended [OF runs_in_dispatchPending e] show ?thesis .
qed

lemma reconcile_task_ends:
  assumes "reconcile_task E C containers t s = (Inr u, s')" and "map_of containers (task_id t) = None"
    and "table_ok (rows s)" and "no_pending (task_id t) (rows s)"
  shows "has_ended (task_id t) (rows s')"
proof -
  from assms(1,2) obtain a s1 b s2 where e: "end_task E t (interrupted t) s = (Inr a, s1)"
    and w: "remove_workspace E (task_id t) s1 = (Inr b, s2)" and f: "forgetSlot t s2 = (Inr u, s')"
    unfolding reconcile_task_def by (auto elim!: andthenE)
  have "is_finished_in (task_id t) (rows s1)"
    using end_task_finished [of E t "fst (interrupted t)" "snd (interrupted t)" s "Inr a" s1] e assms(4)
      interrupted_finished [of t] by simp
  moreover have "table_ok (rows s1)"
    using run_table_ok [OF runs_quiet_updates [OF runs_in_end_task] e assms(3)] interrupted_finished by blast
  moreover have removing: "runs_in repo_updates (remove_workspace E (task_id t))"
    by (rule runs_quiet_updates [OF runs_in_engine(5)])
  ultimately have "table_ok (rows s2)" "is_finished_in (task_id t) (rows s2)"
    using run_table_ok [OF removing w] run_finished_in [OF removing w] by blast+
  with f show ?thesis by (rule forgetSlot_ends)
qed

lemma engine_remove_rows: "rows (snd (engine_remove E n s)) = rows s"
  by (auto simp: engine_remove_def outside_def expect_def effect_simps split: prod.splits)

lemma labelled_rows: "rows (snd (labelled E m cs s)) = rows s"
proof (induction E m cs arbitrary: s rule: labelled.induct)
  case (2 E m c cs)
  then show ?case
    using engine_remove_rows [of E "c_name c" s]
    by (auto simp: andthen_run split: prod.splits sum.splits)
qed simp

lemma taskContainers_rows: "rows (snd (taskContainers E s)) = rows s"
  by (auto simp: taskContainers_def engine_list_def outside_def effect_simps labelled_rows
      split: prod.splits sum.splits option.splits)

lemma collected_in_reconcile:
  assumes "reconcile_task E C containers t s = (Inr u, s')"
    and "\<forall>c. map_of containers (task_id t) = Some c \<longrightarrow> \<not> c_running c"
    and "table_ok (rows s)" and "no_pending (task_id t) (rows s)"
  shows "has_ended (task_id t) (rows s')"
proof (cases "map_of containers (task_id t)")
  case None
  with reconcile_task_ends assms show ?thesis by blast
next
  case (Some c)
  with assms(1,2) have "collect E C t s = (Inr u, s')" by (simp add: reconcile_task_def)
  with collect_ends assms(3,4) show ?thesis by blast
qed

text \<open>
  C4: after a reconcile that runs to its end, every task that was running without a running container
  (it has none, or its container exited) has ended and holds no local processing slot.
\<close>

theorem reconcile_ends_lost_tasks:
  assumes "table_ok (rows s)" and "reconcile E C s = (Inr (), s')"
    and "fst (taskContainers E s) = Inr containers"
    and "r \<in> set (rows s)" and "is_running r"
    and "\<forall>c. map_of containers (row_id r) = Some c \<longrightarrow> \<not> c_running c"
  shows "\<forall>q \<in> set (rows s'). row_id q = row_id r \<longrightarrow>
    row_state q \<in> {COMPLETED, CANCELED, FAILED} \<and> row_slot q = None \<and> row_apiKeyHash q = None"
proof -
  from assms(3) obtain s1 where c: "taskContainers E s = (Inr containers, s1)"
    by (cases "taskContainers E s") auto
  then have rows1: "rows s1 = rows s" using taskContainers_rows [of E s] by simp
  let ?running = "map toTask (filter is_running (rows s1))"
  from assms(2) c obtain a s2 where loop: "for_each ?running (reconcile_task E C containers) s1 = (Inr a, s2)"
    and rest: "for_each containers (remove_unowned E (map task_id ?running)) s2 = (Inr (), s')"
    by (auto simp: reconcile_def runningTasks_def select_def bnd_run elim: andthenE)
  have only: "q = r" if "q \<in> set (rows s)" "row_id q = row_id r" for q
    using that assms(1,4) by (metis map_of_key_unique table_ok_def)
  have "row_state q \<noteq> PENDING" if "q \<in> set (rows s)" "row_id q = row_id r" for q
    using only [OF that] assms(5) by (auto simp: is_running_def)
  then have start: "table_ok (rows s1) \<and> no_pending (row_id r) (rows s1)"
    using assms(1) by (simp add: rows1 no_pending_def)
  have "has_ended (row_id r) (rows s2)"
    using loop
  proof (rule for_each_establishes [where x = "toTask r"
        and I = "\<lambda>t. table_ok (rows t) \<and> no_pending (row_id r) (rows t)"])
    show "toTask r \<in> set ?running" using assms(4,5) by (simp add: rows1)
    show "table_ok (rows s1) \<and> no_pending (row_id r) (rows s1)" by (rule start)
    show "table_ok (rows t') \<and> no_pending (row_id r) (rows t')"
      if "reconcile_task E C containers y t = (Inr b, t')"
        and "table_ok (rows t) \<and> no_pending (row_id r) (rows t)" for y t b t'
      using that run_table_ok [OF runs_in_reconcile_task that(1)]
        run_no_pending [OF runs_in_reconcile_task that(1)] by blast
    show "has_ended (row_id r) (rows t')"
      if "reconcile_task E C containers (toTask r) t = (Inr b, t')"
        and "table_ok (rows t) \<and> no_pending (row_id r) (rows t)" for t b t'
      using collected_in_reconcile [OF that(1)] that(2) assms(6) by simp
    show "has_ended (row_id r) (rows t')"
      if "reconcile_task E C containers y t = (Inr b, t')" and "has_ended (row_id r) (rows t)" for y t b t'
      using run_has_ended [OF runs_in_reconcile_task that(1)] that(2) .
  qed
  moreover have removing: "runs_in repo_updates (for_each containers (remove_unowned E (map task_id ?running)))"
    by (intro upd.runs_in_for_each runs_quiet_updates [OF runs_in_remove_unowned])
  ultimately have "has_ended (row_id r) (rows s')"
    using run_has_ended [OF removing rest] by blast
  moreover have "table_ok (rows s')" using run_table_ok [OF runs_in_reconcile assms(2,1)] .
  ultimately show ?thesis
    by (fastforce simp: has_ended_def ended_def table_ok_def list_all_iff row_ok_def)
qed

definition active_row :: "string \<Rightarrow> string \<Rightarrow> task_row" where
  "active_row i u = (pending_row i u)\<lparr>row_state := ACTIVE, row_apiKeyHash := Some i, row_progress := Some 0\<rparr>"

definition lost_server :: "int supervisor_state" where
  "lost_server = task_server [active_row ''a'' ''ann'']"

lemma lost_server_reconciled:
  "fst (reconcile counting_services small_config lost_server) = Inr () \<and>
   fst (taskContainers counting_services lost_server) = Inr [] \<and> table_ok (rows lost_server) \<and>
   map row_id (rows (snd (reconcile counting_services small_config lost_server))) = [''a'']"
  by code_simp

lemma hd_only:
  "map row_id rs = [i] \<Longrightarrow> hd rs \<in> set rs"
  "map row_id rs = [i] \<Longrightarrow> row_id (hd rs) = i"
  by (cases rs; simp)+

theorem reconcile_ends_lost_tasks_witness:
  "row_state (hd (rows (snd (reconcile counting_services small_config lost_server))))
     \<in> {COMPLETED, CANCELED, FAILED} \<and>
   row_slot (hd (rows (snd (reconcile counting_services small_config lost_server)))) = None"
proof -
  let ?q = "hd (rows (snd (reconcile counting_services small_config lost_server)))"
  have q: "?q \<in> set (rows (snd (reconcile counting_services small_config lost_server)))" "row_id ?q = ''a''"
    using lost_server_reconciled by (auto intro: hd_only)
  have "reconcile counting_services small_config lost_server =
      (Inr (), snd (reconcile counting_services small_config lost_server))"
    using lost_server_reconciled by (simp add: prod_eq_iff)
  from reconcile_ends_lost_tasks [OF _ this, of "[]" "active_row ''a'' ''ann''"] lost_server_reconciled
  have "\<forall>q \<in> set (rows (snd (reconcile counting_services small_config lost_server))). row_id q = ''a'' \<longrightarrow>
      row_state q \<in> {COMPLETED, CANCELED, FAILED} \<and> row_slot q = None"
    by (auto simp: lost_server_def active_row_def is_running_def)
  with q show ?thesis by blast
qed

text \<open>
  C5: collecting a container ends its running task whatever the container left and whatever the
  daemon answers afterwards, and the task is recorded as canceled only when its owner had asked for
  that: a container that reports CANCELED after a host restart makes the task fail.
\<close>

theorem collect_ends_with_outcome:
  assumes "table_ok (rows s)" and "collect E C t s = (a, s')" and "r \<in> set (rows s)"
    and "row_id r = task_id t" and "is_running r" and "q \<in> set (rows s')" and "row_id q = row_id r"
  shows "row_state q = fst (outcome (toTask r) (readResult (fst (workspace_resultFile E (task_id t) (world s)))))
    \<and> row_state q \<in> set FINISHED_STATES \<and> (row_state q = CANCELED \<longrightarrow> row_state r = CANCELING)"
proof -
  let ?o = "outcome (toTask r) (readResult (fst (workspace_resultFile E (task_id t) (world s))))"
  have d: "distinct (map row_id (rows s))" using assms(1) by (simp add: table_ok_def)
  obtain b s1 where c: "collect_outcome E t s = (b, s1)" by fastforce
  have "task_update\<^sup>*\<^sup>* (rows s1) (rows s')"
  proof (cases b)
    case (Inl e)
    with c assms(2) show ?thesis by (simp add: collect_def andthen_run)
  next
    case (Inr u)
    with c assms(2) have "andthen (discard E t) (dispatchPending E C) s1 = (a, s')"
      by (simp add: collect_def andthen_run)
    moreover have "runs_in repo_updates (andthen (discard E t) (dispatchPending E C))"
      by (intro upd.runs_in_andthen runs_in_dispatchPending runs_quiet_updates [OF runs_in_discard])
    ultimately show ?thesis by (auto dest: runs_inD_run simp: repo_updates_def)
  qed
  then have "list_all2 row_later (rows s1) (rows s')"
    using task_updates_later by (fastforce simp: rows_later_def)
  moreover from assms(6) obtain j where "j < length (rows s')" "q = rows s' ! j"
    by (auto simp: in_set_conv_nth)
  ultimately have p: "rows s1 ! j \<in> set (rows s1)" and later: "row_later (rows s1 ! j) q"
    by (auto simp: list_all2_conv_all_nth)
  then have "row_id (rows s1 ! j) = task_id t" using assms(4,7) by (simp add: row_later_def)
  with collect_outcome_run [OF c d assms(3,4,5) p] have "row_state (rows s1 ! j) = fst ?o" by simp
  then have "row_state q = fst ?o"
    using later outcome_finished task_life_finished unfolding row_later_def by metis
  moreover have "fst ?o = CANCELED \<Longrightarrow> row_state r = CANCELING"
    by (auto simp: outcome_def interrupted_def split: option.splits if_splits)
  ultimately show ?thesis using outcome_finished by metis
qed

definition exited_services :: "json option \<Rightarrow> int supervisor_services" where
  "exited_services result = counting_services\<lparr>workspace_resultFile := (\<lambda>_ w. (result, w))\<rparr>"

definition sigterm_result :: "json option" where
  "sigterm_result = Some (JObj [(''state'', JStr ''CANCELED'')])"

lemma lost_server_collected:
  "map row_state (rows (snd (collect (exited_services sigterm_result) small_config
      (example_task ''a'' ''ann'') lost_server))) = [FAILED] \<and> table_ok (rows lost_server) \<and>
   map row_id (rows (snd (collect (exited_services sigterm_result) small_config
      (example_task ''a'' ''ann'') lost_server))) = [''a'']"
  by code_simp

theorem collect_ends_with_outcome_witness:
  "row_state (hd (rows (snd (collect (exited_services sigterm_result) small_config
      (example_task ''a'' ''ann'') lost_server))))
     = fst (outcome (toTask (active_row ''a'' ''ann'')) (readResult sigterm_result)) \<and>
   row_state (hd (rows (snd (collect (exited_services sigterm_result) small_config
      (example_task ''a'' ''ann'') lost_server)))) \<noteq> CANCELED"
proof -
  let ?q = "hd (rows (snd (collect (exited_services sigterm_result) small_config
      (example_task ''a'' ''ann'') lost_server)))"
  have q: "?q \<in> set (rows (snd (collect (exited_services sigterm_result) small_config
      (example_task ''a'' ''ann'') lost_server)))" "row_id ?q = ''a''"
    using lost_server_collected by (auto intro: hd_only)
  have "table_ok (rows lost_server)" using lost_server_collected by simp
  from collect_ends_with_outcome [OF this prod.collapse [symmetric], of "active_row ''a'' ''ann''"
      "example_task ''a'' ''ann''" ?q "exited_services sigterm_result" small_config] q
  show ?thesis
    by (auto simp: lost_server_def active_row_def is_running_def example_task_def createTask_def
        exited_services_def)
qed

section \<open>Timeouts\<close>

text \<open>A call for one task leaves the rows of the others as they are.\<close>

definition spare :: "string \<Rightarrow> task_row list \<Rightarrow> task_row list \<Rightarrow> bool" where
  "spare i rs qs \<longleftrightarrow> list_all2 (\<lambda>r q. row_id q = row_id r \<and> (row_id r = i \<longrightarrow> q = r)) rs qs"

definition spares :: "string \<Rightarrow> 'w supervisor_state \<Rightarrow> 'w supervisor_state \<Rightarrow> bool" where
  "spares i s t \<longleftrightarrow> spare i (rows s) (rows t)"

interpretation spr: evolution "spares i :: 'w supervisor_state \<Rightarrow> _" for i
  by unfold_locales (auto simp: spares_def spare_def list_all2_conv_all_nth)

lemma touches_spares: "runs_in (touches j) m \<Longrightarrow> i \<noteq> j \<Longrightarrow> runs_in (spares i) m"
  unfolding runs_in_def touches_def spares_def touch_def spare_def
  by (intro allI, drule spec) (auto elim: list_all2_mono)

lemma spare_in: "spare i rs qs \<Longrightarrow> r \<in> set rs \<Longrightarrow> row_id r = i \<Longrightarrow> r \<in> set qs"
  by (auto simp: spare_def list_all2_conv_all_nth in_set_conv_nth)

lemma touches_timeout_steps [intro!]:
  "runs_in (touches (task_id t)) (fail_stalled E t)" "runs_in (touches (task_id t)) (end_canceling E t)"
  unfolding fail_stalled_def end_canceling_def kill_def
  by (intro tch.runs_in_andthen tch.runs_in_bnd touches_transition tch.runs_in_ret touches_engine
      touches_discard)+

definition past_active :: "string \<Rightarrow> task_row list \<Rightarrow> bool" where
  "past_active i rs \<longleftrightarrow> (\<forall>r \<in> set rs. row_id r = i \<longrightarrow> row_state r \<noteq> PENDING \<and> row_state r \<noteq> ACTIVE)"

lemma run_past_active:
  assumes "runs_in repo_updates m" and "m s = (a, s')" and "past_active i (rows s)"
  shows "past_active i (rows s')"
proof -
  from assms(1,2) have "task_update\<^sup>*\<^sup>* (rows s) (rows s')"
    by (auto dest: runs_inD_run simp: repo_updates_def)
  then have "list_all2 row_later (rows s) (rows s')"
    using task_updates_later by (fastforce simp: rows_later_def)
  then have "list_all2 (\<lambda>r q. row_id q = row_id r \<and> ((row_state r \<noteq> PENDING \<and> row_state r \<noteq> ACTIVE) \<longrightarrow>
      (row_state q \<noteq> PENDING \<and> row_state q \<noteq> ACTIVE))) (rows s) (rows s')"
    by (rule list_all2_mono) (auto simp: row_later_def dest: task_life_not_pending task_life_ACTIVE)
  from carried_along [OF this] assms(3) show ?thesis by (simp add: past_active_def)
qed

lemma fail_stalled_past:
  assumes "fail_stalled E t s = (Inr u, s')" and "no_pending (task_id t) (rows s)"
  shows "past_active (task_id t) (rows s')"
proof -
  from assms(1) obtain a s1 where tr: "transition E t [ACTIVE] FAILED (Some STALLED) s = (Inr a, s1)"
    and k: "kill E t s1 = (Inr u, s')"
    unfolding fail_stalled_def by (auto elim!: andthenE bndE)
  obtain n x where "rows s1 = stmt_transition n [ACTIVE] FAILED x (task_id t) (rows s)"
    using transition_run [OF tr] by blast
  with assms(2) have "past_active (task_id t) (rows s1)"
    by (auto simp: past_active_def no_pending_def stmt_transition_def set_sql_update)
  with run_past_active [OF runs_quiet_updates [OF runs_in_kill] k] show ?thesis .
qed

lemma end_canceling_finished:
  assumes "end_canceling E t s = (Inr u, s')" and "past_active (task_id t) (rows s)"
  shows "is_finished_in (task_id t) (rows s')"
proof -
  from assms(1) obtain a s1 where tr: "transition E t [CANCELING] CANCELED None s = (Inr a, s1)"
    and k: "kill E t s1 = (Inr u, s')"
    unfolding end_canceling_def by (auto elim!: andthenE bndE)
  obtain n x where "rows s1 = stmt_transition n [CANCELING] CANCELED x (task_id t) (rows s)"
    using transition_run [OF tr] by blast
  moreover have "r \<in> set (rows s) \<Longrightarrow> row_id r = task_id t \<Longrightarrow>
      row_state r = CANCELING \<or> row_state r \<in> set FINISHED_STATES" for r
    using assms(2) by (cases "row_state r") (auto simp: past_active_def)
  ultimately have "is_finished_in (task_id t) (rows s1)"
    by (auto simp: is_finished_in_def stmt_transition_def set_sql_update)
  with run_finished_in [OF runs_quiet_updates [OF runs_in_kill] k] show ?thesis .
qed

text \<open>
  When the timeouts are enforced to the end, a task whose container has been silent for longer
  than the stall timeout is no longer active, and a task that has been canceling for longer than the
  cancel timeout is finished.
\<close>

theorem enforceTimeouts_ends:
  assumes "table_ok (rows s)" and "enforceTimeouts E C s = (Inr (), s')"
    and "r \<in> set (rows s)" and "q \<in> set (rows s')" and "row_id q = row_id r"
  shows "(row_state r = ACTIVE \<and> (\<exists>p. row_progress r = Some p \<and> p < fst (clock E (world s)) - stallTimeoutMs C)
      \<longrightarrow> row_state q \<notin> {PENDING, ACTIVE}) \<and>
    (row_state r = CANCELING \<and> row_updated r < fst (clock E (world s)) - cancelTimeoutMs C
      \<longrightarrow> row_state q \<in> {COMPLETED, CANCELED, FAILED})"
proof -
  define n where n: "n = fst (clock E (world s))"
  define s0 where "s0 = s\<lparr>world := snd (clock E (world s))\<rparr>"
  then have rows0: "rows s0 = rows s" by simp
  have steps: "andthen (bnd (stalledTasks (n - stallTimeoutMs C)) (\<lambda>ts. for_each ts (fail_stalled E)))
       (bnd (cancelingSince (n - cancelTimeoutMs C)) (\<lambda>ts. for_each ts (end_canceling E))) s0 = (Inr (), s')"
    using assms(2) by (simp add: enforceTimeouts_def now_def bnd_run state_act_run split_def n s0_def)
  let ?silent = "\<lambda>r. row_state r = ACTIVE \<and>
      (case row_progress r of None \<Rightarrow> False | Some p \<Rightarrow> p < n - stallTimeoutMs C)"
  let ?late = "\<lambda>r. row_state r = CANCELING \<and> row_updated r < n - cancelTimeoutMs C"
  from steps obtain a s1 where f: "for_each (map toTask (filter ?silent (rows s))) (fail_stalled E) s0 = (Inr a, s1)"
    and g: "for_each (map toTask (filter ?late (rows s1))) (end_canceling E) s1 = (Inr (), s')"
    by (auto simp: stalledTasks_def cancelingSince_def select_def bnd_run rows0 elim: andthenE)
  have only: "q = r" if "q \<in> set (rows s)" "row_id q = row_id r" for q
    using that assms(1,3) by (metis map_of_key_unique table_ok_def)
  have failing: "runs_in repo_updates (fail_stalled E t)" and ending: "runs_in repo_updates (end_canceling E t)"
    for t by (auto intro: runs_quiet_updates)
  have "row_state q \<notin> {PENDING, ACTIVE}" if "?silent r"
  proof -
    have "past_active (row_id r) (rows s1)"
      using f
    proof (rule for_each_establishes [where x = "toTask r" and I = "\<lambda>t. no_pending (row_id r) (rows t)"])
      show "toTask r \<in> set (map toTask (filter ?silent (rows s)))" using assms(3) that by simp
      have "row_state p \<noteq> PENDING" if "p \<in> set (rows s)" "row_id p = row_id r" for p
        using only [OF that] \<open>?silent r\<close> by simp
      then show "no_pending (row_id r) (rows s0)" by (simp add: no_pending_def rows0)
      show "no_pending (row_id r) (rows t')"
        if "fail_stalled E y t = (Inr b, t')" and "no_pending (row_id r) (rows t)" for y t b t'
        using run_no_pending [OF failing that] .
      show "past_active (row_id r) (rows t')"
        if "fail_stalled E (toTask r) t = (Inr b, t')" and "no_pending (row_id r) (rows t)" for t b t'
        using fail_stalled_past [OF that(1)] that(2) by simp
      show "past_active (row_id r) (rows t')"
        if "fail_stalled E y t = (Inr b, t')" and "past_active (row_id r) (rows t)" for y t b t'
        using run_past_active [OF failing that] .
    qed
    moreover have "runs_in repo_updates (for_each (map toTask (filter ?late (rows s1))) (end_canceling E))"
      by (intro upd.runs_in_for_each ending)
    ultimately have "past_active (row_id r) (rows s')" using run_past_active g by blast
    with assms(4,5) show ?thesis by (simp add: past_active_def)
  qed
  moreover have "row_state q \<in> set FINISHED_STATES" if late: "?late r"
  proof -
    have "task_id t \<noteq> row_id r" if "t \<in> set (map toTask (filter ?silent (rows s)))" for t
      using that only late by fastforce
    then have others: "runs_in (spares (row_id r))
        (for_each (map toTask (filter ?silent (rows s))) (fail_stalled E))"
      by (intro spr.runs_in_for_each touches_spares [OF touches_timeout_steps(1)]) metis
    have sp: "spare (row_id r) (rows s) (rows s1)"
      using runs_inD_run [OF others f] by (simp add: spares_def rows0)
    then have r1: "r \<in> set (rows s1)" using assms(3) by (rule spare_in) simp
    have "past_active (row_id r) (rows s)"
      using only late by (fastforce simp: past_active_def)
    then have past1: "past_active (row_id r) (rows s1)"
      using run_past_active [OF upd.runs_in_for_each f] failing rows0 by simp
    have "is_finished_in (row_id r) (rows s')"
      using g
    proof (rule for_each_establishes [where x = "toTask r" and I = "\<lambda>t. past_active (row_id r) (rows t)"])
      show "toTask r \<in> set (map toTask (filter ?late (rows s1)))" using r1 late by simp
      show "past_active (row_id r) (rows s1)" by (rule past1)
      show "past_active (row_id r) (rows t')"
        if "end_canceling E y t = (Inr b, t')" and "past_active (row_id r) (rows t)" for y t b t'
        using run_past_active [OF ending that] .
      show "is_finished_in (row_id r) (rows t')"
        if "end_canceling E (toTask r) t = (Inr b, t')" and "past_active (row_id r) (rows t)" for t b t'
        using end_canceling_finished [OF that(1)] that(2) by simp
      show "is_finished_in (row_id r) (rows t')"
        if "end_canceling E y t = (Inr b, t')" and "is_finished_in (row_id r) (rows t)" for y t b t'
        using run_finished_in [OF ending that] .
    qed
    with assms(4,5) show ?thesis by (simp add: is_finished_in_def)
  qed
  ultimately show ?thesis unfolding n by auto
qed

definition silent_server :: "int supervisor_state" where
  "silent_server = task_server
     [active_row ''a'' ''ann'', (active_row ''b'' ''bob'')\<lparr>row_state := CANCELING\<rparr>,
      (active_row ''c'' ''cleo'')\<lparr>row_progress := Some 95\<rparr>]"

lemma silent_server_enforced:
  "fst (enforceTimeouts counting_services small_config silent_server) = Inr () \<and>
   map row_state (rows (snd (enforceTimeouts counting_services small_config silent_server)))
     = [FAILED, CANCELED, ACTIVE] \<and> table_ok (rows silent_server) \<and>
   row_id (hd (rows (snd (enforceTimeouts counting_services small_config silent_server)))) = ''a'' \<and>
   rows (snd (enforceTimeouts counting_services small_config silent_server)) \<noteq> []"
  by code_simp

theorem enforceTimeouts_ends_witness:
  "row_state (hd (rows (snd (enforceTimeouts counting_services small_config silent_server))))
     \<notin> {PENDING, ACTIVE}"
proof -
  let ?q = "hd (rows (snd (enforceTimeouts counting_services small_config silent_server)))"
  have q: "?q \<in> set (rows (snd (enforceTimeouts counting_services small_config silent_server)))"
    "row_id ?q = ''a''"
    using silent_server_enforced by auto
  have run: "enforceTimeouts counting_services small_config silent_server =
      (Inr (), snd (enforceTimeouts counting_services small_config silent_server))"
    using silent_server_enforced by (simp add: prod_eq_iff)
  have here: "active_row ''a'' ''ann'' \<in> set (rows silent_server)"
    by (simp add: silent_server_def)
  have clock: "fst (clock counting_services (world silent_server)) = 100"
    by (simp add: counting_services_def silent_server_def task_server_def)
  have "stallTimeoutMs small_config = 10" by (simp add: small_config_def)
  with enforceTimeouts_ends [OF _ run here q(1)] q(2) silent_server_enforced clock
  show ?thesis by (simp add: active_row_def)
qed

section \<open>The number of slots\<close>

definition slot_count :: "task_row list \<Rightarrow> nat" where
  "slot_count rs = sql_matched holds_slot rs"

lemma renew_slot_count: "slot_count (stmt_renewSlot t i rs) = slot_count rs"
proof -
  have "list_all2 (\<lambda>r q. holds_slot q = holds_slot r) rs (stmt_renewSlot t i rs)"
    by (auto simp: stmt_renewSlot_def sql_update_def list_all2_map2 holds_slot_def is_running_def
        intro!: list_all2_refl)
  then show ?thesis
    unfolding slot_count_def sql_matched_def by induction auto
qed

lemma grant_slot_count:
  "distinct (map row_id rs) \<Longrightarrow> slot_count (stmt_grantSlot t i rs) \<le> Suc (slot_count rs)"
  unfolding slot_count_def sql_matched_def stmt_grantSlot_def
  by (rule filter_sql_update_key [where k = row_id and i = i]) auto

lemma length_holders: "length (map (\<lambda>r. (row_id r, row_username r)) (filter holds_slot rs)) = slot_count rs"
  by (simp add: slot_count_def sql_matched_def)

lemma renewSlot_run: "rows (snd (renewSlot E t s)) =
    stmt_renewSlot (fst (clock E (world s))) (task_id t) (rows s)"
  by (simp add: renewSlot_def now_def bnd_run state_act_run query_update_run split_def)

lemma grantSlot_run: "rows (snd (grantSlot E t s)) =
    stmt_grantSlot (fst (clock E (world s))) (task_id t) (rows s)"
  by (simp add: grantSlot_def now_def bnd_run state_act_run query_update_run split_def)

text \<open>
  Answering a container's request for a local processing slot never takes the number of slots
  held over the configured maximum: a count over it afterwards was over it before.
\<close>

theorem requestSlot_bounded:
  assumes "distinct (map row_id (rows s))" and "requestSlot_job E C t s = (a, s')"
  shows "int (slot_count (rows s')) \<le> max (int (slot_count (rows s))) (maxConcurrentLocalProcessing C)"
proof -
  let ?holders = "map (\<lambda>r. (row_id r, row_username r)) (filter holds_slot (rows s))"
  have holders: "slotHolders s = (Inr ?holders, s)" by (simp add: slotHolders_def select_def)
  show ?thesis
  proof (cases "list_ex (\<lambda>(i, _). i = task_id t) ?holders")
    case True
    with assms(2) holders have "renewSlot E t s = (a, s')" by (simp add: requestSlot_job_def bnd_run)
    then have "rows s' = stmt_renewSlot (fst (clock E (world s))) (task_id t) (rows s)"
      using renewSlot_run [of E t s] by simp
    then show ?thesis by (simp add: renew_slot_count)
  next
    case False
    show ?thesis
    proof (cases "find (\<lambda>r. row_id r = task_id t) (rows s)")
      case None
      with assms(2) holders False have "s' = s"
        by (simp add: requestSlot_job_def bnd_run getTask_def select_def)
      then show ?thesis by simp
    next
      case (Some r)
      let ?cur = "toTask r" and ?n = "fst (clock E (world s))"
      let ?free = "maxConcurrentLocalProcessing C - int (length ?holders)"
      obtain inTurn ws where req: "request_slot (row_id r) (row_username r) ?free (countByUser ?holders) ?n (line s)
          = (inTurn, ws)" by fastforce
      have rest: "requestSlot_job E C t s = (if row_state r \<noteq> ACTIVE then (Inr None, s)
          else if \<not> inTurn then (Inr None, s\<lparr>world := snd (clock E (world s)), line := ws\<rparr>)
          else grantSlot E ?cur (s\<lparr>world := snd (clock E (world s)), line := ws\<rparr>))"
        using holders False Some req
        by (simp add: requestSlot_job_def bnd_run andthen_run getTask_def select_def now_def
            state_act_run split_def Let_def)
      show ?thesis
      proof (cases "row_state r = ACTIVE \<and> inTurn")
        case False
        with rest assms(2) have "rows s' = rows s" by (auto split: if_splits)
        then show ?thesis by simp
      next
        case True
        with rest assms(2) have "rows s' = rows (snd (grantSlot E ?cur
            (s\<lparr>world := snd (clock E (world s)), line := ws\<rparr>)))"
          by (metis (no_types, lifting) snd_conv)
        then have "slot_count (rows s') \<le> Suc (slot_count (rows s))"
          using assms(1) by (simp add: grantSlot_run grant_slot_count)
        moreover have "0 < ?free" using req True by (auto dest: granted_free)
        ultimately show ?thesis using length_holders [of "rows s"] by simp
      qed
    qed
  qed
qed

lemma one_slot_asked:
  "fst (requestSlot_job counting_services small_config (example_task ''a'' ''ann'') silent_server)
     = Inr (Some 101)"
  by code_simp

theorem requestSlot_bounded_witness:
  "int (slot_count (rows (snd (requestSlot_job counting_services small_config (example_task ''a'' ''ann'')
      silent_server)))) \<le> 1"
proof -
  have "distinct (map row_id (rows silent_server))"
    using silent_server_enforced by (simp add: table_ok_def)
  moreover have "slot_count (rows silent_server) = 0" "maxConcurrentLocalProcessing small_config = 1"
    by code_simp+
  ultimately show ?thesis
    using requestSlot_bounded [OF _ prod.collapse [symmetric], of silent_server counting_services
        small_config "example_task ''a'' ''ann''"] by simp
qed

end
