(* ===== verification/Tasks.thy ===== *)
theory Tasks
  imports SupervisorJobs
begin

text \<open>
  The commands and queries of the task-manager (\<^verbatim>\<open>modules/task-manager/src/tasks.js\<close>). A command
  that asks the supervisor for work without awaiting it queues the work; the ones that await an
  answer run the queue first.
\<close>

record 'w task_services = "'w supervisor_services" +
  newId :: "'w \<Rightarrow> string \<times> 'w"
  parseJson :: "string \<Rightarrow> json option"  \<comment> \<open>\<open>JSON.parse\<close>; \<open>None\<close> when it throws\<close>
  dateOf :: "json \<Rightarrow> int option"  \<comment> \<open>\<open>new Date(v).getTime()\<close>; \<open>None\<close> when not a number\<close>

definition sup_of :: "'w task_services \<Rightarrow> 'w supervisor_services" where
  "sup_of E = supervisor_services.truncate E"

definition ownedTask :: "task option \<Rightarrow> string \<Rightarrow> string \<Rightarrow> ('w, task) sup" where
  "ownedTask t taskId username = (case t of
     None \<Rightarrow> throw (NotFound (''No such task: '' @ taskId))
   | Some t \<Rightarrow> if task_username t \<noteq> username
       then throw (Unauthorized (''Task not owned by user: '' @ taskId)) else ret t)"

definition taskIdOf :: "string \<Rightarrow> ('w, string) sup" where
  "taskIdOf v = (if \<not> UUID_test v then throw (InvalidCommand (''Not a task id: '' @ v)) else ret v)"

definition slotOf :: "'w task_services \<Rightarrow> json option \<Rightarrow> ('w, int) sup" where
  "slotOf E v = (case v of
     None \<Rightarrow> throw (InvalidCommand ''Not a local processing slot: undefined'')
   | Some JNull \<Rightarrow> throw (InvalidCommand ''Not a local processing slot: null'')
   | Some j \<Rightarrow> (case dateOf E j of
       None \<Rightarrow> throw (InvalidCommand ''Not a local processing slot'') | Some d \<Rightarrow> ret d))"

definition params_of :: "'w task_services \<Rightarrow> json option \<Rightarrow> ('w, json) sup" where
  "params_of E p = (case p of
     None \<Rightarrow> ret (JObj [])
   | Some (JStr s) \<Rightarrow> (case parseJson E s of None \<Rightarrow> throw (Failure ''SyntaxError'') | Some j \<Rightarrow> ret j)
   | Some j \<Rightarrow> ret j)"

section \<open>Commands\<close>

text \<open>\<open>operation\<close> is \<open>None\<close> when the client sent none; an empty one is refused as well.\<close>

definition submit ::
  "'w task_services \<Rightarrow> string option \<Rightarrow> string \<Rightarrow> string option \<Rightarrow> json option \<Rightarrow> string option
    \<Rightarrow> ('w, task) sup" where
  "submit E i username operation params recipeId =
     (if operation = None \<or> operation = Some [] then throw (InvalidCommand ''operation required'')
      else bnd (case i of None \<Rightarrow> ret None | Some v \<Rightarrow> bnd (taskIdOf v) getTask) (\<lambda>existing.
        case existing of
          Some t \<Rightarrow> ownedTask (Some t) (the i) username
        | None \<Rightarrow>
            bnd (now (sup_of E)) (\<lambda>n.
            bnd (case i of Some v \<Rightarrow> ret v | None \<Rightarrow> outside (newId E)) (\<lambda>v.
            bnd (params_of E params) (\<lambda>p.
            let t = createTask v PENDING username (the operation) (Some p) None recipeId (Some n) (Some n) None in
            andthen (insert_task t) (andthen (enqueue Dispatch) (ret t)))))))"

definition getTask_owned :: "string \<Rightarrow> string \<Rightarrow> ('w, task) sup" where
  "getTask_owned taskId username = bnd (getTask taskId) (\<lambda>t. ownedTask t taskId username)"

text \<open>Stopping the container is not awaited; it happens once the queued work is done.\<close>

definition cancel :: "'w task_services \<Rightarrow> supervisor_config \<Rightarrow> string \<Rightarrow> string \<Rightarrow> ('w, unit) sup" where
  "cancel E C taskId username = bnd (getTask_owned taskId username) (\<lambda>t.
     bnd (if task_state t = PENDING then transition (sup_of E) t [PENDING] CANCELED None else ret False)
       (\<lambda>canceled. if canceled then ret ()
         else bnd (transition (sup_of E) t [ACTIVE] CANCELING None) (\<lambda>canceling.
           if canceling then stopContainer (sup_of E) C t else ret ())))"

definition finishedTask :: "string \<Rightarrow> string \<Rightarrow> string \<Rightarrow> ('w, task) sup" where
  "finishedTask taskId username action = bnd (getTask_owned taskId username) (\<lambda>t.
     if \<not> isFinished t
     then throw (InvalidCommand (''Only canceled, failed and completed tasks can be '' @ action))
     else ret t)"

definition remove :: "string \<Rightarrow> string \<Rightarrow> ('w, unit) sup" where
  "remove taskId username = bnd (finishedTask taskId username ''removed'') (\<lambda>t.
     bnd (remove_task t) (\<lambda>_. ret ()))"

definition removeFinished :: "string list option \<Rightarrow> string \<Rightarrow> ('w, unit) sup" where
  "removeFinished taskIds username = (case taskIds of
     None \<Rightarrow> throw (InvalidCommand ''taskIds required'')
   | Some ids \<Rightarrow> removeFinishedUserTasks username ids)"

definition resubmit :: "'w task_services \<Rightarrow> string \<Rightarrow> string \<Rightarrow> ('w, task option) sup" where
  "resubmit E taskId username = bnd (finishedTask taskId username ''resubmitted'') (\<lambda>t.
     bnd (remove_task t) (\<lambda>removed. if \<not> removed then ret None
       else bnd (submit E None username (Some (task_operation t)) (Some (task_params t)) (task_recipeId t))
         (\<lambda>t'. ret (Some t'))))"

definition callerTask :: "string \<Rightarrow> string \<Rightarrow> ('w, task) sup" where
  "callerTask taskId callerTaskId =
     (if callerTaskId \<noteq> taskId
      then throw (Unauthorized (''Task '' @ taskId @ '' called with the key of task '' @ callerTaskId))
      else bnd (getTask taskId) (\<lambda>t. case t of
          None \<Rightarrow> throw (NotFound (''No such task: '' @ taskId)) | Some t \<Rightarrow> ret t))"

definition reportProgress ::
  "'w task_services \<Rightarrow> supervisor_config \<Rightarrow> string \<Rightarrow> string \<Rightarrow> json option \<Rightarrow> json option \<Rightarrow> ('w, unit) sup" where
  "reportProgress E C taskId callerTaskId statusDescription releasedSlot =
     bnd (callerTask taskId callerTaskId) (\<lambda>t.
     bnd (recordProgress (sup_of E) t (statusDescriptionOf statusDescription)) (\<lambda>_.
       if truthy releasedSlot
       then bnd (slotOf E releasedSlot) (\<lambda>slot. releaseSlot_queued (sup_of E) C t (Some slot))
       else ret ()))"

definition requestLocalProcessing ::
  "'w task_services \<Rightarrow> supervisor_config \<Rightarrow> string \<Rightarrow> string \<Rightarrow> ('w, int option) sup" where
  "requestLocalProcessing E C taskId callerTaskId =
     bnd (callerTask taskId callerTaskId) (requestSlot (sup_of E) C)"

definition releaseLocalProcessing ::
  "'w task_services \<Rightarrow> supervisor_config \<Rightarrow> string \<Rightarrow> string \<Rightarrow> json option \<Rightarrow> ('w, unit) sup" where
  "releaseLocalProcessing E C taskId callerTaskId slot =
     bnd (callerTask taskId callerTaskId) (\<lambda>t.
     bnd (slotOf E slot) (\<lambda>g. releaseSlot_queued (sup_of E) C t (Some g)))"

definition authenticateApiKey :: "'w task_services \<Rightarrow> string \<Rightarrow> ('w, (string \<times> string) option) sup" where
  "authenticateApiKey E apiKey = bnd (findByApiKeyHash (hashApiKey E apiKey)) (\<lambda>t.
     ret (map_option (\<lambda>t. (task_username t, task_id t)) t))"

section \<open>Every command is a sequence of statements\<close>

lemma runs_in_checks [intro!]:
  "runs_in repo_quiet (ownedTask t' i u)" "runs_in repo_quiet (taskIdOf v)"
  "runs_in repo_quiet (slotOf E j)" "runs_in repo_quiet (params_of E j)"
  "runs_in repo_quiet (getTask_owned i u)" "runs_in repo_quiet (finishedTask i u act)"
  "runs_in repo_quiet (callerTask i u)"
proof -
  show owned: "runs_in repo_quiet (ownedTask t' i u)" for t' i u
    by (auto simp: ownedTask_def split: option.splits)
  show "runs_in repo_quiet (taskIdOf v)" by (auto simp: taskIdOf_def)
  show "runs_in repo_quiet (slotOf E j)" by (auto simp: slotOf_def split: option.splits json.splits)
  show "runs_in repo_quiet (params_of E j)" by (auto simp: params_of_def split: option.splits json.splits)
  show get: "runs_in repo_quiet (getTask_owned i u)" for i u
    unfolding getTask_owned_def by (intro quiet.runs_in_bnd runs_in_reads owned)
  show "runs_in repo_quiet (finishedTask i u act)"
    unfolding finishedTask_def
    by (intro quiet.runs_in_bnd get quiet.runs_in_if quiet.runs_in_throw quiet.runs_in_ret)
  show "runs_in repo_quiet (callerTask i u)" by (auto simp: callerTask_def split: option.splits)
qed

lemma quiet_evolves [intro]: "runs_in repo_quiet m \<Longrightarrow> runs_in repo_evolves m"
  by (rule updates_evolves [OF runs_quiet_updates])

lemma runs_in_submit [intro!]: "runs_in repo_evolves (submit E i u op p rid)"
proof -
  have ins: "runs_in repo_evolves (andthen (insert_task (createTask v PENDING u o' (Some p) None rid (Some n) (Some n) None))
      (andthen (enqueue Dispatch) (ret (createTask v PENDING u o' (Some p) None rid (Some n) (Some n) None))))" for v o' p n
    by (intro repo.runs_in_andthen runs_in_insert_task quiet_evolves [OF runs_in_enqueue] repo.runs_in_ret)
      (simp add: createTask_def)
  have "runs_in repo_quiet (case i of None \<Rightarrow> ret None | Some v \<Rightarrow> bnd (taskIdOf v) getTask)"
    by (auto split: option.splits)
  moreover have "runs_in repo_quiet (case i of Some v \<Rightarrow> ret v | None \<Rightarrow> outside (newId E))"
    by (auto split: option.splits)
  ultimately show ?thesis
    unfolding submit_def Let_def
    by (auto split: option.splits intro!: repo.runs_in_bnd ins
        quiet_evolves [OF runs_in_now] quiet_evolves [OF runs_in_checks(4)] quiet_evolves [OF runs_in_checks(1)])
qed

lemma runs_in_cancel [intro!]: "runs_in repo_updates (cancel E C i u)"
proof -
  have edge: "runs_in repo_quiet (transition E' t [PENDING] CANCELED d)"
    "runs_in repo_quiet (transition E' t [ACTIVE] CANCELING d)" for E' :: "('w, 'z) services_scheme" and t d
    by (rule runs_in_transition; simp)+
  show ?thesis
    unfolding cancel_def
    by (intro upd.runs_in_bnd upd.runs_in_if upd.runs_in_ret runs_in_calls
        runs_quiet_updates [OF runs_in_checks(5)] runs_quiet_updates [OF edge(1)]
        runs_quiet_updates [OF edge(2)])
qed

lemma runs_in_queries [intro!]:
  "runs_in repo_quiet (remove i u)" "runs_in repo_quiet (removeFinished ids u)"
  "runs_in repo_quiet (authenticateApiKey E k)"
  unfolding remove_def removeFinished_def authenticateApiKey_def
  by (intro quiet.runs_in_bnd runs_in_checks runs_in_remove_task quiet.runs_in_ret runs_in_reads,
      auto split: option.splits)

lemma runs_in_resubmit [intro!]: "runs_in repo_evolves (resubmit E i u)"
  unfolding resubmit_def
  by (intro repo.runs_in_bnd repo.runs_in_if quiet_evolves [OF runs_in_checks(6)]
      quiet_evolves [OF runs_in_remove_task] runs_in_submit repo.runs_in_ret)

lemma runs_in_container_calls [intro!]:
  "runs_in repo_updates (reportProgress E C i j d g)"
  "runs_in repo_updates (requestLocalProcessing E C i j)"
  "runs_in repo_updates (releaseLocalProcessing E C i j g)"
  unfolding reportProgress_def requestLocalProcessing_def releaseLocalProcessing_def
  by (intro upd.runs_in_bnd upd.runs_in_if upd.runs_in_ret runs_in_calls
      runs_quiet_updates [OF runs_in_checks(7)] runs_quiet_updates [OF runs_in_checks(3)]
      runs_quiet_updates [OF runs_in_recordProgress])+

section \<open>Ownership\<close>

lemma getTask_run: "getTask i s = (Inr (map_option toTask (find (\<lambda>r. row_id r = i) (rows s))), s)"
  by (simp add: getTask_def select_def)

lemma getTask_row:
  "distinct (map row_id (rows s)) \<Longrightarrow> r \<in> set (rows s) \<Longrightarrow>
   getTask (row_id r) s = (Inr (Some (toTask r)), s)"
  by (simp add: getTask_run find_key)

lemma getTask_ownedE:
  assumes "getTask_owned i u s = (Inr t, s')"
  obtains r where "r \<in> set (rows s)" and "row_id r = i" and "t = toTask r" and "row_username r = u"
    and "s' = s"
proof (cases "find (\<lambda>r. row_id r = i) (rows s)")
  case None
  with assms show ?thesis by (simp add: getTask_owned_def getTask_run ownedTask_def bnd_run)
next
  case (Some r)
  then have "r \<in> set (rows s)" "row_id r = i" by (auto dest: find_Some_key)
  with assms Some show ?thesis
    by (intro that [of r])
       (simp_all add: getTask_owned_def getTask_run ownedTask_def bnd_run split: if_splits)
qed

lemma getTask_owned_foreign:
  assumes "table_ok (rows s)" and "r \<in> set (rows s)" and "row_username r \<noteq> u"
  shows "getTask_owned (row_id r) u s = (Inl (Unauthorized (''Task not owned by user: '' @ row_id r)), s)"
  using assms by (simp add: getTask_owned_def bnd_run getTask_row table_ok_def ownedTask_def)

lemma getTask_owned_own:
  assumes "table_ok (rows s)" and "r \<in> set (rows s)" and "row_username r = u"
  shows "getTask_owned (row_id r) u s = (Inr (toTask r), s)"
  using assms by (simp add: getTask_owned_def bnd_run getTask_row table_ok_def ownedTask_def)


definition task_services_example :: "int task_services" where
  "task_services_example = supervisor_services.extend counting_services
     \<lparr>newId = (\<lambda>w. (''task'' @ string_of_int w, w + 1)), parseJson = (\<lambda>_. None),
      dateOf = (\<lambda>j. case j of JNum n \<Rightarrow> Some n | _ \<Rightarrow> None)\<rparr>"

definition anns_server :: "int supervisor_state" where
  "anns_server = task_server [active_row example_uuid ''ann'']"

lemma anns_server_ok: "table_ok (rows anns_server)"
  by code_simp


section \<open>Submitting\<close>

lemma insert_task_run:
  "task_id t \<notin> row_id ` set (rows s) \<Longrightarrow> task_creationTime t = Some c \<Longrightarrow> task_updateTime t = Some d \<Longrightarrow>
   insert_task t s = (Inr (), s\<lparr>rows := rows s @ [row_of_task t c d], announced := announced s @ [task_username t]\<rparr>)"
  by (simp add: insert_task_def select_def store_def onChange_def effect_simps)

lemma insert_task_done:
  assumes "insert_task t s = (Inr a, s')"
  shows "\<exists>c d. rows s' = rows s @ [row_of_task t c d] \<and> task_id t \<notin> row_id ` set (rows s)"
proof (cases "task_id t \<in> row_id ` set (rows s)")
  case True
  with assms show ?thesis by (simp add: insert_task_def select_def bnd_run)
next
  case False
  with assms show ?thesis
    by (fastforce simp: insert_task_def select_def store_def onChange_def effect_simps split: option.splits)
qed

lemma submit_operation:
  assumes "submit E i u op p rid s = (Inr t, s')"
  shows "\<exists>o'. op = Some o' \<and> o' \<noteq> []"
proof (rule ccontr)
  assume "\<not> ?thesis"
  then have "op = None \<or> op = Some []" by (cases op) auto
  with assms show False by (auto simp: submit_def)
qed

text \<open>A submission that succeeds answers a task of its submitter, stored under its identifier.\<close>

lemma submit_new:
  assumes "submit E i u op p rid s = (Inr t, s')"
    and "\<And>v. i = Some v \<Longrightarrow> find (\<lambda>r. row_id r = v) (rows s) = None"
  shows "\<exists>c d. rows s' = rows s @ [row_of_task t c d] \<and> task_id t \<notin> row_id ` set (rows s) \<and>
    task_username t = u \<and> task_state t = PENDING \<and> (\<forall>v. i = Some v \<longrightarrow> task_id t = v)"
proof -
  have run: "op \<noteq> None" "op \<noteq> Some []"
    using submit_operation [OF assms(1)] by auto
  have none: "\<exists>s0. rows s0 = rows s \<and> (case i of None \<Rightarrow> ret None | Some v \<Rightarrow> bnd (taskIdOf v) getTask) s = (Inr None, s0)"
    if "fst ((case i of None \<Rightarrow> ret None | Some v \<Rightarrow> bnd (taskIdOf v) getTask) s) = Inr x" for x
    using that assms(2) by (auto simp: bnd_run taskIdOf_def getTask_run split: option.splits if_splits)
  obtain x s0 where x: "(case i of None \<Rightarrow> ret None | Some v \<Rightarrow> bnd (taskIdOf v) getTask) s = (Inr x, s0)"
    using assms(1) run unfolding submit_def by (auto elim!: bndE)
  with none have "x = None" "rows s0 = rows s" by fastforce+
  with assms(1) x run obtain n s1 v s2 q s3 where
    n: "now (sup_of E) s0 = (Inr n, s1)"
    and v: "(case i of Some v \<Rightarrow> ret v | None \<Rightarrow> outside (newId E)) s1 = (Inr v, s2)"
    and q: "params_of E p s2 = (Inr q, s3)"
    and ins: "andthen (insert_task (createTask v PENDING u (the op) (Some q) None rid (Some n) (Some n) None))
      (andthen (enqueue Dispatch) (ret (createTask v PENDING u (the op) (Some q) None rid (Some n) (Some n) None))) s3
      = (Inr t, s')"
    unfolding submit_def Let_def by (auto simp: bnd_run split: prod.splits sum.splits)
  have "rows s1 = rows s0" using n by (auto simp: now_def state_act_run split_def)
  moreover have "rows s2 = rows s1"
    using v by (auto simp: outside_def state_act_run split_def split: option.splits)
  moreover have "rows s3 = rows s2"
    using q by (auto simp: params_of_def split: option.splits json.splits)
  moreover have "v = w" if "i = Some w" for w using v that by simp
  moreover from ins obtain a s4 where
    "insert_task (createTask v PENDING u (the op) (Some q) None rid (Some n) (Some n) None) s3 = (Inr a, s4)"
    and "rows s' = rows s4"
    and "t = createTask v PENDING u (the op) (Some q) None rid (Some n) (Some n) None"
    by (auto simp: enqueue_def andthen_run split: prod.splits sum.splits)
  ultimately show ?thesis
    using insert_task_done \<open>rows s0 = rows s\<close> by (fastforce simp: createTask_def)
qed

lemma submit_existing:
  assumes "find (\<lambda>r. row_id r = v) (rows s) = Some r" and "UUID_test v" and "op \<noteq> []"
  shows "submit E (Some v) u (Some op) p rid s =
    (if row_username r = u then (Inr (toTask r), s)
     else (Inl (Unauthorized (''Task not owned by user: '' @ v)), s))"
  using assms by (simp add: submit_def bnd_run taskIdOf_def getTask_run ownedTask_def)

lemma submit_UUID: "submit E (Some v) u op p rid s = (Inr t, s') \<Longrightarrow> UUID_test v"
  by (auto simp: submit_def bnd_run taskIdOf_def split: if_splits)

text \<open>
  A submission that names its task can be repeated: once it has succeeded, any later submission
  of the same identifier by the same user answers that task and creates nothing, whatever operation
  and parameters it carries, and the table holds exactly one row with that identifier.
\<close>

theorem submit_idempotent:
  assumes "table_ok (rows s)" and "isStoredUsername u"
    and "submit E (Some v) u op p rid s = (Inr t, s')" and "op' \<noteq> []"
  shows "task_id t = v \<and> length (filter (\<lambda>r. row_id r = v) (rows s')) = 1 \<and>
    (\<exists>t'. submit E (Some v) u (Some op') p' rid' s' = (Inr t', s') \<and> task_id t' = v \<and> task_username t' = u)"
proof -
  have uuid: "UUID_test v" using assms(3) by (rule submit_UUID)
  show ?thesis
  proof (cases "find (\<lambda>r. row_id r = v) (rows s)")
    case None
    with submit_new [OF assms(3)] obtain c d where rows': "rows s' = rows s @ [row_of_task t c d]"
      and fresh: "task_id t \<notin> row_id ` set (rows s)" and t: "task_username t = u" "task_id t = v" by auto
    have "filter (\<lambda>r. row_id r = v) (rows s) = []"
      using None by (simp add: filter_empty_conv find_None_key)
    moreover have "row_id (row_of_task t c d) = v" using t by (simp add: row_of_task_def)
    ultimately have "length (filter (\<lambda>r. row_id r = v) (rows s')) = 1"
      and found: "find (\<lambda>r. row_id r = v) (rows s') = Some (row_of_task t c d)"
      using rows' None by (simp_all add: find_append)
    moreover have owner: "row_username (row_of_task t c d) = u"
      using assms(2) t by (simp add: row_of_task_def isStoredUsername_def)
    then have "submit E (Some v) u (Some op') p' rid' s' = (Inr (toTask (row_of_task t c d)), s')"
      using submit_existing [OF found uuid assms(4)] by simp
    ultimately show ?thesis
      using t(2) owner \<open>row_id (row_of_task t c d) = v\<close> by auto
  next
    case (Some r)
    obtain o' where o': "op = Some o'" "o' \<noteq> []" using submit_operation [OF assms(3)] by blast
    with assms(3) submit_existing [OF Some uuid o'(2)] have own: "row_username r = u" and "t = toTask r" "s' = s"
      by (auto split: if_splits)
    have r: "r \<in> set (rows s)" "row_id r = v" using Some by (auto dest: find_Some_key)
    have "distinct (map row_id (rows s))" using assms(1) by (simp add: table_ok_def)
    from filter_key_unique [OF this r(1)] r(2) have "filter (\<lambda>q. row_id q = v) (rows s) = [r]" by simp
    with own \<open>t = toTask r\<close> \<open>s' = s\<close> r show ?thesis
      using submit_existing [OF Some uuid assms(4)] by simp
  qed
qed

theorem submit_idempotent_witness:
  "\<exists>s'. submit task_services_example (Some example_uuid) ''ann'' (Some ''image.GEE'') None None (task_server [])
      = (Inr (createTask example_uuid PENDING ''ann'' ''image.GEE'' None None None (Some 100) (Some 100) None), s')
    \<and> length (rows s') = 1 \<and> (\<exists>t'. submit task_services_example (Some example_uuid) ''ann'' (Some ''other'') None None s'
      = (Inr t', s') \<and> task_id t' = example_uuid)"
proof -
  let ?t = "createTask example_uuid PENDING ''ann'' ''image.GEE'' None None None (Some 100) (Some 100) None"
  let ?s = "(task_server [])\<lparr>world := 101, rows := [row_of_task ?t 100 100], announced := [''ann''], queue := [Dispatch]\<rparr>"
  have run: "submit task_services_example (Some example_uuid) ''ann'' (Some ''image.GEE'') None None (task_server [])
      = (Inr ?t, ?s)"
    by code_simp
  have "isStoredUsername ''ann''" by code_simp
  from submit_idempotent [OF _ this run, of "''other''" None None] run show ?thesis
    by (auto simp: task_server_def)
qed

section \<open>Resubmitting, canceling, removing\<close>

lemma remove_task_run:
  "remove_task t s = (Inr (\<exists>q \<in> set (rows s). row_id q = task_id t \<and> \<not> row_removed q),
     s\<lparr>rows := stmt_remove (task_id t) (rows s), announced := announced s @
       (if \<exists>q \<in> set (rows s). row_id q = task_id t \<and> \<not> row_removed q then [task_username t] else [])\<rparr>)"
  unfolding remove_task_def by (rule change_run)

definition removed_in :: "string \<Rightarrow> task_row list \<Rightarrow> bool" where
  "removed_in i rs \<longleftrightarrow> (\<forall>r \<in> set rs. row_id r = i \<longrightarrow> row_removed r)"

lemma stmt_remove_removed: "removed_in i (stmt_remove i rs)"
  unfolding removed_in_def stmt_remove_def by (auto elim!: in_sql_updateE split: if_splits)

text \<open>
  A finished task is run again at most once: after a resubmission has created its successor, the
  task is removed from its owner's list, and resubmitting it again answers nothing and creates nothing.
\<close>

theorem resubmit_once:
  assumes "resubmit E i u s = (Inr (Some t), s')"
  shows "length (rows s') = Suc (length (rows s)) \<and> removed_in i (rows s') \<and>
    (\<forall>a s''. resubmit E i u s' = (a, s'') \<longrightarrow>
       (a = Inr None \<or> (\<exists>e. a = Inl e)) \<and> length (rows s'') = length (rows s'))"
proof -
  from assms obtain f s0 where f: "finishedTask i u ''resubmitted'' s = (Inr f, s0)"
    and rest: "bnd (remove_task f) (\<lambda>removed. if \<not> removed then ret None
       else bnd (submit E None u (Some (task_operation f)) (Some (task_params f)) (task_recipeId f))
         (\<lambda>t'. ret (Some t'))) s0 = (Inr (Some t), s')"
    unfolding resubmit_def by (rule bndE)
  have checked: "s0 = s \<and> task_id f = i" if "finishedTask i u ''resubmitted'' s = (Inr f, s0)" for s f s0
  proof -
    from that obtain f' s1 where o': "getTask_owned i u s = (Inr f', s1)" and "f' = f" "s1 = s0"
      unfolding finishedTask_def by (auto elim!: bndE split: if_splits)
    then show ?thesis by (auto elim: getTask_ownedE)
  qed
  from checked [OF f] have s0: "s0 = s" and i: "task_id f = i" by auto
  let ?s1 = "snd (remove_task f s)"
  from rest s0 have present: "\<exists>q \<in> set (rows s). row_id q = i \<and> \<not> row_removed q"
    and sub: "submit E None u (Some (task_operation f)) (Some (task_params f)) (task_recipeId f) ?s1 = (Inr t, s')"
    by (auto simp: bnd_run remove_task_run i split: if_splits prod.splits sum.splits)
  have "rows ?s1 = stmt_remove i (rows s)" by (simp add: remove_task_run i)
  with submit_new [OF sub] obtain c d where rows': "rows s' = stmt_remove i (rows s) @ [row_of_task t c d]"
    and fresh: "task_id t \<notin> row_id ` set (stmt_remove i (rows s))" by auto
  have "map row_id (stmt_remove i (rows s)) = map row_id (rows s)"
    unfolding stmt_remove_def by (rule map_sql_update_same) simp
  then have "row_id ` set (stmt_remove i (rows s)) = row_id ` set (rows s)"
    by (metis list.set_map)
  then have "i \<in> row_id ` set (stmt_remove i (rows s))" using present by blast
  with fresh have "row_id (row_of_task t c d) \<noteq> i" by (auto simp: row_of_task_def)
  then have gone: "removed_in i (rows s')"
    using stmt_remove_removed [of i "rows s"] by (auto simp: rows' removed_in_def)
  have "(a = Inr None \<or> (\<exists>e. a = Inl e)) \<and> length (rows s'') = length (rows s')"
    if again: "resubmit E i u s' = (a, s'')" for a s''
  proof (cases "finishedTask i u ''resubmitted'' s'")
    case (Pair b s1)
    show ?thesis
    proof (cases b)
      case (Inl e)
      moreover from Pair Inl have "rows s1 = rows s'"
        by (auto simp: finishedTask_def getTask_owned_def getTask_run ownedTask_def bnd_run
            split: option.splits if_splits)
      ultimately show ?thesis using again Pair by (auto simp: resubmit_def bnd_run)
    next
      case (Inr f')
      with checked Pair have "s1 = s'" "task_id f' = i" by blast+
      moreover have "\<not> (\<exists>q \<in> set (rows s'). row_id q = i \<and> \<not> row_removed q)"
        using gone by (auto simp: removed_in_def)
      ultimately show ?thesis
        using again Pair Inr by (auto simp: resubmit_def bnd_run remove_task_run stmt_remove_def)
    qed
  qed
  with gone rows' show ?thesis by (simp add: stmt_remove_def)
qed

definition done_row :: "string \<Rightarrow> string \<Rightarrow> task_row" where
  "done_row i u = (pending_row i u)\<lparr>row_state := FAILED\<rparr>"

definition done_server :: "int supervisor_state" where
  "done_server = task_server [done_row ''a'' ''ann'', active_row ''b'' ''ann'']"

lemma done_server_resubmitted:
  "\<exists>t. fst (resubmit task_services_example ''a'' ''ann'' done_server) = Inr (Some t)"
proof -
  have "case fst (resubmit task_services_example ''a'' ''ann'' done_server) of
      Inr (Some t) \<Rightarrow> True | _ \<Rightarrow> False"
    by code_simp
  then show ?thesis by (auto split: sum.splits option.splits)
qed

theorem resubmit_once_witness:
  "\<exists>t s'. resubmit task_services_example ''a'' ''ann'' done_server = (Inr (Some t), s') \<and>
     length (rows s') = 3 \<and> removed_in ''a'' (rows s')"
proof -
  obtain t where "fst (resubmit task_services_example ''a'' ''ann'' done_server) = Inr (Some t)"
    using done_server_resubmitted by blast
  then have run: "resubmit task_services_example ''a'' ''ann'' done_server =
      (Inr (Some t), snd (resubmit task_services_example ''a'' ''ann'' done_server))"
    by (simp add: prod_eq_iff)
  moreover have "length (rows (snd (resubmit task_services_example ''a'' ''ann'' done_server))) = 3 \<and>
      removed_in ''a'' (rows (snd (resubmit task_services_example ''a'' ''ann'' done_server)))"
    using resubmit_once [OF run] by (simp add: done_server_def)
  ultimately show ?thesis by blast
qed

text \<open>
  Once a cancel returns, the task is neither waiting nor running undisturbed: it is canceling or
  it has ended.
\<close>

theorem cancel_stops:
  assumes "table_ok (rows s)" and "cancel E C i u s = (Inr (), s')" and "q \<in> set (rows s')" and "row_id q = i"
  shows "row_state q \<in> {CANCELING, COMPLETED, CANCELED, FAILED} \<and> row_username q = u"
proof -
  from assms(2) obtain t s0 where t: "getTask_owned i u s = (Inr t, s0)"
    and rest: "bnd (if task_state t = PENDING then transition (sup_of E) t [PENDING] CANCELED None else ret False)
       (\<lambda>canceled. if canceled then ret ()
         else bnd (transition (sup_of E) t [ACTIVE] CANCELING None) (\<lambda>canceling.
           if canceling then stopContainer (sup_of E) C t else ret ())) s0 = (Inr (), s')"
    unfolding cancel_def by (rule bndE)
  from t obtain r where r: "r \<in> set (rows s)" "row_id r = i" "t = toTask r" "row_username r = u" and s0: "s0 = s"
    by (rule getTask_ownedE)
  have d: "distinct (map row_id (rows s))" using assms(1) by (simp add: table_ok_def)
  have only: "p = r" if "p \<in> set (rows s)" "row_id p = i" for p
    using that r d by (metis map_of_key_unique)
  obtain b s1 where first: "(if task_state t = PENDING then transition (sup_of E) t [PENDING] CANCELED None
      else ret False) s = (Inr b, s1)"
    and next_step: "(if b then ret () else bnd (transition (sup_of E) t [ACTIVE] CANCELING None) (\<lambda>canceling.
           if canceling then stopContainer (sup_of E) C t else ret ())) s1 = (Inr (), s')"
    using rest s0 by (auto elim: bndE)
  have past: "past_active i (rows s')"
  proof (cases "row_state r = PENDING")
    case True
    with first r have tr: "transition (sup_of E) t [PENDING] CANCELED None s = (Inr b, s1)" by simp
    from transition_run [OF tr] r True have b by auto
    with next_step have "s' = s1" by simp
    moreover obtain n x where "rows s1 = stmt_transition n [PENDING] CANCELED x (row_id r) (rows s)"
      using transition_run [OF tr] r by auto
    moreover have "past_active i (stmt_transition n [PENDING] CANCELED x i (rows s))" for n x
      unfolding past_active_def
    proof (intro ballI impI)
      fix p assume p: "p \<in> set (stmt_transition n [PENDING] CANCELED x i (rows s))" and "row_id p = i"
      from p obtain p0 where p0: "p0 \<in> set (rows s)" "row_id p = row_id p0"
        "row_state p = (if row_id p0 = i \<and> row_state p0 \<in> set [PENDING] then CANCELED else row_state p0)"
        by (rule stmt_transitionE)
      with only \<open>row_id p = i\<close> have "p0 = r" by simp
      with p0 True \<open>row_id p = i\<close> show "row_state p \<noteq> PENDING \<and> row_state p \<noteq> ACTIVE" by simp
    qed
    ultimately show ?thesis using r(2) by simp
  next
    case False
    with first r have "b = False" "s1 = s" by simp_all
    with next_step obtain c s2 where tr: "transition (sup_of E) t [ACTIVE] CANCELING None s = (Inr c, s2)"
      and stop: "(if c then stopContainer (sup_of E) C t else ret ()) s2 = (Inr (), s')"
      by (auto elim: bndE)
    obtain n x where "rows s2 = stmt_transition n [ACTIVE] CANCELING x (row_id r) (rows s)"
      using transition_run [OF tr] r by auto
    moreover have "past_active i (stmt_transition n [ACTIVE] CANCELING x i (rows s))" for n x
      unfolding past_active_def
    proof (intro ballI impI)
      fix p assume p: "p \<in> set (stmt_transition n [ACTIVE] CANCELING x i (rows s))" and "row_id p = i"
      from p obtain p0 where p0: "p0 \<in> set (rows s)" "row_id p = row_id p0"
        "row_state p = (if row_id p0 = i \<and> row_state p0 \<in> set [ACTIVE] then CANCELING else row_state p0)"
        by (rule stmt_transitionE)
      with only \<open>row_id p = i\<close> have "p0 = r" by simp
      with p0 False \<open>row_id p = i\<close> show "row_state p \<noteq> PENDING \<and> row_state p \<noteq> ACTIVE" by simp
    qed
    ultimately have "past_active i (rows s2)" using r(2) by simp
    moreover have "runs_in repo_updates (if c then stopContainer (sup_of E) C t else ret ())"
      by (intro upd.runs_in_if runs_in_calls upd.runs_in_ret)
    ultimately show ?thesis using run_past_active stop by blast
  qed
  have "repo_updates s s'" using runs_inD_run [OF runs_in_cancel assms(2)] .
  then have "list_all2 row_later (rows s) (rows s')"
    using task_updates_later by (fastforce simp: repo_updates_def rows_later_def)
  moreover from assms(3) obtain j where "j < length (rows s')" "q = rows s' ! j"
    by (auto simp: in_set_conv_nth)
  ultimately have "rows s ! j \<in> set (rows s)" "row_later (rows s ! j) q"
    by (auto simp: list_all2_conv_all_nth)
  then have "row_username q = u"
    using only [of "rows s ! j"] assms(4) r(4) by (auto simp: row_later_def)
  moreover have "row_state q \<noteq> PENDING \<and> row_state q \<noteq> ACTIVE"
    using past assms(3,4) by (simp add: past_active_def)
  ultimately show ?thesis by (cases "row_state q") auto
qed

lemma anns_task_canceled:
  "fst (cancel task_services_example small_config example_uuid ''ann'' anns_server) = Inr () \<and>
   map row_id (rows (snd (cancel task_services_example small_config example_uuid ''ann'' anns_server)))
     = [example_uuid]"
  by code_simp

theorem cancel_stops_witness:
  "row_state (hd (rows (snd (cancel task_services_example small_config example_uuid ''ann'' anns_server))))
     \<in> {CANCELING, COMPLETED, CANCELED, FAILED}"
proof -
  have q: "hd (rows (snd (cancel task_services_example small_config example_uuid ''ann'' anns_server)))
      \<in> set (rows (snd (cancel task_services_example small_config example_uuid ''ann'' anns_server)))"
    "row_id (hd (rows (snd (cancel task_services_example small_config example_uuid ''ann'' anns_server)))) = example_uuid"
    using anns_task_canceled by (auto intro: hd_only)
  have "cancel task_services_example small_config example_uuid ''ann'' anns_server =
      (Inr (), snd (cancel task_services_example small_config example_uuid ''ann'' anns_server))"
    using anns_task_canceled by (simp add: prod_eq_iff)
  from cancel_stops [OF anns_server_ok this q] show ?thesis by blast
qed

text \<open>
  Removing finished tasks in bulk touches only tasks that are listed, finished and owned by the
  caller; every other row, and every other column of these, is left as it was.
\<close>

theorem removeFinished_only_own:
  assumes "table_ok (rows s)" and "isStoredUsername u" and "removeFinished (Some ids) u s = (a, s')"
  shows "a = Inr () \<and> rows s' = map (\<lambda>r. if row_username r = u \<and> row_id r \<in> set ids
      \<and> row_state r \<in> {COMPLETED, CANCELED, FAILED} then r\<lparr>row_removed := True\<rparr> else r) (rows s)"
proof -
  have own: "removable u ids r \<longleftrightarrow> row_username r = u \<and> row_id r \<in> set ids
      \<and> row_state r \<in> {COMPLETED, CANCELED, FAILED}" if "r \<in> set (rows s)" for r
    using that assms(1,2) by (auto simp: removable_def table_ok_def list_all_iff row_ok_def ci_eq_stored)
  have "stmt_removeFinished u ids (rows s) = map (\<lambda>r. if row_username r = u \<and> row_id r \<in> set ids
      \<and> row_state r \<in> {COMPLETED, CANCELED, FAILED} then r\<lparr>row_removed := True\<rparr> else r) (rows s)"
    unfolding stmt_removeFinished_def sql_update_def by (rule map_cong [OF refl]) (simp only: own)
  moreover have "ids = [] \<Longrightarrow> rows s = map (\<lambda>r. if row_username r = u \<and> row_id r \<in> set ids
      \<and> row_state r \<in> {COMPLETED, CANCELED, FAILED} then r\<lparr>row_removed := True\<rparr> else r) (rows s)"
    by simp
  ultimately show ?thesis
    using assms(3)
    by (cases "ids = []")
       (auto simp: removeFinished_def removeFinishedUserTasks_def bnd_run query_update_run onChange_def
        simp del: sql_matched_0 split: if_splits)
qed

theorem removeFinished_only_own_witness:
  "map row_removed (rows (snd (removeFinished (Some [''a'', ''b'', ''c'']) ''ann''
     (task_server [done_row ''a'' ''ann'', active_row ''b'' ''ann'', done_row ''c'' ''bob'']))))
   = [True, False, False]"
proof -
  let ?s = "task_server [done_row ''a'' ''ann'', active_row ''b'' ''ann'', done_row ''c'' ''bob'']"
  have ok: "table_ok (rows ?s)" by code_simp
  have ann: "isStoredUsername ''ann''" by code_simp
  have names: "row_username (done_row ''a'' ''ann'') = ''ann''" "row_username (active_row ''b'' ''ann'') = ''ann''"
    "row_username (done_row ''c'' ''bob'') = ''bob''" "\<not> row_removed (done_row ''c'' ''bob'')"
    "\<not> row_removed (active_row ''b'' ''ann'')"
    by code_simp+
  show ?thesis
    using removeFinished_only_own [OF ok ann prod.collapse [symmetric], of "[''a'', ''b'', ''c'']"]
    by (simp add: names) (simp add: done_row_def active_row_def)
qed

text \<open>
  A key authenticates a container only while its task is running: the caller it names owns a
  running row that holds the key's hash, and no key at all is accepted for a task that has ended,
  whatever statements have been executed since.
\<close>

theorem key_authenticates_running:
  assumes "table_ok (rows s)" and "task_stmt\<^sup>*\<^sup>* (rows s) (rows t)"
    and "authenticateApiKey E k t = (Inr (Some (u, i)), t')"
  shows "t' = t \<and> (\<exists>r \<in> set (rows t). row_id r = i \<and> row_username r = u \<and>
      row_state r \<in> {ACTIVE, CANCELING} \<and> row_apiKeyHash r = Some (hashApiKey E k)) \<and>
    (\<forall>r \<in> set (rows s). row_id r = i \<longrightarrow> row_state r \<notin> {COMPLETED, CANCELED, FAILED})"
proof -
  let ?P = "\<lambda>r. row_apiKeyHash r = Some (hashApiKey E k) \<and> row_state r \<in> set RUNNING_STATES"
  have ask: "authenticateApiKey E k t = (Inr (map_option (\<lambda>r. (row_username r, row_id r)) (find ?P (rows t))), t)"
    by (simp add: authenticateApiKey_def findByApiKeyHash_def select_def bnd_run option.map_comp comp_def
        del: in_RUNNING)
  with assms(3) obtain r where f: "find ?P (rows t) = Some r" and r: "row_username r = u" "row_id r = i"
    and "t' = t"
    by (cases "find ?P (rows t)") (simp_all del: in_RUNNING)
  have found: "r \<in> set (rows t)" "?P r" using f by (auto dest: find_Some_key)
  have "row_state p \<notin> {COMPLETED, CANCELED, FAILED}" if p: "p \<in> set (rows s)" "row_id p = i" for p
  proof
    assume over: "row_state p \<in> {COMPLETED, CANCELED, FAILED}"
    from rows_later_row [OF task_stmts_later [OF assms(2)] p(1)] obtain q
      where q: "q \<in> set (rows t)" "row_later p q" .
    with over have "row_state q = row_state p" by (auto simp: row_later_def dest: task_life_finished)
    moreover have "table_ok (rows t)" using task_stmts_ok [OF assms(2,1)] .
    then have "q = r"
      using q p(2) found(1) r(2) by (auto simp: table_ok_def row_later_def intro: map_of_key_unique)
    ultimately show False using found(2) over by auto
  qed
  then show ?thesis
    using found r \<open>t' = t\<close> by auto
qed

theorem key_authenticates_running_witness:
  "\<exists>r \<in> set (rows anns_server). row_id r = example_uuid \<and> row_state r \<in> {ACTIVE, CANCELING}"
proof -
  let ?E = "task_services_example\<lparr>hashApiKey := (\<lambda>k. k)\<rparr>"
  have "authenticateApiKey ?E example_uuid anns_server = (Inr (Some (''ann'', example_uuid)), anns_server)"
    by code_simp
  from key_authenticates_running [OF anns_server_ok rtranclp.rtrancl_refl this] show ?thesis by blast
qed

end
