(* ===== verification/TasksApi.thy ===== *)
theory TasksApi
  imports Tasks
begin

text \<open>
  The HTTP side of the task-manager (\<^verbatim>\<open>tasksApi.js\<close>, \<^verbatim>\<open>currentUser.js\<close>, \<^verbatim>\<open>routes.js\<close>): the middleware
  that reads the headers the gateway sets, the handlers, and the routes. A header and a body are
  parsed JSON values here; a header that does not parse is an absent one, as in \<open>parseHeader\<close>.
\<close>

record request =
  req_method :: string
  req_path :: "string list"
  req_user :: "json option"     \<comment> \<open>the \<open>sepal-user\<close> header\<close>
  req_session :: "json option"  \<comment> \<open>the \<open>sepal-session\<close> header\<close>
  req_body :: "json option"

record response =
  status :: nat
  body :: "json option"

record 'w api_services = "'w task_services" +
  isoString :: "int \<Rightarrow> string"
  toText :: "json \<Rightarrow> string"  \<comment> \<open>\<open>String(v)\<close> of a value that is not a string\<close>

definition tasks_of :: "'w api_services \<Rightarrow> 'w task_services" where
  "tasks_of E = task_services.truncate E"

definition text_of :: "'w api_services \<Rightarrow> json \<Rightarrow> string" where
  "text_of E j = (case j of JStr s \<Rightarrow> s | _ \<Rightarrow> toText E j)"

text \<open>\<open>ctx.request.body ?? {}\<close>, destructured.\<close>

definition field :: "request \<Rightarrow> string \<Rightarrow> json option" where
  "field q k = json_get (nullish (req_body q) (JObj [])) k"

section \<open>Middleware\<close>

definition ADMIN_ROLE :: string where "ADMIN_ROLE = ''application_admin''"

definition isAdmin :: "json \<Rightarrow> bool" where
  "isAdmin user \<longleftrightarrow> (case json_get user ''roles'' of Some (JArr rs) \<Rightarrow> JStr ADMIN_ROLE \<in> set rs | _ \<Rightarrow> False)"

definition message :: "nat \<Rightarrow> string \<Rightarrow> response" where
  "message st m = \<lparr>status = st, body = Some (JObj [(''message'', JStr m)])\<rparr>"

definition refuseUnauthenticated :: response where
  "refuseUnauthenticated = message 401 ''No \"sepal-user\" header in request''"

definition parseCurrentUser :: "request \<Rightarrow> json option" where
  "parseCurrentUser q = (if truthy (req_user q) then req_user q else None)"

definition requireAuth :: "request \<Rightarrow> (json \<Rightarrow> ('w, response) sup) \<Rightarrow> ('w, response) sup" where
  "requireAuth q next = (case parseCurrentUser q of None \<Rightarrow> ret refuseUnauthenticated | Some user \<Rightarrow> next user)"

definition requireAdmin :: "request \<Rightarrow> (json \<Rightarrow> ('w, response) sup) \<Rightarrow> ('w, response) sup" where
  "requireAdmin q next = (case parseCurrentUser q of
     None \<Rightarrow> ret refuseUnauthenticated
   | Some user \<Rightarrow> if \<not> isAdmin user then ret (message 403 ''Admin role required'') else next user)"

definition requireTaskSession ::
  "request \<Rightarrow> (json \<Rightarrow> json \<Rightarrow> ('w, response) sup) \<Rightarrow> ('w, response) sup" where
  "requireTaskSession q next = (case parseCurrentUser q of
     None \<Rightarrow> ret refuseUnauthenticated
   | Some user \<Rightarrow> (case req_session q of
       None \<Rightarrow> ret (message 403 ''Task session required'')
     | Some session \<Rightarrow>
         if json_get session ''workerType'' \<noteq> Some (JStr ''task'') \<or> \<not> truthy (json_get session ''taskId'')
         then ret (message 403 ''Task session required'') else next user session))"

section \<open>Handlers\<close>

definition optional :: "string \<Rightarrow> json option \<Rightarrow> (string \<times> json) list" where
  "optional k v = (case v of None \<Rightarrow> [] | Some j \<Rightarrow> [(k, j)])"

definition date :: "'w api_services \<Rightarrow> int option \<Rightarrow> json" where
  "date E t = (case t of None \<Rightarrow> JNull | Some n \<Rightarrow> JStr (isoString E n))"

definition orNull :: "string option \<Rightarrow> json" where
  "orNull s = (case s of None \<Rightarrow> JNull | Some x \<Rightarrow> JStr x)"

fun state_name :: "task_state \<Rightarrow> string" where
  "state_name PENDING = ''PENDING''"
| "state_name ACTIVE = ''ACTIVE''"
| "state_name CANCELING = ''CANCELING''"
| "state_name COMPLETED = ''COMPLETED''"
| "state_name CANCELED = ''CANCELED''"
| "state_name FAILED = ''FAILED''"

definition listed_fields :: "'w api_services \<Rightarrow> task \<Rightarrow> (string \<times> json) list" where
  "listed_fields E t = [(''id'', JStr (task_id t)), (''recipeId'', orNull (task_recipeId t)),
     (''name'', getTitle t), (''status'', JStr (state_name (task_state t))),
     (''statusDescription'', task_statusDescription t),
     (''creationTime'', date E (task_creationTime t)), (''updateTime'', date E (task_updateTime t))]"

definition taskAsListItem :: "'w api_services \<Rightarrow> task \<Rightarrow> json" where
  "taskAsListItem E t = JObj (listed_fields E t @
     optional ''description'' (json_get (task_params t) ''description'') @
     optional ''taskInfo'' (json_get (task_params t) ''taskInfo''))"

definition taskAsDetails :: "'w api_services \<Rightarrow> task \<Rightarrow> json" where
  "taskAsDetails E t = JObj (listed_fields E t @ [(''params'', task_params t)])"

definition taskAsJson :: "'w api_services \<Rightarrow> task \<Rightarrow> json" where
  "taskAsJson E t = JObj [(''id'', JStr (task_id t)), (''state'', JStr (state_name (task_state t))),
     (''username'', JStr (task_username t)), (''operation'', JStr (task_operation t)),
     (''params'', task_params t), (''statusDescription'', task_statusDescription t),
     (''recipeId'', orNull (task_recipeId t)), (''creationTime'', date E (task_creationTime t)),
     (''updateTime'', date E (task_updateTime t)), (''progressTime'', date E (task_progressTime t))]"

fun status_by_error :: "task_error \<Rightarrow> (nat \<times> string) option" where
  "status_by_error (Unauthorized m) = Some (403, m)"
| "status_by_error (InvalidCommand m) = Some (400, m)"
| "status_by_error (NotFound m) = Some (404, m)"
| "status_by_error (Failure m) = None"

definition run :: "('w, response) sup \<Rightarrow> ('w, response) sup" where
  "run m = catching m (\<lambda>e. case status_by_error e of
     None \<Rightarrow> throw e | Some (st, msg) \<Rightarrow> ret (message st msg))"

definition ok :: "json \<Rightarrow> response" where
  "ok j = \<lparr>status = 200, body = Some j\<rparr>"

definition noContent :: response where
  "noContent = \<lparr>status = 204, body = None\<rparr>"

text \<open>The gateway always names the user; a header without a name is an empty one here.\<close>

definition username_of :: "json \<Rightarrow> string" where
  "username_of user = (case json_get user ''username'' of Some (JStr u) \<Rightarrow> u | _ \<Rightarrow> [])"

definition session_task :: "'w api_services \<Rightarrow> json \<Rightarrow> string" where
  "session_task E session = (case json_get session ''taskId'' of None \<Rightarrow> [] | Some j \<Rightarrow> text_of E j)"

definition api_submit :: "'w api_services \<Rightarrow> request \<Rightarrow> json \<Rightarrow> ('w, response) sup" where
  "api_submit E q user = run (bnd
     (submit (tasks_of E) (map_option (text_of E) (field q ''id'')) (username_of user)
       (if truthy (field q ''operation'') then map_option (text_of E) (field q ''operation'') else None)
       (field q ''params'')
       (case field q ''recipeId'' of None \<Rightarrow> None | Some JNull \<Rightarrow> None | Some j \<Rightarrow> Some (text_of E j)))
     (\<lambda>t. ret (ok (taskAsDetails E t))))"

definition api_getTask :: "'w api_services \<Rightarrow> string \<Rightarrow> json \<Rightarrow> ('w, response) sup" where
  "api_getTask E i user = run (bnd (getTask_owned i (username_of user)) (\<lambda>t. ret (ok (taskAsJson E t))))"

definition api_getTaskDetails :: "'w api_services \<Rightarrow> string \<Rightarrow> json \<Rightarrow> ('w, response) sup" where
  "api_getTaskDetails E i user =
     run (bnd (getTask_owned i (username_of user)) (\<lambda>t. ret (ok (taskAsDetails E t))))"

definition api_cancel :: "'w api_services \<Rightarrow> supervisor_config \<Rightarrow> string \<Rightarrow> json \<Rightarrow> ('w, response) sup" where
  "api_cancel E C i user = run (andthen (cancel (tasks_of E) C i (username_of user)) (ret noContent))"

definition api_remove :: "string \<Rightarrow> json \<Rightarrow> ('w, response) sup" where
  "api_remove i user = run (andthen (remove i (username_of user)) (ret noContent))"

definition api_resubmit :: "'w api_services \<Rightarrow> string \<Rightarrow> json \<Rightarrow> ('w, response) sup" where
  "api_resubmit E i user = run (andthen (resubmit (tasks_of E) i (username_of user)) (ret noContent))"

definition api_removeFinished :: "'w api_services \<Rightarrow> request \<Rightarrow> json \<Rightarrow> ('w, response) sup" where
  "api_removeFinished E q user = run (andthen
     (removeFinished (case field q ''taskIds'' of Some (JArr js) \<Rightarrow> Some (map (text_of E) js) | _ \<Rightarrow> None)
       (username_of user)) (ret noContent))"

definition api_progress ::
  "'w api_services \<Rightarrow> supervisor_config \<Rightarrow> request \<Rightarrow> string \<Rightarrow> json \<Rightarrow> ('w, response) sup" where
  "api_progress E C q i session = run (andthen
     (reportProgress (tasks_of E) C i (session_task E session) (field q ''statusDescription'') (field q ''releasedSlot''))
     (ret noContent))"

definition api_requestLocalProcessing ::
  "'w api_services \<Rightarrow> supervisor_config \<Rightarrow> string \<Rightarrow> json \<Rightarrow> ('w, response) sup" where
  "api_requestLocalProcessing E C i session = run (bnd
     (requestLocalProcessing (tasks_of E) C i (session_task E session)) (\<lambda>slot. ret (ok (case slot of
       Some g \<Rightarrow> JObj [(''granted'', JBool True), (''slot'', JStr (isoString E g))]
     | None \<Rightarrow> JObj [(''granted'', JBool False)]))))"

definition api_releaseLocalProcessing ::
  "'w api_services \<Rightarrow> supervisor_config \<Rightarrow> request \<Rightarrow> string \<Rightarrow> json \<Rightarrow> ('w, response) sup" where
  "api_releaseLocalProcessing E C q i session = run (andthen
     (releaseLocalProcessing (tasks_of E) C i (session_task E session) (field q ''slot'')) (ret noContent))"

text \<open>Hashing anything but a string throws.\<close>

definition api_authenticateApiKey :: "'w api_services \<Rightarrow> request \<Rightarrow> ('w, response) sup" where
  "api_authenticateApiKey E q = run (bnd
     (case field q ''apiKey'' of
        Some (JStr k) \<Rightarrow> authenticateApiKey (tasks_of E) k
      | _ \<Rightarrow> throw (Failure ''ERR_INVALID_ARG_TYPE''))
     (\<lambda>caller. ret (case caller of
        Some (u, i) \<Rightarrow> \<lparr>status = 200, body = Some (JObj [(''username'', JStr u), (''taskId'', JStr i)])\<rparr>
      | None \<Rightarrow> \<lparr>status = 401, body = Some (JObj [])\<rparr>)))"

section \<open>Routes\<close>

definition get_route :: "'w api_services \<Rightarrow> request \<Rightarrow> ('w, response) sup option" where
  "get_route E q = (case req_path q of
     [p] \<Rightarrow> if p = ''healthcheck'' then Some (ret (ok (JObj [(''status'', JStr ''ok'')]))) else None
   | [p, t, i, d] \<Rightarrow> if p = ''tasks'' \<and> t = ''task'' \<and> d = ''details''
       then Some (requireAuth q (api_getTaskDetails E i)) else None
   | [p, t, i] \<Rightarrow> if p = ''tasks'' \<and> t = ''task'' then Some (requireAuth q (api_getTask E i)) else None
   | _ \<Rightarrow> None)"

definition post_route :: "'w api_services \<Rightarrow> supervisor_config \<Rightarrow> request \<Rightarrow> ('w, response) sup option" where
  "post_route E C q = (case req_path q of
     [p] \<Rightarrow> if p = ''tasks'' then Some (requireAuth q (api_submit E q)) else None
   | [p, a] \<Rightarrow>
       if p \<noteq> ''tasks'' then None
       else if a = ''remove'' then Some (requireAuth q (api_removeFinished E q))
       else if a = ''api-key-authenticate'' then Some (requireAdmin q (\<lambda>_. api_authenticateApiKey E q))
       else None
   | [p, t, i, a] \<Rightarrow>
       if p \<noteq> ''tasks'' \<or> t \<noteq> ''task'' then None
       else if a = ''cancel'' then Some (requireAuth q (api_cancel E C i))
       else if a = ''remove'' then Some (requireAuth q (api_remove i))
       else if a = ''execute'' then Some (requireAuth q (api_resubmit E i))
       else if a = ''progress'' then Some (requireTaskSession q (\<lambda>_. api_progress E C q i))
       else if a = ''local-processing''
         then Some (requireTaskSession q (\<lambda>_. api_requestLocalProcessing E C i))
       else None
   | [p, t, i, a, b] \<Rightarrow>
       if p = ''tasks'' \<and> t = ''task'' \<and> a = ''local-processing'' \<and> b = ''release''
       then Some (requireTaskSession q (\<lambda>_. api_releaseLocalProcessing E C q i)) else None
   | _ \<Rightarrow> None)"

definition serve :: "'w api_services \<Rightarrow> supervisor_config \<Rightarrow> request \<Rightarrow> ('w, response) sup" where
  "serve E C q = (case (if req_method q = ''GET'' then get_route E q
       else if req_method q = ''POST'' then post_route E C q else None) of
     None \<Rightarrow> ret \<lparr>status = 404, body = None\<rparr> | Some handler \<Rightarrow> handler)"

section \<open>The server\<close>

lemma runs_in_run [intro]: "runs_in repo_evolves m \<Longrightarrow> runs_in repo_evolves (run m)"
  unfolding run_def
  by (intro repo.runs_in_catching) (auto split: option.splits)

lemma runs_in_handlers [intro!]:
  "runs_in repo_evolves (api_submit E q u)" "runs_in repo_evolves (api_getTask E i u)"
  "runs_in repo_evolves (api_getTaskDetails E i u)" "runs_in repo_evolves (api_cancel E C i u)"
  "runs_in repo_evolves (api_remove i u)" "runs_in repo_evolves (api_resubmit E i u)"
  "runs_in repo_evolves (api_removeFinished E q u)" "runs_in repo_evolves (api_progress E C q i j)"
  "runs_in repo_evolves (api_requestLocalProcessing E C i j)"
  "runs_in repo_evolves (api_releaseLocalProcessing E C q i j)"
  unfolding api_submit_def api_getTask_def api_getTaskDetails_def api_cancel_def api_remove_def
    api_resubmit_def api_removeFinished_def api_progress_def api_requestLocalProcessing_def
    api_releaseLocalProcessing_def
  by (intro runs_in_run repo.runs_in_bnd repo.runs_in_andthen runs_in_submit runs_in_resubmit
      updates_evolves [OF runs_in_cancel] updates_evolves [OF runs_in_container_calls(1)]
      updates_evolves [OF runs_in_container_calls(2)] updates_evolves [OF runs_in_container_calls(3)]
      quiet_evolves [OF runs_in_checks(5)] quiet_evolves [OF runs_in_queries(1)]
      quiet_evolves [OF runs_in_queries(2)] repo.runs_in_ret)+

lemma runs_in_authenticate [intro!]: "runs_in repo_evolves (api_authenticateApiKey E q)"
  unfolding api_authenticateApiKey_def
  by (intro runs_in_run repo.runs_in_bnd)
     (auto split: option.splits json.splits intro: quiet_evolves [OF runs_in_queries(3)])

lemma runs_in_middleware [intro]:
  "(\<And>u. runs_in repo_evolves (f u)) \<Longrightarrow> runs_in repo_evolves (requireAuth q f)"
  "(\<And>u. runs_in repo_evolves (f u)) \<Longrightarrow> runs_in repo_evolves (requireAdmin q f)"
  "(\<And>u j. runs_in repo_evolves (g u j)) \<Longrightarrow> runs_in repo_evolves (requireTaskSession q g)"
  by (auto simp: requireAuth_def requireAdmin_def requireTaskSession_def split: option.splits)

lemma get_routes_evolve: "get_route E q = Some h \<Longrightarrow> runs_in repo_evolves h"
  by (auto simp: get_route_def split: list.splits if_splits intro!: runs_in_middleware)

lemma post_routes_evolve: "post_route E C q = Some h \<Longrightarrow> runs_in repo_evolves h"
  by (auto simp: post_route_def split: list.splits if_splits intro!: runs_in_middleware)

lemma runs_in_serve [intro!]: "runs_in repo_evolves (serve E C q)"
  unfolding serve_def
  by (auto split: option.splits if_splits dest: get_routes_evolve post_routes_evolve)

text \<open>
  One step of the server: a request, a piece of the supervisor's work, a tick, a container's wait or
  stop that settles.
\<close>

inductive server_step ::
  "'w api_services \<Rightarrow> supervisor_config \<Rightarrow> 'w supervisor_state \<Rightarrow> 'w supervisor_state \<Rightarrow> bool"
  for E :: "'w api_services" and C :: supervisor_config where
  Request: "serve E C q s = (a, s') \<Longrightarrow> server_step E C s s'"
| Start: "start (sup_of (tasks_of E)) C s = (a, s') \<Longrightarrow> server_step E C s s'"
| Work: "drain (sup_of (tasks_of E)) C s = (a, s') \<Longrightarrow> server_step E C s s'"
| Tick: "tick s = (a, s') \<Longrightarrow> server_step E C s s'"
| Exited: "wait_settles t b s = (a, s') \<Longrightarrow> server_step E C s s'"
| Stopped: "stop_settles t s = (a, s') \<Longrightarrow> server_step E C s s'"

lemma server_step_evolves: "server_step E C s s' \<Longrightarrow> repo_evolves s s'"
proof (induction rule: server_step.induct)
  case (Request q s a s')
  then show ?case using runs_inD_run [OF runs_in_serve] by blast
next
  case (Start s a s')
  then show ?case using runs_inD_run [OF updates_evolves [OF runs_in_calls(5)]] by blast
next
  case (Work s a s')
  then show ?case using runs_inD_run [OF updates_evolves [OF runs_in_drain]] by blast
next
  case (Tick s a s')
  then show ?case using runs_inD_run [OF updates_evolves [OF runs_in_calls(4)]] by blast
next
  case (Exited t b s a s')
  then show ?case using runs_inD_run [OF quiet_evolves [OF runs_in_marks(4)]] by blast
next
  case (Stopped t s a s')
  then show ?case using runs_inD_run [OF quiet_evolves [OF runs_in_marks(3)]] by blast
qed

lemma server_steps_evolve: "(server_step E C)\<^sup>*\<^sup>* s s' \<Longrightarrow> repo_evolves s s'"
  by (induction rule: rtranclp_induct) (auto intro: repo.evolves_refl repo.evolves_trans server_step_evolves)

text \<open>
  C1: whatever requests the server gets, whatever its containers, the daemon, the disk and the clock
  do, and whenever it is restarted, the table stays consistent (unique identifiers, a key exactly
  while a task runs, no slot before it has run), no task is ever lost, changes owner or goes back in
  its life, and a task that has ended keeps the state it ended in.
\<close>

theorem server_keeps_tasks:
  assumes "table_ok (rows s)" and "(server_step E C)\<^sup>*\<^sup>* s s'"
  shows "table_ok (rows s') \<and> (\<forall>r \<in> set (rows s). \<exists>q \<in> set (rows s'). row_id q = row_id r \<and>
    row_username q = row_username r \<and> row_params q = row_params r \<and>
    task_life (row_state r) (row_state q) \<and>
    (row_state r \<in> {COMPLETED, CANCELED, FAILED} \<longrightarrow> row_state q = row_state r))"
proof -
  from server_steps_evolve [OF assms(2)] have steps: "task_stmt\<^sup>*\<^sup>* (rows s) (rows s')"
    by (simp add: repo_evolves_def)
  have "\<exists>q \<in> set (rows s'). row_id q = row_id r \<and> row_username q = row_username r \<and>
      row_params q = row_params r \<and> task_life (row_state r) (row_state q) \<and>
      (row_state r \<in> {COMPLETED, CANCELED, FAILED} \<longrightarrow> row_state q = row_state r)"
    if "r \<in> set (rows s)" for r
  proof -
    from rows_later_row [OF task_stmts_later [OF steps] that] obtain q
      where "q \<in> set (rows s')" "row_later r q" .
    moreover from this(2) have "row_state r \<in> {COMPLETED, CANCELED, FAILED} \<longrightarrow> row_state q = row_state r"
      by (auto simp: row_later_def dest: task_life_finished)
    ultimately show ?thesis by (auto simp: row_later_def)
  qed
  with task_stmts_ok [OF steps assms(1)] show ?thesis by blast
qed

definition api_services_example :: "int api_services" where
  "api_services_example = task_services.extend task_services_example
     \<lparr>isoString = (\<lambda>n. string_of_int n), toText = (\<lambda>_. [])\<rparr>"

definition cancel_request :: request where
  "cancel_request = \<lparr>req_method = ''POST'', req_path = [''tasks'', ''task'', example_uuid, ''cancel''],
     req_user = Some (JObj [(''username'', JStr ''ann'')]), req_session = None, req_body = None\<rparr>"

lemma cancel_served:
  "fst (serve api_services_example small_config cancel_request anns_server) = Inr \<lparr>status = 204, body = None\<rparr> \<and>
   map row_state (rows (snd (serve api_services_example small_config cancel_request anns_server))) = [CANCELING]"
  by code_simp

theorem server_keeps_tasks_witness:
  "table_ok (rows (snd (serve api_services_example small_config cancel_request anns_server)))"
proof -
  have "server_step api_services_example small_config anns_server
      (snd (serve api_services_example small_config cancel_request anns_server))"
    by (rule server_step.Request [OF prod.collapse [symmetric]])
  then have "(server_step api_services_example small_config)\<^sup>*\<^sup>* anns_server
      (snd (serve api_services_example small_config cancel_request anns_server))" by simp
  from server_keeps_tasks [OF anns_server_ok this] show ?thesis ..
qed

text \<open>
  Nothing but the health check is served without a user header: any other request is answered
  401, or 404 where there is no route, and changes nothing.
\<close>

theorem unauthenticated_refused:
  assumes "req_user q = None" and "req_path q \<noteq> [''healthcheck'']"
  shows "serve E C q s = (Inr refuseUnauthenticated, s) \<or> serve E C q s = (Inr \<lparr>status = 404, body = None\<rparr>, s)"
proof -
  have refuse: "requireAuth q f = ret refuseUnauthenticated" "requireAdmin q f = ret refuseUnauthenticated"
    "requireTaskSession q g = ret refuseUnauthenticated" for f :: "json \<Rightarrow> ('a, response) sup" and g
    using assms(1) by (simp_all add: requireAuth_def requireAdmin_def requireTaskSession_def parseCurrentUser_def)
  have "get_route E q = Some h \<Longrightarrow> h = ret refuseUnauthenticated" for h
    using assms(2) by (auto simp: get_route_def refuse split: list.splits if_splits)
  moreover have "post_route E C q = Some h \<Longrightarrow> h = ret refuseUnauthenticated" for h
    by (auto simp: post_route_def refuse split: list.splits if_splits)
  ultimately have "serve E C q = ret refuseUnauthenticated \<or> serve E C q = ret \<lparr>status = 404, body = None\<rparr>"
    by (auto simp: serve_def split: option.splits)
  then show ?thesis by auto
qed

theorem unauthenticated_refused_witness:
  "serve api_services_example small_config (cancel_request\<lparr>req_user := None\<rparr>) anns_server =
     (Inr refuseUnauthenticated, anns_server)"
proof -
  have "post_route api_services_example small_config (cancel_request\<lparr>req_user := None\<rparr>) \<noteq> None"
    by (simp add: post_route_def cancel_request_def)
  then have "serve api_services_example small_config (cancel_request\<lparr>req_user := None\<rparr>) anns_server \<noteq>
      (Inr \<lparr>status = 404, body = None\<rparr>, anns_server)"
    by (auto simp: serve_def cancel_request_def post_route_def requireAuth_def parseCurrentUser_def
        refuseUnauthenticated_def message_def)
  with unauthenticated_refused [of "cancel_request\<lparr>req_user := None\<rparr>" api_services_example small_config
      anns_server] show ?thesis
    by (simp add: cancel_request_def)
qed

text \<open>
  A container reaches only its own task: a progress report, slot request or slot release sent
  with the key of one task to the path of another is answered 403 and changes nothing.
\<close>

theorem foreign_container_refused:
  assumes "req_method q = ''POST''" and "truthy (req_user q)"
    and "req_session q = Some session" and "json_get session ''workerType'' = Some (JStr ''task'')"
    and "json_get session ''taskId'' = Some (JStr j)" and "j \<noteq> []" and "j \<noteq> i"
    and "req_path q = [''tasks'', ''task'', i] @ rest"
    and "rest = [''progress''] \<or> rest = [''local-processing''] \<or> rest = [''local-processing'', ''release'']"
  shows "serve E C q s = (Inr (message 403 (''Task '' @ i @ '' called with the key of task '' @ j)), s)"
proof -
  have pass: "requireTaskSession q g = g (the (req_user q)) session" for g :: "json \<Rightarrow> json \<Rightarrow> ('a, response) sup"
    using assms(2-6) by (auto simp: requireTaskSession_def parseCurrentUser_def split: option.splits)
  have "session_task E session = j" using assms(5) by (simp add: session_task_def text_of_def)
  with assms(7) have refuse: "callerTask i (session_task E session) s =
      (Inl (Unauthorized (''Task '' @ i @ '' called with the key of task '' @ j)), s)"
    by (simp add: callerTask_def)
  from assms(9) show ?thesis
  proof (elim disjE)
    assume "rest = [''progress'']"
    then show ?thesis
      using assms(1,8) refuse
      by (simp add: serve_def post_route_def pass api_progress_def run_def reportProgress_def effect_simps)
  next
    assume "rest = [''local-processing'']"
    then show ?thesis
      using assms(1,8) refuse
      by (simp add: serve_def post_route_def pass api_requestLocalProcessing_def run_def
          requestLocalProcessing_def effect_simps)
  next
    assume "rest = [''local-processing'', ''release'']"
    then show ?thesis
      using assms(1,8) refuse
      by (simp add: serve_def post_route_def pass api_releaseLocalProcessing_def run_def
          releaseLocalProcessing_def effect_simps)
  qed
qed

theorem foreign_container_refused_witness:
  "serve api_services_example small_config
     \<lparr>req_method = ''POST'', req_path = [''tasks'', ''task'', ''b'', ''progress''],
      req_user = Some (JObj [(''username'', JStr ''ann'')]),
      req_session = Some (JObj [(''workerType'', JStr ''task''), (''taskId'', JStr ''a'')]), req_body = None\<rparr>
     anns_server = (Inr (message 403 (''Task '' @ ''b'' @ '' called with the key of task '' @ ''a'')), anns_server)"
  by (rule foreign_container_refused [where i = "''b''" and j = "''a''" and rest = "[''progress'']"
        and session = "JObj [(''workerType'', JStr ''task''), (''taskId'', JStr ''a'')]"]) simp_all

end
