(* ===== verification/GatewayTasks.thy ===== *)
theory GatewayTasks
  imports GatewaySessions TasksApi
begin

text \<open>
  The gateway in front of the task-manager: the gateway asks the task-manager whose task an API key is,
  and the request it then forwards reaches, among the calls of task containers, only that task's.
\<close>

section \<open>The two modules together\<close>

text \<open>\<open>INTERNAL_ADMIN_HEADER\<close>, and the call \<open>keyOwner$\<close> sends.\<close>

definition INTERNAL_ADMIN :: json where
  "INTERNAL_ADMIN = JObj [(''username'', JStr ''sepal-gateway''), (''roles'', JArr [JStr ''application_admin'']),
     (''status'', JStr ''ACTIVE''), (''systemUser'', JBool True)]"

definition key_request :: "string \<Rightarrow> TasksApi.request" where
  "key_request k = \<lparr>req_method = ''POST'', req_path = [''tasks'', ''api-key-authenticate''], req_user = Some INTERNAL_ADMIN,
     req_session = None, req_body = Some (JObj [(''apiKey'', JStr k)])\<rparr>"

definition reply_of :: "task_error + response \<Rightarrow> (string \<times> string) reply" where
  "reply_of r = (case r of Inl _ \<Rightarrow> Unreachable ''error''
   | Inr a \<Rightarrow> if status a \<noteq> 200 then Status (status a)
       else (case Option.bind (body a) (\<lambda>b. json_get b ''username'') of
         Some (JStr u) \<Rightarrow> (case Option.bind (body a) (\<lambda>b. json_get b ''taskId'') of
           Some (JStr i) \<Rightarrow> Body (u, i) | _ \<Rightarrow> Unreachable ''body'')
       | _ \<Rightarrow> Unreachable ''body''))"

definition task_manager_key :: "'v api_services \<Rightarrow> supervisor_config \<Rightarrow> string \<Rightarrow> 'v supervisor_state \<Rightarrow>
    (string \<times> string) reply \<times> 'v supervisor_state" where
  "task_manager_key A C k s = (case serve A C (key_request k) s of (r, s') \<Rightarrow> (reply_of r, s'))"

text \<open>The headers a forwarded request carries, as text parsed again by the task-manager.\<close>

definition session_header_json :: "worker_session \<Rightarrow> json" where
  "session_header_json v = JObj
     ((case wss_sessionId v of None \<Rightarrow> [] | Some i \<Rightarrow> [(''sessionId'', JStr i)]) @ [(''workerType'', JStr (wss_workerType v))] @
      (case wss_taskId v of None \<Rightarrow> [] | Some i \<Rightarrow> [(''taskId'', JStr i)]))"

definition user_header_json :: "user \<Rightarrow> json" where
  "user_header_json u = JObj [(''id'', usr_id u), (''username'', JStr (usr_username u)), (''status'', JStr (usr_status u)),
     (''roles'', JArr (map JStr (usr_roles u))), (''systemUser'', JBool (usr_systemUser u)), (''admin'', JBool (usr_admin u))]"

definition container_request :: "user \<Rightarrow> worker_session \<Rightarrow> string \<Rightarrow> string list \<Rightarrow> json option \<Rightarrow> TasksApi.request" where
  "container_request u v i call b = \<lparr>req_method = ''POST'', req_path = [''tasks'', ''task'', i] @ call,
     req_user = Some (user_header_json u), req_session = Some (session_header_json v), req_body = b\<rparr>"

section \<open>A key reaches its own task\<close>

lemma key_request_served:
  "serve A C (key_request k) s = (case find (\<lambda>r. row_apiKeyHash r = Some (hashApiKey (tasks_of A) k) \<and> row_state r \<in> set RUNNING_STATES) (rows s) of
     None \<Rightarrow> (Inr \<lparr>status = 401, body = Some (JObj [])\<rparr>, s)
   | Some r \<Rightarrow> (Inr \<lparr>status = 200, body = Some (JObj [(''username'', JStr (row_username r)), (''taskId'', JStr (row_id r))])\<rparr>, s))"
  by (simp add: serve_def post_route_def key_request_def TasksApi.requireAdmin_def parseCurrentUser_def INTERNAL_ADMIN_def isAdmin_def
      TasksApi.ADMIN_ROLE_def api_authenticateApiKey_def field_def run_def Tasks.authenticateApiKey_def findByApiKeyHash_def
      select_def effect_simps option.map_comp comp_def del: in_RUNNING split: option.splits)

lemma task_manager_key_known:
  assumes "task_manager_key A C k s = (Body (u, i), s')"
  shows "\<exists>r \<in> set (rows s). row_id r = i \<and> row_username r = u \<and> row_state r \<in> {ACTIVE, CANCELING} \<and>
    row_apiKeyHash r = Some (hashApiKey (tasks_of A) k)"
proof -
  let ?P = "\<lambda>r. row_apiKeyHash r = Some (hashApiKey (tasks_of A) k) \<and> row_state r \<in> set RUNNING_STATES"
  from assms obtain r where f: "find ?P (rows s) = Some r" and r: "row_username r = u" "row_id r = i"
    by (cases "find ?P (rows s)") (simp_all add: task_manager_key_def key_request_served reply_of_def del: in_RUNNING)
  from find_Some_key [OF f] have "r \<in> set (rows s)" "?P r" by auto
  with r show ?thesis by auto
qed

text \<open>
  C20: a request that presents a task's API key is authenticated only while a running task holds that key,
  it is attributed to that task's owner and session, and forwarded to any other task's container calls it
  is refused and changes nothing there.
\<close>
theorem task_key_reaches_own_task:
  assumes "task_key_owner E = task_manager_key A C"
    and "hasBasicAuthHeaders (req g)" and "getRequestHeaderCredentials (req g) = Some ([], k)" and "starts_with TASK_API_KEY_PREFIX k"
    and "authMiddleware E g = (Inr 200, g')"
  shows "\<exists>u v i. sepal_user (req g') = Some (Given u) \<and> sepal_session (req g') = Some (Given v) \<and> wss_taskId v = Some i \<and>
    (\<exists>r \<in> set (rows (services g)). row_id r = i \<and> row_state r \<in> {ACTIVE, CANCELING} \<and>
       row_apiKeyHash r = Some (hashApiKey (tasks_of A) k)) \<and>
    (\<forall>j call b s. j \<noteq> i \<and> call \<in> {[''progress''], [''local-processing''], [''local-processing'', ''release'']} \<longrightarrow>
       (\<exists>m. serve A C (container_request u v j call b) s = (Inr (message 403 m), s)))"
proof -
  let ?f = "\<lambda>w. task_key_reply (task_key_owner E k w)"
  from assms(2-5) have a: "GatewayAuth.authenticateApiKey E k g = (Inr 200, g')"
    by (auto simp: authMiddleware_def authenticate_def catching_run bnd_run split: prod.splits sum.splits)
  then obtain n v g1 where p: "posts [200, 401] (\<lambda>(n, v). Key_owner k n v) ?f g = (Inr (Inr (n, v)), g1)"
    and l: "auth_loadUser E n v g1 = (Inr 200, g')"
    using assms(4) by (auto simp: GatewayAuth.authenticateApiKey_def keyOwner_def bnd_run split: prod.splits sum.splits if_splits)
  from p obtain i w where o': "task_manager_key A C k (services g) = (Body (n, i), w)"
    and v: "v = \<lparr>wss_sessionId = None, wss_workerType = ''task'', wss_taskId = Some i\<rparr>"
    unfolding assms(1) posts_def asks_def task_key_reply_def
    by (auto simp: effect_simps noted_def task_owner_def split: prod.splits reply.splits if_splits)
  from auth_loadUser_200 [OF l] obtain u where u: "sepal_user (req g') = Some (Given (userInfo_of u))"
    "sepal_session (req g') = Some (Given v)" by blast
  have "\<exists>m. serve A C (container_request (userInfo_of u) v j call b) s = (Inr (message 403 m), s)"
    if "j \<noteq> i" "call \<in> {[''progress''], [''local-processing''], [''local-processing'', ''release'']}" for j call b s
  proof (cases "i = []")
    case False
    have "serve A C (container_request (userInfo_of u) v j call b) s =
        (Inr (message 403 (''Task '' @ j @ '' called with the key of task '' @ i)), s)"
      by (rule foreign_container_refused [where session = "session_header_json v" and rest = call])
        (use that False in \<open>auto simp: container_request_def session_header_json_def user_header_json_def v\<close>)
    then show ?thesis by blast
  next
    case True
    with that(2) show ?thesis
      by (auto simp: serve_def post_route_def container_request_def requireTaskSession_def parseCurrentUser_def
          session_header_json_def user_header_json_def v)
  qed
  with u v task_manager_key_known [OF o'] show ?thesis by auto
qed


definition task_gate :: "int supervisor_state gateway_env" where
  "task_gate = \<lparr>redis_ok = (\<lambda>w. (True, w)), newSessionId = (\<lambda>w. (''s2'', w)), parse_user = (\<lambda>_. None), parse_session = (\<lambda>_. None),
     isMatch = (\<lambda>_ _. False), backend_user = (\<lambda>n w. (Status 404, w)), backend_authenticate = (\<lambda>n p w. (Status 401, w)),
     session_key_owner = (\<lambda>k w. (Status 401, w)),
     task_key_owner = task_manager_key (api_services_example\<lparr>hashApiKey := drop 5\<rparr>) small_config,
     backend_lookup = (\<lambda>n w. (Body (bob_user ''ACTIVE''), w)), backend_reset = (\<lambda>b w. (Status 400, w)),
     refresh_tokens = (\<lambda>u w. (Status 204, w)), revoke_access = (\<lambda>u w. (Body u, w))\<rparr>"

definition key_exchange :: "int supervisor_state gateway" where
  "key_exchange = \<lparr>user_cache = (\<lambda>_. None), login_sessions = [], events = [], answers = [],
     req = asking ''/api/tasks'' (Some ''Basic OnRhc2tfMGExYjJjM2QtMDAwMC00MDAwLTgwMDAtMDAwMDAwMDAwMDBm''), gtime = 0, services = anns_server\<rparr>"

theorem task_key_reaches_own_task_witness:
  "\<exists>v. sepal_session (req (snd (authMiddleware task_gate key_exchange))) = Some (Given v) \<and>
     (\<exists>r \<in> set (rows anns_server). wss_taskId v = Some (row_id r) \<and> row_state r \<in> {ACTIVE, CANCELING})"
proof -
  have gate: "task_key_owner task_gate = task_manager_key (api_services_example\<lparr>hashApiKey := drop 5\<rparr>) small_config"
    by (simp add: task_gate_def)
  have basic: "hasBasicAuthHeaders (req key_exchange)"
    and creds: "getRequestHeaderCredentials (req key_exchange) = Some ([], ''task_0a1b2c3d-0000-4000-8000-00000000000f'')"
    and key: "starts_with TASK_API_KEY_PREFIX ''task_0a1b2c3d-0000-4000-8000-00000000000f''"
    by code_simp+
  have "fst (authMiddleware task_gate key_exchange) = Inr 200" by code_simp
  then have "authMiddleware task_gate key_exchange = (Inr 200, snd (authMiddleware task_gate key_exchange))"
    by (metis prod.collapse)
  from task_key_reaches_own_task [OF gate basic creds key this] show ?thesis
    by (auto simp: key_exchange_def)
qed

end
