(* ===== verification/SandboxModel.thy ===== *)
theory SandboxModel
  imports Prelude KeyCase
begin

text \<open>
  How the gateway routes requests to the sandboxes of users (\<^verbatim>\<open>modules/gateway/src/sandbox\<close>): the cache
  of which session serves which app, its refreshment from the worker, interactions and heartbeats
  (\<^verbatim>\<open>sandboxSessionManager.js\<close>), and the parsing and resolving of proxied requests (\<^verbatim>\<open>sandboxProxy.js\<close>).
  A JavaScript map is a list of pairs in insertion order. The worker and the sandboxes are functions of
  \<open>sandbox_env\<close> over an arbitrary world; \<open>told\<close> records the sessions the worker has named to the gateway,
  with their user and host, and \<open>beats\<close> the heartbeats sent. One operation runs to its end, so no call is
  in flight when it starts, and no time passes while it runs.
\<close>

section \<open>Data\<close>

record sandbox_entry =
  se_sessionId :: string
  se_host :: "string option"
  se_status :: string
  se_endpoint :: string
  se_appPath :: string
  se_lastSeen :: int

record worker_report =
  wr_id :: string
  wr_host :: "string option"
  wr_status :: string

record app_report =
  ar_path :: string
  ar_session :: worker_report

text \<open>A failed call of the worker: its status with the code in its body, if any.\<close>

datatype sandbox_error = Worker_answered nat "string option" | Worker_unreachable

fun statusCode :: "sandbox_error \<Rightarrow> nat option" where
  "statusCode (Worker_answered c _) = Some c"
| "statusCode Worker_unreachable = None"

record 'w sandboxes =
  sessionsByUsername :: "(string \<times> (string \<times> sandbox_entry) list) list"
  kernelsByUsername :: "(string \<times> (string \<times> (string \<times> string)) list) list"
  startedServers :: "(string \<times> string) list"
  pendingActivity :: "string list"
  unobservableUntil :: "(string \<times> int) list"
  interactionSeen :: "string list"
  told :: "(string \<times> string \<times> string option) list"
  beats :: "(string \<times> string \<times> bool) list"
  sb_now :: int
  sb_world :: 'w

record 'w sandbox_env =
  defaultInstanceType :: string
  observableTtlMs :: int
  url_pathname :: "string \<Rightarrow> string option"
  w_requestSession :: "string \<Rightarrow> string \<Rightarrow> 'w \<Rightarrow> (sandbox_error + worker_report) \<times> 'w"
  w_sendHeartbeat :: "string \<Rightarrow> string \<Rightarrow> bool \<Rightarrow> 'w \<Rightarrow> (sandbox_error + worker_report) \<times> 'w"
  w_findActiveSessions :: "string \<Rightarrow> 'w \<Rightarrow> (sandbox_error + worker_report list) \<times> 'w"
  w_findAppSessions :: "string \<Rightarrow> 'w \<Rightarrow> (sandbox_error + app_report list) \<times> 'w"
  w_associateApp :: "string \<Rightarrow> string \<Rightarrow> string \<Rightarrow> string option \<Rightarrow> string option \<Rightarrow> bool \<Rightarrow> 'w \<Rightarrow> (sandbox_error + string) \<times> 'w"
  w_dissociateApp :: "string \<Rightarrow> string \<Rightarrow> string option \<Rightarrow> 'w \<Rightarrow> (sandbox_error + unit) \<times> 'w"
  w_startServer :: "string \<Rightarrow> string \<Rightarrow> string \<Rightarrow> 'w \<Rightarrow> (sandbox_error + unit) \<times> 'w"
  kernel_at :: "string \<Rightarrow> nat \<Rightarrow> string \<Rightarrow> 'w \<Rightarrow> bool \<times> 'w"

type_synonym ('w, 'a) sbx = "('w sandboxes, sandbox_error, 'a) act"

section \<open>Maps in insertion order\<close>

fun map_set :: "('k \<times> 'v) list \<Rightarrow> 'k \<Rightarrow> 'v \<Rightarrow> ('k \<times> 'v) list" where
  "map_set [] k v = [(k, v)]"
| "map_set ((k', v') # m) k v = (if k' = k then (k, v) # m else (k', v') # map_set m k v)"

definition map_delete :: "('k \<times> 'v) list \<Rightarrow> 'k \<Rightarrow> ('k \<times> 'v) list" where
  "map_delete m k = filter (\<lambda>p. fst p \<noteq> k) m"

definition set_add :: "'k list \<Rightarrow> 'k \<Rightarrow> 'k list" where
  "set_add xs k = (if k \<in> set xs then xs else xs @ [k])"

definition set_delete :: "'k list \<Rightarrow> 'k \<Rightarrow> 'k list" where
  "set_delete xs k = filter (\<lambda>x. x \<noteq> k) xs"

definition first_of_each :: "'a list \<Rightarrow> 'a list" where
  "first_of_each xs = rev (remdups (rev xs))"

lemma map_of_map_set: "map_of (map_set m k v) = (map_of m)(k \<mapsto> v)"
  by (induction m k v rule: map_set.induct) (auto simp: fun_eq_iff)

lemma fst_map_set: "fst ` set (map_set m k v) = insert k (fst ` set m)"
  by (induction m k v rule: map_set.induct) auto

lemma distinct_map_set: "distinct (map fst m) \<Longrightarrow> distinct (map fst (map_set m k v))"
  by (induction m k v rule: map_set.induct) (auto simp: fst_map_set)

lemma set_map_set: "set (map_set m k v) \<subseteq> insert (k, v) (set m)"
  by (induction m k v rule: map_set.induct) auto

lemma map_of_map_delete: "map_of (map_delete m k) = (map_of m)(k := None)"
  by (induction m) (auto simp: map_delete_def fun_eq_iff)

lemma distinct_map_delete: "distinct (map fst m) \<Longrightarrow> distinct (map fst (map_delete m k))"
  by (simp add: map_delete_def distinct_map_filter)

lemma set_first_of_each [simp]: "set (first_of_each xs) = set xs"
  by (simp add: first_of_each_def)

lemma set_set_add [simp]: "set (set_add xs k) = insert k (set xs)"
  by (auto simp: set_add_def)

lemma set_set_delete [simp]: "set (set_delete xs k) = set xs - {k}"
  by (auto simp: set_delete_def)

text \<open>An empty text counts as none.\<close>

definition nonempty :: "string option \<Rightarrow> string option" where
  "nonempty x = (if x = Some [] then None else x)"

section \<open>Endpoints\<close>

definition PORT_BY_ENDPOINT :: "(string \<times> nat) list" where
  "PORT_BY_ENDPOINT = [(''rstudio'', 8787), (''shiny'', 3838), (''jupyter'', 8888)]"

definition DEFAULT_ENDPOINT :: string where "DEFAULT_ENDPOINT = ''shiny''"

definition isEndpoint :: "string \<Rightarrow> bool" where
  "isEndpoint e \<longleftrightarrow> map_of PORT_BY_ENDPOINT e \<noteq> None"

definition port_of :: "string \<Rightarrow> nat" where
  "port_of e = the (map_of PORT_BY_ENDPOINT e)"

definition toClientStatus :: "string \<Rightarrow> string" where
  "toClientStatus st = (if st = ''ACTIVE'' then ''STARTED'' else ''STARTING'')"

definition entry_status :: "string \<Rightarrow> string" where
  "entry_status st = (if st = ''STARTING'' then ''STARTING'' else ''ACTIVE'')"

definition LEGACY_APP_LABEL :: "(string \<times> string) list" where
  "LEGACY_APP_LABEL = [(''rstudio'', ''RStudio''), (''shiny'', ''Shiny''), (''jupyter'', ''Jupyter'')]"

definition legacyAppPath :: "string \<Rightarrow> string" where
  "legacyAppPath e = ''/sandbox/'' @ e"

section \<open>Interactions\<close>

definition activityKey :: "string \<Rightarrow> string \<Rightarrow> string" where
  "activityKey u i = u @ ''::'' @ i"

definition recordActivity :: "string \<Rightarrow> string \<Rightarrow> ('w, unit) sbx" where
  "recordActivity u i = (if i = [] then ret ()
     else modify (\<lambda>s. s\<lparr>pendingActivity := set_add (pendingActivity s) (activityKey u i)\<rparr>))"

definition isUnobservable :: "string \<Rightarrow> string \<Rightarrow> ('w, bool) sbx" where
  "isUnobservable u i = state_act (\<lambda>s. case map_of (unobservableUntil s) (activityKey u i) of
     None \<Rightarrow> (False, s)
   | Some expiry \<Rightarrow> if expiry \<le> sb_now s
       then (False, s\<lparr>unobservableUntil := map_delete (unobservableUntil s) (activityKey u i)\<rparr>)
       else (True, s))"

definition recordInteraction :: "'w sandbox_env \<Rightarrow> string \<Rightarrow> string \<Rightarrow> bool \<Rightarrow> ('w, bool) sbx" where
  "recordInteraction E u i observable = (if u = [] \<or> i = [] then ret False
     else let key = activityKey u i in
       andthen (if observable
         then andthen (modify (\<lambda>s. s\<lparr>unobservableUntil := map_delete (unobservableUntil s) key\<rparr>))
           (andthen (recordActivity u i) (modify (\<lambda>s. s\<lparr>interactionSeen := set_add (interactionSeen s) key\<rparr>)))
         else modify (\<lambda>s. s\<lparr>unobservableUntil := map_set (unobservableUntil s) key (sb_now s + observableTtlMs E)\<rparr>))
       (ret True))"

definition recordProxiedRequest :: "string \<Rightarrow> string \<Rightarrow> ('w, unit) sbx" where
  "recordProxiedRequest u i = bnd (isUnobservable u i) (\<lambda>unobservable. if unobservable then recordActivity u i else ret ())"

section \<open>Calls of the worker\<close>

definition sb_asks :: "('w \<Rightarrow> 'a \<times> 'w) \<Rightarrow> ('w, 'a) sbx" where
  "sb_asks f = state_act (\<lambda>s. case f (sb_world s) of (a, w) \<Rightarrow> (a, s\<lparr>sb_world := w\<rparr>))"

definition workerRequest :: "('w \<Rightarrow> (sandbox_error + 'a) \<times> 'w) \<Rightarrow> ('w, 'a) sbx" where
  "workerRequest f = bnd (sb_asks f) (\<lambda>r. case r of Inl e \<Rightarrow> throw e | Inr a \<Rightarrow> ret a)"

definition hear :: "string \<Rightarrow> worker_report list \<Rightarrow> ('w, unit) sbx" where
  "hear u rs = modify (\<lambda>s. s\<lparr>told := told s @ map (\<lambda>r. (u, wr_id r, wr_host r)) rs\<rparr>)"

definition requestSession :: "'w sandbox_env \<Rightarrow> string \<Rightarrow> string \<Rightarrow> ('w, worker_report) sbx" where
  "requestSession E u t = bnd (workerRequest (w_requestSession E u t)) (\<lambda>r. andthen (hear u [r]) (ret r))"

text \<open>The worker answers a heartbeat with the session it was sent for.\<close>

definition sendHeartbeat :: "'w sandbox_env \<Rightarrow> string \<Rightarrow> string \<Rightarrow> bool \<Rightarrow> ('w, worker_report) sbx" where
  "sendHeartbeat E u i interaction = andthen (modify (\<lambda>s. s\<lparr>beats := beats s @ [(u, i, interaction)]\<rparr>))
     (bnd (workerRequest (w_sendHeartbeat E u i interaction)) (\<lambda>r. let r = r\<lparr>wr_id := i\<rparr> in andthen (hear u [r]) (ret r)))"

definition findActiveSessions :: "'w sandbox_env \<Rightarrow> string \<Rightarrow> ('w, worker_report list) sbx" where
  "findActiveSessions E u = bnd (workerRequest (w_findActiveSessions E u)) (\<lambda>rs. andthen (hear u rs) (ret rs))"

definition findAppSessions :: "'w sandbox_env \<Rightarrow> string \<Rightarrow> ('w, app_report list) sbx" where
  "findAppSessions E u = bnd (workerRequest (w_findAppSessions E u)) (\<lambda>rs. andthen (hear u (map ar_session rs)) (ret rs))"

section \<open>The cache\<close>

definition entries_of :: "string \<Rightarrow> 'w sandboxes \<Rightarrow> (string \<times> sandbox_entry) list" where
  "entries_of u s = (case map_of (sessionsByUsername s) u of None \<Rightarrow> [] | Some es \<Rightarrow> es)"

definition entriesFor :: "string \<Rightarrow> 'w sandboxes \<Rightarrow> sandbox_entry list" where
  "entriesFor u s = map snd (entries_of u s)"

definition cache_entry :: "string \<Rightarrow> string \<Rightarrow> worker_report \<Rightarrow> string \<Rightarrow> string \<Rightarrow> ('w, sandbox_entry) sbx" where
  "cache_entry u key r endpoint appPath = state_act (\<lambda>s.
     let entry = \<lparr>se_sessionId = wr_id r, se_host = wr_host r, se_status = wr_status r, se_endpoint = endpoint,
           se_appPath = appPath, se_lastSeen = sb_now s\<rparr>
     in (entry, s\<lparr>sessionsByUsername := map_set (sessionsByUsername s) u (map_set (entries_of u s) key entry)\<rparr>))"

definition drop_where :: "string \<Rightarrow> (string \<times> sandbox_entry \<Rightarrow> bool) \<Rightarrow> 'w sandboxes \<Rightarrow> 'w sandboxes" where
  "drop_where u P s = (if map_of (sessionsByUsername s) u = None then s
     else let es = filter (\<lambda>p. \<not> P p) (entries_of u s) in
       s\<lparr>sessionsByUsername := (if es = [] then map_delete (sessionsByUsername s) u else map_set (sessionsByUsername s) u es)\<rparr>)"

definition dropEntry :: "string \<Rightarrow> string \<Rightarrow> ('w, unit) sbx" where
  "dropEntry u key = modify (drop_where u (\<lambda>(k, _). k = key))"

definition drop_kernels :: "string \<Rightarrow> string \<Rightarrow> 'w sandboxes \<Rightarrow> 'w sandboxes" where
  "drop_kernels u i s = (case map_of (kernelsByUsername s) u of None \<Rightarrow> s
     | Some ks \<Rightarrow> let ks = filter (\<lambda>(_, j, _). j \<noteq> i) ks in
         s\<lparr>kernelsByUsername := (if ks = [] then map_delete (kernelsByUsername s) u else map_set (kernelsByUsername s) u ks)\<rparr>)"

definition dropSession :: "string \<Rightarrow> string \<Rightarrow> ('w, unit) sbx" where
  "dropSession u i = modify (\<lambda>s. let key = activityKey u i;
       s = s\<lparr>pendingActivity := set_delete (pendingActivity s) key, unobservableUntil := map_delete (unobservableUntil s) key,
         interactionSeen := set_delete (interactionSeen s) key\<rparr>;
       s = drop_where u (\<lambda>(_, e). se_sessionId e = i) s;
       s = drop_kernels u i s
     in s\<lparr>startedServers := filter (\<lambda>(j, e). \<not> (j = i \<and> isEndpoint e)) (startedServers s)\<rparr>)"

definition onSessionClosed :: "string option \<Rightarrow> string option \<Rightarrow> string option \<Rightarrow> ('w, unit) sbx" where
  "onSessionClosed u i host = (case (nonempty u, nonempty i) of
     (Some u, Some i) \<Rightarrow> dropSession u i
   | (_, i) \<Rightarrow> bnd (gets (\<lambda>s. map fst (sessionsByUsername s))) (\<lambda>users.
       for_each users (\<lambda>v. modify (drop_where v (\<lambda>(_, e). i = Some (se_sessionId e) \<or> nonempty host \<noteq> None \<and> se_host e = host)))))"

definition onAppDissociated :: "string option \<Rightarrow> string option \<Rightarrow> ('w, unit) sbx" where
  "onAppDissociated u path = (case (nonempty u, nonempty path) of (Some u, Some p) \<Rightarrow> dropEntry u p | _ \<Rightarrow> ret ())"


section \<open>Apps and servers\<close>

definition findAppSession :: "'w sandbox_env \<Rightarrow> string \<Rightarrow> string \<Rightarrow> string \<Rightarrow> ('w, sandbox_entry option) sbx" where
  "findAppSession E u appPath endpoint = bnd (gets (\<lambda>s. map_of (entries_of u s) appPath)) (\<lambda>cached.
     if map_option se_status cached = Some ''ACTIVE'' then ret cached
     else bnd (findAppSessions E u) (\<lambda>rs. case find (\<lambda>r. ar_path r = appPath) rs of
       None \<Rightarrow> andthen (if cached \<noteq> None then dropEntry u appPath else ret ()) (ret None)
     | Some r \<Rightarrow> bnd (cache_entry u appPath ((ar_session r)\<lparr>wr_status := entry_status (wr_status (ar_session r))\<rparr>) endpoint appPath)
         (\<lambda>e. ret (Some e))))"

definition ensureServerStarted :: "'w sandbox_env \<Rightarrow> string \<Rightarrow> string \<Rightarrow> string \<Rightarrow> ('w, unit) sbx" where
  "ensureServerStarted E u i endpoint = (if u = [] \<or> i = [] \<or> \<not> isEndpoint endpoint then ret ()
     else bnd (gets (\<lambda>s. (i, endpoint) \<in> set (startedServers s))) (\<lambda>started. if started then ret ()
       else andthen (workerRequest (w_startServer E u i endpoint))
         (modify (\<lambda>s. s\<lparr>startedServers := set_add (startedServers s) (i, endpoint)\<rparr>))))"

definition forgetServerStarted :: "string \<Rightarrow> string \<Rightarrow> ('w, unit) sbx" where
  "forgetServerStarted i endpoint = modify (\<lambda>s. s\<lparr>startedServers := set_delete (startedServers s) (i, endpoint)\<rparr>)"

record start_request =
  rq_username :: string
  rq_endpoint :: string
  rq_appPath :: "string option"
  rq_appLabel :: "string option"
  rq_sessionId :: "string option"
  rq_instanceType :: "string option"
  rq_clientId :: "string option"
  rq_reassert :: bool

record started =
  st_id :: string
  st_status :: string
  st_reused :: bool

definition adoptAssociation :: "'w sandbox_env \<Rightarrow> start_request \<Rightarrow> string \<Rightarrow> string \<Rightarrow> worker_report \<Rightarrow> ('w, started) sbx" where
  "adoptAssociation E q appPath associated fallback = (let u = rq_username q; endpoint = rq_endpoint q in
     if associated = wr_id fallback
     then bnd (cache_entry u appPath fallback endpoint appPath)
       (\<lambda>e. ret \<lparr>st_id = se_sessionId e, st_status = toClientStatus (se_status e), st_reused = False\<rparr>)
     else bnd (findActiveSessions E u) (\<lambda>rs. let winner = find (\<lambda>r. wr_id r = associated) rs in
       bnd (cache_entry u appPath \<lparr>wr_id = associated, wr_host = Option.bind winner wr_host,
           wr_status = (case winner of None \<Rightarrow> ''ACTIVE'' | Some r \<Rightarrow> entry_status (wr_status r))\<rparr> endpoint appPath)
         (\<lambda>e. ret \<lparr>st_id = se_sessionId e, st_status = toClientStatus (se_status e), st_reused = True\<rparr>)))"

definition startApp :: "'w sandbox_env \<Rightarrow> start_request \<Rightarrow> ('w, started) sbx" where
  "startApp E q = (let u = rq_username q; endpoint = rq_endpoint q;
       appPath = (case rq_appPath q of None \<Rightarrow> legacyAppPath endpoint | Some p \<Rightarrow> p);
       label = (case rq_appLabel q of Some l \<Rightarrow> Some l
         | None \<Rightarrow> if nonempty (rq_appPath q) \<noteq> None then None else map_of LEGACY_APP_LABEL endpoint);
       client = nonempty (rq_clientId q) in
     bnd (findAppSession E u appPath endpoint) (\<lambda>existing. case existing of
       Some e \<Rightarrow> andthen (if client = None then ret ()
           else catching (bnd (workerRequest (w_associateApp E u (se_sessionId e) appPath label client (rq_reassert q))) (\<lambda>_. ret ()))
             (\<lambda>_. ret ()))
         (ret \<lparr>st_id = se_sessionId e, st_status = toClientStatus (se_status e),
           st_reused = ((nonempty (rq_sessionId q) \<noteq> None \<or> nonempty (rq_instanceType q) \<noteq> None) \<and> rq_sessionId q \<noteq> Some (se_sessionId e))\<rparr>)
     | None \<Rightarrow> (case nonempty (rq_sessionId q) of
         Some i \<Rightarrow> bnd (findActiveSessions E u) (\<lambda>rs. case find (\<lambda>r. wr_id r = i) rs of
             None \<Rightarrow> throw (Worker_answered 404 None)
           | Some r \<Rightarrow> bnd (workerRequest (w_associateApp E u i appPath label client (rq_reassert q))) (\<lambda>associated.
               adoptAssociation E q appPath associated (r\<lparr>wr_status := entry_status (wr_status r)\<rparr>)))
       | None \<Rightarrow> bnd (requestSession E u (case rq_instanceType q of None \<Rightarrow> defaultInstanceType E | Some t \<Rightarrow> t)) (\<lambda>r.
           bnd (workerRequest (w_associateApp E u (wr_id r) appPath label client False)) (\<lambda>associated.
             adoptAssociation E q appPath associated r)))))"

definition releaseApp :: "'w sandbox_env \<Rightarrow> string \<Rightarrow> string option \<Rightarrow> string option \<Rightarrow> ('w, unit) sbx" where
  "releaseApp E u appPath client = (case nonempty appPath of None \<Rightarrow> ret ()
     | Some p \<Rightarrow> andthen (catching (workerRequest (w_dissociateApp E u p (nonempty client)))
         (\<lambda>e. if statusCode e = Some 404 then ret () else throw e)) (dropEntry u p))"

definition sandbox_status :: "'w sandbox_env \<Rightarrow> string \<Rightarrow> string \<Rightarrow> string option \<Rightarrow> ('w, (string \<times> string) option) sbx" where
  "sandbox_status E u endpoint appPath =
     bnd (findAppSession E u (case appPath of None \<Rightarrow> legacyAppPath endpoint | Some p \<Rightarrow> p) endpoint) (\<lambda>e.
       ret (map_option (\<lambda>e. (se_sessionId e, toClientStatus (se_status e))) e))"

section \<open>Resolving\<close>

definition word_char :: "char \<Rightarrow> bool" where
  "word_char c \<longleftrightarrow> (let n = of_char c :: nat in 48 \<le> n \<and> n \<le> 57 \<or> 65 \<le> n \<and> n \<le> 90 \<or> 97 \<le> n \<and> n \<le> 122 \<or> n = 95 \<or> n = 45)"

text \<open>The first match of \<^verbatim>\<open>/\/api\/kernels\/([\w-]+)/\<close>.\<close>

fun kernel_of :: "string \<Rightarrow> string option" where
  "kernel_of [] = None"
| "kernel_of (c # cs) = (let i = takeWhile word_char (drop 13 (c # cs)) in
     if starts_with ''/api/kernels/'' (c # cs) \<and> i \<noteq> [] then Some i else kernel_of cs)"

definition stripApi :: "string \<Rightarrow> string" where
  "stripApi p = (if starts_with ''/api'' p then drop 4 p else p)"

definition isPrefixOnSegment :: "string \<Rightarrow> string \<Rightarrow> bool" where
  "isPrefixOnSegment pre path \<longleftrightarrow> path = pre \<or> starts_with (pre @ ''/'') path \<or> starts_with (pre @ ''?'') path"

text \<open>The endpoint in an app's own path, \<^verbatim>\<open>/^\/sandbox\/([^/]+)/\<close>.\<close>

definition path_endpoint :: "string \<Rightarrow> string \<Rightarrow> string" where
  "path_endpoint path fallback = (let e = takeWhile (\<lambda>c. c \<noteq> CHR ''/'') (drop 9 path) in
     if starts_with ''/sandbox/'' path \<and> e \<noteq> [] then e else fallback)"

definition refreshAppSessions :: "'w sandbox_env \<Rightarrow> string \<Rightarrow> string \<Rightarrow> ('w, unit) sbx" where
  "refreshAppSessions E u fallbackEndpoint = bnd (catching (findAppSessions E u) (\<lambda>_. ret [])) (\<lambda>rs.
     for_each rs (\<lambda>r. bnd (cache_entry u (ar_path r) ((ar_session r)\<lparr>wr_status := entry_status (wr_status (ar_session r))\<rparr>)
       (path_endpoint (ar_path r) fallbackEndpoint) (ar_path r)) (\<lambda>_. ret ())))"

definition longest_match :: "string \<Rightarrow> sandbox_entry list \<Rightarrow> sandbox_entry option" where
  "longest_match path es =
     (case sort_key (\<lambda>e. - int (length (se_appPath e))) (filter (\<lambda>e. se_appPath e \<noteq> [] \<and> isPrefixOnSegment (se_appPath e) path) es) of
        [] \<Rightarrow> None | e # _ \<Rightarrow> Some e)"

definition attributeByPath :: "'w sandbox_env \<Rightarrow> string \<Rightarrow> string \<Rightarrow> string \<Rightarrow> ('w, sandbox_entry option) sbx" where
  "attributeByPath E u endpoint path = bnd (gets (\<lambda>s. longest_match path (entriesFor u s))) (\<lambda>cachedMatch. case cachedMatch of
     Some e \<Rightarrow> ret (Some e)
   | None \<Rightarrow> andthen (refreshAppSessions E u endpoint) (gets (\<lambda>s. longest_match path (entriesFor u s))))"

definition has_host :: "sandbox_entry \<Rightarrow> bool" where
  "has_host e \<longleftrightarrow> nonempty (se_host e) \<noteq> None"

text \<open>One entry of every host, the last one, in the order of the hosts' first mention.\<close>

definition one_per_host :: "sandbox_entry list \<Rightarrow> sandbox_entry list" where
  "one_per_host es = map (\<lambda>h. last (filter (\<lambda>e. se_host e = h) es)) (first_of_each (map se_host es))"

fun probe_candidates :: "'w sandbox_env \<Rightarrow> string \<Rightarrow> string \<Rightarrow> string \<Rightarrow> sandbox_entry list \<Rightarrow> ('w, (string \<times> string) option) sbx" where
  "probe_candidates E u endpoint k [] = ret None"
| "probe_candidates E u endpoint k (e # es) = bnd (sb_asks (kernel_at E (the (se_host e)) (port_of endpoint) k)) (\<lambda>found.
     if found then andthen (modify (\<lambda>s. s\<lparr>kernelsByUsername := map_set (kernelsByUsername s) u
         (map_set (case map_of (kernelsByUsername s) u of None \<Rightarrow> [] | Some ks \<Rightarrow> ks) k (se_sessionId e, the (se_host e)))\<rparr>))
       (ret (Some (se_sessionId e, the (se_host e))))
     else probe_candidates E u endpoint k es)"

definition known_kernel :: "string \<Rightarrow> string \<Rightarrow> 'w sandboxes \<Rightarrow> (string \<times> string) option" where
  "known_kernel u k s = Option.bind (map_of (kernelsByUsername s) u) (\<lambda>ks. map_of ks k)"

definition probeKernel :: "'w sandbox_env \<Rightarrow> string \<Rightarrow> string \<Rightarrow> string \<Rightarrow> ('w, (string \<times> string) option) sbx" where
  "probeKernel E u endpoint k = bnd (gets (known_kernel u k)) (\<lambda>known. case known of
     Some t \<Rightarrow> ret (Some t)
   | None \<Rightarrow> andthen (bnd (gets (\<lambda>s. list_ex has_host (entriesFor u s))) (\<lambda>warm. if warm then ret () else refreshAppSessions E u endpoint))
       (bnd (gets (\<lambda>s. one_per_host (filter has_host (entriesFor u s)))) (probe_candidates E u endpoint k)))"

record target =
  tg_host :: string
  tg_port :: nat
  tg_sessionId :: string

text \<open>The target of a session and host, counted as a proxied request of that session.\<close>

definition proxied_to :: "string \<Rightarrow> string \<Rightarrow> string \<Rightarrow> string \<Rightarrow> ('w, target option) sbx" where
  "proxied_to u endpoint i h = andthen (recordProxiedRequest u i)
     (ret (Some \<lparr>tg_host = h, tg_port = port_of endpoint, tg_sessionId = i\<rparr>))"

definition or_else :: "('w, target option) sbx \<Rightarrow> ('w, target option) sbx \<Rightarrow> ('w, target option) sbx" where
  "or_else m k = bnd m (\<lambda>t. case t of Some t \<Rightarrow> ret (Some t) | None \<Rightarrow> k)"

definition by_path :: "'w sandbox_env \<Rightarrow> string \<Rightarrow> string \<Rightarrow> string \<Rightarrow> ('w, target option) sbx" where
  "by_path E u endpoint path = bnd (attributeByPath E u endpoint path) (\<lambda>e. case e of
     Some e \<Rightarrow> if has_host e then proxied_to u endpoint (se_sessionId e) (the (se_host e)) else ret None
   | None \<Rightarrow> ret None)"

text \<open>An error while the referer is attributed is ignored.\<close>

definition by_referer :: "'w sandbox_env \<Rightarrow> string \<Rightarrow> string \<Rightarrow> string option \<Rightarrow> ('w, target option) sbx" where
  "by_referer E u endpoint referer = (case Option.bind (nonempty referer) (url_pathname E) of
     None \<Rightarrow> ret None
   | Some p \<Rightarrow> catching (by_path E u endpoint (stripApi p)) (\<lambda>_. ret None))"

definition single_candidate :: "string \<Rightarrow> string \<Rightarrow> ('w, target option) sbx" where
  "single_candidate u endpoint = bnd (gets (\<lambda>s. filter (\<lambda>e. se_endpoint e = endpoint \<and> has_host e) (entriesFor u s))) (\<lambda>es.
     case first_of_each (map se_host es) of
       [h] \<Rightarrow> andthen (for_each es (\<lambda>e. recordProxiedRequest u (se_sessionId e)))
         (ret (Some \<lparr>tg_host = the h, tg_port = port_of endpoint, tg_sessionId = se_sessionId (hd es)\<rparr>))
     | _ \<Rightarrow> ret None)"

definition resolveTarget :: "'w sandbox_env \<Rightarrow> string \<Rightarrow> string \<Rightarrow> string \<Rightarrow> string option \<Rightarrow> ('w, target option) sbx" where
  "resolveTarget E u endpoint pathname referer = (if \<not> isEndpoint endpoint then ret None
     else or_else (case kernel_of pathname of
         Some k \<Rightarrow> if endpoint = ''jupyter'' then bnd (probeKernel E u endpoint k) (\<lambda>t. case t of
             Some (i, h) \<Rightarrow> proxied_to u endpoint i h | None \<Rightarrow> ret None) else ret None
       | None \<Rightarrow> ret None)
     (or_else (by_path E u endpoint (stripApi pathname))
       (or_else (by_referer E u endpoint referer) (single_candidate u endpoint))))"

section \<open>Heartbeats\<close>

definition heartbeat_targets :: "'w sandboxes \<Rightarrow> (string \<times> string) list" where
  "heartbeat_targets s = first_of_each (concat (map (\<lambda>(u, es). map (\<lambda>(_, e). (u, se_sessionId e)) es) (sessionsByUsername s)))"

definition pruneSessionState :: "(string \<times> string) list \<Rightarrow> ('w, unit) sbx" where
  "pruneSessionState targets = modify (\<lambda>s. let live = set (map (\<lambda>(u, i). activityKey u i) targets) in
     s\<lparr>pendingActivity := filter (\<lambda>k. k \<in> live) (pendingActivity s),
       interactionSeen := filter (\<lambda>k. k \<in> live) (interactionSeen s),
       unobservableUntil := filter (\<lambda>(k, expiry). k \<in> live \<and> \<not> expiry \<le> sb_now s) (unobservableUntil s),
       kernelsByUsername := filter (\<lambda>(_, ks). ks \<noteq> [])
         (map (\<lambda>(u, ks). (u, filter (\<lambda>(_, i, _). activityKey u i \<in> live) ks)) (kernelsByUsername s)),
       startedServers := filter (\<lambda>(i, _). i \<in> set (map snd targets)) (startedServers s)\<rparr>)"

definition consume_interaction :: "string \<Rightarrow> string \<Rightarrow> ('w, bool) sbx" where
  "consume_interaction u i = state_act (\<lambda>s. (activityKey u i \<in> set (pendingActivity s),
     s\<lparr>pendingActivity := set_delete (pendingActivity s) (activityKey u i)\<rparr>))"

definition freshen :: "string \<Rightarrow> worker_report \<Rightarrow> ('w, unit) sbx" where
  "freshen u r = modify (\<lambda>s. if map_of (sessionsByUsername s) u = None then s
     else s\<lparr>sessionsByUsername := map_set (sessionsByUsername s) u (map (\<lambda>(k, e). (k, if se_sessionId e = wr_id r
       then e\<lparr>se_status := wr_status r, se_host := wr_host r, se_lastSeen := sb_now s\<rparr> else e)) (entries_of u s))\<rparr>)"

definition beat :: "'w sandbox_env \<Rightarrow> string \<times> string \<Rightarrow> ('w, unit) sbx" where
  "beat E = (\<lambda>(u, i). bnd (consume_interaction u i) (\<lambda>interaction.
     catching (bnd (sendHeartbeat E u i interaction) (freshen u))
       (\<lambda>e. if statusCode e = Some 404 then dropSession u i else ret ())))"

definition heartbeatOnce :: "'w sandbox_env \<Rightarrow> ('w, unit) sbx" where
  "heartbeatOnce E = bnd (gets heartbeat_targets) (\<lambda>targets.
     andthen (pruneSessionState targets) (for_each targets (beat E)))"

section \<open>The proxy\<close>

definition KEEPS_PREFIX :: "string \<Rightarrow> bool" where
  "KEEPS_PREFIX e \<longleftrightarrow> e = ''jupyter''"

definition SANDBOX_PREFIX :: string where "SANDBOX_PREFIX = ''/api/sandbox''"

text \<open>The endpoint and the path asked of it.\<close>

definition parseSandboxPath :: "string \<Rightarrow> (string \<times> string) option" where
  "parseSandboxPath pathname = (let rest = drop (length SANDBOX_PREFIX) pathname;
       e = takeWhile (\<lambda>c. c \<noteq> CHR ''/'' \<and> c \<noteq> CHR ''?'') (drop 1 rest) in
     if \<not> starts_with ''/'' rest \<or> e = [] then None
     else let after = drop (length e + 1) rest in
       Some (e, if KEEPS_PREFIX e then pathname else if after = [] then ''/'' else after))"

definition splitUrl :: "string \<Rightarrow> string \<times> string" where
  "splitUrl url = (takeWhile (\<lambda>c. c \<noteq> CHR ''?'') url, dropWhile (\<lambda>c. c \<noteq> CHR ''?'') url)"

datatype resolution = Rejected nat | Resolved string string target

definition resolve :: "'w sandbox_env \<Rightarrow> string option \<Rightarrow> string \<Rightarrow> string option \<Rightarrow> ('w, resolution) sbx" where
  "resolve E username url referer = (let pathname = fst (splitUrl url) in case parseSandboxPath pathname of
     None \<Rightarrow> ret (Rejected 404)
   | Some (endpoint, upstreamPath) \<Rightarrow> if \<not> isEndpoint endpoint then ret (Rejected 404)
       else (case nonempty username of None \<Rightarrow> ret (Rejected 400)
         | Some u \<Rightarrow> bnd (resolveTarget E u endpoint pathname referer) (\<lambda>t. case t of
             None \<Rightarrow> ret (Rejected 400)
           | Some t \<Rightarrow> ret (Resolved endpoint upstreamPath t))))"

datatype proxied = Answered nat | Proxied target string  \<comment> \<open>to the target, with the url asked of it\<close>

definition sandbox_middleware :: "'w sandbox_env \<Rightarrow> string option \<Rightarrow> string \<Rightarrow> string option \<Rightarrow> ('w, proxied) sbx" where
  "sandbox_middleware E username url referer = bnd (resolve E username url referer) (\<lambda>r. case r of
     Rejected c \<Rightarrow> ret (Answered c)
   | Resolved endpoint upstreamPath t \<Rightarrow> catching
       (andthen (ensureServerStarted E (case username of None \<Rightarrow> [] | Some u \<Rightarrow> u) (tg_sessionId t) endpoint)
         (ret (Proxied t (upstreamPath @ snd (splitUrl url))))) (\<lambda>_. ret (Answered 502)))"

end
