(* ===== verification/SandboxRoutes.thy ===== *)
theory SandboxRoutes
  imports SandboxModel
begin

text \<open>
  The gateway's routes about sandboxes (\<^verbatim>\<open>sandboxStartRoute.js\<close>, \<^verbatim>\<open>sandboxInteractionRoute.js\<close>,
  \<^verbatim>\<open>sandboxServerRoute.js\<close>), the subscribers that tell browsers about sessions (\<^verbatim>\<open>*Subscriber.js\<close>), and a
  history of the component as a list of what reaches it. A request is its method, the user the gateway
  put on it and its query, in which a parameter given more than once is out of scope.
\<close>

section \<open>Routes\<close>

record sandbox_request =
  sq_method :: string
  sq_username :: "string option"
  sq_query :: "(string \<times> string) list"

datatype sandbox_answer =
    Started started
  | Status_of string string   \<comment> \<open>the session and its status\<close>
  | No_content
  | Refused nat "string option"   \<comment> \<open>the status, and the code of a refused launch\<close>

definition query :: "sandbox_request \<Rightarrow> string \<Rightarrow> string option" where
  "query q k = map_of (sq_query q) k"

definition resolveUsername :: "sandbox_request \<Rightarrow> string option" where
  "resolveUsername q = nonempty (sq_username q)"

definition resolveEndpoint :: "sandbox_request \<Rightarrow> string" where
  "resolveEndpoint q = (case nonempty (query q ''endpoint'') of None \<Rightarrow> DEFAULT_ENDPOINT | Some e \<Rightarrow> e)"

definition start_failure :: "sandbox_error \<Rightarrow> sandbox_answer" where
  "start_failure e = (case e of
     Worker_answered c code \<Rightarrow> if c = 503 \<and> nonempty code \<noteq> None then Refused 503 code
       else if c \<noteq> 0 \<and> c < 500 then Refused c None else Refused 500 None
   | Worker_unreachable \<Rightarrow> Refused 500 None)"

definition start_route :: "'w sandbox_env \<Rightarrow> sandbox_request \<Rightarrow> ('w, sandbox_answer) sbx" where
  "start_route E q = (case resolveUsername q of None \<Rightarrow> ret (Refused 400 None)
     | Some u \<Rightarrow> catching (bnd (startApp E \<lparr>rq_username = u, rq_endpoint = resolveEndpoint q, rq_appPath = query q ''appPath'',
           rq_appLabel = query q ''appLabel'', rq_sessionId = query q ''sessionId'', rq_instanceType = query q ''instanceType'',
           rq_clientId = query q ''clientId'', rq_reassert = (query q ''reassert'' = Some ''true'')\<rparr>)
         (\<lambda>r. ret (Started r))) (\<lambda>e. ret (start_failure e)))"

definition status_route :: "'w sandbox_env \<Rightarrow> sandbox_request \<Rightarrow> ('w, sandbox_answer) sbx" where
  "status_route E q = (case resolveUsername q of None \<Rightarrow> ret (Refused 400 None)
     | Some u \<Rightarrow> catching (bnd (sandbox_status E u (resolveEndpoint q) (query q ''appPath''))
         (\<lambda>r. ret (case r of None \<Rightarrow> Refused 400 None | Some (i, st) \<Rightarrow> Status_of i st)))
         (\<lambda>e. ret (Refused 500 None)))"

definition release_route :: "'w sandbox_env \<Rightarrow> sandbox_request \<Rightarrow> ('w, sandbox_answer) sbx" where
  "release_route E q = (case resolveUsername q of None \<Rightarrow> ret (Refused 400 None)
     | Some u \<Rightarrow> if nonempty (query q ''appPath'') = None then ret (Refused 400 None)
       else catching (andthen (releaseApp E u (query q ''appPath'') (query q ''clientId'')) (ret No_content))
         (\<lambda>e. ret (Refused 500 None)))"

definition start_handler :: "'w sandbox_env \<Rightarrow> sandbox_request \<Rightarrow> ('w, sandbox_answer) sbx" where
  "start_handler E q = (if sq_method q = ''POST'' then start_route E q
     else if sq_method q = ''DELETE'' then release_route E q else status_route E q)"

definition interaction_handler :: "'w sandbox_env \<Rightarrow> sandbox_request \<Rightarrow> ('w, sandbox_answer) sbx" where
  "interaction_handler E q = (case resolveUsername q of None \<Rightarrow> ret (Refused 400 None)
     | Some u \<Rightarrow> (case nonempty (query q ''sessionId'') of None \<Rightarrow> ret (Refused 400 None)
         | Some i \<Rightarrow> andthen (recordInteraction E u i (query q ''observable'' \<noteq> Some ''false'')) (ret No_content)))"

definition server_handler :: "'w sandbox_env \<Rightarrow> sandbox_request \<Rightarrow> ('w, sandbox_answer) sbx" where
  "server_handler E q = (case resolveUsername q of None \<Rightarrow> ret (Refused 400 None)
     | Some u \<Rightarrow> (case nonempty (query q ''sessionId'') of None \<Rightarrow> ret (Refused 400 None)
         | Some i \<Rightarrow> let endpoint = (case query q ''endpoint'' of None \<Rightarrow> DEFAULT_ENDPOINT | Some e \<Rightarrow> e) in
             if \<not> isEndpoint endpoint then ret (Refused 400 None)
             else catching (andthen (ensureServerStarted E u i endpoint) (ret No_content))
               (\<lambda>e. ret (Refused (case statusCode e of None \<Rightarrow> 502 | Some c \<Rightarrow> if c \<noteq> 0 \<and> c < 500 then c else 502) None))))"

section \<open>Subscribers\<close>

datatype browser_event =
    WORKER_SESSION_CLOSED string string                \<comment> \<open>user, session\<close>
  | WORKER_SESSION_APP_DISSOCIATED string string string "string option"  \<comment> \<open>user, client, app, session\<close>
  | WORKER_SESSION_EXPIRY_NOTIFIED string string
  | WORKER_SESSION_EXPIRY_CLOSED string string

record session_message =
  sm_username :: "string option"
  sm_sessionId :: "string option"
  sm_path :: "string option"
  sm_clientId :: "string option"
  sm_requestingClientId :: "string option"

definition closed_events :: "session_message \<Rightarrow> browser_event list" where
  "closed_events m = (case (nonempty (sm_username m), nonempty (sm_sessionId m)) of
     (Some u, Some i) \<Rightarrow> [WORKER_SESSION_CLOSED u i] | _ \<Rightarrow> [])"

definition dissociated_events :: "session_message \<Rightarrow> browser_event list" where
  "dissociated_events m = (case (nonempty (sm_username m), nonempty (sm_path m), nonempty (sm_clientId m)) of
     (Some u, Some p, Some c) \<Rightarrow> if sm_requestingClientId m \<noteq> Some c
       then [WORKER_SESSION_APP_DISSOCIATED u c p (sm_sessionId m)] else []
   | _ \<Rightarrow> [])"

definition session_closed_handler :: "session_message \<Rightarrow> ('w, browser_event list) sbx" where
  "session_closed_handler m = andthen (onSessionClosed (sm_username m) (sm_sessionId m) None)
     (ret (closed_events m))"

definition app_dissociated_handler :: "session_message \<Rightarrow> ('w, browser_event list) sbx" where
  "app_dissociated_handler m = andthen (onAppDissociated (sm_username m) (sm_path m))
     (ret (dissociated_events m))"

definition expiry_notified_handler :: "session_message \<Rightarrow> browser_event list" where
  "expiry_notified_handler m = (case (nonempty (sm_username m), nonempty (sm_sessionId m)) of
     (Some u, Some i) \<Rightarrow> [WORKER_SESSION_EXPIRY_NOTIFIED u i] | _ \<Rightarrow> [])"

definition expiry_closed_handler :: "session_message \<Rightarrow> browser_event list" where
  "expiry_closed_handler m = (case (nonempty (sm_username m), nonempty (sm_sessionId m)) of
     (Some u, Some i) \<Rightarrow> [WORKER_SESSION_EXPIRY_CLOSED u i] | _ \<Rightarrow> [])"

section \<open>Histories\<close>

text \<open>
  What reaches the component, one after another: requests of its routes and of the proxy, messages, the
  beat of its timer, a refused connection to a server, the passing of time and changes of the world.
\<close>

datatype 'w sandbox_event =
    Start_request sandbox_request
  | Interaction_request sandbox_request
  | Server_request sandbox_request
  | Proxied_request "string option" string "string option"
  | Closed_message session_message
  | Dissociated_message session_message
  | Heartbeat
  | Server_refused string string
  | Time_passes nat
  | World_changes "'w \<Rightarrow> 'w"

definition after :: "('w, 'a) sbx \<Rightarrow> 'w sandboxes \<Rightarrow> 'w sandboxes" where
  "after m s = snd (m s)"

fun happens :: "'w sandbox_env \<Rightarrow> 'w sandboxes \<Rightarrow> 'w sandbox_event \<Rightarrow> 'w sandboxes" where
  "happens E s (Start_request q) = after (start_handler E q) s"
| "happens E s (Interaction_request q) = after (interaction_handler E q) s"
| "happens E s (Server_request q) = after (server_handler E q) s"
| "happens E s (Proxied_request username url referer) = after (sandbox_middleware E username url referer) s"
| "happens E s (Closed_message m) = after (session_closed_handler m) s"
| "happens E s (Dissociated_message m) = after (app_dissociated_handler m) s"
| "happens E s Heartbeat = after (heartbeatOnce E) s"
| "happens E s (Server_refused i endpoint) = after (forgetServerStarted i endpoint) s"
| "happens E s (Time_passes n) = s\<lparr>sb_now := sb_now s + int n\<rparr>"
| "happens E s (World_changes f) = s\<lparr>sb_world := f (sb_world s)\<rparr>"

definition sandbox_history :: "'w sandbox_env \<Rightarrow> 'w sandboxes \<Rightarrow> 'w sandbox_event list \<Rightarrow> 'w sandboxes" where
  "sandbox_history E s evs = foldl (happens E) s evs"

definition sandboxes_start :: "int \<Rightarrow> 'w \<Rightarrow> 'w sandboxes" where
  "sandboxes_start now w = \<lparr>sessionsByUsername = [], kernelsByUsername = [], startedServers = [], pendingActivity = [],
     unobservableUntil = [], interactionSeen = [], told = [], beats = [], sb_now = now, sb_world = w\<rparr>"

end
