(* ===== verification/Triples.thy ===== *)
theory Triples
  imports Prelude
begin

text \<open>
  Triples over the effect type: what holds of the value and the state a run of an action ends with, and what
  holds of the state when it rejects; and invariants as triples.
\<close>

section \<open>What a run ends with\<close>

definition meets :: "('s \<Rightarrow> bool) \<Rightarrow> ('s, 'e, 'a) act \<Rightarrow> ('a \<Rightarrow> 's \<Rightarrow> bool) \<Rightarrow> ('s \<Rightarrow> bool) \<Rightarrow> bool" where
  "meets P m R X \<longleftrightarrow> (\<forall>s. P s \<longrightarrow> (case m s of (Inl e, t) \<Rightarrow> X t | (Inr a, t) \<Rightarrow> R a t))"

named_theorems meets_rules \<open>rules for the runs of actions\<close>

lemma meets_ret [meets_rules]: "(\<And>s. P s \<Longrightarrow> R a s) \<Longrightarrow> meets P (ret a) R X"
  by (simp add: meets_def)

lemma meets_throw [meets_rules]: "(\<And>s. P s \<Longrightarrow> X s) \<Longrightarrow> meets P (throw e) R X"
  by (simp add: meets_def)

lemma meets_gets: "(\<And>s. P s \<Longrightarrow> R (f s) s) \<Longrightarrow> meets P (gets f) R X"
  by (simp add: meets_def)

lemma meets_modify: "(\<And>s. P s \<Longrightarrow> R () (f s)) \<Longrightarrow> meets P (modify f) R X"
  by (simp add: meets_def)

lemma meets_state_act: "(\<And>s. P s \<Longrightarrow> R (fst (f s)) (snd (f s))) \<Longrightarrow> meets P (state_act f) R X"
  by (simp add: meets_def state_act_run)

lemma meets_bnd [meets_rules]:
  "meets P m R X \<Longrightarrow> (\<And>a. meets (R a) (f a) S X) \<Longrightarrow> meets P (bnd m f) S X"
  unfolding meets_def by (fastforce simp: bnd_run split: prod.splits sum.splits)

lemma meets_andthen:
  "meets P m (\<lambda>_. R) X \<Longrightarrow> meets R k S X \<Longrightarrow> meets P (andthen m k) S X"
  unfolding andthen_def by (rule meets_bnd)

lemma meets_catching:
  "meets P m R Y \<Longrightarrow> (\<And>e. meets Y (h e) R X) \<Longrightarrow> meets P (catching m h) R X"
  unfolding meets_def by (fastforce simp: catching_run split: prod.splits sum.splits)

lemma meets_for_each:
  "(\<And>x. x \<in> set xs \<Longrightarrow> meets P (f x) (\<lambda>_. P) X) \<Longrightarrow> meets P (for_each xs f) (\<lambda>_. P) X"
  by (induction xs) (auto intro: meets_ret meets_andthen)

lemma meets_weaken:
  "meets P m R X \<Longrightarrow> (\<And>s. Q s \<Longrightarrow> P s) \<Longrightarrow> (\<And>a s. R a s \<Longrightarrow> S a s) \<Longrightarrow> (\<And>s. X s \<Longrightarrow> Y s) \<Longrightarrow> meets Q m S Y"
  unfolding meets_def by (fastforce split: prod.splits sum.splits)

lemma meets_if: "(c \<Longrightarrow> meets P m R X) \<Longrightarrow> (\<not> c \<Longrightarrow> meets P k R X) \<Longrightarrow> meets P (if c then m else k) R X"
  by simp

lemma meetsD: "meets P m R X \<Longrightarrow> P s \<Longrightarrow> m s = (Inr a, t) \<Longrightarrow> R a t"
  by (fastforce simp: meets_def)

lemma meets_snd: "meets P m (\<lambda>_. Q) Q \<Longrightarrow> P s \<Longrightarrow> Q (snd (m s))"
  by (cases "m s"; cases "fst (m s)") (auto simp: meets_def split: prod.splits sum.splits)

subsection \<open>Invariants\<close>

abbreviation always :: "('s \<Rightarrow> bool) \<Rightarrow> ('s, 'e, 'a) act \<Rightarrow> bool" where
  "always I m \<equiv> meets I m (\<lambda>_. I) I"

lemma always_bnd: "always I m \<Longrightarrow> (\<And>a. always I (f a)) \<Longrightarrow> always I (bnd m f)"
  by (rule meets_bnd)

lemma always_andthen: "always I m \<Longrightarrow> always I k \<Longrightarrow> always I (andthen m k)"
  by (rule meets_andthen)

lemma always_catching: "always I m \<Longrightarrow> (\<And>e. always I (h e)) \<Longrightarrow> always I (catching m h)"
  by (rule meets_catching)

lemma always_ret: "always I (ret a)"
  by (rule meets_ret)

lemma always_throw: "always I (throw e)"
  by (rule meets_throw)

lemma always_gets: "always I (gets f)"
  by (rule meets_gets)

lemmas always_rules = meets_if always_ret always_throw always_bnd always_andthen always_catching meets_for_each

lemma always_answered: "always I m \<Longrightarrow> always I (catching (bnd m (\<lambda>r. ret (f r))) (\<lambda>e. ret (g e)))"
  by (intro always_rules)

lemma always_done: "always I m \<Longrightarrow> always I (catching (andthen m (ret r)) (\<lambda>e. ret (g e)))"
  by (intro always_rules)

end
