(* ===== verification/SandboxSafety.thy ===== *)
theory SandboxSafety
  imports SandboxRoutes Triples
begin

text \<open>
  What the sandbox component of the gateway promises: requests go only to sessions the worker named for
  their user, a closed session is routed to no more, an app nobody touches prolongs no session, and a
  beat leaves no state of sessions that are not served.
\<close>

section \<open>Every cached host is vouched for\<close>

text \<open>
  \<open>vouched n X s\<close>: for every user and session of \<open>X\<close>, each host the cache holds for them was named by the
  worker after the first \<open>n\<close> namings.
\<close>

definition vouched :: "nat \<Rightarrow> (string \<Rightarrow> string \<Rightarrow> bool) \<Rightarrow> 'w sandboxes \<Rightarrow> bool" where
  "vouched n X s \<longleftrightarrow> n \<le> length (told s) \<and>
     distinct (map fst (sessionsByUsername s)) \<and> distinct (map fst (kernelsByUsername s)) \<and>
     (\<forall>u es. map_of (sessionsByUsername s) u = Some es \<longrightarrow> (\<forall>(k, e) \<in> set es. \<forall>h. X u (se_sessionId e) \<longrightarrow>
        se_host e = Some h \<longrightarrow> (u, se_sessionId e, Some h) \<in> set (drop n (told s)))) \<and>
     (\<forall>u ks. map_of (kernelsByUsername s) u = Some ks \<longrightarrow> (\<forall>(k, i, h) \<in> set ks. X u i \<longrightarrow>
        (u, i, Some h) \<in> set (drop n (told s))))"

definition heard :: "nat \<Rightarrow> (string \<Rightarrow> string \<Rightarrow> bool) \<Rightarrow> string \<Rightarrow> string \<Rightarrow> string option \<Rightarrow> 'w sandboxes \<Rightarrow> bool" where
  "heard n X u i h s \<longleftrightarrow> (X u i \<longrightarrow> h \<noteq> None \<longrightarrow> (u, i, h) \<in> set (drop n (told s)))"

abbreviation keeps_vouched :: "nat \<Rightarrow> (string \<Rightarrow> string \<Rightarrow> bool) \<Rightarrow> ('w, 'a) sbx \<Rightarrow> bool" where
  "keeps_vouched n X m \<equiv> always (vouched n X) m"

abbreviation entry_heard :: "nat \<Rightarrow> (string \<Rightarrow> string \<Rightarrow> bool) \<Rightarrow> string \<Rightarrow> sandbox_entry \<Rightarrow> 'w sandboxes \<Rightarrow> bool" where
  "entry_heard n X u e \<equiv> heard n X u (se_sessionId e) (se_host e)"

abbreviation report_heard :: "nat \<Rightarrow> (string \<Rightarrow> string \<Rightarrow> bool) \<Rightarrow> string \<Rightarrow> worker_report \<Rightarrow> 'w sandboxes \<Rightarrow> bool" where
  "report_heard n X u r \<equiv> heard n X u (wr_id r) (wr_host r)"

text \<open>Only the two caches and what the worker named matter.\<close>

lemma vouched_same:
  assumes "sessionsByUsername t = sessionsByUsername s" and "kernelsByUsername t = kernelsByUsername s" and "told t = told s"
  shows "vouched n X t \<longleftrightarrow> vouched n X s"
  using assms by (simp add: vouched_def)

lemma heard_same: "told t = told s \<Longrightarrow> heard n X u i h t \<longleftrightarrow> heard n X u i h s"
  by (simp add: heard_def)

lemma vouched_told:
  assumes "vouched n X s"
  shows "vouched n X (s\<lparr>told := told s @ xs\<rparr>)"
  using assms unfolding vouched_def by (fastforce split: prod.splits)

lemma vouched_entry:
  assumes "vouched n X s" and "e \<in> set (entriesFor u s)"
  shows "entry_heard n X u e s"
  using assms unfolding vouched_def entriesFor_def entries_of_def heard_def
  by (fastforce split: option.splits)

lemma vouched_entries_of:
  assumes "vouched n X s" and "(k, e) \<in> set (entries_of u s)"
  shows "entry_heard n X u e s"
  using vouched_entry [OF assms(1), of e u] assms(2) by (force simp: entriesFor_def)

lemma vouched_kernel:
  assumes "vouched n X s" and "map_of (kernelsByUsername s) u = Some ks" and "(k, i, h) \<in> set ks"
  shows "heard n X u i (Some h) s"
  using assms unfolding vouched_def heard_def by fastforce

text \<open>Replacing the entries of one user by entries that were heard.\<close>

lemma vouched_set_entries:
  assumes "vouched n X s" and "\<And>k e. (k, e) \<in> set es \<Longrightarrow> entry_heard n X u e s"
  shows "vouched n X (s\<lparr>sessionsByUsername := map_set (sessionsByUsername s) u es\<rparr>)"
proof -
  have "(u, se_sessionId e, Some h) \<in> set (drop n (told s))"
    if "(k, e) \<in> set es" "X u (se_sessionId e)" "se_host e = Some h" for k e h
    using assms(2) [OF that(1)] that(2,3) by (simp add: heard_def)
  with assms(1) show ?thesis
    unfolding vouched_def by (simp add: map_of_map_set distinct_map_set split: if_splits) blast
qed

lemma vouched_delete_user:
  assumes "vouched n X s"
  shows "vouched n X (s\<lparr>sessionsByUsername := map_delete (sessionsByUsername s) u\<rparr>)"
  using assms unfolding vouched_def by (auto simp: map_of_map_delete distinct_map_delete split: if_splits)

lemma vouched_set_kernels:
  assumes "vouched n X s" and "\<And>k i h. (k, i, h) \<in> set ks \<Longrightarrow> heard n X u i (Some h) s"
  shows "vouched n X (s\<lparr>kernelsByUsername := map_set (kernelsByUsername s) u ks\<rparr>)"
  using assms unfolding vouched_def heard_def
  by (auto simp: map_of_map_set distinct_map_set split: if_splits)

lemma vouched_delete_kernels:
  assumes "vouched n X s"
  shows "vouched n X (s\<lparr>kernelsByUsername := map_delete (kernelsByUsername s) u\<rparr>)"
  using assms unfolding vouched_def by (auto simp: map_of_map_delete distinct_map_delete split: if_splits)

lemma vouched_drop_where:
  assumes "vouched n X s"
  shows "vouched n X (drop_where u P s)"
proof -
  have "vouched n X (s\<lparr>sessionsByUsername := map_set (sessionsByUsername s) u (filter (\<lambda>p. \<not> P p) (entries_of u s))\<rparr>)"
    by (rule vouched_set_entries [OF assms]) (auto intro: vouched_entries_of [OF assms])
  with assms show ?thesis by (auto simp: drop_where_def Let_def intro: vouched_delete_user)
qed

lemma vouched_drop_kernels:
  assumes "vouched n X s"
  shows "vouched n X (drop_kernels u i s)"
proof (cases "map_of (kernelsByUsername s) u")
  case None
  with assms show ?thesis by (simp add: drop_kernels_def)
next
  case (Some ks)
  let ?ks = "filter (\<lambda>(_, j, _). j \<noteq> i) ks"
  have "vouched n X (s\<lparr>kernelsByUsername := map_set (kernelsByUsername s) u ?ks\<rparr>)"
    by (rule vouched_set_kernels [OF assms]) (auto intro: vouched_kernel [OF assms Some])
  with Some assms show ?thesis
    by (auto simp: drop_kernels_def Let_def intro: vouched_delete_kernels)
qed

lemma map_set_old: "(k, v) \<in> set (map_set m k' v') \<Longrightarrow> (k, v) = (k', v') \<or> (k, v) \<in> set m"
  using set_map_set [of m k' v'] by blast

text \<open>The steps of the component.\<close>

lemma vouched_cache_entry_with:
  assumes stable: "\<And>s m. A s \<Longrightarrow> A (s\<lparr>sessionsByUsername := m\<rparr>)"
  shows "meets (\<lambda>s. vouched n X s \<and> report_heard n X u r s \<and> A s) (cache_entry u key r endpoint appPath)
     (\<lambda>e s. vouched n X s \<and> entry_heard n X u e s \<and> A s) Y"
proof -
  have cached: "vouched n X (s\<lparr>sessionsByUsername := map_set (sessionsByUsername s) u (map_set (entries_of u s) key e)\<rparr>)"
    if "vouched n X s" "entry_heard n X u e s" for e :: sandbox_entry and s :: "'w sandboxes"
  proof (rule vouched_set_entries [OF that(1)])
    fix k e'
    assume "(k, e') \<in> set (map_set (entries_of u s) key e)"
    then have "(k, e') = (key, e) \<or> (k, e') \<in> set (entries_of u s)" by (rule map_set_old)
    with that show "entry_heard n X u e' s" by (metis prod.inject vouched_entries_of)
  qed
  show ?thesis
    unfolding cache_entry_def
  proof (rule meets_state_act, goal_cases)
    case (1 s)
    with cached [of s "\<lparr>se_sessionId = wr_id r, se_host = wr_host r, se_status = wr_status r, se_endpoint = endpoint,
        se_appPath = appPath, se_lastSeen = sb_now s\<rparr>"]
    show ?case by (simp add: Let_def heard_def stable)
  qed
qed

lemma vouched_cache_entry:
  "meets (\<lambda>s. vouched n X s \<and> report_heard n X u r s) (cache_entry u key r endpoint appPath)
     (\<lambda>e s. vouched n X s \<and> entry_heard n X u e s) Y"
  by (rule meets_weaken [OF vouched_cache_entry_with [where A = "\<lambda>_. True"]]) auto

lemma keeps_vouched_modify:
  "(\<And>s. sessionsByUsername (f s) = sessionsByUsername s) \<Longrightarrow> (\<And>s. kernelsByUsername (f s) = kernelsByUsername s) \<Longrightarrow>
   (\<And>s. told (f s) = told s) \<Longrightarrow> keeps_vouched n X (modify f)"
  by (rule meets_modify) (simp add: vouched_def)

lemma meets_asks: "(\<And>s w. P s \<Longrightarrow> P (s\<lparr>sb_world := w\<rparr>)) \<Longrightarrow> meets P (sb_asks f) (\<lambda>_. P) Y"
  unfolding sb_asks_def by (rule meets_state_act) (simp split: prod.splits)

lemma meets_request: "(\<And>s w. P s \<Longrightarrow> P (s\<lparr>sb_world := w\<rparr>)) \<Longrightarrow> meets P (workerRequest f) (\<lambda>_. P) P"
  unfolding workerRequest_def
  by (rule meets_bnd [OF meets_asks]) (auto split: sum.splits intro: meets_ret meets_throw)

lemma vouched_world [simp]: "vouched n X (s\<lparr>sb_world := w\<rparr>) \<longleftrightarrow> vouched n X s"
  by (simp add: vouched_def)

lemma heard_world [simp]: "heard n X u i h (s\<lparr>sb_world := w\<rparr>) \<longleftrightarrow> heard n X u i h s"
  by (simp add: heard_def)

lemma keeps_vouched_asks: "keeps_vouched n X (sb_asks f)"
  by (rule meets_asks) simp

lemma keeps_vouched_request: "keeps_vouched n X (workerRequest f)"
  by (rule meets_request) simp

lemma vouched_hear:
  "meets (vouched n X) (hear u rs) (\<lambda>_ s. vouched n X s \<and> (\<forall>r \<in> set rs. report_heard n X u r s)) (vouched n X)"
  unfolding hear_def
  by (rule meets_modify) (auto simp: vouched_told heard_def, auto simp: vouched_def)

lemma vouched_hears:
  "meets (vouched n X) (bnd (workerRequest f) (\<lambda>a. andthen (hear u (rs a)) (ret (g a))))
     (\<lambda>b s. vouched n X s \<and> (\<exists>a. b = g a \<and> (\<forall>r \<in> set (rs a). report_heard n X u r s))) (vouched n X)"
  by (rule meets_bnd [OF keeps_vouched_request], rule meets_andthen [OF vouched_hear]) (auto intro: meets_ret)

lemma vouched_findAppSessions:
  "meets (vouched n X) (findAppSessions E u)
     (\<lambda>rs s. vouched n X s \<and> (\<forall>r \<in> set rs. report_heard n X u (ar_session r) s)) (vouched n X)"
  unfolding findAppSessions_def by (rule meets_weaken [OF vouched_hears [where g = "\<lambda>rs. rs"]]) auto

lemma vouched_findActiveSessions:
  "meets (vouched n X) (findActiveSessions E u)
     (\<lambda>rs s. vouched n X s \<and> (\<forall>r \<in> set rs. report_heard n X u r s)) (vouched n X)"
  unfolding findActiveSessions_def by (rule meets_weaken [OF vouched_hears [where g = "\<lambda>rs. rs"]]) auto

lemma vouched_requestSession:
  "meets (vouched n X) (requestSession E u t) (\<lambda>r s. vouched n X s \<and> report_heard n X u r s) (vouched n X)"
  unfolding requestSession_def by (rule meets_weaken [OF vouched_hears [where g = "\<lambda>r. r"]]) auto

lemma keeps_vouched_dropEntry: "keeps_vouched n X (dropEntry u key)"
  unfolding dropEntry_def by (rule meets_modify) (rule vouched_drop_where)

lemma keeps_vouched_dropSession: "keeps_vouched n X (dropSession u i)"
proof -
  have "vouched n X (drop_kernels u i (drop_where u P (s\<lparr>pendingActivity := p, unobservableUntil := q, interactionSeen := r\<rparr>)))"
    if "vouched n X s" for P p q r and s :: "'w sandboxes"
    by (intro vouched_drop_kernels vouched_drop_where) (use that in \<open>simp add: vouched_def\<close>)
  then show ?thesis
    unfolding dropSession_def Let_def by (intro meets_modify) (simp add: vouched_def)
qed

lemma keeps_vouched_recordProxiedRequest: "keeps_vouched n X (recordProxiedRequest u i)"
  unfolding recordProxiedRequest_def isUnobservable_def recordActivity_def
  by (intro meets_bnd [where R = "\<lambda>_. vouched n X"] meets_if meets_state_act meets_ret keeps_vouched_modify)
    (auto simp: vouched_def split: option.splits)

lemma keeps_vouched_recordInteraction: "keeps_vouched n X (recordInteraction E u i observable)"
  unfolding recordInteraction_def recordActivity_def Let_def
  by (intro meets_andthen [where R = "vouched n X"] meets_if meets_ret keeps_vouched_modify) auto

lemma meets_ensureServerStarted:
  assumes "\<And>s w. P s \<Longrightarrow> P (s\<lparr>sb_world := w\<rparr>)" and "\<And>s x. P s \<Longrightarrow> P (s\<lparr>startedServers := x\<rparr>)"
  shows "meets P (ensureServerStarted E u i endpoint) (\<lambda>_. P) P"
  unfolding ensureServerStarted_def
  by (intro meets_bnd [where R = "\<lambda>_. P"] meets_andthen [where R = P] meets_if meets_ret meets_gets meets_modify
      meets_request) (auto intro: assms)

lemma keeps_vouched_ensureServerStarted: "keeps_vouched n X (ensureServerStarted E u i endpoint)"
  by (rule meets_ensureServerStarted) (simp_all add: vouched_def)

lemma vouched_findAppSession:
  "meets (vouched n X) (findAppSession E u appPath endpoint)
     (\<lambda>e s. vouched n X s \<and> (\<forall>e'. e = Some e' \<longrightarrow> entry_heard n X u e' s)) (vouched n X)"
proof -
  have cached: "meets (vouched n X) (gets (\<lambda>s. map_of (entries_of u s) appPath))
     (\<lambda>c s. vouched n X s \<and> (\<forall>e. c = Some e \<longrightarrow> entry_heard n X u e s)) (vouched n X)"
    by (rule meets_gets) (auto dest: map_of_SomeD intro: vouched_entries_of)
  show ?thesis
    unfolding findAppSession_def
  proof (rule meets_bnd [OF cached], rule meets_if, rule meets_ret, assumption,
      rule meets_bnd [where R = "\<lambda>rs s. vouched n X s \<and> (\<forall>r \<in> set rs. report_heard n X u (ar_session r) s)"], goal_cases)
    case (1 c)
    show ?case by (rule meets_weaken [OF vouched_findAppSessions]) auto
  next
    case (2 c rs)
    show ?case
    proof (cases "find (\<lambda>r. ar_path r = appPath) rs")
      case None
      have "meets (vouched n X) (if c \<noteq> None then dropEntry u appPath else ret ()) (\<lambda>_. vouched n X) (vouched n X)"
        by (intro meets_if keeps_vouched_dropEntry meets_ret)
      then show ?thesis
        using None by (auto intro!: meets_andthen [where R = "vouched n X"] meets_ret elim: meets_weaken)
    next
      case (Some r)
      then have "r \<in> set rs" by (simp add: find_Some_key)
      then show ?thesis
        by (simp add: Some, intro meets_bnd [OF meets_weaken [OF vouched_cache_entry]] meets_ret)
          auto
    qed
  qed
qed

lemma keeps_vouched_adoptAssociation:
  "meets (\<lambda>s. vouched n X s \<and> report_heard n X (rq_username q) fallback s) (adoptAssociation E q appPath associated fallback)
     (\<lambda>_. vouched n X) (vouched n X)"
proof -
  have adopt: "meets (\<lambda>s. vouched n X s \<and> report_heard n X u r s) (bnd (cache_entry u key r endpoint path) (\<lambda>e. ret (f e)))
      (\<lambda>_. vouched n X) (vouched n X)" for u r key endpoint path and f :: "sandbox_entry \<Rightarrow> started"
    by (intro meets_bnd [OF vouched_cache_entry] meets_ret) auto
  have named: "report_heard n X u \<lparr>wr_id = j, wr_host = Option.bind (find (\<lambda>r. wr_id r = j) rs) wr_host, wr_status = st\<rparr> s"
    if "\<forall>r \<in> set rs. report_heard n X u r s" for u j rs st and s :: "'w sandboxes"
  proof (cases "find (\<lambda>r. wr_id r = j) rs")
    case None
    then show ?thesis by (simp add: heard_def)
  next
    case (Some r)
    then have "r \<in> set rs \<and> wr_id r = j" by (rule find_Some_key)
    with that Some show ?thesis by auto
  qed
  have other: "meets (vouched n X) (bnd (findActiveSessions E u) (\<lambda>rs. bnd (cache_entry u key
        \<lparr>wr_id = associated, wr_host = Option.bind (find (\<lambda>r. wr_id r = associated) rs) wr_host, wr_status = st rs\<rparr> endpoint path)
        (\<lambda>e. ret (f e)))) (\<lambda>_. vouched n X) (vouched n X)" for u key endpoint path st and f :: "sandbox_entry \<Rightarrow> started"
    by (rule meets_bnd [OF vouched_findActiveSessions], rule meets_weaken [OF adopt])
      (simp_all add: named del: worker_report.select_convs)
  show ?thesis
    unfolding adoptAssociation_def Let_def
    by (intro meets_if adopt meets_weaken [OF other]) simp_all
qed

lemma keeps_vouched_startApp: "keeps_vouched n X (startApp E q)"
proof -
  have asked: "meets (\<lambda>s. vouched n X s \<and> report_heard n X (rq_username q) r s)
      (bnd (workerRequest f) (\<lambda>a. adoptAssociation E q path a r)) (\<lambda>_. vouched n X) (vouched n X)" for f path r
    by (intro meets_bnd [OF _ keeps_vouched_adoptAssociation] meets_weaken [OF meets_request
        [where P = "\<lambda>s. vouched n X s \<and> report_heard n X (rq_username q) r s"]]) auto
  have refresh: "keeps_vouched n X (if c then ret () else catching (bnd (workerRequest f) (\<lambda>_. ret ())) (\<lambda>_. ret ()))" for c f
    by (intro meets_if meets_ret meets_catching [where Y = "vouched n X"] meets_bnd [OF keeps_vouched_request])
  have join: "meets (\<lambda>s. vouched n X s \<and> (\<forall>r \<in> set rs. report_heard n X (rq_username q) r s))
      (case find (\<lambda>r. wr_id r = i) rs of None \<Rightarrow> throw e | Some r \<Rightarrow>
        bnd (workerRequest f) (\<lambda>a. adoptAssociation E q path a (r\<lparr>wr_status := entry_status (wr_status r)\<rparr>)))
      (\<lambda>_. vouched n X) (vouched n X)" for i rs e f path
    by (auto split: option.splits intro!: meets_throw dest!: find_Some_key intro: meets_weaken [OF asked])
  show ?thesis
    unfolding startApp_def Let_def
  proof (rule meets_bnd [OF vouched_findAppSession], goal_cases)
    case (1 existing)
    show ?case
    proof (cases existing)
      case None
      then show ?thesis
        by (cases "nonempty (rq_sessionId q)")
          (simp_all add: meets_bnd [OF vouched_findActiveSessions join] meets_bnd [OF vouched_requestSession asked])
    next
      case (Some e)
      show ?thesis
        unfolding Some option.case by (rule meets_andthen [OF meets_weaken [OF refresh] meets_ret]) simp_all
    qed
  qed
qed

lemma keeps_vouched_releaseApp: "keeps_vouched n X (releaseApp E u appPath client)"
proof -
  have "keeps_vouched n X (catching (workerRequest f) (\<lambda>e. if c e then ret () else throw e))" for f c
    by (intro meets_catching [OF keeps_vouched_request] meets_if meets_ret meets_throw)
  then show ?thesis
    unfolding releaseApp_def by (auto intro!: meets_ret meets_andthen keeps_vouched_dropEntry split: option.splits)
qed

lemma keeps_vouched_status: "keeps_vouched n X (sandbox_status E u endpoint appPath)"
  unfolding sandbox_status_def by (intro meets_bnd [OF vouched_findAppSession] meets_ret) simp

text \<open>Resolving a request.\<close>

abbreviation target_heard :: "nat \<Rightarrow> (string \<Rightarrow> string \<Rightarrow> bool) \<Rightarrow> string \<Rightarrow> target option \<Rightarrow> 'w sandboxes \<Rightarrow> bool" where
  "target_heard n X u t s \<equiv> vouched n X s \<and> (\<forall>g. t = Some g \<longrightarrow> heard n X u (tg_sessionId g) (Some (tg_host g)) s)"

lemma keeps_vouched_refreshAppSessions: "keeps_vouched n X (refreshAppSessions E u endpoint)"
proof -
  have asked: "meets (vouched n X) (catching (findAppSessions E u) (\<lambda>_. ret []))
      (\<lambda>rs s. vouched n X s \<and> (\<forall>r \<in> set rs. report_heard n X u (ar_session r) s)) (vouched n X)"
    by (rule meets_catching [OF vouched_findAppSessions]) (auto intro: meets_ret)
  have each: "meets (\<lambda>s. vouched n X s \<and> (\<forall>r \<in> set rs. report_heard n X u (ar_session r) s))
      (bnd (cache_entry u key ((ar_session r)\<lparr>wr_status := st\<rparr>) e p) (\<lambda>_. ret ()))
      (\<lambda>_ s. vouched n X s \<and> (\<forall>r \<in> set rs. report_heard n X u (ar_session r) s)) (vouched n X)"
    if "r \<in> set rs" for rs r st e p key
    by (intro meets_bnd [OF meets_weaken [OF vouched_cache_entry_with
        [where A = "\<lambda>s. \<forall>r \<in> set rs. report_heard n X u (ar_session r) s"]]] meets_ret)
      (use that in \<open>auto simp: heard_def\<close>)
  show ?thesis
    unfolding refreshAppSessions_def
    by (rule meets_bnd [OF asked], rule meets_weaken [OF meets_for_each [OF each]]) auto
qed

lemma in_longest_match:
  assumes "longest_match path es = Some e"
  shows "e \<in> set es"
proof -
  let ?ys = "sort_key (\<lambda>e. - int (length (se_appPath e))) (filter (\<lambda>e. se_appPath e \<noteq> [] \<and> isPrefixOnSegment (se_appPath e) path) es)"
  from assms have "e \<in> set ?ys"
    unfolding longest_match_def by (cases ?ys) auto
  then show ?thesis by simp
qed

lemma vouched_attributeByPath:
  "meets (vouched n X) (attributeByPath E u endpoint path)
     (\<lambda>e s. vouched n X s \<and> (\<forall>e'. e = Some e' \<longrightarrow> entry_heard n X u e' s)) (vouched n X)"
proof -
  have match: "meets (vouched n X) (gets (\<lambda>s. longest_match path (entriesFor u s)))
     (\<lambda>e s. vouched n X s \<and> (\<forall>e'. e = Some e' \<longrightarrow> entry_heard n X u e' s)) (vouched n X)"
    by (rule meets_gets) (auto dest: in_longest_match intro: vouched_entry)
  show ?thesis
    unfolding attributeByPath_def
  proof (rule meets_bnd [OF match], goal_cases)
    case (1 c)
    have "meets (\<lambda>s. vouched n X s \<and> (\<forall>e'. None = Some e' \<longrightarrow> entry_heard n X u e' s)) (andthen (refreshAppSessions E u endpoint)
      (gets (\<lambda>s. longest_match path (entriesFor u s))))
      (\<lambda>e s. vouched n X s \<and> (\<forall>e'. e = Some e' \<longrightarrow> entry_heard n X u e' s)) (vouched n X)"
      by (rule meets_weaken [OF meets_andthen [OF keeps_vouched_refreshAppSessions match]]) auto
    then show ?case by (cases c) (auto intro: meets_ret)
  qed
qed

lemma recordProxiedRequest_view:
  "sessionsByUsername (snd (recordProxiedRequest u i s)) = sessionsByUsername s \<and>
   kernelsByUsername (snd (recordProxiedRequest u i s)) = kernelsByUsername s \<and> told (snd (recordProxiedRequest u i s)) = told s"
  unfolding recordProxiedRequest_def isUnobservable_def recordActivity_def
  by (auto simp: effect_simps split: option.splits)

lemma recordProxiedRequest_ok: "\<exists>t. recordProxiedRequest u i s = (Inr (), t)"
  unfolding recordProxiedRequest_def isUnobservable_def recordActivity_def
  by (auto simp: effect_simps split: option.splits)

lemma meets_recordProxiedRequest:
  assumes "\<And>s t. P s \<Longrightarrow> sessionsByUsername t = sessionsByUsername s \<Longrightarrow> kernelsByUsername t = kernelsByUsername s \<Longrightarrow>
    told t = told s \<Longrightarrow> P t"
  shows "meets P (recordProxiedRequest u i) (\<lambda>_. P) Y"
  unfolding meets_def
proof (intro allI impI)
  fix s
  assume "P s"
  moreover obtain t where t: "recordProxiedRequest u i s = (Inr (), t)" using recordProxiedRequest_ok by blast
  ultimately have "P t" using recordProxiedRequest_view [of u i s] by (auto intro: assms)
  with t show "case recordProxiedRequest u i s of (Inl e, t) \<Rightarrow> Y t | (Inr a, t) \<Rightarrow> P t" by simp
qed

lemma vouched_proxied_to:
  "meets (\<lambda>s. vouched n X s \<and> heard n X u i (Some h) s) (proxied_to u endpoint i h) (target_heard n X u) (vouched n X)"
  unfolding proxied_to_def
  by (rule meets_andthen [OF meets_recordProxiedRequest]) (auto simp: vouched_def heard_def intro: meets_ret)

lemma vouched_by_path: "meets (vouched n X) (by_path E u endpoint path) (target_heard n X u) (vouched n X)"
  unfolding by_path_def
proof (rule meets_bnd [OF vouched_attributeByPath], goal_cases)
  case (1 e)
  show ?case
  proof (cases e)
    case None
    then show ?thesis by (auto intro: meets_ret)
  next
    case (Some e')
    show ?thesis
    proof (cases "has_host e'")
      case True
      then have "se_host e' = Some (the (se_host e'))" by (auto simp: has_host_def nonempty_def split: if_splits)
      then show ?thesis
        unfolding Some option.case if_P [OF True] by (intro meets_weaken [OF vouched_proxied_to [of n X u]]) auto
    next
      case False
      with Some show ?thesis by (auto intro: meets_ret)
    qed
  qed
qed

lemma vouched_by_referer: "meets (vouched n X) (by_referer E u endpoint referer) (target_heard n X u) (vouched n X)"
  unfolding by_referer_def
  by (auto split: option.splits intro!: meets_ret meets_catching [OF vouched_by_path])

lemma vouched_or_else:
  "meets (vouched n X) m (target_heard n X u) (vouched n X) \<Longrightarrow> meets (vouched n X) k (target_heard n X u) (vouched n X) \<Longrightarrow>
   meets (vouched n X) (or_else m k) (target_heard n X u) (vouched n X)"
  unfolding or_else_def
  by (erule meets_bnd) (auto split: option.splits intro: meets_ret meets_weaken)

lemma has_host_Some: "has_host e \<Longrightarrow> se_host e = Some (the (se_host e))"
  by (auto simp: has_host_def nonempty_def split: if_splits)

lemma in_one_per_host: "e \<in> set (one_per_host es) \<Longrightarrow> e \<in> set es"
proof -
  assume "e \<in> set (one_per_host es)"
  then obtain e' where "e' \<in> set es" "e = last (filter (\<lambda>e. se_host e = se_host e') es)"
    by (auto simp: one_per_host_def)
  moreover from this have "filter (\<lambda>e. se_host e = se_host e') es \<noteq> []" by (auto simp: filter_empty_conv)
  ultimately have "e \<in> set (filter (\<lambda>e. se_host e = se_host e') es)" by (metis last_in_set)
  then show "e \<in> set es" by simp
qed

lemma vouched_probe_candidates:
  "meets (\<lambda>s. vouched n X s \<and> (\<forall>e \<in> set es. has_host e \<and> entry_heard n X u e s)) (probe_candidates E u endpoint k es)
     (\<lambda>t s. vouched n X s \<and> (\<forall>i h. t = Some (i, h) \<longrightarrow> heard n X u i (Some h) s)) Y"
proof (induction es)
  case Nil
  show ?case by (simp only: probe_candidates.simps) (rule meets_ret, simp)
next
  case (Cons e es)
  let ?P = "\<lambda>s. vouched n X s \<and> (\<forall>e \<in> set (e # es). has_host e \<and> entry_heard n X u e s)"
  let ?ks = "\<lambda>s. case map_of (kernelsByUsername s) u of None \<Rightarrow> [] | Some ks \<Rightarrow> ks"
  let ?t = "(se_sessionId e, the (se_host e))"
  let ?R = "\<lambda>t s. vouched n X s \<and> (\<forall>i h. t = Some (i, h) \<longrightarrow> heard n X u i (Some h) s)"
  have host: "has_host e \<Longrightarrow> se_host e = Some (the (se_host e))" by (rule has_host_Some)
  have "vouched n X (s\<lparr>kernelsByUsername := map_set (kernelsByUsername s) u (map_set (?ks s) k ?t)\<rparr>)" if "?P s" for s
  proof (rule vouched_set_kernels)
    show "vouched n X s" using that by simp
    fix j i h
    assume "(j, i, h) \<in> set (map_set (?ks s) k ?t)"
    then consider "(i, h) = ?t" | "(j, i, h) \<in> set (?ks s)" by (auto dest: map_set_old)
    then show "heard n X u i (Some h) s"
      using that host by cases (auto split: option.splits intro: vouched_kernel [OF _ sym])
  qed
  then have "meets ?P (modify (\<lambda>s. s\<lparr>kernelsByUsername := map_set (kernelsByUsername s) u (map_set (?ks s) k ?t)\<rparr>))
      (\<lambda>_ s. vouched n X s \<and> heard n X u (se_sessionId e) (Some (the (se_host e))) s) Y"
    using host by (intro meets_modify) (auto simp: heard_def)
  then have found: "meets ?P (andthen (modify (\<lambda>s. s\<lparr>kernelsByUsername := map_set (kernelsByUsername s) u (map_set (?ks s) k ?t)\<rparr>)) (ret (Some ?t))) ?R Y"
    by (intro meets_andthen [OF _ meets_ret]) auto
  have rest: "meets ?P (probe_candidates E u endpoint k es) ?R Y"
    by (rule meets_weaken [OF Cons.IH]) auto
  show ?case
    unfolding probe_candidates.simps
    by (rule meets_bnd [OF meets_asks [where P = ?P]]) (auto simp only: heard_world vouched_world intro!: meets_if found rest)
qed

lemma vouched_probeKernel:
  "meets (vouched n X) (probeKernel E u endpoint k)
     (\<lambda>t s. vouched n X s \<and> (\<forall>i h. t = Some (i, h) \<longrightarrow> heard n X u i (Some h) s)) (vouched n X)"
proof -
  have known: "meets (vouched n X) (gets (known_kernel u k))
      (\<lambda>t s. vouched n X s \<and> (\<forall>i h. t = Some (i, h) \<longrightarrow> heard n X u i (Some h) s)) (vouched n X)"
    by (rule meets_gets) (auto simp: known_kernel_def bind_eq_Some_conv dest: map_of_SomeD intro: vouched_kernel)
  have warm: "keeps_vouched n X (bnd (gets f) (\<lambda>warm. if warm then ret () else refreshAppSessions E u endpoint))" for f
    by (intro meets_bnd [where R = "\<lambda>_. vouched n X"] meets_if meets_ret meets_gets keeps_vouched_refreshAppSessions)
  have "meets (vouched n X) (gets (\<lambda>s. one_per_host (filter has_host (entriesFor u s))))
      (\<lambda>es s. vouched n X s \<and> (\<forall>e \<in> set es. has_host e \<and> entry_heard n X u e s)) (vouched n X)"
    by (rule meets_gets) (auto dest!: in_one_per_host intro: vouched_entry)
  note probe = meets_andthen [OF warm meets_bnd [OF this vouched_probe_candidates]]
  show ?thesis
    unfolding probeKernel_def
  proof (rule meets_bnd [OF known], goal_cases)
    case (1 t)
    then show ?case by (cases t) (auto intro: meets_ret meets_weaken [OF probe])
  qed
qed

lemma vouched_single_candidate: "meets (vouched n X) (single_candidate u endpoint) (target_heard n X u) (vouched n X)"
proof -
  let ?P = "\<lambda>es s. vouched n X s \<and> (\<forall>e \<in> set es. has_host e \<and> entry_heard n X u e s)"
  have candidates: "meets (vouched n X) (gets (\<lambda>s. filter (\<lambda>e. se_endpoint e = endpoint \<and> has_host e) (entriesFor u s)))
      ?P (vouched n X)"
    by (rule meets_gets) (auto intro: vouched_entry)
  have count: "meets (?P es) (for_each es (\<lambda>e. recordProxiedRequest u (se_sessionId e))) (\<lambda>_. ?P es) Y" for es Y
    by (intro meets_for_each meets_recordProxiedRequest) (auto simp: vouched_def heard_def)
  have first: "target_heard n X u (Some \<lparr>tg_host = the h, tg_port = p, tg_sessionId = se_sessionId (hd es)\<rparr>) s"
    if "?P es s" "first_of_each (map se_host es) = [h]" for es h p and s :: "'w sandboxes"
  proof -
    from that(2) have hs: "set (map se_host es) = {h}" by (metis set_first_of_each empty_set list.simps(15))
    then obtain e es' where es: "es = e # es'" by (cases es) auto
    with hs have "se_host e = h" by auto
    with that(1) es has_host_Some [of e] show ?thesis by auto
  qed
  show ?thesis
    unfolding single_candidate_def
  proof (rule meets_bnd [OF candidates], goal_cases)
    case (1 es)
    show ?case
    proof (cases "\<exists>h. first_of_each (map se_host es) = [h]")
      case True
      then obtain h where h: "first_of_each (map se_host es) = [h]" by blast
      show ?thesis
        unfolding h list.case by (rule meets_andthen [OF count meets_ret]) (rule first [OF _ h])
    next
      case False
      then show ?thesis by (auto split: list.splits intro: meets_ret)
    qed
  qed
qed

lemma vouched_resolveTarget:
  "meets (vouched n X) (resolveTarget E u endpoint pathname referer) (target_heard n X u) (vouched n X)"
proof -
  have kernel: "meets (vouched n X) (bnd (probeKernel E u endpoint k) (\<lambda>t. case t of Some (i, h) \<Rightarrow> proxied_to u endpoint i h | None \<Rightarrow> ret None))
      (target_heard n X u) (vouched n X)" for k
  proof (rule meets_bnd [OF vouched_probeKernel], goal_cases)
    case (1 t)
    show ?case
      by (cases t) (auto intro: meets_ret meets_weaken [OF vouched_proxied_to])
  qed
  show ?thesis
    unfolding resolveTarget_def
    by (cases "kernel_of pathname"; simp only: option.case;
        intro meets_if vouched_or_else vouched_by_path vouched_by_referer vouched_single_candidate kernel meets_ret) simp_all
qed

lemma vouched_resolve:
  "meets (vouched n X) (resolve E username url referer)
     (\<lambda>r s. vouched n X s \<and> (\<forall>e p g u. r = Resolved e p g \<longrightarrow> username = Some u \<longrightarrow>
        heard n X u (tg_sessionId g) (Some (tg_host g)) s)) (vouched n X)"
proof -
  have "meets (vouched n X) (bnd (resolveTarget E u endpoint pathname referer) (\<lambda>t. case t of
      None \<Rightarrow> ret (Rejected 400) | Some t \<Rightarrow> ret (Resolved endpoint path t)))
     (\<lambda>r s. vouched n X s \<and> (\<forall>e p g. r = Resolved e p g \<longrightarrow> heard n X u (tg_sessionId g) (Some (tg_host g)) s)) (vouched n X)"
    for u endpoint pathname path
    by (rule meets_bnd [OF vouched_resolveTarget]) (auto split: option.splits intro: meets_ret)
  note named = this
  show ?thesis
    unfolding resolve_def Let_def
    by (auto split: option.splits prod.splits simp: nonempty_def intro!: meets_ret intro: meets_weaken [OF named])
qed

lemma vouched_middleware:
  "meets (vouched n X) (sandbox_middleware E username url referer)
     (\<lambda>a s. vouched n X s \<and> (\<forall>g p u. a = Proxied g p \<longrightarrow> username = Some u \<longrightarrow>
        heard n X u (tg_sessionId g) (Some (tg_host g)) s)) (vouched n X)"
proof -
  have answer: "meets (\<lambda>s. vouched n X s \<and> (\<forall>u. username = Some u \<longrightarrow> heard n X u (tg_sessionId g) (Some (tg_host g)) s))
      (catching (andthen (ensureServerStarted E v i e) (ret (Proxied g p))) (\<lambda>_. ret (Answered 502)))
      (\<lambda>a s. vouched n X s \<and> (\<forall>g p u. a = Proxied g p \<longrightarrow> username = Some u \<longrightarrow>
        heard n X u (tg_sessionId g) (Some (tg_host g)) s)) (vouched n X)" (is "meets ?P _ _ _") for g v i e p
    by (rule meets_catching [OF meets_andthen [OF meets_ensureServerStarted [where P = ?P] meets_ret]])
      (auto simp: vouched_def heard_def intro: meets_ret)
  show ?thesis
    unfolding sandbox_middleware_def
  proof (rule meets_bnd [OF vouched_resolve], goal_cases)
    case (1 r)
    then show ?case
      by (cases r) (auto intro: meets_ret meets_weaken [OF answer])
  qed
qed

text \<open>Heartbeats and messages.\<close>

lemma vouched_freshen:
  "meets (\<lambda>s. vouched n X s \<and> report_heard n X u r s) (freshen u r) (\<lambda>_. vouched n X) Y"
proof -
  have "entry_heard n X u e' s"
    if "vouched n X s" "report_heard n X u r s"
      "(k, e') \<in> set (map (\<lambda>(k, e). (k, if se_sessionId e = wr_id r
         then e\<lparr>se_status := wr_status r, se_host := wr_host r, se_lastSeen := sb_now s\<rparr> else e)) (entries_of u s))"
    for k e' and s :: "'w sandboxes"
    using that by (auto intro: vouched_entries_of)
  note fresh = this
  show ?thesis
    unfolding freshen_def
  proof (rule meets_modify, goal_cases)
    case (1 s)
    with fresh [of s] show ?case by (auto simp del: set_map intro: vouched_set_entries)
  qed
qed

lemma keeps_vouched_beat: "keeps_vouched n X (beat E t)"
proof (cases t)
  case (Pair u i)
  have consume: "keeps_vouched n X (consume_interaction u i)"
    unfolding consume_interaction_def by (rule meets_state_act) (simp add: vouched_def)
  have told: "meets (vouched n X) (sendHeartbeat E u i b) (\<lambda>r s. vouched n X s \<and> report_heard n X u r s) (vouched n X)" for b
    unfolding sendHeartbeat_def Let_def
    by (rule meets_andthen [OF meets_modify meets_weaken [OF vouched_hears [where rs = "\<lambda>r. [r\<lparr>wr_id := i\<rparr>]" and g = "\<lambda>r. r\<lparr>wr_id := i\<rparr>"]]])
      (auto simp: vouched_def)
  show ?thesis
    unfolding beat_def Pair prod.case
    by (intro meets_bnd [OF consume] meets_catching [OF meets_bnd [OF told vouched_freshen]] meets_if meets_ret keeps_vouched_dropSession)
qed

lemma map_of_map_values: "map_of (map (\<lambda>(k, v). (k, f v)) m) k = map_option f (map_of m k)"
  by (induction m) auto

lemma vouched_pruned:
  assumes "vouched n X s" and "kernelsByUsername t = filter P (map (\<lambda>(u, ks). (u, filter (Q u) ks)) (kernelsByUsername s))"
    and "sessionsByUsername t = sessionsByUsername s" and "told t = told s"
  shows "vouched n X t"
proof -
  let ?m = "map (\<lambda>(u, ks). (u, filter (Q u) ks)) (kernelsByUsername s)"
  have keys: "map fst ?m = map fst (kernelsByUsername s)" by (induction "kernelsByUsername s") auto
  have "distinct (map fst (kernelsByUsername s))" using assms(1) by (simp add: vouched_def)
  then have d: "distinct (map fst ?m)" unfolding keys .
  then have d': "distinct (map fst (kernelsByUsername t))" by (simp add: assms(2) distinct_map_filter)
  have "heard n X u i (Some h) s"
    if "map_of (kernelsByUsername t) u = Some ks" "(k, i, h) \<in> set ks" for u ks k i h
  proof -
    from that(1) have "(u, ks) \<in> set ?m" using assms(2) by (auto dest: map_of_SomeD)
    then obtain ks' where "(u, ks') \<in> set (kernelsByUsername s)" "ks = filter (Q u) ks'" by auto
    moreover from this have "map_of (kernelsByUsername s) u = Some ks'"
      using assms(1) by (simp add: vouched_def)
    ultimately show ?thesis using that(2) by (auto intro: vouched_kernel [OF assms(1)])
  qed
  with assms(1,3,4) d' show ?thesis by (fastforce simp: vouched_def heard_def)
qed

lemma keeps_vouched_heartbeatOnce: "keeps_vouched n X (heartbeatOnce E)"
proof -
  have "keeps_vouched n X (pruneSessionState ts)" for ts
    unfolding pruneSessionState_def Let_def
    by (rule meets_modify) (rule vouched_pruned, assumption, simp_all)
  then show ?thesis
    unfolding heartbeatOnce_def
    by (intro meets_bnd [where R = "\<lambda>_. vouched n X"] meets_gets meets_andthen [where R = "vouched n X"]
        meets_for_each keeps_vouched_beat)
qed

lemma keeps_vouched_onSessionClosed: "keeps_vouched n X (onSessionClosed u i h)"
  unfolding onSessionClosed_def
  by (auto split: option.splits intro!: keeps_vouched_dropSession meets_bnd [where R = "\<lambda>_. vouched n X"] meets_gets
      meets_for_each meets_modify vouched_drop_where)

lemma keeps_vouched_onAppDissociated: "keeps_vouched n X (onAppDissociated u p)"
  unfolding onAppDissociated_def
  by (auto split: option.splits intro: keeps_vouched_dropEntry meets_ret)

lemma vouched_happens:
  fixes s :: "'w sandboxes"
  assumes "vouched n X s"
  shows "vouched n X (happens E s ev)"
proof -
  have keep: "vouched n X (after m s)" if "keeps_vouched n X m" for m :: "('w, 'b) sbx"
    unfolding after_def by (rule meets_snd [OF that assms])
  show ?thesis
  proof (cases ev)
    case (Start_request q)
    have "keeps_vouched n X (start_handler E q)"
      unfolding start_handler_def start_route_def release_route_def status_route_def
      by (auto split: option.splits intro!: meets_ret always_answered always_done keeps_vouched_startApp
          keeps_vouched_releaseApp keeps_vouched_status)
    with Start_request show ?thesis by (simp add: keep)
  next
    case (Interaction_request q)
    have "keeps_vouched n X (interaction_handler E q)"
      unfolding interaction_handler_def andthen_def
      by (auto split: option.splits intro!: meets_ret meets_bnd keeps_vouched_recordInteraction)
    with Interaction_request show ?thesis by (simp add: keep)
  next
    case (Server_request q)
    have "keeps_vouched n X (server_handler E q)"
      unfolding server_handler_def Let_def
      by (auto split: option.splits intro!: meets_ret always_done keeps_vouched_ensureServerStarted)
    with Server_request show ?thesis by (simp add: keep)
  next
    case (Proxied_request username url referer)
    then show ?thesis
      using meets_weaken [OF vouched_middleware [of n X E username url referer]] by (auto intro!: keep)
  next
    case (Closed_message m)
    have "keeps_vouched n X (session_closed_handler m :: ('w, browser_event list) sbx)"
      unfolding session_closed_handler_def by (intro meets_andthen [OF keeps_vouched_onSessionClosed] meets_ret)
    with Closed_message show ?thesis by (simp add: keep)
  next
    case (Dissociated_message m)
    have "keeps_vouched n X (app_dissociated_handler m :: ('w, browser_event list) sbx)"
      unfolding app_dissociated_handler_def by (intro meets_andthen [OF keeps_vouched_onAppDissociated] meets_ret)
    with Dissociated_message show ?thesis by (simp add: keep)
  next
    case Heartbeat
    then show ?thesis by (simp add: keep keeps_vouched_heartbeatOnce)
  qed (use assms in \<open>simp_all add: vouched_def after_def forgetServerStarted_def\<close>)
qed

lemma vouched_history: "vouched n X s \<Longrightarrow> vouched n X (sandbox_history E s evs)"
  unfolding sandbox_history_def by (induction evs arbitrary: s) (auto intro: vouched_happens)

lemma vouched_start: "vouched 0 X (sandboxes_start now w)"
  by (simp add: vouched_def sandboxes_start_def)

section \<open>Routing\<close>

lemma map_of_drop_where:
  assumes "distinct (map fst (sessionsByUsername s))" and "map_of (sessionsByUsername (drop_where u P s)) u = Some es"
    and "p \<in> set es"
  shows "\<not> P p"
  using assms by (auto simp: drop_where_def Let_def map_of_map_set map_of_map_delete split: if_splits)

lemma map_of_drop_kernels:
  assumes "map_of (kernelsByUsername (drop_kernels u i s)) u = Some ks" and "(k, j, h) \<in> set ks"
  shows "j \<noteq> i"
  using assms by (auto simp: drop_kernels_def Let_def map_of_map_set map_of_map_delete split: option.splits if_splits)

lemma drop_where_kernels [simp]: "kernelsByUsername (drop_where u P s) = kernelsByUsername s"
  by (simp add: drop_where_def Let_def)

lemma drop_kernels_sessions [simp]: "sessionsByUsername (drop_kernels u i s) = sessionsByUsername s"
  by (simp add: drop_kernels_def Let_def split: option.splits)

lemma drop_told [simp]: "told (drop_where u P s) = told s" "told (drop_kernels u i s) = told s"
  by (simp_all add: drop_where_def drop_kernels_def Let_def split: option.splits)

text \<open>A closed session leaves no entry and no kernel behind.\<close>

lemma closed_vouched:
  fixes s :: "'w sandboxes"
  assumes "vouched n X s" and m: "sm_username m = Some u" "sm_sessionId m = Some i" "u \<noteq> []" "i \<noteq> []"
  shows "vouched (length (told s)) (\<lambda>v j. v = u \<and> j = i) (happens E s (Closed_message m))"
proof -
  let ?q = "s\<lparr>pendingActivity := set_delete (pendingActivity s) (activityKey u i),
    unobservableUntil := map_delete (unobservableUntil s) (activityKey u i), interactionSeen := set_delete (interactionSeen s) (activityKey u i)\<rparr>"
  let ?d = "drop_where u (\<lambda>(_, e). se_sessionId e = i) ?q"
  let ?t = "happens E s (Closed_message m)"
  have t: "?t = (drop_kernels u i ?d)\<lparr>startedServers := filter (\<lambda>(j, e). \<not> (j = i \<and> isEndpoint e)) (startedServers (drop_kernels u i ?d))\<rparr>"
    using m by (simp add: after_def session_closed_handler_def onSessionClosed_def nonempty_def dropSession_def andthen_run Let_def)
  from vouched_happens [OF assms(1), of E "Closed_message m"] have v: "vouched n X ?t" .
  have told: "told ?t = told s" unfolding t by simp
  have no_entry: "se_sessionId e \<noteq> i" if "map_of (sessionsByUsername ?t) u = Some es" "(k, e) \<in> set es" for es k e
    using map_of_drop_where [of ?q u "\<lambda>(_, e). se_sessionId e = i" es "(k, e)"] that assms(1)
    unfolding t by (simp add: vouched_def)
  have no_kernel: "j \<noteq> i" if "map_of (kernelsByUsername ?t) u = Some ks" "(k, j, h) \<in> set ks" for ks k j h
    using map_of_drop_kernels [of u i ?d ks k j h] that unfolding t by simp
  show ?thesis
    using v no_entry no_kernel unfolding vouched_def told by (fastforce simp del: happens.simps)
qed

text \<open>
  C31: A request is forwarded only to a session, at a host, that the worker named to the gateway for the
  user of the request.
\<close>

theorem routed_sessions_were_named:
  assumes "sandbox_middleware E (Some u) url referer (sandbox_history E (sandboxes_start now w) evs) = (Inr (Proxied g path), t)"
  shows "(u, tg_sessionId g, Some (tg_host g)) \<in> set (told t)"
  using meetsD [OF vouched_middleware [of 0 "\<lambda>_ _. True"] vouched_history [OF vouched_start] assms]
  by (simp add: heard_def)


section \<open>Interactions\<close>

text \<open>
  \<open>idle k n s\<close>: no interaction of the session with key \<open>k\<close> is waiting, none is counted from requests, and
  no beat after the first \<open>n\<close> carried one.
\<close>

definition idle :: "string \<Rightarrow> nat \<Rightarrow> 'w sandboxes \<Rightarrow> bool" where
  "idle k n s \<longleftrightarrow> k \<notin> set (pendingActivity s) \<and> (\<forall>(k', expiry) \<in> set (unobservableUntil s). k' = k \<longrightarrow> expiry \<le> sb_now s) \<and>
     n \<le> length (beats s) \<and> (\<forall>(u, i, b) \<in> set (drop n (beats s)). b \<longrightarrow> activityKey u i \<noteq> k)"

abbreviation stays_idle :: "string \<Rightarrow> nat \<Rightarrow> ('w, 'a) sbx \<Rightarrow> bool" where
  "stays_idle k n m \<equiv> always (idle k n) m"

lemma idle_modify:
  assumes "\<And>s. pendingActivity (f s) = pendingActivity s" and "\<And>s. unobservableUntil (f s) = unobservableUntil s"
    and "\<And>s. sb_now (f s) = sb_now s" and "\<And>s. beats (f s) = beats s"
  shows "stays_idle k n (modify f)"
  by (rule meets_modify) (use assms in \<open>simp add: idle_def\<close>)

lemma idle_asks: "stays_idle k n (sb_asks f)"
  by (rule meets_asks) (simp add: idle_def)

lemma idle_request: "stays_idle k n (workerRequest f)"
  by (rule meets_request) (simp add: idle_def)

lemma idle_hear: "stays_idle k n (hear u rs)"
  unfolding hear_def by (rule idle_modify) simp_all

lemma idle_cache: "stays_idle k n (cache_entry u key r endpoint path)"
  unfolding cache_entry_def by (rule meets_state_act) (simp add: idle_def Let_def)

lemma drop_where_activity [simp]:
  "pendingActivity (drop_where u P s) = pendingActivity s" "unobservableUntil (drop_where u P s) = unobservableUntil s"
  "sb_now (drop_where u P s) = sb_now s" "beats (drop_where u P s) = beats s"
  by (simp_all add: drop_where_def Let_def)

lemma drop_kernels_activity [simp]:
  "pendingActivity (drop_kernels u i s) = pendingActivity s" "unobservableUntil (drop_kernels u i s) = unobservableUntil s"
  "sb_now (drop_kernels u i s) = sb_now s" "beats (drop_kernels u i s) = beats s"
  by (simp_all add: drop_kernels_def Let_def split: option.splits)

lemma idle_dropEntry: "stays_idle k n (dropEntry u key)"
  unfolding dropEntry_def by (rule idle_modify) simp_all

lemma idle_dropSession: "stays_idle k n (dropSession u i)"
  unfolding dropSession_def Let_def by (rule meets_modify) (auto simp: idle_def map_delete_def)

text \<open>A proxied request of a session that is not declared unobservable counts for nothing.\<close>

lemma idle_recordProxiedRequest: "stays_idle k n (recordProxiedRequest u i)"
proof -
  have "idle k n (snd (recordProxiedRequest u i s))" if "idle k n s" for s :: "'w sandboxes"
  proof (cases "map_of (unobservableUntil s) (activityKey u i)")
    case None
    with that show ?thesis by (simp add: recordProxiedRequest_def isUnobservable_def effect_simps)
  next
    case (Some expiry)
    then have "(activityKey u i, expiry) \<in> set (unobservableUntil s)" by (rule map_of_SomeD)
    with that have "activityKey u i = k \<longrightarrow> expiry \<le> sb_now s" by (auto simp: idle_def)
    with that Some show ?thesis
      by (auto simp: recordProxiedRequest_def isUnobservable_def recordActivity_def effect_simps idle_def map_delete_def)
  qed
  then show ?thesis unfolding meets_def using recordProxiedRequest_ok by (metis (no_types, lifting) case_prod_conv old.sum.simps(6) snd_conv)
qed

lemma idle_refreshAppSessions: "stays_idle k n (refreshAppSessions E u endpoint)"
  unfolding refreshAppSessions_def findAppSessions_def
  by (intro always_rules idle_request idle_hear idle_cache)

lemma idle_attributeByPath: "stays_idle k n (attributeByPath E u endpoint path)"
  unfolding attributeByPath_def
  by (rule always_bnd) (auto split: option.splits intro!: always_gets always_rules idle_refreshAppSessions)

lemma idle_proxied_to: "stays_idle k n (proxied_to u endpoint i h)"
  unfolding proxied_to_def by (intro always_rules idle_recordProxiedRequest)

lemma idle_by_path: "stays_idle k n (by_path E u endpoint path)"
  unfolding by_path_def
  by (rule always_bnd) (auto split: option.splits intro!: idle_attributeByPath always_rules idle_proxied_to)

lemma idle_probe_candidates: "stays_idle k n (probe_candidates E u endpoint j es)"
proof (induction es)
  case Nil
  show ?case by (simp only: probe_candidates.simps) (rule meets_ret)
next
  case (Cons e es)
  show ?case
    unfolding probe_candidates.simps
    by (intro always_rules idle_asks idle_modify Cons) simp_all
qed

lemma idle_probeKernel: "stays_idle k n (probeKernel E u endpoint j)"
  unfolding probeKernel_def
  by (rule always_bnd)
    (auto split: option.splits intro!: always_gets always_rules idle_refreshAppSessions idle_probe_candidates)

lemma idle_single_candidate: "stays_idle k n (single_candidate u endpoint)"
  unfolding single_candidate_def
  by (rule always_bnd)
    (auto split: list.splits intro!: always_gets always_rules idle_recordProxiedRequest)

lemma idle_resolveTarget: "stays_idle k n (resolveTarget E u endpoint pathname referer)"
proof -
  have kernel: "stays_idle k n (case kernel_of pathname of
      Some j \<Rightarrow> if endpoint = ''jupyter'' then bnd (probeKernel E u endpoint j) (\<lambda>t. case t of
        Some (i, h) \<Rightarrow> proxied_to u endpoint i h | None \<Rightarrow> ret None) else ret None
    | None \<Rightarrow> ret None)"
    by (auto split: option.splits intro!: always_rules idle_probeKernel idle_proxied_to)
  have referer: "stays_idle k n (by_referer E u endpoint referer)"
    unfolding by_referer_def by (auto split: option.splits intro!: always_rules idle_by_path)
  have or_else: "stays_idle k n m \<Longrightarrow> stays_idle k n m' \<Longrightarrow> stays_idle k n (or_else m m')" for m m' :: "('w, target option) sbx"
    unfolding or_else_def by (rule always_bnd) (auto split: option.splits intro: always_rules)
  show ?thesis
    unfolding resolveTarget_def
    by (intro meets_if meets_ret or_else kernel referer idle_by_path idle_single_candidate)
qed

lemma idle_ensureServerStarted: "stays_idle k n (ensureServerStarted E u i endpoint)"
  by (rule meets_ensureServerStarted) (simp_all add: idle_def)

lemma idle_middleware: "stays_idle k n (sandbox_middleware E username url referer)"
proof -
  have "stays_idle k n (resolve E username url referer)"
    unfolding resolve_def Let_def
    by (auto split: option.splits intro!: always_rules idle_resolveTarget)
  then show ?thesis
    unfolding sandbox_middleware_def
    by (rule always_bnd) (auto split: resolution.splits intro!: always_rules idle_ensureServerStarted)
qed

lemma idle_findAppSession: "stays_idle k n (findAppSession E u path endpoint)"
  unfolding findAppSession_def findAppSessions_def
  by (intro always_rules always_gets)
    (auto split: option.splits intro!: always_rules idle_dropEntry idle_cache idle_request idle_hear)

lemma idle_adoptAssociation: "stays_idle k n (adoptAssociation E q path i r)"
  unfolding adoptAssociation_def findActiveSessions_def Let_def
  by (intro always_rules idle_cache idle_request idle_hear)

lemma idle_startApp: "stays_idle k n (startApp E q)"
  unfolding startApp_def findActiveSessions_def requestSession_def Let_def
  by (rule always_bnd)
    (auto split: option.splits intro!: idle_findAppSession always_rules idle_request idle_hear idle_adoptAssociation)

lemma idle_beat: "stays_idle k n (beat E t)"
proof (cases t)
  case (Pair u i)
  have consume: "meets (idle k n) (consume_interaction u i) (\<lambda>b s. idle k n s \<and> (b \<longrightarrow> activityKey u i \<noteq> k)) (idle k n)"
    unfolding consume_interaction_def by (rule meets_state_act) (auto simp: idle_def)
  have log: "meets (\<lambda>s. idle k n s \<and> (b \<longrightarrow> activityKey u i \<noteq> k)) (modify (\<lambda>s. s\<lparr>beats := beats s @ [(u, i, b)]\<rparr>))
      (\<lambda>_. idle k n) (idle k n)" for b
    by (rule meets_modify) (auto simp: idle_def)
  have fresh: "stays_idle k n (freshen u r)" for r
    unfolding freshen_def by (rule idle_modify) simp_all
  have send: "meets (\<lambda>s. idle k n s \<and> (b \<longrightarrow> activityKey u i \<noteq> k)) (sendHeartbeat E u i b) (\<lambda>_. idle k n) (idle k n)" for b
    unfolding sendHeartbeat_def Let_def
    by (rule meets_andthen [OF log]) (intro always_rules idle_request idle_hear)
  show ?thesis
    unfolding beat_def Pair prod.case
    by (rule meets_bnd [OF consume], rule meets_catching [OF meets_bnd [OF send fresh]]) (intro always_rules idle_dropSession)
qed

lemma idle_heartbeatOnce: "stays_idle k n (heartbeatOnce E)"
proof -
  have "stays_idle k n (pruneSessionState ts)" for ts
    unfolding pruneSessionState_def Let_def by (rule meets_modify) (auto simp: idle_def)
  then show ?thesis
    unfolding heartbeatOnce_def by (intro always_rules always_gets idle_beat)
qed

text \<open>The reports that bear on the session with key \<open>k\<close>.\<close>

definition reports :: "string \<Rightarrow> 'w sandbox_event \<Rightarrow> bool" where
  "reports k ev \<longleftrightarrow> (case ev of
     Interaction_request q \<Rightarrow> (case (resolveUsername q, nonempty (query q ''sessionId'')) of
       (Some u, Some i) \<Rightarrow> activityKey u i = k | _ \<Rightarrow> False)
   | _ \<Rightarrow> False)"

lemma idle_recordInteraction:
  assumes "activityKey u i \<noteq> k"
  shows "stays_idle k n (recordInteraction E u i observable)"
  unfolding recordInteraction_def recordActivity_def Let_def
  by (intro always_rules meets_modify) (use assms in \<open>auto simp: idle_def map_delete_def dest!: map_set_old\<close>)

lemma idle_happens:
  fixes s :: "'w sandboxes"
  assumes "idle k n s" and "\<not> reports k ev"
  shows "idle k n (happens E s ev)"
proof -
  have keep: "idle k n (after m s)" if "stays_idle k n m" for m :: "('w, 'b) sbx"
    unfolding after_def by (rule meets_snd [OF that assms(1)])
  show ?thesis
  proof (cases ev)
    case (Start_request q)
    have "stays_idle k n (releaseApp E u p c)" for u p c
      unfolding releaseApp_def by (auto split: option.splits intro!: always_rules idle_request idle_dropEntry)
    moreover have "stays_idle k n (sandbox_status E u e p)" for u e p
      unfolding sandbox_status_def by (intro always_rules idle_findAppSession)
    ultimately have "stays_idle k n (start_handler E q)"
      unfolding start_handler_def start_route_def release_route_def status_route_def
      by (auto split: option.splits intro!: always_ret always_answered always_done idle_startApp)
    with Start_request show ?thesis by (simp add: keep)
  next
    case (Interaction_request q)
    with assms(2) have "stays_idle k n (interaction_handler E q)"
      unfolding interaction_handler_def reports_def
      by (auto split: option.splits intro!: always_ret always_andthen idle_recordInteraction)
    with Interaction_request show ?thesis by (simp add: keep)
  next
    case (Server_request q)
    have "stays_idle k n (server_handler E q)"
      unfolding server_handler_def Let_def
      by (auto split: option.splits intro!: always_ret always_done idle_ensureServerStarted)
    with Server_request show ?thesis by (simp add: keep)
  next
    case (Proxied_request username url referer)
    then show ?thesis by (simp add: keep idle_middleware)
  next
    case (Closed_message m)
    have "stays_idle k n (session_closed_handler m :: ('w, browser_event list) sbx)"
      unfolding session_closed_handler_def onSessionClosed_def
      by (auto split: option.splits intro!: always_rules always_gets idle_dropSession idle_modify)
    with Closed_message show ?thesis by (simp add: keep)
  next
    case (Dissociated_message m)
    have "stays_idle k n (app_dissociated_handler m :: ('w, browser_event list) sbx)"
      unfolding app_dissociated_handler_def onAppDissociated_def
      by (auto split: option.splits intro!: always_rules idle_dropEntry)
    with Dissociated_message show ?thesis by (simp add: keep)
  next
    case Heartbeat
    then show ?thesis by (simp add: keep idle_heartbeatOnce)
  qed (use assms(1) in \<open>auto simp: idle_def after_def forgetServerStarted_def\<close>)
qed

lemma idle_history: "idle k n s \<Longrightarrow> (\<And>ev. ev \<in> set evs \<Longrightarrow> \<not> reports k ev) \<Longrightarrow> idle k n (sandbox_history E s evs)"
  unfolding sandbox_history_def by (induction evs arbitrary: s) (auto intro: idle_happens)

text \<open>
  C30: A session whose browser reports nothing is prolonged by no beat, whatever is proxied to it, once no
  report is waiting and no declaration that it cannot be observed is in force.
\<close>

theorem untouched_session_not_prolonged:
  assumes "activityKey u i \<notin> set (pendingActivity s)"
    and "\<And>expiry. (activityKey u i, expiry) \<in> set (unobservableUntil s) \<Longrightarrow> expiry \<le> sb_now s"
    and "\<And>ev. ev \<in> set evs \<Longrightarrow> \<not> reports (activityKey u i) ev"
  shows "(u, i, True) \<notin> set (drop (length (beats s)) (beats (sandbox_history E s evs)))"
  using idle_history [of "activityKey u i" "length (beats s)" s evs E] assms by (fastforce simp: idle_def)

section \<open>Beats\<close>

text \<open>What belongs to the sessions of \<open>ts\<close> only.\<close>

definition confined :: "(string \<times> string) list \<Rightarrow> 'w sandboxes \<Rightarrow> bool" where
  "confined ts s \<longleftrightarrow> (let live = (\<lambda>(u, i). activityKey u i) ` set ts in
     set (pendingActivity s) \<subseteq> live \<and> set (interactionSeen s) \<subseteq> live \<and>
     (\<forall>(k, expiry) \<in> set (unobservableUntil s). k \<in> live \<and> sb_now s < expiry) \<and>
     (\<forall>(u, ks) \<in> set (kernelsByUsername s). \<forall>(k, i, h) \<in> set ks. activityKey u i \<in> live) \<and>
     (\<forall>(i, e) \<in> set (startedServers s). i \<in> snd ` set ts))"

lemma confined_pruned: "confined ts (snd (pruneSessionState ts s))"
  by (auto simp: pruneSessionState_def confined_def Let_def image_iff)

lemma confined_drop_kernels: "confined ts s \<Longrightarrow> confined ts (drop_kernels u i s)"
  unfolding confined_def drop_kernels_def Let_def
  by (auto split: option.splits dest!: map_of_SomeD map_set_old simp: map_delete_def) blast+

lemma interactionSeen_drop_where [simp]:
  "interactionSeen (drop_where u P s) = interactionSeen s" "startedServers (drop_where u P s) = startedServers s"
  by (simp_all add: drop_where_def Let_def)


lemma confined_dropSession: "always (confined ts) (dropSession u i)"
proof -
  have "confined ts (drop_kernels u i (drop_where u P (s\<lparr>pendingActivity := set_delete (pendingActivity s) k,
      unobservableUntil := map_delete (unobservableUntil s) k, interactionSeen := set_delete (interactionSeen s) k\<rparr>)))"
    if "confined ts s" for P k and s :: "'w sandboxes"
    by (rule confined_drop_kernels) (use that in \<open>auto simp: confined_def Let_def map_delete_def\<close>)
  moreover have "confined ts (s\<lparr>startedServers := filter P (startedServers s)\<rparr>)" if "confined ts s" for P and s :: "'w sandboxes"
    using that by (auto simp: confined_def Let_def)
  ultimately show ?thesis
    unfolding dropSession_def Let_def by (intro meets_modify) blast
qed

lemma confined_beat: "always (confined ts) (beat E t)"
proof (cases t)
  case (Pair u i)
  have consume: "always (confined ts) (consume_interaction u i)"
    unfolding consume_interaction_def by (rule meets_state_act) (auto simp: confined_def Let_def)
  have send: "always (confined ts) (sendHeartbeat E u i b)" for b
    unfolding sendHeartbeat_def hear_def Let_def
    by (intro always_rules meets_modify meets_request) (simp_all add: confined_def)
  have fresh: "always (confined ts) (freshen u r)" for r
    unfolding freshen_def by (rule meets_modify) (simp add: confined_def)
  show ?thesis
    unfolding beat_def Pair prod.case by (intro always_rules consume send fresh confined_dropSession)
qed

text \<open>A beat consumes the interaction it carries, and is sent whatever comes of it.\<close>

lemma beat_effect:
  "\<exists>t. beat E (u, i) s = (Inr (), t) \<and> beats t = beats s @ [(u, i, activityKey u i \<in> set (pendingActivity s))] \<and>
     pendingActivity t = set_delete (pendingActivity s) (activityKey u i)"
proof -
  let ?k = "activityKey u i" and ?b = "activityKey u i \<in> set (pendingActivity s)"
  let ?Q = "\<lambda>t. beats t = beats s @ [(u, i, ?b)] \<and> pendingActivity t = set_delete (pendingActivity s) ?k"
  let ?s = "s\<lparr>pendingActivity := set_delete (pendingActivity s) ?k\<rparr>"
  let ?start = "\<lambda>t. beats t = beats s \<and> pendingActivity t = set_delete (pendingActivity s) ?k"
  have send: "meets ?start (sendHeartbeat E u i ?b) (\<lambda>_. ?Q) ?Q"
    unfolding sendHeartbeat_def hear_def Let_def
    by (intro meets_andthen [where R = ?Q] meets_bnd [where R = "\<lambda>_. ?Q"] meets_modify meets_request meets_ret) simp_all
  have fresh: "meets ?Q (freshen u r) (\<lambda>_. ?Q) ?Q" for r
    unfolding freshen_def by (rule meets_modify) simp
  have dropped: "meets ?Q (dropSession u i) (\<lambda>_. ?Q) (\<lambda>_. False)"
    unfolding dropSession_def Let_def by (rule meets_modify) (simp add: set_delete_def)
  have "meets ?start (catching (bnd (sendHeartbeat E u i ?b) (freshen u))
      (\<lambda>e. if statusCode e = Some 404 then dropSession u i else ret ())) (\<lambda>_. ?Q) (\<lambda>_. False)"
    by (intro meets_catching [OF meets_bnd [OF send fresh]] meets_if dropped meets_ret)
  from this [unfolded meets_def, rule_format, of ?s] show ?thesis
    by (auto simp: beat_def consume_interaction_def bnd_run state_act_run split: prod.splits sum.splits)
qed

lemma beats_effect:
  assumes "distinct ts" and "inj_on (\<lambda>(u, i). activityKey u i) (set ts)"
  shows "\<exists>t. for_each ts (beat E) s = (Inr (), t) \<and>
     beats t = beats s @ map (\<lambda>(u, i). (u, i, activityKey u i \<in> set (pendingActivity s))) ts \<and>
     pendingActivity t = filter (\<lambda>k. k \<notin> (\<lambda>(u, i). activityKey u i) ` set ts) (pendingActivity s)"
  using assms
proof (induction ts arbitrary: s)
  case Nil
  then show ?case by simp
next
  case (Cons t ts)
  obtain u i where t: "t = (u, i)" by fastforce
  obtain s1 where s1: "beat E (u, i) s = (Inr (), s1)"
      "beats s1 = beats s @ [(u, i, activityKey u i \<in> set (pendingActivity s))]"
      "pendingActivity s1 = set_delete (pendingActivity s) (activityKey u i)"
    using beat_effect by blast
  have "activityKey v j \<noteq> activityKey u i" if "(v, j) \<in> set ts" for v j
    using Cons.prems that t by (force dest: inj_onD)
  then have same: "map (\<lambda>(u, i). (u, i, activityKey u i \<in> set (pendingActivity s1))) ts =
      map (\<lambda>(u, i). (u, i, activityKey u i \<in> set (pendingActivity s))) ts"
    by (auto simp: s1(3))
  from Cons.IH [of s1] Cons.prems obtain s2 where "for_each ts (beat E) s1 = (Inr (), s2)"
      "beats s2 = beats s1 @ map (\<lambda>(u, i). (u, i, activityKey u i \<in> set (pendingActivity s1))) ts"
      "pendingActivity s2 = filter (\<lambda>k. k \<notin> (\<lambda>(u, i). activityKey u i) ` set ts) (pendingActivity s1)"
    by auto
  with s1 same t show ?case by (auto simp: andthen_run set_delete_def intro: filter_cong)
qed

text \<open>
  One beat of the timer sends exactly one heartbeat to every session served, in the order of the cache,
  carrying whether an interaction was waiting for it; afterwards no interaction is waiting, and all that is
  kept of sessions belongs to the sessions that were served.
\<close>

theorem heartbeat_once_per_session:
  assumes "inj_on (\<lambda>(u, i). activityKey u i) (set (heartbeat_targets s))"
  shows "\<exists>t. heartbeatOnce E s = (Inr (), t) \<and>
     beats t = beats s @ map (\<lambda>(u, i). (u, i, activityKey u i \<in> set (pendingActivity s))) (heartbeat_targets s) \<and>
     pendingActivity t = [] \<and> confined (heartbeat_targets s) t"
proof -
  let ?ts = "heartbeat_targets s" and ?live = "(\<lambda>(u, i). activityKey u i) ` set (heartbeat_targets s)"
  obtain s1 where s1: "pruneSessionState ?ts s = (Inr (), s1)" "beats s1 = beats s"
      "pendingActivity s1 = filter (\<lambda>k. k \<in> ?live) (pendingActivity s)"
    by (auto simp: pruneSessionState_def Let_def)
  have "distinct ?ts" by (simp add: heartbeat_targets_def first_of_each_def)
  from beats_effect [OF this assms, of E s1] obtain t where t: "for_each ?ts (beat E) s1 = (Inr (), t)"
      "beats t = beats s1 @ map (\<lambda>(u, i). (u, i, activityKey u i \<in> set (pendingActivity s1))) ?ts"
      "pendingActivity t = filter (\<lambda>k. k \<notin> ?live) (pendingActivity s1)"
    by blast
  have "confined ?ts s1" using confined_pruned [of ?ts s] by (simp add: s1(1))
  moreover have "always (confined ?ts) (for_each ?ts (beat E))" by (intro always_rules confined_beat)
  ultimately have "confined ?ts t" using t(1) by (blast dest: meetsD)
  moreover have "map (\<lambda>(u, i). (u, i, activityKey u i \<in> set (pendingActivity s1))) ?ts =
      map (\<lambda>(u, i). (u, i, activityKey u i \<in> set (pendingActivity s))) ?ts"
    by (auto simp: s1(3))
  ultimately show ?thesis
    using s1 t by (auto simp: heartbeatOnce_def bnd_run andthen_run)
qed

section \<open>Concrete cases\<close>

definition demo_worker :: worker_report where
  "demo_worker = \<lparr>wr_id = ''s1'', wr_host = Some ''10.0.0.1'', wr_status = ''ACTIVE''\<rparr>"

definition demo_env :: "unit sandbox_env" where
  "demo_env = \<lparr>defaultInstanceType = ''T3'', observableTtlMs = 300000, url_pathname = (\<lambda>_. None),
     w_requestSession = (\<lambda>_ _ w. (Inr demo_worker, w)), w_sendHeartbeat = (\<lambda>_ _ _ w. (Inr demo_worker, w)),
     w_findActiveSessions = (\<lambda>_ w. (Inr [demo_worker], w)),
     w_findAppSessions = (\<lambda>_ w. (Inr [\<lparr>ar_path = ''/sandbox/shiny/x'', ar_session = demo_worker\<rparr>], w)),
     w_associateApp = (\<lambda>_ i _ _ _ _ w. (Inr i, w)), w_dissociateApp = (\<lambda>_ _ _ w. (Inr (), w)),
     w_startServer = (\<lambda>_ _ _ w. (Inr (), w)), kernel_at = (\<lambda>_ _ _ w. (False, w))\<rparr>"

definition demo_target :: target where
  "demo_target = \<lparr>tg_host = ''10.0.0.1'', tg_port = 3838, tg_sessionId = ''s1''\<rparr>"

definition demo_close :: session_message where
  "demo_close = \<lparr>sm_username = Some ''ann'', sm_sessionId = Some ''s1'', sm_path = None, sm_clientId = None, sm_requestingClientId = None\<rparr>"

abbreviation demo_request :: "unit sandbox_event" where
  "demo_request \<equiv> Proxied_request (Some ''ann'') ''/api/sandbox/shiny/x/page?a=1'' None"

definition demo_routed :: "unit sandboxes \<Rightarrow> bool" where
  "demo_routed s \<longleftrightarrow> fst (sandbox_middleware demo_env (Some ''ann'') ''/api/sandbox/shiny/x/page?a=1'' None s) =
     Inr (Proxied demo_target ''/x/page?a=1'')"

lemma demo_routed_run:
  "demo_routed s \<Longrightarrow> sandbox_middleware demo_env (Some ''ann'') ''/api/sandbox/shiny/x/page?a=1'' None s =
     (Inr (Proxied demo_target ''/x/page?a=1''), snd (sandbox_middleware demo_env (Some ''ann'') ''/api/sandbox/shiny/x/page?a=1'' None s))"
  by (metis demo_routed_def prod.collapse)

lemma demo_first: "demo_routed (sandbox_history demo_env (sandboxes_start 0 ()) [])"
  by code_simp

definition demo_served :: "unit sandboxes" where
  "demo_served = \<lparr>sessionsByUsername = [(''ann'', [(''/sandbox/shiny/x'', \<lparr>se_sessionId = ''s1'', se_host = Some ''10.0.0.1'',
       se_status = ''ACTIVE'', se_endpoint = ''shiny'', se_appPath = ''/sandbox/shiny/x'', se_lastSeen = 0\<rparr>)])],
     kernelsByUsername = [], startedServers = [(''s1'', ''shiny'')], pendingActivity = [], unobservableUntil = [],
     interactionSeen = [], told = [(''ann'', ''s1'', Some ''10.0.0.1'')], beats = [], sb_now = 0, sb_world = ()\<rparr>"

definition demo_closed :: "unit sandboxes" where
  "demo_closed = demo_served\<lparr>sessionsByUsername := [], startedServers := []\<rparr>"

lemma demo_request_serves: "happens demo_env (sandboxes_start 0 ()) demo_request = demo_served"
  by code_simp

lemma demo_close_closes: "happens demo_env demo_served (Closed_message demo_close) = demo_closed"
  by code_simp

lemma demo_again: "demo_routed demo_closed"
  by code_simp

lemma demo_history:
  "sandbox_history demo_env (sandboxes_start 0 ()) [demo_request] = demo_served"
  "sandbox_history demo_env (sandboxes_start 0 ()) ([demo_request] @ Closed_message demo_close # []) = demo_closed"
  by (simp_all add: sandbox_history_def demo_request_serves demo_close_closes del: happens.simps)

theorem routed_sessions_were_named_witness:
  "(''ann'', ''s1'', Some ''10.0.0.1'') \<in> set (told (snd (sandbox_middleware demo_env (Some ''ann'')
     ''/api/sandbox/shiny/x/page?a=1'' None (sandbox_history demo_env (sandboxes_start 0 ()) []))))"
  using routed_sessions_were_named [OF demo_routed_run [OF demo_first]] by (simp add: demo_target_def)


theorem untouched_session_not_prolonged_witness:
  "(''ann'', ''s1'', True) \<notin> set (drop (length (beats demo_served))
     (beats (sandbox_history demo_env demo_served [demo_request, Heartbeat, demo_request, Heartbeat])))"
proof (rule untouched_session_not_prolonged)
  fix ev :: "unit sandbox_event"
  assume "ev \<in> set [demo_request, Heartbeat, demo_request, Heartbeat]"
  then show "\<not> reports (activityKey ''ann'' ''s1'') ev" by (auto simp: reports_def)
qed (simp_all add: demo_served_def)

theorem heartbeat_once_per_session_witness:
  "\<exists>t. heartbeatOnce demo_env demo_served = (Inr (), t) \<and> beats t = [(''ann'', ''s1'', False)]"
  using heartbeat_once_per_session [of demo_served demo_env]
  by (force simp: demo_served_def heartbeat_targets_def first_of_each_def)

end
