(* ===== verification/SocketsModel.thy ===== *)
theory SocketsModel
  imports SandboxRoutes GatewayModel
begin

text \<open>
  The gateway between the sockets of browsers and those of modules (\<^verbatim>\<open>modules/gateway/src/websocket*.js\<close>):
  the registry of clients, the registry of modules, what happens on either side and how events travel. The
  event bus delivers to its handler at once. A question to the user store is pending in \<open>lookups\<close> until it is
  answered, and answers may come in any order. \<open>sent\<close> and \<open>to_modules\<close> record what was sent, the former with
  the user of the client, \<open>announced\<close> the events of the bus and \<open>presence\<close> the arrivals and departures of users.
\<close>

section \<open>Data\<close>

datatype bus_event =
    MODULE_UP string
  | MODULE_DOWN string
  | USER_UP user
  | USER_DOWN user
  | CLIENT_UP string string                    \<comment> \<open>user, client\<close>
  | CLIENT_DOWN string string
  | CLIENT_VERSION_MISMATCH string string
  | SUBSCRIPTION_UP string string string string    \<comment> \<open>module, user, client, subscription\<close>
  | SUBSCRIPTION_DOWN string string string string
  | Gateway_event gateway_event
  | Updated_unknown                            \<comment> \<open>an update without a user\<close>
  | Session_event browser_event

text \<open>What a browser is told.\<close>

datatype browser_note =
    Module_note bool string
  | User_note gateway_event
  | Version_note
  | Invalidated_note string     \<comment> \<open>the reason\<close>
  | Session_note browser_event

datatype to_client =
    Hb int
  | Client_id string
  | Modules_state "string list"
  | Modules_update string bool
  | Event browser_note
  | Module_data string "string option" json   \<comment> \<open>module, subscription, data\<close>

datatype module_event =
    User_present bool "user option"
  | User_changed gateway_event
  | Client_present bool "user option" string
  | Subscribed bool "user option" string string

datatype to_module = Told module_event | Forwarded "user option" string string json | Echo int

text \<open>What the gateway asked the user store for.\<close>

datatype lookup =
    Arrival bool string
  | Client_news bool string string
  | Subscription_news bool string string string string
  | Module_user string string
  | Module_client string string string
  | Forward string string string string json

record socket_client =
  sc_username :: string
  sc_sessionId :: "string option"
  sc_open :: bool
  sc_subscriptions :: "(string \<times> string) list"

record sockets =
  clients :: "(string \<times> socket_client) list"
  servers :: "string list"
  counts :: "(string \<times> int) list"
  heartbeats :: "(string \<times> int) list"   \<comment> \<open>when a client replied last\<close>
  retries :: "string \<Rightarrow> nat"
  lookups :: "lookup list"
  sent :: "(string \<times> string \<times> to_client) list"
  closing :: "string list"               \<comment> \<open>to be closed once the event has left\<close>
  to_modules :: "(string \<times> to_module) list"
  announced :: "bus_event list"
  presence :: "(string \<times> bool) list"
  sk_now :: int

section \<open>The registry of clients\<close>

definition client :: "string \<Rightarrow> sockets \<Rightarrow> socket_client option" where
  "client c s = (if c = [] then None else map_of (clients s) c)"

definition has_client :: "string \<Rightarrow> sockets \<Rightarrow> bool" where
  "has_client c s \<longleftrightarrow> map_of (clients s) c \<noteq> None"

definition add_client :: "string \<Rightarrow> string \<Rightarrow> string option \<Rightarrow> sockets \<Rightarrow> sockets" where
  "add_client u c i s = s\<lparr>clients := map_set (clients s) c
     \<lparr>sc_username = u, sc_sessionId = i, sc_open = True, sc_subscriptions = []\<rparr>\<rparr>"

definition remove_client :: "string \<Rightarrow> sockets \<Rightarrow> sockets" where
  "remove_client c s = (if client c s = None then s else s\<lparr>clients := map_delete (clients s) c\<rparr>)"

definition on_client :: "string \<Rightarrow> (socket_client \<Rightarrow> socket_client) \<Rightarrow> sockets \<Rightarrow> sockets" where
  "on_client c f s = (case client c s of None \<Rightarrow> s | Some k \<Rightarrow> s\<lparr>clients := map_set (clients s) c (f k)\<rparr>)"

definition addSubscription :: "string \<Rightarrow> string \<Rightarrow> string \<Rightarrow> sockets \<Rightarrow> sockets" where
  "addSubscription c i m = on_client c (\<lambda>k. k\<lparr>sc_subscriptions := map_set (sc_subscriptions k) i m\<rparr>)"

definition removeSubscription :: "string \<Rightarrow> string \<Rightarrow> sockets \<Rightarrow> sockets" where
  "removeSubscription c i = on_client c (\<lambda>k. k\<lparr>sc_subscriptions := map_delete (sc_subscriptions k) i\<rparr>)"

definition getSubscriptions :: "string \<Rightarrow> sockets \<Rightarrow> (string \<times> string) list" where
  "getSubscriptions c s = (case client c s of None \<Rightarrow> [] | Some k \<Rightarrow> sc_subscriptions k)"

definition send_client :: "string \<Rightarrow> to_client \<Rightarrow> sockets \<Rightarrow> sockets" where
  "send_client c msg s = (case client c s of None \<Rightarrow> s
     | Some k \<Rightarrow> if sc_open k then s\<lparr>sent := sent s @ [(sc_username k, c, msg)]\<rparr> else s)"

definition each :: "'a list \<Rightarrow> ('a \<Rightarrow> sockets \<Rightarrow> sockets) \<Rightarrow> sockets \<Rightarrow> sockets" where
  "each xs f s = fold f xs s"

definition broadcast :: "to_client \<Rightarrow> sockets \<Rightarrow> sockets" where
  "broadcast msg s = each (map fst (clients s)) (\<lambda>c. send_client c msg) s"

definition sendByUsername :: "string \<Rightarrow> to_client \<Rightarrow> sockets \<Rightarrow> sockets" where
  "sendByUsername u msg s = each (map fst (filter (\<lambda>(c, k). sc_username k = u) (clients s))) (\<lambda>c. send_client c msg) s"

definition sendEvent :: "browser_note \<Rightarrow> string \<Rightarrow> string \<Rightarrow> sockets \<Rightarrow> sockets" where
  "sendEvent n u c s = each (map fst (filter (\<lambda>(c', k). (c = [] \<or> c' = c) \<and> (u = [] \<or> sc_username k = u)) (clients s)))
     (\<lambda>c. send_client c (Event n)) s"

definition sendEventToUser :: "string \<Rightarrow> browser_note \<Rightarrow> sockets \<Rightarrow> sockets" where
  "sendEventToUser u n = sendEvent n u []"

definition sendEventToClient :: "string \<Rightarrow> string \<Rightarrow> browser_note \<Rightarrow> sockets \<Rightarrow> sockets" where
  "sendEventToClient u c n = sendEvent n u c"

definition broadcastEvent :: "browser_note \<Rightarrow> sockets \<Rightarrow> sockets" where
  "broadcastEvent n = sendEvent n [] []"

text \<open>A client is closed once the event has left, so only one to which it could be sent.\<close>

definition send_then_close :: "string \<Rightarrow> to_client \<Rightarrow> sockets \<Rightarrow> sockets" where
  "send_then_close c msg s = (let t = send_client c msg s in
     if map_option sc_open (client c s) = Some True then t\<lparr>closing := closing t @ [c]\<rparr> else t)"

definition sendEventToSession :: "string \<Rightarrow> browser_note \<Rightarrow> sockets \<Rightarrow> sockets" where
  "sendEventToSession i n s = each (map fst (filter (\<lambda>(c, k). sc_sessionId k = Some i) (clients s)))
     (\<lambda>c. send_then_close c (Event n)) s"

definition users_of :: "sockets \<Rightarrow> string list" where
  "users_of s = first_of_each (map (\<lambda>(c, k). sc_username k) (clients s))"

section \<open>The registry of modules\<close>

definition add_server :: "string \<Rightarrow> sockets \<Rightarrow> sockets" where
  "add_server m s = (if m \<in> set (servers s) then s else s\<lparr>servers := servers s @ [m]\<rparr>)"

definition remove_server :: "string \<Rightarrow> sockets \<Rightarrow> sockets" where
  "remove_server m s = s\<lparr>servers := filter (\<lambda>m'. m' \<noteq> m) (servers s)\<rparr>"

definition send_server :: "string \<Rightarrow> to_module \<Rightarrow> sockets \<Rightarrow> sockets" where
  "send_server m msg s = (if m \<in> set (servers s) then s\<lparr>to_modules := to_modules s @ [(m, msg)]\<rparr> else s)"

definition broadcast_servers :: "module_event \<Rightarrow> sockets \<Rightarrow> sockets" where
  "broadcast_servers e s = each (servers s) (\<lambda>m. send_server m (Told e)) s"

section \<open>Events\<close>

definition ask :: "lookup \<Rightarrow> sockets \<Rightarrow> sockets" where
  "ask l s = s\<lparr>lookups := lookups s @ [l]\<rparr>"

definition moduleUp :: "string \<Rightarrow> sockets \<Rightarrow> sockets" where
  "moduleUp m s = (let s = broadcastEvent (Module_note True m) s; s = broadcast (Modules_update m True) s;
       s = each (users_of s) (\<lambda>u. ask (Module_user m u)) s
     in each (clients s) (\<lambda>(c, k). ask (Module_client m (sc_username k) c)) s)"

definition moduleDown :: "string \<Rightarrow> sockets \<Rightarrow> sockets" where
  "moduleDown m s = broadcast (Modules_update m False) (broadcastEvent (Module_note False m) s)"

fun gateway_event_user :: "gateway_event \<Rightarrow> string" where
  "gateway_event_user (LOGIN_SESSION_INVALIDATED n i reason) = n"
| "gateway_event_user (USER_UPDATED u) = usr_username u"
| "gateway_event_user (GOOGLE_ACCESS_TOKEN_ADDED u) = usr_username u"
| "gateway_event_user (GOOGLE_ACCESS_TOKEN_REMOVED u) = usr_username u"
| "gateway_event_user (GOOGLE_ACCESS_TOKEN_UPDATED u) = usr_username u"

definition userUpdated :: "gateway_event \<Rightarrow> sockets \<Rightarrow> sockets" where
  "userUpdated e s = sendEventToUser (gateway_event_user e) (User_note e) (broadcast_servers (User_changed e) s)"

fun browser_event_to :: "browser_event \<Rightarrow> sockets \<Rightarrow> sockets" where
  "browser_event_to (WORKER_SESSION_CLOSED u i) = sendEventToUser u (Session_note (WORKER_SESSION_CLOSED u i))"
| "browser_event_to (WORKER_SESSION_EXPIRY_NOTIFIED u i) = sendEventToUser u (Session_note (WORKER_SESSION_EXPIRY_NOTIFIED u i))"
| "browser_event_to (WORKER_SESSION_EXPIRY_CLOSED u i) = sendEventToUser u (Session_note (WORKER_SESSION_EXPIRY_CLOSED u i))"
| "browser_event_to (WORKER_SESSION_APP_DISSOCIATED u c p i) =
     sendEventToClient u c (Session_note (WORKER_SESSION_APP_DISSOCIATED u c p i))"

fun handleEvent :: "bus_event \<Rightarrow> sockets \<Rightarrow> sockets" where
  "handleEvent (MODULE_UP m) = moduleUp m"
| "handleEvent (MODULE_DOWN m) = moduleDown m"
| "handleEvent (USER_UP u) = broadcast_servers (User_present True (Some u))"
| "handleEvent (USER_DOWN u) = broadcast_servers (User_present False (Some u))"
| "handleEvent (CLIENT_UP u c) = ask (Client_news True u c)"
| "handleEvent (CLIENT_DOWN u c) = ask (Client_news False u c)"
| "handleEvent (CLIENT_VERSION_MISMATCH u c) = sendEventToClient u c Version_note"
| "handleEvent (SUBSCRIPTION_UP m u c i) = ask (Subscription_news True m u c i)"
| "handleEvent (SUBSCRIPTION_DOWN m u c i) = ask (Subscription_news False m u c i)"
| "handleEvent (Gateway_event e) = (case e of
     LOGIN_SESSION_INVALIDATED n i reason \<Rightarrow> sendEventToSession i (Invalidated_note reason) | _ \<Rightarrow> userUpdated e)"
| "handleEvent Updated_unknown = (\<lambda>s. s)"
| "handleEvent (Session_event e) = browser_event_to e"

definition next_event :: "bus_event \<Rightarrow> sockets \<Rightarrow> sockets" where
  "next_event e s = handleEvent e (s\<lparr>announced := announced s @ [e]\<rparr>)"

text \<open>The store answered with a user, or with none.\<close>

fun answered :: "lookup \<Rightarrow> user option \<Rightarrow> sockets \<Rightarrow> sockets" where
  "answered (Arrival up u) found = (case found of None \<Rightarrow> (\<lambda>s. s) | Some usr \<Rightarrow> next_event (if up then USER_UP usr else USER_DOWN usr))"
| "answered (Client_news up u c) found = broadcast_servers (Client_present up found c)"
| "answered (Subscription_news up m u c i) found = send_server m (Told (Subscribed up found c i))"
| "answered (Module_user m u) found = send_server m (Told (User_present True found))"
| "answered (Module_client m u c) found = send_server m (Told (Client_present True found c))"
| "answered (Forward m u c i d) found = send_server m (Forwarded found c i d)"

section \<open>Browsers\<close>

definition HEARTBEAT_INTERVAL_MS :: int where "HEARTBEAT_INTERVAL_MS = 10 * 1000"

definition count_of :: "string \<Rightarrow> sockets \<Rightarrow> int" where
  "count_of u s = (case map_of (counts s) u of None \<Rightarrow> 0 | Some n \<Rightarrow> n)"

text \<open>The count of a user's clients, which tells the first arrival and the last departure.\<close>

definition client_change :: "string \<Rightarrow> string \<Rightarrow> bool \<Rightarrow> sockets \<Rightarrow> sockets" where
  "client_change u c arrives s = (let n = count_of u s;
       s = s\<lparr>counts := map_set (counts s) u (n + (if arrives then 1 else -1)),
         heartbeats := (if arrives then heartbeats s else map_delete (heartbeats s) c)\<rparr>
     in if arrives \<and> n = 0 then ask (Arrival True u) (s\<lparr>presence := presence s @ [(u, True)]\<rparr>)
        else if \<not> arrives \<and> n = 1 then ask (Arrival False u) (s\<lparr>presence := presence s @ [(u, False)]\<rparr>)
        else s)"

definition onClientConnected :: "string \<Rightarrow> string \<Rightarrow> string option \<Rightarrow> sockets \<Rightarrow> sockets" where
  "onClientConnected u c i s = (let s = client_change u c True (add_client u c i s); s = send_client c (Client_id c) s;
       s = send_client c (Modules_state (servers s)) s
     in next_event (CLIENT_UP u c) s)"

definition disconnect :: "string \<Rightarrow> string \<Rightarrow> sockets \<Rightarrow> sockets" where
  "disconnect u c s = (if \<not> has_client c s then s
     else let s = client_change u c False s;
       s = each (getSubscriptions c s) (\<lambda>(i, m) s. next_event (SUBSCRIPTION_DOWN m u c i) (removeSubscription c i s)) s;
       s = next_event (CLIENT_DOWN u c) s
     in remove_client c s)"

record client_message =
  cm_version :: "string option"
  cm_hb :: bool
  cm_module :: string
  cm_subscriptionId :: string
  cm_subscribed :: bool
  cm_unsubscribed :: bool
  cm_data :: "json option"

definition onVersion :: "string \<Rightarrow> string \<Rightarrow> string \<Rightarrow> string \<Rightarrow> sockets \<Rightarrow> sockets" where
  "onVersion build u c v s = (if v \<noteq> build then next_event (CLIENT_VERSION_MISMATCH u c) s else s)"

definition onHeartbeat :: "string \<Rightarrow> sockets \<Rightarrow> sockets" where
  "onHeartbeat c s = (if has_client c s then s\<lparr>heartbeats := map_set (heartbeats s) c (sk_now s)\<rparr> else s)"

definition onSubscribed :: "string \<Rightarrow> string \<Rightarrow> string \<Rightarrow> string \<Rightarrow> sockets \<Rightarrow> sockets" where
  "onSubscribed u c i m s = next_event (SUBSCRIPTION_UP m u c i) (addSubscription c i m s)"

definition onUnsubscribed :: "string \<Rightarrow> string \<Rightarrow> string \<Rightarrow> string \<Rightarrow> sockets \<Rightarrow> sockets" where
  "onUnsubscribed u c i m s = next_event (SUBSCRIPTION_DOWN m u c i) (removeSubscription c i s)"

text \<open>A message that is no JSON is \<open>None\<close>.\<close>

definition onClientMessage :: "string \<Rightarrow> string \<Rightarrow> string \<Rightarrow> client_message option \<Rightarrow> sockets \<Rightarrow> sockets" where
  "onClientMessage build u c msg s = (case msg of None \<Rightarrow> s
     | Some x \<Rightarrow> (case cm_version x of
         Some v \<Rightarrow> onVersion build u c v s
       | None \<Rightarrow> if cm_hb x then onHeartbeat c s
           else if cm_subscribed x then onSubscribed u c (cm_subscriptionId x) (cm_module x) s
           else if cm_unsubscribed x then onUnsubscribed u c (cm_subscriptionId x) (cm_module x) s
           else (case cm_data x of None \<Rightarrow> s
             | Some d \<Rightarrow> ask (Forward (cm_module x) u c (cm_subscriptionId x) d) s)))"

section \<open>Modules\<close>

record server_message =
  vm_hb :: bool
  vm_ready :: bool
  vm_userUpdated :: "user option option"   \<comment> \<open>an update of a user, who may be missing\<close>
  vm_data :: "json option"
  vm_username :: string
  vm_clientId :: string
  vm_subscriptionId :: "string option"

definition onServerMessage :: "string \<Rightarrow> server_message \<Rightarrow> sockets \<Rightarrow> sockets" where
  "onServerMessage m x s = (let s = s\<lparr>retries := (retries s)(m := 0)\<rparr> in
     if vm_hb x then s
     else if vm_ready x then next_event (MODULE_UP m) s
     else (case vm_userUpdated x of
         Some (Some usr) \<Rightarrow> next_event (Gateway_event (USER_UPDATED usr)) s
       | Some None \<Rightarrow> next_event Updated_unknown s
       | None \<Rightarrow> (case vm_data x of None \<Rightarrow> s
           | Some d \<Rightarrow> if vm_clientId x \<noteq> [] then send_client (vm_clientId x) (Module_data m (vm_subscriptionId x) d) s
               else sendByUsername (vm_username x) (Module_data m None d) s)))"

text \<open>A failed connection is tried again; its first failure since a message is announced.\<close>

definition onRetry :: "string \<Rightarrow> sockets \<Rightarrow> sockets" where
  "onRetry m s = (let n = Suc (retries s m); s = s\<lparr>retries := (retries s)(m := n)\<rparr> in
     if n = 1 then next_event (MODULE_DOWN m) s else s)"

definition webSocketEndpoints :: "string list" where
  "webSocketEndpoints = [''user-files'', ''task-manager/task'', ''worker/session'', ''budget'', ''message'']"

definition sockets_start :: "int \<Rightarrow> sockets" where
  "sockets_start now = each webSocketEndpoints add_server \<lparr>clients = [], servers = [], counts = [], heartbeats = [],
     retries = (\<lambda>_. 0), lookups = [], sent = [], closing = [], to_modules = [], announced = [], presence = [], sk_now = now\<rparr>"

end
