(* ===== verification/SocketsSafety.thy ===== *)
theory SocketsSafety
  imports SocketsModel GatewaySessions
begin

text \<open>
  What the gateway promises of the sockets of browsers: users arrive and depart in turn, each client is
  announced and given up once with all its subscriptions, nobody is told of another user's sessions, and a
  lock closes the sockets of the sessions it ends. The sockets as a step relation, one step for each thing
  that may happen next.
\<close>

section \<open>Steps\<close>

definition session_events :: "session_message \<Rightarrow> browser_event list" where
  "session_events m = closed_events m @ dissociated_events m @ expiry_notified_handler m @ expiry_closed_handler m"

inductive socket_step :: "string \<Rightarrow> sockets \<Rightarrow> sockets \<Rightarrow> bool" for build :: string where
  connects: "c \<noteq> [] \<Longrightarrow> (\<And>v. CLIENT_UP v c \<notin> set (announced s)) \<Longrightarrow> socket_step build s (onClientConnected u c i s)"
| says: "CLIENT_UP u c \<in> set (announced s) \<Longrightarrow> socket_step build s (onClientMessage build u c msg s)"
| closes: "CLIENT_UP u c \<in> set (announced s) \<Longrightarrow> socket_step build s (disconnect u c s)"
| times_out: "(c, t) \<in> set (heartbeats s) \<Longrightarrow> t + 2 * HEARTBEAT_INTERVAL_MS \<le> sk_now s \<Longrightarrow> CLIENT_UP u c \<in> set (announced s) \<Longrightarrow>
    socket_step build s (disconnect u c s)"
| beats_client: "socket_step build s (send_client c (Hb (sk_now s)) s)"
| not_open: "socket_step build s (on_client c (\<lambda>k. k\<lparr>sc_open := False\<rparr>) s)"
| module_says: "socket_step build s (onServerMessage m x s)"
| module_fails: "socket_step build s (onRetry m s)"
| gateway_says: "socket_step build s (next_event (Gateway_event e) s)"
| session_says: "e \<in> set (session_events x) \<Longrightarrow> socket_step build s (next_event (Session_event e) s)"
| store_answers: "l \<in> set (lookups s) \<Longrightarrow> socket_step build s (answered l found (s\<lparr>lookups := remove1 l (lookups s)\<rparr>))"
| store_fails: "l \<in> set (lookups s) \<Longrightarrow> socket_step build s (s\<lparr>lookups := remove1 l (lookups s)\<rparr>)"
| time: "0 \<le> d \<Longrightarrow> socket_step build s (s\<lparr>sk_now := sk_now s + d\<rparr>)"

definition socket_reachable :: "string \<Rightarrow> sockets \<Rightarrow> bool" where
  "socket_reachable build s \<longleftrightarrow> (\<exists>now. (socket_step build)\<^sup>*\<^sup>* (sockets_start now) s)"

lemma socket_reachable_induct:
  assumes "socket_reachable build s" and "\<And>now. I (sockets_start now)"
    and "\<And>s t. socket_step build s t \<Longrightarrow> I s \<Longrightarrow> I t"
  shows "I s"
proof -
  from assms(1) obtain now where "(socket_step build)\<^sup>*\<^sup>* (sockets_start now) s" by (auto simp: socket_reachable_def)
  then show ?thesis by (induction rule: rtranclp_induct) (auto intro: assms(2,3))
qed

section \<open>What an event leaves alone\<close>

lemma each_inv: "(\<And>x s. x \<in> set xs \<Longrightarrow> I s \<Longrightarrow> I (g x s)) \<Longrightarrow> I s \<Longrightarrow> I (each xs g s)"
  unfolding each_def by (induction xs arbitrary: s) auto

lemma each_Nil [simp]: "each [] g s = s"
  by (simp add: each_def)

lemma each_Cons [simp]: "each (x # xs) g s = each xs g (g x s)"
  by (simp add: each_def)

text \<open>The part of the state that no event changes.\<close>

definition registry_same :: "sockets \<Rightarrow> sockets \<Rightarrow> bool" where
  "registry_same s t \<longleftrightarrow> clients t = clients s \<and> servers t = servers s \<and> counts t = counts s \<and> heartbeats t = heartbeats s \<and>
     announced t = announced s \<and> presence t = presence s"

lemma registry_same_refl: "registry_same s s"
  by (simp add: registry_same_def)

lemma registry_same_trans: "registry_same s t \<Longrightarrow> registry_same t u \<Longrightarrow> registry_same s u"
  by (simp add: registry_same_def)

lemma registry_same_each: "(\<And>x s. registry_same s (g x s)) \<Longrightarrow> registry_same s (each xs g s)"
  by (rule each_inv [where I = "registry_same s"]) (blast intro: registry_same_trans registry_same_refl)+

lemma registry_same_send: "registry_same s (send_client c msg s)"
  by (simp add: send_client_def registry_same_def split: option.splits)

lemma registry_same_server: "registry_same s (send_server m msg s)"
  by (simp add: send_server_def registry_same_def)

lemma registry_same_ask: "registry_same s (ask l s)"
  by (simp add: ask_def registry_same_def)

lemma registry_same_sendEvent: "registry_same s (sendEvent n u c s)"
  unfolding sendEvent_def by (rule registry_same_each) (rule registry_same_send)

lemma registry_same_sendEventToSession: "registry_same s (sendEventToSession i n s)"
proof -
  have "registry_same t (send_then_close c m t)" for c m t
    using registry_same_send [of t c m] by (simp add: send_then_close_def registry_same_def Let_def)
  then show ?thesis unfolding sendEventToSession_def by (rule registry_same_each)
qed

lemma registry_same_broadcast: "registry_same s (broadcast msg s)"
  unfolding broadcast_def by (rule registry_same_each) (rule registry_same_send)

lemma registry_same_servers: "registry_same s (broadcast_servers e s)"
  unfolding broadcast_servers_def by (rule registry_same_each) (rule registry_same_server)

lemma registry_same_handleEvent: "registry_same s (handleEvent e s)"
proof (cases e)
  case (MODULE_UP m)
  have "registry_same t (each (clients t) (\<lambda>(c, k). ask (Module_client m (sc_username k) c)) t)" for t
    by (rule registry_same_each) (auto simp: registry_same_ask)
  moreover have "registry_same t (each (users_of t) (\<lambda>u. ask (Module_user m u)) t)" for t
    by (rule registry_same_each) (rule registry_same_ask)
  moreover have "registry_same t (broadcast msg (sendEvent n u c t))" for msg n u c t
    by (rule registry_same_trans [OF registry_same_sendEvent registry_same_broadcast])
  ultimately show ?thesis
    unfolding MODULE_UP handleEvent.simps moduleUp_def broadcastEvent_def Let_def
    by (meson registry_same_trans)
next
  case (MODULE_DOWN m)
  then show ?thesis
    by (simp add: moduleDown_def broadcastEvent_def registry_same_trans [OF registry_same_sendEvent registry_same_broadcast])
next
  case (Gateway_event g)
  then show ?thesis
    by (cases g) (simp_all add: userUpdated_def sendEventToUser_def registry_same_sendEventToSession
      registry_same_trans [OF registry_same_servers registry_same_sendEvent])
next
  case (Session_event b)
  then show ?thesis
    by (cases b) (auto simp: sendEventToUser_def sendEventToClient_def registry_same_sendEvent)
qed (auto simp: registry_same_servers registry_same_ask registry_same_refl sendEventToClient_def registry_same_sendEvent)

lemma next_event_fields [simp]:
  "clients (next_event e s) = clients s" "servers (next_event e s) = servers s" "counts (next_event e s) = counts s"
  "heartbeats (next_event e s) = heartbeats s" "presence (next_event e s) = presence s"
  "announced (next_event e s) = announced s @ [e]"
  using registry_same_handleEvent [of "s\<lparr>announced := announced s @ [e]\<rparr>" e]
  by (simp_all add: next_event_def registry_same_def)

lemma send_client_fields [simp]:
  "clients (send_client c msg s) = clients s" "servers (send_client c msg s) = servers s" "counts (send_client c msg s) = counts s"
  "heartbeats (send_client c msg s) = heartbeats s" "presence (send_client c msg s) = presence s"
  "announced (send_client c msg s) = announced s"
  using registry_same_send [of s c msg] by (simp_all add: registry_same_def)

lemma ask_fields [simp]:
  "clients (ask l s) = clients s" "servers (ask l s) = servers s" "counts (ask l s) = counts s"
  "heartbeats (ask l s) = heartbeats s" "presence (ask l s) = presence s" "announced (ask l s) = announced s"
  by (simp_all add: ask_def)

section \<open>Clients and their users\<close>

definition names :: "sockets \<Rightarrow> (string \<times> string) list" where
  "names s = map (\<lambda>(c, k). (c, sc_username k)) (clients s)"

lemma map_names_map_set:
  assumes "map_of m c = Some k" and "f k' = f k"
  shows "map (\<lambda>(c, k). (c, f k)) (map_set m c k') = map (\<lambda>(c, k). (c, f k)) m"
  using assms by (induction m c k' rule: map_set.induct) auto

lemma map_set_new: "map_of m c = None \<Longrightarrow> map_set m c k = m @ [(c, k)]"
  by (induction m c k rule: map_set.induct) (auto split: if_splits)

lemma names_on_client:
  "(\<And>k. sc_username (f k) = sc_username k) \<Longrightarrow> names (on_client c f s) = names s"
  by (auto simp: names_def on_client_def client_def map_names_map_set split: option.splits if_splits)

lemma on_client_fields [simp]:
  "counts (on_client c f s) = counts s" "heartbeats (on_client c f s) = heartbeats s"
  "presence (on_client c f s) = presence s" "announced (on_client c f s) = announced s"
  "lookups (on_client c f s) = lookups s" "sent (on_client c f s) = sent s" "servers (on_client c f s) = servers s"
  by (simp_all add: on_client_def split: option.splits)

lemma removeSubscription_fields [simp]:
  "names (removeSubscription c i s) = names s" "counts (removeSubscription c i s) = counts s"
  "presence (removeSubscription c i s) = presence s" "announced (removeSubscription c i s) = announced s"
  by (simp_all add: removeSubscription_def names_on_client)

lemma names_client_change [simp]: "names (client_change u c b s) = names s"
  by (simp add: client_change_def names_def Let_def)

lemma client_change_fields [simp]:
  "announced (client_change u c b s) = announced s" "servers (client_change u c b s) = servers s"
  "clients (client_change u c b s) = clients s"
  "counts (client_change u c b s) = map_set (counts s) u (count_of u s + (if b then 1 else -1))"
  "presence (client_change u c b s) = presence s @
     (if b \<and> count_of u s = 0 then [(u, True)] else if \<not> b \<and> count_of u s = 1 then [(u, False)] else [])"
  by (simp_all add: client_change_def Let_def)

lemma names_next_event [simp]: "names (next_event e s) = names s"
  by (simp add: names_def)

lemma names_send [simp]: "names (send_client c msg s) = names s"
  by (simp add: names_def)

lemma map_of_names: "map_of (names s) c = map_option sc_username (map_of (clients s) c)"
  unfolding names_def by (induction "clients s" rule: list.induct) (auto simp: map_of_map)

lemma onClientConnected_effect:
  assumes "map_of (clients s) c = None"
  shows "names (onClientConnected u c i s) = names s @ [(c, u)]"
    and "counts (onClientConnected u c i s) = map_set (counts s) u (count_of u s + 1)"
    and "presence (onClientConnected u c i s) = presence s @ (if count_of u s = 0 then [(u, True)] else [])"
    and "announced (onClientConnected u c i s) = announced s @ [CLIENT_UP u c]"
  using assms
  by (simp_all add: onClientConnected_def Let_def names_def add_client_def map_set_new count_of_def)

text \<open>Every subscription is given up before its client.\<close>

lemma subscriptions_down:
  "\<exists>t. each xs (\<lambda>(i, m) s. next_event (SUBSCRIPTION_DOWN m u c i) (removeSubscription c i s)) s = t \<and>
     names t = names s \<and> counts t = counts s \<and> presence t = presence s \<and>
     announced t = announced s @ map (\<lambda>(i, m). SUBSCRIPTION_DOWN m u c i) xs"
  by (induction xs arbitrary: s) (auto split: prod.splits)

lemma names_remove_client: "c \<noteq> [] \<Longrightarrow> names (remove_client c s) = filter (\<lambda>p. fst p \<noteq> c) (names s)"
proof -
  assume "c \<noteq> []"
  have "filter (\<lambda>p. fst p \<noteq> c) m = m" if "map_of m c = None" for m :: "(string \<times> socket_client) list"
    using that by (induction m) (auto split: if_splits)
  with \<open>c \<noteq> []\<close> show ?thesis
    by (auto simp: remove_client_def client_def names_def map_delete_def filter_map comp_def split_def)
qed

lemma remove_client_fields [simp]:
  "counts (remove_client c s) = counts s" "presence (remove_client c s) = presence s" "announced (remove_client c s) = announced s"
  by (simp_all add: remove_client_def)

lemma disconnect_effect:
  assumes "map_of (clients s) c = Some k" and "c \<noteq> []"
  shows "names (disconnect u c s) = filter (\<lambda>p. fst p \<noteq> c) (names s)"
    and "counts (disconnect u c s) = map_set (counts s) u (count_of u s - 1)"
    and "presence (disconnect u c s) = presence s @ (if count_of u s = 1 then [(u, False)] else [])"
    and "announced (disconnect u c s) = announced s @ map (\<lambda>(i, m). SUBSCRIPTION_DOWN m u c i) (sc_subscriptions k) @ [CLIENT_DOWN u c]"
proof -
  let ?s = "client_change u c False s"
  obtain t where t: "each (getSubscriptions c ?s) (\<lambda>(i, m) s. next_event (SUBSCRIPTION_DOWN m u c i) (removeSubscription c i s)) ?s = t"
    "names t = names s" "counts t = counts ?s" "presence t = presence ?s"
    "announced t = announced s @ map (\<lambda>(i, m). SUBSCRIPTION_DOWN m u c i) (getSubscriptions c ?s)"
    using subscriptions_down [of "getSubscriptions c ?s" u c ?s] by auto
  have subs: "getSubscriptions c ?s = sc_subscriptions k"
    using assms by (simp add: getSubscriptions_def client_def)
  from assms(1) have d: "disconnect u c s = remove_client c (next_event (CLIENT_DOWN u c) t)"
    using t(1) by (simp add: disconnect_def has_client_def Let_def)
  show "names (disconnect u c s) = filter (\<lambda>p. fst p \<noteq> c) (names s)"
    unfolding d by (simp add: names_remove_client [OF assms(2)] t(2))
  show "counts (disconnect u c s) = map_set (counts s) u (count_of u s - 1)" unfolding d by (simp add: t(3))
  show "presence (disconnect u c s) = presence s @ (if count_of u s = 1 then [(u, False)] else [])" unfolding d by (simp add: t(4))
  show "announced (disconnect u c s) = announced s @ map (\<lambda>(i, m). SUBSCRIPTION_DOWN m u c i) (sc_subscriptions k) @ [CLIENT_DOWN u c]"
    unfolding d by (simp add: t(5) subs)
qed

section \<open>Arrivals and departures\<close>

definition client_news :: "bus_event \<Rightarrow> bool" where
  "client_news e \<longleftrightarrow> (\<exists>u c. e = CLIENT_UP u c \<or> e = CLIENT_DOWN u c)"

text \<open>A step inside: no client comes or goes.\<close>

definition inner :: "sockets \<Rightarrow> sockets \<Rightarrow> bool" where
  "inner s t \<longleftrightarrow> names t = names s \<and> counts t = counts s \<and> presence t = presence s \<and>
     (\<exists>es. announced t = announced s @ es \<and> (\<forall>e \<in> set es. \<not> client_news e))"

lemma inner_event: "inner s t \<Longrightarrow> \<not> client_news e \<Longrightarrow> inner s (next_event e t)"
  by (auto simp: inner_def)

lemma inner_refl: "inner s s"
  by (simp add: inner_def)

lemma inner_same: "registry_same s t \<Longrightarrow> inner s t"
  by (simp add: inner_def registry_same_def names_def)

lemma inner_onClientMessage: "inner s (onClientMessage build u c msg s)"
proof -
  have subs: "inner s (addSubscription c i m s)" "inner s (removeSubscription c i s)" for i m
    by (simp_all add: inner_def addSubscription_def names_on_client)
  have reply: "inner s (s\<lparr>heartbeats := h\<rparr>)" for h
    by (simp add: inner_def names_def)
  show ?thesis
    unfolding onClientMessage_def onVersion_def onHeartbeat_def onSubscribed_def onUnsubscribed_def
    by (auto simp: client_news_def split: option.splits
        intro!: inner_event subs reply inner_refl inner_same [OF registry_same_ask])
qed

lemma inner_onServerMessage: "inner s (onServerMessage m x s)"
proof -
  have r: "inner s (s\<lparr>retries := f\<rparr>)" for f by (simp add: inner_def names_def)
  have b: "inner s (sendByUsername u msg (s\<lparr>retries := f\<rparr>))" for u msg f
  proof (rule inner_same)
    have "registry_same (s\<lparr>retries := f\<rparr>) (sendByUsername u msg (s\<lparr>retries := f\<rparr>))"
      unfolding sendByUsername_def by (rule registry_same_each) (rule registry_same_send)
    then show "registry_same s (sendByUsername u msg (s\<lparr>retries := f\<rparr>))" by (simp add: registry_same_def)
  qed
  have c: "inner s (send_client c msg (s\<lparr>retries := f\<rparr>))" for c msg f
    by (simp add: inner_def names_def)
  show ?thesis
    unfolding onServerMessage_def Let_def
    by (auto simp: client_news_def split: option.splits intro!: inner_event r b c)
qed

lemma inner_answered: "inner s (answered l found (s\<lparr>lookups := ls\<rparr>))"
proof -
  have same: "inner s t" if "registry_same (s\<lparr>lookups := ls\<rparr>) t" for t
    using that by (simp add: inner_def registry_same_def names_def)
  have r: "inner s (s\<lparr>lookups := ls\<rparr>)" by (simp add: inner_def names_def)
  show ?thesis
    by (cases l) (auto simp: client_news_def split: option.splits
      intro!: inner_event r same [OF registry_same_servers] same [OF registry_same_server])
qed

lemma socket_step_cases:
  assumes "socket_step build s t"
  obtains u c i where "c \<noteq> []" "\<And>v. CLIENT_UP v c \<notin> set (announced s)" "t = onClientConnected u c i s"
  | u c where "CLIENT_UP u c \<in> set (announced s)" "t = disconnect u c s"
  | "inner s t"
  using assms
proof cases
  case (module_fails m)
  have "inner s (s\<lparr>retries := f\<rparr>)" for f by (simp add: inner_def names_def)
  then have "inner s t"
    unfolding module_fails onRetry_def Let_def by (auto simp: client_news_def intro: inner_event)
  then show ?thesis by (rule that(3))
next
  case (store_fails l)
  with that(3) show ?thesis by (simp add: inner_def names_def)
next
  case (not_open c)
  have "inner s t" unfolding not_open by (simp add: inner_def names_on_client)
  then show ?thesis by (rule that(3))
qed (auto simp: names_on_client inner_def intro: that inner_onClientMessage inner_onServerMessage inner_answered
    intro!: inner_event [OF inner_refl] simp: client_news_def names_def)

text \<open>Who is connected is who was announced; a user counts as many clients as are connected.\<close>

fun alternates :: "bool \<Rightarrow> bool list \<Rightarrow> bool" where
  "alternates b [] = True"
| "alternates b (x # xs) = (x = b \<and> alternates (\<not> b) xs)"

definition presence_of :: "string \<Rightarrow> sockets \<Rightarrow> bool list" where
  "presence_of u s = map snd (filter (\<lambda>p. fst p = u) (presence s))"

definition clients_of :: "string \<Rightarrow> sockets \<Rightarrow> nat" where
  "clients_of u s = length (filter (\<lambda>p. snd p = u) (names s))"

definition ups :: "string \<Rightarrow> sockets \<Rightarrow> nat" where
  "ups c s = length (filter (\<lambda>e. \<exists>u. e = CLIENT_UP u c) (announced s))"

definition downs :: "string \<Rightarrow> sockets \<Rightarrow> nat" where
  "downs c s = length (filter (\<lambda>e. \<exists>u. e = CLIENT_DOWN u c) (announced s))"

definition connected_as :: "string \<Rightarrow> string \<Rightarrow> sockets \<Rightarrow> bool" where
  "connected_as u c s \<longleftrightarrow> (c, u) \<in> set (names s)"

definition well_registered :: "sockets \<Rightarrow> bool" where
  "well_registered s \<longleftrightarrow> distinct (map fst (names s)) \<and>
     (\<forall>(c, u) \<in> set (names s). c \<noteq> [] \<and> CLIENT_UP u c \<in> set (announced s)) \<and>
     (\<forall>u v c. CLIENT_UP u c \<in> set (announced s) \<longrightarrow> CLIENT_UP v c \<in> set (announced s) \<longrightarrow> u = v) \<and>
     (\<forall>u. count_of u s = int (clients_of u s)) \<and>
     (\<forall>u. alternates True (presence_of u s) \<and> (0 < clients_of u s \<longleftrightarrow> presence_of u s \<noteq> [] \<and> last (presence_of u s))) \<and>
     (\<forall>c. ups c s \<le> 1 \<and> ups c s = downs c s + (if c \<in> fst ` set (names s) then 1 else 0))"

lemma alternates_snoc: "alternates b (xs @ [x]) \<longleftrightarrow> alternates b xs \<and> (if xs = [] then x = b else x = (\<not> last xs))"
  by (induction xs arbitrary: b) (auto simp: neq_Nil_conv)

lemma well_registered_inner:
  assumes "well_registered s" and "inner s t"
  shows "well_registered t"
proof -
  from assms(2) obtain es where es: "announced t = announced s @ es" "\<forall>e \<in> set es. \<not> client_news e"
    by (auto simp: inner_def)
  then have up: "CLIENT_UP u c \<in> set (announced t) \<longleftrightarrow> CLIENT_UP u c \<in> set (announced s)" for u c
    by (auto simp: client_news_def)
  from es have "filter (\<lambda>e. \<exists>u. e = CLIENT_UP u c) es = []" "filter (\<lambda>e. \<exists>u. e = CLIENT_DOWN u c) es = []" for c
    by (auto simp: client_news_def filter_empty_conv)
  then have n: "ups c t = ups c s" "downs c t = downs c s" for c
    by (simp_all add: ups_def downs_def es(1))
  from assms(2) have same: "names t = names s" "counts t = counts s" "presence t = presence s" by (simp_all add: inner_def)
  have f: "count_of u t = count_of u s" "clients_of u t = clients_of u s" "presence_of u t = presence_of u s" for u
    by (simp_all add: count_of_def clients_of_def presence_of_def same)
  from assms(1) show ?thesis
    unfolding well_registered_def up n f same .
qed

lemma count_of_map_set: "counts t = map_set (counts s) u n \<Longrightarrow> count_of v t = (if v = u then n else count_of v s)"
  by (simp add: count_of_def map_of_map_set)

lemma map_of_names_None: "map_of (clients s) c = None \<longleftrightarrow> c \<notin> fst ` set (names s)"
  by (force simp: map_of_eq_None_iff names_def)

lemma well_registered_balance:
  "well_registered s \<Longrightarrow> ups c s \<le> 1 \<and> ups c s = downs c s + (if c \<in> fst ` set (names s) then 1 else 0)"
  unfolding well_registered_def by blast

lemma well_registered_connect:
  assumes "well_registered s" and "c \<noteq> []" and new: "\<And>v. CLIENT_UP v c \<notin> set (announced s)"
  shows "well_registered (onClientConnected u c i s)" (is "well_registered ?t")
proof -
  from assms(1) new have fresh: "c \<notin> fst ` set (names s)" by (fastforce simp: well_registered_def)
  then have none: "map_of (clients s) c = None" by (simp add: map_of_names_None)
  note e = onClientConnected_effect [OF none, of u i]
  have count: "count_of v ?t = (if v = u then count_of u s + 1 else count_of v s)" for v
    using e(2) by (rule count_of_map_set)
  have clients: "clients_of v ?t = (if v = u then Suc (clients_of v s) else clients_of v s)" for v
    by (simp add: clients_of_def e(1))
  have pres: "presence_of v ?t = presence_of v s @ (if v = u \<and> count_of u s = 0 then [True] else [])" for v
    by (simp add: presence_of_def e(3))
  have "ups c s = 0" using new by (auto simp: ups_def filter_empty_conv)
  then have up: "ups d ?t = (if d = c then 1 else ups d s)" "downs d ?t = downs d s" for d
    by (auto simp: ups_def downs_def e(4))
  have alt: "alternates True (presence_of v ?t) \<and> (0 < clients_of v ?t \<longleftrightarrow> presence_of v ?t \<noteq> [] \<and> last (presence_of v ?t))" for v
  proof -
    from assms(1) have "alternates True (presence_of v s)" "count_of u s = int (clients_of u s)"
        "0 < clients_of v s \<longleftrightarrow> presence_of v s \<noteq> [] \<and> last (presence_of v s)"
      by (simp_all add: well_registered_def)
    then show ?thesis unfolding pres clients by (cases "v = u") (auto simp: alternates_snoc)
  qed
  have bal: "ups d ?t \<le> 1 \<and> ups d ?t = downs d ?t + (if d \<in> fst ` set (names ?t) then 1 else 0)" for d
  proof -
    note b = well_registered_balance [OF assms(1)]
    from b [of c] b [of d] fresh \<open>ups c s = 0\<close> show ?thesis
      unfolding up e(1) by (cases "d = c") (auto split: if_splits)
  qed
  have "distinct (map fst (names ?t))" using assms(1) fresh by (simp add: e(1) well_registered_def image_iff)
  moreover have "\<forall>(d, v) \<in> set (names ?t). d \<noteq> [] \<and> CLIENT_UP v d \<in> set (announced ?t)"
    using assms(1,2) unfolding well_registered_def e(1,4) by auto
  moreover have "\<forall>v w d. CLIENT_UP v d \<in> set (announced ?t) \<longrightarrow> CLIENT_UP w d \<in> set (announced ?t) \<longrightarrow> v = w"
    using assms(1) new unfolding well_registered_def e(4) by auto
  moreover have "\<forall>v. count_of v ?t = int (clients_of v ?t)"
    using assms(1) unfolding well_registered_def count clients by auto
  ultimately show ?thesis
    using alt bal unfolding well_registered_def by blast
qed

lemma well_registered_disconnect:
  assumes "well_registered s" and announced: "CLIENT_UP u c \<in> set (announced s)"
  shows "well_registered (disconnect u c s)" (is "well_registered ?t")
proof (cases "map_of (clients s) c")
  case None
  then have "?t = s" by (simp add: disconnect_def has_client_def)
  with assms(1) show ?thesis by simp
next
  case (Some k)
  have d: "distinct (map fst (names s))" using assms(1) by (simp add: well_registered_def)
  have "(c, sc_username k) \<in> set (names s)" using Some by (force simp: names_def dest: map_of_SomeD)
  with assms have user: "sc_username k = u" and c: "c \<noteq> []" by (fastforce simp: well_registered_def)+
  with \<open>(c, sc_username k) \<in> set (names s)\<close> have inn: "(c, u) \<in> set (names s)" by simp
  note e = disconnect_effect [OF Some c, of u]
  have count: "count_of v ?t = (if v = u then count_of u s - 1 else count_of v s)" for v
    using e(2) by (rule count_of_map_set)
  have split: "\<exists>xs ys. names s = xs @ (c, u) # ys \<and> filter (\<lambda>p. fst p \<noteq> c) (names s) = xs @ ys"
  proof -
    from inn obtain xs ys where n: "names s = xs @ (c, u) # ys" by (auto dest: split_list)
    with d have "filter (\<lambda>p. fst p \<noteq> c) xs = xs" "filter (\<lambda>p. fst p \<noteq> c) ys = ys"
      by (auto simp: filter_id_conv rev_image_eqI)
    with n show ?thesis by auto
  qed
  then obtain xs ys where n: "names s = xs @ (c, u) # ys" and f: "filter (\<lambda>p. fst p \<noteq> c) (names s) = xs @ ys" by blast
  have clients: "clients_of v s = (if v = u then Suc (clients_of v ?t) else clients_of v ?t)" for v
    unfolding clients_of_def e(1) f unfolding n by simp
  have pres: "presence_of v ?t = presence_of v s @ (if v = u \<and> count_of u s = 1 then [False] else [])" for v
    by (simp add: presence_of_def e(3))
  have up: "ups b ?t = ups b s" "downs b ?t = downs b s + (if b = c then 1 else 0)" for b
    by (auto simp: ups_def downs_def e(4) filter_empty_conv split: prod.splits)
  have alt: "alternates True (presence_of v ?t) \<and> (0 < clients_of v ?t \<longleftrightarrow> presence_of v ?t \<noteq> [] \<and> last (presence_of v ?t))" for v
  proof -
    from assms(1) have "alternates True (presence_of v s)" "count_of u s = int (clients_of u s)"
        "0 < clients_of v s \<longleftrightarrow> presence_of v s \<noteq> [] \<and> last (presence_of v s)"
      by (simp_all add: well_registered_def)
    then show ?thesis using clients [of v] unfolding pres by (cases "v = u") (auto simp: alternates_snoc)
  qed
  have bal: "ups b ?t \<le> 1 \<and> ups b ?t = downs b ?t + (if b \<in> fst ` set (names ?t) then 1 else 0)" for b
  proof -
    have "ups b s \<le> 1 \<and> ups b s = downs b s + (if b \<in> fst ` set (names s) then 1 else 0)"
      by (rule well_registered_balance [OF assms(1)])
    moreover have "c \<in> fst ` set (names s)" using inn by force
    ultimately show ?thesis unfolding up e(1) by (cases "b = c") (auto simp: image_iff)
  qed
  have "distinct (map fst (names ?t))" using d by (simp add: e(1) distinct_map_filter)
  moreover have "\<forall>(b, v) \<in> set (names ?t). b \<noteq> [] \<and> CLIENT_UP v b \<in> set (announced ?t)"
    using assms(1) unfolding well_registered_def e(1,4) by auto
  moreover have "\<forall>v w b. CLIENT_UP v b \<in> set (announced ?t) \<longrightarrow> CLIENT_UP w b \<in> set (announced ?t) \<longrightarrow> v = w"
  proof -
    have "CLIENT_UP v b \<in> set (announced ?t) \<longleftrightarrow> CLIENT_UP v b \<in> set (announced s)" for v b
      unfolding e(4) by auto
    with assms(1) show ?thesis unfolding well_registered_def by blast
  qed
  moreover have "\<forall>v. count_of v ?t = int (clients_of v ?t)"
    using assms(1) clients unfolding well_registered_def count by auto
  ultimately show ?thesis
    using alt bal unfolding well_registered_def by blast
qed

lemma sockets_start_fields:
  "clients (sockets_start now) = []" "announced (sockets_start now) = []" "presence (sockets_start now) = []"
  "counts (sockets_start now) = []" "sent (sockets_start now) = []" "closing (sockets_start now) = []"
  by (simp_all add: sockets_start_def webSocketEndpoints_def add_server_def)

lemma well_registered_step:
  assumes "socket_step build s t" and "well_registered s"
  shows "well_registered t"
  using assms(1)
  by (cases rule: socket_step_cases) (use assms(2) in \<open>auto intro: well_registered_connect well_registered_disconnect well_registered_inner\<close>)

lemma well_registered_reachable: "socket_reachable build s \<Longrightarrow> well_registered s"
proof (rule socket_reachable_induct [where I = well_registered])
  fix now
  show "well_registered (sockets_start now)"
    by (simp add: well_registered_def names_def sockets_start_fields count_of_def clients_of_def presence_of_def ups_def downs_def)
qed (auto intro: well_registered_step)

text \<open>
  C35: However sockets come and go, the arrivals and departures of a user alternate, beginning with an arrival,
  and the last is an arrival exactly while a client of the user is connected.
\<close>

theorem users_arrive_and_depart:
  assumes "socket_reachable build s"
  shows "alternates True (presence_of u s) \<and>
    ((\<exists>c. connected_as u c s) \<longleftrightarrow> presence_of u s \<noteq> [] \<and> last (presence_of u s))"
proof -
  have "0 < clients_of u s \<longleftrightarrow> (\<exists>c. connected_as u c s)"
    by (force simp: clients_of_def connected_as_def filter_empty_conv)
  with well_registered_reachable [OF assms] show ?thesis by (simp add: well_registered_def)
qed

text \<open>
  C34: A client is announced at most once and given up at most once, it is connected exactly between the two,
  and when it goes each of its subscriptions is given up before it.
\<close>

theorem client_announced_once:
  assumes "socket_reachable build s"
  shows "ups c s \<le> 1 \<and> ups c s = downs c s + (if \<exists>u. connected_as u c s then 1 else 0) \<and>
    (\<forall>k. map_of (clients s) c = Some k \<longrightarrow>
       announced (disconnect (sc_username k) c s) = announced s @
         map (\<lambda>(i, m). SUBSCRIPTION_DOWN m (sc_username k) c i) (sc_subscriptions k) @ [CLIENT_DOWN (sc_username k) c] \<and>
       (\<nexists>u. connected_as u c (disconnect (sc_username k) c s)))"
proof -
  from well_registered_reachable [OF assms] have w: "well_registered s" .
  then have c: "c \<noteq> []" if "map_of (clients s) c = Some k" for k
    using that by (force simp: well_registered_def names_def dest: map_of_SomeD)
  have "(\<exists>u. connected_as u c s) \<longleftrightarrow> c \<in> fst ` set (names s)" by (force simp: connected_as_def)
  moreover have "\<nexists>u. connected_as u c (disconnect v c s)" if "map_of (clients s) c = Some k" for k v
    using disconnect_effect(1) [OF that c [OF that], of v] by (auto simp: connected_as_def)
  moreover have "announced (disconnect v c s) = announced s @ map (\<lambda>(i, m). SUBSCRIPTION_DOWN m v c i) (sc_subscriptions k) @ [CLIENT_DOWN v c]"
    if "map_of (clients s) c = Some k" for k v
    by (rule disconnect_effect(4) [OF that c [OF that]])
  ultimately show ?thesis
    using well_registered_balance [OF w, of c] by auto
qed

section \<open>Who is told\<close>

text \<open>What concerns a user's sessions goes to that user, what concerns a client to that client.\<close>

fun addressed :: "string \<times> string \<times> to_client \<Rightarrow> bool" where
  "addressed (v, c, Event (Session_note (WORKER_SESSION_CLOSED u i))) = (v = u)"
| "addressed (v, c, Event (Session_note (WORKER_SESSION_EXPIRY_NOTIFIED u i))) = (v = u)"
| "addressed (v, c, Event (Session_note (WORKER_SESSION_EXPIRY_CLOSED u i))) = (v = u)"
| "addressed (v, c, Event (Session_note (WORKER_SESSION_APP_DISSOCIATED u b p i))) = (v = u \<and> c = b)"
| "addressed (v, c, Event (User_note e)) = (gateway_event_user e \<noteq> [] \<longrightarrow> v = gateway_event_user e)"
| "addressed _ = True"

definition sends_only :: "(string \<times> string \<times> to_client \<Rightarrow> bool) \<Rightarrow> sockets \<Rightarrow> sockets \<Rightarrow> bool" where
  "sends_only P s t \<longleftrightarrow> clients t = clients s \<and> (\<forall>x \<in> set (sent t). x \<in> set (sent s) \<or> P x)"

lemma sends_only_trans: "sends_only P s t \<Longrightarrow> sends_only P t u \<Longrightarrow> sends_only P s u"
  by (auto simp: sends_only_def)

lemma sends_only_same: "clients t = clients s \<Longrightarrow> sent t = sent s \<Longrightarrow> sends_only P s t"
  by (simp add: sends_only_def)

lemma sends_only_each:
  "(\<And>x t. x \<in> set xs \<Longrightarrow> clients t = clients s \<Longrightarrow> sends_only P t (g x t)) \<Longrightarrow> sends_only P s (each xs g s)"
  by (rule each_inv [where I = "sends_only P s"]) (auto simp: sends_only_def)

lemma sends_only_send:
  "(\<And>k. map_of (clients s) c = Some k \<Longrightarrow> P (sc_username k, c, msg)) \<Longrightarrow> sends_only P s (send_client c msg s)"
  by (auto simp: send_client_def sends_only_def client_def split: option.splits)

lemma sends_only_sendEvent:
  assumes "distinct (map fst (clients s))"
    and "\<And>v b. (c = [] \<or> b = c) \<Longrightarrow> (u = [] \<or> v = u) \<Longrightarrow> P (v, b, Event n)"
  shows "sends_only P s (sendEvent n u c s)"
  unfolding sendEvent_def
proof (rule sends_only_each, rule sends_only_send)
  fix b t k
  assume "b \<in> set (map fst (filter (\<lambda>(b, k). (c = [] \<or> b = c) \<and> (u = [] \<or> sc_username k = u)) (clients s)))"
    and t: "clients t = clients s" and k: "map_of (clients t) b = Some k"
  then obtain k' where "(b, k') \<in> set (clients s)" "c = [] \<or> b = c" "u = [] \<or> sc_username k' = u" by auto
  moreover from this assms(1) k t have "k' = k" by simp
  ultimately show "P (sc_username k, b, Event n)" by (intro assms(2)) auto
qed

lemma sends_only_broadcast: "(\<And>v b. P (v, b, msg)) \<Longrightarrow> sends_only P s (broadcast msg s)"
  unfolding broadcast_def by (rule sends_only_each) (auto intro: sends_only_send)

lemma sends_only_servers: "sends_only P s (broadcast_servers e s)"
  unfolding broadcast_servers_def
  by (rule sends_only_each) (auto simp: send_server_def intro: sends_only_same)

lemma sends_only_sendEventToSession:
  assumes "\<And>v b. P (v, b, Event n)"
  shows "sends_only P s (sendEventToSession i n s)"
proof -
  have "sends_only P t (send_then_close b (Event n) t)" for b t
    using sends_only_send [of t b P "Event n"] assms by (simp add: send_then_close_def sends_only_def Let_def)
  then show ?thesis unfolding sendEventToSession_def by (rule sends_only_each)
qed

definition names_user :: "bus_event \<Rightarrow> bool" where
  "names_user e \<longleftrightarrow> (case e of
     Session_event (WORKER_SESSION_CLOSED u i) \<Rightarrow> u \<noteq> []
   | Session_event (WORKER_SESSION_EXPIRY_NOTIFIED u i) \<Rightarrow> u \<noteq> []
   | Session_event (WORKER_SESSION_EXPIRY_CLOSED u i) \<Rightarrow> u \<noteq> []
   | Session_event (WORKER_SESSION_APP_DISSOCIATED u c p i) \<Rightarrow> u \<noteq> [] \<and> c \<noteq> []
   | _ \<Rightarrow> True)"

lemma sends_addressed:
  assumes d: "distinct (map fst (clients s))" and "names_user e"
  shows "sends_only addressed s (handleEvent e s)"
proof (cases e)
  case (MODULE_UP m)
  have asked: "sends_only addressed t (each xs (\<lambda>x. ask (f x)) t)" for t xs and f :: "'x \<Rightarrow> lookup"
    by (rule sends_only_each) (simp add: ask_def sends_only_same)
  have m: "sends_only addressed s (broadcast (Modules_update m b) (sendEvent (Module_note b m) [] [] s))" for b
    by (rule sends_only_trans [OF sends_only_sendEvent [OF d] sends_only_broadcast]) simp_all
  have split: "(\<lambda>(c, k). ask (Module_client m (sc_username k) c)) = (\<lambda>x. ask (Module_client m (sc_username (snd x)) (fst x)))"
    by auto
  show ?thesis
    unfolding MODULE_UP handleEvent.simps moduleUp_def broadcastEvent_def Let_def split
    by (rule sends_only_trans [OF sends_only_trans [OF m asked] asked])
next
  case (MODULE_DOWN m)
  show ?thesis
    unfolding MODULE_DOWN handleEvent.simps moduleDown_def broadcastEvent_def
    by (rule sends_only_trans [OF sends_only_sendEvent [OF d] sends_only_broadcast]) simp_all
next
  case (Gateway_event g)
  have "sends_only addressed s (userUpdated g s)"
    unfolding userUpdated_def sendEventToUser_def
  proof (rule sends_only_trans [OF sends_only_servers sends_only_sendEvent])
    show "distinct (map fst (clients (broadcast_servers (User_changed g) s)))"
      using d registry_same_servers [of s "User_changed g"] by (simp add: registry_same_def)
  qed auto
  then show ?thesis
    unfolding Gateway_event by (cases g) (auto intro: sends_only_sendEventToSession)
next
  case (Session_event b)
  with assms(2) show ?thesis
    by (cases b) (auto simp: sendEventToUser_def sendEventToClient_def names_user_def intro!: sends_only_sendEvent [OF d])
next
  case (CLIENT_VERSION_MISMATCH u c)
  then show ?thesis by (auto simp: sendEventToClient_def intro!: sends_only_sendEvent [OF d])
qed (auto simp: ask_def intro: sends_only_servers sends_only_same)

lemma sends_addressed_event:
  assumes "distinct (map fst (clients s))" and "names_user e"
  shows "sends_only addressed s (next_event e s)"
  using sends_addressed [of "s\<lparr>announced := announced s @ [e]\<rparr>" e] assms
  by (simp add: next_event_def sends_only_def)

lemma session_events_name_user: "e \<in> set (session_events x) \<Longrightarrow> names_user (Session_event e)"
  by (auto simp: session_events_def closed_events_def dissociated_events_def expiry_notified_handler_def
      expiry_closed_handler_def names_user_def nonempty_def split: option.splits if_splits)

definition tells :: "sockets \<Rightarrow> sockets \<Rightarrow> bool" where
  "tells s t \<longleftrightarrow> (\<forall>x \<in> set (sent t). x \<in> set (sent s) \<or> addressed x)"

lemma tells_sends: "sends_only addressed s t \<Longrightarrow> sent s = sent r \<Longrightarrow> tells r t"
  by (simp add: tells_def sends_only_def)

lemma tells_same: "sent t = sent s \<Longrightarrow> tells s t"
  by (simp add: tells_def)

lemma tells_event:
  assumes "distinct (map fst (clients s))" and "sent s = sent r" and "names_user e"
  shows "tells r (next_event e s)"
  by (rule tells_sends [OF sends_addressed_event [OF assms(1,3)] assms(2)])

lemma sent_ask_event [simp]:
  "sent (next_event (CLIENT_UP u c) s) = sent s" "sent (next_event (CLIENT_DOWN u c) s) = sent s"
  "sent (next_event (SUBSCRIPTION_UP m u c i) s) = sent s" "sent (next_event (SUBSCRIPTION_DOWN m u c i) s) = sent s"
  by (simp_all add: next_event_def ask_def)

lemma sent_client_change [simp]: "sent (client_change u c b s) = sent s"
  by (simp add: client_change_def ask_def Let_def)

lemma sent_disconnect: "sent (disconnect u c s) = sent s"
proof -
  have "sent (each xs (\<lambda>(i, m) s. next_event (SUBSCRIPTION_DOWN m u c i) (removeSubscription c i s)) t) = sent t" for xs t
    by (induction xs arbitrary: t) (auto simp: removeSubscription_def)
  then show ?thesis by (simp add: disconnect_def remove_client_def Let_def)
qed

lemma tells_connected: "tells s (onClientConnected u c i s)"
proof -
  let ?a = "client_change u c True (add_client u c i s)" and ?b = "\<lambda>t. send_client c (Modules_state (servers t)) t"
  have "sends_only addressed ?a (?b (send_client c (Client_id c) ?a))"
    by (rule sends_only_trans [OF sends_only_send sends_only_send]) simp_all
  then have "tells s (?b (send_client c (Client_id c) ?a))"
    by (rule tells_sends) (simp add: add_client_def)
  then show ?thesis by (simp add: onClientConnected_def Let_def tells_def)
qed

lemma tells_client_message:
  assumes "distinct (map fst (clients s))"
  shows "tells s (onClientMessage build u c msg s)"
  unfolding onClientMessage_def onVersion_def onHeartbeat_def onSubscribed_def onUnsubscribed_def
  by (auto simp: names_user_def ask_def addSubscription_def removeSubscription_def split: option.splits
      intro: tells_event [OF assms] tells_same)

lemma tells_server_message:
  assumes "distinct (map fst (clients s))"
  shows "tells s (onServerMessage m x s)"
proof -
  let ?s = "\<lambda>f. s\<lparr>retries := f\<rparr>"
  have d: "distinct (map fst (clients (?s f)))" for f using assms by simp
  have "sends_only addressed t (sendByUsername u (Module_data m i v) t)" for t u i v
    unfolding sendByUsername_def by (rule sends_only_each) (auto intro: sends_only_send)
  then have by_name: "tells s (sendByUsername u (Module_data m i v) (?s f))" for u i v f
    by (rule tells_sends) simp
  have one: "tells s (send_client c (Module_data m i v) (?s f))" for c i v f
    by (rule tells_sends [OF sends_only_send]) simp_all
  show ?thesis
    unfolding onServerMessage_def Let_def
    by (auto simp: names_user_def split: option.splits intro: by_name one tells_event [OF d] tells_same)
qed

lemma tells_step:
  assumes "socket_step build s t" and d: "distinct (map fst (clients s))"
  shows "tells s t"
  using assms(1)
proof cases
  case (beats_client c)
  show ?thesis unfolding beats_client by (rule tells_sends [OF sends_only_send]) simp_all
next
  case (module_fails m)
  have "distinct (map fst (clients (s\<lparr>retries := f\<rparr>)))" for f using d by simp
  then show ?thesis
    unfolding module_fails onRetry_def Let_def by (auto simp: names_user_def intro: tells_event tells_same)
next
  case (gateway_says e)
  then show ?thesis using d by (auto simp: names_user_def intro: tells_event)
next
  case (session_says e x)
  then show ?thesis using d session_events_name_user by (auto intro: tells_event)
next
  case (store_answers l found)
  have d': "distinct (map fst (clients (s\<lparr>lookups := ls\<rparr>)))" for ls using d by simp
  have bs: "tells s (broadcast_servers e (s\<lparr>lookups := ls\<rparr>))" for e ls
    by (rule tells_sends [OF sends_only_servers]) simp
  show ?thesis
    unfolding store_answers
    by (cases l) (auto simp: names_user_def send_server_def split: option.splits intro: bs tells_event [OF d'] tells_same)
qed (use d in \<open>auto simp: sent_disconnect intro: tells_connected tells_client_message tells_server_message tells_same\<close>)

lemma fst_names: "map fst (names s) = map fst (clients s)"
  by (simp add: names_def split_def comp_def)


section \<open>The sockets of ended sessions\<close>

definition open_sockets :: "string \<Rightarrow> sockets \<Rightarrow> (string \<times> socket_client) list" where
  "open_sockets i s = filter (\<lambda>(c, k). sc_sessionId k = Some i \<and> sc_open k) (clients s)"

lemma send_then_close_all:
  assumes "\<And>c k. (c, k) \<in> set ps \<Longrightarrow> c \<noteq> [] \<and> map_of (clients s) c = Some k"
  shows "let t = each (map fst ps) (\<lambda>c. send_then_close c msg) s; qs = filter (\<lambda>(c, k). sc_open k) ps in
    clients t = clients s \<and> sent t = sent s @ map (\<lambda>(c, k). (sc_username k, c, msg)) qs \<and> closing t = closing s @ map fst qs"
  using assms
proof (induction ps arbitrary: s)
  case Nil
  then show ?case by simp
next
  case (Cons p ps)
  obtain c k where p: "p = (c, k)" by fastforce
  let ?s = "send_then_close c msg s"
  from Cons.prems p have "client c s = Some k" by (auto simp: client_def)
  then have s: "clients ?s = clients s" "sent ?s = sent s @ (if sc_open k then [(sc_username k, c, msg)] else [])"
      "closing ?s = closing s @ (if sc_open k then [c] else [])"
    by (simp_all add: send_then_close_def send_client_def Let_def)
  have "b \<noteq> [] \<and> map_of (clients ?s) b = Some k'" if "(b, k') \<in> set ps" for b k'
    using Cons.prems [of b k'] that s(1) by simp
  from Cons.IH [of ?s, OF this] s show ?case by (simp add: p Let_def)
qed

lemma invalidated_effect:
  assumes "well_registered s"
  shows "let t = next_event (Gateway_event (LOGIN_SESSION_INVALIDATED n i reason)) s in
    clients t = clients s \<and>
    sent t = sent s @ map (\<lambda>(c, k). (sc_username k, c, Event (Invalidated_note reason))) (open_sockets i s) \<and>
    closing t = closing s @ map fst (open_sockets i s)"
proof -
  let ?s = "s\<lparr>announced := announced s @ [Gateway_event (LOGIN_SESSION_INVALIDATED n i reason)]\<rparr>"
  let ?ps = "filter (\<lambda>(c, k). sc_sessionId k = Some i) (clients s)"
  have "c \<noteq> [] \<and> map_of (clients ?s) c = Some k" if "(c, k) \<in> set ?ps" for c k
  proof -
    from that have "(c, k) \<in> set (clients s)" by simp
    moreover from this have "(c, sc_username k) \<in> set (names s)" by (force simp: names_def)
    ultimately show ?thesis using assms by (auto simp: well_registered_def fst_names)
  qed
  from send_then_close_all [of ?ps ?s "Event (Invalidated_note reason)", OF this]
  have all: "let t = each (map fst ?ps) (\<lambda>c. send_then_close c (Event (Invalidated_note reason))) ?s; qs = filter (\<lambda>(c, k). sc_open k) ?ps in
    clients t = clients s \<and> sent t = sent s @ map (\<lambda>(c, k). (sc_username k, c, Event (Invalidated_note reason))) qs \<and>
    closing t = closing s @ map fst qs" by simp
  have "filter (\<lambda>(c, k). sc_open k) ?ps = open_sockets i s"
    unfolding open_sockets_def filter_filter by (rule filter_cong) auto
  with all show ?thesis
    unfolding next_event_def by (simp add: Let_def sendEventToSession_def)
qed

lemma invalidated_well_registered:
  "well_registered s \<Longrightarrow> well_registered (next_event (Gateway_event e) s)"
  by (erule well_registered_step [OF gateway_says])

lemma invalidated_each:
  assumes "well_registered s"
  shows "let t = fold (\<lambda>e. next_event (Gateway_event e)) (map (\<lambda>i. LOGIN_SESSION_INVALIDATED n i reason) is) s in
    set (sent t) = set (sent s) \<union> {(sc_username k, c, Event (Invalidated_note reason)) | c k. \<exists>i \<in> set is. (c, k) \<in> set (open_sockets i s)} \<and>
    set (closing t) = set (closing s) \<union> {c. \<exists>i \<in> set is. \<exists>k. (c, k) \<in> set (open_sockets i s)}"
  using assms
proof (induction "is" arbitrary: s)
  case Nil
  then show ?case by simp
next
  case (Cons i "is")
  let ?t = "next_event (Gateway_event (LOGIN_SESSION_INVALIDATED n i reason)) s"
  from invalidated_effect [OF Cons.prems, of n i reason] have t: "clients ?t = clients s"
    "set (sent ?t) = set (sent s) \<union> (\<lambda>(c, k). (sc_username k, c, Event (Invalidated_note reason))) ` set (open_sockets i s)"
    "set (closing ?t) = set (closing s) \<union> fst ` set (open_sockets i s)"
    by (simp_all add: Let_def)
  then have same: "open_sockets j ?t = open_sockets j s" for j by (simp add: open_sockets_def)
  have w: "well_registered ?t" by (rule invalidated_well_registered [OF Cons.prems])
  let ?f = "\<lambda>(c, k). (sc_username k, c, Event (Invalidated_note reason))"
  have s1: "{(sc_username k, c, Event (Invalidated_note reason)) | c k. \<exists>j \<in> set (i # is). (c, k) \<in> set (open_sockets j s)} =
      ?f ` set (open_sockets i s) \<union> {(sc_username k, c, Event (Invalidated_note reason)) | c k. \<exists>j \<in> set is. (c, k) \<in> set (open_sockets j s)}"
    by (auto simp: image_iff)
  have s2: "{c. \<exists>j \<in> set (i # is). \<exists>k. (c, k) \<in> set (open_sockets j s)} =
      fst ` set (open_sockets i s) \<union> {c. \<exists>j \<in> set is. \<exists>k. (c, k) \<in> set (open_sockets j s)}"
    by (auto intro: rev_image_eqI)
  from Cons.IH [OF w] show ?case
    unfolding s1 s2 Let_def list.map fold.simps comp_def t(2,3) same by (simp add: Un_assoc)
qed

text \<open>
  C33: When the message that a user was locked is handled without an error, every open socket of a session of
  the user, in any spelling of the name, is told why and then closed, and no other socket is.
\<close>

theorem lock_closes_sockets:
  assumes "userLocked_message E ''user.UserLocked'' (Some n) g = (Inr (), g')" and "n \<noteq> []" and "socket_reachable build s"
  shows "let t = fold (\<lambda>e. next_event (Gateway_event e)) (drop (length (events g)) (events g')) s;
      ended = {(c, k). (c, k) \<in> set (clients s) \<and> sc_open k \<and> sc_sessionId k \<in> Some ` set (sessions_of n (login_sessions g))} in
    set (closing t) = set (closing s) \<union> fst ` ended \<and>
    set (sent t) = set (sent s) \<union> (\<lambda>(c, k). (sc_username k, c, Event (Invalidated_note ''locked''))) ` ended"
proof -
  from userLocked_run [OF assms(1,2)]
  have "drop (length (events g)) (events g') = map (\<lambda>i. LOGIN_SESSION_INVALIDATED n i ''locked'') (sessions_of n (login_sessions g))"
    by simp
  with invalidated_each [OF well_registered_reachable [OF assms(3)], of n "''locked''" "sessions_of n (login_sessions g)"]
  show ?thesis by (auto simp: Let_def open_sockets_def image_iff)
qed

section \<open>Concrete cases\<close>

definition one_socket :: sockets where
  "one_socket = onClientConnected ''bob'' ''c1'' (Some ''s1'') (sockets_start 0)"

lemma one_socket_reachable: "socket_reachable ''1'' one_socket"
proof -
  have "socket_step ''1'' (sockets_start 0) one_socket"
    unfolding one_socket_def by (rule connects) (simp_all add: sockets_start_fields)
  then show ?thesis unfolding socket_reachable_def by (blast intro: r_into_rtranclp)
qed

lemma one_socket_fields:
  "clients one_socket = [(''c1'', \<lparr>sc_username = ''bob'', sc_sessionId = Some ''s1'', sc_open = True, sc_subscriptions = []\<rparr>)]"
  "names one_socket = [(''c1'', ''bob'')]" "presence one_socket = [(''bob'', True)]" "closing one_socket = []"
  "announced one_socket = [CLIENT_UP ''bob'' ''c1'']" "(''bob'', ''c1'', Client_id ''c1'') \<in> set (sent one_socket)"
  by (simp_all add: one_socket_def onClientConnected_def add_client_def client_change_def names_def sockets_start_fields count_of_def
      Let_def send_client_def client_def ask_def next_event_def)

theorem users_arrive_and_depart_witness: "presence_of ''bob'' one_socket = [True] \<and> connected_as ''bob'' ''c1'' one_socket \<and>
   alternates True (presence_of ''bob'' one_socket)"
  using users_arrive_and_depart [OF one_socket_reachable, of "''bob''"]
  by (simp add: presence_of_def connected_as_def one_socket_fields)

theorem client_announced_once_witness: "ups ''c1'' one_socket = 1 \<and> downs ''c1'' one_socket = 0 \<and>
   announced (disconnect ''bob'' ''c1'' one_socket) = [CLIENT_UP ''bob'' ''c1'', CLIENT_DOWN ''bob'' ''c1'']"
  using client_announced_once [OF one_socket_reachable, of "''c1''"]
  by (simp add: connected_as_def one_socket_fields ups_def downs_def)


theorem lock_closes_sockets_witness:
  "closing (fold (\<lambda>e. next_event (Gateway_event e))
     (events (snd (userLocked_message lab_env ''user.UserLocked'' (Some ''BOB'') logged_in))) one_socket) \<noteq> []"
proof -
  let ?g = "snd (userLocked_message lab_env ''user.UserLocked'' (Some ''BOB'') logged_in)"
  have run: "userLocked_message lab_env ''user.UserLocked'' (Some ''BOB'') logged_in = (Inr (), ?g)"
    using logged_in_locked(1) by (metis prod.collapse)
  have f: "sessions_of ''BOB'' (login_sessions logged_in) = [''s1'', ''s3'']" "events logged_in = []" by code_simp+
  let ?k = "\<lparr>sc_username = ''bob'', sc_sessionId = Some ''s1'', sc_open = True, sc_subscriptions = []\<rparr>"
  let ?t = "fold (\<lambda>e. next_event (Gateway_event e)) (events ?g) one_socket"
  have "''c1'' \<in> set (closing ?t)"
    using lock_closes_sockets [OF run _ one_socket_reachable] by (simp add: Let_def f one_socket_fields)
  then show ?thesis by (cases "closing ?t") simp_all
qed

section \<open>The state a browser starts from\<close>

text \<open>A browser that connects while a module is down is told that the module is there.\<close>

theorem down_module_listed:
  assumes "m \<in> set webSocketEndpoints" and "c \<noteq> []"
  shows "let s = onRetry m (sockets_start now); t = onClientConnected u c i s in
    announced s = [MODULE_DOWN m] \<and> (u, c, Modules_state (servers s)) \<in> set (sent t) \<and> m \<in> set (servers s)"
proof -
  have r: "retries (sockets_start now) m = 0" and sv: "servers (sockets_start now) = webSocketEndpoints"
    by (simp_all add: sockets_start_def webSocketEndpoints_def add_server_def)
  let ?s = "onRetry m (sockets_start now)"
  have s: "announced ?s = [MODULE_DOWN m]" "servers ?s = webSocketEndpoints"
    by (simp_all add: onRetry_def r sv sockets_start_fields)
  have "(u, c, Modules_state (servers ?s)) \<in> set (sent (onClientConnected u c i ?s))"
    using assms(2) by (simp add: onClientConnected_def Let_def send_client_def client_def add_client_def map_of_map_set)
  with s assms(1) show ?thesis by (simp add: Let_def)
qed

end
