(* ===== verification/LoginThrottle.thy ===== *)
theory LoginThrottle
  imports SandboxModel
begin

text \<open>
  How the user module limits failed password logins (\<^verbatim>\<open>modules/user/src/loginThrottle.js\<close>): a counter for a
  username at a client address and one for the address, each for the time of a window, counting every
  attempt as a failure until it succeeds.
\<close>

section \<open>The throttle\<close>

definition WINDOW_MS :: int where "WINDOW_MS = 15 * 60 * 1000"

definition SWEEP_INTERVAL_MS :: int where "SWEEP_INTERVAL_MS = 60 * 1000"

record throttle_config =
  maxUsernameFailures :: "int option"
  maxClientFailures :: "int option"
  windowMs :: int

record login_counter =
  lc_max :: int
  lc_since :: int
  lc_attempts :: int
  lc_reported :: bool

record login_throttle =
  lt_counters :: "(string \<times> login_counter) list"
  lt_sweptAt :: int

text \<open>A login names a user and the client's address; either may be no text.\<close>

record login =
  lg_username :: "json option"
  lg_clientIp :: "json option"

fun text_of :: "json option \<Rightarrow> string option" where
  "text_of (Some (JStr s)) = Some s"
| "text_of _ = None"

definition client_key :: "login \<Rightarrow> string" where
  "client_key l = ''client '' @ (case text_of (lg_clientIp l) of None \<Rightarrow> ''unknown'' | Some ip \<Rightarrow> ip)"

definition user_key :: "login \<Rightarrow> string option" where
  "user_key l = map_option (\<lambda>u. ''user '' @ storedUsername u @ '' at '' @ client_key l) (text_of (lg_username l))"

definition limitsOf :: "throttle_config \<Rightarrow> login \<Rightarrow> (string \<times> int) list" where
  "limitsOf C l = concat (map (\<lambda>(k, m). case (k, m) of (Some k, Some m) \<Rightarrow> if 1 \<le> m then [(k, m)] else [] | _ \<Rightarrow> [])
     [(Some (client_key l), maxClientFailures C), (user_key l, maxUsernameFailures C)])"

definition live :: "throttle_config \<Rightarrow> int \<Rightarrow> login_counter \<Rightarrow> bool" where
  "live C n c \<longleftrightarrow> n - lc_since c < windowMs C"

text \<open>The counter of a limit, a fresh one when its window is over.\<close>

definition throttle_counter :: "throttle_config \<Rightarrow> int \<Rightarrow> string \<times> int \<Rightarrow> login_throttle \<Rightarrow> login_throttle" where
  "throttle_counter C n = (\<lambda>(k, m) s. if (case map_of (lt_counters s) k of None \<Rightarrow> False | Some c \<Rightarrow> live C n c) then s
     else s\<lparr>lt_counters := map_set (lt_counters s) k \<lparr>lc_max = m, lc_since = n, lc_attempts = 0, lc_reported = False\<rparr>\<rparr>)"

definition sweep :: "throttle_config \<Rightarrow> int \<Rightarrow> login_throttle \<Rightarrow> login_throttle" where
  "sweep C n s = (if n - lt_sweptAt s < SWEEP_INTERVAL_MS then s
     else s\<lparr>lt_sweptAt := n, lt_counters := filter (\<lambda>(k, c). live C n c) (lt_counters s)\<rparr>)"

definition on_counter :: "string \<Rightarrow> (login_counter \<Rightarrow> login_counter) \<Rightarrow> login_throttle \<Rightarrow> login_throttle" where
  "on_counter k f s = (case map_of (lt_counters s) k of None \<Rightarrow> s
     | Some c \<Rightarrow> s\<lparr>lt_counters := map_set (lt_counters s) k (f c)\<rparr>)"

definition exhausted :: "login_throttle \<Rightarrow> string \<Rightarrow> bool" where
  "exhausted s k \<longleftrightarrow> (case map_of (lt_counters s) k of None \<Rightarrow> False | Some c \<Rightarrow> lc_max c \<le> lc_attempts c)"

definition tryAttempt :: "throttle_config \<Rightarrow> login \<Rightarrow> int \<Rightarrow> login_throttle \<Rightarrow> bool \<times> login_throttle" where
  "tryAttempt C l n s = (let ls = limitsOf C l; s = fold (throttle_counter C n) ls (sweep C n s);
       over = filter (exhausted s) (map fst ls) in
     if over \<noteq> [] then (False, fold (\<lambda>k. on_counter k (\<lambda>c. c\<lparr>lc_reported := True\<rparr>)) over s)
     else (True, fold (\<lambda>k. on_counter k (\<lambda>c. c\<lparr>lc_attempts := lc_attempts c + 1\<rparr>)) (map fst ls) s))"

definition login_succeeded :: "throttle_config \<Rightarrow> login \<Rightarrow> login_throttle \<Rightarrow> login_throttle" where
  "login_succeeded C l s = fold (\<lambda>k. on_counter k (\<lambda>c. if 0 < lc_attempts c then c\<lparr>lc_attempts := lc_attempts c - 1\<rparr> else c))
     (map fst (limitsOf C l)) s"

definition throttle_start :: login_throttle where
  "throttle_start = \<lparr>lt_counters = [], lt_sweptAt = 0\<rparr>"

section \<open>The limits of a login\<close>

lemma client_user_key: "user_key l \<noteq> Some (client_key l')"
  by (auto simp: user_key_def client_key_def)

lemma limits_distinct: "distinct (map fst (limitsOf C l))"
  using client_user_key [of l l] by (auto simp: limitsOf_def split: option.splits)

lemma limitsOf_at_least_1: "(k, m) \<in> set (limitsOf C l) \<Longrightarrow> 1 \<le> m"
  by (auto simp: limitsOf_def split: option.splits if_splits)

lemma limits_max:
  assumes "(k, m) \<in> set (limitsOf C l)" and "(k, m') \<in> set (limitsOf C l')"
  shows "m = m'"
  using assms client_user_key [of l l'] client_user_key [of l' l]
  by (auto simp: limitsOf_def split: option.splits if_splits) (metis option.inject)+

section \<open>Histories of attempts\<close>

text \<open>
  A history is a list of attempts and successes with their times. Beside the throttle it keeps, for the
  limit with key \<open>k\<close>, the attempts let through: the time of each and the start of its window.
\<close>

datatype throttle_event = Attempt login | Success login

record watched =
  wt_throttle :: login_throttle
  wt_now :: int
  wt_passed :: "(int \<times> int) list"

definition watch :: "throttle_config \<Rightarrow> string \<Rightarrow> watched \<Rightarrow> int \<times> throttle_event \<Rightarrow> watched" where
  "watch C k w = (\<lambda>(n, ev). case ev of
     Attempt l \<Rightarrow> (case tryAttempt C l n (wt_throttle w) of (passes, s) \<Rightarrow>
       w\<lparr>wt_throttle := s, wt_now := n, wt_passed := wt_passed w @
         (if passes \<and> k \<in> fst ` set (limitsOf C l) then [(n, case map_of (lt_counters s) k of None \<Rightarrow> n | Some c \<Rightarrow> lc_since c)] else [])\<rparr>)
   | Success l \<Rightarrow> w\<lparr>wt_throttle := login_succeeded C l (wt_throttle w), wt_now := n\<rparr>)"

fun in_order :: "int \<Rightarrow> (int \<times> throttle_event) list \<Rightarrow> bool" where
  "in_order n [] = True"
| "in_order n ((t, ev) # h) = (n \<le> t \<and> in_order t h)"

definition no_success :: "throttle_config \<Rightarrow> string \<Rightarrow> int \<times> throttle_event \<Rightarrow> bool" where
  "no_success C k = (\<lambda>(t, ev). case ev of Attempt l \<Rightarrow> True | Success l \<Rightarrow> k \<notin> fst ` set (limitsOf C l))"

definition watched_start :: "int \<Rightarrow> watched" where
  "watched_start n = \<lparr>wt_throttle = throttle_start, wt_now = n, wt_passed = []\<rparr>"

section \<open>What an attempt does to a counter\<close>

definition counter_of :: "string \<Rightarrow> login_throttle \<Rightarrow> login_counter option" where
  "counter_of k s = map_of (lt_counters s) k"

definition keyed_counters :: "login_throttle \<Rightarrow> bool" where
  "keyed_counters s \<longleftrightarrow> distinct (map fst (lt_counters s))"

lemma counter_of_on_counter:
  "counter_of j (on_counter k f s) = (if j = k then map_option f (counter_of j s) else counter_of j s)"
  by (auto simp: counter_of_def on_counter_def map_of_map_set split: option.splits)

lemma keyed_on_counter: "keyed_counters s \<Longrightarrow> keyed_counters (on_counter k f s)"
  by (auto simp: keyed_counters_def on_counter_def distinct_map_set split: option.splits)

lemma counter_of_fold_on_counter:
  "distinct ks \<Longrightarrow> counter_of j (fold (\<lambda>k. on_counter k f) ks s) = (if j \<in> set ks then map_option f (counter_of j s) else counter_of j s)"
  by (induction ks arbitrary: s) (auto simp: counter_of_on_counter)

lemma keyed_fold_on_counter: "keyed_counters s \<Longrightarrow> keyed_counters (fold (\<lambda>k. on_counter k f) ks s)"
  by (induction ks arbitrary: s) (auto intro: keyed_on_counter)

text \<open>The counter a limit has at the time \<open>n\<close>.\<close>

definition current :: "throttle_config \<Rightarrow> int \<Rightarrow> int \<Rightarrow> login_counter option \<Rightarrow> login_counter" where
  "current C n m c = (case c of Some c \<Rightarrow> if live C n c then c else \<lparr>lc_max = m, lc_since = n, lc_attempts = 0, lc_reported = False\<rparr>
     | None \<Rightarrow> \<lparr>lc_max = m, lc_since = n, lc_attempts = 0, lc_reported = False\<rparr>)"

lemma counter_of_throttle_counter:
  "counter_of j (throttle_counter C n (k, m) s) = (if j = k then Some (current C n m (counter_of j s)) else counter_of j s)"
  by (auto simp: counter_of_def throttle_counter_def current_def map_of_map_set split: option.splits if_splits)

lemma counter_of_fold_throttle_counter:
  assumes "distinct (map fst ls)"
  shows "counter_of j (fold (throttle_counter C n) ls s) =
    (case map_of ls j of Some m \<Rightarrow> Some (current C n m (counter_of j s)) | None \<Rightarrow> counter_of j s)"
  using assms
proof (induction ls arbitrary: s)
  case Nil
  then show ?case by simp
next
  case (Cons p ls)
  obtain k m where p: "p = (k, m)" by fastforce
  with Cons.prems have "map_of ls k = None" by (simp add: map_of_eq_None_iff)
  with Cons p show ?case by (auto simp: counter_of_throttle_counter split: option.splits)
qed

lemma keyed_fold_throttle_counter: "keyed_counters s \<Longrightarrow> keyed_counters (fold (throttle_counter C n) ls s)"
  by (induction ls arbitrary: s) (auto simp: throttle_counter_def keyed_counters_def distinct_map_set split: prod.splits)

lemma counter_of_sweep:
  assumes "keyed_counters s"
  shows "counter_of j (sweep C n s) = counter_of j s \<or>
    counter_of j (sweep C n s) = None \<and> (\<exists>c. counter_of j s = Some c \<and> \<not> live C n c)"
proof (cases "n - lt_sweptAt s < SWEEP_INTERVAL_MS")
  case True
  then show ?thesis by (simp add: sweep_def)
next
  case False
  have "map_of (filter (\<lambda>(k, c). live C n c) m) j = map_of m j \<or>
      map_of (filter (\<lambda>(k, c). live C n c) m) j = None \<and> (\<exists>c. map_of m j = Some c \<and> \<not> live C n c)"
    if "distinct (map fst m)" for m
    using that
  proof (induction m)
    case (Cons p m)
    obtain k c where p: "p = (k, c)" by fastforce
    show ?case
    proof (cases "j = k")
      case True
      with Cons.prems p have "map_of (filter (\<lambda>(k, c). live C n c) m) j = None"
        by (auto simp: map_of_eq_None_iff)
      with True p show ?thesis by simp
    next
      case False
      with Cons p show ?thesis by simp
    qed
  qed simp
  with assms False show ?thesis by (simp add: sweep_def counter_of_def keyed_counters_def)
qed

lemma current_swept:
  assumes "keyed_counters s"
  shows "current C n m (counter_of j (sweep C n s)) = current C n m (counter_of j s)"
  using counter_of_sweep [OF assms, of j C n] by (auto simp: current_def)

lemma keyed_sweep: "keyed_counters s \<Longrightarrow> keyed_counters (sweep C n s)"
  by (simp add: keyed_counters_def sweep_def distinct_map_filter)

lemma tryAttempt_effect:
  assumes "keyed_counters s" and "tryAttempt C l n s = (passes, t)"
  shows "keyed_counters t"
    and "map_of (limitsOf C l) k = Some m \<Longrightarrow> \<exists>c. counter_of k t = Some c \<and>
      (let old = current C n m (counter_of k s) in lc_since c = lc_since old \<and> lc_max c = lc_max old \<and>
        lc_attempts c = (if passes then lc_attempts old + 1 else lc_attempts old) \<and> (passes \<longrightarrow> lc_attempts old < lc_max old))"
    and "map_of (limitsOf C l) k = None \<Longrightarrow> counter_of k t = counter_of k s \<or>
      counter_of k t = None \<and> (\<exists>c. counter_of k s = Some c \<and> \<not> live C n c)"
proof -
  let ?ls = "limitsOf C l"
  let ?s = "fold (throttle_counter C n) ?ls (sweep C n s)"
  let ?over = "filter (exhausted ?s) (map fst ?ls)"
  let ?report = "fold (\<lambda>k. on_counter k (\<lambda>c. c\<lparr>lc_reported := True\<rparr>)) ?over ?s"
  let ?count = "fold (\<lambda>k. on_counter k (\<lambda>c. c\<lparr>lc_attempts := lc_attempts c + 1\<rparr>)) (map fst ?ls) ?s"
  have t: "passes = (?over = []) \<and> t = (if ?over = [] then ?count else ?report)"
    using assms(2) by (auto simp: tryAttempt_def Let_def split: if_splits)
  note d = limits_distinct [of C l]
  then have od: "distinct ?over" by simp
  have "keyed_counters ?s" by (rule keyed_fold_throttle_counter [OF keyed_sweep [OF assms(1)]])
  then show "keyed_counters t" using t by (simp add: keyed_fold_on_counter)
  show "\<exists>c. counter_of k t = Some c \<and>
      (let old = current C n m (counter_of k s) in lc_since c = lc_since old \<and> lc_max c = lc_max old \<and>
        lc_attempts c = (if passes then lc_attempts old + 1 else lc_attempts old) \<and> (passes \<longrightarrow> lc_attempts old < lc_max old))"
    if k: "map_of ?ls k = Some m"
  proof -
    from k have "k \<in> set (map fst ?ls)" by (metis domI dom_map_of_conv_image_fst list.set_map)
    have s: "counter_of k ?s = Some (current C n m (counter_of k s))"
      unfolding counter_of_fold_throttle_counter [OF d] by (simp add: k current_swept [OF assms(1)])
    show ?thesis
    proof (cases "?over = []")
      case True
      with \<open>k \<in> set (map fst ?ls)\<close> have "\<not> exhausted ?s k" by (auto simp: filter_empty_conv)
      with s have "lc_attempts (current C n m (counter_of k s)) < lc_max (current C n m (counter_of k s))"
        by (simp add: exhausted_def counter_of_def)
      with True t s \<open>k \<in> set (map fst ?ls)\<close> show ?thesis
        by (simp add: counter_of_fold_on_counter [OF d] Let_def)
    next
      case False
      with t s show ?thesis by (auto simp: counter_of_fold_on_counter [OF od] Let_def)
    qed
  qed
  show "counter_of k t = counter_of k s \<or> counter_of k t = None \<and> (\<exists>c. counter_of k s = Some c \<and> \<not> live C n c)"
    if k: "map_of ?ls k = None"
  proof -
    from k have "k \<notin> set (map fst ?ls)" by (simp add: map_of_eq_None_iff)
    moreover from this have "k \<notin> set ?over" by auto
    moreover have "counter_of k ?s = counter_of k (sweep C n s)"
      unfolding counter_of_fold_throttle_counter [OF d] by (simp add: k)
    ultimately have "counter_of k t = counter_of k (sweep C n s)"
      using t by (simp add: counter_of_fold_on_counter [OF d] counter_of_fold_on_counter [OF od])
    then show ?thesis using counter_of_sweep [OF assms(1), of k C n] by simp
  qed
qed

section \<open>How many guesses get through\<close>

definition passed_in :: "int \<Rightarrow> watched \<Rightarrow> nat" where
  "passed_in p w = length (filter (\<lambda>x. snd x = p) (wt_passed w))"

definition watched_ok :: "throttle_config \<Rightarrow> string \<Rightarrow> int \<Rightarrow> watched \<Rightarrow> bool" where
  "watched_ok C k m w \<longleftrightarrow> keyed_counters (wt_throttle w) \<and>
     (\<forall>(t, p) \<in> set (wt_passed w). p \<le> t \<and> t < p + windowMs C \<and> t \<le> wt_now w) \<and>
     (\<forall>(t, p) \<in> set (wt_passed w). \<forall>(t', p') \<in> set (wt_passed w). p = p' \<or> p + windowMs C \<le> p' \<or> p' + windowMs C \<le> p) \<and>
     (\<forall>p. int (passed_in p w) \<le> m) \<and>
     (case counter_of k (wt_throttle w) of
        None \<Rightarrow> \<forall>(t, p) \<in> set (wt_passed w). p + windowMs C \<le> wt_now w
      | Some c \<Rightarrow> lc_max c = m \<and> lc_since c \<le> wt_now w \<and> lc_attempts c = int (passed_in (lc_since c) w) \<and>
          (\<forall>(t, p) \<in> set (wt_passed w). p = lc_since c \<or> p + windowMs C \<le> lc_since c))"

lemma watched_ok_later:
  "watched_ok C k m w \<Longrightarrow> wt_now w \<le> n \<Longrightarrow> watched_ok C k m (w\<lparr>wt_now := n\<rparr>)"
  unfolding watched_ok_def passed_in_def by (fastforce split: option.splits)

lemma watched_ok_throttle:
  assumes "watched_ok C k m w" and "keyed_counters s"
    and "counter_of k s = counter_of k (wt_throttle w) \<or>
      counter_of k s = None \<and> (\<exists>c. counter_of k (wt_throttle w) = Some c \<and> \<not> live C (wt_now w) c)"
  shows "watched_ok C k m (w\<lparr>wt_throttle := s\<rparr>)"
  using assms(3)
proof
  assume "counter_of k s = counter_of k (wt_throttle w)"
  with assms(1,2) show ?thesis by (auto simp: watched_ok_def passed_in_def split: option.splits)
next
  assume "counter_of k s = None \<and> (\<exists>c. counter_of k (wt_throttle w) = Some c \<and> \<not> live C (wt_now w) c)"
  then obtain c where c: "counter_of k s = None" "counter_of k (wt_throttle w) = Some c" "lc_since c + windowMs C \<le> wt_now w"
    by (auto simp: live_def)
  have "p + windowMs C \<le> wt_now w" if "(t, p) \<in> set (wt_passed w)" for t p
    using assms(1) that c(2,3) by (fastforce simp: watched_ok_def)
  with assms(1,2) c show ?thesis by (auto simp: watched_ok_def passed_in_def)
qed

text \<open>An attempt against the limit \<open>k\<close> at the time \<open>n\<close>.\<close>

lemma watched_ok_attempt:
  assumes ok: "watched_ok C k m w" and w: "0 < windowMs C" and "0 \<le> m"
    and keyed: "keyed_counters s" and c: "counter_of k s = Some c"
    and old: "old = current C (wt_now w) m (counter_of k (wt_throttle w))"
    and new: "lc_since c = lc_since old" "lc_max c = lc_max old" "lc_attempts c = (if passes then lc_attempts old + 1 else lc_attempts old)"
      "passes \<Longrightarrow> lc_attempts old < lc_max old"
  shows "watched_ok C k m (w\<lparr>wt_throttle := s, wt_passed := wt_passed w @ (if passes then [(wt_now w, lc_since c)] else [])\<rparr>)"
proof -
  let ?n = "wt_now w" and ?W = "windowMs C" and ?p = "lc_since old"
  have old_ok: "lc_max old = m \<and> ?p \<le> ?n \<and> ?n < ?p + ?W \<and> lc_attempts old = int (passed_in ?p w) \<and>
    (\<forall>(t, p) \<in> set (wt_passed w). p = ?p \<or> p + ?W \<le> ?p)"
  proof (cases "\<exists>c'. counter_of k (wt_throttle w) = Some c' \<and> live C ?n c'")
    case True
    then obtain c' where "counter_of k (wt_throttle w) = Some c'" "live C ?n c'" by blast
    with ok old show ?thesis by (auto simp: watched_ok_def current_def live_def)
  next
    case False
    then have o: "old = \<lparr>lc_max = m, lc_since = ?n, lc_attempts = 0, lc_reported = False\<rparr>"
      using old by (auto simp: current_def split: option.splits)
    have over: "p + ?W \<le> ?n" if "(t, p) \<in> set (wt_passed w)" for t p
      using ok False that by (fastforce simp: watched_ok_def live_def split: option.splits)
    then have "passed_in ?n w = 0" using w by (fastforce simp: passed_in_def filter_empty_conv)
    with o over w show ?thesis by auto
  qed
  show ?thesis
  proof (cases passes)
    case False
    with ok old_ok keyed c new show ?thesis by (auto simp: watched_ok_def passed_in_def)
  next
    case True
    let ?w = "w\<lparr>wt_throttle := s, wt_passed := wt_passed w @ [(?n, ?p)]\<rparr>"
    have n: "passed_in p ?w = passed_in p w + (if p = ?p then 1 else 0)" for p by (simp add: passed_in_def)
    have "int (passed_in p ?w) \<le> m" for p
      using ok old_ok new(4) [OF True] unfolding n by (cases "p = ?p") (auto simp: watched_ok_def)
    moreover have "lc_attempts c = int (passed_in ?p ?w)" using old_ok new(3) True unfolding n by simp
    moreover have "\<forall>(t, p) \<in> set (wt_passed ?w). p \<le> t \<and> t < p + ?W \<and> t \<le> ?n"
      using ok old_ok by (auto simp: watched_ok_def)
    moreover have "\<forall>(t, p) \<in> set (wt_passed ?w). \<forall>(t', p') \<in> set (wt_passed ?w). p = p' \<or> p + ?W \<le> p' \<or> p' + ?W \<le> p"
      using ok old_ok by (fastforce simp: watched_ok_def)
    ultimately show ?thesis
      using old_ok keyed c new(1,2) True unfolding watched_ok_def by auto
  qed
qed

lemma watched_ok_watch:
  assumes ok: "watched_ok C k m w" and W: "0 < windowMs C" and k: "(k, m) \<in> set (limitsOf C l\<^sub>0)"
    and n: "wt_now w \<le> n" and s: "no_success C k (n, ev)"
  shows "watched_ok C k m (watch C k w (n, ev))"
proof -
  let ?w = "w\<lparr>wt_now := n\<rparr>"
  have later: "watched_ok C k m ?w" by (rule watched_ok_later [OF ok n])
  then have keyed: "keyed_counters (wt_throttle w)" by (simp add: watched_ok_def)
  show ?thesis
  proof (cases ev)
    case (Success l)
    have "k \<notin> set (map fst (limitsOf C l))" using s Success by (simp add: no_success_def)
    then have "counter_of k (login_succeeded C l (wt_throttle w)) = counter_of k (wt_throttle w)"
      by (simp add: login_succeeded_def counter_of_fold_on_counter [OF limits_distinct])
    moreover have "keyed_counters (login_succeeded C l (wt_throttle w))"
      using keyed by (simp add: login_succeeded_def keyed_fold_on_counter)
    moreover have "watch C k w (n, ev) = ?w\<lparr>wt_throttle := login_succeeded C l (wt_throttle w)\<rparr>"
      by (cases w) (simp add: watch_def Success)
    ultimately show ?thesis using watched_ok_throttle [OF later] by simp
  next
    case (Attempt l)
    obtain passes t where t: "tryAttempt C l n (wt_throttle w) = (passes, t)" by fastforce
    note eff = tryAttempt_effect [OF keyed t]
    show ?thesis
    proof (cases "map_of (limitsOf C l) k")
      case None
      then have "k \<notin> fst ` set (limitsOf C l)" by (simp add: map_of_eq_None_iff)
      then have "watch C k w (n, ev) = ?w\<lparr>wt_throttle := t\<rparr>" by (simp add: watch_def Attempt t)
      then show ?thesis using watched_ok_throttle [OF later eff(1)] eff(3) [OF None] by simp
    next
      case (Some m')
      then have "(k, m') \<in> set (limitsOf C l)" by (rule map_of_SomeD)
      then have "m' = m" and in_k: "k \<in> fst ` set (limitsOf C l)" using limits_max k by (blast, force)
      have "0 \<le> m" using limitsOf_at_least_1 [OF k] by simp
      obtain c where c: "counter_of k t = Some c"
        and new: "lc_since c = lc_since (current C n m (counter_of k (wt_throttle w)))"
          "lc_max c = lc_max (current C n m (counter_of k (wt_throttle w)))"
          "lc_attempts c = (if passes then lc_attempts (current C n m (counter_of k (wt_throttle w))) + 1
             else lc_attempts (current C n m (counter_of k (wt_throttle w))))"
          "passes \<Longrightarrow> lc_attempts (current C n m (counter_of k (wt_throttle w))) < lc_max (current C n m (counter_of k (wt_throttle w)))"
        using eff(2) [OF Some] \<open>m' = m\<close> unfolding Let_def by blast
      have "watch C k w (n, ev) = ?w\<lparr>wt_throttle := t, wt_passed := wt_passed ?w @ (if passes then [(wt_now ?w, lc_since c)] else [])\<rparr>"
        using c in_k by (simp add: watch_def Attempt t counter_of_def)
      then show ?thesis using watched_ok_attempt [OF later W \<open>0 \<le> m\<close> eff(1) c, of _ passes] new by simp
    qed
  qed
qed

lemma watched_ok_history:
  assumes "0 < windowMs C" and "(k, m) \<in> set (limitsOf C l\<^sub>0)"
    and "watched_ok C k m w" and "in_order (wt_now w) h" and "\<forall>x\<in>set h. no_success C k x"
  shows "watched_ok C k m (foldl (watch C k) w h)"
  using assms(3-)
proof (induction h arbitrary: w)
  case (Cons x h)
  obtain n ev where x: "x = (n, ev)" by fastforce
  have ok: "watched_ok C k m (watch C k w (n, ev))"
    using watched_ok_watch [OF Cons.prems(1) assms(1,2)] Cons.prems(2,3) x by simp
  have now: "wt_now (watch C k w (n, ev)) = n" by (auto simp: watch_def split: throttle_event.splits prod.splits)
  with Cons.IH [OF ok] Cons.prems(2,3) x show ?case by simp
qed simp

lemma watched_ok_start: "0 \<le> m \<Longrightarrow> watched_ok C k m (watched_start n)"
  by (simp add: watched_ok_def watched_start_def throttle_start_def keyed_counters_def counter_of_def passed_in_def)

lemma length_filter_two:
  "\<forall>x\<in>set xs. P x \<longrightarrow> Q x \<or> R x \<Longrightarrow> length (filter P xs) \<le> length (filter Q xs) + length (filter R xs)"
  by (induction xs) auto

text \<open>At most two windows meet a span of time as long as a window.\<close>

lemma watched_ok_span:
  assumes ok: "watched_ok C k m w" and "0 < windowMs C"
  shows "int (length (filter (\<lambda>(t, p). \<tau> \<le> t \<and> t < \<tau> + windowMs C) (wt_passed w))) \<le> 2 * m"
proof -
  let ?W = "windowMs C"
  let ?P = "\<lambda>(t, p). \<tau> \<le> t \<and> t < \<tau> + ?W"
  have most: "int (passed_in p w) \<le> m" for p using ok by (simp add: watched_ok_def)
  have at: "p \<le> t \<and> t < p + ?W" if "(t, p) \<in> set (wt_passed w)" for t p
    using ok that by (auto simp: watched_ok_def)
  have apart: "p = p' \<or> p + ?W \<le> p' \<or> p' + ?W \<le> p" if "(t, p) \<in> set (wt_passed w)" "(t', p') \<in> set (wt_passed w)" for t p t' p'
    using ok that unfolding watched_ok_def by blast
  obtain p q where pq: "\<forall>x\<in>set (wt_passed w). ?P x \<longrightarrow> snd x = p \<or> snd x = q"
  proof (cases "\<exists>x\<in>set (wt_passed w). \<exists>y\<in>set (wt_passed w). ?P x \<and> ?P y \<and> snd x \<noteq> snd y")
    case True
    then obtain t p t' q where x: "(t, p) \<in> set (wt_passed w)" "(t', q) \<in> set (wt_passed w)" "?P (t, p)" "?P (t', q)" "p \<noteq> q"
      by force
    have "r = p \<or> r = q" if "(u, r) \<in> set (wt_passed w)" "?P (u, r)" for u r
      using apart [OF x(1,2)] apart [OF that(1) x(1)] apart [OF that(1) x(2)] at [OF x(1)] at [OF x(2)] at [OF that(1)] x(3-5) that(2)
      by auto
    then have "\<forall>x\<in>set (wt_passed w). ?P x \<longrightarrow> snd x = p \<or> snd x = q" by force
    then show thesis by (rule that)
  next
    case False
    then show thesis
      by (cases "\<exists>x\<in>set (wt_passed w). ?P x") (metis (no_types, lifting) that, metis (no_types, lifting) that)
  qed
  have "length (filter ?P (wt_passed w)) \<le> passed_in p w + passed_in q w"
    unfolding passed_in_def by (rule length_filter_two [OF pq])
  with most [of p] most [of q] show ?thesis by simp
qed

text \<open>
  C24: In any span of time as long as a window at most twice the limit of attempts against a limited key, a
  username at a client address or a client address, get past the throttle while none of them succeeds,
  whatever else is tried at the same time and however close together the attempts come. Twice the limit is
  reached where one window ends and the next begins.
\<close>

theorem guesses_bounded:
  assumes "(k, m) \<in> set (limitsOf C l)" and "0 < windowMs C"
    and "in_order start h" and "\<forall>x\<in>set h. no_success C k x"
  shows "int (length (filter (\<lambda>(t, p). \<tau> \<le> t \<and> t < \<tau> + windowMs C)
    (wt_passed (foldl (watch C k) (watched_start start) h)))) \<le> 2 * m"
proof -
  have m: "0 \<le> m" using limitsOf_at_least_1 [OF assms(1)] by simp
  have "in_order (wt_now (watched_start start)) h" using assms(3) by (simp add: watched_start_def)
  then have "watched_ok C k m (foldl (watch C k) (watched_start start) h)"
    by (rule watched_ok_history [OF assms(2,1) watched_ok_start [OF m] _ assms(4)])
  then show ?thesis using assms(2) by (rule watched_ok_span)
qed

definition throttle_example :: throttle_config where
  "throttle_example = \<lparr>maxUsernameFailures = Some 2, maxClientFailures = None, windowMs = 10\<rparr>"

definition login_example :: login where
  "login_example = \<lparr>lg_username = Some (JStr ''Bob''), lg_clientIp = Some (JStr ''1'')\<rparr>"

theorem guesses_bounded_witness:
  "int (length (filter (\<lambda>(t, p). 108 \<le> t \<and> t < 108 + windowMs throttle_example)
    (wt_passed (foldl (watch throttle_example ''user bob at client 1'') (watched_start 100)
      [(100, Attempt login_example), (109, Attempt login_example), (109, Attempt login_example),
       (110, Attempt login_example), (111, Attempt login_example), (112, Attempt login_example)])))) \<le> 4 \<and>
   map fst (wt_passed (foldl (watch throttle_example ''user bob at client 1'') (watched_start 100)
      [(100, Attempt login_example), (109, Attempt login_example), (109, Attempt login_example),
       (110, Attempt login_example), (111, Attempt login_example), (112, Attempt login_example)])) = [100, 109, 110, 111]"
proof
  show "int (length (filter (\<lambda>(t, p). 108 \<le> t \<and> t < 108 + windowMs throttle_example)
    (wt_passed (foldl (watch throttle_example ''user bob at client 1'') (watched_start 100)
      [(100, Attempt login_example), (109, Attempt login_example), (109, Attempt login_example),
       (110, Attempt login_example), (111, Attempt login_example), (112, Attempt login_example)])))) \<le> 4"
    using guesses_bounded [of "''user bob at client 1''" 2 throttle_example login_example 100
      "[(100, Attempt login_example), (109, Attempt login_example), (109, Attempt login_example),
        (110, Attempt login_example), (111, Attempt login_example), (112, Attempt login_example)]" 108]
    by code_simp
qed code_simp

end
