(* ===== verification/Accounts.thy ===== *)
theory Accounts
  imports LoginThrottle
begin

text \<open>
  The accounts of the user module (\<^verbatim>\<open>modules/user/src\<close>): the table of users and every statement on it
  (\<^verbatim>\<open>userRepository.js\<close>), the object made of a row (\<^verbatim>\<open>user.js\<close>), the tokens of reset links (\<^verbatim>\<open>tokens.js\<close>)
  and the tests of usernames, emails and passwords (\<^verbatim>\<open>validation.js\<close>). Names, organizations and intended uses
  are kept as they are supplied; times are milliseconds.
\<close>

section \<open>Texts\<close>

definition isText :: "json option \<Rightarrow> bool" where
  "isText v \<longleftrightarrow> text_of v \<noteq> None"

definition USERNAME_MAX_LENGTH :: nat where "USERNAME_MAX_LENGTH = 30"
definition EMAIL_MAX_LENGTH :: nat where "EMAIL_MAX_LENGTH = 254"
definition PASSWORD_MIN_LENGTH :: nat where "PASSWORD_MIN_LENGTH = 12"
definition PASSWORD_MAX_LENGTH :: nat where "PASSWORD_MAX_LENGTH = 100"

definition is_letter :: "char \<Rightarrow> bool" where
  "is_letter c = (let n = of_char c :: nat in 65 \<le> n \<and> n \<le> 90 \<or> 97 \<le> n \<and> n \<le> 122)"

definition USERNAME_FORMAT :: "string \<Rightarrow> bool" where
  "USERNAME_FORMAT s = (case s of [] \<Rightarrow> False
     | c # cs \<Rightarrow> (is_letter c \<or> c = CHR ''_'') \<and> list_all (\<lambda>c. is_letter c \<or> is_digit c) cs)"

definition USERNAME_BLACKLIST :: "string list" where
  "USERNAME_BLACKLIST = [
    ''_apt'', ''backup'', ''bin'', ''daemon'', ''games'', ''gnats'', ''irc'', ''list'', ''lp'', ''mail'', ''man'',
    ''messagebus'', ''news'', ''nobody'', ''node'', ''proxy'', ''root'', ''sshd'', ''sssd'', ''sync'', ''sys'',
    ''systemd-network'', ''systemd-resolve'', ''systemd-timesync'', ''uucp'', ''www-data'']"

text \<open>A part of an address between dots; a quoted one; a domain of labels, or of four numbers in brackets.\<close>

definition is_atom_char :: "char \<Rightarrow> bool" where
  "is_atom_char c \<longleftrightarrow> c \<notin> set ''<>()[].,;:@'' \<and> c \<noteq> CHR 0x5C \<and> c \<noteq> CHR 0x22 \<and> \<not> is_space c"

definition is_quoted :: "string \<Rightarrow> bool" where
  "is_quoted s \<longleftrightarrow> 3 \<le> length s \<and> hd s = CHR 0x22 \<and> last s = CHR 0x22 \<and> CHR 0x0A \<notin> set s \<and> CHR 0x0D \<notin> set s"

definition is_local_part :: "string \<Rightarrow> bool" where
  "is_local_part s \<longleftrightarrow> list_all (\<lambda>a. a \<noteq> [] \<and> list_all is_atom_char a) (split_on (CHR ''.'') s) \<or> is_quoted s"

definition is_domain :: "string \<Rightarrow> bool" where
  "is_domain s = (let labels = split_on (CHR ''.'') s in
     2 \<le> length labels
     \<and> list_all (\<lambda>l. l \<noteq> [] \<and> list_all (\<lambda>c. is_letter c \<or> is_digit c \<or> c = CHR ''-'') l) (butlast labels)
     \<and> 2 \<le> length (last labels) \<and> list_all is_letter (last labels))"

definition is_address :: "string \<Rightarrow> bool" where
  "is_address s = (s \<noteq> [] \<and> hd s = CHR ''['' \<and> last s = CHR '']'' \<and> (let ns = split_on (CHR ''.'') (butlast (tl s)) in
     length ns = 4 \<and> list_all (\<lambda>n. n \<noteq> [] \<and> length n \<le> 3 \<and> list_all is_digit n) ns))"

definition EMAIL_FORMAT :: "string \<Rightarrow> bool" where
  "EMAIL_FORMAT s = (let at_sign = (\<lambda>c. c = CHR ''@''); domain = rev (takeWhile (\<lambda>c. \<not> at_sign c) (rev s));
     name = butlast (rev (dropWhile (\<lambda>c. \<not> at_sign c) (rev s))) in
     CHR ''@'' \<in> set s \<and> is_local_part name \<and> (is_domain domain \<or> is_address domain))"

definition isValidUsername :: "json option \<Rightarrow> bool" where
  "isValidUsername v = (case text_of v of None \<Rightarrow> False
     | Some s \<Rightarrow> length s \<le> USERNAME_MAX_LENGTH \<and> USERNAME_FORMAT s \<and> s \<notin> set USERNAME_BLACKLIST)"

definition isValidEmail :: "json option \<Rightarrow> bool" where
  "isValidEmail v = (case text_of v of None \<Rightarrow> False | Some s \<Rightarrow> length s \<le> EMAIL_MAX_LENGTH \<and> EMAIL_FORMAT s)"

definition isValidPassword :: "json option \<Rightarrow> bool" where
  "isValidPassword v = (case text_of v of None \<Rightarrow> False
     | Some s \<Rightarrow> PASSWORD_MIN_LENGTH \<le> length s \<and> length s \<le> PASSWORD_MAX_LENGTH)"

section \<open>Users\<close>

datatype user_status = PENDING | ACTIVE | LOCKED

record google_tokens =
  gt_accessToken :: "string option"
  gt_accessTokenExpiryDate :: "int option"
  gt_refreshToken :: "string option"
  gt_projectId :: json
  gt_legacyProject :: bool

text \<open>A row of \<^verbatim>\<open>sepal_user\<close>.\<close>

record user_row =
  c_id :: int
  c_username :: string
  c_name :: json
  c_email :: "string option"
  c_organization :: json
  c_intended_use :: json
  c_token :: "string option"
  c_token_generation_time :: int
  c_admin :: bool
  c_system_user :: bool
  c_status :: user_status
  c_google :: google_tokens
  c_creation_time :: int
  c_update_time :: int
  c_last_login_time :: "int option"
  c_email_notifications_enabled :: bool
  c_manual_map_rendering_enabled :: bool
  c_privacy_policy_accepted :: bool
  c_password_hash :: "string option"
  c_ssh_public_key :: "string option"
  c_uid :: "int option"
  c_gid :: "int option"
  c_revision :: nat

record user =
  u_id :: int
  u_uid :: "int option"
  u_gid :: "int option"
  u_name :: json
  u_username :: string
  u_email :: "string option"
  u_organization :: json
  u_intendedUse :: json
  u_googleTokens :: "google_tokens option"
  u_emailNotificationsEnabled :: bool
  u_manualMapRenderingEnabled :: bool
  u_privacyPolicyAccepted :: bool
  u_status :: user_status
  u_roles :: "string list"
  u_systemUser :: bool
  u_admin :: bool
  u_creationTime :: int
  u_updateTime :: int
  u_revision :: nat
  u_lastLoginTime :: "int option"
  u_token :: "string option"
  u_tokenGenerationTime :: int
  u_passwordHash :: "string option"
  u_sshPublicKey :: "string option"

definition falsy_text :: "string option \<Rightarrow> bool" where
  "falsy_text s \<longleftrightarrow> s = None \<or> s = Some []"

definition toGoogleTokens :: "user_row \<Rightarrow> google_tokens option" where
  "toGoogleTokens r = (if falsy_text (gt_refreshToken (c_google r)) \<and> falsy_text (gt_accessToken (c_google r)) then None
     else Some (c_google r))"

definition rowToUser :: "user_row \<Rightarrow> user" where
  "rowToUser r = \<lparr>u_id = c_id r, u_uid = c_uid r, u_gid = c_gid r, u_name = c_name r, u_username = c_username r,
     u_email = c_email r, u_organization = c_organization r, u_intendedUse = c_intended_use r,
     u_googleTokens = toGoogleTokens r, u_emailNotificationsEnabled = c_email_notifications_enabled r,
     u_manualMapRenderingEnabled = c_manual_map_rendering_enabled r, u_privacyPolicyAccepted = c_privacy_policy_accepted r,
     u_status = c_status r, u_roles = (if c_admin r then [''application_admin''] else []), u_systemUser = c_system_user r,
     u_admin = c_admin r, u_creationTime = c_creation_time r, u_updateTime = c_update_time r, u_revision = c_revision r,
     u_lastLoginTime = c_last_login_time r, u_token = c_token r, u_tokenGenerationTime = c_token_generation_time r,
     u_passwordHash = c_password_hash r, u_sshPublicKey = c_ssh_public_key r\<rparr>"

fun text_json :: "string option \<Rightarrow> json" where
  "text_json None = JNull"
| "text_json (Some s) = JStr s"

fun status_json :: "user_status \<Rightarrow> json" where
  "status_json PENDING = JStr ''PENDING''"
| "status_json ACTIVE = JStr ''ACTIVE''"
| "status_json LOCKED = JStr ''LOCKED''"

definition tokens_json :: "google_tokens \<Rightarrow> json" where
  "tokens_json t = JObj [(''accessToken'', text_json (gt_accessToken t)),
     (''accessTokenExpiryDate'', case gt_accessTokenExpiryDate t of None \<Rightarrow> JNull | Some n \<Rightarrow> JNum n),
     (''refreshToken'', text_json (gt_refreshToken t)), (''projectId'', gt_projectId t)]"

definition userToMap :: "user \<Rightarrow> bool \<Rightarrow> json" where
  "userToMap u withGoogleTokens = JObj [
     (''id'', JNum (u_id u)), (''name'', u_name u), (''username'', JStr (u_username u)), (''email'', text_json (u_email u)),
     (''organization'', u_organization u), (''intendedUse'', u_intendedUse u), (''googleUser'', JBool (u_googleTokens u \<noteq> None)),
     (''googleTokens'', case u_googleTokens u of Some t \<Rightarrow> if withGoogleTokens then tokens_json t else JNull | None \<Rightarrow> JNull),
     (''emailNotificationsEnabled'', JBool (u_emailNotificationsEnabled u)),
     (''manualMapRenderingEnabled'', JBool (u_manualMapRenderingEnabled u)),
     (''privacyPolicyAccepted'', JBool (u_privacyPolicyAccepted u)), (''status'', status_json (u_status u)),
     (''roles'', JArr (map JStr (u_roles u))), (''systemUser'', JBool (u_systemUser u)), (''creationTime'', JNum (u_creationTime u)),
     (''updateTime'', JNum (u_updateTime u)), (''revision'', JNum (int (u_revision u))), (''admin'', JBool (u_admin u))]"

section \<open>Tokens\<close>

definition TOKEN_MAX_AGE_MS :: int where "TOKEN_MAX_AGE_MS = 24 * 60 * 60 * 1000"

definition isExpired :: "int \<Rightarrow> int \<Rightarrow> bool" where
  "isExpired generationTimeMs nowMs \<longleftrightarrow> TOKEN_MAX_AGE_MS < nowMs - generationTimeMs"

definition getOrGenerateToken :: "string \<Rightarrow> user \<Rightarrow> int \<Rightarrow> string" where
  "getOrGenerateToken uuid u nowMs = (case u_token u of
     Some t \<Rightarrow> if t \<noteq> [] \<and> \<not> isExpired (u_tokenGenerationTime u) nowMs then t else uuid
   | None \<Rightarrow> uuid)"

section \<open>The table\<close>

text \<open>
  The collation of usernames ignores case and, as MySQL's collations pad with blanks, blanks at the end. How
  emails and tokens compare is the database's: a parameter.
\<close>

definition unpadded :: "string \<Rightarrow> string" where
  "unpadded s = rev (dropWhile (\<lambda>c. c = CHR '' '') (rev s))"

definition column_eq :: "string \<Rightarrow> string \<Rightarrow> bool" where
  "column_eq a b \<longleftrightarrow> ci_eq (unpadded a) (unpadded b)"

record collations =
  same_email :: "string \<Rightarrow> string \<Rightarrow> bool"
  same_token :: "string \<Rightarrow> string \<Rightarrow> bool"

definition matches :: "(string \<Rightarrow> string \<Rightarrow> bool) \<Rightarrow> string \<Rightarrow> string option \<Rightarrow> bool" where
  "matches eq v c = (case c of None \<Rightarrow> False | Some t \<Rightarrow> eq t v)"

datatype account_error = InvalidSelector | DuplicateUser | DatabaseError | NullAccess | UnsupportedScheme | ServiceError

record accounts =
  ac_users :: "user_row list"
  ac_nextId :: int

definition find_row :: "string \<Rightarrow> 'z accounts_scheme \<Rightarrow> user_row option" where
  "find_row username s = find (\<lambda>r. column_eq (c_username r) username) (ac_users s)"

definition findByUsername :: "json option \<Rightarrow> 'z accounts_scheme \<Rightarrow> user option" where
  "findByUsername v s = (case text_of v of None \<Rightarrow> None | Some username \<Rightarrow> map_option rowToUser (find_row username s))"

definition findByToken :: "collations \<Rightarrow> json option \<Rightarrow> 'z accounts_scheme \<Rightarrow> user option" where
  "findByToken K v s = (case text_of v of None \<Rightarrow> None
     | Some token \<Rightarrow> map_option rowToUser (find (\<lambda>r. matches (same_token K) token (c_token r)) (ac_users s)))"

definition findByEmail :: "collations \<Rightarrow> json option \<Rightarrow> 'z accounts_scheme \<Rightarrow> user option" where
  "findByEmail K v s = (case text_of v of None \<Rightarrow> None
     | Some email \<Rightarrow> map_option rowToUser (find (\<lambda>r. matches (same_email K) email (c_email r)) (ac_users s)))"

definition NOW :: "int \<Rightarrow> int" where
  "NOW n = n div 1000 * 1000"

definition bump :: "int \<Rightarrow> user_row \<Rightarrow> user_row" where
  "bump n r = r\<lparr>c_revision := c_revision r + 1, c_update_time := NOW n\<rparr>"

definition requireSelector :: "json option \<Rightarrow> ('s, account_error, string) act" where
  "requireSelector v = (case text_of v of None \<Rightarrow> throw InvalidSelector | Some s \<Rightarrow> ret s)"

definition on_user :: "string \<Rightarrow> (user_row \<Rightarrow> user_row) \<Rightarrow> 'z accounts_scheme \<Rightarrow> 'z accounts_scheme" where
  "on_user username f s = s\<lparr>ac_users := sql_update (\<lambda>r. column_eq (c_username r) username) f (ac_users s)\<rparr>"

type_synonym ('z, 'a) account_act = "('z accounts_scheme, account_error, 'a) act"

definition setLastLoginTime :: "int \<Rightarrow> json option \<Rightarrow> ('z, unit) account_act" where
  "setLastLoginTime n v = bnd (requireSelector v) (\<lambda>u. modify (on_user u (\<lambda>r. r\<lparr>c_last_login_time := Some (NOW n)\<rparr>)))"

definition no_google_tokens :: google_tokens where
  "no_google_tokens = \<lparr>gt_accessToken = None, gt_accessTokenExpiryDate = None, gt_refreshToken = None, gt_projectId = JNull, gt_legacyProject = False\<rparr>"

definition updateGoogleTokens :: "int \<Rightarrow> json option \<Rightarrow> google_tokens option \<Rightarrow> ('z, unit) account_act" where
  "updateGoogleTokens n v tokens = bnd (requireSelector v) (\<lambda>u. modify (on_user u (\<lambda>r.
     bump n (r\<lparr>c_google := (case tokens of None \<Rightarrow> no_google_tokens | Some t \<Rightarrow> t)\<rparr>))))"

definition updatePassword :: "int \<Rightarrow> json option \<Rightarrow> string \<Rightarrow> ('z, unit) account_act" where
  "updatePassword n v hash = bnd (requireSelector v) (\<lambda>u. modify (on_user u (\<lambda>r.
     bump n (r\<lparr>c_password_hash := Some hash, c_token := None\<rparr>))))"

definition acceptPrivacyPolicy_row :: "int \<Rightarrow> json option \<Rightarrow> ('z, unit) account_act" where
  "acceptPrivacyPolicy_row n v = bnd (requireSelector v) (\<lambda>u. modify (on_user u (\<lambda>r. bump n (r\<lparr>c_privacy_policy_accepted := True\<rparr>))))"

definition updateStatus :: "int \<Rightarrow> json option \<Rightarrow> user_status \<Rightarrow> ('z, unit) account_act" where
  "updateStatus n v status = bnd (requireSelector v) (\<lambda>u. modify (on_user u (\<lambda>r. bump n (r\<lparr>c_status := status\<rparr>))))"

text \<open>The unique index refuses a token, or an email, that another row has.\<close>

definition updateToken :: "collations \<Rightarrow> int \<Rightarrow> json option \<Rightarrow> string \<Rightarrow> ('z, unit) account_act" where
  "updateToken K n v token = bnd (requireSelector v) (\<lambda>u. bnd (gets ac_users) (\<lambda>rows.
     if \<exists>r\<in>set rows. column_eq (c_username r) u \<and> (\<exists>q\<in>set rows. \<not> column_eq (c_username q) u \<and> matches (same_token K) token (c_token q))
     then throw DatabaseError
     else modify (on_user u (\<lambda>r. bump n (r\<lparr>c_token := Some token, c_token_generation_time := NOW n\<rparr>)))))"

definition updateSshPublicKey :: "int \<Rightarrow> json option \<Rightarrow> string \<Rightarrow> ('z, unit) account_act" where
  "updateSshPublicKey n v key = bnd (requireSelector v) (\<lambda>u. modify (on_user u (\<lambda>r. bump n (r\<lparr>c_ssh_public_key := Some key\<rparr>))))"

record user_details =
  d_name :: json
  d_email :: "string option"
  d_organization :: json
  d_intendedUse :: json
  d_emailNotificationsEnabled :: bool
  d_manualMapRenderingEnabled :: bool
  d_admin :: bool

text \<open>\<^verbatim>\<open>email <=> ?\<close>: null is equal to null.\<close>

definition email_unchanged :: "collations \<Rightarrow> string option \<Rightarrow> string option \<Rightarrow> bool" where
  "email_unchanged K a b = (case (a, b) of (None, None) \<Rightarrow> True | (Some a, Some b) \<Rightarrow> same_email K a b | _ \<Rightarrow> False)"

definition with_details :: "collations \<Rightarrow> int \<Rightarrow> user_details \<Rightarrow> user_row \<Rightarrow> user_row" where
  "with_details K n d r = bump n (r\<lparr>c_token := (if email_unchanged K (c_email r) (d_email d) then c_token r else None),
     c_name := d_name d, c_email := d_email d, c_organization := d_organization d, c_intended_use := d_intendedUse d,
     c_email_notifications_enabled := d_emailNotificationsEnabled d,
     c_manual_map_rendering_enabled := d_manualMapRenderingEnabled d, c_admin := d_admin d\<rparr>)"

definition updateUserDetails :: "collations \<Rightarrow> int \<Rightarrow> json option \<Rightarrow> user_details \<Rightarrow> int option \<Rightarrow> ('z, bool) account_act" where
  "updateUserDetails K n v d revision = bnd (requireSelector v) (\<lambda>u. bnd (gets ac_users) (\<lambda>rows.
     let hit = (\<lambda>r. column_eq (c_username r) u \<and> (case revision of None \<Rightarrow> True | Some k \<Rightarrow> int (c_revision r) = k)) in
     if \<exists>r\<in>set rows. hit r \<and> (\<exists>q\<in>set rows. \<not> column_eq (c_username q) u
          \<and> (case d_email d of None \<Rightarrow> False | Some e \<Rightarrow> matches (same_email K) e (c_email q)))
     then throw DuplicateUser
     else andthen (modify (\<lambda>s. s\<lparr>ac_users := sql_update hit (with_details K n d) (ac_users s)\<rparr>))
       (ret (0 < sql_matched hit rows))))"

definition new_row :: "int \<Rightarrow> int \<Rightarrow> string \<Rightarrow> json \<Rightarrow> string option \<Rightarrow> json \<Rightarrow> json \<Rightarrow> string \<Rightarrow> user_row" where
  "new_row n i username name email organization intendedUse token = \<lparr>c_id = i, c_username = storedUsername username, c_name = name,
     c_email = email, c_organization = organization, c_intended_use = intendedUse, c_token = Some token,
     c_token_generation_time = NOW n, c_admin = False, c_system_user = False, c_status = PENDING, c_google = no_google_tokens,
     c_creation_time = NOW n, c_update_time = NOW n, c_last_login_time = None, c_email_notifications_enabled = True,
     c_manual_map_rendering_enabled = False, c_privacy_policy_accepted = False, c_password_hash = None,
     c_ssh_public_key = None, c_uid = None, c_gid = None, c_revision = 1\<rparr>"

definition assignDerivedPosixIds :: "int \<Rightarrow> ('z, unit) account_act" where
  "assignDerivedPosixIds i = modify (\<lambda>s. s\<lparr>ac_users := sql_update (\<lambda>r. c_id r = i \<and> (c_uid r = None \<or> c_gid r = None))
     (\<lambda>r. r\<lparr>c_uid := Some (c_id r), c_gid := Some (c_id r)\<rparr>) (ac_users s)\<rparr>)"

definition insert_row :: "collations \<Rightarrow> int \<Rightarrow> string \<Rightarrow> json \<Rightarrow> string option \<Rightarrow> json \<Rightarrow> json \<Rightarrow> string \<Rightarrow> ('z, int) account_act" where
  "insert_row K n username name email organization intendedUse token = bnd (gets ac_users) (\<lambda>rows. bnd (gets ac_nextId) (\<lambda>i.
     if \<exists>q\<in>set rows. column_eq (c_username q) (storedUsername username)
          \<or> (case email of None \<Rightarrow> False | Some e \<Rightarrow> matches (same_email K) e (c_email q)) \<or> matches (same_token K) token (c_token q)
     then throw DuplicateUser
     else andthen (modify (\<lambda>s. s\<lparr>ac_users := ac_users s @ [new_row n i username name email organization intendedUse token],
            ac_nextId := i + 1\<rparr>)) (ret i)))"

definition insertUser :: "collations \<Rightarrow> int \<Rightarrow> string \<Rightarrow> json \<Rightarrow> string option \<Rightarrow> json \<Rightarrow> json \<Rightarrow> string \<Rightarrow> ('z, int) account_act" where
  "insertUser K n username name email organization intendedUse token =
     bnd (insert_row K n username name email organization intendedUse token) (\<lambda>i. andthen (assignDerivedPosixIds i) (ret i))"

text \<open>The queries that only read.\<close>

definition listIdentities :: "'z accounts_scheme \<Rightarrow> user_row list" where
  "listIdentities s = sort_key (\<lambda>r. the (c_uid r))
     (filter (\<lambda>r. c_status r \<noteq> PENDING \<and> (case c_uid r of None \<Rightarrow> False | Some u \<Rightarrow> 10000 \<le> u)) (ac_users s))"

definition listUsers :: "'z accounts_scheme \<Rightarrow> user list" where
  "listUsers s = map rowToUser (sort_key (\<lambda>r. - c_creation_time r) (filter (\<lambda>r. \<not> c_system_user r) (ac_users s)))"

definition emailNotificationsEnabled_of :: "collations \<Rightarrow> json option \<Rightarrow> 'z accounts_scheme \<Rightarrow> bool" where
  "emailNotificationsEnabled_of K v s = (case text_of v of None \<Rightarrow> False | Some email \<Rightarrow>
     (case find (\<lambda>r. matches (same_email K) email (c_email r)) (ac_users s) of None \<Rightarrow> False | Some r \<Rightarrow> c_email_notifications_enabled r))"

definition mostRecentLogin_of :: "json option \<Rightarrow> 'z accounts_scheme \<Rightarrow> json" where
  "mostRecentLogin_of v s = (case text_of v of None \<Rightarrow> JObj [] | Some u \<Rightarrow>
     (case find (\<lambda>r. column_eq (c_username r) u \<and> c_last_login_time r \<noteq> None) (ac_users s) of
        None \<Rightarrow> JObj [] | Some r \<Rightarrow> JObj [(''timestamp'', JNum (the (c_last_login_time r)))]))"

definition mostRecentLoginByUser_of :: "'z accounts_scheme \<Rightarrow> json" where
  "mostRecentLoginByUser_of s = JObj (map (\<lambda>r. (c_username r, JNum (the (c_last_login_time r))))
     (filter (\<lambda>r. c_last_login_time r \<noteq> None \<and> \<not> c_system_user r) (ac_users s)))"

end
