(* ===== verification/SshKeys.thy ===== *)
theory SshKeys
  imports Prelude "HOL-Library.Word" "HOL-Library.Log_Nat"
begin

text \<open>
  The SSH keys users register (\<^verbatim>\<open>modules/user/src/sshKeys.js\<close>): a line of text is parsed into a key type and
  a base64 blob, and the blob is read as the fields of the SSH wire format. A parser is an action over the
  reader's position; base64 and the byte buffers are those of Node. The digest SHA-256 is a parameter.
\<close>

type_synonym bytes = "8 word list"

section \<open>Base64\<close>

definition sextet_char :: "nat \<Rightarrow> char" where
  "sextet_char n = char_of (if n < 26 then 65 + n else if n < 52 then 71 + n else if n < 62 then n - 4 else if n = 62 then 43 else 47)"

definition sextet :: "char \<Rightarrow> nat" where
  "sextet c = (let n = of_char c in if 97 \<le> n then n - 71 else if 65 \<le> n then n - 65 else if 48 \<le> n then n + 4 else if n = 43 then 62 else 63)"

definition is_sextet :: "char \<Rightarrow> bool" where
  "is_sextet c = (let n = of_char c :: nat in 65 \<le> n \<and> n \<le> 90 \<or> 97 \<le> n \<and> n \<le> 122 \<or> 48 \<le> n \<and> n \<le> 57 \<or> n = 43 \<or> n = 47)"

text \<open>\<^verbatim>\<open>Buffer.toString('base64')\<close> and \<^verbatim>\<open>Buffer.from(text, 'base64')\<close> of a text of the shape \<open>BASE64\<close>.\<close>

fun base64_encode :: "bytes \<Rightarrow> string" where
  "base64_encode [] = []"
| "base64_encode [x] = (let a = unat x in [sextet_char (a div 4), sextet_char (a mod 4 * 16), CHR ''='', CHR ''='' ])"
| "base64_encode [x, y] = (let a = unat x; b = unat y in
     [sextet_char (a div 4), sextet_char (a mod 4 * 16 + b div 16), sextet_char (b mod 16 * 4), CHR ''='' ])"
| "base64_encode (x # y # z # bs) = (let a = unat x; b = unat y; c = unat z in
     [sextet_char (a div 4), sextet_char (a mod 4 * 16 + b div 16), sextet_char (b mod 16 * 4 + c div 64), sextet_char (c mod 64)]
     @ base64_encode bs)"

fun of_sextets :: "nat list \<Rightarrow> bytes" where
  "of_sextets (a # b # c # d # ns) = of_nat (a * 4 + b div 16) # of_nat (b mod 16 * 16 + c div 4) # of_nat (c mod 4 * 64 + d) # of_sextets ns"
| "of_sextets [a, b, c] = [of_nat (a * 4 + b div 16), of_nat (b mod 16 * 16 + c div 4)]"
| "of_sextets [a, b] = [of_nat (a * 4 + b div 16)]"
| "of_sextets _ = []"

definition base64_decode :: "string \<Rightarrow> bytes" where
  "base64_decode s = of_sextets (map sextet (takeWhile is_sextet s))"

text \<open>\<^verbatim>\<open>/^[A-Za-z0-9+/]+={0,2}$/\<close>\<close>

definition BASE64 :: "string \<Rightarrow> bool" where
  "BASE64 s \<longleftrightarrow> takeWhile is_sextet s \<noteq> [] \<and> dropWhile is_sextet s \<in> {[], ''='', ''==''}"

section \<open>Reading a blob\<close>

datatype key_error = INVALID_KEY | UNSUPPORTED_TYPE | KEY_TOO_WEAK

datatype thrown = KeyError key_error | TypeError

record wire_reader =
  wr_buffer :: bytes
  wr_offset :: nat

type_synonym 'a reading = "(wire_reader, thrown, 'a) act"

definition MIN_RSA_BITS :: nat where "MIN_RSA_BITS = 2048"

definition MAX_NAME_LENGTH :: nat where "MAX_NAME_LENGTH = 255"

definition expectValid :: "bool \<Rightarrow> ('s, thrown, unit) act" where
  "expectValid c = (if c then ret () else throw (KeyError INVALID_KEY))"

text \<open>\<^verbatim>\<open>readUInt32BE\<close> at the start of four bytes or more.\<close>

fun readUInt32BE :: "bytes \<Rightarrow> nat" where
  "readUInt32BE (a # b # c # d # bs) = ((unat a * 256 + unat b) * 256 + unat c) * 256 + unat d"
| "readUInt32BE _ = 0"

definition read_bytes :: "bytes reading" where
  "read_bytes = bnd (gets wr_buffer) (\<lambda>buffer. bnd (gets wr_offset) (\<lambda>offset. let start = offset + 4 in
     andthen (expectValid (start \<le> length buffer)) (let stop = start + readUInt32BE (drop offset buffer) in
     andthen (expectValid (stop \<le> length buffer)) (
     andthen (modify (\<lambda>r. r\<lparr>wr_offset := stop\<rparr>)) (ret (take (stop - start) (drop start buffer)))))))"

definition latin1 :: "bytes \<Rightarrow> string" where
  "latin1 bs = map (\<lambda>b. char_of (unat b)) bs"

definition read_text :: "string reading" where
  "read_text = bnd read_bytes (\<lambda>b. ret (latin1 b))"

definition read_end :: "unit reading" where
  "read_end = bnd (gets (\<lambda>r. wr_offset r = length (wr_buffer r))) expectValid"

definition ED25519_KEY_LENGTH :: nat where "ED25519_KEY_LENGTH = 32"

definition CURVE_POINT_LENGTHS :: "(string \<times> nat) list" where
  "CURVE_POINT_LENGTHS = [(''nistp256'', 65), (''nistp384'', 97), (''nistp521'', 133)]"

definition UNCOMPRESSED_POINT :: "8 word" where "UNCOMPRESSED_POINT = 4"

definition readEd25519 :: "unit reading" where
  "readEd25519 = bnd read_bytes (\<lambda>k. expectValid (length k = ED25519_KEY_LENGTH))"

definition readEcdsa :: "string \<Rightarrow> unit reading" where
  "readEcdsa curve = bnd read_text (\<lambda>t. andthen (expectValid (t = curve)) (bnd read_bytes (\<lambda>point.
     expectValid (map_of CURVE_POINT_LENGTHS curve = Some (length point) \<and> take 1 point = [UNCOMPRESSED_POINT]))))"

definition withApplication :: "unit reading \<Rightarrow> unit reading" where
  "withApplication readKey = andthen readKey (bnd read_bytes (\<lambda>_. ret ()))"

text \<open>\<^verbatim>\<open>32 - Math.clz32(n)\<close> is the number of binary digits of \<open>n\<close>.\<close>

definition binary_digits :: "nat \<Rightarrow> nat" where
  "binary_digits n = floorlog 2 n"

definition bitLength :: "bytes \<Rightarrow> nat" where
  "bitLength mpint = (case dropWhile (\<lambda>b. b = 0) mpint of [] \<Rightarrow> 0
     | b # rest \<Rightarrow> length rest * 8 + binary_digits (unat b))"

definition readRsa :: "unit reading" where
  "readRsa = bnd read_bytes (\<lambda>_. bnd read_bytes (\<lambda>n.
     if bitLength n < MIN_RSA_BITS then throw (KeyError KEY_TOO_WEAK) else ret ()))"

definition KEY_READERS :: "(string \<times> unit reading) list" where
  "KEY_READERS = [
     (''ssh-ed25519'', readEd25519),
     (''ecdsa-sha2-nistp256'', readEcdsa ''nistp256''),
     (''ecdsa-sha2-nistp384'', readEcdsa ''nistp384''),
     (''ecdsa-sha2-nistp521'', readEcdsa ''nistp521''),
     (''sk-ssh-ed25519@openssh.com'', withApplication readEd25519),
     (''sk-ecdsa-sha2-nistp256@openssh.com'', withApplication (readEcdsa ''nistp256'')),
     (''ssh-rsa'', readRsa)]"

text \<open>
  \<^verbatim>\<open>KEY_READERS[type]\<close> also finds what every object inherits. Called with a reader and no \<open>this\<close>, the
  constructor and \<open>toString\<close> return, and the others throw.
\<close>

definition INHERITED_RETURNING :: "string list" where
  "INHERITED_RETURNING = [''constructor'', ''toString'']"

definition INHERITED_THROWING :: "string list" where
  "INHERITED_THROWING = [''__defineGetter__'', ''__defineSetter__'', ''hasOwnProperty'', ''__lookupGetter__'', ''__lookupSetter__'',
     ''isPrototypeOf'', ''propertyIsEnumerable'', ''valueOf'', ''__proto__'', ''toLocaleString'']"

definition key_reader :: "string \<Rightarrow> unit reading option" where
  "key_reader type = (case map_of KEY_READERS type of Some readKey \<Rightarrow> Some readKey
     | None \<Rightarrow> if type \<in> set INHERITED_RETURNING then Some (ret ())
         else if type \<in> set INHERITED_THROWING then Some (throw TypeError) else None)"

definition read_blob :: "string \<Rightarrow> unit reading" where
  "read_blob type = bnd read_text (\<lambda>t. andthen (expectValid (t = type)) (case key_reader type of
     None \<Rightarrow> throw (KeyError UNSUPPORTED_TYPE)
   | Some readKey \<Rightarrow> andthen readKey read_end))"

section \<open>Parsing a line\<close>

record public_key =
  pk_type :: string
  pk_publicKey :: string
  pk_comment :: string
  pk_fingerprint :: string

definition is_blank :: "char \<Rightarrow> bool" where
  "is_blank c \<longleftrightarrow> c = CHR '' '' \<or> c = CHR 0x09"

text \<open>\<^verbatim>\<open>split(/[ \t]+/)\<close>\<close>

function split_blanks :: "string \<Rightarrow> string list" where
  "split_blanks s = (case dropWhile (\<lambda>c. \<not> is_blank c) s of [] \<Rightarrow> [takeWhile (\<lambda>c. \<not> is_blank c) s]
     | b # rest \<Rightarrow> takeWhile (\<lambda>c. \<not> is_blank c) s # split_blanks (dropWhile is_blank rest))"
  by pat_completeness auto

lemma dropWhile_Cons_shorter: "dropWhile P s = b # rest \<Longrightarrow> length (dropWhile Q rest) < length s"
  using length_dropWhile_le [of P s] length_dropWhile_le [of Q rest] by simp

termination split_blanks by (relation "measure length") (auto simp: dropWhile_Cons_shorter)

declare split_blanks.simps [simp del]

definition fieldsOf :: "json option \<Rightarrow> thrown + string list" where
  "fieldsOf line = (let trimmed = (case line of Some (JStr s) \<Rightarrow> trim s | _ \<Rightarrow> []) in
     if trimmed \<noteq> [] \<and> CHR 0x0D \<notin> set trimmed \<and> CHR 0x0A \<notin> set trimmed then Inr (split_blanks trimmed)
     else Inl (KeyError INVALID_KEY))"

definition decode :: "string option \<Rightarrow> thrown + bytes" where
  "decode base64 = (case base64 of
     Some s \<Rightarrow> if s \<noteq> [] \<and> length s mod 4 = 0 \<and> BASE64 s then Inr (base64_decode s) else Inl (KeyError INVALID_KEY)
   | None \<Rightarrow> Inl (KeyError INVALID_KEY))"

text \<open>\<^verbatim>\<open>replace(/=+$/, '')\<close>\<close>

definition fingerprint :: "(bytes \<Rightarrow> bytes) \<Rightarrow> bytes \<Rightarrow> string" where
  "fingerprint sha256 blob = ''SHA256:'' @ rev (dropWhile (\<lambda>c. c = CHR ''='') (rev (base64_encode (sha256 blob))))"

definition parse_key :: "(bytes \<Rightarrow> bytes) \<Rightarrow> json option \<Rightarrow> thrown + public_key" where
  "parse_key sha256 line = (case fieldsOf line of Inl e \<Rightarrow> Inl e | Inr fs \<Rightarrow>
     (case decode (case tl fs of [] \<Rightarrow> None | base64 # _ \<Rightarrow> Some base64) of Inl e \<Rightarrow> Inl e | Inr blob \<Rightarrow>
     (case fst (read_blob (hd fs) \<lparr>wr_buffer = blob, wr_offset = 0\<rparr>) of Inl e \<Rightarrow> Inl e | Inr _ \<Rightarrow>
        Inr \<lparr>pk_type = hd fs, pk_publicKey = base64_encode blob, pk_comment = join '' '' (drop 2 fs),
          pk_fingerprint = fingerprint sha256 blob\<rparr>)))"

text \<open>A key, the error of a refused one, or an exception that is none of the parser's (\<open>Inl\<close>).\<close>

definition parsePublicKey :: "(bytes \<Rightarrow> bytes) \<Rightarrow> json option \<Rightarrow> thrown + (key_error + public_key)" where
  "parsePublicKey sha256 line = (case parse_key sha256 line of
     Inl (KeyError e) \<Rightarrow> Inr (Inl e) | Inl TypeError \<Rightarrow> Inl TypeError | Inr k \<Rightarrow> Inr (Inr k))"

definition keyName :: "json option \<Rightarrow> string \<Rightarrow> string \<Rightarrow> string" where
  "keyName name comment type = (let given = (case name of Some (JStr s) \<Rightarrow> trim s | _ \<Rightarrow> []) in
     take MAX_NAME_LENGTH (if given \<noteq> [] then given else if comment \<noteq> [] then comment else type @ '' key''))"

definition authorizedKeysLine :: "string \<Rightarrow> string \<Rightarrow> string" where
  "authorizedKeysLine type publicKey = type @ '' '' @ publicKey"

section \<open>Base64 and back\<close>

lemma blank_space: "is_blank c \<Longrightarrow> is_space c"
  by (auto simp: is_blank_def is_space_def)

lemma sextet_char:
  assumes "n < 64"
  shows "sextet (sextet_char n) = n" and "is_sextet (sextet_char n)"
    and "\<not> is_space (sextet_char n)" and "\<not> is_blank (sextet_char n)"
proof -
  show "sextet (sextet_char n) = n" using assms by (auto simp: sextet_def sextet_char_def Let_def of_char_of)
  show "is_sextet (sextet_char n)" using assms by (auto simp: is_sextet_def sextet_char_def Let_def of_char_of)
  show "\<not> is_space (sextet_char n)" using assms by (auto simp: is_space_def sextet_char_def Let_def of_char_of)
  then show "\<not> is_blank (sextet_char n)" using blank_space by blast
qed

lemma not_sextet_pad [simp]: "\<not> is_sextet (CHR ''='')" "\<not> is_blank (CHR ''='')" "\<not> is_space (CHR ''='')"
  by (simp_all add: is_sextet_def is_blank_def is_space_def)

lemma byte_lt: "unat (x :: 8 word) < 256"
  using unsigned_less [of x] by simp

lemma byte_split: "n < 256 \<Longrightarrow> unat (of_nat n :: 8 word) = n"
  by (simp add: unat_of_nat)

lemma byte_sextets:
  fixes x y z :: "8 word"
  shows "unat x div 4 < 64" "unat x mod 4 * 16 < 64" "unat x mod 4 * 16 + unat y div 16 < 64"
    "unat y mod 16 * 4 < 64" "unat y mod 16 * 4 + unat z div 64 < 64" "unat z mod 64 < 64"
  using byte_lt [of x] byte_lt [of y] byte_lt [of z] by auto

lemma pack: "r < (m :: nat) \<Longrightarrow> (k * m + r) div m = k" "r < (m :: nat) \<Longrightarrow> (k * m + r) mod m = r"
  by simp_all

lemma sextets_byte:
  fixes x y z :: "8 word"
  shows "of_nat (unat x div 4 * 4 + (unat x mod 4 * 16) div 16) = x"
    "of_nat (unat x div 4 * 4 + (unat x mod 4 * 16 + unat y div 16) div 16) = x"
    "of_nat ((unat x mod 4 * 16 + unat y div 16) mod 16 * 16 + (unat y mod 16 * 4) div 4) = y"
    "of_nat ((unat x mod 4 * 16 + unat y div 16) mod 16 * 16 + (unat y mod 16 * 4 + unat z div 64) div 4) = y"
    "of_nat ((unat y mod 16 * 4 + unat z div 64) mod 4 * 64 + unat z mod 64) = z"
proof -
  have y: "unat y div 16 < 16" and z: "unat z div 64 < 4" using byte_lt [of y] byte_lt [of z] by (simp_all add: less_mult_imp_div_less)
  show "of_nat (unat x div 4 * 4 + (unat x mod 4 * 16) div 16) = x" by simp
  show "of_nat (unat x div 4 * 4 + (unat x mod 4 * 16 + unat y div 16) div 16) = x"
    unfolding pack [OF y] by simp
  show "of_nat ((unat x mod 4 * 16 + unat y div 16) mod 16 * 16 + (unat y mod 16 * 4) div 4) = y"
    unfolding pack [OF y] by simp
  show "of_nat ((unat x mod 4 * 16 + unat y div 16) mod 16 * 16 + (unat y mod 16 * 4 + unat z div 64) div 4) = y"
    unfolding pack [OF y] pack [OF z] by simp
  show "of_nat ((unat y mod 16 * 4 + unat z div 64) mod 4 * 64 + unat z mod 64) = z"
    unfolding pack [OF z] by simp
qed

fun sextets_of :: "bytes \<Rightarrow> nat list" where
  "sextets_of [] = []"
| "sextets_of [x] = [unat x div 4, unat x mod 4 * 16]"
| "sextets_of [x, y] = [unat x div 4, unat x mod 4 * 16 + unat y div 16, unat y mod 16 * 4]"
| "sextets_of (x # y # z # bs) = [unat x div 4, unat x mod 4 * 16 + unat y div 16, unat y mod 16 * 4 + unat z div 64, unat z mod 64]
     @ sextets_of bs"

lemma of_sextets_of: "of_sextets (sextets_of bs) = bs"
  by (induction bs rule: sextets_of.induct) (simp_all only: of_sextets.simps sextets_of.simps append.simps sextets_byte)

lemma sextets_encoded: "map sextet (takeWhile is_sextet (base64_encode bs)) = sextets_of bs"
  by (induction bs rule: sextets_of.induct) (simp_all add: Let_def sextet_char byte_sextets)

lemma base64_decode_encode [simp]: "base64_decode (base64_encode bs) = bs"
  by (simp add: base64_decode_def sextets_encoded of_sextets_of)

lemma base64_encode_shape: "takeWhile is_sextet (base64_encode bs) @ dropWhile is_sextet (base64_encode bs) = base64_encode bs \<and>
    dropWhile is_sextet (base64_encode bs) \<in> {[], ''='', ''==''} \<and> length (base64_encode bs) mod 4 = 0"
  by (induction bs rule: base64_encode.induct) (auto simp: Let_def sextet_char byte_sextets)

lemma base64_encode_valid: "bs \<noteq> [] \<Longrightarrow> BASE64 (base64_encode bs)"
  using base64_encode_shape [of bs] unfolding BASE64_def
  by (cases bs rule: base64_encode.cases) (auto simp: Let_def sextet_char byte_sextets)

lemma base64_encode_no_blank:
  "c \<in> set (base64_encode bs) \<Longrightarrow> \<not> is_blank c \<and> \<not> is_space c"
  by (induction bs rule: base64_encode.induct) (auto simp: Let_def sextet_char byte_sextets)

lemma decode_encode: "bs \<noteq> [] \<Longrightarrow> decode (Some (base64_encode bs)) = Inr bs"
  using base64_encode_valid [of bs] base64_encode_shape [of bs]
  by (auto simp: decode_def BASE64_def)

section \<open>The fields of a blob\<close>

text \<open>A field of the wire format: the length in four bytes, and as many bytes.\<close>

definition be32 :: "nat \<Rightarrow> bytes" where
  "be32 n = [of_nat (n div 2 ^ 24), of_nat (n div 2 ^ 16 mod 256), of_nat (n div 2 ^ 8 mod 256), of_nat (n mod 256)]"

definition field :: "bytes \<Rightarrow> bytes" where
  "field f = be32 (length f) @ f"

abbreviation reader_at :: "bytes \<Rightarrow> bytes \<Rightarrow> wire_reader" where
  "reader_at pre post \<equiv> \<lparr>wr_buffer = pre @ post, wr_offset = length pre\<rparr>"

lemma readUInt32BE_be32: "n < 2 ^ 32 \<Longrightarrow> readUInt32BE (be32 n @ bs) = n"
proof -
  assume n: "n < 2 ^ 32"
  then have "n div 2 ^ 24 < 256" by auto
  then have "readUInt32BE (be32 n @ bs) = ((n div 2 ^ 24 * 256 + n div 2 ^ 16 mod 256) * 256 + n div 2 ^ 8 mod 256) * 256 + n mod 256"
    by (simp add: be32_def byte_split)
  also have "\<dots> = n"
  proof -
    have "n div 2 ^ 24 = n div 2 ^ 16 div 256" "n div 2 ^ 16 = n div 2 ^ 8 div 256" by (simp_all add: div_mult2_eq [symmetric])
    then show ?thesis by simp
  qed
  finally show ?thesis .
qed

lemma be32_readUInt32BE:
  "length bs \<ge> 4 \<Longrightarrow> be32 (readUInt32BE bs) = take 4 bs \<and> readUInt32BE bs < 2 ^ 32"
proof -
  assume "length bs \<ge> 4"
  then obtain a b c d r where bs: "bs = a # b # c # d # r"
    by (metis (no_types, opaque_lifting) One_nat_def Suc_le_length_iff numeral_eq_Suc pred_numeral_simps(2) pred_numeral_simps(3) semiring_norm(26) semiring_norm(27) semiring_norm(28))
  define n where "n = ((unat a * 256 + unat b) * 256 + unat c) * 256 + unat d"
  note lt = byte_lt [of a] byte_lt [of b] byte_lt [of c] byte_lt [of d]
  have n: "n div 256 = (unat a * 256 + unat b) * 256 + unat c" "n mod 256 = unat d"
    unfolding n_def by (rule pack [OF lt(4)])+
  have n2: "n div 2 ^ 16 = unat a * 256 + unat b"
  proof -
    have "n div 2 ^ 16 = n div 256 div 256" by (simp add: div_mult2_eq [symmetric])
    then show ?thesis unfolding n using pack [OF lt(3)] by simp
  qed
  have "n div 2 ^ 24 = n div 2 ^ 16 div 256" by (simp add: div_mult2_eq [symmetric])
  then have "n div 2 ^ 24 = unat a" "n div 2 ^ 16 mod 256 = unat b" "n div 256 mod 256 = unat c" "n mod 256 = unat d"
    unfolding n n2 using pack [OF lt(2)] by (simp_all only: pack [OF lt(2)] pack [OF lt(3)])
  moreover have "n < 2 ^ 32" using lt unfolding n_def by simp
  moreover have "readUInt32BE bs = n" by (simp add: bs n_def)
  ultimately show ?thesis by (simp add: be32_def bs)
qed

lemma length_be32 [simp]: "length (be32 n) = 4"
  by (simp add: be32_def)

lemma read_bytes_field:
  "length f < 2 ^ 32 \<Longrightarrow> read_bytes (reader_at pre (field f @ post)) = (Inr f, reader_at (pre @ field f) post)"
  by (simp add: read_bytes_def field_def effect_simps expectValid_def Let_def readUInt32BE_be32)

lemma read_bytesE:
  assumes "read_bytes (reader_at pre rest) = (Inr f, r)"
  obtains post where "rest = field f @ post" and "length f < 2 ^ 32" and "r = reader_at (pre @ field f) post"
proof -
  from assms have long: "4 \<le> length rest" "readUInt32BE rest \<le> length rest - 4"
    and f: "f = take (readUInt32BE rest) (drop 4 rest)" and r: "r = \<lparr>wr_buffer = pre @ rest, wr_offset = length pre + 4 + readUInt32BE rest\<rparr>"
    by (auto simp: read_bytes_def effect_simps expectValid_def Let_def split: if_splits)
  have len: "length f = readUInt32BE rest" using f long by simp
  have "rest = take 4 rest @ take (length f) (drop 4 rest) @ drop (length f) (drop 4 rest)" by (simp only: append_take_drop_id)
  then have "rest = field f @ drop (length f) (drop 4 rest)"
    using be32_readUInt32BE [OF long(1)] f len by (simp add: field_def)
  moreover have "r = reader_at (pre @ field f) (drop (length f) (drop 4 rest))"
    using calculation len r by (simp add: field_def)
  ultimately show thesis using that be32_readUInt32BE [OF long(1)] len by simp
qed

text \<open>The number that big-endian bytes stand for, and the bits it takes.\<close>

definition be_value :: "bytes \<Rightarrow> nat" where
  "be_value bs = foldl (\<lambda>n b. n * 256 + unat b) 0 bs"

lemma foldl_be: "foldl (\<lambda>n b. n * 256 + unat b) n bs = n * 256 ^ length bs + foldl (\<lambda>n b. n * 256 + unat (b :: 8 word)) 0 bs"
proof (induction bs arbitrary: n)
  case (Cons b bs)
  show ?case using Cons.IH [of "n * 256 + unat b"] Cons.IH [of "unat b"] by (simp add: algebra_simps)
qed simp

lemma be_value_Cons: "be_value (b # bs) = unat b * 256 ^ length bs + be_value bs"
  using foldl_be [of "unat b" bs] by (simp add: be_value_def)

lemma be_value_less: "be_value bs < 256 ^ length bs"
proof (induction bs)
  case (Cons b bs)
  have "unat b + 1 \<le> 256" using byte_lt [of b] by simp
  then have "(unat b + 1) * 256 ^ length bs \<le> 256 ^ length (b # bs)" unfolding list.size power_Suc add_0_right
    by (simp del: add_mult_distrib)
  moreover have "be_value (b # bs) < (unat b + 1) * 256 ^ length bs" using Cons by (simp add: be_value_Cons)
  ultimately show ?case by (rule order_less_le_trans [rotated])
qed (simp add: be_value_def)

lemma be_value_strip: "be_value (dropWhile (\<lambda>b. b = 0) bs) = be_value bs"
  by (induction bs) (auto simp: be_value_Cons)

lemma floorlog_div_power: "0 < n div 2 ^ k \<Longrightarrow> floorlog 2 n = floorlog 2 (n div 2 ^ k) + k"
proof (induction k arbitrary: n)
  case (Suc k)
  have n: "n div 2 ^ Suc k = n div 2 div 2 ^ k" by (simp add: div_mult2_eq)
  with Suc.prems have "0 < n" by (auto intro: ccontr)
  then have "floorlog 2 n = floorlog 2 (n div 2) + 1" by (subst compute_floorlog) simp
  with Suc.IH [of "n div 2"] Suc.prems n show ?case by simp
qed simp

lemma bitLength_value: "bitLength bs = floorlog 2 (be_value bs)"
proof (cases "dropWhile (\<lambda>b. b = 0) bs")
  case Nil
  then have "be_value bs = 0" unfolding be_value_strip [of bs, symmetric] Nil by (simp add: be_value_def)
  then show ?thesis unfolding bitLength_def Nil by (simp add: floorlog_def)
next
  case (Cons b rest)
  then have "b \<noteq> 0" using hd_dropWhile [of "\<lambda>b. b = 0" bs] by auto
  then have "0 < unat b" by (simp add: unat_gt_0)
  have v: "be_value bs = unat b * 256 ^ length rest + be_value rest"
    using be_value_strip [of bs] Cons by (simp add: be_value_Cons)
  have p: "(256 :: nat) ^ length rest = 2 ^ (length rest * 8)"
    using power_mult [of "2 :: nat" 8 "length rest"] by (simp add: mult.commute)
  have "be_value bs div 2 ^ (length rest * 8) = unat b"
    using be_value_less [of rest] unfolding v p by (simp add: p)
  then have "floorlog 2 (be_value bs) = floorlog 2 (unat b) + length rest * 8"
    using floorlog_div_power [of "be_value bs" "length rest * 8"] \<open>0 < unat b\<close> by simp
  then show ?thesis by (simp add: bitLength_def Cons binary_digits_def)
qed

section \<open>What the readers accept\<close>

definition wire :: "bytes list \<Rightarrow> bytes" where
  "wire fs = concat (map field fs)"

lemma wire_simps [simp]: "wire [] = []" "wire (f # fs) = field f @ wire fs" "wire (fs @ gs) = wire fs @ wire gs"
  by (simp_all add: wire_def)

definition writable :: "bytes list \<Rightarrow> bool" where
  "writable fs \<longleftrightarrow> (\<forall>f\<in>set fs. length f < 2 ^ 32)"

lemma writable_simps [simp]: "writable []" "writable (f # fs) \<longleftrightarrow> length f < 2 ^ 32 \<and> writable fs"
    "writable (fs @ gs) \<longleftrightarrow> writable fs \<and> writable gs"
  by (auto simp: writable_def)

text \<open>A reader accepts exactly the fields of a shape, and moves past them.\<close>

definition accepts :: "unit reading \<Rightarrow> (bytes list \<Rightarrow> bool) \<Rightarrow> bool" where
  "accepts m P \<longleftrightarrow> (\<forall>pre rest r. m (reader_at pre rest) = (Inr (), r) \<longleftrightarrow>
     (\<exists>fs post. P fs \<and> writable fs \<and> rest = wire fs @ post \<and> r = reader_at (pre @ wire fs) post))"

lemma acceptsI:
  assumes "\<And>pre rest r. m (reader_at pre rest) = (Inr (), r) \<Longrightarrow>
      \<exists>fs post. P fs \<and> writable fs \<and> rest = wire fs @ post \<and> r = reader_at (pre @ wire fs) post"
    and "\<And>pre fs post. P fs \<Longrightarrow> writable fs \<Longrightarrow> m (reader_at pre (wire fs @ post)) = (Inr (), reader_at (pre @ wire fs) post)"
  shows "accepts m P"
  unfolding accepts_def using assms by blast

lemma acceptsD:
  assumes "accepts m P" and "m (reader_at pre rest) = (Inr (), r)"
  obtains fs post where "P fs" and "writable fs" and "rest = wire fs @ post" and "r = reader_at (pre @ wire fs) post"
  using assms unfolding accepts_def by blast

lemma accepts_run:
  "accepts m P \<Longrightarrow> P fs \<Longrightarrow> writable fs \<Longrightarrow> m (reader_at pre (wire fs @ post)) = (Inr (), reader_at (pre @ wire fs) post)"
  unfolding accepts_def by blast

lemma accepts_expect: "accepts (expectValid c) (\<lambda>fs. fs = [] \<and> c)"
  by (rule acceptsI) (auto simp: expectValid_def split: if_splits)

lemma accepts_ret: "accepts (ret ()) (\<lambda>fs. fs = [])"
  by (rule acceptsI) auto

lemma accepts_throw: "accepts (throw e) (\<lambda>fs. False)"
  by (rule acceptsI) auto

lemma accepts_field:
  assumes "\<And>f. accepts (m f) (P f)"
  shows "accepts (bnd read_bytes m) (\<lambda>fs. case fs of [] \<Rightarrow> False | f # fs \<Rightarrow> P f fs)"
proof (rule acceptsI)
  fix pre rest r
  assume "bnd read_bytes m (reader_at pre rest) = (Inr (), r)"
  then obtain f r' where f: "read_bytes (reader_at pre rest) = (Inr f, r')" and m: "m f r' = (Inr (), r)"
    by (auto simp: bnd_run split: prod.splits sum.splits)
  from f obtain post where post: "rest = field f @ post" "length f < 2 ^ 32" "r' = reader_at (pre @ field f) post"
    by (rule read_bytesE)
  obtain fs post' where fs: "P f fs" "writable fs" "post = wire fs @ post'" "r = reader_at ((pre @ field f) @ wire fs) post'"
    by (rule acceptsD [OF assms m [unfolded post(3)]])
  show "\<exists>fs post. (case fs of [] \<Rightarrow> False | f # fs \<Rightarrow> P f fs) \<and> writable fs \<and> rest = wire fs @ post \<and> r = reader_at (pre @ wire fs) post"
    by (rule exI [of _ "f # fs"], rule exI [of _ post']) (use post fs in simp)
next
  fix pre fs post
  assume "case fs of [] \<Rightarrow> False | f # fs \<Rightarrow> P f fs" and w: "writable fs"
  then obtain f gs where fs: "fs = f # gs" "P f gs" by (cases fs) auto
  have f: "read_bytes (reader_at pre (field f @ wire gs @ post)) = (Inr f, reader_at (pre @ field f) (wire gs @ post))"
    by (rule read_bytes_field) (use w fs in simp)
  have "m f (reader_at (pre @ field f) (wire gs @ post)) = (Inr (), reader_at ((pre @ field f) @ wire gs) post)"
    by (rule accepts_run [OF assms]) (use w fs in simp_all)
  with f show "bnd read_bytes m (reader_at pre (wire fs @ post)) = (Inr (), reader_at (pre @ wire fs) post)"
    by (simp add: fs bnd_run)
qed

lemma accepts_then:
  assumes "accepts m P" and "accepts n Q"
  shows "accepts (andthen m n) (\<lambda>fs. \<exists>gs hs. fs = gs @ hs \<and> P gs \<and> Q hs)"
proof (rule acceptsI)
  fix pre rest r
  assume "andthen m n (reader_at pre rest) = (Inr (), r)"
  then obtain r' where m: "m (reader_at pre rest) = (Inr (), r')" and n: "n r' = (Inr (), r)"
    by (auto simp: andthen_run split: prod.splits sum.splits)
  obtain gs post where gs: "P gs" "writable gs" "rest = wire gs @ post" "r' = reader_at (pre @ wire gs) post"
    by (rule acceptsD [OF assms(1) m])
  obtain hs post' where hs: "Q hs" "writable hs" "post = wire hs @ post'" "r = reader_at ((pre @ wire gs) @ wire hs) post'"
    by (rule acceptsD [OF assms(2) n [unfolded gs(4)]])
  show "\<exists>fs post. (\<exists>gs hs. fs = gs @ hs \<and> P gs \<and> Q hs) \<and> writable fs \<and> rest = wire fs @ post \<and> r = reader_at (pre @ wire fs) post"
    by (rule exI [of _ "gs @ hs"], rule exI [of _ post']) (use gs hs in auto)
next
  fix pre fs post
  assume "\<exists>gs hs. fs = gs @ hs \<and> P gs \<and> Q hs" and w: "writable fs"
  then obtain gs hs where fs: "fs = gs @ hs" "P gs" "Q hs" by blast
  have "m (reader_at pre (wire gs @ wire hs @ post)) = (Inr (), reader_at (pre @ wire gs) (wire hs @ post))"
    by (rule accepts_run [OF assms(1)]) (use w fs in simp_all)
  moreover have "n (reader_at (pre @ wire gs) (wire hs @ post)) = (Inr (), reader_at ((pre @ wire gs) @ wire hs) post)"
    by (rule accepts_run [OF assms(2)]) (use w fs in simp_all)
  ultimately show "andthen m n (reader_at pre (wire fs @ post)) = (Inr (), reader_at (pre @ wire fs) post)"
    by (simp add: fs andthen_run)
qed

lemma read_text_bnd: "bnd read_text m = bnd read_bytes (\<lambda>b. m (latin1 b))"
  unfolding read_text_def bnd_assoc by simp

text \<open>The fields of each type of key.\<close>

definition ed25519_fields :: "bytes list \<Rightarrow> bool" where
  "ed25519_fields fs \<longleftrightarrow> (case fs of [k] \<Rightarrow> length k = 32 | _ \<Rightarrow> False)"

definition ecdsa_fields :: "string \<Rightarrow> nat \<Rightarrow> bytes list \<Rightarrow> bool" where
  "ecdsa_fields curve n fs \<longleftrightarrow> (case fs of [c, p] \<Rightarrow> latin1 c = curve \<and> length p = n \<and> hd p = 4 | _ \<Rightarrow> False)"

definition with_application :: "(bytes list \<Rightarrow> bool) \<Rightarrow> bytes list \<Rightarrow> bool" where
  "with_application P fs \<longleftrightarrow> fs \<noteq> [] \<and> P (butlast fs)"

definition rsa_fields :: "bytes list \<Rightarrow> bool" where
  "rsa_fields fs \<longleftrightarrow> (case fs of [e, n] \<Rightarrow> 2 ^ 2047 \<le> be_value n | _ \<Rightarrow> False)"

definition KEY_FIELDS :: "(string \<times> (bytes list \<Rightarrow> bool)) list" where
  "KEY_FIELDS = [
     (''ssh-ed25519'', ed25519_fields),
     (''ecdsa-sha2-nistp256'', ecdsa_fields ''nistp256'' 65),
     (''ecdsa-sha2-nistp384'', ecdsa_fields ''nistp384'' 97),
     (''ecdsa-sha2-nistp521'', ecdsa_fields ''nistp521'' 133),
     (''sk-ssh-ed25519@openssh.com'', with_application ed25519_fields),
     (''sk-ecdsa-sha2-nistp256@openssh.com'', with_application (ecdsa_fields ''nistp256'' 65)),
     (''ssh-rsa'', rsa_fields)]"

definition key_fields :: "string \<Rightarrow> bytes list \<Rightarrow> bool" where
  "key_fields type fs \<longleftrightarrow> (case map_of KEY_FIELDS type of Some P \<Rightarrow> P fs
     | None \<Rightarrow> type \<in> {''constructor'', ''toString''} \<and> fs = [])"

lemma accepts_cong: "accepts m P \<Longrightarrow> (\<And>fs. P fs = Q fs) \<Longrightarrow> accepts m Q"
  by (simp add: accepts_def)

lemma accepts_ed25519: "accepts readEd25519 ed25519_fields"
  unfolding readEd25519_def
  by (rule accepts_cong [OF accepts_field [OF accepts_expect]])
    (auto simp: ed25519_fields_def ED25519_KEY_LENGTH_def split: list.splits)

lemma accepts_ecdsa:
  assumes "map_of CURVE_POINT_LENGTHS curve = Some n" and "0 < n"
  shows "accepts (readEcdsa curve) (ecdsa_fields curve n)"
  unfolding readEcdsa_def read_text_bnd
proof (rule accepts_cong [OF accepts_field [OF accepts_then [OF accepts_expect accepts_field [OF accepts_expect]]]])
  fix fs
  show "(case fs of [] \<Rightarrow> False | f # fs \<Rightarrow> \<exists>gs hs. fs = gs @ hs \<and> (gs = [] \<and> latin1 f = curve) \<and>
      (case hs of [] \<Rightarrow> False | f # fs \<Rightarrow> fs = [] \<and> map_of CURVE_POINT_LENGTHS curve = Some (length f) \<and> take 1 f = [UNCOMPRESSED_POINT])) =
    ecdsa_fields curve n fs"
    using assms by (auto simp: ecdsa_fields_def UNCOMPRESSED_POINT_def take_Suc neq_Nil_conv split: list.splits)
qed

lemma accepts_application:
  assumes "accepts m P"
  shows "accepts (withApplication m) (with_application P)"
  unfolding withApplication_def
proof (rule accepts_cong [OF accepts_then [OF assms accepts_field [OF accepts_ret]]])
  fix fs
  show "(\<exists>gs hs. fs = gs @ hs \<and> P gs \<and> (case hs of [] \<Rightarrow> False | f # fs \<Rightarrow> fs = [])) = with_application P fs"
  proof
    assume "\<exists>gs hs. fs = gs @ hs \<and> P gs \<and> (case hs of [] \<Rightarrow> False | f # fs \<Rightarrow> fs = [])"
    then obtain gs hs where "fs = gs @ hs" "P gs" "case hs of [] \<Rightarrow> False | f # fs \<Rightarrow> fs = []" by blast
    then obtain f where "fs = gs @ [f]" "P gs" by (cases hs) auto
    then show "with_application P fs" by (simp add: with_application_def)
  next
    assume "with_application P fs"
    then obtain gs f where "fs = gs @ [f]" "P gs" by (cases fs rule: rev_cases) (auto simp: with_application_def)
    then show "\<exists>gs hs. fs = gs @ hs \<and> P gs \<and> (case hs of [] \<Rightarrow> False | f # fs \<Rightarrow> fs = [])"
      by (intro exI [of _ gs] exI [of _ "[f]"]) simp
  qed
qed

lemma accepts_rsa: "accepts readRsa rsa_fields"
proof -
  have big: "MIN_RSA_BITS \<le> bitLength n \<longleftrightarrow> 2 ^ 2047 \<le> be_value n" for n
    using floorlog_ge_SucI [of 2 2047 "be_value n"] floorlog_geD [of 2048 2 "be_value n"]
    by (auto simp: MIN_RSA_BITS_def bitLength_value)
  have one: "accepts (if bitLength n < MIN_RSA_BITS then throw (KeyError KEY_TOO_WEAK) else ret ()) (\<lambda>fs. fs = [] \<and> 2 ^ 2047 \<le> be_value n)" for n
    using accepts_ret accepts_throw [of "KeyError KEY_TOO_WEAK"] big [of n] by (cases "bitLength n < MIN_RSA_BITS") auto
  show ?thesis unfolding readRsa_def
    by (rule accepts_cong [OF accepts_field [OF accepts_field [OF one]]])
      (auto simp: rsa_fields_def split: list.splits)
qed

lemmas reader_accepts = accepts_ed25519 accepts_application [OF accepts_ed25519] accepts_rsa
  accepts_ecdsa [of "''nistp256''" 65, simplified CURVE_POINT_LENGTHS_def, simplified]
  accepts_ecdsa [of "''nistp384''" 97, simplified CURVE_POINT_LENGTHS_def, simplified]
  accepts_ecdsa [of "''nistp521''" 133, simplified CURVE_POINT_LENGTHS_def, simplified]
  accepts_application [OF accepts_ecdsa [of "''nistp256''" 65, simplified CURVE_POINT_LENGTHS_def, simplified]]

lemma accepts_reader:
  "accepts (case key_reader type of None \<Rightarrow> throw e | Some m \<Rightarrow> m) (key_fields type)"
proof (cases "map_of KEY_READERS type")
  case None
  then have "map_of KEY_FIELDS type = None" by (auto simp: KEY_READERS_def KEY_FIELDS_def split: if_splits)
  with None show ?thesis
    using accepts_ret accepts_throw
    by (auto simp: key_reader_def key_fields_def [abs_def] INHERITED_RETURNING_def split: if_splits)
next
  case (Some m)
  then show ?thesis using reader_accepts
    by (auto simp: key_reader_def key_fields_def [abs_def] KEY_READERS_def KEY_FIELDS_def split: if_splits)
qed

lemma read_blob_header: "read_blob type = andthen (bnd read_bytes (\<lambda>t. andthen (expectValid (latin1 t = type))
    (case key_reader type of None \<Rightarrow> throw (KeyError UNSUPPORTED_TYPE) | Some m \<Rightarrow> m))) read_end"
  unfolding read_blob_def read_text_bnd
  by (rule ext) (auto simp: bnd_run andthen_run split: option.splits prod.splits sum.splits)

text \<open>What a blob is read as: the type, and its fields, to the last byte.\<close>

lemma read_blob_iff:
  "fst (read_blob type \<lparr>wr_buffer = blob, wr_offset = 0\<rparr>) = Inr () \<longleftrightarrow>
   (\<exists>t fs. blob = wire (t # fs) \<and> latin1 t = type \<and> writable (t # fs) \<and> key_fields type fs)"
proof -
  let ?h = "bnd read_bytes (\<lambda>t. andthen (expectValid (latin1 t = type))
      (case key_reader type of None \<Rightarrow> throw (KeyError UNSUPPORTED_TYPE) | Some m \<Rightarrow> m))"
  let ?P = "\<lambda>fs. case fs of [] \<Rightarrow> False | t # fs \<Rightarrow> latin1 t = type \<and> key_fields type fs"
  have h: "accepts ?h ?P"
    by (rule accepts_cong [OF accepts_field [OF accepts_then [OF accepts_expect accepts_reader]]])
      (auto split: list.splits)
  have start: "\<lparr>wr_buffer = blob, wr_offset = 0\<rparr> = reader_at [] blob" by simp
  show ?thesis
  proof
    assume "fst (read_blob type \<lparr>wr_buffer = blob, wr_offset = 0\<rparr>) = Inr ()"
    then obtain r where "?h (reader_at [] blob) = (Inr (), r)" and "wr_offset r = length (wr_buffer r)"
      by (auto simp: read_blob_header andthen_run read_end_def bnd_run expectValid_def split: prod.splits sum.splits if_splits)
    moreover from this(1) obtain fs post where fs: "?P fs" "writable fs" "blob = wire fs @ post" "r = reader_at ([] @ wire fs) post"
      by (rule acceptsD [OF h])
    ultimately have "blob = wire fs" by simp
    with fs(1,2) show "\<exists>t fs. blob = wire (t # fs) \<and> latin1 t = type \<and> writable (t # fs) \<and> key_fields type fs"
      by (auto split: list.splits)
  next
    assume "\<exists>t fs. blob = wire (t # fs) \<and> latin1 t = type \<and> writable (t # fs) \<and> key_fields type fs"
    then obtain t fs where b: "blob = wire (t # fs)" "latin1 t = type" "writable (t # fs)" "key_fields type fs" by blast
    have "?h (reader_at [] (wire (t # fs) @ [])) = (Inr (), reader_at ([] @ wire (t # fs)) [])"
      by (rule accepts_run [OF h]) (use b in simp_all)
    then show "fst (read_blob type \<lparr>wr_buffer = blob, wr_offset = 0\<rparr>) = Inr ()"
      unfolding start read_blob_header by (simp add: b(1) andthen_run read_end_def bnd_run expectValid_def)
  qed
qed

section \<open>Lines\<close>

lemma trim_same:
  assumes "s \<noteq> []" and "\<not> is_space (hd s)" and "\<not> is_space (last s)"
  shows "trim s = s"
proof -
  have "dropWhile is_space s = s" using assms(1,2) by (cases s) auto
  moreover have "dropWhile is_space (rev s) = rev s" using assms(1,3) by (cases s rule: rev_cases) auto
  ultimately show ?thesis by (simp add: trim_def)
qed

lemma split_blanks_two:
  assumes "\<forall>c\<in>set a. \<not> is_blank c" and "\<forall>c\<in>set b. \<not> is_blank c" and "b \<noteq> []"
  shows "split_blanks (a @ '' '' @ b) = [a, b]"
proof -
  have sp: "is_blank (CHR '' '')" by (simp add: is_blank_def)
  have b: "takeWhile (\<lambda>c. \<not> is_blank c) b = b" "dropWhile (\<lambda>c. \<not> is_blank c) b = []" using assms(2) by simp_all
  have "split_blanks b = [b]" unfolding split_blanks.simps [of b] b by simp
  moreover have "dropWhile is_blank b = b" using assms(2,3) by (cases b) auto
  moreover have "takeWhile (\<lambda>c. \<not> is_blank c) (a @ '' '' @ b) = a" "dropWhile (\<lambda>c. \<not> is_blank c) (a @ '' '' @ b) = '' '' @ b"
    using assms(1) sp by (simp_all add: takeWhile_append dropWhile_append)
  ultimately show ?thesis using sp unfolding split_blanks.simps [of "a @ '' '' @ b"] by simp
qed

lemma key_fields_type:
  assumes "key_fields type fs"
  shows "type \<in> set (map fst KEY_FIELDS) \<union> {''constructor'', ''toString''}"
  using assms by (auto simp: key_fields_def dest: map_of_SomeD split: option.splits intro: rev_image_eqI)

lemma type_has_no_space:
  assumes "key_fields type fs"
  shows "type \<noteq> []" and "\<forall>c\<in>set type. \<not> is_space c"
  using key_fields_type [OF assms] by (auto simp: KEY_FIELDS_def is_space_def)

lemma base64_encode_no_space: "\<forall>c\<in>set (base64_encode bs). \<not> is_space c"
  using base64_encode_no_blank by blast

lemma parsePublicKey_iff:
  "parsePublicKey sha256 line = Inr (Inr k) \<longleftrightarrow> parse_key sha256 line = Inr k"
  by (auto simp: parsePublicKey_def split: sum.splits thrown.splits)

lemma parse_keyD:
  assumes "parse_key sha256 line = Inr k"
  shows "\<exists>t fs. let blob = wire (t # fs) in writable (t # fs) \<and> latin1 t = pk_type k \<and> key_fields (pk_type k) fs \<and>
    pk_publicKey k = base64_encode blob \<and> pk_fingerprint k = fingerprint sha256 blob"
proof -
  obtain fs blob where k: "fst (read_blob (hd fs) \<lparr>wr_buffer = blob, wr_offset = 0\<rparr>) = Inr ()"
      "pk_type k = hd fs" "pk_publicKey k = base64_encode blob" "pk_fingerprint k = fingerprint sha256 blob"
    using assms by (auto simp: parse_key_def split: sum.splits)
  obtain t gs where "blob = wire (t # gs)" "latin1 t = hd fs" "writable (t # gs)" "key_fields (hd fs) gs"
    using k(1) unfolding read_blob_iff by blast
  with k show ?thesis by (intro exI [of _ t] exI [of _ gs]) (simp add: Let_def)
qed

lemma field_not_Nil [simp]: "field f \<noteq> []"
  by (simp add: field_def be32_def)

text \<open>A line of a type and the base64 text of a blob of that type.\<close>

lemma parse_key_pair:
  assumes blob: "blob = wire (t # fs)" and type: "latin1 t = type" and ok: "writable (t # fs)" "key_fields type fs"
  shows "parse_key sha256 (Some (JStr (type @ '' '' @ base64_encode blob))) =
    Inr \<lparr>pk_type = type, pk_publicKey = base64_encode blob, pk_comment = [], pk_fingerprint = fingerprint sha256 blob\<rparr>"
proof -
  let ?b = "base64_encode blob" and ?line = "type @ '' '' @ base64_encode blob"
  have ne: "blob \<noteq> []" by (simp add: blob)
  then have b: "?b \<noteq> []" by (cases blob rule: base64_encode.cases) (simp_all add: Let_def)
  note type_ok = type_has_no_space [OF ok(2)]
  have "trim ?line = ?line"
  proof (rule trim_same)
    show "\<not> is_space (hd ?line)" using type_ok by (cases type) auto
    show "\<not> is_space (last ?line)" using b base64_encode_no_space [of blob] by simp
  qed simp
  moreover have "CHR 0x0D \<notin> set ?line" "CHR 0x0A \<notin> set ?line"
    using type_ok base64_encode_no_space [of blob] by (auto simp: is_space_def)
  moreover have "split_blanks ?line = [type, ?b]"
    using type_ok base64_encode_no_blank [of _ blob] blank_space b by (intro split_blanks_two) auto
  ultimately have "fieldsOf (Some (JStr ?line)) = Inr [type, ?b]" by (simp add: fieldsOf_def Let_def)
  moreover have "fst (read_blob type \<lparr>wr_buffer = blob, wr_offset = 0\<rparr>) = Inr ()"
    using assms unfolding read_blob_iff by blast
  ultimately show ?thesis by (simp add: parse_key_def decode_encode [OF ne])
qed


text \<open>What is stored of an accepted key writes one line, which reads back as the key without its comment.\<close>

lemma key_reads_back:
  assumes "parsePublicKey sha256 line = Inr (Inr k)"
  shows "parsePublicKey sha256 (Some (JStr (authorizedKeysLine (pk_type k) (pk_publicKey k)))) = Inr (Inr (k\<lparr>pk_comment := []\<rparr>)) \<and>
    filter is_space (authorizedKeysLine (pk_type k) (pk_publicKey k)) = '' ''"
proof -
  obtain t fs where k: "writable (t # fs)" "latin1 t = pk_type k" "key_fields (pk_type k) fs"
      "pk_publicKey k = base64_encode (wire (t # fs))" "pk_fingerprint k = fingerprint sha256 (wire (t # fs))"
    using parse_keyD assms unfolding parsePublicKey_iff by (metis (no_types, lifting))
  have "k\<lparr>pk_comment := []\<rparr> = \<lparr>pk_type = pk_type k, pk_publicKey = base64_encode (wire (t # fs)), pk_comment = [],
      pk_fingerprint = fingerprint sha256 (wire (t # fs))\<rparr>"
    using k(4,5) by (cases k) simp
  moreover have "filter is_space (authorizedKeysLine (pk_type k) (pk_publicKey k)) = '' ''"
    using type_has_no_space(2) [OF k(3)] base64_encode_no_space [of "wire (t # fs)"] k(4)
    by (simp add: authorizedKeysLine_def filter_empty_conv is_space_def)
  ultimately show ?thesis
    using parse_key_pair [OF refl k(2,1,3), of sha256] k(4) unfolding parsePublicKey_iff authorizedKeysLine_def by simp
qed

definition key_example :: string where
  "key_example = ''AAAAC3NzaC1lZDI1NTE5AAAAIFTTtG0hPe95rIxeTXi4nSx4CHf59bz6WQ6e8K0fhOWn''"

lemma key_example_parses:
  "parsePublicKey (\<lambda>b. []) (Some (JStr (''  ssh-ed25519 '' @ key_example @ '' alice@laptop  ''))) =
    Inr (Inr \<lparr>pk_type = ''ssh-ed25519'', pk_publicKey = key_example, pk_comment = ''alice@laptop'', pk_fingerprint = ''SHA256:''\<rparr>)"
  by code_simp

text \<open>A line whose type every object inherits is taken as a key, or neither taken nor refused.\<close>

lemma inherited_type_accepted:
  "parsePublicKey (\<lambda>b. []) (Some (JStr ''constructor AAAAC2NvbnN0cnVjdG9y'')) =
    Inr (Inr \<lparr>pk_type = ''constructor'', pk_publicKey = ''AAAAC2NvbnN0cnVjdG9y'', pk_comment = [], pk_fingerprint = ''SHA256:''\<rparr>)"
  by code_simp

lemma inherited_type_throws:
  "parsePublicKey (\<lambda>b. []) (Some (JStr ''valueOf AAAAB3ZhbHVlT2Y='')) = Inl TypeError"
  by code_simp

end
