(* ===== verification/Passwords.thy ===== *)
theory Passwords
  imports SshKeys
begin

text \<open>
  How the user module hashes and verifies passwords (\<^verbatim>\<open>modules/user/src/crypto.js\<close>). The primitives SHA-1
  and scrypt are parameters; scrypt refuses parameters it cannot work with. A text is its bytes.
\<close>

record crypto =
  sha1 :: "bytes \<Rightarrow> bytes"
  scrypt :: "bytes \<Rightarrow> bytes \<Rightarrow> nat \<Rightarrow> nat \<Rightarrow> nat \<Rightarrow> nat \<Rightarrow> bytes option"

datatype crypto_error = Unsupported string | Refused

definition SHA1_DIGEST_BYTES :: nat where "SHA1_DIGEST_BYTES = 20"
definition SCRYPT_SCHEME :: string where "SCRYPT_SCHEME = ''SCRYPT''"
definition SCRYPT_N :: nat where "SCRYPT_N = 16384"
definition SCRYPT_R :: nat where "SCRYPT_R = 8"
definition SCRYPT_P :: nat where "SCRYPT_P = 1"
definition SCRYPT_SALT_BYTES :: nat where "SCRYPT_SALT_BYTES = 16"
definition SCRYPT_KEY_BYTES :: nat where "SCRYPT_KEY_BYTES = 64"

definition bytes_of :: "string \<Rightarrow> bytes" where
  "bytes_of s = map (\<lambda>c. of_nat (of_char c)) s"

definition upper_char :: "char \<Rightarrow> char" where
  "upper_char c = (let n = of_char c :: nat in if 97 \<le> n \<and> n \<le> 122 then char_of (n - 32) else c)"

definition is_scheme_char :: "char \<Rightarrow> bool" where
  "is_scheme_char c = (let n = of_char c :: nat in 65 \<le> n \<and> n \<le> 90 \<or> 97 \<le> n \<and> n \<le> 122 \<or> 48 \<le> n \<and> n \<le> 57 \<or> c = CHR ''_'' \<or> c = CHR ''-'')"

text \<open>\<^verbatim>\<open>/^\{([\w-]+)\}(.*)$/\<close>: a scheme in braces and the value after it, without line ends.\<close>

definition parseScheme :: "string \<Rightarrow> string \<times> string" where
  "parseScheme stored = (let plain = (''PLAIN'', stored) in case stored of [] \<Rightarrow> plain
     | c # cs \<Rightarrow> (let scheme = takeWhile is_scheme_char cs in
         (case dropWhile is_scheme_char cs of [] \<Rightarrow> plain
          | d # v \<Rightarrow> if c = CHR ''{'' \<and> scheme \<noteq> [] \<and> d = CHR ''}'' \<and> CHR 0x0A \<notin> set v \<and> CHR 0x0D \<notin> set v
              then (map upper_char scheme, v) else plain)))"

definition verifySSHA :: "crypto \<Rightarrow> string \<Rightarrow> string \<Rightarrow> bool" where
  "verifySSHA E plain v = (let decoded = base64_decode v in
     take SHA1_DIGEST_BYTES decoded = sha1 E (bytes_of plain @ drop SHA1_DIGEST_BYTES decoded))"

definition verifySHA :: "crypto \<Rightarrow> string \<Rightarrow> string \<Rightarrow> bool" where
  "verifySHA E plain v \<longleftrightarrow> base64_decode v = sha1 E (bytes_of plain)"

text \<open>\<open>Number(s)\<close>, when it is a natural number.\<close>

definition Number_nat :: "string \<Rightarrow> nat option" where
  "Number_nat s = (if list_all is_digit s then Some (digits_value 0 s) else None)"

definition scryptKey :: "crypto \<Rightarrow> string \<Rightarrow> bytes \<Rightarrow> nat option \<Rightarrow> nat option \<Rightarrow> nat option \<Rightarrow> nat \<Rightarrow> crypto_error + bytes" where
  "scryptKey E plain salt n r p keyLength = (case (n, r, p) of
     (Some n, Some r, Some p) \<Rightarrow> (case scrypt E (bytes_of plain) salt n r p keyLength of None \<Rightarrow> Inl Refused | Some k \<Rightarrow> Inr k)
   | _ \<Rightarrow> Inl Refused)"

definition verifyScrypt :: "crypto \<Rightarrow> string \<Rightarrow> string \<Rightarrow> crypto_error + bool" where
  "verifyScrypt E plain v = (case split_on (CHR ''$'') v of
     n # r # p # salt64 # key64 # _ \<Rightarrow> (let expected = base64_decode key64 in
       (case scryptKey E plain (base64_decode salt64) (Number_nat n) (Number_nat r) (Number_nat p) (length expected) of
          Inl e \<Rightarrow> Inl e | Inr actual \<Rightarrow> Inr (expected = actual)))
   | _ \<Rightarrow> Inl Refused)"

definition verifyPassword :: "crypto \<Rightarrow> string \<Rightarrow> string option \<Rightarrow> crypto_error + bool" where
  "verifyPassword E plain stored = (case stored of None \<Rightarrow> Inr False | Some [] \<Rightarrow> Inr False
   | Some stored \<Rightarrow> (case parseScheme stored of (scheme, v) \<Rightarrow>
       if scheme = SCRYPT_SCHEME then verifyScrypt E plain v
       else if scheme = ''SSHA'' then Inr (verifySSHA E plain v)
       else if scheme = ''SHA'' then Inr (verifySHA E plain v)
       else if scheme = ''PLAIN'' then Inr (bytes_of plain = bytes_of v)
       else Inl (Unsupported scheme)))"

definition hashPassword :: "crypto \<Rightarrow> bytes \<Rightarrow> string \<Rightarrow> crypto_error + string" where
  "hashPassword E salt plain = (case scryptKey E plain salt (Some SCRYPT_N) (Some SCRYPT_R) (Some SCRYPT_P) SCRYPT_KEY_BYTES of
     Inl e \<Rightarrow> Inl e
   | Inr key \<Rightarrow> Inr (''{'' @ SCRYPT_SCHEME @ ''}'' @ join ''$'' [string_of_nat SCRYPT_N, string_of_nat SCRYPT_R, string_of_nat SCRYPT_P,
       base64_encode salt, base64_encode key]))"

definition needsRehash :: "string option \<Rightarrow> bool" where
  "needsRehash stored = (case stored of None \<Rightarrow> False | Some [] \<Rightarrow> False
   | Some stored \<Rightarrow> (case parseScheme stored of (scheme, v) \<Rightarrow> scheme \<noteq> SCRYPT_SCHEME \<or>
       (case split_on (CHR ''$'') v of
          n # r # p # _ \<Rightarrow> Number_nat n \<noteq> Some SCRYPT_N \<or> Number_nat r \<noteq> Some SCRYPT_R \<or> Number_nat p \<noteq> Some SCRYPT_P
        | _ \<Rightarrow> True)))"

section \<open>A new hash\<close>

lemma split_on_join:
  assumes "\<forall>p\<in>set ps. c \<notin> set p" and "ps \<noteq> []"
  shows "split_on c (join [c] ps) = ps"
proof -
  have one: "split_on c p = [p]" if "c \<notin> set p" for p using that by (induction p) auto
  have two: "split_on c (p @ [c] @ s) = p # split_on c s" if "c \<notin> set p" for p s using that by (induction p) auto
  show ?thesis using assms
  proof (induction ps)
    case (Cons p ps)
    then show ?case using two [of p] by (cases ps) (auto simp: one)
  qed simp
qed

lemma base64_encode_chars: "c \<in> set (base64_encode bs) \<Longrightarrow> is_sextet c \<or> c = CHR ''=''"
  by (induction bs rule: base64_encode.induct) (auto simp: Let_def sextet_char byte_sextets)

lemma base64_encode_no_dollar: "CHR ''$'' \<notin> set (base64_encode bs) \<and> CHR 0x0A \<notin> set (base64_encode bs) \<and> CHR 0x0D \<notin> set (base64_encode bs)"
  by (auto dest!: base64_encode_chars simp: is_sextet_def)

definition new_hash :: "bytes \<Rightarrow> bytes \<Rightarrow> string" where
  "new_hash salt key = ''{SCRYPT}'' @ join ''$'' [''16384'', ''8'', ''1'', base64_encode salt, base64_encode key]"

lemma digit_chars: "char_of (49 :: nat) = CHR ''1''" "char_of (51 :: nat) = CHR ''3''" "char_of (52 :: nat) = CHR ''4''"
    "char_of (54 :: nat) = CHR ''6''" "char_of (56 :: nat) = CHR ''8''"
  by (simp_all add: char_of_def bit_0)

lemma params_text: "string_of_nat SCRYPT_N = ''16384''" "string_of_nat SCRYPT_R = ''8''" "string_of_nat SCRYPT_P = ''1''"
  by (simp_all add: SCRYPT_N_def SCRYPT_R_def SCRYPT_P_def string_of_nat.simps digit_chars)

lemma hashPassword_new:
  "scrypt E (bytes_of plain) salt SCRYPT_N SCRYPT_R SCRYPT_P SCRYPT_KEY_BYTES = Some key \<Longrightarrow>
    hashPassword E salt plain = Inr (new_hash salt key)"
  by (simp add: hashPassword_def scryptKey_def new_hash_def SCRYPT_SCHEME_def params_text)

lemma new_hash_parts: "parseScheme (new_hash salt key) = (''SCRYPT'', join ''$'' [''16384'', ''8'', ''1'', base64_encode salt, base64_encode key])"
  using base64_encode_no_dollar [of salt] base64_encode_no_dollar [of key]
  by (simp add: parseScheme_def new_hash_def is_scheme_char_def upper_char_def Let_def)

lemma new_hash_split: "split_on (CHR ''$'') (join ''$'' [''16384'', ''8'', ''1'', base64_encode salt, base64_encode key]) =
    [''16384'', ''8'', ''1'', base64_encode salt, base64_encode key]"
  using base64_encode_no_dollar [of salt] base64_encode_no_dollar [of key] by (intro split_on_join) auto

lemma Number_nat_params: "Number_nat ''16384'' = Some SCRYPT_N" "Number_nat ''8'' = Some SCRYPT_R" "Number_nat ''1'' = Some SCRYPT_P"
  by (simp_all add: Number_nat_def is_digit_def SCRYPT_N_def SCRYPT_R_def SCRYPT_P_def)

lemma verify_new_hash:
  assumes "length key = SCRYPT_KEY_BYTES" and "scrypt E (bytes_of other) salt SCRYPT_N SCRYPT_R SCRYPT_P SCRYPT_KEY_BYTES = Some key'"
  shows "verifyPassword E other (Some (new_hash salt key)) = Inr (key = key')" and "\<not> needsRehash (Some (new_hash salt key))"
proof -
  obtain c cs where h: "new_hash salt key = c # cs" by (simp add: new_hash_def)
  show "verifyPassword E other (Some (new_hash salt key)) = Inr (key = key')"
    unfolding verifyPassword_def h option.case list.case unfolding h [symmetric] new_hash_parts prod.case SCRYPT_SCHEME_def
    using assms by (simp add: verifyScrypt_def new_hash_split [simplified] Number_nat_params scryptKey_def Let_def)
  show "\<not> needsRehash (Some (new_hash salt key))"
    unfolding needsRehash_def h option.case list.case unfolding h [symmetric] new_hash_parts prod.case SCRYPT_SCHEME_def
    by (simp add: new_hash_split [simplified] Number_nat_params)
qed

text \<open>
  C39: A new hash verifies exactly the passwords that scrypt gives the same key with the same salt, the
  hashed one among them, and is not hashed again at the next login.
\<close>

theorem new_hash_verifies:
  assumes keys: "\<And>p. \<exists>k. scrypt E p salt SCRYPT_N SCRYPT_R SCRYPT_P SCRYPT_KEY_BYTES = Some k \<and> length k = SCRYPT_KEY_BYTES"
    and hash: "hashPassword E salt plain = Inr h"
  shows "verifyPassword E plain (Some h) = Inr True \<and> \<not> needsRehash (Some h) \<and>
    verifyPassword E other (Some h) = Inr (scrypt E (bytes_of other) salt SCRYPT_N SCRYPT_R SCRYPT_P SCRYPT_KEY_BYTES =
      scrypt E (bytes_of plain) salt SCRYPT_N SCRYPT_R SCRYPT_P SCRYPT_KEY_BYTES)"
proof -
  obtain k where k: "scrypt E (bytes_of plain) salt SCRYPT_N SCRYPT_R SCRYPT_P SCRYPT_KEY_BYTES = Some k" "length k = SCRYPT_KEY_BYTES"
    using keys by blast
  obtain k' where k': "scrypt E (bytes_of other) salt SCRYPT_N SCRYPT_R SCRYPT_P SCRYPT_KEY_BYTES = Some k'" using keys by blast
  have h: "h = new_hash salt k" using hash hashPassword_new [OF k(1)] by simp
  show ?thesis
    using verify_new_hash [OF k(2) k(1)] verify_new_hash [OF k(2) k'] k(1) k' by (auto simp: h)
qed

definition crypto_example :: crypto where
  "crypto_example = \<lparr>sha1 = (\<lambda>b. []), scrypt = (\<lambda>p salt n r q l. Some (take l (p @ replicate l 0)))\<rparr>"

theorem new_hash_verifies_witness:
  "\<exists>h. hashPassword crypto_example [1, 2] ''secret'' = Inr h \<and> verifyPassword crypto_example ''secret'' (Some h) = Inr True \<and>
    verifyPassword crypto_example ''Secret'' (Some h) = Inr False"
proof -
  have keys: "\<exists>k. scrypt crypto_example p [1, 2] SCRYPT_N SCRYPT_R SCRYPT_P SCRYPT_KEY_BYTES = Some k \<and> length k = SCRYPT_KEY_BYTES" for p
    by (simp add: crypto_example_def)
  have "scrypt crypto_example (bytes_of ''Secret'') [1, 2] SCRYPT_N SCRYPT_R SCRYPT_P SCRYPT_KEY_BYTES \<noteq>
      scrypt crypto_example (bytes_of ''secret'') [1, 2] SCRYPT_N SCRYPT_R SCRYPT_P SCRYPT_KEY_BYTES"
    by (simp add: crypto_example_def bytes_of_def SCRYPT_KEY_BYTES_def)
  moreover obtain h where "hashPassword crypto_example [1, 2] ''secret'' = Inr h"
    using keys [of "bytes_of ''secret''"] hashPassword_new by blast
  ultimately show ?thesis using new_hash_verifies [OF keys, of "''secret''" h "''Secret''"] by auto
qed

end
