(* ===== verification/UserApi.thy ===== *)
theory UserApi
  imports Accounts Passwords
begin

text \<open>
  The requests of the user module (\<^verbatim>\<open>modules/user/src/userApi.js\<close>), with the Google tokens they keep fresh
  (\<^verbatim>\<open>googleService.js\<close>), the provisioning of users who leave \<open>PENDING\<close> (\<^verbatim>\<open>userProvisioning.js\<close>), the events
  and mails they publish and the guards in front of them (\<^verbatim>\<open>currentUser.js\<close>). A request runs to its end and
  at one time; what Google, the provisioning script, the reCAPTCHA service and the random sources answer is
  the request's environment.
\<close>

section \<open>Requests, answers, events\<close>

record user_request =
  rq_body :: json
  rq_query :: json
  rq_querystring :: string
  rq_user :: json
  rq_email :: "json option"
  rq_ifNoneMatch :: "string option"

record user_response =
  rs_status :: nat
  rs_body :: "json option"
  rs_updated :: "string option"
  rs_etag :: "string option"
  rs_redirect :: "string option"

datatype user_event =
    UserUpdated user
  | UserLocked user
  | UserChanged user
  | InviteMail user string
  | ResetMail user string
  | SshKeyMail user json

record ssh_key_row =
  k_id :: int
  k_username :: string
  k_name :: string
  k_type :: string
  k_publicKey :: string
  k_fingerprint :: string
  k_creationTime :: int

record user_service = accounts +
  sv_throttle :: login_throttle
  sv_events :: "user_event list"
  sv_keys :: "ssh_key_row list"
  sv_nextKey :: int

datatype refresh_answer = Refreshed google_tokens | InvalidToken | RefreshFailed

record user_env =
  ev_now :: int
  ev_collations :: collations
  ev_crypto :: crypto
  ev_salt :: bytes
  ev_uuid :: string
  ev_limits :: throttle_config
  ev_recaptcha :: "json option \<Rightarrow> string \<Rightarrow> bool"
  ev_provision :: "string \<Rightarrow> int \<Rightarrow> int \<Rightarrow> string option"
  ev_refresh :: "google_tokens \<Rightarrow> refresh_answer"
  ev_requestTokens :: "json option \<Rightarrow> google_tokens option"
  ev_sign :: "string \<Rightarrow> string \<Rightarrow> string"
  ev_localPath :: "json option \<Rightarrow> string"
  ev_authUrl :: "string \<Rightarrow> string"
  ev_sha1hex :: "string \<Rightarrow> string"
  ev_sha256 :: "bytes \<Rightarrow> bytes"

type_synonym 'a user_act = "(user_service, account_error, 'a) act"

definition body_field :: "user_request \<Rightarrow> string \<Rightarrow> json option" where
  "body_field q k = json_get (rq_body q) k"

definition current_username :: "user_request \<Rightarrow> json option" where
  "current_username q = json_get (rq_user q) ''username''"

definition with_body :: "nat \<Rightarrow> json \<Rightarrow> user_response" where
  "with_body status b = \<lparr>rs_status = status, rs_body = Some b, rs_updated = None, rs_etag = None, rs_redirect = None\<rparr>"

definition no_content :: "nat \<Rightarrow> user_response" where
  "no_content status = \<lparr>rs_status = status, rs_body = None, rs_updated = None, rs_etag = None, rs_redirect = None\<rparr>"

definition message :: "nat \<Rightarrow> string \<Rightarrow> user_response" where
  "message status text = with_body status (JObj [(''message'', JStr text)])"

text \<open>A property of \<open>null\<close> is an exception.\<close>

definition required :: "'a option \<Rightarrow> ('s, account_error, 'a) act" where
  "required v = (case v of None \<Rightarrow> throw NullAccess | Some a \<Rightarrow> ret a)"

definition emit_user :: "user_event \<Rightarrow> unit user_act" where
  "emit_user e = modify (\<lambda>s. s\<lparr>sv_events := sv_events s @ [e]\<rparr>)"

definition publishUserUpdated :: "user option \<Rightarrow> unit user_act" where
  "publishUserUpdated v = bnd (required v) (\<lambda>u. andthen (emit_user (UserUpdated u)) (emit_user (UserChanged u)))"

definition publishUserLocked :: "user option \<Rightarrow> unit user_act" where
  "publishUserLocked v = bnd (required v) (\<lambda>u. andthen (emit_user (UserLocked u)) (emit_user (UserChanged u)))"

definition publishUserUnlocked :: "user option \<Rightarrow> unit user_act" where
  "publishUserUnlocked v = bnd (required v) (\<lambda>u. emit_user (UserChanged u))"

section \<open>Guards\<close>

text \<open>The header's value, parsed; \<open>None\<close> when it is missing or no JSON.\<close>

definition requireAuth :: "json option \<Rightarrow> (json \<Rightarrow> user_response user_act) \<Rightarrow> user_response user_act" where
  "requireAuth header go = (if truthy header then go (the header) else ret (message 401 ''No \"sepal-user\" header in request''))"

definition has_admin_role :: "json \<Rightarrow> bool" where
  "has_admin_role u \<longleftrightarrow> (case json_get u ''roles'' of Some (JArr rs) \<Rightarrow> JStr ''application_admin'' \<in> set rs | _ \<Rightarrow> False)"

definition requireAdmin :: "json option \<Rightarrow> (json \<Rightarrow> user_response user_act) \<Rightarrow> user_response user_act" where
  "requireAdmin header go = (if \<not> truthy header then ret (message 401 ''No \"sepal-user\" header in request'')
     else if \<not> has_admin_role (the header) then ret (message 403 ''Admin role required'')
     else go (the header))"

section \<open>Google tokens\<close>

text \<open>\<^verbatim>\<open>new Date(null)\<close> is the epoch.\<close>

definition stored_tokens :: "google_tokens \<Rightarrow> google_tokens" where
  "stored_tokens t = t\<lparr>gt_accessTokenExpiryDate := Some (case gt_accessTokenExpiryDate t of None \<Rightarrow> 0 | Some n \<Rightarrow> n)\<rparr>"

definition saveTokens :: "user_env \<Rightarrow> json option \<Rightarrow> google_tokens option \<Rightarrow> user option user_act" where
  "saveTokens E username tokens =
     andthen (updateGoogleTokens (ev_now E) username (map_option stored_tokens tokens))
     (bnd (gets (findByUsername username)) (\<lambda>user. andthen (publishUserUpdated user) (ret user)))"

definition REFRESH_IF_EXPIRES_IN_MS :: int where "REFRESH_IF_EXPIRES_IN_MS = 10 * 60 * 1000"

definition dueForRefresh :: "google_tokens \<Rightarrow> int \<Rightarrow> bool" where
  "dueForRefresh t n \<longleftrightarrow> (case gt_accessTokenExpiryDate t of None \<Rightarrow> 0 | Some e \<Rightarrow> e) - n \<le> REFRESH_IF_EXPIRES_IN_MS"

definition refreshGoogleTokens :: "user_env \<Rightarrow> json option \<Rightarrow> google_tokens option \<Rightarrow> google_tokens option user_act" where
  "refreshGoogleTokens E username passed =
     bnd (case passed of Some t \<Rightarrow> ret (Some t)
          | None \<Rightarrow> bnd (gets (findByUsername username)) (\<lambda>u. bnd (required u) (\<lambda>u. ret (u_googleTokens u)))) (\<lambda>tokens.
     case tokens of None \<Rightarrow> ret None
     | Some t \<Rightarrow> if \<not> dueForRefresh t (ev_now E) then ret (Some t)
         else case ev_refresh E t of
             RefreshFailed \<Rightarrow> throw ServiceError
           | InvalidToken \<Rightarrow> bnd (saveTokens E username None) (\<lambda>_. ret None)
           | Refreshed t' \<Rightarrow> bnd (saveTokens E username (Some t')) (\<lambda>_. ret (Some t')))"

section \<open>Provisioning\<close>

definition ensureProvisioned :: "user_env \<Rightarrow> user \<Rightarrow> user option user_act" where
  "ensureProvisioned E user = (case (u_uid user, u_gid user) of
     (Some uid, Some gid) \<Rightarrow> catching
        (case ev_provision E (u_username user) uid gid of
           None \<Rightarrow> throw ServiceError
         | Some key \<Rightarrow> if key = [] then throw ServiceError
             else andthen (updateSshPublicKey (ev_now E) (Some (JStr (u_username user))) key)
               (gets (findByUsername (Some (JStr (u_username user))))))
        (\<lambda>_. ret (Some user))
   | _ \<Rightarrow> ret (Some user))"

section \<open>Passwords\<close>

definition of_crypto :: "crypto_error + 'a \<Rightarrow> ('s, account_error, 'a) act" where
  "of_crypto r = (case r of Inl (Unsupported _) \<Rightarrow> throw UnsupportedScheme | Inl Refused \<Rightarrow> throw ServiceError | Inr a \<Rightarrow> ret a)"

definition verifies :: "user_env \<Rightarrow> user option \<Rightarrow> json option \<Rightarrow> bool user_act" where
  "verifies E user password = (case user of None \<Rightarrow> ret False
   | Some u \<Rightarrow> if falsy_text (u_passwordHash u) then ret False
       else case text_of password of None \<Rightarrow> ret False
         | Some p \<Rightarrow> of_crypto (verifyPassword (ev_crypto E) p (u_passwordHash u)))"

definition authenticates :: "user_env \<Rightarrow> user option \<Rightarrow> json option \<Rightarrow> bool user_act" where
  "authenticates E user password = (case user of None \<Rightarrow> ret False
   | Some u \<Rightarrow> if u_status u = ACTIVE then verifies E user password else ret False)"

definition hashed :: "user_env \<Rightarrow> json option \<Rightarrow> string user_act" where
  "hashed E password = (case text_of password of None \<Rightarrow> throw NullAccess
     | Some p \<Rightarrow> of_crypto (hashPassword (ev_crypto E) (ev_salt E) p))"

definition maybeRehashPassword :: "user_env \<Rightarrow> user \<Rightarrow> json option \<Rightarrow> unit user_act" where
  "maybeRehashPassword E user password = (if needsRehash (u_passwordHash user)
     then catching (bnd (hashed E password) (updatePassword (ev_now E) (Some (JStr (u_username user))))) (\<lambda>_. ret ())
     else ret ())"

section \<open>Logging in\<close>

definition login_of :: "user_request \<Rightarrow> login" where
  "login_of q = \<lparr>lg_username = body_field q ''username'', lg_clientIp = body_field q ''clientIp''\<rparr>"

definition try_login :: "user_env \<Rightarrow> user_request \<Rightarrow> bool user_act" where
  "try_login E q = state_act (\<lambda>s. case tryAttempt (ev_limits E) (login_of q) (ev_now E) (sv_throttle s) of
     (passes, t) \<Rightarrow> (passes, s\<lparr>sv_throttle := t\<rparr>))"

definition succeed_login :: "user_env \<Rightarrow> user_request \<Rightarrow> unit user_act" where
  "succeed_login E q = modify (\<lambda>s. s\<lparr>sv_throttle := login_succeeded (ev_limits E) (login_of q) (sv_throttle s)\<rparr>)"

definition refuseThrottled :: user_response where
  "refuseThrottled = message 429 ''Too many failed logins, try again later''"

definition map_user :: "bool \<Rightarrow> user option \<Rightarrow> user_response user_act" where
  "map_user withGoogleTokens v = bnd (required v) (\<lambda>u. ret (with_body 200 (userToMap u withGoogleTokens)))"

definition authenticate :: "user_env \<Rightarrow> user_request \<Rightarrow> user_response user_act" where
  "authenticate E q = bnd (try_login E q) (\<lambda>passes. if \<not> passes then ret refuseThrottled else
     bnd (gets (findByUsername (body_field q ''username''))) (\<lambda>user.
     bnd (authenticates E user (body_field q ''password'')) (\<lambda>ok. if ok then
       bnd (required user) (\<lambda>u. let name = Some (JStr (u_username u)) in
       andthen (succeed_login E q) (
       andthen (setLastLoginTime (ev_now E) name) (
       andthen (maybeRehashPassword E u (body_field q ''password'')) (
       andthen (catching (bnd (refreshGoogleTokens E name (u_googleTokens u)) (\<lambda>_. ret ())) (\<lambda>_. ret ())) (
       bnd (gets (findByUsername name)) (map_user True))))))
     else ret (message 401 ''Invalid username or password''))))"

definition authPassword :: "user_env \<Rightarrow> user_request \<Rightarrow> user_response user_act" where
  "authPassword E q = bnd (try_login E q) (\<lambda>passes. if \<not> passes then ret refuseThrottled else
     bnd (gets (findByUsername (body_field q ''username''))) (\<lambda>user.
     bnd (authenticates E user (body_field q ''password'')) (\<lambda>ok. if ok then
       bnd (required user) (\<lambda>u.
       andthen (succeed_login E q) (
       andthen (maybeRehashPassword E u (body_field q ''password'')) (
       ret (with_body 200 (JObj [(''status'', JStr ''success'')])))))
     else ret (with_body 401 (JObj [(''status'', JStr ''failure'')])))))"

section \<open>The caller's own account\<close>

definition user_not_found :: user_response where
  "user_not_found = message 404 ''User not found''"

definition show_user :: "bool \<Rightarrow> user option \<Rightarrow> user_response" where
  "show_user withGoogleTokens v = (case v of None \<Rightarrow> user_not_found | Some u \<Rightarrow> with_body 200 (userToMap u withGoogleTokens))"

definition current :: "user_request \<Rightarrow> user_response user_act" where
  "current q = gets (\<lambda>s. show_user True (findByUsername (current_username q) s))"

definition info :: "user_request \<Rightarrow> user_response user_act" where
  "info q = gets (\<lambda>s. show_user True (findByUsername (json_get (rq_query q) ''username'') s))"

definition list_users :: "user_request \<Rightarrow> user_response user_act" where
  "list_users q = gets (\<lambda>s. with_body 200 (JArr (map (\<lambda>u. userToMap u False) (listUsers s))))"

definition mostRecentLogin :: "user_request \<Rightarrow> user_response user_act" where
  "mostRecentLogin q = gets (\<lambda>s. with_body 200 (mostRecentLogin_of (json_get (rq_query q) ''username'') s))"

definition mostRecentLoginByUser :: "user_request \<Rightarrow> user_response user_act" where
  "mostRecentLoginByUser q = gets (\<lambda>s. with_body 200 (mostRecentLoginByUser_of s))"

definition emailNotificationsEnabled :: "user_env \<Rightarrow> user_request \<Rightarrow> user_response user_act" where
  "emailNotificationsEnabled E q = gets (\<lambda>s. with_body 200 (JObj [(''emailNotificationsEnabled'',
     JBool (emailNotificationsEnabled_of (ev_collations E) (rq_email q) s))]))"

definition outcome :: "string \<Rightarrow> string \<Rightarrow> user_response" where
  "outcome status text = with_body 200 (JObj [(''status'', JStr status), (''message'', JStr text)])"

definition changePassword :: "user_env \<Rightarrow> user_request \<Rightarrow> user_response user_act" where
  "changePassword E q = (if \<not> isValidPassword (body_field q ''newPassword'') then ret (message 400 ''Invalid request'') else
     bnd (gets (findByUsername (current_username q))) (\<lambda>user.
     bnd (verifies E user (body_field q ''oldPassword'')) (\<lambda>ok. if ok then
       bnd (required user) (\<lambda>u.
       bnd (hashed E (body_field q ''newPassword'')) (\<lambda>hash.
       andthen (updatePassword (ev_now E) (Some (JStr (u_username u))) hash)
         (ret (outcome ''success'' ''Password changed''))))
     else ret (outcome ''failure'' ''Invalid old password''))))"

definition acceptPrivacyPolicy :: "user_env \<Rightarrow> user_request \<Rightarrow> user_response user_act" where
  "acceptPrivacyPolicy E q = andthen (acceptPrivacyPolicy_row (ev_now E) (current_username q))
     (ret ((no_content 204)\<lparr>rs_updated := text_of (current_username q)\<rparr>))"

section \<open>Details\<close>

datatype details_outcome = Invalid_email | Email_taken | Conflict | No_user | Updated user

datatype revision_arg = No_revision | Revision int | Not_a_number

text \<open>\<open>Number\<close> of a decimal number; the other notations of numbers are left out.\<close>

definition toRevision :: "json option \<Rightarrow> revision_arg" where
  "toRevision v = (case v of None \<Rightarrow> No_revision | Some JNull \<Rightarrow> No_revision | Some (JStr []) \<Rightarrow> No_revision
   | Some (JNum n) \<Rightarrow> Revision n | Some (JBool b) \<Rightarrow> Revision (if b then 1 else 0)
   | Some (JStr s) \<Rightarrow> if list_all is_digit (trim s) then Revision (int (digits_value 0 (trim s))) else Not_a_number
   | Some (JArr []) \<Rightarrow> Revision 0 | Some _ \<Rightarrow> Not_a_number)"

definition is_true :: "json option \<Rightarrow> bool" where
  "is_true v \<longleftrightarrow> v = Some (JBool True) \<or> v = Some (JStr ''true'')"

definition confirmsEmailChange :: "user_env \<Rightarrow> user_request \<Rightarrow> json option \<Rightarrow> bool user_act" where
  "confirmsEmailChange E q username = bnd (gets (findByUsername username)) (\<lambda>user. case user of None \<Rightarrow> ret True
     | Some u \<Rightarrow> if body_field q ''email'' = Some (text_json (u_email u)) then ret True
         else verifies E user (body_field q ''password''))"

definition details_of :: "user_request \<Rightarrow> bool \<Rightarrow> user_details" where
  "details_of q adminValue = \<lparr>d_name = nullish (body_field q ''name'') JNull, d_email = text_of (body_field q ''email''),
     d_organization = nullish (body_field q ''organization'') JNull, d_intendedUse = nullish (body_field q ''intendedUse'') JNull,
     d_emailNotificationsEnabled = is_true (body_field q ''emailNotificationsEnabled''),
     d_manualMapRenderingEnabled = is_true (body_field q ''manualMapRenderingEnabled''), d_admin = adminValue\<rparr>"

definition applyDetails :: "user_env \<Rightarrow> user_request \<Rightarrow> json option \<Rightarrow> bool \<Rightarrow> details_outcome user_act" where
  "applyDetails E q target adminValue = (if \<not> isText target then ret No_user
     else if nullish (body_field q ''email'') JNull \<noteq> JNull \<and> \<not> isValidEmail (body_field q ''email'') then ret Invalid_email
     else bnd (catching
         (case toRevision (body_field q ''revision'') of
            Not_a_number \<Rightarrow> throw DatabaseError
          | No_revision \<Rightarrow> bnd (updateUserDetails (ev_collations E) (ev_now E) target (details_of q adminValue) None) (\<lambda>b. ret (Some b))
          | Revision k \<Rightarrow> bnd (updateUserDetails (ev_collations E) (ev_now E) target (details_of q adminValue) (Some k)) (\<lambda>b. ret (Some b)))
         (\<lambda>e. if e = DuplicateUser then ret None else throw e)) (\<lambda>updated. case updated of
       None \<Rightarrow> ret Email_taken
     | Some updated \<Rightarrow> bnd (gets (findByUsername target)) (\<lambda>user. case user of
         None \<Rightarrow> ret No_user
       | Some u \<Rightarrow> if \<not> updated then ret Conflict
           else andthen (publishUserUpdated user) (ret (Updated u)))))"

definition rejectConflict :: "json option \<Rightarrow> bool \<Rightarrow> user_response user_act" where
  "rejectConflict username withGoogleTokens = bnd (gets (findByUsername username)) (\<lambda>user. bnd (required user) (\<lambda>u.
     ret (with_body 409 (JObj [(''message'', JStr ''User was updated by someone else''), (''user'', userToMap u withGoogleTokens)]))))"

definition answer_details :: "json option \<Rightarrow> bool \<Rightarrow> details_outcome \<Rightarrow> user_response user_act" where
  "answer_details target withGoogleTokens r = (case r of
     Invalid_email \<Rightarrow> ret (message 400 ''Invalid email'')
   | Email_taken \<Rightarrow> ret (message 400 ''Email already in use'')
   | Conflict \<Rightarrow> rejectConflict target withGoogleTokens
   | No_user \<Rightarrow> ret user_not_found
   | Updated u \<Rightarrow> ret ((with_body 200 (userToMap u withGoogleTokens))\<lparr>rs_updated := text_of target\<rparr>))"

definition updateCurrentDetails :: "user_env \<Rightarrow> user_request \<Rightarrow> user_response user_act" where
  "updateCurrentDetails E q = bnd (confirmsEmailChange E q (current_username q)) (\<lambda>ok.
     if \<not> ok then ret (message 403 ''Invalid password'')
     else bnd (applyDetails E q (current_username q) (truthy (json_get (rq_user q) ''admin'')))
       (answer_details (current_username q) True))"

definition updateDetails :: "user_env \<Rightarrow> user_request \<Rightarrow> user_response user_act" where
  "updateDetails E q = bnd (applyDetails E q (body_field q ''username'') (is_true (body_field q ''admin'')))
     (answer_details (body_field q ''username'') False)"

section \<open>Locks\<close>

definition suppliedUsername :: "user_request \<Rightarrow> string option" where
  "suppliedUsername q = map_option storedUsername
     (text_of (if truthy (body_field q ''username'') then body_field q ''username'' else json_get (rq_query q) ''username''))"

definition supplied_user :: "user_request \<Rightarrow> user option user_act" where
  "supplied_user q = gets (\<lambda>s. case suppliedUsername q of None \<Rightarrow> None
     | Some n \<Rightarrow> if n = [] then None else findByUsername (Some (JStr n)) s)"

definition own_name :: "user_request \<Rightarrow> string option user_act" where
  "own_name q = (case current_username q of None \<Rightarrow> ret None | Some (JStr s) \<Rightarrow> ret (Some (storedUsername s)) | Some JNull \<Rightarrow> ret None
     | Some _ \<Rightarrow> throw NullAccess)"

definition lock :: "user_env \<Rightarrow> user_request \<Rightarrow> user_response user_act" where
  "lock E q = bnd (own_name q) (\<lambda>own. let name = suppliedUsername q; v = map_option JStr name in
     if name \<noteq> None \<and> name = own then ret (message 400 ''Cannot lock your own account'')
     else bnd (supplied_user q) (\<lambda>user. case user of
       None \<Rightarrow> ret user_not_found
     | Some u \<Rightarrow> if u_status u \<noteq> LOCKED then
           andthen (updateStatus (ev_now E) v LOCKED) (
           bnd (gets (findByUsername v)) (\<lambda>locked.
           andthen (publishUserLocked locked) (
           bnd (map_user True locked) (\<lambda>r. ret (r\<lparr>rs_updated := name\<rparr>)))))
         else map_user True user))"

definition unlock :: "user_env \<Rightarrow> user_request \<Rightarrow> user_response user_act" where
  "unlock E q = (let name = suppliedUsername q; v = map_option JStr name in
     bnd (supplied_user q) (\<lambda>user. case user of
       None \<Rightarrow> ret user_not_found
     | Some u \<Rightarrow> if u_status u \<noteq> LOCKED then map_user True user
         else
           andthen (updateStatus (ev_now E) v PENDING) (
           andthen (updateToken (ev_collations E) (ev_now E) v (ev_uuid E)) (
           bnd (gets (findByUsername v)) (\<lambda>unlocked.
           bnd (required unlocked) (\<lambda>u. andthen (emit_user (ResetMail u (ev_uuid E))) (
           andthen (publishUserUnlocked unlocked) (
           bnd (map_user True unlocked) (\<lambda>r. ret (r\<lparr>rs_updated := name\<rparr>))))))))))"

section \<open>Reset links, names and sign-ups\<close>

definition success_json :: "(string \<times> json) list \<Rightarrow> user_response" where
  "success_json fs = with_body 200 (JObj fs)"

definition validateToken :: "user_env \<Rightarrow> user_request \<Rightarrow> user_response user_act" where
  "validateToken E q = (let token = (if truthy (body_field q ''token'') then body_field q ''token'' else json_get (rq_query q) ''token'') in
     gets (\<lambda>s. let failure = (\<lambda>t reason text. success_json [(''status'', JStr ''failure''), (''token'', t), (''reason'', JStr reason), (''message'', JStr text)]) in
       case findByToken (ev_collations E) token s of
         None \<Rightarrow> failure JNull ''invalid'' ''Token is invalid''
       | Some u \<Rightarrow> if 24 * 60 * 60 * 1000 < ev_now E - u_tokenGenerationTime u then failure (the token) ''expired'' ''Token is expired''
           else if u_status u = LOCKED then failure (the token) ''locked'' ''Account locked''
           else success_json [(''status'', JStr ''success''), (''token'', the token), (''user'', userToMap u False), (''message'', JStr ''Token is valid'')]))"

text \<open>What a reset does once its checks are done.\<close>

definition reset_writes :: "user_env \<Rightarrow> user \<Rightarrow> json option \<Rightarrow> user_response user_act" where
  "reset_writes E u password = (let name = Some (JStr (u_username u)) in
     bnd (hashed E password) (\<lambda>hash.
     andthen (updatePassword (ev_now E) name hash) (
     andthen (updateStatus (ev_now E) name ACTIVE) (
     bnd (gets (findByUsername name)) (\<lambda>reloaded.
     bnd (if u_status u = PENDING then bnd (required reloaded) (ensureProvisioned E)
          else bnd (required reloaded) (\<lambda>r. if falsy_text (u_sshPublicKey r) then ensureProvisioned E r else ret reloaded)) (\<lambda>updated.
     andthen (publishUserUpdated updated) (map_user True updated)))))))"

definition resetPassword :: "user_env \<Rightarrow> user_request \<Rightarrow> user_response user_act" where
  "resetPassword E q =
     (if \<not> ev_recaptcha E (body_field q ''recaptchaToken'') ''RESET_PASSWORD'' then ret (message 400 ''Invalid request'')
      else if \<not> isValidPassword (body_field q ''password'') then ret (message 400 ''Invalid request'')
      else bnd (gets (findByToken (ev_collations E) (body_field q ''token''))) (\<lambda>user. case user of
        None \<Rightarrow> ret (message 400 ''Invalid token'')
      | Some u \<Rightarrow> if isExpired (u_tokenGenerationTime u) (ev_now E) then ret (message 400 ''Invalid token'')
          else if u_status u = LOCKED then ret (message 400 ''Account locked'')
          else reset_writes E u (body_field q ''password'')))"

definition lowered :: "json option \<Rightarrow> json option" where
  "lowered v = Some (JStr (case text_of v of None \<Rightarrow> [] | Some s \<Rightarrow> storedUsername s))"

definition validateUsername :: "user_env \<Rightarrow> user_request \<Rightarrow> user_response user_act" where
  "validateUsername E q = (let name = lowered (body_field q ''username'') in gets (\<lambda>s. success_json [(''valid'', JBool (
     ev_recaptcha E (body_field q ''recaptchaToken'') ''VALIDATE_USERNAME'' \<and> isValidUsername name \<and> findByUsername name s = None))]))"

definition validateEmail :: "user_env \<Rightarrow> user_request \<Rightarrow> user_response user_act" where
  "validateEmail E q = gets (\<lambda>s. success_json [(''valid'', JBool (
     ev_recaptcha E (body_field q ''recaptchaToken'') ''VALIDATE_EMAIL'' \<and> isValidEmail (body_field q ''email'')
     \<and> findByEmail (ev_collations E) (body_field q ''email'') s = None))])"

definition isValidNewUser :: "user_request \<Rightarrow> bool" where
  "isValidNewUser q \<longleftrightarrow> isText (body_field q ''username'') \<and> isValidUsername (lowered (body_field q ''username''))
     \<and> truthy (body_field q ''name'') \<and> isValidEmail (body_field q ''email'')"

definition createInvitedUser :: "user_env \<Rightarrow> user_request \<Rightarrow> user user_act" where
  "createInvitedUser E q = (let name = lowered (body_field q ''username'') in
     bnd (insertUser (ev_collations E) (ev_now E) (case text_of name of None \<Rightarrow> [] | Some s \<Rightarrow> s) (nullish (body_field q ''name'') JNull)
        (text_of (body_field q ''email'')) (nullish (body_field q ''organization'') JNull) JNull (ev_uuid E)) (\<lambda>_.
     bnd (gets (findByUsername name)) (\<lambda>user. bnd (required user) (\<lambda>u.
       andthen (emit_user (InviteMail u (ev_uuid E))) (andthen (publishUserUpdated user) (ret u))))))"

definition signup :: "user_env \<Rightarrow> user_request \<Rightarrow> user_response user_act" where
  "signup E q =
     (if \<not> ev_recaptcha E (body_field q ''recaptchaToken'') ''SIGN_UP'' then ret (outcome ''failure'' ''Signup failed'')
      else if \<not> isValidNewUser q then ret (message 400 ''Invalid request'')
      else catching (bnd (createInvitedUser E q) (\<lambda>_. ret (outcome ''success'' ''Signup succeeded'')))
        (\<lambda>e. if e = DuplicateUser then ret (message 400 ''Username or email already in use'') else throw e))"

definition reset_requested :: user_response where
  "reset_requested = outcome ''success'' ''If there is an account with this email, an email with a password reset link will be sent there''"

definition requestPasswordReset :: "user_env \<Rightarrow> user_request \<Rightarrow> user_response user_act" where
  "requestPasswordReset E q =
     (if \<not> ev_recaptcha E (body_field q ''recaptchaToken'') ''REQUEST_PASSWORD_RESET'' then ret reset_requested
      else bnd (gets (findByEmail (ev_collations E) (body_field q ''email''))) (\<lambda>user. case user of
        None \<Rightarrow> ret reset_requested
      | Some u \<Rightarrow> if u_status u = LOCKED then ret reset_requested
          else (let token = getOrGenerateToken (ev_uuid E) u (ev_now E) in
            andthen (if Some token \<noteq> u_token u then updateToken (ev_collations E) (ev_now E) (Some (JStr (u_username u))) token else ret ())
            (andthen (emit_user (ResetMail u token)) (ret reset_requested)))))"

section \<open>Google accounts\<close>

definition sign_state :: "user_env \<Rightarrow> string \<Rightarrow> json option \<Rightarrow> string" where
  "sign_state E username destinationUrl = (let path = ev_localPath E destinationUrl in
     ev_authUrl E (ev_sign E username path @ ''.'' @ path))"

text \<open>The address of \<^verbatim>\<open>redirectUrl\<close> is constant but for its state.\<close>

definition googleAccessRequestUrl :: "user_env \<Rightarrow> user_request \<Rightarrow> user_response user_act" where
  "googleAccessRequestUrl E q = ret (success_json [(''url'',
     JStr (sign_state E (case text_of (current_username q) of None \<Rightarrow> ''undefined'' | Some u \<Rightarrow> u)
       (json_get (rq_query q) ''destinationUrl'')))])"

definition googleAccessRequestCallback :: "user_request \<Rightarrow> user_response user_act" where
  "googleAccessRequestCallback q = ret (with_body 200 (JStr (''<html><head><meta http-equiv=\"refresh\" content=\"0;URL=''
     @ [CHR 0x27] @ ''/api/user/google/associate-account?'' @ rq_querystring q @ [CHR 0x27] @ ''\"/></head></html>'')))"

definition destinationPath :: "user_env \<Rightarrow> string \<Rightarrow> json option \<Rightarrow> string option" where
  "destinationPath E username state = (case text_of state of None \<Rightarrow> None
     | Some s \<Rightarrow> (case dropWhile (\<lambda>c. c \<noteq> CHR ''.'') s of [] \<Rightarrow> None
         | _ # path \<Rightarrow> if takeWhile (\<lambda>c. c \<noteq> CHR ''.'') s = ev_sign E username path then Some path else None))"

definition associateGoogleAccount :: "user_env \<Rightarrow> user_request \<Rightarrow> user_response user_act" where
  "associateGoogleAccount E q = (let name = (case text_of (current_username q) of None \<Rightarrow> ''undefined'' | Some u \<Rightarrow> u) in
     case destinationPath E name (json_get (rq_query q) ''state'') of
       None \<Rightarrow> ret (message 400 ''Invalid state'')
     | Some [] \<Rightarrow> ret (message 400 ''Invalid state'')
     | Some path \<Rightarrow> (case ev_requestTokens E (json_get (rq_query q) ''code'') of
         None \<Rightarrow> throw ServiceError
       | Some t \<Rightarrow> bnd (saveTokens E (current_username q) (Some t)) (\<lambda>_.
           ret ((no_content 302)\<lparr>rs_updated := text_of (current_username q), rs_redirect := Some path\<rparr>))))"

definition all_tokens_json :: "google_tokens \<Rightarrow> json" where
  "all_tokens_json t = (case tokens_json t of JObj fs \<Rightarrow> JObj (fs @ [(''legacyProject'', JBool (gt_legacyProject t))]) | j \<Rightarrow> j)"

definition refreshGoogleAccessToken :: "user_env \<Rightarrow> user_request \<Rightarrow> user_response user_act" where
  "refreshGoogleAccessToken E q = bnd (refreshGoogleTokens E (current_username q) None) (\<lambda>tokens.
     ret ((case tokens of None \<Rightarrow> no_content 204 | Some t \<Rightarrow> with_body 200 (all_tokens_json t))\<lparr>rs_updated := text_of (current_username q)\<rparr>))"

definition revokeGoogleAccess :: "user_env \<Rightarrow> user_request \<Rightarrow> user_response user_act" where
  "revokeGoogleAccess E q = bnd (gets (findByUsername (current_username q))) (\<lambda>user. bnd (required user) (\<lambda>_.
     bnd (saveTokens E (current_username q) None) (\<lambda>updated.
     bnd (map_user True updated) (\<lambda>r. ret (r\<lparr>rs_updated := text_of (current_username q)\<rparr>)))))"

definition updateGoogleProject :: "user_env \<Rightarrow> user_request \<Rightarrow> user_response user_act" where
  "updateGoogleProject E q = bnd (gets (findByUsername (current_username q))) (\<lambda>user. bnd (required user) (\<lambda>u.
     case u_googleTokens u of None \<Rightarrow> ret (no_content 204)
     | Some t \<Rightarrow> (let legacy = (json_get (rq_query q) ''legacyProject'' = Some (JStr ''true'')) in
         bnd (saveTokens E (current_username q) (Some (t\<lparr>gt_projectId := (if legacy then JNull else nullish (json_get (rq_query q) ''projectId'') JNull),
            gt_legacyProject := legacy\<rparr>))) (\<lambda>_.
         ret ((no_content 204)\<lparr>rs_updated := text_of (current_username q)\<rparr>)))))"

section \<open>The identities of the hosts\<close>

definition collapse :: "string \<Rightarrow> string" where
  "collapse s = (let ws = filter (\<lambda>w. w \<noteq> []) (split_on (CHR '' '') (map (\<lambda>c. if is_space c then CHR '' '' else c) s)) in
     (if s \<noteq> [] \<and> is_space (hd s) then '' '' else []) @ join '' '' ws @ (if ws \<noteq> [] \<and> is_space (last s) then '' '' else []))"

text \<open>\<^verbatim>\<open>replace(/[:\n\r]/g, ' ').replace(/\s+/g, ' ').trim()\<close>\<close>

definition sanitizeGecos :: "json \<Rightarrow> string" where
  "sanitizeGecos name = trim (collapse (map (\<lambda>c. if c = CHR '':'' \<or> c = CHR 0x0A \<or> c = CHR 0x0D then CHR '' '' else c)
     (case name of JStr s \<Rightarrow> s | _ \<Rightarrow> [])))"

definition id_text :: "int option \<Rightarrow> string" where
  "id_text v = (case v of None \<Rightarrow> ''null'' | Some n \<Rightarrow> string_of_int n)"

definition passwd_line :: "user_row \<Rightarrow> string" where
  "passwd_line r = join '':'' [c_username r, ''x'', id_text (c_uid r), id_text (c_gid r), sanitizeGecos (c_name r),
     ''/home/'' @ c_username r, ''/usr/bin/bash'']"

definition renderPasswd :: "user_row list \<Rightarrow> string" where
  "renderPasswd identities = concat (map (\<lambda>r. passwd_line r @ [CHR 0x0A]) identities)"

definition group_line :: "user_row \<Rightarrow> string" where
  "group_line r = join '':'' [c_username r, ''x'', id_text (c_gid r), []]"

definition renderGroup :: "user_row list \<Rightarrow> string" where
  "renderGroup identities = concat (map (\<lambda>r. group_line r @ [CHR 0x0A]) identities)"

definition nssSnapshot :: "user_env \<Rightarrow> user_request \<Rightarrow> user_response user_act" where
  "nssSnapshot E q = gets (\<lambda>s. let ids = listIdentities s; passwd = renderPasswd ids; group = renderGroup ids;
       version = ev_sha1hex E (passwd @ [CHR 0x00] @ group) in
     if rq_ifNoneMatch q = Some version then (no_content 304)\<lparr>rs_etag := Some version\<rparr>
     else (success_json [(''passwd'', JStr passwd), (''group'', JStr group), (''version'', JStr version)])\<lparr>rs_etag := Some version\<rparr>)"

end
