(* ===== verification/UserRoutes.thy ===== *)
theory UserRoutes
  imports UserApi
begin

text \<open>
  The SSH keys a user registers (\<^verbatim>\<open>modules/user/src/sshKeyApi.js\<close>, \<^verbatim>\<open>sshKeyRepository.js\<close>), the credentials of
  the system's own users (\<^verbatim>\<open>bootstrap.js\<close>), and the module's routes with their guards (\<^verbatim>\<open>routes.js\<close>).
\<close>

section \<open>The table of SSH keys\<close>

definition list_keys :: "json option \<Rightarrow> user_service \<Rightarrow> ssh_key_row list" where
  "list_keys v s = (case text_of v of None \<Rightarrow> []
     | Some u \<Rightarrow> sort_key k_id (filter (\<lambda>k. column_eq (k_username k) u) (sv_keys s)))"

definition count_keys :: "json option \<Rightarrow> nat user_act" where
  "count_keys v = bnd (requireSelector v) (\<lambda>u. gets (\<lambda>s. length (filter (\<lambda>k. column_eq (k_username k) u) (sv_keys s))))"

definition new_key :: "int \<Rightarrow> int \<Rightarrow> string \<Rightarrow> string \<Rightarrow> public_key \<Rightarrow> ssh_key_row" where
  "new_key n i u name key = \<lparr>k_id = i, k_username = storedUsername u, k_name = name, k_type = pk_type key,
     k_publicKey = pk_publicKey key, k_fingerprint = pk_fingerprint key, k_creationTime = NOW n\<rparr>"

definition add_key :: "int \<Rightarrow> json option \<Rightarrow> string \<Rightarrow> public_key \<Rightarrow> ssh_key_row option user_act" where
  "add_key n v name key = bnd (requireSelector v) (\<lambda>u. state_act (\<lambda>s.
     if \<exists>k\<in>set (sv_keys s). column_eq (k_username k) (storedUsername u) \<and> k_fingerprint k = pk_fingerprint key then (None, s)
     else let k = new_key n (sv_nextKey s) u name key in (Some k, s\<lparr>sv_keys := sv_keys s @ [k], sv_nextKey := sv_nextKey s + 1\<rparr>)))"

definition remove_key :: "json option \<Rightarrow> int \<Rightarrow> bool user_act" where
  "remove_key v i = bnd (requireSelector v) (\<lambda>u. state_act (\<lambda>s. let hit = (\<lambda>k. column_eq (k_username k) u \<and> k_id k = i) in
     (sql_matched hit (sv_keys s) = 1, s\<lparr>sv_keys := sql_delete hit (sv_keys s)\<rparr>)))"

section \<open>Requests about SSH keys\<close>

definition MAX_KEYS :: nat where "MAX_KEYS = 20"

definition key_view :: "ssh_key_row \<Rightarrow> json" where
  "key_view k = JObj [(''id'', JNum (k_id k)), (''name'', JStr (k_name k)), (''type'', JStr (k_type k)),
     (''fingerprint'', JStr (k_fingerprint k)), (''creationTime'', JNum (k_creationTime k))]"

definition reject_code :: "string \<Rightarrow> user_response" where
  "reject_code code = with_body 400 (JObj [(''code'', JStr code)])"

definition list_ssh_keys :: "user_request \<Rightarrow> user_response user_act" where
  "list_ssh_keys q = gets (\<lambda>s. with_body 200 (JArr (map key_view (list_keys (current_username q) s))))"

fun key_error_code :: "key_error \<Rightarrow> string" where
  "key_error_code INVALID_KEY = ''INVALID_KEY''"
| "key_error_code UNSUPPORTED_TYPE = ''UNSUPPORTED_TYPE''"
| "key_error_code KEY_TOO_WEAK = ''KEY_TOO_WEAK''"

definition notify_key :: "json option \<Rightarrow> ssh_key_row \<Rightarrow> unit user_act" where
  "notify_key v k = catching (bnd (gets (findByUsername v)) (\<lambda>u. bnd (required u) (\<lambda>u. emit_user (SshKeyMail u (key_view k))))) (\<lambda>_. ret ())"

definition add_ssh_key :: "user_env \<Rightarrow> user_request \<Rightarrow> user_response user_act" where
  "add_ssh_key E q = (case parsePublicKey (ev_sha256 E) (body_field q ''publicKey'') of
     Inl _ \<Rightarrow> throw NullAccess
   | Inr (Inl e) \<Rightarrow> ret (reject_code (key_error_code e))
   | Inr (Inr parsed) \<Rightarrow> bnd (count_keys (current_username q)) (\<lambda>n.
       if MAX_KEYS \<le> n then ret (reject_code ''TOO_MANY_KEYS'')
       else bnd (add_key (ev_now E) (current_username q) (keyName (body_field q ''name'') (pk_comment parsed) (pk_type parsed)) parsed) (\<lambda>key.
         case key of None \<Rightarrow> ret (reject_code ''DUPLICATE_KEY'')
         | Some k \<Rightarrow> andthen (notify_key (current_username q) k) (ret (with_body 201 (key_view k))))))"

text \<open>The identifier is a text of the path.\<close>

definition remove_ssh_key :: "string \<Rightarrow> user_request \<Rightarrow> user_response user_act" where
  "remove_ssh_key i q = bnd (if i \<noteq> [] \<and> list_all is_digit i then remove_key (current_username q) (int (digits_value 0 i)) else ret False)
     (\<lambda>removed. ret (if removed then no_content 204 else message 404 ''SSH key not found''))"

definition authorized_lines :: "user option \<Rightarrow> user_service \<Rightarrow> string list" where
  "authorized_lines user s = (case user of None \<Rightarrow> []
     | Some u \<Rightarrow> if u_status u \<noteq> ACTIVE then []
         else filter (\<lambda>l. l \<noteq> []) ((case u_sshPublicKey u of None \<Rightarrow> [] | Some k \<Rightarrow> trim k)
           # map (\<lambda>k. authorizedKeysLine (k_type k) (k_publicKey k)) (list_keys (Some (JStr (u_username u))) s)))"

definition authorizedKeys :: "user_request \<Rightarrow> user_response user_act" where
  "authorizedKeys q = gets (\<lambda>s. let user = findByUsername (json_get (rq_query q) ''username'') s in
     with_body 200 (JStr (concat (map (\<lambda>l. l @ [CHR 0x0A]) (authorized_lines user s)))))"

definition sandboxPublicKey :: "user_request \<Rightarrow> user_response user_act" where
  "sandboxPublicKey q = gets (\<lambda>s. case findByUsername (json_get (rq_query q) ''username'') s of
     None \<Rightarrow> message 404 ''SSH public key not found''
   | Some u \<Rightarrow> if falsy_text (u_sshPublicKey u) then message 404 ''SSH public key not found''
       else with_body 200 (JStr (the (u_sshPublicKey u))))"

section \<open>The credentials of the system's users\<close>

definition SYSTEM_USERS :: "(string \<times> string) list" where
  "SYSTEM_USERS = [(''sepaladmin'', ''SEPAL_ADMIN_PASSWORD''), (''admin'', ''SEPAL_ADMIN_WEB_PASSWORD'')]"

text \<open>The password hash is written last: with it the next start leaves the user alone.\<close>

definition ensureCredentials :: "user_env \<Rightarrow> (string \<Rightarrow> string option) \<Rightarrow> string \<times> string \<Rightarrow> unit user_act" where
  "ensureCredentials E readSecret = (\<lambda>(username, secretEnv). let name = Some (JStr username) in
     bnd (gets (findByUsername name)) (\<lambda>user. case user of None \<Rightarrow> ret ()
     | Some u \<Rightarrow> if \<not> falsy_text (u_passwordHash u) then ret ()
         else (case readSecret secretEnv of None \<Rightarrow> ret () | Some [] \<Rightarrow> ret ()
         | Some secret \<Rightarrow>
           andthen (assignDerivedPosixIds (u_id u)) (
           case ev_provision E username (case u_uid u of None \<Rightarrow> u_id u | Some i \<Rightarrow> i) (case u_gid u of None \<Rightarrow> u_id u | Some i \<Rightarrow> i) of
             None \<Rightarrow> throw ServiceError
           | Some key \<Rightarrow> andthen (updateSshPublicKey (ev_now E) name key) (
               bnd (of_crypto (hashPassword (ev_crypto E) (ev_salt E) secret)) (updatePassword (ev_now E) name))))))"

definition bootstrap :: "user_env \<Rightarrow> (string \<Rightarrow> string option) \<Rightarrow> unit user_act" where
  "bootstrap E readSecret = for_each SYSTEM_USERS (\<lambda>u. catching (ensureCredentials E readSecret u) (\<lambda>_. ret ()))"

section \<open>Routes\<close>

datatype user_route =
    Auth_password | Authorized_keys | Nss_snapshot | Authenticate | Access_callback | Password_reset | Reset_request
  | Validate_email | Validate_token | Sign_up | Validate_username
  | Login | Current | Current_password | Current_details | Accept_policy | List_ssh_keys | Add_ssh_key | Remove_ssh_key string
  | Access_url | Associate_account | Refresh_token | Revoke_access | Google_project
  | Details | Lock | Unlock | Info | List_users | Sandbox_key | Recent_login | Recent_login_by_user | Notifications_enabled

definition serve_user :: "user_env \<Rightarrow> user_route \<Rightarrow> json option \<Rightarrow> user_request \<Rightarrow> user_response user_act" where
  "serve_user E route header q = (let auth = (\<lambda>h. requireAuth header (\<lambda>u. h (q\<lparr>rq_user := u\<rparr>)));
       admin = (\<lambda>h. requireAdmin header (\<lambda>u. h (q\<lparr>rq_user := u\<rparr>))) in case route of
     Auth_password \<Rightarrow> authPassword E q
   | Authorized_keys \<Rightarrow> authorizedKeys q
   | Nss_snapshot \<Rightarrow> nssSnapshot E q
   | Authenticate \<Rightarrow> authenticate E q
   | Access_callback \<Rightarrow> googleAccessRequestCallback q
   | Password_reset \<Rightarrow> resetPassword E q
   | Reset_request \<Rightarrow> requestPasswordReset E q
   | Validate_email \<Rightarrow> validateEmail E q
   | Validate_token \<Rightarrow> validateToken E q
   | Sign_up \<Rightarrow> signup E q
   | Validate_username \<Rightarrow> validateUsername E q
   | Login \<Rightarrow> auth current
   | Current \<Rightarrow> auth current
   | Current_password \<Rightarrow> auth (changePassword E)
   | Current_details \<Rightarrow> auth (updateCurrentDetails E)
   | Accept_policy \<Rightarrow> auth (acceptPrivacyPolicy E)
   | List_ssh_keys \<Rightarrow> auth list_ssh_keys
   | Add_ssh_key \<Rightarrow> auth (add_ssh_key E)
   | Remove_ssh_key i \<Rightarrow> auth (remove_ssh_key i)
   | Access_url \<Rightarrow> auth (googleAccessRequestUrl E)
   | Associate_account \<Rightarrow> auth (associateGoogleAccount E)
   | Refresh_token \<Rightarrow> auth (refreshGoogleAccessToken E)
   | Revoke_access \<Rightarrow> auth (revokeGoogleAccess E)
   | Google_project \<Rightarrow> auth (updateGoogleProject E)
   | Details \<Rightarrow> admin (updateDetails E)
   | Lock \<Rightarrow> admin (lock E)
   | Unlock \<Rightarrow> admin (unlock E)
   | Info \<Rightarrow> admin info
   | List_users \<Rightarrow> admin list_users
   | Sandbox_key \<Rightarrow> admin sandboxPublicKey
   | Recent_login \<Rightarrow> admin mostRecentLogin
   | Recent_login_by_user \<Rightarrow> admin mostRecentLoginByUser
   | Notifications_enabled \<Rightarrow> admin (emailNotificationsEnabled E))"

end
