(* ===== verification/UserSafety.thy ===== *)
theory UserSafety
  imports UserRoutes
begin

text \<open>
  What the user module's requests may do to accounts. A statement of the repository is a step of \<open>user_stmt\<close>,
  guarded by what a request permits; every request is a sequence of permitted statements. From this: the table
  stays keyed, credentials, status and administrator flag change only as the module's rules say, a used reset
  link stays dead, and of two edits of one revision one is refused. The SSH keys that are stored are those that
  parse. What a request permits is decided by the state it finds: the last section shows what a lock between the
  checks and the writes of a reset comes to.
\<close>

section \<open>Statements\<close>

text \<open>What a request permits: whose password, whose status and to what, whose details, which new tokens.\<close>

record permissions =
  may_password :: "string \<Rightarrow> bool"
  may_status :: "string \<Rightarrow> user_status \<Rightarrow> bool"
  may_admin :: "string \<Rightarrow> bool \<Rightarrow> bool"
  may_token :: "string \<Rightarrow> bool"
  may_key :: "public_key \<Rightarrow> bool"

text \<open>A change of columns that are no credentials.\<close>

definition quiet :: "(user_row \<Rightarrow> user_row) \<Rightarrow> bool" where
  "quiet f \<longleftrightarrow> (\<forall>r. c_id (f r) = c_id r \<and> c_username (f r) = c_username r \<and> c_password_hash (f r) = c_password_hash r \<and>
     c_status (f r) = c_status r \<and> c_admin (f r) = c_admin r \<and> c_token (f r) = c_token r \<and> c_revision r \<le> c_revision (f r))"

inductive user_stmt :: "collations \<Rightarrow> permissions \<Rightarrow> user_service \<Rightarrow> user_service \<Rightarrow> bool" for K W where
  elsewhere: "ac_users t = ac_users s \<Longrightarrow> ac_nextId t = ac_nextId s \<Longrightarrow> sv_keys t = sv_keys s \<Longrightarrow> sv_nextKey t = sv_nextKey s \<Longrightarrow>
    user_stmt K W s t"
| key: "may_key W pk \<Longrightarrow> \<not> (\<exists>k\<in>set (sv_keys s). column_eq (k_username k) (storedUsername u) \<and> k_fingerprint k = pk_fingerprint pk) \<Longrightarrow>
    user_stmt K W s (s\<lparr>sv_keys := sv_keys s @ [new_key n (sv_nextKey s) u name pk], sv_nextKey := sv_nextKey s + 1\<rparr>)"
| unkey: "user_stmt K W s (s\<lparr>sv_keys := sql_delete hit (sv_keys s)\<rparr>)"
| quietly: "quiet f \<Longrightarrow> user_stmt K W s (s\<lparr>ac_users := sql_update hit f (ac_users s)\<rparr>)"
| password: "may_password W u \<Longrightarrow>
    user_stmt K W s (on_user u (\<lambda>r. bump n (r\<lparr>c_password_hash := Some h, c_token := None\<rparr>)) s)"
| status: "may_status W u st \<Longrightarrow> user_stmt K W s (on_user u (\<lambda>r. bump n (r\<lparr>c_status := st\<rparr>)) s)"
| token: "may_token W tok \<Longrightarrow>
    user_stmt K W s (on_user u (\<lambda>r. bump n (r\<lparr>c_token := Some tok, c_token_generation_time := NOW n\<rparr>)) s)"
| details: "may_admin W u (d_admin d) \<Longrightarrow> (\<forall>r. hit r \<longrightarrow> column_eq (c_username r) u) \<Longrightarrow>
    user_stmt K W s (s\<lparr>ac_users := sql_update hit (with_details K n d) (ac_users s)\<rparr>)"
| insert: "may_token W tok \<Longrightarrow> \<forall>r\<in>set (ac_users s). \<not> column_eq (c_username r) (storedUsername u) \<Longrightarrow>
    user_stmt K W s (s\<lparr>ac_users := ac_users s @ [new_row n (ac_nextId s) u name email org use tok], ac_nextId := ac_nextId s + 1\<rparr>)"

abbreviation user_stmts :: "collations \<Rightarrow> permissions \<Rightarrow> user_service \<Rightarrow> user_service \<Rightarrow> bool" where
  "user_stmts K W \<equiv> (user_stmt K W)\<^sup>*\<^sup>*"

interpretation stmts: evolution "user_stmts K W" for K W
  by unfold_locales auto

lemmas act_rules = stmts.runs_in_ret stmts.runs_in_throw stmts.runs_in_gets stmts.runs_in_bnd stmts.runs_in_andthen
  stmts.runs_in_catching stmts.runs_in_if stmts.runs_in_for_each

lemma runs_in_option [intro!]:
  "(v = None \<Longrightarrow> runs_in Q m) \<Longrightarrow> (\<And>a. v = Some a \<Longrightarrow> runs_in Q (f a)) \<Longrightarrow> runs_in Q (case v of None \<Rightarrow> m | Some a \<Rightarrow> f a)"
  by (cases v) auto

lemma stmt_modify: "(\<And>s. user_stmt K W s (f s)) \<Longrightarrow> runs_in (user_stmts K W) (modify f)"
  by (rule stmts.runs_in_modify) (rule r_into_rtranclp)

lemma quiet_bump: "quiet f \<Longrightarrow> quiet (\<lambda>r. bump n (f r))"
  by (auto simp: quiet_def bump_def le_SucI)

lemma stmt_quietly: "quiet f \<Longrightarrow> user_stmt K W s (on_user u f s)"
  unfolding on_user_def by (rule user_stmt.quietly)

lemma runs_required [intro!]: "runs_in (user_stmts K W) (required v)"
  by (auto simp: required_def intro!: act_rules)

lemma runs_requireSelector [intro!]: "runs_in (user_stmts K W) (requireSelector v)"
  by (auto simp: requireSelector_def intro!: act_rules)

lemma runs_emit [intro!]: "runs_in (user_stmts K W) (emit_user e)"
  unfolding emit_user_def by (rule stmt_modify, rule user_stmt.elsewhere) simp_all

lemma runs_publish [intro!]:
  "runs_in (user_stmts K W) (publishUserUpdated v)" "runs_in (user_stmts K W) (publishUserLocked v)"
  "runs_in (user_stmts K W) (publishUserUnlocked v)"
  by (auto simp: publishUserUpdated_def publishUserLocked_def publishUserUnlocked_def intro!: act_rules)

lemma runs_quiet_statements [intro!]:
  "runs_in (user_stmts K W) (setLastLoginTime n v)" "runs_in (user_stmts K W) (updateGoogleTokens n v g)"
  "runs_in (user_stmts K W) (acceptPrivacyPolicy_row n v)" "runs_in (user_stmts K W) (updateSshPublicKey n v k)"
  by (auto simp: setLastLoginTime_def updateGoogleTokens_def acceptPrivacyPolicy_row_def updateSshPublicKey_def
      intro!: act_rules stmt_modify stmt_quietly quiet_bump) (auto simp: quiet_def)

lemma runs_assign [intro!]: "runs_in (user_stmts K W) (assignDerivedPosixIds i)"
  unfolding assignDerivedPosixIds_def by (intro stmt_modify user_stmt.quietly) (simp add: quiet_def)

lemma runs_selected:
  assumes "\<And>u. text_of v = Some u \<Longrightarrow> runs_in (user_stmts K W) (f u)"
  shows "runs_in (user_stmts K W) (bnd (requireSelector v) f)"
proof (cases "text_of v")
  case None
  then show ?thesis by (simp add: requireSelector_def act_rules)
next
  case (Some u)
  with assms show ?thesis by (simp add: requireSelector_def)
qed

lemma runs_updatePassword:
  "(\<And>u. text_of v = Some u \<Longrightarrow> may_password W u) \<Longrightarrow> runs_in (user_stmts K W) (updatePassword n v h)"
  unfolding updatePassword_def by (intro runs_selected stmt_modify user_stmt.password)

lemma runs_updateStatus:
  "(\<And>u. text_of v = Some u \<Longrightarrow> may_status W u st) \<Longrightarrow> runs_in (user_stmts K W) (updateStatus n v st)"
  unfolding updateStatus_def by (intro runs_selected stmt_modify user_stmt.status)

lemma runs_updateToken: "may_token W tok \<Longrightarrow> runs_in (user_stmts K W) (updateToken L n v tok)"
  by (auto simp: updateToken_def intro!: act_rules stmt_modify user_stmt.token)

lemma runs_updateUserDetails:
  "(\<And>u. text_of v = Some u \<Longrightarrow> may_admin W u (d_admin d)) \<Longrightarrow> runs_in (user_stmts K W) (updateUserDetails K n v d revision)"
  by (cases "text_of v") (auto simp: updateUserDetails_def requireSelector_def Let_def intro!: act_rules stmt_modify user_stmt.details)

lemma runs_insertUser: "may_token W tok \<Longrightarrow> runs_in (user_stmts K W) (insertUser L n u name email org use tok)"
proof -
  assume tok: "may_token W tok"
  have "runs_in (user_stmts K W) (insert_row L n u name email org use tok)"
    unfolding runs_in_def
  proof
    fix s
    show "user_stmts K W s (snd (insert_row L n u name email org use tok s))"
      using user_stmt.insert [OF tok, of s u K n name email org use] by (auto simp: insert_row_def effect_simps)
  qed
  then show ?thesis by (auto simp: insertUser_def intro!: act_rules)
qed

section \<open>The parts of requests\<close>

lemma runs_of_crypto [intro!]: "runs_in (user_stmts K W) (of_crypto r)"
  by (auto simp: of_crypto_def intro!: act_rules split: sum.splits crypto_error.splits)

lemma runs_verifies [intro!]: "runs_in (user_stmts K W) (verifies E u p)" "runs_in (user_stmts K W) (authenticates E u p)"
  "runs_in (user_stmts K W) (hashed E p)"
  by (auto simp: verifies_def authenticates_def hashed_def intro!: act_rules)

lemma runs_saveTokens [intro!]: "runs_in (user_stmts K W) (saveTokens E v t)"
  by (auto simp: saveTokens_def intro!: act_rules)

lemma runs_refresh [intro!]: "runs_in (user_stmts K W) (refreshGoogleTokens E v t)"
  by (auto simp: refreshGoogleTokens_def intro!: act_rules split: option.split refresh_answer.split)

lemma runs_ensureProvisioned [intro!]: "runs_in (user_stmts K W) (ensureProvisioned E u)"
  by (auto simp: ensureProvisioned_def intro!: act_rules split: option.split)

lemma runs_map_user [intro!]: "runs_in (user_stmts K W) (map_user b v)"
  by (auto simp: map_user_def intro!: act_rules)

lemma runs_throttle [intro!]: "runs_in (user_stmts K W) (try_login E q)" "runs_in (user_stmts K W) (succeed_login E q)"
proof -
  have "user_stmt K W s (snd (case tryAttempt (ev_limits E) (login_of q) (ev_now E) (sv_throttle s) of
      (passes, t) \<Rightarrow> (passes, s\<lparr>sv_throttle := t\<rparr>)))" for s
    by (cases "tryAttempt (ev_limits E) (login_of q) (ev_now E) (sv_throttle s)") (simp add: user_stmt.elsewhere)
  then show "runs_in (user_stmts K W) (try_login E q)"
    unfolding try_login_def by (intro stmts.runs_in_state_act r_into_rtranclp)
  show "runs_in (user_stmts K W) (succeed_login E q)"
    unfolding succeed_login_def by (intro stmt_modify user_stmt.elsewhere) simp_all
qed

lemma runs_rejectConflict [intro!]: "runs_in (user_stmts K W) (rejectConflict v b)"
  by (auto simp: rejectConflict_def intro!: act_rules)

lemma runs_answer_details [intro!]: "runs_in (user_stmts K W) (answer_details v b r)"
  by (cases r) (auto simp: answer_details_def intro!: act_rules)

lemma runs_applyDetails:
  assumes "\<And>u. text_of v = Some u \<Longrightarrow> may_admin W u b"
  shows "runs_in (user_stmts (ev_collations E) W) (applyDetails E q v b)"
proof -
  have "d_admin (details_of q b) = b" by (simp add: details_of_def)
  then have "runs_in (user_stmts (ev_collations E) W) (updateUserDetails (ev_collations E) n v (details_of q b) revision)" for n revision
    using assms by (intro runs_updateUserDetails) simp
  then show ?thesis unfolding applyDetails_def
    by (auto intro!: act_rules split: revision_arg.split)
qed

section \<open>What a request permits\<close>

definition named :: "json option \<Rightarrow> user_service \<Rightarrow> user_row option" where
  "named v s = (case text_of v of None \<Rightarrow> None | Some u \<Rightarrow> find_row u s)"

definition linked :: "collations \<Rightarrow> json option \<Rightarrow> user_service \<Rightarrow> user_row option" where
  "linked K v s = (case text_of v of None \<Rightarrow> None
     | Some token \<Rightarrow> find (\<lambda>r. matches (same_token K) token (c_token r)) (ac_users s))"

definition verified :: "user_env \<Rightarrow> user_row \<Rightarrow> json option \<Rightarrow> bool" where
  "verified E r p \<longleftrightarrow> (case text_of p of None \<Rightarrow> False
     | Some p \<Rightarrow> verifyPassword (ev_crypto E) p (c_password_hash r) = Inr True)"

text \<open>The user a guard lets through, an administrator for the routes of administrators.\<close>

definition admin_header :: "json option \<Rightarrow> bool" where
  "admin_header header \<longleftrightarrow> truthy header \<and> has_admin_role (the header)"

definition names_row :: "string option \<Rightarrow> user_row \<Rightarrow> bool" where
  "names_row v r \<longleftrightarrow> (case v of None \<Rightarrow> False | Some u \<Rightarrow> column_eq (c_username r) u)"

definition live_link :: "user_env \<Rightarrow> user_request \<Rightarrow> user_service \<Rightarrow> user_row \<Rightarrow> bool" where
  "live_link E q s r \<longleftrightarrow> linked (ev_collations E) (body_field q ''token'') s = Some r \<and>
     \<not> isExpired (c_token_generation_time r) (ev_now E) \<and> c_status r \<noteq> LOCKED"

definition header_name :: "json option \<Rightarrow> json option" where
  "header_name header = (case header of None \<Rightarrow> None | Some u \<Rightarrow> json_get u ''username'')"

definition password_by :: "user_env \<Rightarrow> user_route \<Rightarrow> json option \<Rightarrow> user_request \<Rightarrow> user_service \<Rightarrow> user_row \<Rightarrow> bool" where
  "password_by E route header q s r \<longleftrightarrow>
     route = Current_password \<and> truthy header \<and> named (header_name header) s = Some r \<and> verified E r (body_field q ''oldPassword'')
   \<or> route = Password_reset \<and> live_link E q s r
   \<or> route \<in> {Authenticate, Auth_password} \<and> named (body_field q ''username'') s = Some r \<and> c_status r = ACTIVE
       \<and> verified E r (body_field q ''password'')"

definition status_by :: "user_env \<Rightarrow> user_route \<Rightarrow> json option \<Rightarrow> user_request \<Rightarrow> user_service \<Rightarrow> user_row \<Rightarrow> user_status \<Rightarrow> bool" where
  "status_by E route header q s r st \<longleftrightarrow>
     route = Lock \<and> admin_header header \<and> names_row (suppliedUsername q) r \<and> st = LOCKED
   \<or> route = Unlock \<and> admin_header header \<and> names_row (suppliedUsername q) r \<and> st = PENDING
   \<or> route = Password_reset \<and> live_link E q s r \<and> st = ACTIVE"

definition admin_by :: "user_route \<Rightarrow> json option \<Rightarrow> user_request \<Rightarrow> user_row \<Rightarrow> bool \<Rightarrow> bool" where
  "admin_by route header q r b \<longleftrightarrow>
     route = Details \<and> admin_header header \<and> names_row (text_of (body_field q ''username'')) r
   \<or> route = Current_details \<and> truthy header \<and> names_row (text_of (header_name header)) r \<and> b = truthy (json_get (the header) ''admin'')"

definition permits :: "user_env \<Rightarrow> user_route \<Rightarrow> json option \<Rightarrow> user_request \<Rightarrow> user_service \<Rightarrow> permissions" where
  "permits E route header q s = \<lparr>
     may_password = (\<lambda>u. \<forall>r\<in>set (ac_users s). column_eq (c_username r) u \<longrightarrow> password_by E route header q s r),
     may_status = (\<lambda>u st. \<forall>r\<in>set (ac_users s). column_eq (c_username r) u \<longrightarrow> status_by E route header q s r st),
     may_admin = (\<lambda>u b. \<forall>r\<in>set (ac_users s). column_eq (c_username r) u \<longrightarrow> admin_by route header q r b),
     may_token = (\<lambda>t. t = ev_uuid E),
     may_key = (\<lambda>k. \<exists>line. parsePublicKey (ev_sha256 E) line = Inr (Inr k))\<rparr>"

lemma permits_simps [simp]:
  "may_password (permits E route header q s) u \<longleftrightarrow> (\<forall>r\<in>set (ac_users s). column_eq (c_username r) u \<longrightarrow> password_by E route header q s r)"
  "may_status (permits E route header q s) u st \<longleftrightarrow> (\<forall>r\<in>set (ac_users s). column_eq (c_username r) u \<longrightarrow> status_by E route header q s r st)"
  "may_admin (permits E route header q s) u b \<longleftrightarrow> (\<forall>r\<in>set (ac_users s). column_eq (c_username r) u \<longrightarrow> admin_by route header q r b)"
  "may_token (permits E route header q s) t \<longleftrightarrow> t = ev_uuid E"
  "may_key (permits E route header q s) k \<longleftrightarrow> (\<exists>line. parsePublicKey (ev_sha256 E) line = Inr (Inr k))"
  by (simp_all add: permits_def)

section \<open>The table is keyed\<close>

definition column_key :: "string \<Rightarrow> string" where
  "column_key u = storedUsername (unpadded u)"

definition users_ok :: "user_service \<Rightarrow> bool" where
  "users_ok s \<longleftrightarrow> distinct (map (\<lambda>r. column_key (c_username r)) (ac_users s)) \<and> distinct (map c_id (ac_users s)) \<and>
     (\<forall>r\<in>set (ac_users s). c_id r < ac_nextId s)"

lemma column_eq_key: "column_eq a b \<longleftrightarrow> column_key a = column_key b"
  by (simp add: column_eq_def ci_eq_def column_key_def)

lemma users_ok_same:
  "users_ok s \<Longrightarrow> r \<in> set (ac_users s) \<Longrightarrow> q \<in> set (ac_users s) \<Longrightarrow> column_eq (c_username r) (c_username q) \<Longrightarrow> r = q"
  unfolding users_ok_def column_eq_key by (rule map_of_key_unique [of "\<lambda>r. column_key (c_username r)"]) auto

lemma named_in: "named v s = Some r \<Longrightarrow> r \<in> set (ac_users s)"
  by (auto simp: named_def find_row_def dest: find_Some_key split: option.splits)

lemma linked_in: "linked K v s = Some r \<Longrightarrow> r \<in> set (ac_users s)"
  by (auto simp: linked_def dest: find_Some_key split: option.splits)

lemma findByUsername_named: "findByUsername v s = map_option rowToUser (named v s)"
  by (simp add: findByUsername_def named_def split: option.split)

lemma findByToken_linked: "findByToken K v s = map_option rowToUser (linked K v s)"
  by (simp add: findByToken_def linked_def split: option.split)

lemma rowToUser_simps [simp]:
  "u_username (rowToUser r) = c_username r" "u_status (rowToUser r) = c_status r" "u_passwordHash (rowToUser r) = c_password_hash r"
  "u_token (rowToUser r) = c_token r" "u_tokenGenerationTime (rowToUser r) = c_token_generation_time r"
  "u_sshPublicKey (rowToUser r) = c_ssh_public_key r"
  by (simp_all add: rowToUser_def)

section \<open>Requests are permitted statements\<close>

lemma stmts_checked:
  assumes "snd (m s) = s" and "\<And>a. fst (m s) = Inr a \<Longrightarrow> user_stmts K W s (snd (f a s))"
  shows "user_stmts K W s (snd (bnd m f s))"
proof (cases "m s")
  case (Pair r t)
  with assms show ?thesis by (cases r) (auto simp: bnd_run)
qed

lemma of_crypto_pure: "snd (of_crypto r s) = s" "fst (of_crypto r s) = Inr a \<Longrightarrow> r = Inr a"
  by (auto simp: of_crypto_def split: sum.splits crypto_error.splits)

lemma verifies_checked:
  "snd (verifies E (map_option rowToUser v) p s) = s"
  "fst (verifies E (map_option rowToUser v) p s) = Inr True \<Longrightarrow> \<exists>r. v = Some r \<and> verified E r p"
  by (auto simp: verifies_def verified_def of_crypto_pure split: option.splits if_splits dest: of_crypto_pure(2))

lemma authenticates_checked:
  "snd (authenticates E (map_option rowToUser v) p s) = s"
  "fst (authenticates E (map_option rowToUser v) p s) = Inr True \<Longrightarrow> \<exists>r. v = Some r \<and> c_status r = ACTIVE \<and> verified E r p"
  using verifies_checked [of E v p s]
  by (auto simp: authenticates_def verified_def split: option.splits if_splits)

lemma only_row:
  assumes "users_ok s" and "r \<in> set (ac_users s)" and "P r"
  shows "\<forall>q\<in>set (ac_users s). column_eq (c_username q) (c_username r) \<longrightarrow> P q"
  using users_ok_same [OF assms(1) _ assms(2)] assms(3) by blast

lemma runs_rehash:
  assumes "users_ok s" and "r \<in> set (ac_users s)" and "password_by E route header q s r"
  shows "runs_in (user_stmts K (permits E route header q s)) (maybeRehashPassword E (rowToUser r) p)"
proof -
  have "may_password (permits E route header q s) (c_username r)"
    using only_row [OF assms(1,2), of "password_by E route header q s"] assms(3) by simp
  then have "runs_in (user_stmts K (permits E route header q s)) (updatePassword (ev_now E) (Some (JStr (c_username r))) h)" for h
    by (intro runs_updatePassword) simp
  then show ?thesis by (auto simp: maybeRehashPassword_def intro!: act_rules)
qed

lemma try_login_users:
  assumes "try_login E q s = (r, t)"
  shows "ac_users t = ac_users s" and "ac_nextId t = ac_nextId s"
  using assms by (auto simp: try_login_def state_act_run split: prod.splits)

lemma login_stmts:
  assumes ok: "users_ok s" and route: "route \<in> {Authenticate, Auth_password}"
    and rest: "\<And>r. password_by E route header q s r \<Longrightarrow> r \<in> set (ac_users s) \<Longrightarrow> runs_in (user_stmts K (permits E route header q s)) (go (rowToUser r))"
    and no: "runs_in (user_stmts K (permits E route header q s)) no"
  shows "user_stmts K (permits E route header q s) s (snd (bnd (try_login E q) (\<lambda>passes. if \<not> passes then ret a else
     bnd (gets (findByUsername (body_field q ''username''))) (\<lambda>user.
     bnd (authenticates E user (body_field q ''password'')) (\<lambda>ok. if ok then bnd (required user) go else no))) s))"
proof -
  let ?W = "permits E route header q s"
  obtain passes t where t: "try_login E q s = (Inr passes, t)"
    by (auto simp: try_login_def state_act_run split: prod.splits)
  have "runs_in (user_stmts K ?W) (try_login E q)" by (rule runs_throttle(1))
  then have s_t: "user_stmts K ?W s t" using t by (rule runs_inD_run)
  have users: "named v t = named v s" for v using try_login_users [OF t] by (simp add: named_def find_row_def split: option.split)
  let ?user = "map_option rowToUser (named (body_field q ''username'') t)"
  have "user_stmts K ?W t (snd (bnd (authenticates E ?user (body_field q ''password'')) (\<lambda>ok. if ok then bnd (required ?user) go else no) t))"
  proof (rule stmts_checked [OF authenticates_checked(1)])
    fix ok'
    assume a: "fst (authenticates E ?user (body_field q ''password'') t) = Inr ok'"
    show "user_stmts K ?W t (snd ((if ok' then bnd (required ?user) go else no) t))"
    proof (cases ok')
      case False
      then show ?thesis using runs_inD [OF no] by simp
    next
      case True
      with a obtain r where r: "named (body_field q ''username'') t = Some r" "c_status r = ACTIVE" "verified E r (body_field q ''password'')"
        using authenticates_checked(2) [of E "named (body_field q ''username'') t" "body_field q ''password''" t] by auto
      then have "password_by E route header q s r" using route by (auto simp: password_by_def users)
      then show ?thesis using runs_inD [OF rest] named_in [OF r(1)] try_login_users [OF t] True r(1)
        by (simp add: required_def)
    qed
  qed
  with s_t show ?thesis by (auto simp: bnd_run t findByUsername_named)
qed

lemma authenticate_stmts:
  assumes "users_ok s"
  shows "user_stmts K (permits E Authenticate header q s) s (snd (authenticate E q s))"
  unfolding authenticate_def
  by (rule login_stmts [OF assms]) (auto simp: Let_def intro!: act_rules runs_rehash [OF assms])

lemma authPassword_stmts:
  assumes "users_ok s"
  shows "user_stmts K (permits E Auth_password header q s) s (snd (authPassword E q s))"
  unfolding authPassword_def
  by (rule login_stmts [OF assms]) (auto simp: Let_def intro!: act_rules runs_rehash [OF assms])

lemma stmts_gets: "(\<And>v. v = f s \<Longrightarrow> user_stmts K W s (snd (g v s))) \<Longrightarrow> user_stmts K W s (snd (bnd (gets f) g s))"
  by (simp add: bnd_run)

lemma changePassword_stmts:
  assumes "users_ok s" and "truthy header" and "q = q\<^sub>0\<lparr>rq_user := the header\<rparr>"
  shows "user_stmts K (permits E Current_password header q\<^sub>0 s) s (snd (changePassword E q s))"
proof -
  let ?W = "permits E Current_password header q\<^sub>0 s" and ?v = "named (current_username q) s"
  have v: "current_username q = header_name header" "body_field q = body_field q\<^sub>0"
    using assms(2) by (cases header; simp add: assms(3) current_username_def header_name_def body_field_def fun_eq_iff)+
  have "user_stmts K ?W s (snd (bnd (verifies E (map_option rowToUser ?v) (body_field q ''oldPassword'')) (\<lambda>ok.
      if ok then bnd (required (map_option rowToUser ?v)) (\<lambda>u. bnd (hashed E (body_field q ''newPassword'')) (\<lambda>hash.
        andthen (updatePassword (ev_now E) (Some (JStr (u_username u))) hash) (ret (outcome ''success'' ''Password changed''))))
      else ret (outcome ''failure'' ''Invalid old password'')) s))" (is "user_stmts K ?W s (snd (bnd ?check ?rest s))")
  proof (rule stmts_checked [OF verifies_checked(1)])
    fix ok
    assume a: "fst (?check s) = Inr ok"
    show "user_stmts K ?W s (snd (?rest ok s))"
    proof (cases ok)
      case True
      with a obtain r where r: "?v = Some r" "verified E r (body_field q ''oldPassword'')"
        using verifies_checked(2) [of E ?v "body_field q ''oldPassword''" s] by auto
      then have "password_by E Current_password header q\<^sub>0 s r" using assms(2) v by (simp add: password_by_def)
      then have "may_password ?W (c_username r)"
        using only_row [OF assms(1) named_in [OF r(1)], of "password_by E Current_password header q\<^sub>0 s"] by simp
      then have "runs_in (user_stmts K ?W) (?rest ok)" using True r(1)
        by (auto simp: required_def intro!: act_rules runs_updatePassword)
      then show ?thesis by (rule runs_inD)
    qed simp
  qed
  then show ?thesis unfolding changePassword_def by (auto simp: bnd_run findByUsername_named)
qed

lemma resetPassword_stmts:
  assumes "users_ok s"
  shows "user_stmts K (permits E Password_reset header q s) s (snd (resetPassword E q s))"
proof -
  let ?W = "permits E Password_reset header q s"
  have "user_stmts K ?W s (snd (reset_writes E (rowToUser r) (body_field q ''password'') s))" if r: "live_link E q s r" for r
  proof -
    have r_in: "r \<in> set (ac_users s)" using r linked_in by (auto simp: live_link_def)
    have "may_password ?W (c_username r)"
      using only_row [OF assms r_in, of "password_by E Password_reset header q s"] r by (simp add: password_by_def)
    moreover have "may_status ?W (c_username r) ACTIVE"
      using only_row [OF assms r_in, of "\<lambda>r. status_by E Password_reset header q s r ACTIVE"] r by (simp add: status_by_def)
    ultimately have "runs_in (user_stmts K ?W) (reset_writes E (rowToUser r) (body_field q ''password''))"
      by (auto simp: reset_writes_def Let_def intro!: act_rules runs_updatePassword runs_updateStatus)
    then show ?thesis by (rule runs_inD)
  qed
  then show ?thesis unfolding resetPassword_def
    by (auto simp: bnd_run findByToken_linked live_link_def split: option.split)
qed

lemma runs_supplied_user [intro!]: "runs_in (user_stmts K W) (supplied_user q)"
  by (auto simp: supplied_user_def intro!: act_rules)

lemma lock_stmts:
  assumes "admin_header header" and "q = q\<^sub>0\<lparr>rq_user := u\<rparr>"
  shows "runs_in (user_stmts K (permits E Lock header q\<^sub>0 s)) (lock E q)"
proof -
  have "suppliedUsername q = suppliedUsername q\<^sub>0" using assms(2) by (simp add: suppliedUsername_def body_field_def)
  then have "runs_in (user_stmts K (permits E Lock header q\<^sub>0 s)) (updateStatus n (map_option JStr (suppliedUsername q)) LOCKED)" for n
    using assms(1) by (intro runs_updateStatus) (auto simp: status_by_def names_row_def split: option.splits)
  then show ?thesis unfolding lock_def own_name_def
    by (auto simp: Let_def intro!: act_rules split: option.split json.split)
qed

lemma unlock_stmts:
  assumes "admin_header header" and "q = q\<^sub>0\<lparr>rq_user := u\<rparr>"
  shows "runs_in (user_stmts K (permits E Unlock header q\<^sub>0 s)) (unlock E q)"
proof -
  have "suppliedUsername q = suppliedUsername q\<^sub>0" using assms(2) by (simp add: suppliedUsername_def body_field_def)
  then have "runs_in (user_stmts K (permits E Unlock header q\<^sub>0 s)) (updateStatus n (map_option JStr (suppliedUsername q)) PENDING)" for n
    using assms(1) by (intro runs_updateStatus) (auto simp: status_by_def names_row_def split: option.splits)
  then show ?thesis unfolding unlock_def
    by (auto simp: Let_def intro!: act_rules runs_updateToken)
qed

lemma details_stmts:
  assumes "q = q\<^sub>0\<lparr>rq_user := u\<rparr>"
  shows "admin_header header \<Longrightarrow> runs_in (user_stmts (ev_collations E) (permits E Details header q\<^sub>0 s)) (updateDetails E q)"
    and "truthy header \<Longrightarrow> u = the header \<Longrightarrow>
      runs_in (user_stmts (ev_collations E) (permits E Current_details header q\<^sub>0 s)) (updateCurrentDetails E q)"
proof -
  have b: "body_field q = body_field q\<^sub>0" using assms by (simp add: body_field_def fun_eq_iff)
  assume "admin_header header"
  then show "runs_in (user_stmts (ev_collations E) (permits E Details header q\<^sub>0 s)) (updateDetails E q)"
    unfolding updateDetails_def
    by (auto intro!: act_rules runs_applyDetails simp: admin_by_def names_row_def b)
next
  assume "truthy header" and "u = the header"
  then have n: "current_username q = header_name header" "rq_user q = the header"
    using assms by (cases header; simp add: current_username_def header_name_def)+
  have "runs_in (user_stmts (ev_collations E) (permits E Current_details header q\<^sub>0 s)) (confirmsEmailChange E q v)" for v
    by (auto simp: confirmsEmailChange_def intro!: act_rules)
  then show "runs_in (user_stmts (ev_collations E) (permits E Current_details header q\<^sub>0 s)) (updateCurrentDetails E q)"
    unfolding updateCurrentDetails_def n using \<open>truthy header\<close>
    by (auto intro!: act_rules runs_applyDetails simp: admin_by_def names_row_def)
qed

lemma signup_stmts: "runs_in (user_stmts K (permits E route header q\<^sub>0 s)) (signup E q)"
  by (auto simp: signup_def createInvitedUser_def Let_def intro!: act_rules runs_insertUser)

lemma reset_request_stmts: "runs_in (user_stmts K (permits E route header q\<^sub>0 s)) (requestPasswordReset E q)"
proof -
  have "runs_in (user_stmts K (permits E route header q\<^sub>0 s)) (updateToken L m v (getOrGenerateToken (ev_uuid E) u n))"
    if "Some (getOrGenerateToken (ev_uuid E) u n) \<noteq> u_token u" for u n m v L
    using that by (intro runs_updateToken) (auto simp: getOrGenerateToken_def split: option.splits if_splits)
  then show ?thesis by (auto simp: requestPasswordReset_def Let_def intro!: act_rules)
qed

lemma runs_keys [intro!]:
  "runs_in (user_stmts K W) (count_keys v)" "may_key W k \<Longrightarrow> runs_in (user_stmts K W) (add_key n v name k)" "runs_in (user_stmts K W) (remove_key v i)"
  "runs_in (user_stmts K W) (notify_key v r)"
proof -
  show "runs_in (user_stmts K W) (count_keys v)" "runs_in (user_stmts K W) (notify_key v r)"
    by (auto simp: count_keys_def notify_key_def intro!: act_rules)
  show "runs_in (user_stmts K W) (remove_key v i)"
    unfolding remove_key_def
    by (intro act_rules runs_requireSelector stmts.runs_in_state_act r_into_rtranclp) (simp add: Let_def user_stmt.unkey)
  assume k: "may_key W k"
  have "user_stmts K W s (snd (if \<exists>x\<in>set (sv_keys s). column_eq (k_username x) (storedUsername u) \<and> k_fingerprint x = pk_fingerprint k then (None, s)
      else (Some (new_key n (sv_nextKey s) u name k), s\<lparr>sv_keys := sv_keys s @ [new_key n (sv_nextKey s) u name k], sv_nextKey := sv_nextKey s + 1\<rparr>)))" for s u
    using user_stmt.key [OF k, of s u K n name] by auto
  then show "runs_in (user_stmts K W) (add_key n v name k)"
    unfolding add_key_def Let_def by (intro act_rules runs_requireSelector stmts.runs_in_state_act)
qed

lemma runs_google [intro!]:
  "runs_in (user_stmts K W) (associateGoogleAccount E q)" "runs_in (user_stmts K W) (refreshGoogleAccessToken E q)"
  "runs_in (user_stmts K W) (revokeGoogleAccess E q)" "runs_in (user_stmts K W) (updateGoogleProject E q)"
  "runs_in (user_stmts K W) (googleAccessRequestUrl E q)" "runs_in (user_stmts K W) (googleAccessRequestCallback q)"
  by (auto simp: associateGoogleAccount_def refreshGoogleAccessToken_def revokeGoogleAccess_def updateGoogleProject_def
      googleAccessRequestUrl_def googleAccessRequestCallback_def Let_def intro!: act_rules split: list.split)

lemma runs_reads [intro!]:
  "runs_in (user_stmts K W) (authorizedKeys q)" "runs_in (user_stmts K W) (nssSnapshot E q)" "runs_in (user_stmts K W) (validateEmail E q)"
  "runs_in (user_stmts K W) (validateToken E q)" "runs_in (user_stmts K W) (validateUsername E q)" "runs_in (user_stmts K W) (UserApi.current q)"
  "runs_in (user_stmts K W) (list_ssh_keys q)" "runs_in (user_stmts K W) (info q)" "runs_in (user_stmts K W) (list_users q)"
  "runs_in (user_stmts K W) (sandboxPublicKey q)" "runs_in (user_stmts K W) (mostRecentLogin q)"
  "runs_in (user_stmts K W) (mostRecentLoginByUser q)" "runs_in (user_stmts K W) (emailNotificationsEnabled E q)"
  unfolding authorizedKeys_def nssSnapshot_def validateEmail_def validateToken_def validateUsername_def UserApi.current_def
    list_ssh_keys_def info_def list_users_def sandboxPublicKey_def mostRecentLogin_def mostRecentLoginByUser_def
    emailNotificationsEnabled_def Let_def
  by (rule act_rules)+

lemma runs_own [intro!]:
  "runs_in (user_stmts K W) (acceptPrivacyPolicy E q)" "runs_in (user_stmts K W) (remove_ssh_key i q)"
  "runs_in (user_stmts K (permits E route header q\<^sub>0 s)) (add_ssh_key E q)"
proof -
  show "runs_in (user_stmts K W) (acceptPrivacyPolicy E q)" "runs_in (user_stmts K (permits E route header q\<^sub>0 s)) (add_ssh_key E q)"
    by (auto simp: acceptPrivacyPolicy_def add_ssh_key_def intro!: act_rules split: sum.split)
  show "runs_in (user_stmts K W) (remove_ssh_key i q)"
    unfolding remove_ssh_key_def by (intro act_rules runs_keys)
qed

text \<open>Every request is a sequence of statements that it permits.\<close>

lemma serve_auth:
  "(truthy header \<Longrightarrow> user_stmts K W s (snd (go (the header) s))) \<Longrightarrow> user_stmts K W s (snd (requireAuth header go s))"
  by (auto simp: requireAuth_def)

lemma serve_admin:
  "(admin_header header \<Longrightarrow> user_stmts K W s (snd (go (the header) s))) \<Longrightarrow> user_stmts K W s (snd (requireAdmin header go s))"
  by (auto simp: requireAdmin_def admin_header_def)

lemma serve_stmts:
  assumes "users_ok s"
  shows "user_stmts (ev_collations E) (permits E route header q s) s (snd (serve_user E route header q s))"
proof -
  let ?R = "\<lambda>m. user_stmts (ev_collations E) (permits E route header q s) s (snd (m s))"
  have one: "?R m" if "runs_in (user_stmts (ev_collations E) (permits E route header q s)) m" for m
    using that by (rule runs_inD)
  show ?thesis
  proof (cases route)
    case Auth_password
    then show ?thesis using authPassword_stmts [OF assms] by (simp add: serve_user_def)
  next
    case Authenticate
    then show ?thesis using authenticate_stmts [OF assms] by (simp add: serve_user_def)
  next
    case Password_reset
    then show ?thesis using resetPassword_stmts [OF assms] by (simp add: serve_user_def)
  next
    case Current_password
    have "?R (requireAuth header (\<lambda>u. changePassword E (q\<lparr>rq_user := u\<rparr>)))"
      unfolding Current_password by (rule serve_auth) (rule changePassword_stmts [OF assms _ refl])
    with Current_password show ?thesis by (simp add: serve_user_def)
  next
    case Current_details
    have "?R (requireAuth header (\<lambda>u. updateCurrentDetails E (q\<lparr>rq_user := u\<rparr>)))"
      unfolding Current_details by (rule serve_auth) (rule runs_inD [OF details_stmts(2) [OF refl _ refl]])
    with Current_details show ?thesis by (simp add: serve_user_def)
  next
    case Details
    have "?R (requireAdmin header (\<lambda>u. updateDetails E (q\<lparr>rq_user := u\<rparr>)))"
      unfolding Details by (rule serve_admin) (rule runs_inD [OF details_stmts(1) [OF refl]])
    with Details show ?thesis by (simp add: serve_user_def)
  next
    case Lock
    have "?R (requireAdmin header (\<lambda>u. lock E (q\<lparr>rq_user := u\<rparr>)))"
      unfolding Lock by (rule serve_admin) (rule runs_inD [OF lock_stmts [OF _ refl]])
    with Lock show ?thesis by (simp add: serve_user_def)
  next
    case Unlock
    have "?R (requireAdmin header (\<lambda>u. unlock E (q\<lparr>rq_user := u\<rparr>)))"
      unfolding Unlock by (rule serve_admin) (rule runs_inD [OF unlock_stmts [OF _ refl]])
    with Unlock show ?thesis by (simp add: serve_user_def)
  next
    case Sign_up
    then show ?thesis using one [OF signup_stmts] by (simp add: serve_user_def)
  next
    case Reset_request
    then show ?thesis using one [OF reset_request_stmts] by (simp add: serve_user_def)
  qed (simp_all add: serve_user_def Let_def,
      (((rule serve_auth serve_admin)?, rule runs_inD, rule runs_reads runs_own runs_google))+)
qed

section \<open>What statements do to the table\<close>

text \<open>How a row may change under permissions.\<close>

definition row_step :: "permissions \<Rightarrow> user_row \<Rightarrow> user_row \<Rightarrow> bool" where
  "row_step W r q \<longleftrightarrow> c_id q = c_id r \<and> c_username q = c_username r \<and> c_revision r \<le> c_revision q \<and>
     (c_password_hash q = c_password_hash r \<or> (\<exists>u. column_eq (c_username r) u \<and> may_password W u)) \<and>
     (c_status q = c_status r \<or> (\<exists>u. column_eq (c_username r) u \<and> may_status W u (c_status q))) \<and>
     (c_admin q = c_admin r \<or> (\<exists>u. column_eq (c_username r) u \<and> may_admin W u (c_admin q)))"

lemma row_step_refl [simp]: "row_step W r r"
  by (simp add: row_step_def)

lemma row_step_trans: "row_step W r q \<Longrightarrow> row_step W q p \<Longrightarrow> row_step W r p"
  unfolding row_step_def by (auto intro: order_trans)

definition users_step :: "permissions \<Rightarrow> user_row list \<Rightarrow> user_row list \<Rightarrow> bool" where
  "users_step W = grows (row_step W) (\<lambda>q. True)"

lemma users_step_refl [simp]: "users_step W rs rs"
  unfolding users_step_def grows_def by (intro exI [of _ rs] exI [of _ "[]"]) (simp add: list_all2_refl)

lemma users_step_trans:
  assumes "users_step W rs qs" and "users_step W qs ps"
  shows "users_step W rs ps"
proof -
  obtain as bs where q: "qs = as @ bs" "list_all2 (row_step W) rs as" using assms(1) by (auto simp: users_step_def grows_def)
  obtain cs ds where p: "ps = cs @ ds" "list_all2 (row_step W) qs cs" using assms(2) by (auto simp: users_step_def grows_def)
  obtain es fs where e: "cs = es @ fs" "list_all2 (row_step W) as es" using p(2) unfolding q(1) list_all2_append1 by blast
  have "list_all2 (row_step W) rs es" using row_step_trans q(2) e(2) by (rule list_all2_trans)
  with p(1) e(1) have "ps = es @ (fs @ ds) \<and> list_all2 (row_step W) rs es \<and> list_all (\<lambda>q. True) (fs @ ds)"
    by (simp add: list_all_iff)
  then show ?thesis unfolding users_step_def grows_def by blast
qed

lemma row_step_stmt:
  "quiet f \<Longrightarrow> row_step W r (f r)"
  "may_password W u \<Longrightarrow> column_eq (c_username r) u \<Longrightarrow> row_step W r (bump n (r\<lparr>c_password_hash := Some h, c_token := None\<rparr>))"
  "may_status W u st \<Longrightarrow> column_eq (c_username r) u \<Longrightarrow> row_step W r (bump n (r\<lparr>c_status := st\<rparr>))"
  "row_step W r (bump n (r\<lparr>c_token := tok, c_token_generation_time := m\<rparr>))"
  "may_admin W u (d_admin d) \<Longrightarrow> column_eq (c_username r) u \<Longrightarrow> row_step W r (with_details K n d r)"
  by (auto simp: row_step_def quiet_def bump_def with_details_def)

lemma users_step_update: "(\<And>r. P r \<Longrightarrow> row_step W r (f r)) \<Longrightarrow> users_step W rs (sql_update P f rs)"
  unfolding users_step_def by (rule grows_update) simp_all

lemma users_step_stmt: "user_stmt K W s t \<Longrightarrow> users_step W (ac_users s) (ac_users t)"
proof (induction rule: user_stmt.induct)
  case (insert tok s u n name email org use)
  show ?case unfolding users_step_def by (simp, rule grows_append) simp_all
next
  case (quietly f s hit)
  then show ?case by (auto intro!: users_step_update row_step_stmt(1))
next
  case (details u d hit s n)
  then show ?case by (auto intro!: users_step_update row_step_stmt(5))
qed (auto simp: on_user_def intro!: users_step_update row_step_stmt(2-4))

lemma users_step_stmts: "user_stmts K W s t \<Longrightarrow> users_step W (ac_users s) (ac_users t)"
  by (induction rule: rtranclp_induct) (auto intro: users_step_trans users_step_stmt)

lemma keyed_update:
  assumes "users_ok s" and "\<And>r. c_id (f r) = c_id r" and "\<And>r. c_username (f r) = c_username r"
  shows "users_ok (s\<lparr>ac_users := sql_update P f (ac_users s)\<rparr>)"
proof -
  have "map (\<lambda>r. column_key (c_username r)) (sql_update P f (ac_users s)) = map (\<lambda>r. column_key (c_username r)) (ac_users s)"
    "map c_id (sql_update P f (ac_users s)) = map c_id (ac_users s)"
    by (rule map_sql_update_same; simp add: assms(2,3))+
  moreover have "\<forall>r\<in>set (sql_update P f (ac_users s)). c_id r < ac_nextId s"
    using assms(1) by (auto simp: users_ok_def set_sql_update assms(2))
  ultimately show ?thesis using assms(1) by (simp add: users_ok_def)
qed

lemma users_ok_stmt:
  assumes "user_stmt K W s t" and "users_ok s"
  shows "users_ok t"
  using assms
proof (induction rule: user_stmt.induct)
  case (elsewhere t s)
  then show ?case by (simp add: users_ok_def)
next
  case (key k s u n name)
  then show ?case by (simp add: users_ok_def)
next
  case (unkey s hit)
  then show ?case by (simp add: users_ok_def)
next
  case (insert tok s u n name email org use)
  show ?case using insert
    by (auto simp: users_ok_def new_row_def column_eq_key)
qed (auto simp: on_user_def bump_def with_details_def quiet_def intro!: keyed_update)

lemma users_ok_stmts: "user_stmts K W s t \<Longrightarrow> users_ok s \<Longrightarrow> users_ok t"
  by (induction rule: rtranclp_induct) (auto intro: users_ok_stmt)

section \<open>Who changes credentials\<close>

lemma permitted_row:
  "A \<or> (\<exists>u. column_eq (c_username r) u \<and> (\<forall>q\<in>R. column_eq (c_username q) u \<longrightarrow> P q)) \<Longrightarrow> r \<in> R \<Longrightarrow> A \<or> P r"
  by blast

lemma names_row_key: "names_row v r \<Longrightarrow> column_eq (c_username r) (c_username q) \<Longrightarrow> names_row v q"
  by (auto simp: names_row_def column_eq_key split: option.splits)


text \<open>A history is a list of requests, each with its environment.\<close>

type_synonym user_history = "(user_env \<times> user_route \<times> json option \<times> user_request) list"

definition serve_all :: "user_history \<Rightarrow> user_service \<Rightarrow> user_service" where
  "serve_all h s = fold (\<lambda>(E, route, header, q) s. snd (serve_user E route header q s)) h s"

lemma serve_all_simps [simp]:
  "serve_all [] s = s"
  "serve_all ((E, route, header, q) # h) s = serve_all h (snd (serve_user E route header q s))"
  by (simp_all add: serve_all_def)

lemma serve_users_ok: "users_ok s \<Longrightarrow> users_ok (snd (serve_user E route header q s))"
  by (rule users_ok_stmts [OF serve_stmts])


section \<open>Reset links\<close>

definition dead_link :: "collations \<Rightarrow> string \<Rightarrow> user_service \<Rightarrow> bool" where
  "dead_link K tok s \<longleftrightarrow> (\<forall>r\<in>set (ac_users s). \<not> matches (same_token K) tok (c_token r))"

lemma dead_link_stmt:
  assumes "user_stmt K W s t" and "dead_link L tok s" and "\<And>u. may_token W u \<Longrightarrow> \<not> same_token L u tok"
  shows "dead_link L tok t"
  using assms(1,2)
proof (induction rule: user_stmt.induct)
  case (quietly f s hit)
  then show ?case by (auto simp: dead_link_def set_sql_update quiet_def)
next
  case (insert u' s u n name email org use)
  then show ?case using assms(3) by (auto simp: dead_link_def new_row_def matches_def)
next
  case (token u' u n s)
  then show ?case using assms(3) by (auto simp: dead_link_def on_user_def set_sql_update bump_def matches_def)
qed (auto simp: dead_link_def on_user_def set_sql_update bump_def with_details_def matches_def split: if_splits)

lemma dead_link_stmts:
  "user_stmts K W s t \<Longrightarrow> dead_link L tok s \<Longrightarrow> (\<And>u. may_token W u \<Longrightarrow> \<not> same_token L u tok) \<Longrightarrow> dead_link L tok t"
  by (induction rule: rtranclp_induct) (auto intro: dead_link_stmt)

lemma dead_link_history:
  assumes "users_ok s" and "dead_link K tok s" and "\<forall>(E, x)\<in>set h. \<not> same_token K (ev_uuid E) tok"
  shows "users_ok (serve_all h s) \<and> dead_link K tok (serve_all h s)"
  using assms
proof (induction h arbitrary: s)
  case (Cons x h)
  obtain E route header q where x: "x = (E, route, header, q)" by (cases x) auto
  have "dead_link K tok (snd (serve_user E route header q s))"
    by (rule dead_link_stmts [OF serve_stmts [OF Cons.prems(1)] Cons.prems(2)]) (use Cons.prems(3) x in auto)
  with Cons.IH [OF serve_users_ok [OF Cons.prems(1)]] Cons.prems(3) show ?case by (simp add: x)
qed simp

lemma reset_writes_dead:
  assumes ok: "users_ok s" and r: "r \<in> set (ac_users s)" and tok: "matches (same_token L) tok (c_token r)"
    and one: "\<And>q. q \<in> set (ac_users s) \<Longrightarrow> matches (same_token L) tok (c_token q) \<Longrightarrow> q = r"
    and run: "reset_writes E (rowToUser r) p s = (Inr a, t)"
  shows "dead_link L tok t"
proof -
  let ?W = "\<lparr>may_password = \<lambda>_. True, may_status = \<lambda>_ _. True, may_admin = \<lambda>_ _. True, may_token = \<lambda>_. False, may_key = \<lambda>_. False\<rparr>"
  let ?name = "Some (JStr (c_username r))"
  let ?rest = "andthen (updateStatus (ev_now E) ?name ACTIVE) (
     bnd (gets (findByUsername ?name)) (\<lambda>reloaded.
     bnd (if c_status r = PENDING then bnd (required reloaded) (ensureProvisioned E)
          else bnd (required reloaded) (\<lambda>r. if falsy_text (u_sshPublicKey r) then ensureProvisioned E r else ret reloaded)) (\<lambda>updated.
     andthen (publishUserUpdated updated) (map_user True updated))))"
  obtain h s1 where h: "hashed E p s = (Inr h, s1)" and w: "andthen (updatePassword (ev_now E) ?name h) ?rest s1 = (Inr a, t)"
    using run unfolding reset_writes_def Let_def rowToUser_simps by (rule bndE)
  have s1: "s1 = s" using h by (auto simp: hashed_def of_crypto_def split: option.splits sum.splits crypto_error.splits)
  let ?s2 = "on_user (c_username r) (\<lambda>r. bump (ev_now E) (r\<lparr>c_password_hash := Some h, c_token := None\<rparr>)) s"
  have w2: "?rest ?s2 = (Inr a, t)"
    using w unfolding s1 by (simp add: updatePassword_def requireSelector_def andthen_run)
  have "column_eq (c_username r) (c_username r)" by (simp add: column_eq_key)
  then have dead: "dead_link L tok ?s2"
    using one by (auto simp: dead_link_def on_user_def set_sql_update bump_def matches_def)
  have "runs_in (user_stmts (ev_collations E) ?W) ?rest"
    by (auto intro!: act_rules runs_updateStatus)
  then have "user_stmts (ev_collations E) ?W ?s2 t" using w2 by (rule runs_inD_run)
  from this dead show ?thesis by (rule dead_link_stmts) simp
qed

lemma reset_refused:
  assumes "dead_link (ev_collations E) tok s" and "text_of (body_field q ''token'') = Some tok"
  shows "\<exists>r. resetPassword E q s = (Inr r, s) \<and> rs_status r = 400"
proof -
  have "findByToken (ev_collations E) (body_field q ''token'') s = None"
    using assms by (auto simp: findByToken_def dead_link_def find_None_key)
  then show ?thesis by (simp add: resetPassword_def bnd_run message_def with_body_def)
qed

text \<open>
  C23: A reset link that set a password is dead: whatever requests follow, every further reset with it is
  refused and changes nothing, unless the random source repeats the token.
\<close>

theorem used_link_is_dead:
  assumes ok: "users_ok s" and tok: "text_of (body_field q ''token'') = Some tok"
    and one: "\<And>r p. r \<in> set (ac_users s) \<Longrightarrow> p \<in> set (ac_users s) \<Longrightarrow> matches (same_token (ev_collations E)) tok (c_token r) \<Longrightarrow>
      matches (same_token (ev_collations E)) tok (c_token p) \<Longrightarrow> r = p"
    and run: "serve_user E Password_reset header q s = (Inr a, t)" "rs_status a = 200"
    and fresh: "\<forall>(E', x)\<in>set h. \<not> same_token (ev_collations E) (ev_uuid E') tok"
    and again: "ev_collations E' = ev_collations E" "text_of (body_field q' ''token'') = Some tok"
  shows "\<exists>r. serve_user E' Password_reset header' q' (serve_all h t) = (Inr r, serve_all h t) \<and> rs_status r = 400"
proof -
  have t: "users_ok t" using serve_users_ok [OF ok, of E Password_reset header q] run(1) by simp
  have "resetPassword E q s = (Inr a, t)" using run(1) by (simp add: serve_user_def)
  then obtain r where r: "linked (ev_collations E) (body_field q ''token'') s = Some r"
      and w: "reset_writes E (rowToUser r) (body_field q ''password'') s = (Inr a, t)"
    using run(2) by (auto simp: resetPassword_def bnd_run findByToken_linked message_def with_body_def split: if_splits option.splits)
  have "matches (same_token (ev_collations E)) tok (c_token r)"
    using r tok by (auto simp: linked_def dest: find_Some_key)
  then have "dead_link (ev_collations E) tok t"
    using reset_writes_dead [OF ok linked_in [OF r] _ _ w] one linked_in [OF r] by blast
  from dead_link_history [OF t this fresh] have "dead_link (ev_collations E') tok (serve_all h t)" using again(1) by simp
  from reset_refused [OF this again(2)] show ?thesis by (simp add: serve_user_def)
qed

section \<open>Revisions\<close>

definition revised :: "int \<Rightarrow> nat \<Rightarrow> user_service \<Rightarrow> bool" where
  "revised i k s \<longleftrightarrow> (\<exists>r\<in>set (ac_users s). c_id r = i \<and> k < c_revision r)"

lemma revised_step:
  assumes "users_step W (ac_users s) (ac_users t)" and "revised i k s"
  shows "revised i k t"
proof -
  from assms(2) obtain r where r: "r \<in> set (ac_users s)" "c_id r = i" "k < c_revision r" by (auto simp: revised_def)
  then obtain q where "q \<in> set (ac_users t)" "row_step W r q"
    using grows_row [OF _ r(1)] assms(1) unfolding users_step_def by fast
  with r show ?thesis by (force simp: revised_def row_step_def)
qed

definition has_row :: "int \<Rightarrow> string \<Rightarrow> user_service \<Rightarrow> bool" where
  "has_row i u s \<longleftrightarrow> (\<exists>r\<in>set (ac_users s). c_id r = i \<and> column_eq (c_username r) u)"

lemma has_row_step:
  assumes "users_step W (ac_users s) (ac_users t)" and "has_row i u s"
  shows "has_row i u t"
proof -
  from assms(2) obtain r where r: "r \<in> set (ac_users s)" "c_id r = i" "column_eq (c_username r) u" by (auto simp: has_row_def)
  then obtain q where "q \<in> set (ac_users t)" "row_step W r q"
    using grows_row [OF _ r(1)] assms(1) unfolding users_step_def by fast
  with r show ?thesis by (force simp: has_row_def row_step_def)
qed

lemma revised_history:
  assumes "users_ok s" and "revised i k s" and "has_row i u s"
  shows "users_ok (serve_all h s) \<and> revised i k (serve_all h s) \<and> has_row i u (serve_all h s)"
  using assms
proof (induction h arbitrary: s)
  case (Cons x h)
  obtain E route header q where x: "x = (E, route, header, q)" by (cases x) auto
  note step = users_step_stmts [OF serve_stmts [OF Cons.prems(1), of E route header q]]
  show ?case
    using Cons.IH [OF serve_users_ok [OF Cons.prems(1)] revised_step [OF step Cons.prems(2)] has_row_step [OF step Cons.prems(3)]]
    by (simp add: x)
qed simp

lemma revision_written:
  assumes "users_ok s" and "updateUserDetails K n v d (Some (int k)) s = (Inr True, t)" and "text_of v = Some u"
  shows "users_ok t \<and> (\<exists>i. revised i k t \<and> has_row i u t)"
proof -
  let ?hit = "\<lambda>r. column_eq (c_username r) u \<and> int (c_revision r) = int k"
  from assms(2,3) have t: "t = s\<lparr>ac_users := sql_update ?hit (with_details K n d) (ac_users s)\<rparr>" and "0 < sql_matched ?hit (ac_users s)"
    by (auto simp: updateUserDetails_def requireSelector_def effect_simps Let_def split: if_splits)
  then obtain r where r: "r \<in> set (ac_users s)" "?hit r" unfolding sql_matched_pos by blast
  then have "with_details K n d r \<in> set (ac_users t)" unfolding t by (force simp: set_sql_update)
  moreover have "users_ok t" unfolding t by (rule keyed_update [OF assms(1)]) (simp_all add: with_details_def bump_def)
  moreover have "c_revision (with_details K n d r) = k + 1" "c_username (with_details K n d r) = c_username r"
    using r(2) by (simp_all add: with_details_def bump_def)
  ultimately show ?thesis using r(2) by (force simp: revised_def has_row_def)
qed

lemma revision_refused:
  assumes ok: "users_ok s" and "revised i k s" and "has_row i u s" and v: "text_of v = Some u"
  shows "updateUserDetails K n v d (Some (int k)) s = (Inr False, s)"
proof -
  have no: "\<not> (column_eq (c_username r) u \<and> int (c_revision r) = int k)" if r: "r \<in> set (ac_users s)" for r
  proof
    assume hit: "column_eq (c_username r) u \<and> int (c_revision r) = int k"
    obtain p where p: "p \<in> set (ac_users s)" "c_id p = i" "k < c_revision p" using assms(2) by (auto simp: revised_def)
    obtain q where q: "q \<in> set (ac_users s)" "c_id q = i" "column_eq (c_username q) u" using assms(3) by (auto simp: has_row_def)
    have "q = p" by (rule map_of_key_unique [of c_id]) (use ok p q in \<open>auto simp: users_ok_def\<close>)
    moreover have "r = q" by (rule users_ok_same [OF ok r q(1)]) (use hit q(3) in \<open>simp add: column_eq_key\<close>)
    ultimately show False using hit p(3) by simp
  qed
  then have none: "column_eq (c_username r) u \<Longrightarrow> c_revision r \<noteq> k" if "r \<in> set (ac_users s)" for r using that by simp
  have "sql_update (\<lambda>r. column_eq (c_username r) u \<and> c_revision r = k) (with_details K n d) (ac_users s) = ac_users s"
    by (rule sql_update_none) (use none in blast)
  moreover have "\<not> (\<exists>r\<in>set (ac_users s). column_eq (c_username r) u \<and> c_revision r = k)" using none by blast
  ultimately show ?thesis
    by (auto simp: updateUserDetails_def requireSelector_def effect_simps Let_def v sql_matched_pos)
qed

text \<open>
  C36: Of two edits of a user that name one revision at most one is written: once the first is, the second is
  a conflict and changes nothing, whatever requests come between, by whoever they are made.
\<close>

theorem one_revision_wins:
  assumes ok: "users_ok s" and target: "text_of target = Some u"
    and first: "applyDetails E q target b s = (Inr (Updated v), t)" "toRevision (body_field q ''revision'') = Revision (int k)"
    and second: "toRevision (body_field q' ''revision'') = Revision (int k)"
      "nullish (body_field q' ''email'') JNull = JNull \<or> isValidEmail (body_field q' ''email'')"
  shows "applyDetails E' q' target b' (serve_all h t) = (Inr Conflict, serve_all h t)"
proof -
  obtain s1 where s1: "updateUserDetails (ev_collations E) (ev_now E) target (details_of q b) (Some (int k)) s = (Inr True, s1)"
      and t: "ac_users t = ac_users s1" "ac_nextId t = ac_nextId s1"
    using first
    by (auto simp: applyDetails_def effect_simps publishUserUpdated_def required_def emit_user_def
        split: if_splits option.splits sum.splits prod.splits)
  have "users_ok t \<and> (\<exists>i. revised i k t \<and> has_row i u t)"
    using revision_written [OF ok s1 target] by (simp add: users_ok_def revised_def has_row_def t)
  then obtain i where i: "users_ok t" "revised i k t" "has_row i u t" by blast
  note later = revised_history [OF i, of h]
  have "findByUsername target (serve_all h t) \<noteq> None"
    using later target by (auto simp: findByUsername_def find_row_def has_row_def find_None_key)
  then obtain w where w: "findByUsername target (serve_all h t) = Some w" by blast
  have "updateUserDetails (ev_collations E') (ev_now E') target (details_of q' b') (Some (int k)) (serve_all h t) = (Inr False, serve_all h t)"
    using revision_refused later target by blast
  then show ?thesis using second target w
    by (auto simp: applyDetails_def isText_def effect_simps)
qed

section \<open>SSH keys\<close>

text \<open>
  Stored keys: each reads back from its line as it is stored, and no user has one twice.
\<close>

definition keys_ok :: "(bytes \<Rightarrow> bytes) \<Rightarrow> user_service \<Rightarrow> bool" where
  "keys_ok sha256 s \<longleftrightarrow>
     (\<forall>k\<in>set (sv_keys s). parsePublicKey sha256 (Some (JStr (authorizedKeysLine (k_type k) (k_publicKey k)))) =
        Inr (Inr \<lparr>pk_type = k_type k, pk_publicKey = k_publicKey k, pk_comment = [], pk_fingerprint = k_fingerprint k\<rparr>)
        \<and> filter is_space (authorizedKeysLine (k_type k) (k_publicKey k)) = '' '') \<and>
     distinct (map (\<lambda>k. (column_key (k_username k), k_fingerprint k)) (sv_keys s))"

lemma keys_ok_stmt:
  assumes "user_stmt K W s t" and "keys_ok sha256 s"
    and "\<And>pk. may_key W pk \<Longrightarrow> \<exists>line. parsePublicKey sha256 line = Inr (Inr pk)"
  shows "keys_ok sha256 t"
  using assms(1,2)
proof (induction rule: user_stmt.induct)
  case (key pk s u n name)
  obtain line where "parsePublicKey sha256 line = Inr (Inr pk)" using assms(3) [OF key.hyps(1)] by blast
  from key_reads_back [OF this] key show ?case
    by (auto simp: keys_ok_def new_key_def column_eq_key)
next
  case (unkey s hit)
  then show ?case by (auto simp: keys_ok_def sql_delete_def distinct_map_filter)
qed (auto simp: keys_ok_def on_user_def)

lemma keys_ok_stmts:
  "user_stmts K W s t \<Longrightarrow> keys_ok sha256 s \<Longrightarrow> (\<And>pk. may_key W pk \<Longrightarrow> \<exists>line. parsePublicKey sha256 line = Inr (Inr pk)) \<Longrightarrow>
    keys_ok sha256 t"
  by (induction rule: rtranclp_induct) (auto intro: keys_ok_stmt)

text \<open>
  C38: Under any sequence of requests every line the host's SSH daemon is given for a registered key is one
  line of an accepted type and the base64 of a blob that parses to that key; and no user has a key twice.
\<close>

theorem registered_keys_read_back:
  assumes "users_ok s" and "keys_ok sha256 s" and "\<forall>(E, x)\<in>set h. ev_sha256 E = sha256"
  shows "keys_ok sha256 (serve_all h s)"
  using assms
proof (induction h arbitrary: s)
  case (Cons x h)
  obtain E route header q where x: "x = (E, route, header, q)" by (cases x) auto
  have "keys_ok sha256 (snd (serve_user E route header q s))"
    by (rule keys_ok_stmts [OF serve_stmts [OF Cons.prems(1)] Cons.prems(2)]) (use Cons.prems(3) x in auto)
  with Cons.IH [OF serve_users_ok [OF Cons.prems(1)]] Cons.prems(3) show ?case by (simp add: x)
qed simp

section \<open>Examples\<close>

definition bob_row :: user_row where
  "bob_row = \<lparr>c_id = 1, c_username = ''bob'', c_name = JStr ''Bob'', c_email = Some ''bob@example.org'', c_organization = JNull,
     c_intended_use = JNull, c_token = Some ''t1'', c_token_generation_time = 0, c_admin = False, c_system_user = False,
     c_status = ACTIVE, c_google = no_google_tokens, c_creation_time = 0, c_update_time = 0, c_last_login_time = None,
     c_email_notifications_enabled = True, c_manual_map_rendering_enabled = False, c_privacy_policy_accepted = True,
     c_password_hash = Some ''{PLAIN}old'', c_ssh_public_key = Some ''key'', c_uid = Some 1, c_gid = Some 1, c_revision = 3\<rparr>"

definition service_with :: "user_row \<Rightarrow> user_service" where
  "service_with r = \<lparr>ac_users = [r], ac_nextId = 2, sv_throttle = throttle_start, sv_events = [], sv_keys = [], sv_nextKey = 1\<rparr>"

definition env_example :: user_env where
  "env_example = \<lparr>ev_now = 5000, ev_collations = \<lparr>same_email = (\<lambda>a b. a = b), same_token = (\<lambda>a b. a = b)\<rparr>, ev_crypto = crypto_example,
     ev_salt = [1, 2], ev_uuid = ''t2'', ev_limits = throttle_example, ev_recaptcha = (\<lambda>t a. True), ev_provision = (\<lambda>u i j. Some ''key''),
     ev_refresh = (\<lambda>t. RefreshFailed), ev_requestTokens = (\<lambda>c. None), ev_sign = (\<lambda>u p. p), ev_localPath = (\<lambda>d. ''/''), ev_authUrl = (\<lambda>t. t),
     ev_sha1hex = (\<lambda>t. t), ev_sha256 = (\<lambda>b. [])\<rparr>"

definition request_of :: "(string \<times> json) list \<Rightarrow> user_request" where
  "request_of fs = \<lparr>rq_body = JObj fs, rq_query = JNull, rq_querystring = [], rq_user = JNull, rq_email = None, rq_ifNoneMatch = None\<rparr>"

definition header_of :: "string \<Rightarrow> json option" where
  "header_of u = Some (JObj [(''username'', JStr u), (''roles'', JArr []), (''admin'', JBool False)])"

definition reset_example :: user_request where
  "reset_example = request_of [(''token'', JStr ''t1''), (''password'', JStr ''a new password'')]"

definition details_example :: user_request where
  "details_example = request_of [(''name'', JStr ''Bob''), (''email'', JStr ''bob@example.org''), (''revision'', JNum 3)]"

definition add_key_example :: user_request where
  "add_key_example = request_of [(''name'', JStr ''laptop''), (''publicKey'', JStr (''ssh-ed25519 '' @ key_example))]"

lemma service_with_ok: "users_ok (service_with (bob_row\<lparr>c_status := st\<rparr>))" "users_ok (service_with bob_row)"
  by (simp_all add: users_ok_def service_with_def bob_row_def)



lemma example_key:
  "scrypt crypto_example p salt SCRYPT_N SCRYPT_R SCRYPT_P SCRYPT_KEY_BYTES = Some (take SCRYPT_KEY_BYTES (p @ replicate SCRYPT_KEY_BYTES 0))"
  by (simp add: crypto_example_def)

lemma reset_example_runs:
  "case fst (serve_user env_example Password_reset None reset_example (service_with bob_row)) of Inl e \<Rightarrow> False | Inr a \<Rightarrow> rs_status a = 200"
proof -
  obtain h where h: "hashPassword crypto_example [1, 2] ''a new password'' = Inr h"
    using hashPassword_new [OF example_key] by blast
  have q: "body_field reset_example ''token'' = Some (JStr ''t1'')" "body_field reset_example ''password'' = Some (JStr ''a new password'')"
    by (simp_all add: reset_example_def request_of_def body_field_def)
  have "isValidPassword (Some (JStr ''a new password''))" by code_simp
  moreover have "findByToken (ev_collations env_example) (Some (JStr ''t1'')) (service_with bob_row) = Some (rowToUser bob_row)"
    by (simp add: findByToken_def service_with_def env_example_def bob_row_def matches_def)
  moreover have "hashed env_example (Some (JStr ''a new password'')) (service_with bob_row) = (Inr h, service_with bob_row)"
    using h by (simp add: hashed_def env_example_def of_crypto_def)
  moreover have "column_eq ''bob'' ''bob''" by (simp add: column_eq_key)
  moreover have "\<not> isExpired 0 5000" by (simp add: isExpired_def TOKEN_MAX_AGE_MS_def)
  ultimately show ?thesis
    by (simp add: serve_user_def resetPassword_def q reset_writes_def effect_simps Let_def env_example_def
        updatePassword_def updateStatus_def requireSelector_def on_user_def service_with_def bump_def findByUsername_def find_row_def
        required_def falsy_text_def publishUserUpdated_def emit_user_def map_user_def with_body_def bob_row_def)
qed

theorem used_link_is_dead_witness:
  "\<exists>t r. t = snd (serve_user env_example Password_reset None reset_example (service_with bob_row)) \<and>
     serve_user env_example Password_reset None reset_example (serve_all [(env_example, Sign_up, None, reset_example)] t) =
       (Inr r, serve_all [(env_example, Sign_up, None, reset_example)] t) \<and> rs_status r = 400"
proof -
  obtain a t where run: "serve_user env_example Password_reset None reset_example (service_with bob_row) = (Inr a, t)" "rs_status a = 200"
    using reset_example_runs
    by (cases "serve_user env_example Password_reset None reset_example (service_with bob_row)") (auto split: sum.splits)
  have tok: "text_of (body_field reset_example ''token'') = Some ''t1''"
    by (simp add: reset_example_def request_of_def body_field_def)
  have fresh: "\<forall>(E', x)\<in>set [(env_example, Sign_up, None, reset_example)]. \<not> same_token (ev_collations env_example) (ev_uuid E') ''t1''"
    by (simp add: env_example_def)
  from used_link_is_dead [OF service_with_ok(2) tok _ run fresh refl tok, of None] run(1)
  show ?thesis by (simp add: service_with_def)
qed

lemma details_example_runs:
  "case fst (applyDetails env_example details_example (Some (JStr ''bob'')) False (service_with bob_row)) of Inr (Updated u) \<Rightarrow> True | _ \<Rightarrow> False"
  by code_simp

theorem one_revision_wins_witness:
  "\<exists>v t. applyDetails env_example details_example (Some (JStr ''bob'')) False (service_with bob_row) = (Inr (Updated v), t) \<and>
     applyDetails env_example details_example (Some (JStr ''bob'')) False (serve_all [] t) = (Inr Conflict, serve_all [] t)"
proof -
  obtain v t where run: "applyDetails env_example details_example (Some (JStr ''bob'')) False (service_with bob_row) = (Inr (Updated v), t)"
    using details_example_runs
    by (cases "applyDetails env_example details_example (Some (JStr ''bob'')) False (service_with bob_row)")
      (auto split: sum.splits details_outcome.splits)
  have k: "toRevision (body_field details_example ''revision'') = Revision (int 3)"
    by (simp add: details_example_def request_of_def body_field_def toRevision_def)
  have mail: "nullish (body_field details_example ''email'') JNull = JNull \<or> isValidEmail (body_field details_example ''email'')"
    by code_simp
  have "applyDetails env_example details_example (Some (JStr ''bob'')) False (serve_all [] t) = (Inr Conflict, serve_all [] t)"
    by (rule one_revision_wins [OF service_with_ok(2) _ run k k mail, of "''bob''"]) simp
  with run show ?thesis by blast
qed

theorem registered_keys_read_back_witness:
  "keys_ok (\<lambda>b. []) (serve_all [(env_example, Add_ssh_key, header_of ''bob'', add_key_example)] (service_with bob_row)) \<and>
   length (sv_keys (serve_all [(env_example, Add_ssh_key, header_of ''bob'', add_key_example)] (service_with bob_row))) = 1"
proof
  show "keys_ok (\<lambda>b. []) (serve_all [(env_example, Add_ssh_key, header_of ''bob'', add_key_example)] (service_with bob_row))"
    by (rule registered_keys_read_back [OF service_with_ok(2)]) (simp_all add: keys_ok_def service_with_def env_example_def)
  show "length (sv_keys (serve_all [(env_example, Add_ssh_key, header_of ''bob'', add_key_example)] (service_with bob_row))) = 1"
    by code_simp
qed

section \<open>Where the rules give way\<close>

text \<open>A reset whose checks came before a lock undoes the lock.\<close>

lemma reset_undoes_lock:
  "\<exists>a t. reset_writes env_example (rowToUser bob_row) (Some (JStr ''a new password'')) (service_with (bob_row\<lparr>c_status := LOCKED\<rparr>)) = (Inr a, t) \<and>
     map c_status (ac_users t) = [ACTIVE]"
proof -
  obtain h where h: "hashPassword crypto_example [1, 2] ''a new password'' = Inr h"
    using hashPassword_new [OF example_key] by blast
  have "hashed env_example (Some (JStr ''a new password'')) s = (Inr h, s)" for s
    using h by (simp add: hashed_def env_example_def of_crypto_def)
  moreover have "column_eq ''bob'' ''bob''" by (simp add: column_eq_key)
  ultimately show ?thesis
    by (simp add: reset_writes_def effect_simps Let_def updatePassword_def updateStatus_def requireSelector_def on_user_def
        service_with_def bump_def findByUsername_def find_row_def required_def falsy_text_def publishUserUpdated_def emit_user_def
        map_user_def with_body_def bob_row_def)
qed

text \<open>A name with a blank at its end finds the same account, and is throttled apart.\<close>

lemma padded_name_throttled_apart:
  "column_eq u (u @ '' '') \<and>
   user_key \<lparr>lg_username = Some (JStr u), lg_clientIp = ip\<rparr> \<noteq> user_key \<lparr>lg_username = Some (JStr (u @ '' '')), lg_clientIp = ip\<rparr>"
proof -
  let ?c = "client_key \<lparr>lg_username = Some (JStr u), lg_clientIp = ip\<rparr>"
  have "client_key \<lparr>lg_username = Some (JStr (u @ '' '')), lg_clientIp = ip\<rparr> = ?c" by (simp add: client_key_def)
  moreover have "length (storedUsername (u @ '' '')) = Suc (length (storedUsername u))" by (simp add: storedUsername_def)
  then have "storedUsername u @ x \<noteq> storedUsername (u @ '' '') @ x" for x by (metis append_same_eq n_not_Suc_n)
  moreover have "unpadded (u @ '' '') = unpadded u" by (simp add: unpadded_def)
  ultimately show ?thesis by (simp add: user_key_def column_eq_def)
qed

end
