(* ===== verification/Spec2Isabelle.thy ===== *)
theory Spec2Isabelle
  imports SessionBudget WorkerInstances InstanceUsage StorageSafety GatewayTasks SandboxSafety SocketsSafety UserSafety
begin

text \<open>
  A verification development of six of SEPAL's JavaScript services and of what they rely on each
  other for.

  \<^bold>\<open>The program.\<close> SEPAL runs users' processing tasks and interactive sandboxes on machines it rents.
  The \<^emph>\<open>task-manager\<close> (\<^verbatim>\<open>src/modules/task-manager\<close>) keeps the table of tasks and runs each
  task in a Docker container. The \<^emph>\<open>worker\<close> (\<^verbatim>\<open>src/modules/worker\<close>) keeps worker sessions
  (\<^verbatim>\<open>workerSession\<close>), the instances they run on (\<^verbatim>\<open>workerInstance\<close>) and samples of their use
  (\<^verbatim>\<open>instanceUsage\<close>). The \<^emph>\<open>budget\<close> module (\<^verbatim>\<open>src/modules/budget\<close>) accounts for what sessions and
  storage cost, and refuses users over budget. The \<^emph>\<open>storage\<close> module (\<^verbatim>\<open>src/modules/storage\<close>) measures
  users' storage and erases that of users who stay away. The \<^emph>\<open>gateway\<close> (\<^verbatim>\<open>src/modules/gateway\<close>) stands in
  front of all of them: it keeps login sessions, authenticates requests and tells the modules whom a
  request speaks for. The \<^emph>\<open>user\<close> module (\<^verbatim>\<open>src/modules/user\<close>) keeps the accounts, their passwords, reset
  links, SSH keys and Google tokens, and answers the gateway who a login is. The worker announces sessions to the budget module, which
  settles them, and asks it for a verdict before it gives out a session; the sampler extends the
  deadline of a busy session; the gateway asks the task-manager whose task an API key is.

  \<^bold>\<open>How code becomes definitions.\<close> An \<^verbatim>\<open>async\<close> function is an action \<open>('s, 'e, 'a) act\<close> of \<^theory_text>\<open>Prelude\<close>:
  a function of the state that rejects or resolves and returns the state it leaves. A repository is a
  record of tables, a table a list of rows, a statement a function of the table. What is not in the
  repository - the Docker daemon, the disk, the clocks, fresh identifiers, other services - is a record
  of functions over an arbitrary world, which the properties quantify over. Times are milliseconds;
  amounts of money and other doubles are exact rationals. Two properties of the source need more than
  the run of one function: that handlers interleave at their awaits. The task and the session tables are
  covered by the relations \<open>task_stmt\<close> and \<open>session_stmt\<close>, "one statement of the repository": what is
  proved of their closure holds however handlers interleave. The instance commands are programs of
  \<^theory_text>\<open>Interleaving\<close>, suspended at each await, and their exclusive allocation is proved for every
  interleaving.

  \<^bold>\<open>The theories.\<close>
  \<^item> \<^theory_text>\<open>Prelude\<close>: actions, the locale \<open>evolution\<close> that pushes a relation through every action built of
    the combinators, tables and SQL, JSON, strings.
  \<^item> \<^theory_text>\<open>TaskModel\<close>, \<^theory_text>\<open>TaskRepository\<close>: \<^verbatim>\<open>task.js\<close>, \<^verbatim>\<open>taskRepository.js\<close>; the life of a task row.
  \<^item> \<^theory_text>\<open>LocalProcessingSlots\<close>: \<^verbatim>\<open>localProcessingSlots.js\<close>, the fair line for slots.
  \<^item> \<^theory_text>\<open>ContainerSpec\<close>: \<^verbatim>\<open>containerSpec.js\<close>, \<^verbatim>\<open>dockerEngine.js\<close>, \<^verbatim>\<open>taskWorkspace.js\<close>.
  \<^item> \<^theory_text>\<open>Supervisor\<close>, \<^theory_text>\<open>SupervisorJobs\<close>: \<^verbatim>\<open>containerSupervisor.js\<close>, launching and dispatching within the
    limits, collecting, reconciling, timing out, and the queue.
  \<^item> \<^theory_text>\<open>Tasks\<close>, \<^theory_text>\<open>TasksApi\<close>: \<^verbatim>\<open>tasks.js\<close>, \<^verbatim>\<open>tasksApi.js\<close>, \<^verbatim>\<open>currentUser.js\<close>, \<^verbatim>\<open>routes.js\<close>; the server
    as one step relation.
  \<^item> \<^theory_text>\<open>SessionRepository\<close>, \<^theory_text>\<open>SessionCommands\<close>, \<^theory_text>\<open>Sessions\<close>: \<^verbatim>\<open>workerSessionRepository.js\<close>,
    \<^verbatim>\<open>sessionAppRepository.js\<close>, \<^verbatim>\<open>workerSession/command/*.js\<close>, \<^verbatim>\<open>sessionManager.js\<close>; closing once,
    the deadline ratchet, the expiry sweep, ownership, refusals.
  \<^item> \<^theory_text>\<open>Interleaving\<close>, \<^theory_text>\<open>Instances\<close>, \<^theory_text>\<open>InstanceCommands\<close>, \<^theory_text>\<open>InstanceClaims\<close>, \<^theory_text>\<open>WorkerInstances\<close>:
    \<^verbatim>\<open>workerInstance/*.js\<close>, \<^verbatim>\<open>workerInstance/command/*.js\<close>, \<^verbatim>\<open>localInstanceProvider.js\<close>; the contract of
    a hosting service is the locale \<open>hosting_service\<close>, interpreted on the local provider.
  \<^item> \<^theory_text>\<open>UsageModel\<close>, \<^theory_text>\<open>UsageSampler\<close>, \<^theory_text>\<open>InstanceUsage\<close>: \<^verbatim>\<open>instanceUsage/*.js\<close>; the arithmetic, one tick of
    the sampler, the rollup, and what bounds the deadlines it extends.
  \<^item> \<^theory_text>\<open>DateTime\<close>, \<^theory_text>\<open>BudgetModel\<close>, \<^theory_text>\<open>BudgetRepository\<close>, \<^theory_text>\<open>BudgetCommands\<close>, \<^theory_text>\<open>Budget\<close>,
    \<^theory_text>\<open>BudgetTables\<close>: \<^verbatim>\<open>dateTime.js\<close>, \<^verbatim>\<open>dto.js\<close>, \<^verbatim>\<open>budgetRepository.js\<close>, \<^verbatim>\<open>openSessionUse.js\<close> and the
    commands; use rows that converge, bounded charges, verdicts, reconciliation, the tables' invariant.
  \<^item> \<^theory_text>\<open>SessionBudget\<close>: the worker's request with the budget module's verdict as its budget check.
  \<^item> \<^theory_text>\<open>KeyCase\<close>: \<^verbatim>\<open>lib/js/shared/src/redisKeyCase.js\<close>, the keys of a store brought to the stored spelling.
  \<^item> \<^theory_text>\<open>StorageModel\<close>, \<^theory_text>\<open>StorageChecks\<close>, \<^theory_text>\<open>StorageSafety\<close>: \<^verbatim>\<open>storage/src/*.js\<close>; what is kept of a user, the
    inactivity check, the scans and messages; the service as a step relation, under which nobody's storage
    is erased unwarned and a history never repeats a state.
  \<^item> \<^theory_text>\<open>GatewayModel\<close>, \<^theory_text>\<open>GatewayAuth\<close>, \<^theory_text>\<open>GatewaySafety\<close>, \<^theory_text>\<open>GatewaySessions\<close>: \<^verbatim>\<open>gateway/src/*.js\<close>; users, login
    sessions, credentials, routes and forwarded headers; whom a forwarded request speaks for, locks, logins,
    upgrades, metrics, the names in the cache.
  \<^item> \<^theory_text>\<open>Triples\<close>: triples over actions and invariants as triples.
  \<^item> \<^theory_text>\<open>SandboxModel\<close>, \<^theory_text>\<open>SandboxRoutes\<close>, \<^theory_text>\<open>SandboxSafety\<close>: \<^verbatim>\<open>gateway/src/sandbox/*.js\<close>; the cache of which session
    serves which app, the routing of requests, interactions and heartbeats; histories of events, under which
    requests reach only sessions the worker named, closed sessions are reached no more and untouched ones
    are not prolonged.
  \<^item> \<^theory_text>\<open>SocketsModel\<close>, \<^theory_text>\<open>SocketsSafety\<close>: \<^verbatim>\<open>gateway/src/websocket*.js\<close>; clients, modules and the events between them
    as a step relation: arrivals and departures, whom news reaches, and what a lock does to open sockets.
  \<^item> \<^theory_text>\<open>LoginThrottle\<close>, \<^theory_text>\<open>SshKeys\<close>, \<^theory_text>\<open>Passwords\<close>: \<^verbatim>\<open>user/src/loginThrottle.js\<close>, \<^verbatim>\<open>sshKeys.js\<close>, \<^verbatim>\<open>crypto.js\<close>; how
    many guesses pass, which lines are keys, and that a hash verifies its password.
  \<^item> \<^theory_text>\<open>Accounts\<close>, \<^theory_text>\<open>UserApi\<close>, \<^theory_text>\<open>UserRoutes\<close>, \<^theory_text>\<open>UserSafety\<close>: the other files of \<^verbatim>\<open>user/src\<close>; the table of
    users and its statements, every request behind the guards of its route (\<open>serve_user\<close>), and each request as a
    sequence of permitted statements (\<open>user_stmt\<close>): who may change passwords, status and the administrator
    flag, links that are used once, edits that do not overwrite each other, keys that read back.
  \<^item> \<^theory_text>\<open>GatewayTasks\<close>: the gateway with the task-manager behind it; a task's key reaches its own task.

  \<^bold>\<open>Bounds and termination.\<close> No definition has fuel. \<open>dispatch_loop\<close> and \<open>matchAll\<close> terminate by
  measures (free room and pending tasks; the length of the text). A provision makes at most ten attempts.

  \<^bold>\<open>Where the model is coarser than the code.\<close> A missing username in a header is the empty string; a
  Docker call that times out is a refused one; logging and metrics other than the usage gauges are
  omitted; an announcement stands for the helper that emits it and signals the change; a description
  of a session carries its apps but neither terminals nor ordinals; \<^verbatim>\<open>Number()\<close> has been applied to the
  bodies of budget requests; the push of spending to open clients is omitted; the range of a timestamp
  column and daylight saving are ignored; the averages of the usage tables are not rounded; a second
  caller that waits for a release in flight is not modelled; the sampler always has its policy and its
  registries, as \<^verbatim>\<open>main.js\<close> wires it; the job queues of the storage module are logs of what they were
  handed, any of which may run once due, and one clock serves the module and its database; rows of a
  history with equal times are taken in the order of their ids; the mark that the module was started is
  the text "yes"; equal rescans are not debounced; what a client writes into a header of the gateway's is
  kept apart from what the gateway writes, texts of credentials are ASCII, a mounted path is matched
  without regard to case as the web framework documents, and a batch size of 0 is not modelled; in the sandbox component no two operations share a
  call in flight, no time passes within one, the URL parser is a parameter, and what the worker named and
  the heartbeats sent are records of the exchange; a question of the sockets to the user store is answered in
  any order; a request of the user module runs to its end at one time (what a lock within a reset comes to is
  \<open>reset_undoes_lock\<close>), the collations of emails and tokens, the digests, reCAPTCHA, Google and the provisioning
  script are its parameters, usernames are ASCII, names and organizations are kept as they are supplied,
  a revision is read from decimal notation only, and the credentials file and the revocation of tokens at
  Google, whose failures change nothing, are left out. Outside the instance commands an action runs to its end; the
  statement relations are what covers interleaving there.

  \<^bold>\<open>Not modelled.\<close> Start-up, configuration, migrations and message transport of the six modules, and the websockets of
  all but the gateway; mail texts, and the calls of reCAPTCHA and Google; response headers of the gateway, its background refresh of Google tokens;
  the AWS hosting service and the Docker calls of the provisioner (parameters); reports that only
  read; the other services, the browser application and the Earth Engine programs, which are listed as
  components that are not modelled.
\<close>

end
